(* ===== verification/Prelude.thy ===== *)
theory Prelude
  imports Main "HOL-Library.Word"
begin

text \<open>
  Shared vocabulary of the development: the result codes the C++ code returns, the
  \<open>CHK_RET\<close> sequencing macro of \<open>log.h\<close>, the machine integer types, and a small
  library on step systems (reachability, invariants, exclusion) that the concurrent
  components instantiate.
\<close>

section \<open>Machine integers and result codes\<close>

type_synonym u8 = "8 word"
type_synonym u16 = "16 word"
type_synonym u32 = "32 word"
type_synonym u64 = "64 word"

text \<open>The codes of \<open>HcclResult\<close> the modelled functions return.\<close>

datatype HcclResult =
    HCCL_SUCCESS
  | HCCL_E_PARA
  | HCCL_E_PTR
  | HCCL_E_MEMORY
  | HCCL_E_INTERNAL
  | HCCL_E_NOT_SUPPORT
  | HCCL_E_NOT_FOUND
  | HCCL_E_UNAVAIL
  | HCCL_E_SYSCALL
  | HCCL_E_TIMEOUT
  | HCCL_E_TCP_CONNECT
  | HCCL_E_NETWORK
  | HCCL_E_RUNTIME
  | HCCL_E_AGAIN
  | HCCL_E_SUSPENDING

text \<open>\<open>CHK_RET(call); rest\<close>: a result other than success is returned at once.\<close>

fun chk_ret :: "HcclResult \<times> 's \<Rightarrow> ('s \<Rightarrow> HcclResult \<times> 's) \<Rightarrow> HcclResult \<times> 's" where
  "chk_ret (r, s) k = (if r = HCCL_SUCCESS then k s else (r, s))"

lemma chk_ret_assoc: "chk_ret (chk_ret m f) g = chk_ret m (\<lambda>s. chk_ret (f s) g)"
  by (cases m) simp

lemma chk_ret_success_iff:
  "chk_ret m f = (HCCL_SUCCESS, t) \<longleftrightarrow> (\<exists>s. m = (HCCL_SUCCESS, s) \<and> f s = (HCCL_SUCCESS, t))"
  by (cases m) auto

lemma chk_ret_snd_inv:
  "P (snd m) \<Longrightarrow> (\<And>s. P s \<Longrightarrow> P (snd (f s))) \<Longrightarrow> P (snd (chk_ret m f))"
  by (cases m) auto

lemma length_filter_update:
  "i < length xs \<Longrightarrow> length (filter P (xs[i := y])) + (if P (xs ! i) then 1 else 0) =
    length (filter P xs) + (if P y then 1 else 0)"
proof (induction xs arbitrary: i)
  case (Cons x xs)
  show ?case using Cons.prems Cons.IH[of "i - 1"] by (cases i) auto
qed simp

lemma all_update: "\<forall>x\<in>set xs. P x \<Longrightarrow> P y \<Longrightarrow> \<forall>x\<in>set (xs[i := y]). P x"
  by (auto dest: set_update_subset_insert[THEN subsetD])

section \<open>32-bit arithmetic\<close>

definition w32 :: "nat \<Rightarrow> nat" where "w32 x = x mod 2 ^ 32"
definition sub32 :: "nat \<Rightarrow> nat \<Rightarrow> nat" where "sub32 a b = w32 (a + (2 ^ 32 - w32 b))"

lemma w32_id [simp]: "x < 2 ^ 32 \<Longrightarrow> w32 x = x" by (simp add: w32_def)

lemma w32_small: "x < 2 ^ 31 + 2 ^ 31 \<Longrightarrow> w32 x = x" by simp

lemma sub32_id [simp]: "b \<le> a \<Longrightarrow> a < 2 ^ 32 \<Longrightarrow> sub32 a b = a - b"
proof -
  assume a: "b \<le> a" "a < 2 ^ 32"
  then have b: "w32 b = b" by simp
  have "a + (2 ^ 32 - b) = (a - b) + 2 ^ 32" using a by linarith
  then have "sub32 a b = w32 (a - b + 2 ^ 32)" by (simp only: sub32_def b)
  also have "\<dots> = (a - b + 2 ^ 32) mod 2 ^ 32" by (simp only: w32_def)
  also have "\<dots> = (a - b) mod 2 ^ 32" by (rule mod_add_self2)
  also have "\<dots> = a - b" using a by (intro mod_less) linarith
  finally show ?thesis .
qed

section \<open>Step systems\<close>

inductive reach :: "('s \<Rightarrow> bool) \<Rightarrow> ('s \<Rightarrow> 's \<Rightarrow> bool) \<Rightarrow> 's \<Rightarrow> bool"
  for init :: "'s \<Rightarrow> bool" and step :: "'s \<Rightarrow> 's \<Rightarrow> bool"
where
  reach_init [intro]: "init s \<Longrightarrow> reach init step s"
| reach_step: "reach init step s \<Longrightarrow> step s s' \<Longrightarrow> reach init step s'"

text \<open>
  A step system with an inductive invariant, and one whose invariant rules out a
  conflict between participants (two holders of a lock).
\<close>

locale invariant_system =
  fixes init :: "'s \<Rightarrow> bool"
    and step :: "'s \<Rightarrow> 's \<Rightarrow> bool"
    and inv :: "'s \<Rightarrow> bool"
  assumes inv_init: "init s \<Longrightarrow> inv s"
    and inv_step: "inv s \<Longrightarrow> step s s' \<Longrightarrow> inv s'"
begin

lemma reach_inv: "reach init step s \<Longrightarrow> inv s"
  by (induction rule: reach.induct) (auto intro: inv_init inv_step)

lemma steps_inv: "step\<^sup>*\<^sup>* s s' \<Longrightarrow> inv s \<Longrightarrow> inv s'"
  by (induction rule: rtranclp.induct) (auto intro: inv_step)

end

locale exclusion_system = invariant_system init step inv
  for init :: "'s \<Rightarrow> bool" and step :: "'s \<Rightarrow> 's \<Rightarrow> bool" and inv :: "'s \<Rightarrow> bool" +
  fixes holds :: "'s \<Rightarrow> 'p \<Rightarrow> bool"
    and conflict :: "'s \<Rightarrow> 'p \<Rightarrow> 'p \<Rightarrow> bool"
  assumes inv_excl: "inv s \<Longrightarrow> conflict s p q \<Longrightarrow> holds s p \<Longrightarrow> holds s q \<Longrightarrow> False"
begin

lemma reach_excl:
  "reach init step s \<Longrightarrow> conflict s p q \<Longrightarrow> \<not> (holds s p \<and> holds s q)"
  using inv_excl reach_inv by blast

end


section \<open>Reference counted stores\<close>

text \<open>
  A store that counts the holders of each key: \<open>acq\<close> adds a holder of an admissible key,
  \<open>rel\<close> removes one. \<open>lim\<close> is the largest count the implementation can represent.
\<close>

locale refcount_store =
  fixes inv :: "'s \<Rightarrow> bool"
    and cnt :: "'s \<Rightarrow> 'k \<Rightarrow> nat"
    and adm :: "'s \<Rightarrow> 'k \<Rightarrow> bool"
    and acq :: "'k \<Rightarrow> 'v \<Rightarrow> 's \<Rightarrow> 's"
    and rel :: "'k \<Rightarrow> 's \<Rightarrow> 's"
    and lim :: nat
  assumes acq_inv: "inv s \<Longrightarrow> adm s k \<Longrightarrow> cnt s k < lim \<Longrightarrow> inv (acq k v s)"
    and acq_adm: "inv s \<Longrightarrow> adm s k \<Longrightarrow> cnt s k < lim \<Longrightarrow> adm (acq k v s) k"
    and acq_cnt: "inv s \<Longrightarrow> adm s k \<Longrightarrow> cnt s k < lim \<Longrightarrow>
      cnt (acq k v s) j = cnt s j + (if j = k then 1 else 0)"
    and rel_inv: "inv s \<Longrightarrow> 0 < cnt s k \<Longrightarrow> inv (rel k s)"
    and rel_cnt: "inv s \<Longrightarrow> 0 < cnt s k \<Longrightarrow> cnt (rel k s) j = cnt s j - (if j = k then 1 else 0)"
begin

lemma acq_pow:
  assumes "inv s" "adm s k" "cnt s k + n \<le> lim"
  shows "inv ((acq k v ^^ n) s) \<and> adm ((acq k v ^^ n) s) k \<and>
    (\<forall>j. cnt ((acq k v ^^ n) s) j = cnt s j + (if j = k then n else 0))"
  using assms(3)
proof (induction n)
  case 0
  then show ?case using assms by simp
next
  case (Suc n)
  then show ?case
    by (simp add: acq_inv acq_adm acq_cnt)
qed

lemma rel_pow:
  assumes "inv s" "n \<le> cnt s k"
  shows "inv ((rel k ^^ n) s) \<and> (\<forall>j. cnt ((rel k ^^ n) s) j = cnt s j - (if j = k then n else 0))"
  using assms(2)
proof (induction n)
  case 0
  then show ?case using assms by simp
next
  case (Suc n)
  then show ?case
    by (simp add: rel_inv rel_cnt)
qed

lemma balanced:
  assumes "inv s" "adm s k" "cnt s k + n \<le> lim" "m \<le> cnt s k + n"
  shows "cnt ((rel k ^^ m) ((acq k v ^^ n) s)) j = (if j = k then cnt s k + n - m else cnt s j)"
  using acq_pow[OF assms(1-3)] rel_pow[of "(acq k v ^^ n) s" m k] assms(4) by auto

end


section \<open>Queues of segments\<close>

text \<open>
  A bounded queue of elements filled and emptied in segments: \<open>peek\<close> copies the first
  elements out, \<open>pop\<close> drops them.
\<close>

locale segment_queue =
  fixes inv :: "'s \<Rightarrow> bool"
    and contents :: "'s \<Rightarrow> 'e list"
    and capacity :: "'s \<Rightarrow> nat"
    and push :: "'e list \<Rightarrow> 's \<Rightarrow> (HcclResult \<times> 's) option"
    and pop :: "nat \<Rightarrow> 's \<Rightarrow> (HcclResult \<times> 's) option"
    and peek :: "nat \<Rightarrow> 's \<Rightarrow> HcclResult + 'e list"
  assumes push_ok: "inv s \<Longrightarrow> bs \<noteq> [] \<Longrightarrow> length (contents s) + length bs \<le> capacity s \<Longrightarrow>
      \<exists>s'. push bs s = Some (HCCL_SUCCESS, s') \<and> inv s' \<and> contents s' = contents s @ bs \<and>
        capacity s' = capacity s"
    and pop_ok: "inv s \<Longrightarrow> n \<le> length (contents s) \<Longrightarrow>
      \<exists>s'. pop n s = Some (HCCL_SUCCESS, s') \<and> inv s' \<and> contents s' = drop n (contents s) \<and>
        capacity s' = capacity s"
    and peek_ok: "inv s \<Longrightarrow> 0 < n \<Longrightarrow> n \<le> length (contents s) \<Longrightarrow> peek n s = Inr (take n (contents s))"

fun push_all :: "('e list \<Rightarrow> 's \<Rightarrow> (HcclResult \<times> 's) option) \<Rightarrow> 'e list list \<Rightarrow> 's \<Rightarrow> 's option" where
  "push_all push [] s = Some s"
| "push_all push (b # bs) s =
     (case push b s of Some (HCCL_SUCCESS, s') \<Rightarrow> push_all push bs s' | _ \<Rightarrow> None)"

fun drain ::
  "(nat \<Rightarrow> 's \<Rightarrow> HcclResult + 'e list) \<Rightarrow> (nat \<Rightarrow> 's \<Rightarrow> (HcclResult \<times> 's) option) \<Rightarrow> nat list \<Rightarrow> 's
    \<Rightarrow> ('e list list \<times> 's) option" where
  "drain peek pop [] s = Some ([], s)"
| "drain peek pop (n # ns) s =
     (case (peek n s, pop n s) of
        (Inr b, Some (HCCL_SUCCESS, s')) \<Rightarrow> map_option (map_prod ((#) b) id) (drain peek pop ns s')
      | _ \<Rightarrow> None)"

context segment_queue begin

lemma push_all_ok:
  assumes "inv s" "\<forall>b\<in>set bs. b \<noteq> []" "length (contents s) + length (concat bs) \<le> capacity s"
  shows "\<exists>s'. push_all push bs s = Some s' \<and> inv s' \<and> contents s' = contents s @ concat bs \<and>
    capacity s' = capacity s"
  using assms
proof (induction bs arbitrary: s)
  case Nil
  then show ?case by simp
next
  case (Cons b bs)
  obtain s1 where s1: "push b s = Some (HCCL_SUCCESS, s1)" "inv s1" "contents s1 = contents s @ b"
    "capacity s1 = capacity s"
    using push_ok[of s b] Cons.prems by auto
  then show ?case using Cons.IH[of s1] Cons.prems by auto
qed

lemma drain_ok:
  assumes "inv s" "\<forall>b\<in>set bs. b \<noteq> []" "contents s = concat bs @ rest"
  shows "\<exists>s'. drain peek pop (map length bs) s = Some (bs, s') \<and> inv s' \<and> contents s' = rest"
  using assms
proof (induction bs arbitrary: s)
  case Nil
  then show ?case by simp
next
  case (Cons b bs)
  obtain s1 where s1: "pop (length b) s = Some (HCCL_SUCCESS, s1)" "inv s1"
    "contents s1 = concat bs @ rest"
    using pop_ok[of s "length b"] Cons.prems by auto
  have "peek (length b) s = Inr b"
    using peek_ok[of s "length b"] Cons.prems by auto
  then show ?case using s1 Cons.IH[of s1] Cons.prems by auto
qed

text \<open>First in, first out: segments come out unchanged and in order.\<close>

lemma fifo:
  assumes "inv s" "contents s = []" "\<forall>b\<in>set bs. b \<noteq> []" "length (concat bs) \<le> capacity s"
  shows "\<exists>s1 s2. push_all push bs s = Some s1 \<and>
    drain peek pop (map length bs) s1 = Some (bs, s2) \<and> contents s2 = []"
proof -
  obtain s1 where s1: "push_all push bs s = Some s1" "inv s1" "contents s1 = concat bs @ []"
    using push_all_ok[of s bs] assms by auto
  then show ?thesis using drain_ok[OF s1(2) assms(3) s1(3)] by auto
qed

end

end
