(* ===== verification/Peterson.thy ===== *)
theory Peterson
  imports Prelude
begin

text \<open>
  \<open>PetersonLock\<close> (peterson_lock.cc, peterson_lock.h): mutual exclusion between one host
  thread and one device thread over three words of device memory. Shared memory is a
  function from addresses to words; the host reaches it by copies that may fail. The
  lock is modelled at the granularity of single shared accesses: \<open>lock_step\<close> is the
  body of \<open>Lock\<close> cut at each access, and \<open>sys_step\<close> interleaves the two sides.
\<close>

section \<open>The lock object\<close>

datatype LockType = HOST | DEVICE

definition TURN_FOR_HOST :: u32 where "TURN_FOR_HOST = 1"
definition TURN_FOR_DEVICE :: u32 where "TURN_FOR_DEVICE = 0"
definition FLAG_LOCK :: u32 where "FLAG_LOCK = 1"
definition FLAG_UNLOCK :: u32 where "FLAG_UNLOCK = 0"
definition MIN_SHM_LEN :: u64 where "MIN_SHM_LEN = 32"

lemmas peterson_consts =
  TURN_FOR_HOST_def TURN_FOR_DEVICE_def FLAG_LOCK_def FLAG_UNLOCK_def MIN_SHM_LEN_def

type_synonym dmem = "u64 \<Rightarrow> u32"

record PetersonLock =
  pl_size :: u64
  pl_type :: LockType
  pl_timeout :: u64
  pl_devPtr :: u64
  pl_devSize :: u64
  pl_myTurn :: u32
  pl_turn :: u64
  pl_hostFlag :: u64
  pl_deviceFlag :: u64

definition PetersonLock_host :: "u64 \<Rightarrow> PetersonLock" where
  "PetersonLock_host timeoutSec =
     \<lparr>pl_size = MIN_SHM_LEN, pl_type = HOST, pl_timeout = timeoutSec, pl_devPtr = 0,
      pl_devSize = 0, pl_myTurn = TURN_FOR_HOST, pl_turn = 0, pl_hostFlag = 0, pl_deviceFlag = 0\<rparr>"

definition PetersonLock_device :: "u64 \<Rightarrow> u64 \<Rightarrow> PetersonLock" where
  "PetersonLock_device devPtr timeoutSec =
     \<lparr>pl_size = MIN_SHM_LEN, pl_type = DEVICE, pl_timeout = timeoutSec, pl_devPtr = devPtr,
      pl_devSize = MIN_SHM_LEN, pl_myTurn = TURN_FOR_DEVICE, pl_turn = 0, pl_hostFlag = 0,
      pl_deviceFlag = 0\<rparr>"

text \<open>
  \<open>AllocDeviceMem\<close>: the allocator's answer (\<open>Inr\<close> an address, \<open>Inl\<close> an error) and the
  success of the memset come from the runtime. The memset clears the bytes of the block;
  the three words of the lock are the ones the model keeps.
\<close>

definition clear_words :: "u64 \<Rightarrow> dmem \<Rightarrow> dmem" where
  "clear_words p m = m(p := 0, p + 4 := 0, p + 8 := 0)"

definition AllocDeviceMem ::
  "HcclResult + u64 \<Rightarrow> bool \<Rightarrow> PetersonLock \<times> dmem \<Rightarrow> HcclResult \<times> (PetersonLock \<times> dmem)" where
  "AllocDeviceMem alloc memset_ok st =
     (let (l, m) = st in
      if pl_devPtr l \<noteq> 0 \<or> pl_devSize l \<noteq> 0 then (HCCL_E_INTERNAL, (l, m))
      else case alloc of
        Inl e \<Rightarrow> (e, (l, m))
      | Inr p \<Rightarrow>
          let l' = l\<lparr>pl_devPtr := p, pl_devSize := pl_size l\<rparr> in
          if \<not> memset_ok then (HCCL_E_INTERNAL, (l', m))
          else (HCCL_SUCCESS, (l', clear_words p m)))"

definition set_pointers :: "PetersonLock \<Rightarrow> PetersonLock" where
  "set_pointers l =
     (let buffer = pl_devPtr l in
      l\<lparr>pl_turn := buffer, pl_hostFlag := buffer + 4, pl_deviceFlag := buffer + 4 + 4\<rparr>)"

definition Init ::
  "HcclResult + u64 \<Rightarrow> bool \<Rightarrow> PetersonLock \<times> dmem \<Rightarrow> HcclResult \<times> (PetersonLock \<times> dmem)" where
  "Init alloc memset_ok st =
     (case (if pl_type (fst st) = HOST then AllocDeviceMem alloc memset_ok st else (HCCL_SUCCESS, st)) of
        (r, (l, m)) \<Rightarrow>
          if r \<noteq> HCCL_SUCCESS then (HCCL_E_INTERNAL, (l, m))
          else (HCCL_SUCCESS, (set_pointers l, m)))"

definition DeInit :: "PetersonLock \<Rightarrow> HcclResult \<times> PetersonLock" where
  "DeInit l = (HCCL_SUCCESS, l\<lparr>pl_size := 0, pl_turn := 0, pl_hostFlag := 0, pl_deviceFlag := 0\<rparr>)"

definition GetDevMemAddr :: "PetersonLock \<Rightarrow> u64" where
  "GetDevMemAddr l = pl_devPtr l"

section \<open>The shared accesses\<close>

text \<open>
  The outcome of a host copy: done, or failed; a failed write may or may not have
  reached the device memory. The device side accesses the words directly.
\<close>

datatype copy_res = CopyOk | CopyFail bool

definition write_word :: "LockType \<Rightarrow> copy_res \<Rightarrow> u64 \<Rightarrow> u32 \<Rightarrow> dmem \<Rightarrow> HcclResult \<times> dmem" where
  "write_word t c a v m =
     (if t = DEVICE then (HCCL_SUCCESS, m(a := v))
      else case c of
        CopyOk \<Rightarrow> (HCCL_SUCCESS, m(a := v))
      | CopyFail arrived \<Rightarrow> (HCCL_E_INTERNAL, if arrived then m(a := v) else m))"

definition read_word :: "LockType \<Rightarrow> copy_res \<Rightarrow> u64 \<Rightarrow> dmem \<Rightarrow> HcclResult + u32" where
  "read_word t c a m =
     (if t = DEVICE then Inr (m a)
      else case c of CopyOk \<Rightarrow> Inr (m a) | CopyFail _ \<Rightarrow> Inl HCCL_E_INTERNAL)"

definition self_flag :: "PetersonLock \<Rightarrow> u64" where
  "self_flag l = (if pl_type l = DEVICE then pl_deviceFlag l else pl_hostFlag l)"

definition peer_flag :: "PetersonLock \<Rightarrow> u64" where
  "peer_flag l = (if pl_type l = DEVICE then pl_hostFlag l else pl_deviceFlag l)"

definition WriteSelfFlag :: "PetersonLock \<Rightarrow> copy_res \<Rightarrow> u32 \<Rightarrow> dmem \<Rightarrow> HcclResult \<times> dmem" where
  "WriteSelfFlag l c selfFlag m = write_word (pl_type l) c (self_flag l) selfFlag m"

definition WriteTurn :: "PetersonLock \<Rightarrow> copy_res \<Rightarrow> dmem \<Rightarrow> HcclResult \<times> dmem" where
  "WriteTurn l c m =
     write_word (pl_type l) c (pl_turn l)
       (if pl_type l = DEVICE then TURN_FOR_DEVICE else TURN_FOR_HOST) m"

definition ReadPeerFlag :: "PetersonLock \<Rightarrow> copy_res \<Rightarrow> dmem \<Rightarrow> HcclResult + u32" where
  "ReadPeerFlag l c m = read_word (pl_type l) c (peer_flag l) m"

definition ReadTurn :: "PetersonLock \<Rightarrow> copy_res \<Rightarrow> dmem \<Rightarrow> HcclResult + u32" where
  "ReadTurn l c m = read_word (pl_type l) c (pl_turn l) m"

section \<open>Lock and Unlock, one shared access at a time\<close>

text \<open>
  The program counter of a side. \<open>AtReadTurn f\<close> carries the local \<open>peerFlag\<close> already
  read; \<open>Holding\<close> is the caller's section between \<open>Lock\<close> and \<open>Unlock\<close>; \<open>Idle r\<close> carries
  the last call's result.
\<close>

datatype lock_pc =
    Idle HcclResult
  | AtWriteTurn
  | AtLoop
  | AtReadTurn u32
  | Holding

text \<open>One access of \<open>Lock\<close> (or its entry); \<open>late\<close> is the time check of the loop head.\<close>

fun lock_step :: "PetersonLock \<Rightarrow> bool \<Rightarrow> copy_res \<Rightarrow> dmem \<times> lock_pc \<Rightarrow> dmem \<times> lock_pc" where
  "lock_step l late c (m, Idle r) =
     (if pl_turn l = 0 \<or> pl_hostFlag l = 0 \<or> pl_deviceFlag l = 0 then (m, Idle HCCL_E_INTERNAL)
      else case WriteSelfFlag l c FLAG_LOCK m of
        (r', m') \<Rightarrow> (m', if r' \<noteq> HCCL_SUCCESS then Idle r' else AtWriteTurn))"
| "lock_step l late c (m, AtWriteTurn) =
     (case WriteTurn l c m of
        (r', m') \<Rightarrow> (m', if r' \<noteq> HCCL_SUCCESS then Idle r' else AtLoop))"
| "lock_step l late c (m, AtLoop) =
     (if late then
        case WriteSelfFlag l c FLAG_UNLOCK m of
          (r', m') \<Rightarrow> (m', Idle (if r' \<noteq> HCCL_SUCCESS then r' else HCCL_E_TIMEOUT))
      else case ReadPeerFlag l c m of
          Inl e \<Rightarrow> (m, Idle e)
        | Inr peerFlag \<Rightarrow> (m, AtReadTurn peerFlag))"
| "lock_step l late c (m, AtReadTurn peerFlag) =
     (case ReadTurn l c m of
        Inl e \<Rightarrow> (m, Idle e)
      | Inr turn \<Rightarrow>
          (m, if peerFlag = FLAG_LOCK \<and> turn = pl_myTurn l then AtLoop else Holding))"
| "lock_step l late c (m, Holding) = (m, Holding)"

text \<open>\<open>Unlock\<close>: the result of the flag write is not looked at.\<close>

definition Unlock :: "PetersonLock \<Rightarrow> copy_res \<Rightarrow> dmem \<Rightarrow> HcclResult \<times> dmem" where
  "Unlock l c m =
     (if pl_deviceFlag l = 0 then (HCCL_E_INTERNAL, m)
      else (HCCL_SUCCESS, snd (WriteSelfFlag l c FLAG_UNLOCK m)))"

text \<open>
  \<open>PetersonLockGuard\<close>: the constructor keeps the lock only when \<open>Lock\<close> succeeded, and the
  destructor unlocks only a kept lock. The guard is (has a lock, lockFailed).
\<close>

record guard =
  g_lock :: bool
  g_failed :: bool

definition guard_ctor :: "bool \<Rightarrow> HcclResult \<Rightarrow> guard" where
  "guard_ctor non_null lock_result =
     (if \<not> non_null then \<lparr>g_lock = False, g_failed = True\<rparr>
      else if lock_result \<noteq> HCCL_SUCCESS then \<lparr>g_lock = False, g_failed = True\<rparr>
      else \<lparr>g_lock = True, g_failed = False\<rparr>)"

definition guard_dtor :: "guard \<Rightarrow> PetersonLock \<Rightarrow> copy_res \<Rightarrow> dmem \<Rightarrow> dmem" where
  "guard_dtor g l c m = (if g_lock g then snd (Unlock l c m) else m)"

section \<open>The two sides together\<close>

record psys =
  ps_mem :: dmem
  ps_host :: lock_pc
  ps_dev :: lock_pc

definition pc_of :: "psys \<Rightarrow> LockType \<Rightarrow> lock_pc" where
  "pc_of s t = (if t = HOST then ps_host s else ps_dev s)"

definition set_side :: "LockType \<Rightarrow> dmem \<times> lock_pc \<Rightarrow> psys \<Rightarrow> psys" where
  "set_side t mp s =
     (if t = HOST then s\<lparr>ps_mem := fst mp, ps_host := snd mp\<rparr>
      else s\<lparr>ps_mem := fst mp, ps_dev := snd mp\<rparr>)"

definition obj :: "u64 \<Rightarrow> u64 \<Rightarrow> LockType \<Rightarrow> PetersonLock" where
  "obj base timeout t = set_pointers
     (if t = HOST then (PetersonLock_host timeout)\<lparr>pl_devPtr := base, pl_devSize := MIN_SHM_LEN\<rparr>
      else PetersonLock_device base timeout)"

text \<open>
  A step is one side making its next access: entering or continuing \<open>Lock\<close>, or
  releasing. Any time check and any copy outcome is possible.
\<close>

inductive sys_step :: "u64 \<Rightarrow> u64 \<Rightarrow> psys \<Rightarrow> psys \<Rightarrow> bool" for base timeout :: u64 where
  acquire: "pc_of s t \<noteq> Holding \<Longrightarrow>
     sys_step base timeout s (set_side t (lock_step (obj base timeout t) late c (ps_mem s, pc_of s t)) s)"
| release: "pc_of s t = Holding \<Longrightarrow> Unlock (obj base timeout t) c (ps_mem s) = (r, m) \<Longrightarrow>
     sys_step base timeout s (set_side t (m, Idle r) s)"

definition sys_init :: "u64 \<Rightarrow> psys \<Rightarrow> bool" where
  "sys_init base s \<longleftrightarrow>
     ps_mem s base = 0 \<and> ps_mem s (base + 4) = FLAG_UNLOCK \<and> ps_mem s (base + 8) = FLAG_UNLOCK \<and>
     ps_host s = Idle HCCL_SUCCESS \<and> ps_dev s = Idle HCCL_SUCCESS"

section \<open>The invariant and its preservation\<close>

fun other :: "LockType \<Rightarrow> LockType" where
  "other HOST = DEVICE" | "other DEVICE = HOST"

fun my_turn :: "LockType \<Rightarrow> u32" where
  "my_turn HOST = TURN_FOR_HOST" | "my_turn DEVICE = TURN_FOR_DEVICE"

fun flag_addr :: "u64 \<Rightarrow> LockType \<Rightarrow> u64" where
  "flag_addr base HOST = base + 4" | "flag_addr base DEVICE = base + 8"

fun wants :: "lock_pc \<Rightarrow> bool" where
  "wants (Idle _) = False" | "wants _ = True"

text \<open>Past the write of the turn word: waiting for, or holding, the lock.\<close>

fun past_turn :: "lock_pc \<Rightarrow> bool" where
  "past_turn AtLoop = True" | "past_turn (AtReadTurn _) = True" | "past_turn Holding = True"
| "past_turn _ = False"

text \<open>A side that holds the lock, or has read its peer's flag as unlocked.\<close>

fun entering :: "lock_pc \<Rightarrow> bool" where
  "entering (AtReadTurn f) = (f \<noteq> FLAG_LOCK)" | "entering Holding = True" | "entering _ = False"

definition side_inv :: "u64 \<Rightarrow> LockType \<Rightarrow> psys \<Rightarrow> bool" where
  "side_inv base t s \<longleftrightarrow>
     (wants (pc_of s t) \<longrightarrow> ps_mem s (flag_addr base t) = FLAG_LOCK) \<and>
     (past_turn (pc_of s t) \<longrightarrow> ps_mem s base \<in> {TURN_FOR_HOST, TURN_FOR_DEVICE}) \<and>
     (entering (pc_of s t) \<and> past_turn (pc_of s (other t)) \<longrightarrow> ps_mem s base = my_turn (other t))"

definition lock_inv :: "u64 \<Rightarrow> psys \<Rightarrow> bool" where
  "lock_inv base s \<longleftrightarrow> side_inv base HOST s \<and> side_inv base DEVICE s"

lemma obj_simps [simp]:
  "pl_type (obj base to t) = t" "pl_turn (obj base to t) = base"
  "pl_hostFlag (obj base to t) = base + 4" "pl_deviceFlag (obj base to t) = base + 8"
  "pl_myTurn (obj base to t) = my_turn t"
  by (cases t; simp add: obj_def set_pointers_def PetersonLock_host_def PetersonLock_device_def
      Let_def peterson_consts)+

lemma LockType_neq: "t \<noteq> HOST \<longleftrightarrow> t = DEVICE" "t \<noteq> DEVICE \<longleftrightarrow> t = HOST"
  by (cases t; simp)+

lemmas access_defs =
  WriteSelfFlag_def WriteTurn_def ReadPeerFlag_def ReadTurn_def write_word_def read_word_def
  self_flag_def peer_flag_def

lemma lock_inv_init: "sys_init base s \<Longrightarrow> lock_inv base s"
  by (simp add: sys_init_def lock_inv_def side_inv_def pc_of_def)

lemma side_eq [simp]:
  "pc_of (set_side t mp s) t = snd mp" "u \<noteq> t \<Longrightarrow> pc_of (set_side t mp s) u = pc_of s u"
  "ps_mem (set_side t mp s) = fst mp"
  by (cases t; cases u; simp add: pc_of_def set_side_def)+

lemma lock_inv_sides: "lock_inv base s \<longleftrightarrow> side_inv base t s \<and> side_inv base (other t) s"
  by (cases t) (auto simp: lock_inv_def)

lemma other_other [simp]: "other (other t) = t" by (cases t) auto

lemma lock_inv_acquire:
  assumes "lock_inv base s"
  shows "lock_inv base (set_side t (lock_step (obj base to t) late c (ps_mem s, pc_of s t)) s)"
proof (cases "pc_of s t")
  case (Idle r)
  then show ?thesis using assms unfolding lock_inv_sides[of _ _ t]
    by (cases t) (auto simp: side_inv_def access_defs peterson_consts split: copy_res.splits)
next
  case AtWriteTurn
  then show ?thesis using assms unfolding lock_inv_sides[of _ _ t]
    by (cases t) (auto simp: side_inv_def access_defs peterson_consts split: copy_res.splits)
next
  case AtLoop
  then show ?thesis using assms unfolding lock_inv_sides[of _ _ t]
    by (cases t) (auto simp: side_inv_def access_defs peterson_consts split: copy_res.splits
        elim!: wants.elims past_turn.elims)
next
  case (AtReadTurn f)
  then show ?thesis using assms unfolding lock_inv_sides[of _ _ t]
    by (cases t) (auto simp: side_inv_def access_defs peterson_consts split: copy_res.splits)
next
  case Holding
  then show ?thesis using assms unfolding lock_inv_sides[of _ _ t]
    by (cases t) (auto simp: side_inv_def)
qed

lemma lock_inv_release:
  assumes "lock_inv base s" "pc_of s t = Holding" "Unlock (obj base to t) c (ps_mem s) = (r, m)"
  shows "lock_inv base (set_side t (m, Idle r) s)"
  using assms unfolding lock_inv_sides[of _ _ t]
  by (cases t) (auto simp: side_inv_def Unlock_def access_defs peterson_consts
      split: copy_res.splits if_splits)

lemma lock_inv_step: "lock_inv base s \<Longrightarrow> sys_step base to s s' \<Longrightarrow> lock_inv base s'"
  by (auto elim!: sys_step.cases intro: lock_inv_acquire lock_inv_release)

interpretation peterson: exclusion_system
  "sys_init base" "sys_step base to" "lock_inv base"
  "\<lambda>s t. pc_of s t = Holding" "\<lambda>s t u. t \<noteq> u" for base to
proof (unfold_locales, goal_cases)
  case (1 s) then show ?case by (rule lock_inv_init)
next
  case (2 s s') then show ?case by (rule lock_inv_step)
next
  case (3 s p q)
  then show ?case
    by (cases p; cases q) (auto simp: lock_inv_def side_inv_def peterson_consts)
qed

section \<open>Properties\<close>

text \<open>
  C1: Mutual exclusion. In every state reachable by interleaving single shared accesses of
  the host side and the device side, with arbitrary time-outs and arbitrary copy failures
  (whether or not a failed write arrived), the two sides never hold the lock together.
\<close>
theorem peterson_mutex:
  assumes "reach (sys_init base) (sys_step base to) s"
  shows "\<not> (pc_of s HOST = Holding \<and> pc_of s DEVICE = Holding)"
  using peterson.reach_excl[OF assms, of HOST DEVICE] by simp

text \<open>A side running alone, in time and with working copies, for \<open>n\<close> accesses.\<close>

fun lock_run :: "PetersonLock \<Rightarrow> nat \<Rightarrow> dmem \<times> lock_pc \<Rightarrow> dmem \<times> lock_pc" where
  "lock_run l 0 mp = mp"
| "lock_run l (Suc n) mp = lock_run l n (lock_step l False CopyOk mp)"

lemma run_holding [simp]: "lock_run l n (m, Holding) = (m, Holding)"
  by (induction n) auto
lemma run_AtLoop: "m base \<noteq> my_turn t \<Longrightarrow> lock_run (obj base to t) (Suc (Suc n)) (m, AtLoop) = (m, Holding)"
  by (cases t) (simp_all add: ReadPeerFlag_def ReadTurn_def read_word_def)
lemma run_AtReadTurn: "m base \<noteq> my_turn t \<Longrightarrow> lock_run (obj base to t) (Suc n) (m, AtReadTurn f) = (m, Holding)"
  by (cases t) (simp_all add: ReadTurn_def read_word_def)
lemma run_past:
  "m base \<noteq> my_turn t \<Longrightarrow> past_turn pc \<Longrightarrow> lock_run (obj base to t) 2 (m, pc) = (m, Holding)"
  unfolding numeral_2_eq_2
  by (cases pc) (simp_all only: run_AtLoop run_AtReadTurn run_holding past_turn.simps simp_thms)

definition free_sys :: psys where
  "free_sys = \<lparr>ps_mem = (\<lambda>_. 0), ps_host = Idle HCCL_SUCCESS, ps_dev = Idle HCCL_SUCCESS\<rparr>"

lemma free_sys_init: "sys_init 64 free_sys"
  by (simp add: free_sys_def sys_init_def peterson_consts)

theorem peterson_mutex_witness:
  "\<not> (pc_of free_sys HOST = Holding \<and> pc_of free_sys DEVICE = Holding)"
  by (rule peterson_mutex[of 64 60]) (rule reach_init, rule free_sys_init)

lemma run_AtLoop_free:
  "m (flag_addr base (other t)) \<noteq> FLAG_LOCK \<Longrightarrow>
    snd (lock_run (obj base to t) (Suc (Suc n)) (m, AtLoop)) = Holding"
  by (cases t) (simp_all add: ReadPeerFlag_def ReadTurn_def read_word_def peer_flag_def)

lemma run_Idle:
  assumes "base \<noteq> 0" "base + 4 \<noteq> 0" "base + 8 \<noteq> 0"
  shows "lock_run (obj base to t) (Suc (Suc n)) (m, Idle r) =
    lock_run (obj base to t) n (m(flag_addr base t := FLAG_LOCK, base := my_turn t), AtLoop)"
  using assms by (cases t) (simp_all add: WriteSelfFlag_def WriteTurn_def write_word_def self_flag_def)

lemma lock_run_from_idle:
  assumes "m (flag_addr base (other t)) \<noteq> FLAG_LOCK" "base \<noteq> 0" "base + 4 \<noteq> 0" "base + 8 \<noteq> 0"
  shows "snd (lock_run (obj base to t) 4 (m, Idle r)) = Holding"
proof -
  let ?m = "m(flag_addr base t := FLAG_LOCK, base := my_turn t)"
  have "?m (flag_addr base (other t)) \<noteq> FLAG_LOCK"
    using assms(1) by (cases t) auto
  from run_AtLoop_free[where m = ?m, OF this] show ?thesis
    by (simp only: eval_nat_numeral BitM.simps run_Idle[OF assms(2-4)])
qed

text \<open>
  C2: No deadlock. When both sides are past their turn write and contend for the lock, one of
  the two obtains it within two accesses of its own, however far each had got; and a side
  that finds its peer's flag unlocked obtains the lock within four accesses.
\<close>
theorem peterson_progress:
  assumes "base \<noteq> 0" "base + 4 \<noteq> 0" "base + 8 \<noteq> 0"
  shows "(past_turn (pc_of s HOST) \<and> past_turn (pc_of s DEVICE) \<longrightarrow>
           (\<exists>t. snd (lock_run (obj base to t) 2 (ps_mem s, pc_of s t)) = Holding)) \<and>
         (pc_of s u = Idle r \<and> ps_mem s (flag_addr base (other u)) = FLAG_UNLOCK \<longrightarrow>
           snd (lock_run (obj base to u) 4 (ps_mem s, pc_of s u)) = Holding)"
proof (intro conjI impI)
  assume past: "past_turn (pc_of s HOST) \<and> past_turn (pc_of s DEVICE)"
  have "my_turn HOST \<noteq> my_turn DEVICE" by (simp add: peterson_consts)
  then obtain t where t: "ps_mem s base \<noteq> my_turn t" by metis
  have "past_turn (pc_of s t)" using past by (cases t) auto
  from run_past[where m = "ps_mem s", OF t this]
  have "snd (lock_run (obj base to t) 2 (ps_mem s, pc_of s t)) = Holding" by simp
  then show "\<exists>t. snd (lock_run (obj base to t) 2 (ps_mem s, pc_of s t)) = Holding" ..
next
  assume "pc_of s u = Idle r \<and> ps_mem s (flag_addr base (other u)) = FLAG_UNLOCK"
  then show "snd (lock_run (obj base to u) 4 (ps_mem s, pc_of s u)) = Holding"
    using assms lock_run_from_idle by (simp add: peterson_consts)
qed

definition both_waiting :: psys where
  "both_waiting = \<lparr>ps_mem = (\<lambda>_. 0)(68 := 1, 72 := 1), ps_host = AtLoop, ps_dev = AtLoop\<rparr>"

theorem peterson_progress_witness:
  "\<exists>t. snd (lock_run (obj 64 60 t) 2 (ps_mem both_waiting, pc_of both_waiting t)) = Holding"
  using peterson_progress[of 64 both_waiting 60] by (simp add: both_waiting_def pc_of_def)

text \<open>
  C8: An error return of the host's \<open>Lock\<close> leaves its flag locked. When the copy of the turn
  word fails after the flag was written, the host is out of \<open>Lock\<close> with an error and never
  held the lock, and a device that then calls \<open>Lock\<close> never obtains it, whatever time it has.
\<close>
theorem peterson_error_blocks_device:
  assumes "reach (sys_init base) (sys_step base to) s"
    and "pc_of s HOST = AtWriteTurn" "pc_of s DEVICE = Idle r"
    and "s' = set_side HOST (lock_step (obj base to HOST) late (CopyFail b) (ps_mem s, AtWriteTurn)) s"
  shows "pc_of s' HOST = Idle HCCL_E_INTERNAL \<and>
    snd (lock_run (obj base to DEVICE) n (ps_mem s', pc_of s' DEVICE)) \<noteq> Holding"
proof (intro conjI)
  show "pc_of s' HOST = Idle HCCL_E_INTERNAL"
    by (simp add: assms(4) WriteTurn_def write_word_def)
  have flag: "ps_mem s' (base + 4) = FLAG_LOCK"
    using peterson.reach_inv[OF assms(1)] assms(2)
    by (auto simp: assms(4) WriteTurn_def write_word_def lock_inv_def side_inv_def)
  let ?stuck = "\<lambda>mp. fst mp (base + 4) = FLAG_LOCK \<and> (case snd mp of
      Idle _ \<Rightarrow> True | AtWriteTurn \<Rightarrow> True | AtLoop \<Rightarrow> fst mp base = TURN_FOR_DEVICE
    | AtReadTurn f \<Rightarrow> fst mp base = TURN_FOR_DEVICE \<and> f = FLAG_LOCK | Holding \<Rightarrow> False)"
  have step: "?stuck mp \<Longrightarrow> ?stuck (lock_step (obj base to DEVICE) False CopyOk mp)" for mp
    by (cases mp; cases "snd mp") (auto simp: access_defs)
  have run: "?stuck mp \<Longrightarrow> ?stuck (lock_run (obj base to DEVICE) n mp)" for mp
    by (induction n arbitrary: mp) (simp_all only: lock_run.simps step)
  have "?stuck (ps_mem s', pc_of s' DEVICE)"
    using flag assms(3) by (simp add: assms(4))
  from run[OF this] show "snd (lock_run (obj base to DEVICE) n (ps_mem s', pc_of s' DEVICE)) \<noteq> Holding"
    by auto
qed



lemma host_AtWriteTurn_reach:
  "reach (sys_init 64) (sys_step 64 60)
     (set_side HOST (lock_step (obj 64 60 HOST) False CopyOk (ps_mem free_sys, pc_of free_sys HOST)) free_sys)"
  by (rule reach_step, rule reach_init, rule free_sys_init, rule sys_step.acquire)
    (simp add: free_sys_def pc_of_def)

theorem peterson_error_blocks_device_witness:
  "\<exists>s'. pc_of s' HOST = Idle HCCL_E_INTERNAL \<and>
    snd (lock_run (obj 64 60 DEVICE) 1000 (ps_mem s', pc_of s' DEVICE)) \<noteq> Holding"
  by (rule exI, rule peterson_error_blocks_device[OF host_AtWriteTurn_reach _ _ refl,
      where n = 1000 and r = HCCL_SUCCESS and b = False and late = False])
    (simp_all add: WriteSelfFlag_def write_word_def free_sys_def pc_of_def set_side_def)

text \<open>
  Set-up. After the host's \<open>Init\<close> with a fresh block and the device's \<open>Init\<close> on the
  address the host publishes (\<open>GetDevMemAddr\<close>), both objects point at the same three
  distinct words, these are cleared, and the system starts in the free state from which
  mutual exclusion is proved; a second host allocation is refused.
\<close>
theorem peterson_init:
  assumes "base \<noteq> 0"
    and host: "Init (Inr base) True (PetersonLock_host to, m) = (r, (h, m'))"
    and dev: "Init alloc ok (PetersonLock_device (GetDevMemAddr h) to, m') = (r', (d, m''))"
  shows "r = HCCL_SUCCESS \<and> r' = HCCL_SUCCESS \<and> h = obj base to HOST \<and> d = obj base to DEVICE \<and>
    sys_init base \<lparr>ps_mem = m'', ps_host = Idle HCCL_SUCCESS, ps_dev = Idle HCCL_SUCCESS\<rparr> \<and>
    distinct [pl_turn h, pl_hostFlag h, pl_deviceFlag h] \<and>
    fst (Init (Inr base) True (h, m')) = HCCL_E_INTERNAL"
  using assms
  by (auto simp: Init_def AllocDeviceMem_def PetersonLock_host_def PetersonLock_device_def obj_def
      set_pointers_def GetDevMemAddr_def clear_words_def sys_init_def peterson_consts Let_def)

theorem peterson_init_witness:
  "\<exists>r h m r' d m'. Init (Inr 64) True (PetersonLock_host 60, \<lambda>_. 9) = (r, (h, m)) \<and>
     Init (Inl HCCL_E_PARA) False (PetersonLock_device (GetDevMemAddr h) 60, m) = (r', (d, m')) \<and>
     h = obj 64 60 HOST \<and> d = obj 64 60 DEVICE"
proof -
  obtain r h m where h: "Init (Inr 64) True (PetersonLock_host 60, \<lambda>_. 9) = (r, (h, m))"
    by (metis surj_pair)
  obtain r' d m' where d:
    "Init (Inl HCCL_E_PARA) False (PetersonLock_device (GetDevMemAddr h) 60, m) = (r', (d, m'))"
    by (metis surj_pair)
  from peterson_init[OF _ h d] h d show ?thesis by simp
qed

text \<open>
  The guard releases exactly what it took: its destructor clears the own flag when the
  constructor's \<open>Lock\<close> succeeded and leaves the shared memory alone when the lock was null
  or \<open>Lock\<close> failed, and \<open>IsLockFailed\<close> tells the two cases apart.
\<close>
theorem guard_balanced:
  "guard_dtor (guard_ctor non_null r) (obj base to DEVICE) c m =
     (if non_null \<and> r = HCCL_SUCCESS
      then if base + 8 = 0 then m else m(flag_addr base DEVICE := FLAG_UNLOCK) else m) \<and>
   g_failed (guard_ctor non_null r) = (\<not> (non_null \<and> r = HCCL_SUCCESS))"
  by (auto simp: guard_dtor_def guard_ctor_def Unlock_def access_defs)

end
