(* ===== verification/RmaBuffer.thy ===== *)
theory RmaBuffer
  imports Prelude
begin

text \<open>
  \<open>BufferKey\<close> (buffer_key.h) and \<open>RmaBufferMgr\<close> (rma_buffer_mgr.h): the table of
  registered memory ranges with reference counts. \<open>std::map\<close> is a list of entries sorted
  by key, \<open>lower_bound\<close> its first entry not below a key. Addresses, sizes and counts are
  64-bit words, so the end of a range is computed with wrap-around as in the source.
\<close>

section \<open>Keys\<close>

datatype BufferKey = BufferKey (Addr: u64) (Size: u64)

lemma BufferKey_eq_iff: "a = b \<longleftrightarrow> Addr a = Addr b \<and> Size a = Size b"
  by (cases a; cases b) simp

definition key_lt :: "BufferKey \<Rightarrow> BufferKey \<Rightarrow> bool" where
  "key_lt a b \<longleftrightarrow> Addr a < Addr b \<or> (Addr a = Addr b \<and> Size a < Size b)"

definition IsSubset :: "BufferKey \<Rightarrow> BufferKey \<Rightarrow> bool" where
  "IsSubset a b \<longleftrightarrow> a \<noteq> b \<and> Addr b \<le> Addr a \<and> Addr a + Size a \<le> Addr b + Size b"

definition IsSuperset :: "BufferKey \<Rightarrow> BufferKey \<Rightarrow> bool" where
  "IsSuperset a b \<longleftrightarrow> a \<noteq> b \<and> Addr a \<le> Addr b \<and> Addr b + Size b \<le> Addr a + Size a"

definition IsIntersect :: "BufferKey \<Rightarrow> BufferKey \<Rightarrow> bool" where
  "IsIntersect a b \<longleftrightarrow>
     (Addr a < Addr b + Size b \<and> Addr b < Addr a + Size a) \<or>
     (Addr b < Addr a + Size a \<and> Addr a < Addr b + Size b)"

definition IsDisjoint :: "BufferKey \<Rightarrow> BufferKey \<Rightarrow> bool" where
  "IsDisjoint a b \<longleftrightarrow> Addr a + Size a \<le> Addr b \<or> Addr b + Size b \<le> Addr a"

instantiation BufferKey :: linorder
begin

definition less_BufferKey :: "BufferKey \<Rightarrow> BufferKey \<Rightarrow> bool" where
  "less_BufferKey = key_lt"

definition less_eq_BufferKey :: "BufferKey \<Rightarrow> BufferKey \<Rightarrow> bool" where
  "less_eq_BufferKey a b \<longleftrightarrow> key_lt a b \<or> a = b"

instance
  by standard (auto simp: less_BufferKey_def less_eq_BufferKey_def key_lt_def BufferKey_eq_iff)

end

section \<open>The manager\<close>

record 'b BufferWithRef =
  buffer :: 'b
  ref_cnt :: u64

type_synonym 'b tree = "(BufferKey \<times> 'b BufferWithRef) list"

text \<open>The C++ exceptions of the class.\<close>

datatype rma_exn = RefFlipped | DelNotFound

text \<open>\<open>std::map\<close>: entries below a key, \<open>lower_bound\<close>, the entry before it, and insertion.\<close>

definition below :: "BufferKey \<Rightarrow> 'b tree \<Rightarrow> 'b tree" where
  "below key t = takeWhile (\<lambda>e. fst e < key) t"

definition from_lower :: "BufferKey \<Rightarrow> 'b tree \<Rightarrow> 'b tree" where
  "from_lower key t = dropWhile (\<lambda>e. fst e < key) t"

definition lower_bound :: "BufferKey \<Rightarrow> 'b tree \<Rightarrow> (BufferKey \<times> 'b BufferWithRef) option" where
  "lower_bound key t = (case from_lower key t of [] \<Rightarrow> None | e # _ \<Rightarrow> Some e)"

definition prev_entry :: "BufferKey \<Rightarrow> 'b tree \<Rightarrow> (BufferKey \<times> 'b BufferWithRef) option" where
  "prev_entry key t = (if below key t = [] then None else Some (last (below key t)))"

fun set_ref :: "BufferKey \<Rightarrow> u64 \<Rightarrow> 'b tree \<Rightarrow> 'b tree" where
  "set_ref key r [] = []"
| "set_ref key r ((k, b) # t) =
     (if k = key then (k, b\<lparr>ref_cnt := r\<rparr>) # t else (k, b) # set_ref key r t)"

text \<open>
  The position part of the returned iterator is the key it points at, \<open>None\<close> for \<open>end()\<close>.
  \<open>AddToTree\<close> throws when the count wraps to zero; the increment has then been stored.
\<close>

type_synonym add_res = "rma_exn + BufferKey option \<times> bool"

definition AddToTree :: "BufferKey \<Rightarrow> 'b \<Rightarrow> 'b tree \<Rightarrow> add_res \<times> 'b tree" where
  "AddToTree key b t =
     (case map_of t key of
        None \<Rightarrow> (Inr (Some key, True),
                 below key t @ (key, \<lparr>buffer = b, ref_cnt = 1\<rparr>) # from_lower key t)
      | Some e \<Rightarrow>
          let r = ref_cnt e + 1; t' = set_ref key r t in
          if r = 0 then (Inl RefFlipped, t') else (Inr (Some key, False), t'))"

definition CheckOverlap :: "BufferKey \<Rightarrow> 'b tree \<Rightarrow> BufferKey option \<times> bool" where
  "CheckOverlap key t =
     (let it = lower_bound key t;
          rest = (case prev_entry key t of
                    Some (p, _) \<Rightarrow> (Some p, IsIntersect p key \<or> IsSubset p key \<or> IsSuperset p key)
                  | None \<Rightarrow> (map_option fst it, False)) in
      case it of
        Some (k, _) \<Rightarrow>
          if k = key then (Some k, False)
          else if IsSuperset k key \<or> IsIntersect k key then (Some k, True)
          else rest
      | None \<Rightarrow> rest)"

definition AddWithoutCheck :: "BufferKey \<Rightarrow> 'b \<Rightarrow> 'b tree \<Rightarrow> add_res \<times> 'b tree" where
  "AddWithoutCheck key b t = AddToTree key b t"

definition Add :: "BufferKey \<Rightarrow> 'b \<Rightarrow> 'b tree \<Rightarrow> add_res \<times> 'b tree" where
  "Add key b t =
     (if snd (CheckOverlap key t) then (Inr (None, False), t) else AddToTree key b t)"

definition Find :: "BufferKey \<Rightarrow> 'b tree \<Rightarrow> 'b option" where
  "Find key t =
     (let fallback = (case prev_entry key t of
                        Some (p, e) \<Rightarrow> if IsSuperset p key then Some (buffer e) else None
                      | None \<Rightarrow> None) in
      case lower_bound key t of
        Some (k, e) \<Rightarrow> if k = key \<or> IsSuperset k key then Some (buffer e) else fallback
      | None \<Rightarrow> fallback)"

text \<open>The result of \<open>Del\<close> is whether the entry is gone; an unknown key throws.\<close>

definition Del :: "BufferKey \<Rightarrow> 'b tree \<Rightarrow> (rma_exn + bool) \<times> 'b tree" where
  "Del key t =
     (case map_of t key of
        None \<Rightarrow> (Inl DelNotFound, t)
      | Some e \<Rightarrow>
          let r = ref_cnt e - 1 in
          if r = 0 then (Inr True, filter (\<lambda>x. fst x \<noteq> key) t)
          else (Inr False, set_ref key r t))"

definition tree_size :: "'b tree \<Rightarrow> nat" where
  "tree_size t = length t"

section \<open>Ranges as sets of bytes\<close>

definition key_start :: "BufferKey \<Rightarrow> nat" where "key_start k = unat (Addr k)"
definition key_end :: "BufferKey \<Rightarrow> nat" where "key_end k = unat (Addr k) + unat (Size k)"
definition key_bytes :: "BufferKey \<Rightarrow> nat set" where "key_bytes k = {key_start k ..< key_end k}"

text \<open>A range that is not empty and does not run past the end of the address space.\<close>

definition key_ok :: "BufferKey \<Rightarrow> bool" where
  "key_ok k \<longleftrightarrow> 0 < Size k \<and> key_end k < 2 ^ 64"

lemma key_ok_bounds: "key_ok k \<Longrightarrow> key_start k < key_end k"
  by (simp add: key_ok_def key_start_def key_end_def unat_gt_0 word_less_nat_alt)

lemma unat_key_end: "key_ok k \<Longrightarrow> unat (Addr k + Size k) = key_end k"
  by (simp add: key_ok_def key_end_def unat_add_lem[THEN iffD1])

lemma key_eq_iff: "a = b \<longleftrightarrow> key_start a = key_start b \<and> key_end a = key_end b"
  by (auto simp: key_start_def key_end_def BufferKey_eq_iff word_unat_eq_iff)

lemma key_less_iff:
  "a < b \<longleftrightarrow> key_start a < key_start b \<or> (key_start a = key_start b \<and> key_end a < key_end b)"
  by (auto simp: less_BufferKey_def key_lt_def key_start_def key_end_def word_less_nat_alt
      word_unat_eq_iff)

lemma IsIntersect_iff:
  "key_ok a \<Longrightarrow> key_ok b \<Longrightarrow> IsIntersect a b \<longleftrightarrow> key_start a < key_end b \<and> key_start b < key_end a"
  by (auto simp: IsIntersect_def word_less_nat_alt unat_key_end) (simp_all add: key_start_def)

lemma IsSuperset_iff:
  "key_ok a \<Longrightarrow> key_ok b \<Longrightarrow>
    IsSuperset a b \<longleftrightarrow> a \<noteq> b \<and> key_start a \<le> key_start b \<and> key_end b \<le> key_end a"
  by (auto simp: IsSuperset_def word_le_nat_alt unat_key_end key_start_def)

lemma IsSubset_iff:
  "key_ok a \<Longrightarrow> key_ok b \<Longrightarrow>
    IsSubset a b \<longleftrightarrow> a \<noteq> b \<and> key_start b \<le> key_start a \<and> key_end a \<le> key_end b"
  by (auto simp: IsSubset_def word_le_nat_alt unat_key_end key_start_def)

lemma key_bytes_disjoint_iff:
  "key_ok a \<Longrightarrow> key_ok b \<Longrightarrow>
    key_bytes a \<inter> key_bytes b = {} \<longleftrightarrow> key_end a \<le> key_start b \<or> key_end b \<le> key_start a"
  by (auto simp: key_bytes_def dest!: key_ok_bounds)

lemma key_bytes_subset_iff:
  "key_ok a \<Longrightarrow> key_bytes a \<subseteq> key_bytes b \<longleftrightarrow> key_start b \<le> key_start a \<and> key_end a \<le> key_end b"
  using key_ok_bounds[of a] by (auto simp: key_bytes_def)


section \<open>The tree invariant\<close>

definition tree_inv :: "'b tree \<Rightarrow> bool" where
  "tree_inv t \<longleftrightarrow> sorted_wrt (<) (map fst t) \<and> (\<forall>k\<in>fst ` set t. key_ok k) \<and>
     (\<forall>e\<in>set t. ref_cnt (snd e) \<noteq> 0) \<and>
     (\<forall>a\<in>fst ` set t. \<forall>b\<in>fst ` set t. a \<noteq> b \<longrightarrow> key_bytes a \<inter> key_bytes b = {})"

lemma split_tree: "below key t @ from_lower key t = t"
  by (simp add: below_def from_lower_def)

lemma in_below: "e \<in> set (below key t) \<Longrightarrow> fst e < key"
  by (auto simp: below_def dest: set_takeWhileD)

lemma in_from_lower:
  "sorted_wrt (<) (map fst t) \<Longrightarrow> e \<in> set (from_lower key t) \<Longrightarrow> key \<le> fst e"
  by (induction t) (auto simp: from_lower_def not_less split: if_splits intro: order_trans less_imp_le)

lemma lower_bound_least:
  assumes "sorted_wrt (<) (map fst t)" "lower_bound key t = Some e"
  shows "e \<in> set t \<and> key \<le> fst e \<and> (\<forall>x\<in>set t. key \<le> fst x \<longrightarrow> fst e \<le> fst x)"
proof -
  from assms(2) obtain es where es: "from_lower key t = e # es"
    by (auto simp: lower_bound_def split: list.splits)
  have t: "t = below key t @ e # es" using split_tree[of key t] es by simp
  then have set: "set t = set (below key t) \<union> insert e (set es)"
    by (metis list.simps(15) set_append)
  have "sorted_wrt (<) (map fst (below key t) @ fst e # map fst es)"
    using assms(1) t by (metis list.simps(9) map_append)
  then have "\<forall>x\<in>set es. fst e < fst x" by (auto simp: sorted_wrt_append)
  then show ?thesis using in_from_lower[OF assms(1), of e key] in_below[of _ key t] set es
    by (auto dest: leD less_imp_le)
qed

lemma lower_bound_None:
  "lower_bound key t = None \<Longrightarrow> x \<in> set t \<Longrightarrow> fst x < key"
  by (auto simp: lower_bound_def from_lower_def dropWhile_eq_Nil_conv split: list.splits)

lemma prev_entry_greatest:
  assumes "sorted_wrt (<) (map fst t)" "prev_entry key t = Some e"
  shows "e \<in> set t \<and> fst e < key \<and> (\<forall>x\<in>set t. fst x < key \<longrightarrow> fst x \<le> fst e)"
proof -
  from assms(2) have e: "e = last (below key t)" "below key t \<noteq> []"
    by (auto simp: prev_entry_def split: if_splits)
  then obtain bs where b: "below key t = bs @ [e]" by (metis append_butlast_last_id)
  have set: "set t = insert e (set bs) \<union> set (from_lower key t)"
    using arg_cong[OF split_tree[of key t], of set] b by auto
  have "map fst t = map fst bs @ fst e # map fst (from_lower key t)"
    using arg_cong[OF split_tree[of key t], of "map fst"] b by simp
  then have "\<forall>x\<in>set bs. fst x < fst e"
    using assms(1) by (auto simp: sorted_wrt_append)
  moreover have "fst e < key" using in_below[of e key t] b by simp
  ultimately show ?thesis using in_from_lower[OF assms(1), of _ key] set
    by (force dest: leD less_imp_le)
qed

lemma prev_entry_None:
  assumes "sorted_wrt (<) (map fst t)" "prev_entry key t = None" "x \<in> set t"
  shows "key \<le> fst x"
proof -
  from assms(2) have "from_lower key t = t"
    using split_tree[of key t] by (auto simp: prev_entry_def split: if_splits)
  then show ?thesis using in_from_lower[OF assms(1)] assms(3) by simp
qed

text \<open>
  Two registered ranges in key order do not overlap: the earlier one ends before the later
  one starts.
\<close>

lemma tree_inv_order:
  assumes "tree_inv t" "a \<in> fst ` set t" "b \<in> fst ` set t" "a < b"
  shows "key_end a \<le> key_start b"
proof -
  have ok: "key_ok a" "key_ok b" using assms by (auto simp: tree_inv_def)
  have "key_bytes a \<inter> key_bytes b = {}"
    using assms unfolding tree_inv_def by (metis less_irrefl)
  then show ?thesis
    using ok assms(4) key_ok_bounds[of a] key_ok_bounds[of b]
    by (auto simp: key_bytes_disjoint_iff key_less_iff)
qed

section \<open>Overlap detection and look-up\<close>

definition overlaps :: "BufferKey \<Rightarrow> BufferKey \<Rightarrow> bool" where
  "overlaps a b \<longleftrightarrow> key_bytes a \<inter> key_bytes b \<noteq> {}"

lemma overlaps_iff:
  "key_ok a \<Longrightarrow> key_ok b \<Longrightarrow> overlaps a b \<longleftrightarrow> key_start a < key_end b \<and> key_start b < key_end a"
  by (auto simp: overlaps_def key_bytes_disjoint_iff)

lemma IsIntersect_overlaps: "key_ok a \<Longrightarrow> key_ok b \<Longrightarrow> IsIntersect a b = overlaps a b"
  by (simp add: IsIntersect_iff overlaps_iff)

lemma IsSuperset_overlaps: "key_ok a \<Longrightarrow> key_ok b \<Longrightarrow> IsSuperset a b \<Longrightarrow> overlaps a b"
  using key_ok_bounds[of a] key_ok_bounds[of b] by (auto simp: IsSuperset_iff overlaps_iff)

lemma IsSubset_overlaps: "key_ok a \<Longrightarrow> key_ok b \<Longrightarrow> IsSubset a b \<Longrightarrow> overlaps a b"
  using key_ok_bounds[of a] key_ok_bounds[of b] by (auto simp: IsSubset_iff overlaps_iff)

lemma tree_disjoint:
  "tree_inv t \<Longrightarrow> a \<in> fst ` set t \<Longrightarrow> b \<in> fst ` set t \<Longrightarrow> overlaps a b \<Longrightarrow> a = b"
  unfolding tree_inv_def overlaps_def by meson

lemma tree_key_ok: "tree_inv t \<Longrightarrow> e \<in> set t \<Longrightarrow> key_ok (fst e)"
  by (auto simp: tree_inv_def)

text \<open>A registered range at or above the key that overlaps it makes the nearest one overlap.\<close>

lemma lower_overlap:
  assumes "tree_inv t" "key_ok key" "x \<in> set t" "key \<le> fst x" "overlaps (fst x) key"
    and "lower_bound key t = Some e"
  shows "overlaps (fst e) key"
proof -
  have e: "e \<in> set t" "key \<le> fst e" "fst e \<le> fst x"
    using lower_bound_least[of t key e] assms by (auto simp: tree_inv_def)
  have ok: "key_ok (fst e)" "key_ok (fst x)" using tree_key_ok[OF assms(1)] assms(3) e by blast+
  then show ?thesis
    using assms(2,5) e key_ok_bounds[of "fst e"] key_ok_bounds[of key]
    by (auto simp: overlaps_iff le_less key_less_iff)
qed

lemma prev_overlap:
  assumes "tree_inv t" "key_ok key" "x \<in> set t" "fst x < key" "overlaps (fst x) key"
    and "prev_entry key t = Some e"
  shows "e \<in> set t \<and> fst e = fst x"
proof -
  have e: "e \<in> set t" "fst e < key" "fst x \<le> fst e"
    using prev_entry_greatest[of t key e] assms by (auto simp: tree_inv_def)
  have ok: "key_ok (fst e)" "key_ok (fst x)" using tree_key_ok[OF assms(1)] assms(3) e by blast+
  have "\<not> fst x < fst e"
    using tree_inv_order[of t "fst x" "fst e"] assms(1,2,3,5) e ok
    by (auto simp: overlaps_iff key_less_iff)
  then show ?thesis using e by auto
qed


lemma rest_overlap:
  assumes "tree_inv t" "key_ok key"
  shows "(case prev_entry key t of
            Some (p, _) \<Rightarrow> IsIntersect p key \<or> IsSubset p key \<or> IsSuperset p key | None \<Rightarrow> False)
    \<longleftrightarrow> (\<exists>x\<in>set t. fst x < key \<and> overlaps (fst x) key)"
proof (cases "prev_entry key t")
  case None
  then show ?thesis using prev_entry_None[of t key] assms(1)
    by (force simp: tree_inv_def dest: leD)
next
  case (Some e)
  have e: "e \<in> set t" "fst e < key"
    using prev_entry_greatest[of t key e] Some assms(1) by (auto simp: tree_inv_def)
  have ok: "key_ok (fst e)" using tree_key_ok[OF assms(1) e(1)] .
  have "IsIntersect (fst e) key \<or> IsSubset (fst e) key \<or> IsSuperset (fst e) key \<longleftrightarrow> overlaps (fst e) key"
    using IsSubset_overlaps IsSuperset_overlaps IsIntersect_overlaps ok assms(2) by blast
  moreover have "(\<exists>x\<in>set t. fst x < key \<and> overlaps (fst x) key) \<longleftrightarrow> overlaps (fst e) key"
    using prev_overlap[OF assms(1,2) _ _ _ Some] e by metis
  ultimately show ?thesis using Some by (cases e) simp
qed

lemma check_overlap_iff:
  assumes "tree_inv t" "key_ok key"
  shows "snd (CheckOverlap key t) \<longleftrightarrow> (\<exists>e\<in>set t. fst e \<noteq> key \<and> overlaps (fst e) key)"
proof (cases "key \<in> fst ` set t")
  case True
  then have none: "\<not> (\<exists>e\<in>set t. fst e \<noteq> key \<and> overlaps (fst e) key)"
    using tree_disjoint[OF assms(1)] by blast
  obtain x where x: "x \<in> set t" "fst x = key" using True by auto
  then have "lower_bound key t \<noteq> None" using lower_bound_None[of key t x] by (metis less_irrefl)
  then obtain e where e: "lower_bound key t = Some e" by blast
  then have "fst e = key"
    using lower_bound_least[of t key e] x assms(1) by (auto simp: tree_inv_def intro: antisym)
  then show ?thesis using none e by (auto simp: CheckOverlap_def split: prod.splits)
next
  case False
  have above: "(\<exists>x\<in>set t. key \<le> fst x \<and> overlaps (fst x) key) \<longleftrightarrow>
    (case lower_bound key t of Some e \<Rightarrow> overlaps (fst e) key | None \<Rightarrow> False)"
  proof (cases "lower_bound key t")
    case None
    then show ?thesis using lower_bound_None[OF None] by (simp add: None) (metis leD)
  next
    case (Some e)
    then show ?thesis
      using lower_overlap[OF assms _ _ _ Some] lower_bound_least[of t key e] assms(1)
      by (auto simp: tree_inv_def)
  qed
  have "snd (CheckOverlap key t) \<longleftrightarrow>
    (case lower_bound key t of Some e \<Rightarrow> overlaps (fst e) key | None \<Rightarrow> False) \<or>
    (\<exists>x\<in>set t. fst x < key \<and> overlaps (fst x) key)"
  proof (cases "lower_bound key t")
    case None
    then show ?thesis
      using rest_overlap[OF assms] by (auto simp: CheckOverlap_def split: option.splits)
  next
    case (Some e)
    then have e: "e \<in> set t" using lower_bound_least[of t key e] assms(1) by (auto simp: tree_inv_def)
    then have "key_ok (fst e)" "fst e \<noteq> key" using tree_key_ok[OF assms(1)] False by auto
    then have "IsSuperset (fst e) key \<or> IsIntersect (fst e) key \<longleftrightarrow> overlaps (fst e) key"
      using IsSuperset_overlaps IsIntersect_overlaps assms(2) by blast
    then show ?thesis using Some \<open>fst e \<noteq> key\<close> rest_overlap[OF assms]
      by (auto simp: CheckOverlap_def split: option.splits prod.splits)
  qed
  then show ?thesis using above False by (metis image_eqI le_less_linear less_irrefl)
qed


section \<open>Invariant and counts\<close>

definition count_of :: "'b tree \<Rightarrow> BufferKey \<Rightarrow> nat" where
  "count_of t k = (case map_of t k of None \<Rightarrow> 0 | Some e \<Rightarrow> unat (ref_cnt e))"

text \<open>A key can be added when it is a proper range that overlaps no other registered range.\<close>

definition addable :: "'b tree \<Rightarrow> BufferKey \<Rightarrow> bool" where
  "addable t k \<longleftrightarrow> key_ok k \<and> (\<forall>e\<in>set t. overlaps (fst e) k \<longrightarrow> fst e = k)"

lemma keys_set_ref [simp]: "map fst (set_ref key r t) = map fst t"
  by (induction key r t rule: set_ref.induct) auto

lemma keyset_set_ref [simp]: "fst ` set (set_ref key r t) = fst ` set t"
  by (metis keys_set_ref set_map)

lemma map_of_set_ref:
  "map_of (set_ref key r t) k =
     (if k = key then map_option (\<lambda>b. b\<lparr>ref_cnt := r\<rparr>) (map_of t key) else map_of t k)"
  by (induction key r t rule: set_ref.induct) auto

lemma refs_set_ref:
  "r \<noteq> 0 \<Longrightarrow> \<forall>e\<in>set t. ref_cnt (snd e) \<noteq> 0 \<Longrightarrow> e \<in> set (set_ref key r t) \<Longrightarrow> ref_cnt (snd e) \<noteq> 0"
  by (induction key r t rule: set_ref.induct) (auto split: if_splits)

lemma tree_inv_set_ref: "tree_inv t \<Longrightarrow> r \<noteq> 0 \<Longrightarrow> tree_inv (set_ref key r t)"
  unfolding tree_inv_def by (metis keys_set_ref keyset_set_ref refs_set_ref)

lemma insert_split:
  assumes "tree_inv t" "map_of t key = None"
  shows "map_of (below key t @ (key, e) # from_lower key t) = (map_of t)(key \<mapsto> e)"
    and "set (below key t @ (key, e) # from_lower key t) = insert (key, e) (set t)"
    and "sorted_wrt (<) (map fst (below key t @ (key, e) # from_lower key t))"
proof -
  have m: "map_of t = map_of (from_lower key t) ++ map_of (below key t)"
    using split_tree[of key t] by (metis map_of_append)
  have "map_of (below key t) key = None"
    using in_below[of _ key t] by (force simp: map_of_eq_None_iff)
  then show "map_of (below key t @ (key, e) # from_lower key t) = (map_of t)(key \<mapsto> e)"
    by (auto simp: m map_add_def fun_eq_iff split: option.splits)
  show "set (below key t @ (key, e) # from_lower key t) = insert (key, e) (set t)"
    using arg_cong[OF split_tree[of key t], of set] by auto
  have s: "sorted_wrt (<) (map fst (below key t) @ map fst (from_lower key t))"
    using assms(1) split_tree[of key t] by (metis map_append tree_inv_def)
  have "key \<notin> fst ` set t" using assms(2) by (simp add: map_of_eq_None_iff)
  then have "key < fst x" if "x \<in> set (from_lower key t)" for x
    using that in_from_lower[of t x key] assms(1) set_dropWhileD[of x _ t]
    by (metis from_lower_def image_eqI order.not_eq_order_implies_strict tree_inv_def)
  then show "sorted_wrt (<) (map fst (below key t @ (key, e) # from_lower key t))"
    using s in_below[of _ key t] by (auto simp: sorted_wrt_append)
qed

lemma tree_inv_insert:
  assumes "tree_inv t" "map_of t key = None" "addable t key" "ref_cnt e \<noteq> 0"
  shows "tree_inv (below key t @ (key, e) # from_lower key t)" (is "tree_inv ?t")
proof -
  note i = insert_split[OF assms(1,2), where e = e]
  have keys: "fst ` set ?t = insert key (fst ` set t)" by (simp only: i(2) image_insert fst_conv)
  have new: "\<forall>a\<in>fst ` set t. a \<noteq> key \<longrightarrow> key_bytes a \<inter> key_bytes key = {}"
    using assms(3) by (auto simp: addable_def overlaps_def)
  show ?thesis unfolding tree_inv_def keys
  proof (intro conjI)
    show "sorted_wrt (<) (map fst ?t)" by (rule i(3))
    show "\<forall>k\<in>insert key (fst ` set t). key_ok k"
      using assms(1,3) by (auto simp: tree_inv_def addable_def)
    show "\<forall>e\<in>set ?t. ref_cnt (snd e) \<noteq> 0"
      using assms(1,4) unfolding i(2) by (auto simp: tree_inv_def)
    show "\<forall>a\<in>insert key (fst ` set t). \<forall>b\<in>insert key (fst ` set t).
        a \<noteq> b \<longrightarrow> key_bytes a \<inter> key_bytes b = {}"
      using assms(1) new unfolding tree_inv_def by (metis Int_commute insert_iff)
  qed
qed

lemma count_add:
  assumes "tree_inv t" "addable t k" "count_of t k < 2 ^ 64 - 1"
  shows "tree_inv (snd (AddToTree k b t)) \<and>
    (\<forall>j. count_of (snd (AddToTree k b t)) j = count_of t j + (if j = k then 1 else 0)) \<and>
    fst (AddToTree k b t) = Inr (Some k, map_of t k = None)"
proof (cases "map_of t k")
  case None
  then show ?thesis
    using tree_inv_insert[OF assms(1) None assms(2), of "\<lparr>buffer = b, ref_cnt = 1\<rparr>"]
      insert_split(1)[OF assms(1) None]
    by (auto simp: AddToTree_def count_of_def)
next
  case (Some e)
  have "unat (ref_cnt e + 1) = unat (ref_cnt e) + 1"
    using assms(3) Some by (simp add: count_of_def unat_word_ariths)
  moreover from this have "ref_cnt e + 1 \<noteq> 0" by (metis add_eq_0_iff_both_eq_0 unat_0 zero_neq_one)
  ultimately show ?thesis
    using Some assms(1) by (auto simp: AddToTree_def Let_def tree_inv_set_ref count_of_def map_of_set_ref)
qed


lemma sorted_distinct: "tree_inv t \<Longrightarrow> distinct (map fst t)"
  by (simp add: tree_inv_def strict_sorted_iff)

lemma tree_inv_filter:
  assumes "tree_inv t"
  shows "tree_inv (filter P t)"
proof -
  have "fst ` set (filter P t) \<subseteq> fst ` set t" by auto
  moreover have "sorted_wrt (<) (map fst (filter P t))"
    using assms by (simp add: tree_inv_def sorted_wrt_map sorted_wrt_filter)
  ultimately show ?thesis using assms unfolding tree_inv_def
    by (metis (no_types, lifting) filter_is_subset subsetD)
qed

lemma map_of_filter_key:
  "map_of (filter (\<lambda>x. fst x \<noteq> key) t) k = (if k = key then None else map_of t k)"
  by (induction t) auto

lemma count_del:
  assumes "tree_inv t" "0 < count_of t k"
  shows "tree_inv (snd (Del k t)) \<and>
    (\<forall>j. count_of (snd (Del k t)) j = count_of t j - (if j = k then 1 else 0)) \<and>
    fst (Del k t) = Inr (count_of t k = 1)"
proof -
  obtain e where e: "map_of t k = Some e" and r: "ref_cnt e \<noteq> 0"
    using assms(2) unsigned_0 by (fastforce simp: count_of_def split: option.splits)
  have u: "unat (ref_cnt e - 1) = unat (ref_cnt e) - 1" using r by (simp add: unat_minus_one)
  show ?thesis
  proof (cases "ref_cnt e = 1")
    case True
    then show ?thesis using e assms(1)
      by (auto simp: Del_def count_of_def tree_inv_filter map_of_filter_key split: option.splits)
  next
    case False
    then have "unat (ref_cnt e) \<noteq> 1" by (metis unat_1 word_unat_eq_iff)
    then show ?thesis using False e u assms(1)
      by (auto simp: Del_def Let_def count_of_def tree_inv_set_ref map_of_set_ref split: option.splits)
  qed
qed

lemma addable_add:
  assumes "tree_inv t" "addable t k"
  shows "addable (snd (AddToTree k b t)) k"
proof (cases "map_of t k")
  case None
  then show ?thesis using assms insert_split(2)[OF assms(1) None]
    by (auto simp: AddToTree_def addable_def)
next
  case (Some e)
  have "fst x = k" if "x \<in> set (set_ref k r t)" "overlaps (fst x) k" for x r
  proof -
    have "fst x \<in> fst ` set t" using that(1) keyset_set_ref[of k r t] by blast
    then show ?thesis using that(2) assms(2) by (auto simp: addable_def)
  qed
  then show ?thesis using Some assms(2)
    by (auto simp: AddToTree_def addable_def Let_def)
qed

lemma Add_addable: "tree_inv t \<Longrightarrow> addable t k \<Longrightarrow> Add k b t = AddToTree k b t"
  using check_overlap_iff[of t k] by (auto simp: Add_def addable_def)

interpretation rma: refcount_store tree_inv count_of addable
  "\<lambda>k b t. snd (Add k b t)" "\<lambda>k t. snd (Del k t)" "2 ^ 64 - 1"
proof (unfold_locales, goal_cases)
  case (1 s k v) then show ?case using count_add[of s k v] by (simp add: Add_addable)
next
  case (2 s k v) then show ?case by (simp add: Add_addable addable_add)
next
  case (3 s k v j) then show ?case using count_add[of s k v] by (simp add: Add_addable)
next
  case (4 s k) then show ?case using count_del by blast
next
  case (5 s k j) then show ?case using count_del by blast
qed

lemma container_iff:
  "key_ok a \<Longrightarrow> key_ok k \<Longrightarrow> a = k \<or> IsSuperset a k \<longleftrightarrow> key_bytes k \<subseteq> key_bytes a"
  by (auto simp: IsSuperset_iff key_bytes_subset_iff key_eq_iff)

lemma key_le_start: "a \<le> b \<Longrightarrow> key_start a \<le> key_start b"
  by (auto simp: le_less key_less_iff)

lemma container_unique:
  assumes "tree_inv t" "key_ok k" "x \<in> set t" "y \<in> set t"
    and "key_bytes k \<subseteq> key_bytes (fst x)" "key_bytes k \<subseteq> key_bytes (fst y)"
  shows "x = y"
proof -
  have "key_bytes k \<noteq> {}" using key_ok_bounds[OF assms(2)] by (simp add: key_bytes_def)
  then have "overlaps (fst x) (fst y)" using assms(5,6) by (auto simp: overlaps_def)
  then have "fst x = fst y" using tree_disjoint[OF assms(1)] assms(3,4) by blast
  then show ?thesis using sorted_distinct[OF assms(1)] assms(3,4)
    by (metis eq_key_imp_eq_value prod.collapse)
qed

lemma container_found:
  assumes "tree_inv t" "key_ok k" "x \<in> set t" "key_bytes k \<subseteq> key_bytes (fst x)"
  shows "lower_bound k t = Some x \<or> prev_entry k t = Some x"
proof -
  have ok: "key_ok (fst x)" using tree_key_ok assms(1,3) .
  have sub: "key_start (fst x) \<le> key_start k" "key_end k \<le> key_end (fst x)"
    using assms(2,4) by (simp_all add: key_bytes_subset_iff)
  have srt: "sorted_wrt (<) (map fst t)" using assms(1) by (simp add: tree_inv_def)
  have same: "y = x" if "y \<in> set t" "fst y = fst x" for y
    using that sorted_distinct[OF assms(1)] assms(3) by (metis eq_key_imp_eq_value prod.collapse)
  have ov: "overlaps (fst x) k"
    using ok assms(2) sub key_ok_bounds[of k] by (auto simp: overlaps_iff)
  show ?thesis
  proof (cases "k \<le> fst x")
    case True
    then obtain y where y: "lower_bound k t = Some y"
      using lower_bound_None[of k t x] assms(3) by (metis leD not_None_eq)
    have yb: "y \<in> set t" "k \<le> fst y" "fst y \<le> fst x"
      using lower_bound_least[OF srt y] assms(3) True by auto
    have oky: "key_ok (fst y)" using tree_key_ok assms(1) yb(1) .
    have "key_start (fst y) = key_start (fst x)"
      using key_le_start[OF yb(2)] key_le_start[OF yb(3)] sub by simp
    then have "overlaps (fst y) (fst x)"
      using oky ok key_ok_bounds[OF oky] key_ok_bounds[OF ok] by (simp add: overlaps_iff)
    then have "fst y = fst x" using tree_disjoint[OF assms(1)] yb(1) assms(3) by blast
    then show ?thesis using same[OF yb(1)] y by simp
  next
    case False
    then obtain p where p: "prev_entry k t = Some p"
      using prev_entry_None[OF srt _ assms(3)] by (metis not_None_eq)
    have "p \<in> set t \<and> fst p = fst x"
      using prev_overlap[OF assms(1-3) _ ov p] False by simp
    then show ?thesis using same p by blast
  qed
qed

section \<open>Properties\<close>

text \<open>
  C3: Registration. On a well-formed table (sorted, pairwise disjoint proper ranges, positive
  counts), \<open>Add\<close> of a proper range fails and changes nothing exactly when the range
  overlaps a different registered range; otherwise it registers the range with count one,
  or increments the count of the range when it is already there, leaves every other
  count alone, and the table stays well-formed. Overlap is decided from the two
  neighbours of the key only.
\<close>
theorem Add_correct:
  assumes "tree_inv t" "key_ok k" "count_of t k < 2 ^ 64 - 1"
  shows "if \<exists>e\<in>set t. fst e \<noteq> k \<and> overlaps (fst e) k then Add k b t = (Inr (None, False), t)
    else fst (Add k b t) = Inr (Some k, count_of t k = 0) \<and> tree_inv (snd (Add k b t)) \<and>
      (\<forall>j. count_of (snd (Add k b t)) j = count_of t j + (if j = k then 1 else 0))"
proof (cases "\<exists>e\<in>set t. fst e \<noteq> k \<and> overlaps (fst e) k")
  case True
  then show ?thesis using check_overlap_iff[OF assms(1,2)] by (simp add: Add_def)
next
  case False
  then have a: "addable t k" using assms(2) by (auto simp: addable_def)
  have "count_of t k = 0 \<longleftrightarrow> map_of t k = None"
    using assms(1) map_of_SomeD[of t k]
    by (force simp: count_of_def tree_inv_def unat_eq_0 split: option.splits)
  then show ?thesis using False count_add[OF assms(1) a assms(3), of b] Add_addable[OF assms(1) a, of b]
    by auto
qed

text \<open>
  C4: Look-up. On a well-formed table \<open>Find\<close> returns a buffer for a proper range exactly when
  some registered range contains it, and then the buffer of that range.
\<close>
theorem Find_correct:
  assumes "tree_inv t" "key_ok k"
  shows "Find k t = Some b \<longleftrightarrow> (\<exists>e\<in>set t. key_bytes k \<subseteq> key_bytes (fst e) \<and> buffer (snd e) = b)"
proof -
  have srt: "sorted_wrt (<) (map fst t)" using assms(1) by (simp add: tree_inv_def)
  have lb: "x \<in> set t" "fst x = k \<or> IsSuperset (fst x) k \<longleftrightarrow> key_bytes k \<subseteq> key_bytes (fst x)"
    if "lower_bound k t = Some x" for x
    using lower_bound_least[OF srt that] container_iff[OF tree_key_ok assms(2)] assms(1) by blast+
  have pv: "x \<in> set t" "IsSuperset (fst x) k \<longleftrightarrow> key_bytes k \<subseteq> key_bytes (fst x)"
    if "prev_entry k t = Some x" for x
    using prev_entry_greatest[OF srt that] container_iff[OF tree_key_ok assms(2)] assms(1) less_irrefl
    by metis+
  show ?thesis
  proof (cases "\<exists>e\<in>set t. key_bytes k \<subseteq> key_bytes (fst e)")
    case True
    then obtain e where e: "e \<in> set t" "key_bytes k \<subseteq> key_bytes (fst e)" by blast
    note unique = container_unique[OF assms _ e(1) _ e(2)]
    have "Find k t = Some (buffer (snd e))"
    proof (cases "lower_bound k t = Some e")
      case True
      then show ?thesis using lb(2)[OF True] e(2) by (cases e) (simp add: Find_def)
    next
      case False
      then have p: "prev_entry k t = Some e" using container_found[OF assms e] by simp
      have "\<not> (fst x = k \<or> IsSuperset (fst x) k)" if "lower_bound k t = Some x" for x
        using lb[OF that] unique[of x] that False by blast
      then show ?thesis using p pv(2)[OF p] e(2)
        by (cases e) (auto simp: Find_def Let_def split: option.splits)
    qed
    then show ?thesis using e unique by (metis option.inject)
  next
    case False
    then have "Find k t = None" using lb pv
      by (fastforce simp: Find_def Let_def split: option.splits)
    then show ?thesis using False by auto
  qed
qed


definition sample_tree :: "nat tree" where
  "sample_tree = [(BufferKey 16 8, \<lparr>buffer = 1, ref_cnt = 2\<rparr>), (BufferKey 32 16, \<lparr>buffer = 2, ref_cnt = 1\<rparr>)]"

lemma sample_tree_inv: "tree_inv sample_tree"
  by (simp add: sample_tree_def tree_inv_def key_bytes_def key_ok_def key_start_def key_end_def
      less_BufferKey_def key_lt_def)

theorem Add_correct_witness:
  "Add (BufferKey 20 14) 3 sample_tree = (Inr (None, False), sample_tree) \<and>
   fst (Add (BufferKey 24 8) 3 sample_tree) = Inr (Some (BufferKey 24 8), True)"
  using Add_correct[OF sample_tree_inv, of "BufferKey 20 14" 3]
    Add_correct[OF sample_tree_inv, of "BufferKey 24 8" 3]
  by (simp add: sample_tree_def key_ok_def key_end_def key_start_def count_of_def overlaps_def
      key_bytes_def)

theorem Find_correct_witness:
  "Find (BufferKey 36 4) sample_tree = Some 2 \<and> Find (BufferKey 20 14) sample_tree \<noteq> Some 1"
  using Find_correct[OF sample_tree_inv, of "BufferKey 36 4" 2]
    Find_correct[OF sample_tree_inv, of "BufferKey 20 14" 1]
  by (simp add: sample_tree_def key_ok_def key_end_def key_start_def key_bytes_def)

text \<open>
  C5: Balanced registration. On a well-formed table, \<open>n\<close> successful \<open>Add\<close> calls of a range
  followed by \<open>m\<close> \<open>Del\<close> calls leave the count at the old count plus \<open>n\<close> minus \<open>m\<close>, leave
  every other range's count alone and keep the table well-formed; the \<open>Del\<close> that takes the
  count to zero reports that the entry is gone, and a \<open>Del\<close> of an unregistered range throws
  and changes nothing.
\<close>
theorem Add_Del_balanced:
  assumes "tree_inv t" "addable t k" "count_of t k + n \<le> 2 ^ 64 - 1" "m \<le> count_of t k + n"
    and t': "t' = ((\<lambda>t. snd (Del k t)) ^^ m) (((\<lambda>t. snd (Add k b t)) ^^ n) t)"
  shows "tree_inv t' \<and> (\<forall>j. count_of t' j = (if j = k then count_of t k + n - m else count_of t j)) \<and>
    fst (Del k t') = (if count_of t' k = 0 then Inl DelNotFound else Inr (count_of t' k = 1)) \<and>
    (count_of t' k = 0 \<longrightarrow> snd (Del k t') = t')"
proof -
  have inv: "tree_inv t'"
    using rma.acq_pow[OF assms(1-3), of b] rma.rel_pow[of "((\<lambda>t. snd (Add k b t)) ^^ n) t" m k] assms(4)
    by (simp add: t')
  have cnt: "count_of t' j = (if j = k then count_of t k + n - m else count_of t j)" for j
    unfolding t' by (rule rma.balanced[OF assms(1-4)])
  have zero: "map_of t' k = None" if "count_of t' k = 0"
    using inv that map_of_SomeD[of t' k]
    by (force simp: count_of_def tree_inv_def unat_eq_0 split: option.splits)
  then show ?thesis using inv cnt count_del[OF inv, of k] by (auto simp: Del_def)
qed

theorem Add_Del_balanced_witness:
  "count_of (((\<lambda>t. snd (Del (BufferKey 24 8) t)) ^^ 2) (((\<lambda>t. snd (Add (BufferKey 24 8) 3 t)) ^^ 5) sample_tree))
     (BufferKey 24 8) = 3"
  using Add_Del_balanced[OF sample_tree_inv, of "BufferKey 24 8" 5 2, OF _ _ _ refl, of 3]
  by (simp add: sample_tree_def addable_def key_ok_def key_end_def key_start_def count_of_def
      overlaps_def key_bytes_def)

end
