(* ===== verification/HeartbeatBuffers.thy ===== *)
theory HeartbeatBuffers
  imports Prelude
begin

text \<open>
  The heartbeat's containers: \<open>RingBuffer\<close> (ring_buffer.h), a byte ring over one block with
  32-bit indices, and \<open>ReferenceMap\<close> (reference_map.h), a map with a 32-bit count per key.
\<close>

section \<open>RingBuffer\<close>

record RingBuffer =
  rb_capacity :: u32
  rb_head :: u32
  rb_tail :: u32
  rb_size :: u32
  rb_data :: "u8 list"
  rb_initialized :: bool

definition new_RingBuffer :: RingBuffer where
  "new_RingBuffer =
     \<lparr>rb_capacity = 0, rb_head = 0, rb_tail = 0, rb_size = 0, rb_data = [], rb_initialized = False\<rparr>"

text \<open>\<open>alloc\<close> is the answer of the non-throwing \<open>new\<close>: the block (any contents) or null.\<close>

definition RingBuffer_Init :: "u32 \<Rightarrow> u8 list option \<Rightarrow> RingBuffer \<Rightarrow> HcclResult \<times> RingBuffer" where
  "RingBuffer_Init capacity alloc rb =
     (if rb_initialized rb then (HCCL_SUCCESS, rb)
      else let rb = rb\<lparr>rb_capacity := capacity\<rparr> in
        if rb_capacity rb \<le> 0 then (HCCL_E_PARA, rb)
        else case alloc of
          None \<Rightarrow> (HCCL_E_PTR, rb)
        | Some block \<Rightarrow> (HCCL_SUCCESS, rb\<lparr>rb_data := block, rb_initialized := True\<rparr>))"

definition write_at :: "nat \<Rightarrow> 'a list \<Rightarrow> 'a list \<Rightarrow> 'a list" where
  "write_at off bs d = take off d @ bs @ drop (off + length bs) d"

text \<open>
  \<open>mc n\<close> is the success of the library's \<open>memcpy_s\<close> with destination size and count \<open>n\<close>.
  \<open>None\<close> is the division by zero of an index taken modulo a capacity of zero.
\<close>

definition mod_checked :: "u32 \<Rightarrow> u32 \<Rightarrow> u32 option" where
  "mod_checked a b = (if b = 0 then None else Some (a mod b))"

definition PushSeg ::
  "(nat \<Rightarrow> bool) \<Rightarrow> u8 list option \<Rightarrow> u32 \<Rightarrow> RingBuffer \<Rightarrow> (HcclResult \<times> RingBuffer) option" where
  "PushSeg mc src count rb =
     (case src of None \<Rightarrow> Some (HCCL_E_PTR, rb)
      | Some bytes \<Rightarrow>
        if rb_size rb > rb_capacity rb \<or> count > rb_capacity rb - rb_size rb then Some (HCCL_E_PARA, rb)
        else let rest = rb_capacity rb - rb_tail rb;
                 n = unat count; r = unat rest; tl = unat (rb_tail rb);
                 finish = (\<lambda>d. case mod_checked (rb_tail rb + count) (rb_capacity rb) of
                     None \<Rightarrow> None
                   | Some t \<Rightarrow> Some (HCCL_SUCCESS, rb\<lparr>rb_data := d, rb_size := rb_size rb + count, rb_tail := t\<rparr>)) in
          if rest \<ge> count then
            if \<not> mc n then Some (HCCL_E_MEMORY, rb)
            else finish (write_at tl (take n bytes) (rb_data rb))
          else if \<not> mc r then Some (HCCL_E_MEMORY, rb)
          else let d = write_at tl (take r bytes) (rb_data rb) in
            if \<not> mc (n - r) then Some (HCCL_E_MEMORY, rb\<lparr>rb_data := d\<rparr>)
            else finish (write_at 0 (take (n - r) (drop r bytes)) d))"

definition PopSeg :: "u32 \<Rightarrow> RingBuffer \<Rightarrow> (HcclResult \<times> RingBuffer) option" where
  "PopSeg count rb =
     (if rb_size rb < count then Some (HCCL_E_PARA, rb)
      else case mod_checked (rb_head rb + count) (rb_capacity rb) of
          None \<Rightarrow> None
        | Some h \<Rightarrow> Some (HCCL_SUCCESS, rb\<lparr>rb_size := rb_size rb - count, rb_head := h\<rparr>))"

text \<open>The bytes written to \<open>dst\<close>; a null \<open>dst\<close> is refused.\<close>

definition GetSeg :: "(nat \<Rightarrow> bool) \<Rightarrow> bool \<Rightarrow> u32 \<Rightarrow> RingBuffer \<Rightarrow> HcclResult + u8 list" where
  "GetSeg mc dst_ok count rb =
     (if \<not> dst_ok then Inl HCCL_E_PTR
      else if rb_size rb < count then Inl HCCL_E_PARA
      else let rest = rb_capacity rb - rb_head rb;
               n = unat count; r = unat rest; hd = unat (rb_head rb) in
        if rest \<ge> count then
          if \<not> mc n then Inl HCCL_E_MEMORY else Inr (take n (drop hd (rb_data rb)))
        else if \<not> mc r then Inl HCCL_E_MEMORY
        else if \<not> mc (n - r) then Inl HCCL_E_MEMORY
        else Inr (take r (drop hd (rb_data rb)) @ take (n - r) (rb_data rb)))"

definition RingBuffer_Size :: "RingBuffer \<Rightarrow> u32" where
  "RingBuffer_Size rb = rb_size rb"

subsection \<open>Abstraction to the queue of bytes\<close>

definition ring :: "'a list \<Rightarrow> nat \<Rightarrow> nat \<Rightarrow> nat \<Rightarrow> 'a list" where
  "ring d c h n = map (\<lambda>i. d ! ((h + i) mod c)) [0..<n]"

definition contents :: "RingBuffer \<Rightarrow> u8 list" where
  "contents rb = ring (rb_data rb) (unat (rb_capacity rb)) (unat (rb_head rb)) (unat (rb_size rb))"

definition rb_inv :: "RingBuffer \<Rightarrow> bool" where
  "rb_inv rb \<longleftrightarrow> (let c = unat (rb_capacity rb) in
     rb_initialized rb \<and> 0 < c \<and> c \<le> 2 ^ 31 \<and> length (rb_data rb) = c \<and>
     unat (rb_head rb) < c \<and> unat (rb_size rb) \<le> c \<and>
     unat (rb_tail rb) = (unat (rb_head rb) + unat (rb_size rb)) mod c)"

lemma length_write_at [simp]:
  "off + length bs \<le> length d \<Longrightarrow> length (write_at off bs d) = length d"
  by (simp add: write_at_def)

lemma nth_write_at:
  "off + length bs \<le> length d \<Longrightarrow> j < length d \<Longrightarrow>
    write_at off bs d ! j = (if off \<le> j \<and> j < off + length bs then bs ! (j - off) else d ! j)"
  by (auto simp: write_at_def nth_append min_def)

lemma length_ring [simp]: "length (ring d c h n) = n"
  by (simp add: ring_def)

lemma nth_ring [simp]: "i < n \<Longrightarrow> ring d c h n ! i = d ! ((h + i) mod c)"
  by (simp add: ring_def)

lemma ring_drop: "k \<le> n \<Longrightarrow> ring d c ((h + k) mod c) (n - k) = drop k (ring d c h n)"
  by (rule nth_equalityI) (simp_all add: mod_add_left_eq add.assoc)

lemma mod_slots_neq:
  assumes "i < j" "j < i + c"
  shows "(h + i) mod c \<noteq> (h + j) mod (c::nat)"
proof
  assume "(h + i) mod c = (h + j) mod c"
  then have "c dvd (h + j) - (h + i)"
    using assms(1) by (metis mod_eq_dvd_iff_nat add_le_cancel_left less_imp_le)
  then show False using assms by (auto dest!: dvd_imp_le)
qed

text \<open>Writing \<open>bs\<close> behind the queue appends it.\<close>

lemma ring_append:
  assumes "0 < c" "n + length bs \<le> c"
    and new: "\<And>k. k < length bs \<Longrightarrow> d' ! ((h + n + k) mod c) = bs ! k"
    and old: "\<And>j. j < c \<Longrightarrow> (\<forall>k<length bs. (h + n + k) mod c \<noteq> j) \<Longrightarrow> d' ! j = d ! j"
  shows "ring d' c h (n + length bs) = ring d c h n @ bs"
proof (rule nth_equalityI)
  fix i assume "i < length (ring d' c h (n + length bs))"
  then have i: "i < n + length bs" by simp
  show "ring d' c h (n + length bs) ! i = (ring d c h n @ bs) ! i"
  proof (cases "i < n")
    case True
    have "(h + n + k) mod c \<noteq> (h + i) mod c" if "k < length bs" for k
      using mod_slots_neq[of i "n + k" c h] True that assms(2) by (simp add: add.assoc)
    then show ?thesis using True old[of "(h + i) mod c"] assms(1) by (simp add: nth_append)
  next
    case False
    then show ?thesis using i new[of "i - n"] by (simp add: nth_append)
  qed
qed simp


definition ring_write :: "'a list \<Rightarrow> nat \<Rightarrow> nat \<Rightarrow> 'a list \<Rightarrow> 'a list" where
  "ring_write d c t bs =
     (if length bs \<le> c - t then write_at t bs d
      else write_at 0 (drop (c - t) bs) (write_at t (take (c - t) bs) d))"

lemma ring_write_facts:
  assumes "length d = c" "t < c" "length bs \<le> c"
  shows "length (ring_write d c t bs) = c"
    and "k < length bs \<Longrightarrow> ring_write d c t bs ! ((t + k) mod c) = bs ! k"
    and "j < c \<Longrightarrow> (\<forall>k<length bs. (t + k) mod c \<noteq> j) \<Longrightarrow> ring_write d c t bs ! j = d ! j"
proof -
  show "length (ring_write d c t bs) = c" using assms by (simp add: ring_write_def)
  have wrap: "(t + k) mod c = (if t + k < c then t + k else t + k - c)" if "k < length bs" for k
    using that assms by (simp add: mod_if le_mod_geq)
  show "ring_write d c t bs ! ((t + k) mod c) = bs ! k" if "k < length bs"
    using that wrap[OF that] assms by (auto simp: ring_write_def nth_write_at)
  show "ring_write d c t bs ! j = d ! j" if j: "j < c" "\<forall>k<length bs. (t + k) mod c \<noteq> j"
  proof -
    have "\<not> (t \<le> j \<and> j < t + length bs)"
      using j(2)[rule_format, of "j - t"] j(1) by (auto simp: less_diff_conv2)
    moreover have "\<not> (j + c < t + length bs)"
    proof
      assume "j + c < t + length bs"
      then have "j + c - t < length bs" using assms by arith
      then show False using j wrap[of "j + c - t"] assms by auto
    qed
    ultimately show ?thesis using j(1) assms by (auto simp: ring_write_def nth_write_at)
  qed
qed

lemma unat_sub_le: "b \<le> a \<Longrightarrow> unat (a - b :: 'w::len word) = unat a - unat b"
  by (simp add: unat_sub)

lemma PushSeg_ok:
  assumes inv: "rb_inv rb" and mc: "\<forall>n>0. mc n" and n: "0 < count" "unat count \<le> length bytes"
    and room: "unat (rb_size rb) + unat count \<le> unat (rb_capacity rb)"
  shows "\<exists>rb'. PushSeg mc (Some bytes) count rb = Some (HCCL_SUCCESS, rb') \<and> rb_inv rb' \<and>
    contents rb' = contents rb @ take (unat count) bytes \<and> rb_capacity rb' = rb_capacity rb"
proof -
  let ?c = "unat (rb_capacity rb)" and ?t = "unat (rb_tail rb)" and ?n = "unat count"
    and ?h = "unat (rb_head rb)" and ?s = "unat (rb_size rb)"
  let ?b = "take ?n bytes"
  have I: "0 < ?c" "?c \<le> 2 ^ 31" "length (rb_data rb) = ?c" "?h < ?c" "?t = (?h + ?s) mod ?c" "?t < ?c"
    using inv by (auto simp: rb_inv_def Let_def)
  have le: "rb_size rb \<le> rb_capacity rb" "rb_tail rb \<le> rb_capacity rb"
    using room I by (auto simp: word_le_nat_alt)
  have rest: "unat (rb_capacity rb - rb_tail rb) = ?c - ?t" by (rule unat_sub_le[OF le(2)])
  have pos: "0 < ?n" using n(1) by (simp add: unat_gt_0 word_neq_0_conv)
  have ok: "\<not> (rb_size rb > rb_capacity rb \<or> count > rb_capacity rb - rb_size rb)"
    using le room by (simp add: word_less_nat_alt not_less unat_sub_le)
  have t': "unat ((rb_tail rb + count) mod rb_capacity rb) = (?h + (?s + ?n)) mod ?c"
  proof -
    have "unat (rb_tail rb + count) = ?t + ?n"
      using I(2,6) room by (intro unat_add_lem[THEN iffD1]) simp
    then show ?thesis using I(5) by (simp add: unat_mod_distrib mod_add_left_eq add.assoc)
  qed
  have s': "unat (rb_size rb + count) = ?s + ?n"
    using I room by (intro unat_add_lem[THEN iffD1]) simp
  have nz: "rb_capacity rb \<noteq> 0" using I(1) by auto
  let ?d = "ring_write (rb_data rb) ?c ?t ?b"
  let ?rb = "rb\<lparr>rb_data := ?d, rb_size := rb_size rb + count,
    rb_tail := (rb_tail rb + count) mod rb_capacity rb\<rparr>"
  have lb: "length ?b = ?n" "?n \<le> ?c" using n(2) room by auto
  have "PushSeg mc (Some bytes) count rb = Some (HCCL_SUCCESS, ?rb)"
    using ok mc pos nz lb rest I(6) n(2)
    by (simp add: PushSeg_def Let_def mod_checked_def word_le_nat_alt ring_write_def drop_take min_def)
  moreover have "contents ?rb = contents rb @ ?b"
    unfolding contents_def
    using ring_append[of ?c ?s ?b ?d ?h "rb_data rb"] ring_write_facts[of "rb_data rb" ?c ?t ?b] lb room I
    by (simp add: s' mod_add_left_eq)
  moreover have "rb_inv ?rb"
    using inv ring_write_facts(1)[of "rb_data rb" ?c ?t ?b] lb I room
    by (simp add: rb_inv_def Let_def s' t')
  ultimately show ?thesis by auto
qed

lemma PopSeg_ok:
  assumes inv: "rb_inv rb" and n: "unat count \<le> unat (rb_size rb)"
  shows "\<exists>rb'. PopSeg count rb = Some (HCCL_SUCCESS, rb') \<and> rb_inv rb' \<and>
    contents rb' = drop (unat count) (contents rb) \<and> rb_capacity rb' = rb_capacity rb"
proof -
  let ?c = "unat (rb_capacity rb)" and ?n = "unat count"
    and ?h = "unat (rb_head rb)" and ?s = "unat (rb_size rb)"
  have I: "0 < ?c" "?c \<le> 2 ^ 31" "?h < ?c" "?s \<le> ?c"
    using inv by (auto simp: rb_inv_def Let_def)
  have nz: "rb_capacity rb \<noteq> 0" using I(1) by auto
  have "unat (rb_head rb + count) = ?h + ?n"
    using I n by (intro unat_add_lem[THEN iffD1]) simp
  then have h': "unat ((rb_head rb + count) mod rb_capacity rb) = (?h + ?n) mod ?c"
    by (simp add: unat_mod_distrib)
  have s': "unat (rb_size rb - count) = ?s - ?n" using n by (simp add: unat_sub_le word_le_nat_alt)
  let ?rb = "rb\<lparr>rb_size := rb_size rb - count, rb_head := (rb_head rb + count) mod rb_capacity rb\<rparr>"
  have "PopSeg count rb = Some (HCCL_SUCCESS, ?rb)"
    using n nz by (simp add: PopSeg_def mod_checked_def word_less_nat_alt)
  moreover have "contents ?rb = drop ?n (contents rb)"
    using n by (simp add: contents_def s' h' ring_drop)
  moreover have "((?h + ?n) mod ?c + (?s - ?n)) mod ?c = (?h + ?s) mod ?c"
    using n by (metis add.assoc le_add_diff_inverse mod_add_left_eq)
  ultimately show ?thesis using inv n by (auto simp: rb_inv_def Let_def s' h')
qed

lemma GetSeg_ok:
  assumes inv: "rb_inv rb" and mc: "\<forall>n>0. mc n"
    and n: "0 < count" "unat count \<le> unat (rb_size rb)"
  shows "GetSeg mc True count rb = Inr (take (unat count) (contents rb))"
proof -
  let ?c = "unat (rb_capacity rb)" and ?n = "unat count"
    and ?h = "unat (rb_head rb)" and ?s = "unat (rb_size rb)" and ?d = "rb_data rb"
  have I: "0 < ?c" "length ?d = ?c" "?h < ?c" "?s \<le> ?c"
    using inv by (auto simp: rb_inv_def Let_def)
  have rest: "unat (rb_capacity rb - rb_head rb) = ?c - ?h"
    using I by (simp add: unat_sub_le word_le_nat_alt)
  have pos: "0 < ?n" using n(1) by (simp add: unat_gt_0 word_neq_0_conv)
  have wrap: "(?h + i) mod ?c = (if ?h + i < ?c then ?h + i else ?h + i - ?c)" if "i < ?n" for i
    using that I n by (simp add: mod_if le_mod_geq)
  have "(if ?n \<le> ?c - ?h then take ?n (drop ?h ?d)
         else take (?c - ?h) (drop ?h ?d) @ take (?n - (?c - ?h)) ?d) = take ?n (contents rb)"
    (is "?l = _")
  proof (rule nth_equalityI)
    show len: "length ?l = length (take ?n (contents rb))"
      using I n by (simp add: contents_def)
    fix i assume "i < length ?l"
    then have "i < ?n" using len by simp
    then show "?l ! i = take ?n (contents rb) ! i"
      using I n wrap[of i] by (auto simp: contents_def nth_append add.commute)
  qed
  then show ?thesis using n mc pos rest I(3)
    by (simp add: GetSeg_def Let_def word_le_nat_alt word_less_nat_alt not_less split: if_splits)
qed


text \<open>The interface segments of a \<open>RingBuffer\<close>: a push of a whole list, a pop, a copy out.\<close>

definition push_list :: "(nat \<Rightarrow> bool) \<Rightarrow> u8 list \<Rightarrow> RingBuffer \<Rightarrow> (HcclResult \<times> RingBuffer) option" where
  "push_list mc bs rb = PushSeg mc (Some bs) (of_nat (length bs)) rb"

definition pop_n :: "nat \<Rightarrow> RingBuffer \<Rightarrow> (HcclResult \<times> RingBuffer) option" where
  "pop_n n rb = PopSeg (of_nat n) rb"

definition get_n :: "(nat \<Rightarrow> bool) \<Rightarrow> nat \<Rightarrow> RingBuffer \<Rightarrow> HcclResult + u8 list" where
  "get_n mc n rb = GetSeg mc True (of_nat n) rb"

lemma length_contents [simp]: "length (contents rb) = unat (rb_size rb)"
  by (simp add: contents_def)

lemma unat_of_nat_le: "n \<le> unat (w :: 'w::len word) \<Longrightarrow> unat (of_nat n :: 'w word) = n"
  by (metis le_unat_uoi)

lemma of_nat_pos: "0 < n \<Longrightarrow> n \<le> unat (w :: 'w::len word) \<Longrightarrow> 0 < (of_nat n :: 'w word)"
  by (metis unat_gt_0 unat_of_nat_le word_neq_0_conv gr_implies_not0)

text \<open>The copies the library promises: any positive size that fits.\<close>

definition memcpy_some :: "nat \<Rightarrow> bool" where
  "memcpy_some n \<longleftrightarrow> 0 < n"

interpretation ringbuf: segment_queue rb_inv contents "\<lambda>rb. unat (rb_capacity rb)"
  "push_list memcpy_some" pop_n "get_n memcpy_some"
proof (unfold_locales, goal_cases)
  case (1 rb bs)
  have le: "length bs \<le> unat (rb_capacity rb)" using 1(3) by simp
  then show ?case
    using PushSeg_ok[OF 1(1), of memcpy_some "of_nat (length bs)" bs] 1(2,3)
    by (fastforce simp: push_list_def memcpy_some_def unat_of_nat_le[OF le] of_nat_pos[OF _ le])
next
  case (2 rb n)
  have le: "n \<le> unat (rb_size rb)" using 2(2) by simp
  then show ?case
    using PopSeg_ok[OF 2(1), of "of_nat n"] by (fastforce simp: pop_n_def unat_of_nat_le[OF le])
next
  case (3 rb n)
  have le: "n \<le> unat (rb_size rb)" using 3(3) by simp
  then show ?case
    using GetSeg_ok[OF 3(1), of memcpy_some "of_nat n"] 3(2)
    by (simp add: get_n_def memcpy_some_def unat_of_nat_le[OF le] of_nat_pos[OF _ le])
qed

lemma RingBuffer_Init_inv:
  assumes "0 < cap" "unat cap \<le> 2 ^ 31" "length block = unat cap"
  shows "\<exists>rb. RingBuffer_Init cap (Some block) new_RingBuffer = (HCCL_SUCCESS, rb) \<and> rb_inv rb \<and>
    contents rb = [] \<and> rb_capacity rb = cap"
  using assms
  by (simp add: RingBuffer_Init_def new_RingBuffer_def rb_inv_def contents_def ring_def Let_def
      not_le unat_gt_0 word_neq_0_conv)

lemma ring_unchanged:
  assumes "length d = c" "n + length bs \<le> c" "0 < c"
  shows "ring (ring_write d c ((h + n) mod c) bs) c h n = ring d c h n"
proof (rule nth_equalityI)
  fix i assume "i < length (ring (ring_write d c ((h + n) mod c) bs) c h n)"
  then have i: "i < n" by simp
  have "((h + n) mod c + k) mod c \<noteq> (h + i) mod c" if "k < length bs" for k
    using mod_slots_neq[of i "n + k" c h] that i assms(2) by (simp add: mod_add_left_eq add.assoc)
  then show "ring (ring_write d c ((h + n) mod c) bs) c h n ! i = ring d c h n ! i"
    using ring_write_facts(3)[of d c "(h + n) mod c" bs "(h + i) mod c"] assms i by simp
qed simp

text \<open>
  C6: First in, first out. On a well-formed ring (capacity at most 2^31, head and fill
  anywhere) whose content is the segments \<open>old\<close>, pushing further non-empty segments that
  fit succeeds, and copying out and popping the segment lengths then yields exactly the old
  and the new segments, in order and unchanged across the wrap-around, and leaves the ring
  empty.
\<close>
theorem RingBuffer_fifo:
  assumes "rb_inv rb" "contents rb = concat old" "\<forall>b\<in>set (old @ new). b \<noteq> []"
    and "length (concat (old @ new)) \<le> unat (rb_capacity rb)"
  shows "\<exists>rb1 rb2. push_all (push_list memcpy_some) new rb = Some rb1 \<and>
    drain (get_n memcpy_some) pop_n (map length (old @ new)) rb1 = Some (old @ new, rb2) \<and>
    rb_inv rb2 \<and> contents rb2 = []"
proof -
  obtain rb1 where rb1: "push_all (push_list memcpy_some) new rb = Some rb1" "rb_inv rb1"
    "contents rb1 = concat (old @ new) @ []"
    using ringbuf.push_all_ok[of rb new] assms by auto
  then show ?thesis using ringbuf.drain_ok[OF rb1(2) assms(3) rb1(3)] by auto
qed

definition sample_ring :: RingBuffer where
  "sample_ring = \<lparr>rb_capacity = 5, rb_head = 3, rb_tail = 0, rb_size = 2,
     rb_data = [9, 9, 9, 1, 2], rb_initialized = True\<rparr>"

lemma sample_ring_inv: "rb_inv sample_ring"
  by (simp add: sample_ring_def rb_inv_def Let_def)

theorem RingBuffer_fifo_witness:
  "\<exists>rb1 rb2. push_all (push_list memcpy_some) [[3, 4], [5]] sample_ring = Some rb1 \<and>
    drain (get_n memcpy_some) pop_n (map length ([[1, 2]] @ [[3, 4], [5 :: u8]])) rb1 =
      Some ([[1, 2]] @ [[3, 4], [5]], rb2) \<and> rb_inv rb2 \<and> contents rb2 = []"
  by (rule RingBuffer_fifo[OF sample_ring_inv])
    (simp_all add: sample_ring_def contents_def ring_def upt_conv_Cons)

text \<open>
  C7: Failed operations. Whatever the library's copies answer, a push that does not succeed
  (null source, not enough room, a failed copy, also when the first of two copies has
  already been made) leaves the queued bytes and the invariant as they were, a push that
  does not fit is refused, and a pop or copy of more bytes than are queued is refused.
\<close>
theorem RingBuffer_errors:
  assumes "rb_inv rb"
  shows "(\<forall>r rb'. PushSeg mc src count rb = Some (r, rb') \<and> r \<noteq> HCCL_SUCCESS \<longrightarrow>
            (case src of Some bytes \<Rightarrow> unat count \<le> length bytes | None \<Rightarrow> True) \<longrightarrow>
            rb_inv rb' \<and> contents rb' = contents rb) \<and>
    (unat (rb_capacity rb) < unat (rb_size rb) + unat count \<longrightarrow>
            PushSeg mc (Some bytes) count rb = Some (HCCL_E_PARA, rb)) \<and>
    (unat (rb_size rb) < unat count \<longrightarrow>
            PopSeg count rb = Some (HCCL_E_PARA, rb) \<and> GetSeg mc True count rb = Inl HCCL_E_PARA)"
proof (intro conjI impI allI)
  let ?c = "unat (rb_capacity rb)" and ?t = "unat (rb_tail rb)" and ?s = "unat (rb_size rb)"
  have I: "0 < ?c" "length (rb_data rb) = ?c" "?s \<le> ?c" "?t < ?c"
    and t: "?t = (unat (rb_head rb) + ?s) mod ?c"
    using assms by (auto simp: rb_inv_def Let_def)
  have nz: "rb_capacity rb \<noteq> 0" using I(1) by auto
  { assume "?c < ?s + unat count"
    moreover have "unat (rb_capacity rb - rb_size rb) = ?c - ?s"
      using I(3) by (simp add: unat_sub_le word_le_nat_alt)
    ultimately show "PushSeg mc (Some bytes) count rb = Some (HCCL_E_PARA, rb)"
      by (simp add: PushSeg_def word_less_nat_alt less_diff_conv2 I(3) add.commute) }
  { assume "?s < unat count"
    then show "PopSeg count rb = Some (HCCL_E_PARA, rb)" "GetSeg mc True count rb = Inl HCCL_E_PARA"
      by (simp_all add: PopSeg_def GetSeg_def word_less_nat_alt) }
  fix r rb'
  assume f: "PushSeg mc src count rb = Some (r, rb') \<and> r \<noteq> HCCL_SUCCESS"
    and len: "case src of Some bytes \<Rightarrow> unat count \<le> length bytes | None \<Rightarrow> True"
  have rest: "unat (rb_capacity rb - rb_tail rb) = ?c - ?t"
    using I(4) by (simp add: unat_sub_le word_le_nat_alt)
  have "rb' = rb \<or> (\<exists>bs. length bs \<le> ?c - ?t \<and> ?s + length bs \<le> ?c \<and>
      rb' = rb\<lparr>rb_data := ring_write (rb_data rb) ?c ?t bs\<rparr>)"
  proof (cases src)
    case (Some bytes)
    show ?thesis
    proof (cases "rb_size rb > rb_capacity rb \<or> count > rb_capacity rb - rb_size rb")
      case False
      then have room: "?s + unat count \<le> ?c"
        by (auto simp: not_less word_le_nat_alt unat_sub_le)
      show ?thesis
        using f nz Some False len rest room
        by (auto simp: PushSeg_def Let_def mod_checked_def ring_write_def word_le_nat_alt
            split: if_splits intro!: exI[of _ "take (?c - ?t) bytes"])
    qed (use f Some in \<open>simp add: PushSeg_def\<close>)
  qed (use f in \<open>simp add: PushSeg_def\<close>)
  moreover have "ring (ring_write (rb_data rb) ?c ?t bs) ?c (unat (rb_head rb)) ?s =
      ring (rb_data rb) ?c (unat (rb_head rb)) ?s" if "?s + length bs \<le> ?c" for bs
    using ring_unchanged[of "rb_data rb" ?c ?s bs "unat (rb_head rb)"] t that I by simp
  moreover have "length (ring_write (rb_data rb) ?c ?t bs) = ?c" if "?s + length bs \<le> ?c" for bs
    using ring_write_facts(1)[of "rb_data rb" ?c ?t bs] that I by simp
  ultimately show "rb_inv rb'" "contents rb' = contents rb"
    using assms by (auto simp: contents_def rb_inv_def Let_def)
qed

theorem RingBuffer_errors_witness:
  "PushSeg memcpy_some (Some [7, 7, 7, 7]) 4 sample_ring = Some (HCCL_E_PARA, sample_ring)"
  using RingBuffer_errors[OF sample_ring_inv, of memcpy_some "Some [7, 7, 7, 7]" 4 "[7, 7, 7, 7]"]
  by (simp add: sample_ring_def)

section \<open>ReferenceMap\<close>

text \<open>Both tables are maps; \<open>operator[]\<close> of an absent key inserts a default (zero) entry.\<close>

record ('k, 'v) ReferenceMap =
  rm_data :: "'k \<Rightarrow> 'v option"
  rm_ref :: "'k \<Rightarrow> u32 option"

definition new_ReferenceMap :: "('k, 'v) ReferenceMap" where
  "new_ReferenceMap = \<lparr>rm_data = (\<lambda>_. None), rm_ref = (\<lambda>_. None)\<rparr>"

definition rm_has :: "'k \<Rightarrow> ('k, 'v) ReferenceMap \<Rightarrow> bool" where
  "rm_has k m \<longleftrightarrow> rm_data m k \<noteq> None"

definition ref_at :: "'k \<Rightarrow> ('k, 'v) ReferenceMap \<Rightarrow> u32" where
  "ref_at k m = (case rm_ref m k of None \<Rightarrow> 0 | Some r \<Rightarrow> r)"

definition set_ref_at :: "'k \<Rightarrow> u32 \<Rightarrow> ('k, 'v) ReferenceMap \<Rightarrow> ('k, 'v) ReferenceMap" where
  "set_ref_at k r m = m\<lparr>rm_ref := (rm_ref m)(k \<mapsto> r)\<rparr>"

definition rm_count :: "'k \<Rightarrow> ('k, 'v) ReferenceMap \<Rightarrow> u32 \<times> ('k, 'v) ReferenceMap" where
  "rm_count k m = (if rm_has k m then (ref_at k m, set_ref_at k (ref_at k m) m) else (0, m))"

definition rm_insert :: "'k \<Rightarrow> 'v \<Rightarrow> ('k, 'v) ReferenceMap \<Rightarrow> u32 \<times> ('k, 'v) ReferenceMap" where
  "rm_insert k v m =
     rm_count k (if rm_has k m then set_ref_at k (ref_at k m + 1) m
                 else set_ref_at k 1 (m\<lparr>rm_data := (rm_data m)(k \<mapsto> v)\<rparr>))"

definition rm_erase :: "'k \<Rightarrow> ('k, 'v) ReferenceMap \<Rightarrow> u32 \<times> ('k, 'v) ReferenceMap" where
  "rm_erase k m =
     (case rm_count k m of (refCount, m) \<Rightarrow>
        rm_count k
          (if refCount > 1 then set_ref_at k (ref_at k m - 1) m
           else if refCount = 1 then
             m\<lparr>rm_data := (rm_data m)(k := None), rm_ref := (rm_ref m)(k := None)\<rparr>
           else m))"

definition rm_clear :: "('k, 'v) ReferenceMap \<Rightarrow> ('k, 'v) ReferenceMap" where
  "rm_clear m = m\<lparr>rm_data := (\<lambda>_. None), rm_ref := (\<lambda>_. None)\<rparr>"

definition rm_at :: "'v \<Rightarrow> 'k \<Rightarrow> ('k, 'v) ReferenceMap \<Rightarrow> 'v \<times> ('k, 'v) ReferenceMap" where
  "rm_at dflt k m = (case rm_data m k of
      Some v \<Rightarrow> (v, m) | None \<Rightarrow> (dflt, m\<lparr>rm_data := (rm_data m)(k \<mapsto> dflt)\<rparr>))"

definition rm_ref_incr :: "'k \<Rightarrow> ('k, 'v) ReferenceMap \<Rightarrow> HcclResult \<times> ('k, 'v) ReferenceMap" where
  "rm_ref_incr k m =
     (if rm_has k m then (HCCL_SUCCESS, set_ref_at k (ref_at k m + 1) m) else (HCCL_E_PARA, m))"

definition rm_unref :: "'k \<Rightarrow> ('k, 'v) ReferenceMap \<Rightarrow> HcclResult \<times> ('k, 'v) ReferenceMap" where
  "rm_unref k m =
     (if rm_has k m then (HCCL_SUCCESS, set_ref_at k (ref_at k m - 1) m) else (HCCL_E_PARA, m))"

definition rm_inv :: "('k, 'v) ReferenceMap \<Rightarrow> bool" where
  "rm_inv m \<longleftrightarrow> (\<forall>k. rm_has k m = (rm_ref m k \<noteq> None)) \<and> (\<forall>k. rm_ref m k \<noteq> Some 0)"

definition rm_cnt :: "('k, 'v) ReferenceMap \<Rightarrow> 'k \<Rightarrow> nat" where
  "rm_cnt m k = unat (ref_at k m)"

lemmas rm_defs = rm_has_def ref_at_def set_ref_at_def rm_count_def rm_insert_def rm_erase_def
  rm_inv_def rm_cnt_def

lemma unat_plus1: "unat (w :: 'w::len word) + 1 < 2 ^ LENGTH('w) \<Longrightarrow> unat (w + 1) = unat w + 1"
  by (simp add: unat_word_ariths)

lemma rm_insert_cnt:
  assumes "rm_inv m" "rm_cnt m k < 2 ^ 32 - 1"
  shows "rm_inv (snd (rm_insert k v m)) \<and>
    rm_cnt (snd (rm_insert k v m)) j = rm_cnt m j + (if j = k then 1 else 0)"
proof -
  have "unat (ref_at k m + 1) = unat (ref_at k m) + 1"
    using assms(2) by (intro unat_plus1) (simp add: rm_cnt_def)
  moreover from this have "ref_at k m + 1 \<noteq> 0" by (metis add_eq_0_iff_both_eq_0 unat_0 zero_neq_one)
  ultimately show ?thesis using assms(1) by (auto simp: rm_defs split: option.splits)
qed

lemma rm_erase_cnt:
  assumes "rm_inv m" "0 < rm_cnt m k"
  shows "rm_inv (snd (rm_erase k m)) \<and>
    rm_cnt (snd (rm_erase k m)) j = rm_cnt m j - (if j = k then 1 else 0)"
proof -
  have nz: "ref_at k m \<noteq> 0" and has: "rm_has k m"
    using assms by (auto simp: rm_defs split: option.splits)
  have u: "unat (ref_at k m - 1) = unat (ref_at k m) - 1" using nz by (simp add: unat_minus_one)
  have cases: "1 < ref_at k m \<or> ref_at k m = 1"
    using nz by (metis linorder_neqE unat_1 unat_eq_0 less_one word_less_nat_alt)
  then show ?thesis using assms(1) nz has u
    by (auto simp: rm_defs split: option.splits)
qed

interpretation refmap: refcount_store rm_inv rm_cnt "\<lambda>_ _. True"
  "\<lambda>k v m. snd (rm_insert k v m)" "\<lambda>k m. snd (rm_erase k m)" "2 ^ 32 - 1"
  by unfold_locales (simp_all add: rm_insert_cnt rm_erase_cnt)


text \<open>
  Reference counts. On a well-formed map, \<open>n\<close> \<open>insert\<close> calls of a key followed by \<open>m\<close>
  \<open>erase\<close> calls leave its count at the old count plus \<open>n\<close> minus \<open>m\<close> and every other count
  unchanged; the key is present exactly while its count is positive, and the call that
  returns zero has removed it.
\<close>
theorem ReferenceMap_balanced:
  assumes "rm_inv m" "rm_cnt m k + n \<le> 2 ^ 32 - 1" "p \<le> rm_cnt m k + n"
    and m': "m' = ((\<lambda>m. snd (rm_erase k m)) ^^ p) (((\<lambda>m. snd (rm_insert k v m)) ^^ n) m)"
  shows "(\<forall>j. rm_cnt m' j = (if j = k then rm_cnt m k + n - p else rm_cnt m j)) \<and>
    (\<forall>j. rm_has j m' = (0 < rm_cnt m' j)) \<and>
    (unat (fst (rm_count k m')) = rm_cnt m' k)"
proof -
  have inv: "rm_inv m'"
    using refmap.acq_pow[OF assms(1) TrueI assms(2), of v]
      refmap.rel_pow[of "((\<lambda>m. snd (rm_insert k v m)) ^^ n) m" p k] assms(3) by (simp add: m')
  then have "rm_has j m' = (0 < rm_cnt m' j)" for j
    by (force simp: rm_inv_def rm_cnt_def ref_at_def unat_gt_0 split: option.splits)
  moreover have "unat (fst (rm_count k m')) = rm_cnt m' k"
    using calculation[of k] by (simp add: rm_count_def rm_cnt_def)
  ultimately show ?thesis
    using refmap.balanced[OF assms(1) TrueI assms(2,3), of v] by (simp add: m')
qed

theorem ReferenceMap_balanced_witness:
  "rm_cnt (((\<lambda>m. snd (rm_erase (7::nat) m)) ^^ 1) (((\<lambda>m. snd (rm_insert 7 True m)) ^^ 3) new_ReferenceMap)) 7 = 2"
  using ReferenceMap_balanced[of "new_ReferenceMap :: (nat, bool) ReferenceMap" "7::nat" 3 1 _ True, OF _ _ _ refl]
  by (simp add: new_ReferenceMap_def rm_inv_def rm_cnt_def rm_has_def ref_at_def)

end
