(* ===== verification/Mc2Msg.thy ===== *)
theory Mc2Msg
  imports Prelude "HOL-Library.Word"
begin

unbundle bit_operations_syntax

text \<open>
  The messages of the MC2 protocol between the AI core (client) and the AICPU (server):
  the layout of \<open>HcclMsg\<close> and \<open>HcclMsgExt\<close> (hccl_msg.h), their assembly with an xor
  checksum by the client (hccl_aicpu_common.h), and the checked read by the server
  (aicpu_kfc_utils.cc). A message slot is a block of 32-bit words, so that the two views
  of the union \<open>addMsg\<close> are the same words; the extension is a block of 64-bit words.
\<close>

section \<open>Constants and enumerations\<close>

definition HCCL_MSG_VALID_MASK :: u32 where "HCCL_MSG_VALID_MASK = 0x5CDF123A"
definition COMMIT_VALID_MASK :: u64 where "COMMIT_VALID_MASK = 987654321"
definition FINALIZE_FINISH_CNT :: u64 where "FINALIZE_FINISH_CNT = 1234567899999999999"
definition HCCL_MAX_HANDLE_ID :: int where "HCCL_MAX_HANDLE_ID = 63"
definition HCCL_MSG_CNT :: nat where "HCCL_MSG_CNT = 64"
definition HCCL_MSG_DATA_CNT :: nat where "HCCL_MSG_DATA_CNT = 16"
definition HCCL_VALID_POS :: nat where "HCCL_VALID_POS = 12"
definition HCCL_MAX_RANK_NUM_V2 :: nat where "HCCL_MAX_RANK_NUM_V2 = 256"

datatype HcclTilingVersion =
    DEPRECATED_TILING_VERSION
  | NEW_TILING_VERSION
  | ONLINE_COMPILATION_TILING_VERSION
  | CONTEXT_DECOUPLE_VERSION
  | INVALID_TILING_VERSION

fun version_code :: "HcclTilingVersion \<Rightarrow> u8" where
  "version_code DEPRECATED_TILING_VERSION = 0"
| "version_code NEW_TILING_VERSION = 1"
| "version_code ONLINE_COMPILATION_TILING_VERSION = 2"
| "version_code CONTEXT_DECOUPLE_VERSION = 3"
| "version_code INVALID_TILING_VERSION = 4"

text \<open>
  The message type is a union of \<open>HcclCMDType\<close> and \<open>ControlMsgType\<close>, a 32-bit value;
  these are the members the code names.
\<close>

definition HCCL_CMD_ALLREDUCE :: u32 where "HCCL_CMD_ALLREDUCE = 2"
definition HCCL_CMD_ALLGATHER :: u32 where "HCCL_CMD_ALLGATHER = 6"
definition HCCL_CMD_REDUCE_SCATTER :: u32 where "HCCL_CMD_REDUCE_SCATTER = 7"
definition HCCL_CMD_ALLTOALLV :: u32 where "HCCL_CMD_ALLTOALLV = 8"
definition HCCL_CMD_ALLTOALL :: u32 where "HCCL_CMD_ALLTOALL = 10"
definition HCCL_CMD_BATCH_WRITE :: u32 where "HCCL_CMD_BATCH_WRITE = 18"
definition HCCL_CMD_ALL :: u32 where "HCCL_CMD_ALL = 21"
definition HCCL_CMD_FINALIZE :: u32 where "HCCL_CMD_FINALIZE = 100"
definition HCCL_CMD_INTER_GROUP_SYNC :: u32 where "HCCL_CMD_INTER_GROUP_SYNC = 101"
definition HCCL_CMD_MAX :: u32 where "HCCL_CMD_MAX = 104"

lemmas cmd_codes = HCCL_CMD_ALLREDUCE_def HCCL_CMD_ALLGATHER_def HCCL_CMD_REDUCE_SCATTER_def
  HCCL_CMD_ALLTOALLV_def HCCL_CMD_ALLTOALL_def HCCL_CMD_BATCH_WRITE_def HCCL_CMD_ALL_def
  HCCL_CMD_FINALIZE_def HCCL_CMD_INTER_GROUP_SYNC_def HCCL_CMD_MAX_def

definition HCCL_DATA_TYPE_RESERVED :: u32 where "HCCL_DATA_TYPE_RESERVED = 18"
definition HCCL_REDUCE_RESERVED :: u32 where "HCCL_REDUCE_RESERVED = 4"

section \<open>Message structures\<close>

record V0MsgAdditionInfo =
  v0_hcclDataType :: u32
  v0_p2pSrcDestRankId :: u32
  v0_valid :: u32
  v0_repeatCnt :: u8
  v0_everyTurnRsp :: u8
  v0_everyTurnWait :: u8
  v0_commDepGroupID :: u8
  v0_commDepHandleID :: u8
  v0_selfHandleID :: u8
  v0_seqNum :: u8
  v0_version :: u8

record V1MsgAdditionInfo =
  v1_ccOpTilingData :: u64
  v1_valid :: u32
  v1_hcclDataType :: u32
  v1_repeatCnt :: u8
  v1_selfHandleID :: u8
  v1_seqNum :: u8
  v1_version :: u8

datatype AddMsg = V0 V0MsgAdditionInfo | V1 V1MsgAdditionInfo

record HcclMsg =
  m_commType :: u32
  m_opType :: u32
  m_sendBuffer :: u64
  m_recvBuffer :: u64
  m_dataCnt :: u64
  m_strideCount :: u64
  m_addMsg :: AddMsg

text \<open>\<open>HcclMsg tmp{}\<close>: every byte zero, seen through one of the two views.\<close>

definition zero_v0 :: V0MsgAdditionInfo where
  "zero_v0 = \<lparr>v0_hcclDataType = 0, v0_p2pSrcDestRankId = 0, v0_valid = 0, v0_repeatCnt = 0,
     v0_everyTurnRsp = 0, v0_everyTurnWait = 0, v0_commDepGroupID = 0, v0_commDepHandleID = 0,
     v0_selfHandleID = 0, v0_seqNum = 0, v0_version = 0\<rparr>"

definition zero_v1 :: V1MsgAdditionInfo where
  "zero_v1 = \<lparr>v1_ccOpTilingData = 0, v1_valid = 0, v1_hcclDataType = 0, v1_repeatCnt = 0,
     v1_selfHandleID = 0, v1_seqNum = 0, v1_version = 0\<rparr>"

definition zero_msg :: "AddMsg \<Rightarrow> HcclMsg" where
  "zero_msg a = \<lparr>m_commType = 0, m_opType = 0, m_sendBuffer = 0, m_recvBuffer = 0, m_dataCnt = 0,
     m_strideCount = 0, m_addMsg = a\<rparr>"

subsection \<open>The words of a message\<close>

definition pack4 :: "u8 \<Rightarrow> u8 \<Rightarrow> u8 \<Rightarrow> u8 \<Rightarrow> u32" where
  "pack4 a b c d = ucast a OR push_bit 8 (ucast b) OR push_bit 16 (ucast c) OR push_bit 24 (ucast d)"

definition byte_of :: "nat \<Rightarrow> u32 \<Rightarrow> u8" where
  "byte_of i w = ucast (drop_bit (8 * i) w)"

definition lo32 :: "u64 \<Rightarrow> u32" where "lo32 x = ucast x"
definition hi32 :: "u64 \<Rightarrow> u32" where "hi32 x = ucast (drop_bit 32 x)"

definition join64 :: "u32 \<Rightarrow> u32 \<Rightarrow> u64" where
  "join64 lo hi = ucast lo OR push_bit 32 (ucast hi)"

type_synonym words = "nat \<Rightarrow> u32"

fun add_words :: "AddMsg \<Rightarrow> u32 list" where
  "add_words (V0 v) =
     [v0_hcclDataType v, v0_p2pSrcDestRankId v, v0_valid v,
      pack4 (v0_repeatCnt v) (v0_everyTurnRsp v) (v0_everyTurnWait v) (v0_commDepGroupID v),
      pack4 (v0_commDepHandleID v) (v0_selfHandleID v) (v0_seqNum v) (v0_version v)]"
| "add_words (V1 v) =
     [lo32 (v1_ccOpTilingData v), hi32 (v1_ccOpTilingData v), v1_valid v, v1_hcclDataType v,
      pack4 (v1_repeatCnt v) (v1_selfHandleID v) (v1_seqNum v) (v1_version v)]"

definition msg_words :: "HcclMsg \<Rightarrow> u32 list" where
  "msg_words m =
     [m_commType m, m_opType m, lo32 (m_sendBuffer m), hi32 (m_sendBuffer m),
      lo32 (m_recvBuffer m), hi32 (m_recvBuffer m), lo32 (m_dataCnt m), hi32 (m_dataCnt m),
      lo32 (m_strideCount m), hi32 (m_strideCount m)] @ add_words (m_addMsg m)"

text \<open>The fields as the server reads them from the words of a slot.\<close>

definition w_commType :: "words \<Rightarrow> u32" where "w_commType w = w 0"
definition w_opType :: "words \<Rightarrow> u32" where "w_opType w = w 1"
definition w_sendBuffer :: "words \<Rightarrow> u64" where "w_sendBuffer w = join64 (w 2) (w 3)"
definition w_recvBuffer :: "words \<Rightarrow> u64" where "w_recvBuffer w = join64 (w 4) (w 5)"
definition w_dataCnt :: "words \<Rightarrow> u64" where "w_dataCnt w = join64 (w 6) (w 7)"
definition w_strideCount :: "words \<Rightarrow> u64" where "w_strideCount w = join64 (w 8) (w 9)"
definition w_valid :: "words \<Rightarrow> u32" where "w_valid w = w 12"
definition w_xorCheck :: "words \<Rightarrow> u32" where "w_xorCheck w = w 15"
definition w_ccOpTilingData :: "words \<Rightarrow> u64" where "w_ccOpTilingData w = join64 (w 10) (w 11)"
definition w_hcclDataType :: "words \<Rightarrow> u32" where "w_hcclDataType w = w 13"
definition w_repeatCnt :: "words \<Rightarrow> u8" where "w_repeatCnt w = byte_of 0 (w 14)"
definition w_selfHandleID :: "words \<Rightarrow> u8" where "w_selfHandleID w = byte_of 1 (w 14)"
definition w_seqNum :: "words \<Rightarrow> u8" where "w_seqNum w = byte_of 2 (w 14)"
definition w_version :: "words \<Rightarrow> u8" where "w_version w = byte_of 3 (w 14)"
definition w_commDepGroupID :: "words \<Rightarrow> u8" where "w_commDepGroupID w = byte_of 3 (w 13)"
definition w_commDepHandleID :: "words \<Rightarrow> u8" where "w_commDepHandleID w = byte_of 0 (w 14)"

lemmas w_fields = w_commType_def w_opType_def w_sendBuffer_def w_recvBuffer_def w_dataCnt_def
  w_strideCount_def w_valid_def w_xorCheck_def w_ccOpTilingData_def w_hcclDataType_def
  w_repeatCnt_def w_selfHandleID_def w_seqNum_def w_version_def w_commDepGroupID_def
  w_commDepHandleID_def

lemma byte_of_pack4 [simp]:
  "byte_of 0 (pack4 a b c d) = a" "byte_of (Suc 0) (pack4 a b c d) = b"
  "byte_of 2 (pack4 a b c d) = c" "byte_of 3 (pack4 a b c d) = d"
  by (rule bit_word_eqI; auto simp: byte_of_def pack4_def bit_simps dest: bit_imp_le_length)+

lemma join64_parts [simp]: "join64 (lo32 x) (hi32 x) = x"
  by (rule bit_word_eqI) (auto simp: join64_def lo32_def hi32_def bit_simps)

section \<open>Copying a message into its slot\<close>

text \<open>
  \<open>CopyHcclMsg\<close> as the stores it makes, in order: the data words with the valid word left
  out, the checksum, and the valid word last.
\<close>

fun copy_loop :: "words \<Rightarrow> nat list \<Rightarrow> u32 \<times> (nat \<times> u32) list \<Rightarrow> u32 \<times> (nat \<times> u32) list" where
  "copy_loop src [] acc = acc"
| "copy_loop src (i # is) (x, st) =
     copy_loop src is
       (if i = HCCL_VALID_POS then (x XOR HCCL_MSG_VALID_MASK, st)
        else (x XOR src i, st @ [(i, src i)]))"

definition copy_stores :: "words \<Rightarrow> (nat \<times> u32) list" where
  "copy_stores src =
     (case copy_loop src [0..<HCCL_MSG_DATA_CNT - 1] (0, []) of
        (xorCheck, st) \<Rightarrow>
          st @ [(HCCL_MSG_DATA_CNT - 1, xorCheck), (HCCL_VALID_POS, HCCL_MSG_VALID_MASK)])"

definition apply_stores :: "(nat \<times> u32) list \<Rightarrow> words \<Rightarrow> words" where
  "apply_stores st w = fold (\<lambda>(i, v) w. w(i := v)) st w"

definition CopyHcclMsg :: "words \<Rightarrow> words \<Rightarrow> words" where
  "CopyHcclMsg src dst = apply_stores (copy_stores src) dst"

definition list_words :: "u32 list \<Rightarrow> words" where
  "list_words ws i = (if i < length ws then ws ! i else 0)"

section \<open>Assembling messages\<close>

record AlltoAllVParamExt =
  sendCounts :: "u64 list option"
  sdispls :: "u64 list option"
  recvCounts :: "u64 list option"
  rdispls :: "u64 list option"

record CommonPrepareParam =
  p_commType :: u32
  p_sendBuf :: u64
  p_recvBuf :: u64
  p_count :: u64
  p_dataType :: u32
  p_dstDataType :: u32
  p_op :: u32
  p_strideCount :: u64
  p_repeat :: u8
  p_paramExt :: AlltoAllVParamExt

record ControlHcclMsg =
  restart :: u8
  restarting :: u8
  restartCnt :: u8
  resetSeq :: u8

text \<open>The two function-level statics of \<open>AssembleHcclMsg\<close>.\<close>

record seq_static =
  primitiveId :: u8
  isResetPrimitiveId :: bool

definition reset_seq :: "seq_static \<Rightarrow> ControlHcclMsg \<Rightarrow> seq_static \<times> ControlHcclMsg" where
  "reset_seq st ctl =
     (if resetSeq ctl > 0 then
        (if isResetPrimitiveId st then st else st\<lparr>primitiveId := 0, isResetPrimitiveId := True\<rparr>,
         ctl\<lparr>resetSeq := 0\<rparr>)
      else (st, ctl))"

definition AssembleHcclMsg ::
  "CommonPrepareParam \<Rightarrow> HcclTilingVersion \<Rightarrow> u8 \<Rightarrow> u64 \<Rightarrow> words \<times> seq_static \<times> ControlHcclMsg
    \<Rightarrow> words \<times> seq_static \<times> ControlHcclMsg" where
  "AssembleHcclMsg param ver handle tiling s =
     (case s of (dst, st0, ctl0) \<Rightarrow>
      case reset_seq st0 ctl0 of (st, ctl) \<Rightarrow>
        if p_commType param = HCCL_CMD_FINALIZE then
          let tmp = (zero_msg (V0 (zero_v0\<lparr>v0_valid := HCCL_MSG_VALID_MASK\<rparr>)))
                      \<lparr>m_commType := p_commType param\<rparr> in
          (CopyHcclMsg (list_words (msg_words tmp)) dst,
           st\<lparr>primitiveId := 0, isResetPrimitiveId := False\<rparr>, ctl)
        else
          let add = (if ver = DEPRECATED_TILING_VERSION
                     then V0 (zero_v0\<lparr>v0_hcclDataType := p_dataType param, v0_repeatCnt := p_repeat param,
                            v0_selfHandleID := handle, v0_seqNum := primitiveId st,
                            v0_version := version_code ver, v0_valid := HCCL_MSG_VALID_MASK\<rparr>)
                     else V1 (zero_v1\<lparr>v1_ccOpTilingData := tiling, v1_hcclDataType := p_dataType param,
                            v1_repeatCnt := p_repeat param, v1_selfHandleID := handle,
                            v1_seqNum := primitiveId st, v1_version := version_code ver,
                            v1_valid := HCCL_MSG_VALID_MASK\<rparr>));
              tmp = (zero_msg add)\<lparr>m_commType := p_commType param, m_opType := p_op param,
                      m_sendBuffer := p_sendBuf param, m_recvBuffer := p_recvBuf param,
                      m_dataCnt := p_count param, m_strideCount := p_strideCount param\<rparr> in
          (CopyHcclMsg (list_words (msg_words tmp)) dst, st\<lparr>primitiveId := primitiveId st + 1\<rparr>, ctl))"

text \<open>The message of an inter-group wait.\<close>

definition AssembleHcclMsg_sync :: "CommonPrepareParam \<Rightarrow> u8 \<Rightarrow> u8 \<Rightarrow> words \<Rightarrow> words" where
  "AssembleHcclMsg_sync param srcGroupID srcHandleID dst =
     (let tmp = (zero_msg (V0 (zero_v0\<lparr>v0_commDepGroupID := srcGroupID, v0_commDepHandleID := srcHandleID,
                   v0_valid := HCCL_MSG_VALID_MASK\<rparr>)))\<lparr>m_commType := p_commType param\<rparr> in
      CopyHcclMsg (list_words (msg_words tmp)) dst)"

section \<open>Reading a message\<close>

definition GenXor :: "words \<Rightarrow> u32" where
  "GenXor w = fold (\<lambda>i x. x XOR w i) [0..<HCCL_MSG_DATA_CNT - 1] 0"

text \<open>Result, the slot, and the destination, which is overwritten before the check.\<close>

definition ReadMsgFromMemory :: "words \<Rightarrow> words \<Rightarrow> HcclResult \<times> words \<times> words" where
  "ReadMsgFromMemory src dst =
     (if w_valid src \<noteq> HCCL_MSG_VALID_MASK then (HCCL_E_AGAIN, src, dst)
      else let dst' = src in
        if GenXor dst' \<noteq> w_xorCheck src then (HCCL_E_AGAIN, src, dst')
        else (HCCL_SUCCESS, src(12 := NOT HCCL_MSG_VALID_MASK), dst'))"


section \<open>The AlltoAllV extension\<close>

text \<open>
  The extension block in 64-bit words: four arrays of 256 entries, six reserved words, the
  valid word and the checksum. An index past 255 runs into the next array, as in memory.
\<close>

type_synonym ext_words = "nat \<Rightarrow> u64"

definition ext_sendCounts :: nat where "ext_sendCounts = 0"
definition ext_sendOffset :: nat where "ext_sendOffset = 256"
definition ext_recvCounts :: nat where "ext_recvCounts = 512"
definition ext_recvOffset :: nat where "ext_recvOffset = 768"
definition ext_valid :: nat where "ext_valid = 1030"
definition ext_xorCheck :: nat where "ext_xorCheck = 1031"

lemmas ext_layout = ext_sendCounts_def ext_sendOffset_def ext_recvCounts_def ext_recvOffset_def
  ext_valid_def ext_xorCheck_def

text \<open>Reading through a pointer of the parameter block. Only AlltoAllV assembles an extension,
  and its check refuses null pointers; the value read through one stands for no behaviour.\<close>

definition ptr_read :: "u64 list option \<Rightarrow> nat \<Rightarrow> u64" where
  "ptr_read p i = (case p of Some xs \<Rightarrow> xs ! i | None \<Rightarrow> 0)"

definition ext_step :: "AlltoAllVParamExt \<Rightarrow> nat \<Rightarrow> u64 \<times> ext_words \<Rightarrow> u64 \<times> ext_words" where
  "ext_step param i xd =
     (case xd of (x, d) \<Rightarrow>
        let a = ptr_read (sendCounts param) i; b = ptr_read (sdispls param) i;
            c = ptr_read (recvCounts param) i; e = ptr_read (rdispls param) i in
        (x XOR a XOR b XOR c XOR e,
         d(ext_sendCounts + i := a, ext_sendOffset + i := b,
           ext_recvCounts + i := c, ext_recvOffset + i := e)))"

definition AssembleHcclMsgExt :: "AlltoAllVParamExt \<Rightarrow> nat \<Rightarrow> ext_words \<Rightarrow> ext_words" where
  "AssembleHcclMsgExt param rankDim dst =
     (case fold (ext_step param) [0..<rankDim] (0, dst) of
        (xorCheck, d) \<Rightarrow>
          d(ext_xorCheck := xorCheck XOR ucast HCCL_MSG_VALID_MASK,
            ext_valid := ucast HCCL_MSG_VALID_MASK))"

definition GenXor_ext :: "ext_words \<Rightarrow> nat \<Rightarrow> u64" where
  "GenXor_ext d rankSize =
     (if rankSize > HCCL_MAX_RANK_NUM_V2 then 0
      else fold (\<lambda>i x. x XOR d (ext_sendCounts + i) XOR d (ext_sendOffset + i) XOR
                  d (ext_recvCounts + i) XOR d (ext_recvOffset + i)) [0..<rankSize] 0 XOR d ext_valid)"

definition ReadMsgFromMemory_ext ::
  "ext_words \<Rightarrow> nat \<Rightarrow> ext_words \<Rightarrow> HcclResult \<times> ext_words \<times> ext_words" where
  "ReadMsgFromMemory_ext src rankSize dst =
     (if src ext_valid \<noteq> ucast HCCL_MSG_VALID_MASK then (HCCL_E_AGAIN, src, dst)
      else if rankSize > HCCL_MAX_RANK_NUM_V2 then (HCCL_E_PARA, src, dst)
      else if GenXor_ext src rankSize \<noteq> src ext_xorCheck then (HCCL_E_AGAIN, src, src)
      else (HCCL_SUCCESS, src(ext_valid := ucast (NOT HCCL_MSG_VALID_MASK)), src))"

section \<open>Copy and read back\<close>

lemma data_idx: "[0..<HCCL_MSG_DATA_CNT - 1] = [0, 1, 2, 3, 4, 5, 6, 7, 8, 9, 10, 11, 12, 13, 14]"
  by (simp add: HCCL_MSG_DATA_CNT_def upt_rec)

definition xor_data :: "words \<Rightarrow> u32" where
  "xor_data w = fold (\<lambda>i x. x XOR w i) [0, 1, 2, 3, 4, 5, 6, 7, 8, 9, 10, 11, 13, 14] 0"

lemma copy_stores_eq:
  "copy_stores src = map (\<lambda>i. (i, src i)) [0, 1, 2, 3, 4, 5, 6, 7, 8, 9, 10, 11, 13, 14] @
     [(15, xor_data src XOR HCCL_MSG_VALID_MASK), (12, HCCL_MSG_VALID_MASK)]"
  unfolding copy_stores_def data_idx
  by (simp add: HCCL_VALID_POS_def xor_data_def HCCL_MSG_DATA_CNT_def xor.assoc xor.commute xor.left_commute)

lemma CopyHcclMsg_word:
  "CopyHcclMsg src dst i =
     (if i = 12 then HCCL_MSG_VALID_MASK
      else if i = 15 then xor_data src XOR HCCL_MSG_VALID_MASK
      else if i < 15 then src i else dst i)"
  unfolding CopyHcclMsg_def copy_stores_eq
  by (simp add: apply_stores_def, intro impI, rule FalseE, presburger)


lemma GenXor_eq: "GenXor w = xor_data w XOR w 12"
  unfolding GenXor_def data_idx xor_data_def
  by (simp add: xor.assoc xor.commute xor.left_commute)

lemma xor_data_cong: "(\<And>i. i < 15 \<Longrightarrow> i \<noteq> 12 \<Longrightarrow> w i = w' i) \<Longrightarrow> xor_data w = xor_data w'"
  by (simp add: xor_data_def)

lemma xor_data_copy [simp]: "xor_data (CopyHcclMsg src dst) = xor_data src"
  by (rule xor_data_cong) (simp add: CopyHcclMsg_word)

lemma read_after_copy:
  "ReadMsgFromMemory (CopyHcclMsg src dst) d =
     (HCCL_SUCCESS, (CopyHcclMsg src dst)(12 := NOT HCCL_MSG_VALID_MASK), CopyHcclMsg src dst)"
  by (simp add: ReadMsgFromMemory_def w_valid_def w_xorCheck_def GenXor_eq CopyHcclMsg_word Let_def)

lemma length_msg_words [simp]: "length (msg_words m) = 15"
  by (cases "m_addMsg m") (simp_all add: msg_words_def)

lemma list_words_msg:
  "list_words (msg_words m) 0 = m_commType m" "list_words (msg_words m) 1 = m_opType m"
  "list_words (msg_words m) 2 = lo32 (m_sendBuffer m)" "list_words (msg_words m) 3 = hi32 (m_sendBuffer m)"
  "list_words (msg_words m) 4 = lo32 (m_recvBuffer m)" "list_words (msg_words m) 5 = hi32 (m_recvBuffer m)"
  "list_words (msg_words m) 6 = lo32 (m_dataCnt m)" "list_words (msg_words m) 7 = hi32 (m_dataCnt m)"
  "list_words (msg_words m) 8 = lo32 (m_strideCount m)" "list_words (msg_words m) 9 = hi32 (m_strideCount m)"
  "j < 5 \<Longrightarrow> list_words (msg_words m) (10 + j) = add_words (m_addMsg m) ! j"
  by (cases "m_addMsg m"; simp add: list_words_def msg_words_def nth_append; fail)+

text \<open>The client's message fields, as a server sees them in a slot.\<close>

definition v1_message :: "CommonPrepareParam \<Rightarrow> u8 \<Rightarrow> u64 \<Rightarrow> u8 \<Rightarrow> HcclTilingVersion \<Rightarrow> words \<Rightarrow> bool" where
  "v1_message param handle tiling seq ver w \<longleftrightarrow>
     w_commType w = p_commType param \<and> w_opType w = p_op param \<and>
     w_sendBuffer w = p_sendBuf param \<and> w_recvBuffer w = p_recvBuf param \<and>
     w_dataCnt w = p_count param \<and> w_strideCount w = p_strideCount param \<and>
     w_ccOpTilingData w = tiling \<and> w_hcclDataType w = p_dataType param \<and>
     w_repeatCnt w = p_repeat param \<and> w_selfHandleID w = handle \<and> w_seqNum w = seq \<and>
     w_version w = version_code ver"

lemma v1_fields:
  assumes "m = (zero_msg (V1 (zero_v1\<lparr>v1_ccOpTilingData := tiling, v1_hcclDataType := p_dataType param,
             v1_repeatCnt := p_repeat param, v1_selfHandleID := handle, v1_seqNum := seq,
             v1_version := version_code ver, v1_valid := HCCL_MSG_VALID_MASK\<rparr>)))
           \<lparr>m_commType := p_commType param, m_opType := p_op param,
            m_sendBuffer := p_sendBuf param, m_recvBuffer := p_recvBuf param,
            m_dataCnt := p_count param, m_strideCount := p_strideCount param\<rparr>"
  shows "v1_message param handle tiling seq ver (CopyHcclMsg (list_words (msg_words m)) dst)"
  using list_words_msg(11)[of 0 m] list_words_msg(11)[of 1 m] list_words_msg(11)[of 3 m]
    list_words_msg(11)[of 4 m] list_words_msg(1-10)[of m]
  by (simp add: v1_message_def w_fields CopyHcclMsg_word assms zero_msg_def)

lemma prepare_read_back:
  assumes "p_commType param \<noteq> HCCL_CMD_FINALIZE" "ver \<noteq> DEPRECATED_TILING_VERSION"
    and "AssembleHcclMsg param ver handle tiling (slot, st, ctl) = (slot', st', ctl')"
  shows "\<exists>slot'' w. ReadMsgFromMemory slot' d = (HCCL_SUCCESS, slot'', w) \<and>
    v1_message param handle tiling (primitiveId (fst (reset_seq st ctl))) ver w \<and>
    w_valid slot'' \<noteq> HCCL_MSG_VALID_MASK \<and>
    primitiveId st' = primitiveId (fst (reset_seq st ctl)) + 1"
proof -
  obtain st1 ctl1 where r: "reset_seq st ctl = (st1, ctl1)" by fastforce
  then obtain m where slot': "slot' = CopyHcclMsg (list_words (msg_words m)) slot"
    and m: "v1_message param handle tiling (primitiveId st1) ver slot'"
    and st': "primitiveId st' = primitiveId st1 + 1"
    using assms v1_fields[OF refl] by (auto simp: AssembleHcclMsg_def Let_def)
  have "w_valid (slot'(12 := NOT HCCL_MSG_VALID_MASK)) \<noteq> HCCL_MSG_VALID_MASK"
    by (simp add: w_valid_def HCCL_MSG_VALID_MASK_def)
  then show ?thesis using m st' r by (simp add: slot' read_after_copy)
qed

text \<open>
  C9: Message round trip. Whatever a slot held, a prepare message the client assembles for a
  current tiling version is accepted by the server's read, which sees every field as the
  client gave it (operation, reduction, addresses, counts, stride, tiling, data type,
  repeat, handle) and the client's current sequence number, and marks the slot free.
\<close>
theorem message_roundtrip:
  assumes "p_commType param \<noteq> HCCL_CMD_FINALIZE" "ver \<noteq> DEPRECATED_TILING_VERSION"
    and "AssembleHcclMsg param ver handle tiling (slot, st, ctl) = (slot', st', ctl')"
  shows "\<exists>slot'' w. ReadMsgFromMemory slot' d = (HCCL_SUCCESS, slot'', w) \<and>
    v1_message param handle tiling (primitiveId (fst (reset_seq st ctl))) ver w \<and>
    w_valid slot'' \<noteq> HCCL_MSG_VALID_MASK \<and>
    primitiveId st' = primitiveId (fst (reset_seq st ctl)) + 1"
  by (rule prepare_read_back[OF assms])

definition sample_param :: CommonPrepareParam where
  "sample_param = \<lparr>p_commType = HCCL_CMD_ALLGATHER, p_sendBuf = 0x100000000, p_recvBuf = 0x200000000,
     p_count = 7, p_dataType = 3, p_dstDataType = 3, p_op = HCCL_REDUCE_RESERVED, p_strideCount = 0,
     p_repeat = 2, p_paramExt = \<lparr>sendCounts = None, sdispls = None, recvCounts = None, rdispls = None\<rparr>\<rparr>"

definition idle_ctl :: ControlHcclMsg where
  "idle_ctl = \<lparr>restart = 0, restarting = 0, restartCnt = 0, resetSeq = 0\<rparr>"

theorem message_roundtrip_witness:
  "\<exists>slot' st' ctl' slot'' w.
    AssembleHcclMsg sample_param CONTEXT_DECOUPLE_VERSION 5 77
      (\<lambda>_. 1, \<lparr>primitiveId = 9, isResetPrimitiveId = False\<rparr>, idle_ctl) = (slot', st', ctl') \<and>
    ReadMsgFromMemory slot' (\<lambda>_. 0) = (HCCL_SUCCESS, slot'', w) \<and> w_seqNum w = 9 \<and> w_dataCnt w = 7"
proof -
  obtain slot' st' ctl' where a: "AssembleHcclMsg sample_param CONTEXT_DECOUPLE_VERSION 5 77
      (\<lambda>_. 1, \<lparr>primitiveId = 9, isResetPrimitiveId = False\<rparr>, idle_ctl) = (slot', st', ctl')"
    by (metis surj_pair)
  from message_roundtrip[OF _ _ a, of "\<lambda>_. 0"] show ?thesis
    using a by (auto simp: sample_param_def cmd_codes v1_message_def reset_seq_def idle_ctl_def)
qed


section \<open>Partial and corrupted messages\<close>

lemma apply_stores_other: "i \<notin> fst ` set st \<Longrightarrow> apply_stores st w i = w i"
  unfolding apply_stores_def by (induction st arbitrary: w) auto

lemma copy_stores_prefix:
  assumes "k < length (copy_stores src)"
  shows "12 \<notin> fst ` set (take k (copy_stores src))"
proof -
  let ?st = "copy_stores src"
  have b: "butlast ?st = map (\<lambda>i. (i, src i)) [0, 1, 2, 3, 4, 5, 6, 7, 8, 9, 10, 11, 13, 14] @
      [(15, xor_data src XOR HCCL_MSG_VALID_MASK)]"
    by (simp add: copy_stores_eq)
  have "take k ?st = take k (butlast ?st)"
    using assms by (simp add: take_butlast)
  then have "set (take k ?st) \<subseteq> set (butlast ?st)" by (metis set_take_subset)
  moreover have "12 \<notin> fst ` set (butlast ?st)" unfolding b by simp
  ultimately show ?thesis by blast
qed

text \<open>
  C10: No partial message is accepted. If the slot is free (its valid word is not the mask) and
  the client is anywhere within its stores, the server's read asks again and changes
  neither the slot nor its own copy; only after the last store does it accept, and then it
  has all sixteen words of the message.
\<close>
theorem no_partial_message:
  assumes "w_valid slot \<noteq> HCCL_MSG_VALID_MASK"
  shows "ReadMsgFromMemory (apply_stores (take k (copy_stores src)) slot) d =
    (if k < length (copy_stores src)
     then (HCCL_E_AGAIN, apply_stores (take k (copy_stores src)) slot, d)
     else (HCCL_SUCCESS, (CopyHcclMsg src slot)(12 := NOT HCCL_MSG_VALID_MASK), CopyHcclMsg src slot))"
proof (cases "k < length (copy_stores src)")
  case True
  have "apply_stores (take k (copy_stores src)) slot 12 = slot 12"
    by (rule apply_stores_other[OF copy_stores_prefix[OF True]])
  then show ?thesis using True assms by (simp add: ReadMsgFromMemory_def w_valid_def)
next
  case False
  then show ?thesis using read_after_copy[of src slot d] by (simp add: CopyHcclMsg_def)
qed

theorem no_partial_message_witness:
  "ReadMsgFromMemory (apply_stores (take 15 (copy_stores (\<lambda>_. 3))) (\<lambda>_. 0)) (\<lambda>_. 8) =
     (HCCL_E_AGAIN, apply_stores (take 15 (copy_stores (\<lambda>_. 3))) (\<lambda>_. 0), \<lambda>_. 8)"
  using no_partial_message[of "\<lambda>_. 0" 15 "\<lambda>_. 3" "\<lambda>_. 8"]
  by (simp add: w_valid_def HCCL_MSG_VALID_MASK_def copy_stores_eq)

lemma less_15_cases: "(i::nat) < 15 \<Longrightarrow> i \<in> {0, 1, 2, 3, 4, 5, 6, 7, 8, 9, 10, 11, 12, 13, 14}"
  by (simp, presburger)

lemma xor_data_upd:
  assumes "i < 15" "i \<noteq> 12"
  shows "xor_data (w(i := v)) = xor_data w XOR w i XOR v"
  using less_15_cases[OF assms(1)] assms(2)
  by (auto simp: xor_data_def xor.assoc xor.commute xor.left_commute)

lemma xor_left_cancel: "(z :: 'w::len word) XOR a = z XOR b \<longleftrightarrow> a = b"
  by (metis xor.assoc xor_self_eq xor.left_neutral)

lemma xor_right_cancel: "(a :: 'w::len word) XOR z = b XOR z \<longleftrightarrow> a = b"
  by (metis xor.commute xor_left_cancel)

lemma xor_neq: "(x :: 'w::len word) \<noteq> y \<Longrightarrow> z XOR x XOR y \<noteq> z"
  by (metis xor.assoc xor.right_neutral xor_left_cancel xor_self_eq)

text \<open>
  C11: The checksum catches every single damaged word. If exactly one of the sixteen words of a
  message (data, valid word or checksum) differs from what the client stored, the server
  does not accept the message and leaves the slot as it is.
\<close>
theorem single_word_corruption_detected:
  assumes "i < 16" "v \<noteq> CopyHcclMsg src slot i"
  shows "fst (ReadMsgFromMemory ((CopyHcclMsg src slot)(i := v)) d) = HCCL_E_AGAIN \<and>
    fst (snd (ReadMsgFromMemory ((CopyHcclMsg src slot)(i := v)) d)) = (CopyHcclMsg src slot)(i := v)"
proof -
  let ?w = "CopyHcclMsg src slot"
  consider "i = 12" | "i = 15" | "i < 15" "i \<noteq> 12" using assms(1) by linarith
  then have "((?w(i := v)) 12 \<noteq> HCCL_MSG_VALID_MASK) \<or> GenXor (?w(i := v)) \<noteq> (?w(i := v)) 15"
  proof cases
    case 1
    then show ?thesis using assms(2) by (simp add: CopyHcclMsg_word)
  next
    case 2
    have "xor_data (?w(15 := v)) = xor_data src" by (simp add: xor_data_def CopyHcclMsg_word)
    then show ?thesis using 2 assms(2) by (simp add: GenXor_eq CopyHcclMsg_word)
  next
    case 3
    have "xor_data ?w XOR ?w i XOR v \<noteq> xor_data ?w" using xor_neq assms(2) by metis
    then show ?thesis using 3 xor_data_upd[OF 3, of ?w v]
      by (simp add: GenXor_eq CopyHcclMsg_word xor_right_cancel)
  qed
  then show ?thesis by (auto simp: ReadMsgFromMemory_def w_valid_def w_xorCheck_def Let_def)
qed

theorem single_word_corruption_detected_witness:
  "fst (ReadMsgFromMemory ((CopyHcclMsg (\<lambda>_. 3) (\<lambda>_. 0))(7 := 4)) (\<lambda>_. 8)) = HCCL_E_AGAIN"
  using single_word_corruption_detected[of 7 4 "\<lambda>_. 3" "\<lambda>_. 0" "\<lambda>_. 8"]
  by (simp add: CopyHcclMsg_word)


section \<open>The extension: round trip\<close>

definition ext_xor :: "AlltoAllVParamExt \<Rightarrow> nat \<Rightarrow> u64" where
  "ext_xor p n = fold (\<lambda>i x. x XOR ptr_read (sendCounts p) i XOR ptr_read (sdispls p) i XOR
     ptr_read (recvCounts p) i XOR ptr_read (rdispls p) i) [0..<n] 0"

definition ext_filled :: "AlltoAllVParamExt \<Rightarrow> nat \<Rightarrow> ext_words \<Rightarrow> bool" where
  "ext_filled p n d \<longleftrightarrow> (\<forall>i<n. d (ext_sendCounts + i) = ptr_read (sendCounts p) i \<and>
     d (ext_sendOffset + i) = ptr_read (sdispls p) i \<and>
     d (ext_recvCounts + i) = ptr_read (recvCounts p) i \<and>
     d (ext_recvOffset + i) = ptr_read (rdispls p) i)"

lemma fold_snoc_upt: "fold f [0..<Suc n] s = f n (fold f [0..<n] s)"
  by simp

lemma ext_loop:
  "n \<le> 256 \<Longrightarrow> \<exists>d'. fold (ext_step p) [0..<n] (0, d) = (ext_xor p n, d') \<and> ext_filled p n d'"
proof (induction n)
  case 0
  then show ?case by (simp add: ext_xor_def ext_filled_def)
next
  case (Suc n)
  then obtain d' where d': "fold (ext_step p) [0..<n] (0, d) = (ext_xor p n, d')" "ext_filled p n d'"
    by auto
  have "ext_filled p (Suc n) (snd (ext_step p n (ext_xor p n, d')))"
    using d'(2) Suc.prems by (auto simp: ext_step_def ext_filled_def ext_layout Let_def less_Suc_eq)
  moreover have "fst (ext_step p n (ext_xor p n, d')) = ext_xor p (Suc n)"
    by (simp add: ext_step_def ext_xor_def Let_def)
  ultimately show ?case using d'(1)
    by (metis fold_snoc_upt prod.collapse)
qed

lemma GenXor_ext_filled:
  assumes "n \<le> 256" "ext_filled p n d"
  shows "GenXor_ext d n = ext_xor p n XOR d ext_valid"
proof -
  have "fold (\<lambda>i x. x XOR d (ext_sendCounts + i) XOR d (ext_sendOffset + i) XOR
      d (ext_recvCounts + i) XOR d (ext_recvOffset + i)) [0..<n] 0 = ext_xor p n"
    unfolding ext_xor_def by (rule fold_cong) (use assms(2) in \<open>auto simp: ext_filled_def\<close>)
  then show ?thesis using assms(1) by (simp add: GenXor_ext_def HCCL_MAX_RANK_NUM_V2_def)
qed

text \<open>
  C12: Extension round trip. For at most 256 ranks, the count and offset arrays an AlltoAllV
  call hands to the client are accepted by the server's read of the extension block with
  the same rank number, which obtains all four arrays unchanged for every rank and marks
  the block free; for more than 256 ranks the read refuses the block.
\<close>
theorem ext_roundtrip:
  "if n \<le> 256
   then \<exists>src' d. ReadMsgFromMemory_ext (AssembleHcclMsgExt p n blk) n dst = (HCCL_SUCCESS, src', d) \<and>
     ext_filled p n d \<and> src' ext_valid \<noteq> ucast HCCL_MSG_VALID_MASK
   else fst (ReadMsgFromMemory_ext (AssembleHcclMsgExt p n blk) n dst) = HCCL_E_PARA"
proof (cases "n \<le> 256")
  case True
  obtain d' where d': "fold (ext_step p) [0..<n] (0, blk) = (ext_xor p n, d')" "ext_filled p n d'"
    using ext_loop[OF True] by blast
  let ?d = "d'(ext_xorCheck := ext_xor p n XOR ucast HCCL_MSG_VALID_MASK, ext_valid := ucast HCCL_MSG_VALID_MASK)"
  have a: "AssembleHcclMsgExt p n blk = ?d" by (simp add: AssembleHcclMsgExt_def d'(1))
  have f: "ext_filled p n ?d" using d'(2) True by (simp add: ext_filled_def ext_layout)
  have "GenXor_ext ?d n = ?d ext_xorCheck"
    using GenXor_ext_filled[OF True f] by (simp add: ext_layout)
  then show ?thesis using True f
    by (simp add: ReadMsgFromMemory_ext_def a HCCL_MAX_RANK_NUM_V2_def HCCL_MSG_VALID_MASK_def ext_layout)
next
  case False
  have "AssembleHcclMsgExt p n blk ext_valid = ucast HCCL_MSG_VALID_MASK"
    by (simp add: AssembleHcclMsgExt_def split: prod.splits)
  then show ?thesis using False
    by (simp add: ReadMsgFromMemory_ext_def HCCL_MAX_RANK_NUM_V2_def)
qed

end
