(* ===== verification/Mc2Client.thy ===== *)
theory Mc2Client
  imports Mc2Msg
begin

text \<open>
  The client side of MC2: \<open>HcclImpl\<close> of the AICPU server type (hccl_aicpu_impl.h,
  hccl_aicpu_def.h and platform_v310/hccl_aicpu.h). The state is the object, the message
  area in global memory it shares with the server, and the function-level sequence counter
  of the message assembly. A call that spins on shared memory is \<open>None\<close> while the polled
  word does not release it: the caller's step is then not enabled in that memory.
  The argument checks of \<open>ASCENDC_HCCL_API_ASSERT\<close> exist only in the debug builds, so
  they depend on a build flag.
\<close>

section \<open>State\<close>

datatype CoreType = DEFAULT | ON_AIV | ON_AIC

record client_env =
  e_asserts :: bool
  e_restart :: bool
  e_coreType :: CoreType
  e_blockIdx :: nat
  e_cfgType :: CoreType
  e_cfgBlockId :: nat
  e_tilingStep :: "u64 \<Rightarrow> u8"
  e_tilingOp :: "u64 \<Rightarrow> u32"

record TurnCnt =
  tc_valid :: u64
  tc_cnt :: u64

record HcclMsgArea =
  sendMsgs :: "nat \<Rightarrow> words"
  multiSendMsgs :: "nat \<Rightarrow> nat \<Rightarrow> words"
  commitTurnCnt :: "nat \<Rightarrow> TurnCnt"
  finishedTurnCnt :: "nat \<Rightarrow> TurnCnt"
  paramExtMsgList :: "nat \<Rightarrow> ext_words"
  controlMsg :: ControlHcclMsg
  commitStats :: "nat \<Rightarrow> u64"
  waitStats :: "nat \<Rightarrow> u64"
  msgStats :: "nat \<Rightarrow> u64"
  snapshots :: "nat \<Rightarrow> u64"

record AlgInfo =
  ai_offset :: u64
  ai_opParam :: u64

record OpResCtx =
  oc_workspace :: u64
  oc_rankId :: u64
  oc_rankSize :: u64
  oc_algInfo :: "AlgInfo list"

text \<open>Handles are \<open>int8_t\<close>: the arrays are indexed by the signed value.\<close>

record HcclImpl =
  ccOpTilingDataTable :: "nat \<Rightarrow> u64"
  ccOpParamTable :: "nat \<Rightarrow> u64"
  hcclContext :: OpResCtx
  hcclMsgAreaAddr :: u64
  tilingBaseAddr :: u64
  queueNum :: u16
  handleIdCommitTurnCnt :: "int \<Rightarrow> u16"
  handleIdWaitCallNum :: "int \<Rightarrow> u16"
  handleId2CmdType :: "int \<Rightarrow> u8"
  handleIdMsgPosition :: "int \<Rightarrow> u8"
  handleIdRepeat :: "int \<Rightarrow> u8"
  curMsgPosition :: "nat \<Rightarrow> u8"
  curHandleId :: u8
  curVersion :: HcclTilingVersion
  workingFlag :: bool
  debugMode :: u8
  devType :: u8

record cstate =
  hccl :: HcclImpl
  area :: HcclMsgArea
  seq :: seq_static

definition HCCL_ONLY_COMPUTE :: u8 where "HCCL_ONLY_COMPUTE = 1"
definition INVALID_HANDLE_ID :: u8 where "INVALID_HANDLE_ID = - 1"
definition HCCL_FAILED :: "32 word" where "HCCL_FAILED = - 1"
definition HCCL_OK :: "32 word" where "HCCL_OK = 0"

text \<open>\<open>ASCENDC_HCCL_API_ASSERT\<close> fails: in a release build it never does.\<close>

definition assert_fails :: "client_env \<Rightarrow> bool \<Rightarrow> bool" where
  "assert_fails env c \<longleftrightarrow> e_asserts env \<and> \<not> c"

definition CheckIfRestart :: "client_env \<Rightarrow> HcclMsgArea \<Rightarrow> bool" where
  "CheckIfRestart env a \<longleftrightarrow> e_restart env \<and> restart (controlMsg a) > 0"

section \<open>Initialisation\<close>

definition new_HcclImpl :: "OpResCtx \<Rightarrow> u64 \<Rightarrow> (int \<Rightarrow> u8) \<Rightarrow> HcclImpl" where
  "new_HcclImpl ctx base garbage =
     \<lparr>ccOpTilingDataTable = (\<lambda>_. 0), ccOpParamTable = (\<lambda>_. 0), hcclContext = ctx, hcclMsgAreaAddr = 0,
      tilingBaseAddr = base, queueNum = 0, handleIdCommitTurnCnt = (\<lambda>_. 0),
      handleIdWaitCallNum = (\<lambda>_. 0), handleId2CmdType = (\<lambda>_. 0), handleIdMsgPosition = garbage,
      handleIdRepeat = (\<lambda>_. 0), curMsgPosition = (\<lambda>_. 0), curHandleId = INVALID_HANDLE_ID,
      curVersion = INVALID_TILING_VERSION, workingFlag = False, debugMode = 0, devType = 0\<rparr>"

definition InitWorkingFlag :: "client_env \<Rightarrow> bool" where
  "InitWorkingFlag env =
     (case e_cfgType env of
        ON_AIV \<Rightarrow> e_coreType env = ON_AIV \<and> e_blockIdx env = e_cfgBlockId env
      | ON_AIC \<Rightarrow> e_coreType env = ON_AIC \<and> e_blockIdx env = e_cfgBlockId env
      | DEFAULT \<Rightarrow> e_blockIdx env = e_cfgBlockId env)"

definition InitInner :: "client_env \<Rightarrow> u64 \<Rightarrow> HcclTilingVersion \<Rightarrow> HcclImpl \<Rightarrow> HcclImpl" where
  "InitInner env msgAddr version h =
     (if assert_fails env (curVersion h = INVALID_TILING_VERSION) then h
      else if msgAddr = 0 then h
      else let msgAddr = (if msgAddr AND 0x1ff \<noteq> 0 then (msgAddr AND NOT 0x1ff) + 0x200 else msgAddr) in
        h\<lparr>hcclMsgAreaAddr := msgAddr,
          handleIdMsgPosition := (\<lambda>i. if 0 \<le> i \<and> i < HCCL_MAX_HANDLE_ID then - 1 else handleIdMsgPosition h i),
          workingFlag := InitWorkingFlag env, curVersion := version\<rparr>)"

text \<open>\<open>InitV2\<close> with the init tiling at \<open>base\<close>, its debug mode and device type.\<close>

definition InitV2 ::
  "client_env \<Rightarrow> OpResCtx option \<Rightarrow> u64 \<Rightarrow> u8 \<Rightarrow> u8 \<Rightarrow> HcclImpl \<Rightarrow> HcclImpl" where
  "InitV2 env context base dbg dev h =
     (if assert_fails env (base \<noteq> 0) then h
      else let h = h\<lparr>debugMode := dbg, devType := dev, tilingBaseAddr := base\<rparr> in
        case context of
          None \<Rightarrow> h
        | Some ctx \<Rightarrow> InitInner env (oc_workspace ctx) CONTEXT_DECOUPLE_VERSION (h\<lparr>hcclContext := ctx\<rparr>))"

text \<open>\<open>SetCcTilingV2\<close>: the search for the operator parameter looks at two entries only.\<close>

definition find_opParam :: "nat \<Rightarrow> u64 \<Rightarrow> AlgInfo list \<Rightarrow> u64 option" where
  "find_opParam n offset algs = map_option ai_opParam (find (\<lambda>a. ai_offset a = offset) (take n algs))"

definition SetCcTilingV2 :: "client_env \<Rightarrow> u64 \<Rightarrow> HcclImpl \<Rightarrow> 32 word \<times> HcclImpl" where
  "SetCcTilingV2 env offset h =
     (if assert_fails env (curVersion h = CONTEXT_DECOUPLE_VERSION) then (HCCL_FAILED, h)
      else let opType = e_tilingOp env (tilingBaseAddr h + offset) in
        if assert_fails env (opType < HCCL_CMD_ALL) then (HCCL_FAILED, h)
        else let h = h\<lparr>ccOpTilingDataTable := (ccOpTilingDataTable h)(unat opType := offset)\<rparr> in
          (HCCL_OK,
           case find_opParam 2 offset (oc_algInfo (hcclContext h)) of
             None \<Rightarrow> h
           | Some p \<Rightarrow> h\<lparr>ccOpParamTable := (ccOpParamTable h)(unat opType := p)\<rparr>))"

definition GetRankDim :: "HcclImpl \<Rightarrow> u32" where
  "GetRankDim h = ucast (oc_rankSize (hcclContext h))"

text \<open>
  For a decoupled context the code reads the rank through another structure
  (\<open>CommKfcContext\<close>), at byte 88, which in \<open>OpResCtx\<close> is the offset of the fourth operator.
  Entries of the array past the list are zero.
\<close>

definition GetRankId :: "HcclImpl \<Rightarrow> u32" where
  "GetRankId h =
     (if curVersion h = CONTEXT_DECOUPLE_VERSION
      then (if 3 < length (oc_algInfo (hcclContext h)) then ucast (ai_offset (oc_algInfo (hcclContext h) ! 3)) else 0)
      else ucast (oc_rankId (hcclContext h)))"

section \<open>Sending messages\<close>

definition CheckCommonPrepareParamValid :: "client_env \<Rightarrow> HcclImpl \<Rightarrow> CommonPrepareParam \<Rightarrow> bool" where
  "CheckCommonPrepareParamValid env h param =
     (let commType = p_commType param;
          tiling = (if commType < HCCL_CMD_ALL then ccOpTilingDataTable h (unat commType) else 0);
          bad = (\<lambda>c. assert_fails env c);
          ext = p_paramExt param in
      \<not> (if curVersion h = NEW_TILING_VERSION \<or> curVersion h = ONLINE_COMPILATION_TILING_VERSION \<or>
            curVersion h = CONTEXT_DECOUPLE_VERSION
         then bad (tiling \<noteq> 0)
         else bad (curVersion h \<noteq> INVALID_TILING_VERSION \<and> tiling = 0)) \<and>
      \<not> bad (p_sendBuf param \<noteq> 0 \<and> p_recvBuf param \<noteq> 0) \<and>
      \<not> bad (commType = HCCL_CMD_BATCH_WRITE \<or> p_dataType param < HCCL_DATA_TYPE_RESERVED) \<and>
      \<not> (if commType = HCCL_CMD_ALLTOALLV
         then bad (sendCounts ext \<noteq> None \<and> sdispls ext \<noteq> None \<and> recvCounts ext \<noteq> None \<and> rdispls ext \<noteq> None)
         else bad (p_count param \<noteq> 0)))"

definition slot_of :: "client_env \<Rightarrow> u16 \<Rightarrow> cstate \<Rightarrow> words" where
  "slot_of env queId s =
     (if queueNum (hccl s) = 0 then sendMsgs (area s) (unat (curMsgPosition (hccl s) 0))
      else multiSendMsgs (area s) (unat queId + e_blockIdx env * unat (queueNum (hccl s)))
             (unat (curMsgPosition (hccl s) (unat queId))))"

definition put_slot :: "client_env \<Rightarrow> u16 \<Rightarrow> words \<Rightarrow> cstate \<Rightarrow> cstate" where
  "put_slot env queId w s =
     (let a = area s; h = hccl s; p = unat (curMsgPosition h (if queueNum h = 0 then 0 else unat queId)) in
      if queueNum h = 0 then s\<lparr>area := a\<lparr>sendMsgs := (sendMsgs a)(p := w)\<rparr>\<rparr>
      else let q = unat queId + e_blockIdx env * unat (queueNum h) in
        s\<lparr>area := a\<lparr>multiSendMsgs := (multiSendMsgs a)(q := (multiSendMsgs a q)(p := w))\<rparr>\<rparr>)"

text \<open>
  \<open>SendMsgToServer(queId, param, srcGroupID, srcHandleID)\<close>; \<open>None\<close> while the slot still holds
  an unread message.
\<close>

definition SendMsgToServer ::
  "client_env \<Rightarrow> u16 \<Rightarrow> CommonPrepareParam \<Rightarrow> u8 \<Rightarrow> u8 \<Rightarrow> cstate \<Rightarrow> cstate option" where
  "SendMsgToServer env queId param srcGroupID srcHandleID s =
     (let h = hccl s in
      if \<not> workingFlag h \<and> queueNum h = 0 then Some s
      else if CheckIfRestart env (area s) then Some s
      else if debugMode h \<noteq> HCCL_ONLY_COMPUTE \<and> w_valid (slot_of env queId s) = HCCL_MSG_VALID_MASK then None
      else if sint srcGroupID < 0 then
        let tiling = (if p_commType param < HCCL_CMD_ALL then
                        if curVersion h = CONTEXT_DECOUPLE_VERSION
                        then ccOpParamTable h (unat (p_commType param))
                        else ccOpTilingDataTable h (unat (p_commType param))
                      else 0) in
        case AssembleHcclMsg param (curVersion h) (curHandleId h) tiling
               (slot_of env queId s, seq s, controlMsg (area s)) of
          (w, q, ctl) \<Rightarrow>
            Some (put_slot env queId w (s\<lparr>seq := q, area := (area s)\<lparr>controlMsg := ctl\<rparr>\<rparr>))
      else Some (put_slot env queId (AssembleHcclMsg_sync param srcGroupID srcHandleID (slot_of env queId s)) s))"

definition SendMsgToServer_ext :: "client_env \<Rightarrow> AlltoAllVParamExt \<Rightarrow> cstate \<Rightarrow> cstate option" where
  "SendMsgToServer_ext env param s =
     (let h = hccl s; a = area s; p = unat (curMsgPosition h 0); blk = paramExtMsgList a p in
      if \<not> workingFlag h then Some s
      else if CheckIfRestart env a then Some s
      else if debugMode h \<noteq> HCCL_ONLY_COMPUTE \<and> blk ext_valid = ucast HCCL_MSG_VALID_MASK then None
      else Some (s\<lparr>area := a\<lparr>paramExtMsgList :=
             (paramExtMsgList a)(p := AssembleHcclMsgExt param (unat (GetRankDim h)) blk)\<rparr>\<rparr>))"

section \<open>Commit and wait counters\<close>

definition GetStepSizeByHandle :: "client_env \<Rightarrow> HcclImpl \<Rightarrow> int \<Rightarrow> u16" where
  "GetStepSizeByHandle env h handle =
     (if curVersion h \<noteq> NEW_TILING_VERSION \<and> curVersion h \<noteq> ONLINE_COMPILATION_TILING_VERSION \<and>
         curVersion h \<noteq> CONTEXT_DECOUPLE_VERSION then 0
      else let commType = handleId2CmdType h handle in
        if commType \<noteq> ucast HCCL_CMD_ALLTOALLV then 0
        else let t = ccOpTilingDataTable h (unat commType);
                 tilingPtr = (if curVersion h = ONLINE_COMPILATION_TILING_VERSION \<or>
                                 curVersion h = CONTEXT_DECOUPLE_VERSION
                              then t + tilingBaseAddr h else t) in
          if tilingPtr = 0 then 0 else ucast (e_tilingStep env tilingPtr))"

definition GetStepCntsPerRepeatByHandle :: "client_env \<Rightarrow> HcclImpl \<Rightarrow> int \<Rightarrow> u16" where
  "GetStepCntsPerRepeatByHandle env h handle =
     (if GetStepSizeByHandle env h handle = 0 then 1 else ucast (GetRankDim h))"

definition SetCommitTurnCntToGm :: "client_env \<Rightarrow> nat \<Rightarrow> u64 \<Rightarrow> int \<Rightarrow> cstate \<Rightarrow> cstate option" where
  "SetCommitTurnCntToGm env msgPos turnCnt handleId s =
     (let h = hccl s; new = handleIdCommitTurnCnt h handleId + ucast turnCnt;
          h = h\<lparr>handleIdCommitTurnCnt := (handleIdCommitTurnCnt h)(handleId := new)\<rparr>;
          s = s\<lparr>hccl := h\<rparr>; a = area s in
      if queueNum h \<noteq> 0 \<or> \<not> workingFlag h then Some s
      else if CheckIfRestart env a then Some s
      else if debugMode h \<noteq> HCCL_ONLY_COMPUTE \<and> tc_cnt (commitTurnCnt a msgPos) \<ge> ucast new then None
      else let cmd = unat (handleId2CmdType h handleId);
               a = a\<lparr>commitTurnCnt := (commitTurnCnt a)
                       (msgPos := \<lparr>tc_valid = COMMIT_VALID_MASK, tc_cnt = ucast new\<rparr>)\<rparr>;
               a = (if workingFlag h
                    then a\<lparr>commitStats := (commitStats a)(cmd := commitStats a cmd + turnCnt)\<rparr> else a) in
        Some (s\<lparr>area := a\<rparr>))"

text \<open>The finished count at a position once it has reached the expected one.\<close>

definition WaitFinishCntFromGm :: "client_env \<Rightarrow> nat \<Rightarrow> u64 \<Rightarrow> cstate \<Rightarrow> u64 option" where
  "WaitFinishCntFromGm env msgPos expectedCnt s =
     (let cnt = tc_cnt (finishedTurnCnt (area s) msgPos) in
      if CheckIfRestart env (area s) then Some cnt
      else if debugMode (hccl s) = HCCL_ONLY_COMPUTE \<or> cnt \<ge> expectedCnt then Some cnt else None)"

section \<open>Prepare\<close>

text \<open>The bookkeeping after the message has been sent (lines after \<open>SendMsgToServer\<close>).\<close>

definition prepare_record ::
  "client_env \<Rightarrow> bool \<Rightarrow> CommonPrepareParam \<Rightarrow> u8 \<Rightarrow> nat \<Rightarrow> cstate \<Rightarrow> (u8 \<times> cstate) option" where
  "prepare_record env commit param handleId q s =
     (let h = hccl s; hi = sint handleId;
          h = h\<lparr>handleIdMsgPosition := (handleIdMsgPosition h)(hi := curMsgPosition h q),
                handleIdRepeat := (handleIdRepeat h)(hi := p_repeat param),
                handleId2CmdType := (handleId2CmdType h)(hi := ucast (p_commType param))\<rparr>;
          s = s\<lparr>hccl := h\<rparr> in
      case (if commit then SetCommitTurnCntToGm env (unat (curMsgPosition h q))
              (ucast (p_repeat param) * ucast (GetStepCntsPerRepeatByHandle env h hi)) hi s
            else Some s) of
        None \<Rightarrow> None
      | Some s \<Rightarrow>
          let h = hccl s; p = curMsgPosition h q + 1;
              s = s\<lparr>hccl := h\<lparr>curMsgPosition := (curMsgPosition h)(q := p)\<rparr>\<rparr> in
          Some (if assert_fails env (unat p < HCCL_MSG_CNT) then INVALID_HANDLE_ID else handleId, s))"

definition CommonPrepareImpl ::
  "client_env \<Rightarrow> bool \<Rightarrow> CommonPrepareParam \<Rightarrow> cstate \<Rightarrow> (u8 \<times> cstate) option" where
  "CommonPrepareImpl env commit param s =
     (if CheckIfRestart env (area s) then Some (INVALID_HANDLE_ID, s)
      else if p_repeat param = 0 then Some (INVALID_HANDLE_ID, s)
      else if assert_fails env (CheckCommonPrepareParamValid env (hccl s) param) then Some (INVALID_HANDLE_ID, s)
      else let handleId = curHandleId (hccl s) + 1;
               s = s\<lparr>hccl := (hccl s)\<lparr>curHandleId := handleId\<rparr>\<rparr> in
        if assert_fails env (sint handleId < HCCL_MAX_HANDLE_ID) then Some (INVALID_HANDLE_ID, s)
        else case (if p_commType param = HCCL_CMD_ALLTOALLV then SendMsgToServer_ext env (p_paramExt param) s
                   else Some s) of
          None \<Rightarrow> None
        | Some s \<Rightarrow>
          let queId = (if queueNum (hccl s) = 0 then 0 else ucast (p_dataType param)) in
          (case SendMsgToServer env queId param (- 1) INVALID_HANDLE_ID s of
             None \<Rightarrow> None
           | Some s \<Rightarrow> prepare_record env commit param handleId (unat queId) s))"

definition no_ext :: AlltoAllVParamExt where
  "no_ext = \<lparr>sendCounts = None, sdispls = None, recvCounts = None, rdispls = None\<rparr>"

definition AllReduce where
  "AllReduce env commit sendBuf recvBuf count dataType rop repeat s =
     (if assert_fails env (rop < HCCL_REDUCE_RESERVED) then Some (INVALID_HANDLE_ID, s)
      else CommonPrepareImpl env commit
        \<lparr>p_commType = HCCL_CMD_ALLREDUCE, p_sendBuf = sendBuf, p_recvBuf = recvBuf, p_count = count,
         p_dataType = dataType, p_dstDataType = dataType, p_op = rop, p_strideCount = 0,
         p_repeat = repeat, p_paramExt = no_ext\<rparr> s)"

definition AllGather where
  "AllGather env commit sendBuf recvBuf sendCount dataType strideCount repeat s =
     CommonPrepareImpl env commit
       \<lparr>p_commType = HCCL_CMD_ALLGATHER, p_sendBuf = sendBuf, p_recvBuf = recvBuf, p_count = sendCount,
        p_dataType = dataType, p_dstDataType = dataType, p_op = HCCL_REDUCE_RESERVED,
        p_strideCount = strideCount, p_repeat = repeat, p_paramExt = no_ext\<rparr> s"

definition ReduceScatter where
  "ReduceScatter env commit sendBuf recvBuf recvCount dataType rop strideCount repeat s =
     (if assert_fails env (rop < HCCL_REDUCE_RESERVED) then Some (INVALID_HANDLE_ID, s)
      else CommonPrepareImpl env commit
        \<lparr>p_commType = HCCL_CMD_REDUCE_SCATTER, p_sendBuf = sendBuf, p_recvBuf = recvBuf, p_count = recvCount,
         p_dataType = dataType, p_dstDataType = dataType, p_op = rop, p_strideCount = strideCount,
         p_repeat = repeat, p_paramExt = no_ext\<rparr> s)"

definition AlltoAll where
  "AlltoAll env commit sendBuf recvBuf dataCount dataType strideCount repeat s =
     CommonPrepareImpl env commit
       \<lparr>p_commType = HCCL_CMD_ALLTOALL, p_sendBuf = sendBuf, p_recvBuf = recvBuf, p_count = dataCount,
        p_dataType = dataType, p_dstDataType = dataType, p_op = HCCL_REDUCE_RESERVED,
        p_strideCount = strideCount, p_repeat = repeat, p_paramExt = no_ext\<rparr> s"

definition AlltoAllV where
  "AlltoAllV env commit sendBuf counts displs sendType recvBuf rcounts rdispl recvType repeat s =
     (if assert_fails env (sendType = recvType) then Some (INVALID_HANDLE_ID, s)
      else CommonPrepareImpl env commit
        \<lparr>p_commType = HCCL_CMD_ALLTOALLV, p_sendBuf = sendBuf, p_recvBuf = recvBuf, p_count = 0,
         p_dataType = sendType, p_dstDataType = recvType, p_op = HCCL_REDUCE_RESERVED, p_strideCount = 0,
         p_repeat = repeat,
         p_paramExt = \<lparr>sendCounts = counts, sdispls = displs, recvCounts = rcounts, rdispls = rdispl\<rparr>\<rparr> s)"


section \<open>Query, Wait, Commit, Finalize\<close>

definition Query :: "client_env \<Rightarrow> u8 \<Rightarrow> cstate \<Rightarrow> (32 word) option" where
  "Query env handleId s =
     (let h = hccl s; hi = sint handleId in
      if assert_fails env (curVersion h \<noteq> INVALID_TILING_VERSION) then Some HCCL_FAILED
      else if assert_fails env (- 1 < hi \<and> hi < HCCL_MAX_HANDLE_ID) then Some HCCL_FAILED
      else if queueNum h \<noteq> 0 then Some 0
      else let curMsgPos = handleIdMsgPosition h hi in
        if assert_fails env (sint curMsgPos \<ge> 0) then Some HCCL_FAILED
        else map_option ucast (WaitFinishCntFromGm env (unat curMsgPos) 0 s))"

definition Wait :: "client_env \<Rightarrow> u8 \<Rightarrow> cstate \<Rightarrow> (32 word \<times> cstate) option" where
  "Wait env handleId s =
     (let h = hccl s; hi = sint handleId in
      if CheckIfRestart env (area s) then Some (HCCL_FAILED, s)
      else if assert_fails env (curVersion h \<noteq> INVALID_TILING_VERSION) then Some (HCCL_FAILED, s)
      else if queueNum h \<noteq> 0 then Some (HCCL_OK, s)
      else if hi \<le> - 1 \<or> hi \<ge> HCCL_MAX_HANDLE_ID then Some (HCCL_FAILED, s)
      else let waitCnt = handleIdWaitCallNum h hi in
        if waitCnt \<ge> handleIdCommitTurnCnt h hi then Some (HCCL_FAILED, s)
        else let cmd = unat (handleId2CmdType h hi); a = area s;
                 s = (if workingFlag h
                      then s\<lparr>area := a\<lparr>waitStats := (waitStats a)(cmd := waitStats a cmd + 1)\<rparr>\<rparr> else s);
                 curMsgPos = handleIdMsgPosition h hi in
          if assert_fails env (sint curMsgPos \<ge> 0) then Some (HCCL_FAILED, s)
          else let stepSize = GetStepSizeByHandle env h hi;
                   waitCnt = waitCnt + (if stepSize = 0 then 1 else stepSize);
                   s = s\<lparr>hccl := h\<lparr>handleIdWaitCallNum := (handleIdWaitCallNum h)(hi := waitCnt)\<rparr>\<rparr> in
            case WaitFinishCntFromGm env (unat curMsgPos) (ucast waitCnt) s of
              None \<Rightarrow> None
            | Some _ \<Rightarrow> Some (HCCL_OK, s))"

definition Commit :: "client_env \<Rightarrow> u8 \<Rightarrow> cstate \<Rightarrow> cstate option" where
  "Commit env handleId s =
     (let h = hccl s; hi = sint handleId in
      if CheckIfRestart env (area s) then Some s
      else if assert_fails env (curVersion h \<noteq> INVALID_TILING_VERSION) then Some s
      else if hi \<le> - 1 \<or> hi \<ge> HCCL_MAX_HANDLE_ID then Some s
      else if unat (handleIdCommitTurnCnt h hi)
               \<ge> unat (handleIdRepeat h hi) * unat (GetStepCntsPerRepeatByHandle env h hi) then Some s
      else let stepSize = GetStepSizeByHandle env h hi in
        SetCommitTurnCntToGm env (unat (handleIdMsgPosition h hi))
          (if stepSize = 0 then 1 else ucast stepSize) hi s)"

definition ResetFinishedTurnCnt :: "cstate \<Rightarrow> cstate" where
  "ResetFinishedTurnCnt s =
     (let a = area s; n = unat (curMsgPosition (hccl s) 0) in
      s\<lparr>area := a\<lparr>finishedTurnCnt := (\<lambda>i. if i \<le> n then (finishedTurnCnt a i)\<lparr>tc_cnt := 0\<rparr>
                                             else finishedTurnCnt a i)\<rparr>\<rparr>)"

definition finalize_param :: CommonPrepareParam where
  "finalize_param = \<lparr>p_commType = HCCL_CMD_FINALIZE, p_sendBuf = 0, p_recvBuf = 0, p_count = 0,
     p_dataType = 0, p_dstDataType = 0, p_op = 0, p_strideCount = 0, p_repeat = 1, p_paramExt = no_ext\<rparr>"

text \<open>
  \<open>SendFinalizeMsg\<close>: one message per queue; without \<open>sync\<close> the positions advance, and the
  loop returns when a position leaves the area.
\<close>

fun send_finalize :: "client_env \<Rightarrow> bool \<Rightarrow> nat list \<Rightarrow> cstate \<Rightarrow> cstate option" where
  "send_finalize env sync [] s = Some s"
| "send_finalize env sync (idx # is) s =
     (case SendMsgToServer env (of_nat idx) finalize_param (- 1) INVALID_HANDLE_ID s of
        None \<Rightarrow> None
      | Some s \<Rightarrow>
          if sync then send_finalize env sync is s
          else let h = hccl s; p = curMsgPosition h idx + 1;
                   s = s\<lparr>hccl := h\<lparr>curMsgPosition := (curMsgPosition h)(idx := p)\<rparr>\<rparr> in
            if assert_fails env (unat p < HCCL_MSG_CNT) then Some s else send_finalize env sync is s)"

definition SendFinalizeMsg :: "client_env \<Rightarrow> bool \<Rightarrow> cstate \<Rightarrow> cstate option" where
  "SendFinalizeMsg env sync s =
     (let q = queueNum (hccl s) in send_finalize env sync [0..<(if q = 0 then 1 else unat q)] s)"

definition UpdateControlMsgCount :: "client_env \<Rightarrow> u32 \<Rightarrow> cstate \<Rightarrow> cstate" where
  "UpdateControlMsgCount env msg s =
     (if assert_fails env (msg < HCCL_CMD_MAX) then s
      else let a = area s; i = unat (msg - HCCL_CMD_FINALIZE) in
        s\<lparr>area := a\<lparr>msgStats := (msgStats a)(i := msgStats a i + 1)\<rparr>\<rparr>)"

definition HCCL_API_SNAPSHOTS_CNT :: u64 where "HCCL_API_SNAPSHOTS_CNT = 15"

definition snapshot_one :: "HcclImpl \<Rightarrow> int \<Rightarrow> (nat \<Rightarrow> u64) \<Rightarrow> nat \<Rightarrow> u64" where
  "snapshot_one h handleId sn =
     (let i = unat (sn 0 mod HCCL_API_SNAPSHOTS_CNT + 1) in
      (sn(i := ucast (handleId2CmdType h handleId)))(0 := sn 0 + 1))"

definition take_snapshots :: "cstate \<Rightarrow> cstate" where
  "take_snapshots s =
     (let h = hccl s; a = area s in
      s\<lparr>area := a\<lparr>snapshots := fold (snapshot_one h) (map int [0..<nat (sint (curHandleId h) + 1)]) (snapshots a)\<rparr>\<rparr>)"

text \<open>
  \<open>Finalize\<close> up to the sending of the message (first component: whether the rest of the
  call is still to run), and the rest of it, which with \<open>sync\<close> first waits for the
  server's final count.
\<close>

definition Finalize_begin :: "client_env \<Rightarrow> bool \<Rightarrow> cstate \<Rightarrow> (bool \<times> cstate) option" where
  "Finalize_begin env sync s =
     (let h = hccl s in
      if assert_fails env (curVersion h \<noteq> INVALID_TILING_VERSION) then Some (False, s)
      else if CheckIfRestart env (area s) then Some (False, s)
      else if \<not> workingFlag h \<and> queueNum h = 0 then
        Some (False, s\<lparr>hccl := h\<lparr>curMsgPosition := (curMsgPosition h)(0 := curMsgPosition h 0 + 1)\<rparr>\<rparr>)
      else if sync \<and> sint (curHandleId h) > - 1 \<and> debugMode h \<noteq> HCCL_ONLY_COMPUTE \<and>
              (case Query env (curHandleId h) s of
                 None \<Rightarrow> True
               | Some r \<Rightarrow> sint r < int (unat (handleIdRepeat h (sint (curHandleId h))))) then None
      else map_option (\<lambda>s. (True, s)) (SendFinalizeMsg env sync s))"

definition Finalize_end :: "client_env \<Rightarrow> bool \<Rightarrow> cstate \<Rightarrow> cstate option" where
  "Finalize_end env sync s =
     (let h = hccl s;
          stats = (\<lambda>s. if workingFlag (hccl s) then take_snapshots (UpdateControlMsgCount env HCCL_CMD_FINALIZE s)
                       else s) in
      if \<not> sync then Some (stats s)
      else if CheckIfRestart env (area s) then Some s
      else if debugMode h \<noteq> HCCL_ONLY_COMPUTE \<and>
              tc_cnt (finishedTurnCnt (area s) (unat (curMsgPosition h 0))) \<noteq> FINALIZE_FINISH_CNT then None
      else let s = ResetFinishedTurnCnt s; h = hccl s; p = curMsgPosition h 0 + 1;
               s = s\<lparr>hccl := h\<lparr>curMsgPosition := (curMsgPosition h)(0 := p)\<rparr>\<rparr> in
        if assert_fails env (unat p < HCCL_MSG_CNT) then Some s else Some (stats s))"


section \<open>Effect of the calls on the client object\<close>

lemma put_slot_hccl [simp]: "hccl (put_slot env q w s) = hccl s"
  by (simp add: put_slot_def Let_def)

lemma put_slot_seq [simp]: "seq (put_slot env q w s) = seq s"
  by (simp add: put_slot_def Let_def)

lemma SendMsgToServer_hccl:
  "SendMsgToServer env q p g hnd s = Some s' \<Longrightarrow> hccl s' = hccl s"
  by (auto simp: SendMsgToServer_def Let_def split: if_splits prod.splits)

lemma SendMsgToServer_ext_hccl:
  "SendMsgToServer_ext env p s = Some s' \<Longrightarrow> hccl s' = hccl s"
  by (auto simp: SendMsgToServer_ext_def Let_def split: if_splits)

lemma SetCommitTurnCntToGm_hccl:
  "SetCommitTurnCntToGm env p n hi s = Some s' \<Longrightarrow>
    hccl s' = (hccl s)\<lparr>handleIdCommitTurnCnt :=
      (handleIdCommitTurnCnt (hccl s))(hi := handleIdCommitTurnCnt (hccl s) hi + ucast n)\<rparr>"
  by (auto simp: SetCommitTurnCntToGm_def Let_def split: if_splits)

lemma ucast_u16_u64 [simp]: "(ucast (ucast (x :: u16) :: u64) :: u16) = x"
  by (rule bit_word_eqI) (simp add: bit_simps)

text \<open>The object after the bookkeeping of a preparation.\<close>

definition prepared :: "client_env \<Rightarrow> bool \<Rightarrow> CommonPrepareParam \<Rightarrow> u8 \<Rightarrow> nat \<Rightarrow> HcclImpl \<Rightarrow> HcclImpl" where
  "prepared env commit param hnd q h0 =
     (let hi = sint hnd;
          h = h0\<lparr>handleIdMsgPosition := (handleIdMsgPosition h0)(hi := curMsgPosition h0 q),
                handleIdRepeat := (handleIdRepeat h0)(hi := p_repeat param),
                handleId2CmdType := (handleId2CmdType h0)(hi := ucast (p_commType param))\<rparr>;
          h = (if commit then h\<lparr>handleIdCommitTurnCnt := (handleIdCommitTurnCnt h)(hi := handleIdCommitTurnCnt h hi +
                 ucast (ucast (p_repeat param) * ucast (GetStepCntsPerRepeatByHandle env h hi) :: u64))\<rparr> else h) in
      h\<lparr>curMsgPosition := (curMsgPosition h)(q := curMsgPosition h q + 1)\<rparr>)"

lemma prepare_record_hccl:
  assumes "prepare_record env commit param hnd q s = Some (r, s')"
  shows "hccl s' = prepared env commit param hnd q (hccl s) \<and>
    r = (if assert_fails env (unat (curMsgPosition (hccl s) q + 1) < HCCL_MSG_CNT) then INVALID_HANDLE_ID else hnd)"
proof (cases commit)
  case True
  then show ?thesis using assms
    by (auto simp: prepare_record_def prepared_def Let_def dest!: SetCommitTurnCntToGm_hccl
        split: option.splits)
next
  case False
  then show ?thesis using assms by (auto simp: prepare_record_def prepared_def Let_def)
qed

lemma CommonPrepareImpl_hccl:
  assumes "CommonPrepareImpl env commit param s = Some (r, s')"
  defines "hnd \<equiv> curHandleId (hccl s) + 1" and "h1 \<equiv> (hccl s)\<lparr>curHandleId := curHandleId (hccl s) + 1\<rparr>"
    and "q \<equiv> unat (if queueNum (hccl s) = 0 then 0 else ucast (p_dataType param) :: u16)"
  shows "((CheckIfRestart env (area s) \<or> p_repeat param = 0 \<or>
       assert_fails env (CheckCommonPrepareParamValid env (hccl s) param)) \<and>
     hccl s' = hccl s \<and> r = INVALID_HANDLE_ID) \<or>
    (hccl s' = h1 \<and> r = INVALID_HANDLE_ID \<and> e_asserts env \<and> \<not> sint hnd < HCCL_MAX_HANDLE_ID) \<or>
    (hccl s' = prepared env commit param hnd q h1 \<and> p_repeat param \<noteq> 0 \<and>
     r = (if assert_fails env (unat (curMsgPosition (hccl s) q + 1) < HCCL_MSG_CNT) then INVALID_HANDLE_ID else hnd))"
proof (cases "CheckIfRestart env (area s) \<or> p_repeat param = 0 \<or>
    assert_fails env (CheckCommonPrepareParamValid env (hccl s) param)")
  case True
  then show ?thesis using assms(1) by (auto simp: CommonPrepareImpl_def split: if_splits)
next
  case False
  show ?thesis
  proof (cases "assert_fails env (sint hnd < HCCL_MAX_HANDLE_ID)")
    case True
    then show ?thesis using assms(1) False
      by (auto simp: CommonPrepareImpl_def Let_def h1_def hnd_def assert_fails_def)
  next
    case ok: False
    let ?s1 = "s\<lparr>hccl := h1\<rparr>"
    obtain s2 where s2: "(if p_commType param = HCCL_CMD_ALLTOALLV
        then SendMsgToServer_ext env (p_paramExt param) ?s1 else Some ?s1) = Some s2"
      using assms(1) False ok unfolding CommonPrepareImpl_def Let_def h1_def hnd_def
      by (auto split: option.splits)
    then have h2: "hccl s2 = h1" by (auto dest: SendMsgToServer_ext_hccl split: if_splits)
    obtain s3 where s3: "SendMsgToServer env (if queueNum (hccl s) = 0 then 0 else ucast (p_dataType param))
        param (- 1) INVALID_HANDLE_ID s2 = Some s3"
      and rec: "prepare_record env commit param hnd q s3 = Some (r, s')"
      using assms(1) False ok s2 h2 unfolding CommonPrepareImpl_def Let_def h1_def hnd_def q_def
      by (auto split: option.splits)
    have "hccl s3 = h1" using SendMsgToServer_hccl[OF s3] h2 by simp
    then show ?thesis using prepare_record_hccl[OF rec] False by (simp add: h1_def)
  qed
qed

lemma Wait_hccl:
  assumes "Wait env hnd s = Some (r, s')"
  shows "hccl s' = hccl s \<or>
    (- 1 < sint hnd \<and> handleIdWaitCallNum (hccl s) (sint hnd) < handleIdCommitTurnCnt (hccl s) (sint hnd) \<and>
     hccl s' = (hccl s)\<lparr>handleIdWaitCallNum := (handleIdWaitCallNum (hccl s))(sint hnd :=
       handleIdWaitCallNum (hccl s) (sint hnd) +
         (if GetStepSizeByHandle env (hccl s) (sint hnd) = 0 then 1
          else GetStepSizeByHandle env (hccl s) (sint hnd)))\<rparr>)"
  using assms unfolding Wait_def Let_def
  by (auto simp: not_le split: if_splits option.splits)

lemma Commit_hccl:
  assumes "Commit env hnd s = Some s'"
  shows "hccl s' = hccl s \<or>
    (- 1 < sint hnd \<and> unat (handleIdCommitTurnCnt (hccl s) (sint hnd))
       < unat (handleIdRepeat (hccl s) (sint hnd)) * unat (GetStepCntsPerRepeatByHandle env (hccl s) (sint hnd)) \<and>
     hccl s' = (hccl s)\<lparr>handleIdCommitTurnCnt := (handleIdCommitTurnCnt (hccl s))(sint hnd :=
       handleIdCommitTurnCnt (hccl s) (sint hnd) +
         (if GetStepSizeByHandle env (hccl s) (sint hnd) = 0 then 1
          else GetStepSizeByHandle env (hccl s) (sint hnd)))\<rparr>)"
  using assms unfolding Commit_def Let_def
  by (auto simp: not_le ucast_id dest!: SetCommitTurnCntToGm_hccl split: if_splits)


section \<open>The commit and wait counters\<close>

definition step_k :: "client_env \<Rightarrow> HcclImpl \<Rightarrow> int \<Rightarrow> nat" where
  "step_k env h hi =
     (if GetStepSizeByHandle env h hi = 0 then 1 else unat (GetStepSizeByHandle env h hi))"

definition total_turns :: "client_env \<Rightarrow> HcclImpl \<Rightarrow> int \<Rightarrow> nat" where
  "total_turns env h hi = unat (handleIdRepeat h hi) * unat (GetStepCntsPerRepeatByHandle env h hi)"

definition committed :: "HcclImpl \<Rightarrow> int \<Rightarrow> nat" where
  "committed h hi = unat (handleIdCommitTurnCnt h hi)"

definition waited :: "HcclImpl \<Rightarrow> int \<Rightarrow> nat" where
  "waited h hi = unat (handleIdWaitCallNum h hi)"

text \<open>
  Whole steps: the smallest number of turns, not below \<open>n\<close>, that consists of whole steps. A
  commit or a wait always takes a whole step, so the counters may pass the number of turns of a
  task by less than a step when the step does not divide it.
\<close>

definition whole_steps :: "nat \<Rightarrow> nat \<Rightarrow> nat" where
  "whole_steps k n = (n + k - 1) div k * k"

text \<open>The turns of a task, rounded up to whole steps, fit the 16-bit counters.\<close>

definition turns_fit :: "client_env \<Rightarrow> HcclImpl \<Rightarrow> int \<Rightarrow> bool" where
  "turns_fit env h hi \<longleftrightarrow> whole_steps (step_k env h hi) (total_turns env h hi) < 65536"

definition counters_ok :: "client_env \<Rightarrow> HcclImpl \<Rightarrow> int \<Rightarrow> bool" where
  "counters_ok env h hi \<longleftrightarrow>
     step_k env h hi dvd waited h hi \<and>
     (committed h hi = total_turns env h hi \<or> step_k env h hi dvd committed h hi) \<and>
     waited h hi \<le> whole_steps (step_k env h hi) (committed h hi) \<and>
     committed h hi \<le> whole_steps (step_k env h hi) (total_turns env h hi)"

definition client_inv :: "client_env \<Rightarrow> nat \<times> cstate \<Rightarrow> bool" where
  "client_inv env ns \<longleftrightarrow> (let n = fst ns; h = hccl (snd ns) in
     n \<le> 63 \<longrightarrow> queueNum h = 0 \<and> - 1 \<le> sint (curHandleId h) \<and> sint (curHandleId h) < int n \<and>
     unat (curMsgPosition h 0) \<le> n \<and>
     (\<forall>i. 0 \<le> i \<and> i \<le> sint (curHandleId h) \<longrightarrow> (turns_fit env h i \<longrightarrow> counters_ok env h i) \<and>
        handleIdMsgPosition h i < curMsgPosition h 0) \<and>
     (\<forall>i j. 0 \<le> i \<and> i < j \<and> j \<le> sint (curHandleId h) \<longrightarrow>
        handleIdMsgPosition h i < handleIdMsgPosition h j) \<and>
     (\<forall>i. sint (curHandleId h) < i \<longrightarrow> committed h i = 0 \<and> waited h i = 0 \<and> handleIdRepeat h i = 0))"

text \<open>An object as its constructor leaves it, or with its tiling set, on a single queue.\<close>

definition client_init :: "nat \<times> cstate \<Rightarrow> bool" where
  "client_init ns \<longleftrightarrow> (let n = fst ns; h = hccl (snd ns) in
     n = 0 \<and> queueNum h = 0 \<and> curHandleId h = INVALID_HANDLE_ID \<and>
     curMsgPosition h 0 = 0 \<and> (\<forall>i. committed h i = 0 \<and> waited h i = 0 \<and> handleIdRepeat h i = 0))"

text \<open>
  The calls on one object, with any arguments, interleaved with arbitrary changes of the shared
  memory by the server (and of the sequence counter by other objects). The number beside the
  state counts the \<open>Prepare\<close> calls made so far.
\<close>

inductive client_step :: "client_env \<Rightarrow> nat \<times> cstate \<Rightarrow> nat \<times> cstate \<Rightarrow> bool" for env where
  prepare: "CommonPrepareImpl env c p s = Some (r, s') \<Longrightarrow> client_step env (n, s) (Suc n, s')"
| commit: "Commit env hnd s = Some s' \<Longrightarrow> client_step env (n, s) (n, s')"
| wait: "Wait env hnd s = Some (r, s') \<Longrightarrow> client_step env (n, s) (n, s')"
| memory: "client_step env (n, s) (n, s\<lparr>area := a, seq := q\<rparr>)"

lemma GetStepSize_cong:
  assumes "curVersion h = curVersion h'" "handleId2CmdType h i = handleId2CmdType h' i"
    "ccOpTilingDataTable h = ccOpTilingDataTable h'" "tilingBaseAddr h = tilingBaseAddr h'"
  shows "GetStepSizeByHandle env h i = GetStepSizeByHandle env h' i"
  using assms by (simp add: GetStepSizeByHandle_def Let_def)

lemma total_cong:
  assumes "GetStepSizeByHandle env h i = GetStepSizeByHandle env h' i"
    "handleIdRepeat h i = handleIdRepeat h' i" "hcclContext h = hcclContext h'"
  shows "total_turns env h i = total_turns env h' i" "step_k env h i = step_k env h' i"
  using assms by (simp_all add: total_turns_def step_k_def GetStepCntsPerRepeatByHandle_def GetRankDim_def)

lemma counters_cong:
  assumes "GetStepSizeByHandle env h i = GetStepSizeByHandle env h' i"
    "handleIdRepeat h i = handleIdRepeat h' i" "hcclContext h = hcclContext h'"
    "handleIdCommitTurnCnt h i = handleIdCommitTurnCnt h' i"
    "handleIdWaitCallNum h i = handleIdWaitCallNum h' i"
  shows "counters_ok env h i = counters_ok env h' i" "turns_fit env h i = turns_fit env h' i"
  using total_cong[OF assms(1-3)] assms(4,5)
  by (simp_all add: counters_ok_def turns_fit_def committed_def waited_def)

lemma step_k_pos: "0 < step_k env h i"
  by (simp add: step_k_def unat_gt_0)

lemma whole_steps_ge: "0 < k \<Longrightarrow> n \<le> whole_steps k n"
  using dividend_less_div_times[of k "n + k - 1"] by (simp add: whole_steps_def)

lemma whole_steps_dvd [simp]: "k dvd whole_steps k n" by (simp add: whole_steps_def)

lemma dvd_step_le: "(k::nat) dvd a \<Longrightarrow> k dvd b \<Longrightarrow> a < b \<Longrightarrow> a + k \<le> b"
  by (metis add.commute dvd_add_right_iff dvd_imp_le le_add_diff_inverse2 less_imp_le_nat
      nat_add_left_cancel_le zero_less_diff dvd_diff_nat)

lemma whole_steps_id [simp]:
  assumes "0 < k" "k dvd n"
  shows "whole_steps k n = n"
proof -
  obtain m where n: "n = k * m" using assms(2) by blast
  have m: "n + k - 1 = m * k + (k - 1)" using assms(1) n by (simp add: mult.commute)
  have "(n + k - 1) div k = m"
    unfolding m using assms(1) by (subst div_mult_self3) simp_all
  then show ?thesis by (simp add: whole_steps_def n)
qed

lemma whole_steps_mono: "m \<le> n \<Longrightarrow> whole_steps k m \<le> whole_steps k n"
  by (simp add: whole_steps_def div_le_mono)

lemma whole_step_le: "0 < k \<Longrightarrow> k dvd a \<Longrightarrow> a < n \<Longrightarrow> a + k \<le> whole_steps k n"
  by (rule dvd_step_le) (auto intro: order_less_le_trans whole_steps_ge)

lemma unat_add_u16: "unat (a :: u16) + unat b < 65536 \<Longrightarrow> unat (a + b) = unat a + unat b"
  by (simp add: unat_word_ariths)

lemma step_turns: "unat (if GetStepSizeByHandle env h i = 0 then 1 else GetStepSizeByHandle env h i :: u16) = step_k env h i"
  by (simp add: step_k_def)

definition add_committed :: "client_env \<Rightarrow> HcclImpl \<Rightarrow> int \<Rightarrow> HcclImpl" where
  "add_committed env h i = h\<lparr>handleIdCommitTurnCnt := (handleIdCommitTurnCnt h)(i := handleIdCommitTurnCnt h i +
     (if GetStepSizeByHandle env h i = 0 then 1 else GetStepSizeByHandle env h i))\<rparr>"

definition add_waited :: "client_env \<Rightarrow> HcclImpl \<Rightarrow> int \<Rightarrow> HcclImpl" where
  "add_waited env h i = h\<lparr>handleIdWaitCallNum := (handleIdWaitCallNum h)(i := handleIdWaitCallNum h i +
     (if GetStepSizeByHandle env h i = 0 then 1 else GetStepSizeByHandle env h i))\<rparr>"

lemma add_step:
  assumes "h' = add_committed env h i \<or> h' = add_waited env h i"
  shows "GetStepSizeByHandle env h' j = GetStepSizeByHandle env h j" "turns_fit env h' j = turns_fit env h j"
    "total_turns env h' j = total_turns env h j" "step_k env h' j = step_k env h j"
    "j \<noteq> i \<Longrightarrow> counters_ok env h' j = counters_ok env h j"
    "j \<noteq> i \<Longrightarrow> committed h' j = committed h j \<and> waited h' j = waited h j"
    "queueNum h' = queueNum h" "curHandleId h' = curHandleId h" "curMsgPosition h' = curMsgPosition h"
    "handleIdMsgPosition h' = handleIdMsgPosition h" "handleIdRepeat h' = handleIdRepeat h"
proof -
  show st: "GetStepSizeByHandle env h' j = GetStepSizeByHandle env h j" for j
    using assms unfolding add_committed_def add_waited_def by (elim disjE) (rule GetStepSize_cong; simp)+
  show same: "total_turns env h' j = total_turns env h j" "step_k env h' j = step_k env h j"
    by (rule total_cong[OF st]; use assms in \<open>auto simp: add_committed_def add_waited_def\<close>)+
  then show "turns_fit env h' j = turns_fit env h j" by (simp add: turns_fit_def)
  show "counters_ok env h' j = counters_ok env h j" if "j \<noteq> i"
    using assms that by (intro counters_cong st) (auto simp: add_committed_def add_waited_def)
qed (use assms in \<open>auto simp: add_committed_def add_waited_def committed_def waited_def\<close>)

lemma ok_commit:
  assumes "counters_ok env h i" "turns_fit env h i" "committed h i < total_turns env h i"
  shows "counters_ok env (add_committed env h i) i"
proof -
  let ?h = "add_committed env h i" and ?k = "step_k env h i"
  note S = add_step[of ?h env h i, OF disjI1[OF refl]]
  have dvd: "?k dvd committed h i" using assms by (auto simp: counters_ok_def)
  have le: "committed h i + ?k \<le> whole_steps ?k (total_turns env h i)"
    by (rule whole_step_le[OF step_k_pos dvd assms(3)])
  have new: "committed ?h i = committed h i + ?k"
    using le assms(2) unat_add_u16[of "handleIdCommitTurnCnt h i"
        "if GetStepSizeByHandle env h i = 0 then 1 else GetStepSizeByHandle env h i"]
    by (simp add: committed_def add_committed_def step_turns turns_fit_def)
  have "waited ?h i = waited h i" by (simp add: waited_def add_committed_def)
  then show ?thesis
    using assms(1) dvd le whole_steps_mono[of "committed h i" "committed h i + ?k" ?k]
    by (auto simp: counters_ok_def S new)
qed

lemma ok_wait:
  assumes "counters_ok env h i" "turns_fit env h i" "waited h i < committed h i"
  shows "counters_ok env (add_waited env h i) i"
proof -
  let ?h = "add_waited env h i" and ?k = "step_k env h i"
  note S = add_step[of ?h env h i, OF disjI2[OF refl]]
  have dvd: "?k dvd waited h i" using assms by (auto simp: counters_ok_def)
  have le: "waited h i + ?k \<le> whole_steps ?k (committed h i)"
    by (rule whole_step_le[OF step_k_pos dvd assms(3)])
  have "whole_steps ?k (committed h i) \<le> whole_steps ?k (whole_steps ?k (total_turns env h i))"
    using assms(1) by (intro whole_steps_mono) (simp add: counters_ok_def)
  then have "waited h i + ?k \<le> whole_steps ?k (total_turns env h i)" using le step_k_pos by simp
  then have new: "waited ?h i = waited h i + ?k"
    using assms(2) unat_add_u16[of "handleIdWaitCallNum h i"
        "if GetStepSizeByHandle env h i = 0 then 1 else GetStepSizeByHandle env h i"]
    by (simp add: waited_def add_waited_def step_turns turns_fit_def)
  have "committed ?h i = committed h i" by (simp add: committed_def add_waited_def)
  then show ?thesis using assms(1) dvd le by (auto simp: counters_ok_def S new)
qed

lemma inv_add:
  assumes inv: "client_inv env (n, s)" and hi: "0 \<le> i" "n \<le> 63 \<Longrightarrow> i \<le> sint (curHandleId (hccl s))"
    and h': "hccl s' = add_committed env (hccl s) i \<or> hccl s' = add_waited env (hccl s) i"
    and ok: "counters_ok env (hccl s) i \<Longrightarrow> turns_fit env (hccl s) i \<Longrightarrow> counters_ok env (hccl s') i"
  shows "client_inv env (n, s')"
proof -
  note S = add_step[OF h']
  have "turns_fit env (hccl s') j \<longrightarrow> counters_ok env (hccl s') j"
    if "n \<le> 63" "0 \<le> j" "j \<le> sint (curHandleId (hccl s))" for j
    using that inv ok S(2,5)[of j] by (cases "j = i") (auto simp: client_inv_def Let_def)
  then show ?thesis using inv hi S(6) unfolding client_inv_def Let_def fst_conv snd_conv S(7-11)
    by (metis linorder_not_le)
qed

lemma sint_succ: "sint (w :: u8) < 127 \<Longrightarrow> sint (w + 1) = sint w + 1"
  using sint_ge[of w] by (simp add: sint_word_add signed_take_bit_int_eq_self)

lemma u8_succ: "unat (p :: u8) < 255 \<Longrightarrow> unat (p + 1) = unat p + 1"
  by (simp add: unat_word_ariths)

lemma turns_u16:
  assumes "unat (r :: u8) * unat (n :: u16) < 65536"
  shows "unat (ucast (ucast r * ucast n :: u64) :: u16) = unat r * unat n"
proof -
  have "unat r < 2 ^ 8" "unat n < 2 ^ 16"
    using unsigned_less[of r] unsigned_less[of n] by simp_all
  then have "unat (ucast r * ucast n :: u64) = unat r * unat n"
    using assms by (simp add: unat_word_ariths unsigned_ucast_eq take_bit_nat_def)
  then show ?thesis using assms by (simp add: unsigned_ucast_eq take_bit_nat_def)
qed

lemma prepared_steps:
  assumes "h' = prepared env commit param hnd q h1"
  shows "i \<noteq> sint hnd \<Longrightarrow> counters_ok env h' i = counters_ok env h1 i"
    and "i \<noteq> sint hnd \<Longrightarrow> committed h' i = committed h1 i \<and> waited h' i = waited h1 i \<and>
      handleIdMsgPosition h' i = handleIdMsgPosition h1 i"
    and "handleIdMsgPosition h' (sint hnd) = curMsgPosition h1 q" "waited h' (sint hnd) = waited h1 (sint hnd)"
    and "curMsgPosition h' q = curMsgPosition h1 q + 1" "curHandleId h' = curHandleId h1" "queueNum h' = queueNum h1"
    and "i \<noteq> sint hnd \<Longrightarrow> turns_fit env h' i = turns_fit env h1 i \<and> handleIdRepeat h' i = handleIdRepeat h1 i"
proof -
  show "counters_ok env h' i = counters_ok env h1 i" if "i \<noteq> sint hnd"
    by (rule counters_cong(1))
      (use that in \<open>auto simp: assms prepared_def Let_def intro!: GetStepSize_cong\<close>)
  show "turns_fit env h' i = turns_fit env h1 i \<and> handleIdRepeat h' i = handleIdRepeat h1 i" if "i \<noteq> sint hnd"
    by (rule conjI, rule counters_cong(2))
      (use that in \<open>auto simp: assms prepared_def Let_def intro!: GetStepSize_cong\<close>)
qed (auto simp: assms prepared_def Let_def committed_def waited_def)

lemma prepared_committed:
  assumes "h' = prepared env commit param hnd q h1" "committed h1 (sint hnd) = 0"
    and "total_turns env h' (sint hnd) < 65536"
  shows "committed h' (sint hnd) = (if commit then total_turns env h' (sint hnd) else 0)"
proof -
  let ?h2 = "h1\<lparr>handleIdMsgPosition := (handleIdMsgPosition h1)(sint hnd := curMsgPosition h1 q),
      handleIdRepeat := (handleIdRepeat h1)(sint hnd := p_repeat param),
      handleId2CmdType := (handleId2CmdType h1)(sint hnd := ucast (p_commType param))\<rparr>"
  have "GetStepSizeByHandle env h' (sint hnd) = GetStepSizeByHandle env ?h2 (sint hnd)"
    by (rule GetStepSize_cong) (simp_all add: assms(1) prepared_def Let_def)
  then have t: "total_turns env h' (sint hnd)
      = unat (p_repeat param) * unat (GetStepCntsPerRepeatByHandle env ?h2 (sint hnd))"
    by (subst total_cong(1)[of env h' "sint hnd" ?h2])
      (simp_all add: assms(1) prepared_def Let_def total_turns_def)
  have z: "handleIdCommitTurnCnt h1 (sint hnd) = 0"
    using assms(2) by (simp add: committed_def unat_eq_0)
  show ?thesis
  proof (cases commit)
    case True
    have "committed h' (sint hnd) = unat (ucast (ucast (p_repeat param) *
        ucast (GetStepCntsPerRepeatByHandle env ?h2 (sint hnd)) :: u64) :: u16)"
      using True z by (simp add: assms(1) prepared_def Let_def committed_def)
    then show ?thesis using True t assms(3) turns_u16 by simp
  next
    case False
    then show ?thesis using z by (simp add: assms(1) prepared_def Let_def committed_def)
  qed
qed

lemma inv_prepare:
  assumes inv: "client_inv env (n, s)" and n: "n < 63"
    and h': "hccl s' = prepared env commit param (curHandleId (hccl s) + 1) 0
      ((hccl s)\<lparr>curHandleId := curHandleId (hccl s) + 1\<rparr>)"
  shows "client_inv env (Suc n, s')"
proof -
  let ?h = "hccl s" and ?h' = "hccl s'"
  let ?h1 = "?h\<lparr>curHandleId := curHandleId ?h + 1\<rparr>" and ?n = "sint (curHandleId ?h) + 1"
  note I = inv[unfolded client_inv_def Let_def fst_conv snd_conv, rule_format, OF less_imp_le[OF n]]
  have cur: "sint (curHandleId ?h) < int n" "unat (curMsgPosition ?h 0) \<le> n" using I by auto
  have m: "sint (curHandleId ?h + 1) = ?n" using cur(1) n by (simp add: sint_succ)
  note st = prepared_steps[OF h', unfolded m]
  have pos: "unat (curMsgPosition ?h' 0) = unat (curMsgPosition ?h 0) + 1"
    using st(5) cur(2) n by (simp add: u8_succ)
  then have poslt: "curMsgPosition ?h 0 < curMsgPosition ?h' 0" by (simp add: word_less_nat_alt)
  have same: "counters_ok env ?h1 i = counters_ok env ?h i" "turns_fit env ?h1 i = turns_fit env ?h i" for i
    by (rule counters_cong; auto intro: GetStepSize_cong)+
  have fresh: "committed ?h ?n = 0" "waited ?h ?n = 0" using I by auto
  have new: "counters_ok env ?h' ?n" if "turns_fit env ?h' ?n"
  proof -
    have "total_turns env ?h' ?n < 65536"
      using that whole_steps_ge[OF step_k_pos, of "total_turns env ?h' ?n" env ?h' ?n] by (simp add: turns_fit_def)
    then have "committed ?h' ?n = (if commit then total_turns env ?h' ?n else 0)"
      using prepared_committed[OF h'] fresh by (simp add: m committed_def)
    then show ?thesis using st(4) fresh whole_steps_ge[OF step_k_pos, of "total_turns env ?h' ?n" env ?h' ?n]
      by (auto simp: counters_ok_def m waited_def)
  qed
  have old: "(turns_fit env ?h' i \<longrightarrow> counters_ok env ?h' i) \<and> handleIdMsgPosition ?h' i < curMsgPosition ?h' 0"
    if "0 \<le> i" "i \<le> sint (curHandleId ?h)" for i
    using that I st(1)[of i] st(2)[of i] st(8)[of i] same[of i] poslt by auto
  have upto: "i = ?n \<or> i \<le> sint (curHandleId ?h)" if "i \<le> sint (curHandleId ?h')" for i
    using that st(6) m by auto
  have order: "handleIdMsgPosition ?h' i < handleIdMsgPosition ?h' j"
    if ij: "0 \<le> i" "i < j" "j \<le> sint (curHandleId ?h')" for i j
    using upto[OF ij(3)] ij(1,2) I st(2)[of i] st(2)[of j] st(3) by auto
  show ?thesis unfolding client_inv_def Let_def fst_conv snd_conv
  proof (intro impI conjI allI; (elim conjE)?)
    show "queueNum ?h' = 0" "- 1 \<le> sint (curHandleId ?h')" "sint (curHandleId ?h') < int (Suc n)"
      using I m st(6,7) by simp_all
    show "unat (curMsgPosition ?h' 0) \<le> Suc n" using pos cur(2) by simp
  next
    fix i assume i: "0 \<le> i" "i \<le> sint (curHandleId ?h')"
    then show "counters_ok env ?h' i" if "turns_fit env ?h' i" using upto[OF i(2)] old i(1) new that by auto
    show "handleIdMsgPosition ?h' i < curMsgPosition ?h' 0"
      using upto[OF i(2)] old i(1) st(3) poslt by auto
  next
    fix i j assume "0 \<le> i" "i < j" "j \<le> sint (curHandleId ?h')"
    then show "handleIdMsgPosition ?h' i < handleIdMsgPosition ?h' j" by (rule order)
  next
    fix i assume "sint (curHandleId ?h') < i"
    then have "i \<noteq> ?n" "sint (curHandleId ?h) < i" using st(6) m by auto
    then show "committed ?h' i = 0" "waited ?h' i = 0" "handleIdRepeat ?h' i = 0"
      using I st(2)[of i] st(8)[of i] by (auto simp: committed_def waited_def)
  qed
qed

lemma inv_same: "client_inv env (n, s) \<Longrightarrow> hccl s' = hccl s \<Longrightarrow> client_inv env (n, s')"
  by (simp add: client_inv_def)

lemma inv_more: "client_inv env (n, s) \<Longrightarrow> hccl s' = hccl s \<Longrightarrow> client_inv env (Suc n, s')"
  by (auto simp: client_inv_def Let_def)

lemma client_inv_prepare:
  assumes inv: "client_inv env (n, s)" and call: "CommonPrepareImpl env c p s = Some (r, s')"
  shows "client_inv env (Suc n, s')"
proof (cases "n < 63")
  case False
  then show ?thesis by (simp add: client_inv_def)
next
  case True
  then have q: "queueNum (hccl s) = 0" and cur: "sint (curHandleId (hccl s)) < 62"
    using inv by (auto simp: client_inv_def Let_def)
  have "sint (curHandleId (hccl s) + 1) < HCCL_MAX_HANDLE_ID"
    using cur by (simp add: sint_succ HCCL_MAX_HANDLE_ID_def)
  then consider "hccl s' = hccl s"
    | "hccl s' = prepared env c p (curHandleId (hccl s) + 1) 0 ((hccl s)\<lparr>curHandleId := curHandleId (hccl s) + 1\<rparr>)"
    using CommonPrepareImpl_hccl[OF call] q by auto
  then show ?thesis using inv_more[OF inv] inv_prepare[OF inv True] by cases
qed

lemma client_inv_step:
  assumes "client_inv env x" "client_step env x y"
  shows "client_inv env y"
  using assms(2)
proof cases
  case (prepare c p s r s' n)
  then show ?thesis using client_inv_prepare assms(1) by blast
next
  case (commit hnd s s' n)
  then have inv: "client_inv env (n, s)" using assms(1) by simp
  from Commit_hccl[OF commit(3)] consider "hccl s' = hccl s"
    | "- 1 < sint hnd" "committed (hccl s) (sint hnd) < total_turns env (hccl s) (sint hnd)"
      "hccl s' = add_committed env (hccl s) (sint hnd)"
    by (auto simp: committed_def total_turns_def add_committed_def)
  then show ?thesis unfolding commit(2)
  proof cases
    case 2
    have "sint hnd \<le> sint (curHandleId (hccl s))" if "n \<le> 63"
      using that inv 2(2) by (auto simp: client_inv_def Let_def total_turns_def not_le[symmetric])
    then show "client_inv env (n, s')" using 2 ok_commit by (intro inv_add[OF inv]) auto
  qed (use inv_same[OF inv] in blast)
next
  case (wait hnd s r s' n)
  then have inv: "client_inv env (n, s)" using assms(1) by simp
  from Wait_hccl[OF wait(3)] consider "hccl s' = hccl s"
    | "- 1 < sint hnd" "waited (hccl s) (sint hnd) < committed (hccl s) (sint hnd)"
      "hccl s' = add_waited env (hccl s) (sint hnd)"
    by (auto simp: committed_def waited_def word_less_nat_alt add_waited_def)
  then show ?thesis unfolding wait(2)
  proof cases
    case 2
    have "sint hnd \<le> sint (curHandleId (hccl s))" if "n \<le> 63"
      using that inv 2(2) by (auto simp: client_inv_def Let_def not_le[symmetric])
    then show "client_inv env (n, s')" using 2 ok_wait by (intro inv_add[OF inv]) auto
  qed (use inv_same[OF inv] in blast)
next
  case (memory n s a q)
  then show ?thesis using assms(1) by (simp add: client_inv_def)
qed

interpretation client: invariant_system client_init "client_step env" "client_inv env" for env
proof (unfold_locales, goal_cases)
  case (1 s)
  then show ?case by (auto simp: client_init_def client_inv_def Let_def INVALID_HANDLE_ID_def)
next
  case (2 s s')
  then show ?case by (rule client_inv_step)
qed


section \<open>Properties\<close>

text \<open>
  C13: Turn counters. On an object with one queue, any calls of the prepare function, \<open>Commit\<close> and
  \<open>Wait\<close>, with any arguments and in any order, whatever the server does to the shared memory
  in between, lead after at most 63 prepare calls (the number of handles; the code
  refuses a later one only in a debug build) to a state in which handles are below 63 and
  occupy distinct message positions inside the message area, in the order they were
  prepared; and for each handle whose turns, rounded up to whole steps, fit 16 bits: turns are
  waited for in whole steps, never more than those committed, rounded up to whole steps, and
  never more are committed than the turns of the task, rounded up the same way. When the step
  size divides the number of turns, which no code checks, nothing is rounded: waited for at
  most what is committed, committed at most the turns of the task.
\<close>
theorem client_counters:
  assumes "reach client_init (client_step env) (n, s)" "n \<le> 63" "0 \<le> i" "i \<le> sint (curHandleId (hccl s))"
  defines "k \<equiv> step_k env (hccl s) i" and "turns \<equiv> total_turns env (hccl s) i"
  shows "unat (handleIdMsgPosition (hccl s) i) < HCCL_MSG_CNT \<and> i < HCCL_MAX_HANDLE_ID \<and>
    (\<forall>j. i < j \<and> j \<le> sint (curHandleId (hccl s)) \<longrightarrow>
       handleIdMsgPosition (hccl s) i < handleIdMsgPosition (hccl s) j) \<and>
    (turns_fit env (hccl s) i \<longrightarrow> k dvd waited (hccl s) i \<and>
       waited (hccl s) i \<le> whole_steps k (committed (hccl s) i) \<and>
       committed (hccl s) i \<le> whole_steps k turns \<and>
       (k dvd turns \<longrightarrow> waited (hccl s) i \<le> committed (hccl s) i \<and> committed (hccl s) i \<le> turns))"
proof -
  have "client_inv env (n, s)" by (rule client.reach_inv[OF assms(1)])
  note I = this[unfolded client_inv_def Let_def fst_conv snd_conv, rule_format, OF assms(2)]
  have pos: "unat (handleIdMsgPosition (hccl s) i) < n"
    using I assms(3,4) by (metis order_less_le_trans word_less_nat_alt)
  have ok: "counters_ok env (hccl s) i" if "turns_fit env (hccl s) i" using I assms(3,4) that by blast
  have "waited (hccl s) i \<le> committed (hccl s) i \<and> committed (hccl s) i \<le> turns"
    if "counters_ok env (hccl s) i" "k dvd turns"
    using that step_k_pos[of env "hccl s" i] by (auto simp: counters_ok_def k_def turns_def)
  then show ?thesis using I assms(2-4) pos ok
    by (auto simp: counters_ok_def k_def turns_def HCCL_MSG_CNT_def HCCL_MAX_HANDLE_ID_def)
qed

text \<open>A small environment and object for the witnesses.\<close>

definition env0 :: client_env where
  "env0 = \<lparr>e_asserts = True, e_restart = False, e_coreType = DEFAULT, e_blockIdx = 0, e_cfgType = DEFAULT,
     e_cfgBlockId = 0, e_tilingStep = (\<lambda>_. 0), e_tilingOp = (\<lambda>_. HCCL_CMD_ALLGATHER)\<rparr>"

definition ctx0 :: OpResCtx where
  "ctx0 = \<lparr>oc_workspace = 4096, oc_rankId = 0, oc_rankSize = 4,
     oc_algInfo = [\<lparr>ai_offset = 8, ai_opParam = 77\<rparr>]\<rparr>"

definition area0 :: HcclMsgArea where
  "area0 = \<lparr>sendMsgs = (\<lambda>_ _. 0), multiSendMsgs = (\<lambda>_ _ _. 0), commitTurnCnt = (\<lambda>_. \<lparr>tc_valid = 0, tc_cnt = 0\<rparr>),
     finishedTurnCnt = (\<lambda>_. \<lparr>tc_valid = 0, tc_cnt = 0\<rparr>), paramExtMsgList = (\<lambda>_ _. 0), controlMsg = idle_ctl,
     commitStats = (\<lambda>_. 0), waitStats = (\<lambda>_. 0), msgStats = (\<lambda>_. 0), snapshots = (\<lambda>_. 0)\<rparr>"

definition cs0 :: cstate where
  "cs0 = \<lparr>hccl = snd (SetCcTilingV2 env0 8 (InitV2 env0 (Some ctx0) 64 0 0 (new_HcclImpl ctx0 0 (\<lambda>_. 0)))),
     area = area0, seq = \<lparr>primitiveId = 0, isResetPrimitiveId = False\<rparr>\<rparr>"

lemma cs0_hccl:
  "hccl cs0 = \<lparr>ccOpTilingDataTable = (\<lambda>_. 0)(6 := 8), ccOpParamTable = (\<lambda>_. 0)(6 := 77), hcclContext = ctx0,
     hcclMsgAreaAddr = 4096, tilingBaseAddr = 64, queueNum = 0, handleIdCommitTurnCnt = (\<lambda>_. 0),
     handleIdWaitCallNum = (\<lambda>_. 0), handleId2CmdType = (\<lambda>_. 0),
     handleIdMsgPosition = (\<lambda>i. if 0 \<le> i \<and> i < HCCL_MAX_HANDLE_ID then - 1 else 0),
     handleIdRepeat = (\<lambda>_. 0), curMsgPosition = (\<lambda>_. 0), curHandleId = INVALID_HANDLE_ID,
     curVersion = CONTEXT_DECOUPLE_VERSION, workingFlag = True, debugMode = 0, devType = 0\<rparr>"
  by (simp add: cs0_def SetCcTilingV2_def InitV2_def InitInner_def new_HcclImpl_def assert_fails_def env0_def
      ctx0_def Let_def InitWorkingFlag_def find_opParam_def cmd_codes cong: if_cong)

lemma cs0_init: "client_init (0, cs0)"
  by (simp add: client_init_def cs0_hccl committed_def waited_def Let_def)

text \<open>
  C14: Prepare. On a free slot, a valid prepare call of a collective other than AlltoAllV
  that does not commit at once returns the next handle and leaves in the slot at the current
  position a message that the server reads with every argument of the call, the new handle,
  the operator parameter recorded for the operation and the next sequence number; every other
  slot is unchanged.
\<close>
theorem prepare_message:
  assumes "queueNum (hccl s) = 0" "workingFlag (hccl s)" "curVersion (hccl s) = CONTEXT_DECOUPLE_VERSION"
    and "\<not> CheckIfRestart env (area s)" "CheckCommonPrepareParamValid env (hccl s) param" "p_repeat param \<noteq> 0"
    and "p_commType param < HCCL_CMD_ALL" "p_commType param \<noteq> HCCL_CMD_ALLTOALLV"
    and "sint (curHandleId (hccl s)) < 62" "unat (curMsgPosition (hccl s) 0) < 63"
    and "w_valid (sendMsgs (area s) (unat (curMsgPosition (hccl s) 0))) \<noteq> HCCL_MSG_VALID_MASK"
  shows "\<exists>s' slot w. CommonPrepareImpl env False param s = Some (curHandleId (hccl s) + 1, s') \<and>
    ReadMsgFromMemory (sendMsgs (area s') (unat (curMsgPosition (hccl s) 0))) d = (HCCL_SUCCESS, slot, w) \<and>
    v1_message param (curHandleId (hccl s) + 1) (ccOpParamTable (hccl s) (unat (p_commType param)))
      (primitiveId (fst (reset_seq (seq s) (controlMsg (area s))))) CONTEXT_DECOUPLE_VERSION w \<and>
    primitiveId (seq s') = primitiveId (fst (reset_seq (seq s) (controlMsg (area s)))) + 1 \<and>
    (\<forall>p. p \<noteq> unat (curMsgPosition (hccl s) 0) \<longrightarrow> sendMsgs (area s') p = sendMsgs (area s) p)"
proof -
  let ?h = "curHandleId (hccl s) + 1" and ?p = "unat (curMsgPosition (hccl s) 0)"
    and ?tiling = "ccOpParamTable (hccl s) (unat (p_commType param))"
  obtain w q c where a: "AssembleHcclMsg param CONTEXT_DECOUPLE_VERSION ?h ?tiling
      (sendMsgs (area s) ?p, seq s, controlMsg (area s)) = (w, q, c)" by (metis surj_pair)
  have nf: "p_commType param \<noteq> HCCL_CMD_FINALIZE" using assms(7) by (auto simp: cmd_codes)
  have hv: "sint ?h < HCCL_MAX_HANDLE_ID"
    using assms(9) by (simp add: sint_succ HCCL_MAX_HANDLE_ID_def)
  have pv: "unat (curMsgPosition (hccl s) 0 + 1) < HCCL_MSG_CNT"
    using assms(10) by (simp add: u8_succ HCCL_MSG_CNT_def)
  have "\<exists>s'. CommonPrepareImpl env False param s = Some (?h, s') \<and> seq s' = q \<and>
      sendMsgs (area s') = (sendMsgs (area s))(?p := w)"
    using assms hv pv a
    by (simp add: CommonPrepareImpl_def assert_fails_def Let_def SendMsgToServer_def slot_of_def put_slot_def
        prepare_record_def)
  then show ?thesis using prepare_read_back[OF nf _ a, of d] by auto
qed


lemma cs0_ready:
  "queueNum (hccl cs0) = 0" "workingFlag (hccl cs0)" "curVersion (hccl cs0) = CONTEXT_DECOUPLE_VERSION"
  "\<not> CheckIfRestart env0 (area cs0)" "CheckCommonPrepareParamValid env0 (hccl cs0) sample_param"
  "curHandleId (hccl cs0) = - 1" "curMsgPosition (hccl cs0) = (\<lambda>_. 0)"
  "ccOpParamTable (hccl cs0) 6 = 77" "seq cs0 = \<lparr>primitiveId = 0, isResetPrimitiveId = False\<rparr>" "area cs0 = area0"
  by (simp_all add: cs0_hccl, simp_all add: cs0_def CheckIfRestart_def env0_def INVALID_HANDLE_ID_def
      CheckCommonPrepareParamValid_def assert_fails_def sample_param_def cmd_codes
      HCCL_DATA_TYPE_RESERVED_def Let_def)

theorem prepare_message_witness:
  "\<exists>s' slot w. CommonPrepareImpl env0 False sample_param cs0 = Some (0, s') \<and>
    ReadMsgFromMemory (sendMsgs (area s') 0) (\<lambda>_. 0) = (HCCL_SUCCESS, slot, w) \<and>
    w_ccOpTilingData w = 77 \<and> w_seqNum w = 0 \<and> w_dataCnt w = 7"
proof -
  have "p_repeat sample_param \<noteq> 0" "p_commType sample_param < HCCL_CMD_ALL"
    "p_commType sample_param \<noteq> HCCL_CMD_ALLTOALLV" "unat (p_commType sample_param) = 6"
    "p_count sample_param = 7"
    by (simp_all add: sample_param_def cmd_codes)
  moreover have "w_valid (sendMsgs (area cs0) 0) \<noteq> HCCL_MSG_VALID_MASK"
    by (simp add: cs0_ready(10) area0_def w_valid_def HCCL_MSG_VALID_MASK_def)
  ultimately show ?thesis
    using prepare_message[OF cs0_ready(1-5), of "\<lambda>_. 0"]
    by (auto simp: cs0_ready(6-10) v1_message_def reset_seq_def area0_def idle_ctl_def)
qed

lemma step_size_zero:
  "handleId2CmdType h i \<noteq> ucast HCCL_CMD_ALLTOALLV \<Longrightarrow> GetStepSizeByHandle env h i = 0"
  by (simp add: GetStepSizeByHandle_def Let_def)

lemma cs0_counts: "handleIdCommitTurnCnt (hccl cs0) = (\<lambda>_. 0)" "debugMode (hccl cs0) = 0"
  by (simp_all add: cs0_hccl)

lemma area0_counts: "tc_cnt (commitTurnCnt area0 p) = 0" by (simp add: area0_def)

lemma env0_flags: "e_restart env0 = False" "e_asserts env0 = True" by (simp_all add: env0_def)

text \<open>
  Three ranks, AlltoAllV with a step size of two: a task of three turns, on which the object is
  committed for and waits for four.
\<close>

definition env3 :: client_env where
  "env3 = env0\<lparr>e_tilingStep := (\<lambda>_. 2), e_tilingOp := (\<lambda>_. HCCL_CMD_ALLTOALLV)\<rparr>"

definition cs3 :: cstate where
  "cs3 = \<lparr>hccl = snd (SetCcTilingV2 env3 8 (InitV2 env3 (Some (ctx0\<lparr>oc_rankSize := 3\<rparr>)) 64 0 0
       (new_HcclImpl ctx0 0 (\<lambda>_. 0)))),
     area = area0, seq = \<lparr>primitiveId = 0, isResetPrimitiveId = False\<rparr>\<rparr>"

definition a2av_param :: CommonPrepareParam where
  "a2av_param = \<lparr>p_commType = HCCL_CMD_ALLTOALLV, p_sendBuf = 16, p_recvBuf = 32, p_count = 0, p_dataType = 4,
     p_dstDataType = 4, p_op = 0, p_strideCount = 0, p_repeat = 1,
     p_paramExt = \<lparr>sendCounts = Some [1, 1, 1], sdispls = Some [0, 1, 2], recvCounts = Some [1, 1, 1], rdispls = Some [0, 1, 2]\<rparr>\<rparr>"

lemma cs3_hccl:
  "hccl cs3 = \<lparr>ccOpTilingDataTable = (\<lambda>_. 0)(8 := 8), ccOpParamTable = (\<lambda>_. 0)(8 := 77),
     hcclContext = ctx0\<lparr>oc_rankSize := 3\<rparr>,
     hcclMsgAreaAddr = 4096, tilingBaseAddr = 64, queueNum = 0, handleIdCommitTurnCnt = (\<lambda>_. 0),
     handleIdWaitCallNum = (\<lambda>_. 0), handleId2CmdType = (\<lambda>_. 0),
     handleIdMsgPosition = (\<lambda>i. if 0 \<le> i \<and> i < HCCL_MAX_HANDLE_ID then - 1 else 0),
     handleIdRepeat = (\<lambda>_. 0), curMsgPosition = (\<lambda>_. 0), curHandleId = INVALID_HANDLE_ID,
     curVersion = CONTEXT_DECOUPLE_VERSION, workingFlag = True, debugMode = 0, devType = 0\<rparr>"
  by (simp add: cs3_def SetCcTilingV2_def InitV2_def InitInner_def new_HcclImpl_def assert_fails_def env3_def env0_def
      ctx0_def Let_def InitWorkingFlag_def find_opParam_def cmd_codes cong: if_cong)

text \<open>The object after the preparation, with the counters at \<open>c\<close> and \<open>w\<close>.\<close>

definition h3 :: "u16 \<Rightarrow> u16 \<Rightarrow> HcclImpl" where
  "h3 c w = (prepared env3 False a2av_param 0 0 ((hccl cs3)\<lparr>curHandleId := 0\<rparr>))
     \<lparr>handleIdCommitTurnCnt := (\<lambda>_. 0)(0 := c), handleIdWaitCallNum := (\<lambda>_. 0)(0 := w)\<rparr>"

lemma h3_fields:
  "queueNum (h3 c w) = 0" "workingFlag (h3 c w)" "curVersion (h3 c w) = CONTEXT_DECOUPLE_VERSION" "debugMode (h3 c w) = 0"
  "curHandleId (h3 c w) = 0" "handleIdRepeat (h3 c w) 0 = 1" "handleIdMsgPosition (h3 c w) 0 = 0"
  "handleIdCommitTurnCnt (h3 c w) = (\<lambda>_. 0)(0 := c)" "handleIdWaitCallNum (h3 c w) = (\<lambda>_. 0)(0 := w)"
  "GetStepSizeByHandle env3 (h3 c w) 0 = 2" "GetStepCntsPerRepeatByHandle env3 (h3 c w) 0 = 3"
  by (simp_all add: h3_def prepared_def Let_def cs3_hccl a2av_param_def GetStepCntsPerRepeatByHandle_def
      GetStepSizeByHandle_def GetRankDim_def env3_def cmd_codes)

lemma h3_update: "(h3 c w)\<lparr>handleIdCommitTurnCnt := (\<lambda>_. 0)(0 := c')\<rparr> = h3 c' w"
  "(h3 c w)\<lparr>handleIdWaitCallNum := (\<lambda>_. 0)(0 := w')\<rparr> = h3 c w'"
  by (simp_all add: h3_def)

lemma env3_flags: "e_restart env3 = False" "e_asserts env3 = True" by (simp_all add: env3_def env0_def)

lemma cs3_prepared: "\<exists>a q. CommonPrepareImpl env3 False a2av_param cs3 = Some (0, \<lparr>hccl = h3 0 0, area = a, seq = q\<rparr>)"
proof -
  have m: "curHandleId (hccl cs3) + 1 = 0" by (simp add: cs3_hccl INVALID_HANDLE_ID_def)
  have par: "p_repeat a2av_param \<noteq> 0" "p_commType a2av_param = HCCL_CMD_ALLTOALLV" by (simp_all add: a2av_param_def)
  have ok: "CheckCommonPrepareParamValid env3 (hccl cs3) a2av_param"
    by (simp add: CheckCommonPrepareParamValid_def assert_fails_def a2av_param_def cs3_hccl cmd_codes
        HCCL_DATA_TYPE_RESERVED_def Let_def)
  have ext: "area0 = area cs3" "paramExtMsgList area0 0 ext_valid \<noteq> ucast HCCL_MSG_VALID_MASK"
    "w_valid (sendMsgs area0 0) \<noteq> HCCL_MSG_VALID_MASK"
    by (simp_all add: cs3_def area0_def HCCL_MSG_VALID_MASK_def w_valid_def)
  have ex: "\<exists>r s'. CommonPrepareImpl env3 False a2av_param cs3 = Some (r, s')"
    unfolding CommonPrepareImpl_def Let_def m par(2)
    using par ok ext
    by (simp add: CheckIfRestart_def env3_flags assert_fails_def HCCL_MAX_HANDLE_ID_def SendMsgToServer_ext_def
        SendMsgToServer_def slot_of_def prepare_record_def cs3_hccl Let_def split: prod.split)
  then obtain r s' where c: "CommonPrepareImpl env3 False a2av_param cs3 = Some (r, s')" by blast
  have "hccl s' = prepared env3 False a2av_param 0 0 ((hccl cs3)\<lparr>curHandleId := 0\<rparr>) \<and> r = 0"
    using CommonPrepareImpl_hccl[OF c] par ok m
    by (simp add: CheckIfRestart_def env3_flags assert_fails_def HCCL_MAX_HANDLE_ID_def HCCL_MSG_CNT_def cs3_hccl)
  moreover have "prepared env3 False a2av_param 0 0 ((hccl cs3)\<lparr>curHandleId := 0\<rparr>) = h3 0 0"
    by (simp add: h3_def prepared_def Let_def cs3_hccl fun_upd_idem)
  ultimately show ?thesis using c by (cases s') auto
qed

definition area4 :: HcclMsgArea where
  "area4 = area0\<lparr>finishedTurnCnt := (\<lambda>_. \<lparr>tc_valid = 0, tc_cnt = 4\<rparr>)\<rparr>"

abbreviation at3 :: "u16 \<Rightarrow> u16 \<Rightarrow> cstate" where
  "at3 c w \<equiv> \<lparr>hccl = h3 c w, area = area4, seq = seq cs3\<rparr>"

lemma commit3: "c < 3 \<Longrightarrow> (client_step env3)\<^sup>*\<^sup>* (n, at3 c w) (n, at3 (c + 2) w)"
proof -
  assume c: "c < 3"
  then have lt: "(ucast (c + 2) :: u64) \<noteq> 0" "\<not> 3 \<le> unat c"
    by (auto simp: word_gt_0 word_less_nat_alt word_unat_eq_iff unsigned_ucast_eq unat_word_ariths take_bit_nat_eq_self)
  have "\<exists>a. Commit env3 0 (at3 c w) = Some \<lparr>hccl = h3 (c + 2) w, area = a, seq = seq cs3\<rparr>"
    using lt by (simp add: Commit_def Let_def h3_fields h3_update CheckIfRestart_def env3_flags assert_fails_def
        HCCL_MAX_HANDLE_ID_def HCCL_ONLY_COMPUTE_def SetCommitTurnCntToGm_def area4_def area0_counts not_le)
  then obtain a where "Commit env3 0 (at3 c w) = Some \<lparr>hccl = h3 (c + 2) w, area = a, seq = seq cs3\<rparr>" by blast
  from client_step.commit[OF this] client_step.memory[where env = env3 and n = n and s = "\<lparr>hccl = h3 (c + 2) w, area = a, seq = seq cs3\<rparr>" and a = area4 and q = "seq cs3"]
  show ?thesis by simp (meson r_into_rtranclp rtranclp.rtrancl_into_rtrancl)
qed

lemma wait3: "w < c \<Longrightarrow> w \<le> 2 \<Longrightarrow> (client_step env3)\<^sup>*\<^sup>* (n, at3 c w) (n, at3 c (w + 2))"
proof -
  assume w: "w < c" "w \<le> 2"
  then have lt: "\<not> 4 < (ucast (w + 2) :: u64)" "\<not> c \<le> w"
    by (auto simp: word_less_nat_alt word_le_nat_alt unsigned_ucast_eq unat_word_ariths take_bit_nat_eq_self)
  have "\<exists>a. Wait env3 0 (at3 c w) = Some (HCCL_OK, \<lparr>hccl = h3 c (w + 2), area = a, seq = seq cs3\<rparr>)"
    using lt by (simp add: Wait_def Let_def h3_fields h3_update CheckIfRestart_def env3_flags assert_fails_def
        HCCL_MAX_HANDLE_ID_def WaitFinishCntFromGm_def area4_def not_less)
  then obtain a where "Wait env3 0 (at3 c w) = Some (HCCL_OK, \<lparr>hccl = h3 c (w + 2), area = a, seq = seq cs3\<rparr>)" by blast
  from client_step.wait[OF this] client_step.memory[where env = env3 and n = n and s = "\<lparr>hccl = h3 c (w + 2), area = a, seq = seq cs3\<rparr>" and a = area4 and q = "seq cs3"]
  show ?thesis by simp (meson r_into_rtranclp rtranclp.rtrancl_into_rtrancl)
qed

lemma reach_steps: "reach I R s \<Longrightarrow> R\<^sup>*\<^sup>* s t \<Longrightarrow> reach I R t"
  by (rotate_tac, induction rule: rtranclp_induct) (auto intro: reach_step)

lemma reach3: "reach client_init (client_step env3) (1, at3 4 4)"
proof -
  have "reach client_init (client_step env3) (0, cs3)"
    by (rule reach_init) (simp add: client_init_def cs3_hccl committed_def waited_def Let_def)
  moreover obtain a q where "CommonPrepareImpl env3 False a2av_param cs3 = Some (0, \<lparr>hccl = h3 0 0, area = a, seq = q\<rparr>)"
    using cs3_prepared by blast
  from client_step.prepare[OF this, of 0] have "client_step env3 (0, cs3) (1, \<lparr>hccl = h3 0 0, area = a, seq = q\<rparr>)" by simp
  moreover have "client_step env3 (1, \<lparr>hccl = h3 0 0, area = a, seq = q\<rparr>) (1, at3 0 0)"
    using client_step.memory[where env = env3 and n = 1 and s = "\<lparr>hccl = h3 0 0, area = a, seq = q\<rparr>" and a = area4 and q = "seq cs3"] by simp
  ultimately have "reach client_init (client_step env3) (1, at3 0 0)" by (meson reach_step)
  moreover have "(client_step env3)\<^sup>*\<^sup>* (1, at3 0 0) (1, at3 2 0)" "(client_step env3)\<^sup>*\<^sup>* (1, at3 2 0) (1, at3 4 0)"
    "(client_step env3)\<^sup>*\<^sup>* (1, at3 4 0) (1, at3 4 2)" "(client_step env3)\<^sup>*\<^sup>* (1, at3 4 2) (1, at3 4 4)"
    using commit3[of 0 1 0] commit3[of 2 1 0] wait3[of 0 4 1] wait3[of 2 4 1] by simp_all
  ultimately show ?thesis by (meson reach_steps)
qed

theorem client_counters_witness:
  "(\<exists>s. reach client_init (client_step env3) (1, s) \<and> sint (curHandleId (hccl s)) = 0 \<and>
     total_turns env3 (hccl s) 0 = 3 \<and> step_k env3 (hccl s) 0 = 2 \<and>
     waited (hccl s) 0 = 4 \<and> committed (hccl s) 0 = 4 \<and>
     waited (hccl s) 0 \<le> whole_steps 2 (committed (hccl s) 0) \<and> committed (hccl s) 0 \<le> whole_steps 2 3)"
proof -
  have f: "total_turns env3 (h3 4 4) 0 = 3" "step_k env3 (h3 4 4) 0 = 2" "sint (curHandleId (h3 4 4)) = 0"
    "waited (h3 4 4) 0 = 4" "committed (h3 4 4) 0 = 4"
    by (simp_all add: total_turns_def step_k_def waited_def committed_def h3_fields)
  then have "turns_fit env3 (h3 4 4) 0" by (simp add: turns_fit_def whole_steps_def)
  then have "waited (h3 4 4) 0 \<le> whole_steps 2 (committed (h3 4 4) 0) \<and> committed (h3 4 4) 0 \<le> whole_steps 2 3"
    using client_counters[OF reach3, of 0] f by simp
  then show ?thesis using reach3 f by (intro exI[of _ "at3 4 4"]) simp
qed

text \<open>
  C15: The handle counter is not rolled back. Even in a debug build, where a prepare call past
  the 63rd handle is refused, every refused call still advances the counter; when it
  reaches 127 the next call wraps to handle \<open>-128\<close>, passes the check, and stores its
  bookkeeping at that index.
\<close>
theorem prepare_wraps_handle:
  assumes "e_asserts env" "sint (curHandleId (hccl s)) \<ge> 62" "\<not> CheckIfRestart env (area s)"
    "p_repeat param \<noteq> 0" "CheckCommonPrepareParamValid env (hccl s) param"
  shows "(sint (curHandleId (hccl s)) < 127 \<longrightarrow>
      CommonPrepareImpl env c param s =
        Some (INVALID_HANDLE_ID, s\<lparr>hccl := (hccl s)\<lparr>curHandleId := curHandleId (hccl s) + 1\<rparr>\<rparr>)) \<and>
    (sint (curHandleId (hccl s)) = 127 \<longrightarrow>
      (\<forall>r s'. CommonPrepareImpl env c param s = Some (r, s') \<longrightarrow> handleIdRepeat (hccl s') (- 128) = p_repeat param))"
proof (intro conjI impI allI)
  assume lt: "sint (curHandleId (hccl s)) < 127"
  then have "\<not> sint (curHandleId (hccl s) + 1) < HCCL_MAX_HANDLE_ID"
    using assms(2) by (simp add: sint_succ HCCL_MAX_HANDLE_ID_def)
  then show "CommonPrepareImpl env c param s =
        Some (INVALID_HANDLE_ID, s\<lparr>hccl := (hccl s)\<lparr>curHandleId := curHandleId (hccl s) + 1\<rparr>\<rparr>)"
    using assms by (simp add: CommonPrepareImpl_def assert_fails_def Let_def)
next
  fix r s'
  assume m: "sint (curHandleId (hccl s)) = 127" and c: "CommonPrepareImpl env c param s = Some (r, s')"
  have "(of_int (sint (curHandleId (hccl s))) :: u8) = of_int 127" using m by simp
  then have "curHandleId (hccl s) = 127" by (simp add: scast_id)
  then have w: "curHandleId (hccl s) + 1 = - 128" by simp
  have "sint (- 128 :: u8) = - 128" by simp
  then have i: "sint (curHandleId (hccl s) + 1) = - 128" by (simp only: w)
  let ?h1 = "(hccl s)\<lparr>curHandleId := curHandleId (hccl s) + 1\<rparr>"
  have "hccl s' = prepared env c param (curHandleId (hccl s) + 1)
      (unat (if queueNum (hccl s) = 0 then 0 else ucast (p_dataType param) :: u16)) ?h1"
    using CommonPrepareImpl_hccl[OF c] assms i by (auto simp: assert_fails_def HCCL_MAX_HANDLE_ID_def)
  then show "handleIdRepeat (hccl s') (- 128) = p_repeat param"
    by (simp add: prepared_def Let_def i)
qed

definition cs62 :: cstate where
  "cs62 = cs0\<lparr>hccl := (hccl cs0)\<lparr>curHandleId := 62\<rparr>\<rparr>"

theorem prepare_wraps_handle_witness:
  "CommonPrepareImpl env0 False sample_param cs62 =
     Some (INVALID_HANDLE_ID, cs62\<lparr>hccl := (hccl cs62)\<lparr>curHandleId := 63\<rparr>\<rparr>)"
proof -
  have "CheckCommonPrepareParamValid env0 (hccl cs62) sample_param = CheckCommonPrepareParamValid env0 (hccl cs0) sample_param"
    by (simp add: cs62_def CheckCommonPrepareParamValid_def Let_def)
  then show ?thesis
    using prepare_wraps_handle[of env0 cs62 sample_param False] cs0_ready(4,5)
    by (simp add: cs62_def env0_flags sample_param_def)
qed

end
