(* ===== verification/Mc2Server.thy ===== *)
theory Mc2Server
  imports Mc2Client
begin

text \<open>
  The server side of MC2 on the AICPU: formatting of the operator parameters
  (comm_kfc_open_kernel_adapter.cc) and one communication group's server
  (comm_kfc_aicpu_server.cc). Launching a task on a stream, running the operator kernel, the
  device type and the communicator tables are services of other parts: their answers are
  the fields of \<open>server_env\<close>. The tasks a server launches are recorded in order.
\<close>

section \<open>Operator parameters\<close>

datatype OpData =
    DataDes (dd_count: u64) (dd_dataType: u32) (dd_outputType: u32) (dd_strideCount: u64)
  | All2AllVDataDes (av_sendType: u32) (av_recvType: u32)

text \<open>
  \<open>op_base\<close> stands for the fields the server copies from the host's parameter block and
  never looks at; the four array pointers of \<open>All2AllVDataDes\<close> point into the group's
  extension block.
\<close>

record OpParam =
  op_base :: u64
  op_opType :: u32
  op_inputPtr :: u64
  op_outputPtr :: u64
  op_reduceType :: u32
  op_stream :: u64
  op_data :: OpData

definition GetDataTypeSize :: "u32 \<Rightarrow> u64" where
  "GetDataTypeSize t =
     (if t \<in> {0, 7, 14, 16, 15, 17} then 1
      else if t \<in> {1, 8, 3, 11} then 2
      else if t \<in> {2, 9, 4} then 4
      else if t \<in> {5, 6, 10} then 8
      else if t = 12 then 16 else 0)"

definition alltoall_ext :: "words \<Rightarrow> nat \<Rightarrow> ext_words \<Rightarrow> ext_words" where
  "alltoall_ext msg rankNum ext =
     (let offset = (if w_strideCount msg > 0 then w_strideCount msg else w_dataCnt msg) in
      fold (\<lambda>i d. d(ext_recvCounts + i := w_dataCnt msg, ext_sendCounts + i := w_dataCnt msg,
                    ext_recvOffset + i := offset * of_nat i, ext_sendOffset + i := offset * of_nat i))
        [0..<rankNum] ext)"

definition CreateOpParamByBaseOpParam ::
  "OpParam \<Rightarrow> words \<Rightarrow> nat \<Rightarrow> u64 \<Rightarrow> ext_words \<Rightarrow> OpParam \<times> ext_words" where
  "CreateOpParamByBaseOpParam base msg rankNum stream ext =
     (let msgOpType = w_commType msg;
          param = base\<lparr>op_inputPtr := w_sendBuffer msg, op_outputPtr := w_recvBuffer msg\<rparr>;
          (param, ext) =
            (if op_opType param = HCCL_CMD_ALLTOALL
             then (param\<lparr>op_opType := HCCL_CMD_ALLTOALLV\<rparr>, alltoall_ext msg rankNum ext)
             else (param, ext));
          param =
            (if op_opType param = HCCL_CMD_ALLTOALLV
             then param\<lparr>op_data := All2AllVDataDes (w_hcclDataType msg) (w_hcclDataType msg)\<rparr>
             else let repeatCnt = (if w_repeatCnt msg = 0 then 1 else ucast (w_repeatCnt msg) :: u32);
                      stride = w_strideCount msg;
                      stride = (if stride = 0 \<and> repeatCnt > 1 \<and>
                                   (msgOpType = HCCL_CMD_ALLGATHER \<or> msgOpType = HCCL_CMD_REDUCE_SCATTER)
                                then w_dataCnt msg * ucast repeatCnt else stride) in
               param\<lparr>op_data := DataDes (w_dataCnt msg) (w_hcclDataType msg) (w_hcclDataType msg) stride\<rparr>) in
      (param\<lparr>op_opType := w_commType msg, op_reduceType := w_opType msg, op_stream := stream\<rparr>, ext))"

definition advance_ext :: "nat \<Rightarrow> ext_words \<Rightarrow> ext_words" where
  "advance_ext rankNum ext =
     fold (\<lambda>i d. let d = d(ext_sendOffset + i := d (ext_sendOffset + i) + d (ext_sendCounts + i)) in
                 d(ext_recvOffset + i := d (ext_recvOffset + i) + d (ext_recvCounts + i)))
       [0..<rankNum] ext"

text \<open>An empty byte vector is \<open>None\<close>.\<close>

definition FormatOpenOpParamDataFromMsg ::
  "OpParam option \<Rightarrow> words \<Rightarrow> nat \<Rightarrow> u32 \<Rightarrow> u64 \<Rightarrow> ext_words \<times> OpParam option
    \<Rightarrow> HcclResult \<times> (ext_words \<times> OpParam option)" where
  "FormatOpenOpParamDataFromMsg baseOpParam msg rankNum repeatIdx stream s =
     (case s of (ext, run) \<Rightarrow>
      case baseOpParam of
        None \<Rightarrow> (HCCL_E_PARA, (ext, run))
      | Some base \<Rightarrow>
          if repeatIdx = 0 then
            case CreateOpParamByBaseOpParam base msg rankNum stream ext of
              (param, ext) \<Rightarrow> (HCCL_SUCCESS, (ext, Some param))
          else case run of
              None \<Rightarrow> (HCCL_E_PARA, (ext, run))
            | Some param \<Rightarrow>
                if op_opType param = HCCL_CMD_ALLTOALLV \<or> op_opType param = HCCL_CMD_ALLTOALL
                then (HCCL_SUCCESS, (advance_ext rankNum ext, Some param))
                else let dataLen = w_dataCnt msg * GetDataTypeSize (w_hcclDataType msg) in
                  (HCCL_SUCCESS, (ext, Some (param\<lparr>op_inputPtr := op_inputPtr param + dataLen,
                                                   op_outputPtr := op_outputPtr param + dataLen\<rparr>))))"

section \<open>A group's server\<close>

datatype ServerExecResourceType = LEGACY | NEXT_AICPU

record ServerExecCtx =
  x_offset :: u64
  x_opParamKey :: u64
  x_commName :: string
  x_baseOpParam :: "OpParam option"
  x_resourceType :: ServerExecResourceType
  x_mainStream :: "u64 option"
  x_mainThread :: u64

text \<open>A counter word of a group's message area, by the area's address and the position.\<close>

datatype cnt_addr = CommitCnt u64 nat | FinishedCnt u64 nat

datatype task =
    CCoreNotifyWait cnt_addr u64 bool
  | CCoreNotifyRecord cnt_addr u64
  | LaunchTask
  | KernelLaunch OpParam ext_words
  | LegacyCcoreWait u64 cnt_addr u32 u64 bool

record CommKfcAicpuServer =
  s_opHandles :: "u64 list"
  s_handleIdToMsgPos :: "int \<Rightarrow> u32 option"
  s_handleIdToRepeat :: "int \<Rightarrow> u32 option"
  s_execCtxList :: "ServerExecCtx list"
  s_syncExecCtx :: "ServerExecCtx option"
  s_msgArea :: "u64 option"
  s_lastMsgTimestamp :: u64
  s_timeout :: u64
  s_turnNumsAddr :: u64
  s_groupIdx :: u32
  s_rankNum :: u32
  s_trace :: "task list"

definition new_server :: "u32 \<Rightarrow> CommKfcAicpuServer" where
  "new_server groupIdx =
     \<lparr>s_opHandles = [], s_handleIdToMsgPos = (\<lambda>_. None), s_handleIdToRepeat = (\<lambda>_. None),
      s_execCtxList = [], s_syncExecCtx = None, s_msgArea = None, s_lastMsgTimestamp = 0,
      s_timeout = 30, s_turnNumsAddr = 0, s_groupIdx = groupIdx, s_rankNum = 0, s_trace = []\<rparr>"

text \<open>
  The services: whether launching a task after a trace succeeds (an exception becomes
  \<open>HCCL_E_INTERNAL\<close> on the new resource type, the legacy queue returns a code), the stream
  of a main thread, the parameter block behind a key, the device type and main threads of
  communicators, the legacy finish and status queries, and the clock.
\<close>

record server_env =
  n_server_only :: bool
  n_answer :: "task list \<Rightarrow> task \<Rightarrow> HcclResult"
  n_streamLite :: "u64 \<Rightarrow> bool"
  n_loadParam :: "u64 \<Rightarrow> string \<times> OpParam option"
  n_isDevice950 :: "HcclResult \<times> bool"
  n_commMgr :: "string \<Rightarrow> bool"
  n_collComm :: "string \<Rightarrow> bool"
  n_mainThread :: "OpParam option \<Rightarrow> HcclResult \<times> u64"
  n_commAicpu :: "string \<Rightarrow> u64 option"
  n_checkFinish :: "u64 \<Rightarrow> bool"
  n_taskNormal :: "u64 \<Rightarrow> bool"
  n_releaseComm :: "u64 \<Rightarrow> HcclResult"
  n_now :: u64

definition SUPPORT_OP_LIST :: "u32 list" where
  "SUPPORT_OP_LIST = [HCCL_CMD_ALLREDUCE, HCCL_CMD_ALLGATHER, HCCL_CMD_REDUCE_SCATTER,
     HCCL_CMD_ALLTOALLV, HCCL_CMD_ALLTOALL]"

definition IsSupportedOp :: "u32 \<Rightarrow> bool" where
  "IsSupportedOp opType \<longleftrightarrow> opType \<in> set SUPPORT_OP_LIST"

definition MatchExecCtx :: "u64 \<Rightarrow> CommKfcAicpuServer \<Rightarrow> ServerExecCtx option" where
  "MatchExecCtx key sv = find (\<lambda>x. x_opParamKey x = key) (s_execCtxList sv)"

definition KeepAlive :: "server_env \<Rightarrow> CommKfcAicpuServer \<Rightarrow> CommKfcAicpuServer" where
  "KeepAlive env sv = sv\<lparr>s_lastMsgTimestamp := n_now env\<rparr>"

definition LoadOpenOpParamData :: "server_env \<Rightarrow> u64 \<Rightarrow> HcclResult + (string \<times> OpParam option)" where
  "LoadOpenOpParamData env key = (if key = 0 then Inl HCCL_E_PARA else Inr (n_loadParam env key))"

text \<open>The resource a new execution context is bound to.\<close>

definition bind_resource :: "server_env \<Rightarrow> ServerExecCtx \<Rightarrow> HcclResult + ServerExecCtx" where
  "bind_resource env x =
     (case n_isDevice950 env of (ret, isDevice950) \<Rightarrow>
      if ret \<noteq> HCCL_SUCCESS then Inl ret
      else if isDevice950 then
        if \<not> n_commMgr env (x_commName x) then Inl HCCL_E_PARA
        else if \<not> n_collComm env (x_commName x) then Inl HCCL_E_PTR
        else (case n_mainThread env (x_baseOpParam x) of (ret, t) \<Rightarrow>
                if ret \<noteq> HCCL_SUCCESS then Inl ret
                else Inr (x\<lparr>x_resourceType := NEXT_AICPU, x_mainThread := t\<rparr>))
      else if n_server_only env then Inl HCCL_E_PARA
      else (case n_commAicpu env (x_commName x) of
             None \<Rightarrow> Inl HCCL_E_PARA
           | Some stm \<Rightarrow> Inr (x\<lparr>x_mainStream := Some stm\<rparr>)))"

lemma bind_resource_result:
  "(bind_resource env x = Inl e \<longrightarrow> e \<noteq> HCCL_SUCCESS) \<and>
   (bind_resource env x = Inr x' \<longrightarrow> x_opParamKey x' = x_opParamKey x)"
  by (auto simp: bind_resource_def split: prod.splits if_splits option.splits)

fun add_algs ::
  "server_env \<Rightarrow> AlgInfo list \<Rightarrow> CommKfcAicpuServer \<Rightarrow> HcclResult \<times> CommKfcAicpuServer" where
  "add_algs env [] sv = (HCCL_SUCCESS, sv)"
| "add_algs env (a # as) sv =
     (let key = ai_opParam a in
      if key = 0 then add_algs env as sv
      else if MatchExecCtx key sv \<noteq> None then add_algs env as sv
      else case LoadOpenOpParamData env key of
        Inl e \<Rightarrow> (e, sv)
      | Inr (commName, base) \<Rightarrow>
          if commName = [] then (HCCL_E_PARA, sv)
          else (case bind_resource env
                  \<lparr>x_offset = ai_offset a, x_opParamKey = key, x_commName = commName, x_baseOpParam = base,
                   x_resourceType = LEGACY, x_mainStream = None, x_mainThread = 0\<rparr> of
                 Inl e \<Rightarrow> (e, sv)
               | Inr x \<Rightarrow> add_algs env as (sv\<lparr>s_execCtxList := s_execCtxList sv @ [x]\<rparr>)))"

definition AddOpContext ::
  "server_env \<Rightarrow> u64 \<Rightarrow> OpResCtx \<Rightarrow> CommKfcAicpuServer \<Rightarrow> HcclResult \<times> CommKfcAicpuServer" where
  "AddOpContext env areaSize ctx sv =
     (if s_msgArea sv \<noteq> None \<and> s_msgArea sv \<noteq> Some (oc_workspace ctx) then (HCCL_E_PARA, sv)
      else let sv = (if s_msgArea sv = None
                     then KeepAlive env (sv\<lparr>s_msgArea := (if oc_workspace ctx = 0 then None else Some (oc_workspace ctx)),
                            s_turnNumsAddr := oc_workspace ctx + areaSize, s_rankNum := ucast (oc_rankSize ctx)\<rparr>)
                     else sv) in
        chk_ret (add_algs env (take 8 (oc_algInfo ctx)) sv) (\<lambda>sv.
          case s_execCtxList sv of
            [] \<Rightarrow> (HCCL_E_PARA, sv)
          | x # _ \<Rightarrow> (HCCL_SUCCESS, sv\<lparr>s_syncExecCtx := Some x\<rparr>)))"

subsection \<open>Launching\<close>

definition emit :: "server_env \<Rightarrow> task \<Rightarrow> CommKfcAicpuServer \<Rightarrow> HcclResult \<times> CommKfcAicpuServer" where
  "emit env t sv =
     (let r = n_answer env (s_trace sv) t in
      (r, if r = HCCL_SUCCESS then sv\<lparr>s_trace := s_trace sv @ [t]\<rparr> else sv))"

text \<open>\<open>EXECEPTION_CATCH(call, return HCCL_E_INTERNAL)\<close>.\<close>

definition emit_catch :: "server_env \<Rightarrow> task \<Rightarrow> CommKfcAicpuServer \<Rightarrow> HcclResult \<times> CommKfcAicpuServer" where
  "emit_catch env t sv =
     (case emit env t sv of (r, sv) \<Rightarrow> (if r = HCCL_SUCCESS then r else HCCL_E_INTERNAL, sv))"

definition GetNextThreadAndStream :: "server_env \<Rightarrow> ServerExecCtx \<Rightarrow> HcclResult" where
  "GetNextThreadAndStream env x =
     (if x_mainThread x = 0 then HCCL_E_PARA
      else if \<not> n_streamLite env (x_mainThread x) then HCCL_E_PTR else HCCL_SUCCESS)"

text \<open>The launch of one notify task, on either resource type.\<close>

definition launch_notify ::
  "server_env \<Rightarrow> ServerExecCtx \<Rightarrow> task \<Rightarrow> CommKfcAicpuServer \<Rightarrow> HcclResult \<times> CommKfcAicpuServer" where
  "launch_notify env x t sv =
     (if x_resourceType x = NEXT_AICPU then
        chk_ret (GetNextThreadAndStream env x, sv) (\<lambda>sv.
        chk_ret (emit_catch env t sv) (\<lambda>sv. emit_catch env LaunchTask sv))
      else if n_server_only env then (HCCL_E_INTERNAL, sv)
      else if x_mainStream x = None then (HCCL_E_PTR, sv)
      else chk_ret (emit env t sv) (\<lambda>sv. emit env LaunchTask sv))"

definition LaunchOpenCcoreWait ::
  "server_env \<Rightarrow> ServerExecCtx \<Rightarrow> cnt_addr \<Rightarrow> u32 \<Rightarrow> u64 \<Rightarrow> bool \<Rightarrow> CommKfcAicpuServer
    \<Rightarrow> HcclResult \<times> CommKfcAicpuServer" where
  "LaunchOpenCcoreWait env x waitAddr turnNum turnNumsAddr isLast sv =
     launch_notify env x (CCoreNotifyWait waitAddr (turnNumsAddr + ucast turnNum * 4) isLast) sv"

definition LaunchOpenCcorePost ::
  "server_env \<Rightarrow> ServerExecCtx \<Rightarrow> cnt_addr \<Rightarrow> u32 \<Rightarrow> u64 \<Rightarrow> CommKfcAicpuServer
    \<Rightarrow> HcclResult \<times> CommKfcAicpuServer" where
  "LaunchOpenCcorePost env x recordAddr turnNum turnNumsAddr sv =
     launch_notify env x (CCoreNotifyRecord recordAddr (turnNumsAddr + ucast turnNum * 4)) sv"

definition FormatOpParamFromMsg ::
  "words \<Rightarrow> ServerExecCtx \<Rightarrow> u32 \<Rightarrow> nat \<Rightarrow> ext_words \<times> OpParam option
    \<Rightarrow> HcclResult \<times> (ext_words \<times> OpParam option)" where
  "FormatOpParamFromMsg msg x repeatIdx rankNum s =
     (if x_resourceType x = LEGACY then
        (case x_mainStream x of
           None \<Rightarrow> (HCCL_E_PTR, s)
         | Some stm \<Rightarrow> FormatOpenOpParamDataFromMsg (x_baseOpParam x) msg rankNum repeatIdx stm s)
      else (case x_baseOpParam x of
           None \<Rightarrow> (HCCL_E_PARA, s)
         | Some base \<Rightarrow> FormatOpenOpParamDataFromMsg (Some base) msg rankNum repeatIdx (op_stream base) s))"

definition LaunchOpenAicpuKernelServer ::
  "server_env \<Rightarrow> OpParam option \<Rightarrow> ext_words \<Rightarrow> CommKfcAicpuServer \<Rightarrow> HcclResult \<times> CommKfcAicpuServer" where
  "LaunchOpenAicpuKernelServer env run ext sv =
     (case run of None \<Rightarrow> (HCCL_E_PARA, sv) | Some p \<Rightarrow> emit env (KernelLaunch p ext) sv)"

text \<open>
  One repetition: the parameters are formatted, then a wait for the client's turn, the
  kernel and the notification of the client are launched. \<open>pr\<close> holds the extension block and
  the run parameter.
\<close>

fun orchestrate_loop ::
  "server_env \<Rightarrow> words \<Rightarrow> ServerExecCtx \<Rightarrow> u64 \<Rightarrow> nat \<Rightarrow> nat list
    \<Rightarrow> (ext_words \<times> OpParam option) \<times> CommKfcAicpuServer
    \<Rightarrow> HcclResult \<times> (ext_words \<times> OpParam option) \<times> CommKfcAicpuServer" where
  "orchestrate_loop env msg x a msgPos [] s = (HCCL_SUCCESS, s)"
| "orchestrate_loop env msg x a msgPos (i # is) (pr, sv) =
     (let turnIdx = of_nat i + 1 :: u32 in
      chk_ret (case FormatOpParamFromMsg msg x (of_nat i) (unat (s_rankNum sv)) pr of (r, pr) \<Rightarrow> (r, pr, sv))
        (\<lambda>(pr, sv).
      chk_ret (case LaunchOpenCcoreWait env x (CommitCnt a msgPos) turnIdx (s_turnNumsAddr sv)
                      (turnIdx = ucast (w_repeatCnt msg)) sv of (r, sv) \<Rightarrow> (r, pr, sv)) (\<lambda>(pr, sv).
      chk_ret (case LaunchOpenAicpuKernelServer env (snd pr) (fst pr) sv of (r, sv) \<Rightarrow> (r, pr, sv)) (\<lambda>(pr, sv).
      chk_ret (case LaunchOpenCcorePost env x (FinishedCnt a msgPos) turnIdx (s_turnNumsAddr sv) sv of
                 (r, sv) \<Rightarrow> (r, pr, sv))
        (orchestrate_loop env msg x a msgPos is)))))"

definition Orchestrate ::
  "server_env \<Rightarrow> words \<Rightarrow> nat \<Rightarrow> ext_words \<times> CommKfcAicpuServer
    \<Rightarrow> HcclResult \<times> ext_words \<times> CommKfcAicpuServer" where
  "Orchestrate env msg msgPos s =
     (case s of (ext, sv0) \<Rightarrow>
      let sv = KeepAlive env sv0 in
      case s_msgArea sv of
        None \<Rightarrow> (HCCL_E_PTR, ext, sv)
      | Some a \<Rightarrow>
          if \<not> IsSupportedOp (w_commType msg) then (HCCL_E_PARA, ext, sv)
          else case MatchExecCtx (w_ccOpTilingData msg) sv of
            None \<Rightarrow> (HCCL_E_PARA, ext, sv)
          | Some x \<Rightarrow>
              let handle = sint (w_selfHandleID msg); repeatCnt = ucast (w_repeatCnt msg) :: u32 in
              if handle < 0 then (HCCL_E_INTERNAL, ext, sv)
              else (case orchestrate_loop env msg x a msgPos [0..<unat repeatCnt] ((ext, None), sv) of
                (r, (ext, run), sv) \<Rightarrow>
                  if r \<noteq> HCCL_SUCCESS then (r, ext, sv)
                  else (HCCL_SUCCESS, ext,
                    sv\<lparr>s_handleIdToMsgPos := (s_handleIdToMsgPos sv)(handle \<mapsto> of_nat msgPos),
                       s_handleIdToRepeat := (s_handleIdToRepeat sv)(handle \<mapsto> repeatCnt)\<rparr>)))"

definition server_Finalize :: "server_env \<Rightarrow> nat \<Rightarrow> CommKfcAicpuServer \<Rightarrow> HcclResult \<times> CommKfcAicpuServer" where
  "server_Finalize env msgPos sv = (HCCL_SUCCESS, KeepAlive env sv)"

type_synonym areas = "u64 \<Rightarrow> HcclMsgArea"

definition set_finished :: "u64 \<Rightarrow> nat \<Rightarrow> areas \<Rightarrow> areas" where
  "set_finished a msgPos mem =
     mem(a := (mem a)\<lparr>finishedTurnCnt := (finishedTurnCnt (mem a))
       (msgPos := (finishedTurnCnt (mem a) msgPos)\<lparr>tc_cnt := FINALIZE_FINISH_CNT\<rparr>)\<rparr>)"

fun release_all :: "server_env \<Rightarrow> u64 list \<Rightarrow> HcclResult" where
  "release_all env [] = HCCL_SUCCESS"
| "release_all env (h # hs) =
     (if n_releaseComm env h \<noteq> HCCL_SUCCESS then n_releaseComm env h else release_all env hs)"

definition is_next :: "CommKfcAicpuServer \<Rightarrow> bool" where
  "is_next sv = (case s_syncExecCtx sv of Some x \<Rightarrow> x_resourceType x = NEXT_AICPU | None \<Rightarrow> False)"

definition IsAllTaskFinished ::
  "server_env \<Rightarrow> nat \<Rightarrow> CommKfcAicpuServer \<Rightarrow> bool \<times> areas \<Rightarrow> HcclResult \<times> bool \<times> areas" where
  "IsAllTaskFinished env msgPos sv s =
     (case s of (isFinish, mem) \<Rightarrow>
      case s_msgArea sv of
        None \<Rightarrow> (HCCL_E_PTR, isFinish, mem)
      | Some a \<Rightarrow>
          if is_next sv then (HCCL_SUCCESS, True, set_finished a msgPos mem)
          else if n_server_only env then (HCCL_E_INTERNAL, False, mem)
          else (case s_opHandles sv of
            [] \<Rightarrow> (HCCL_E_INTERNAL, False, mem)
          | h # _ \<Rightarrow>
              if \<not> n_checkFinish env h then (HCCL_SUCCESS, False, mem)
              else if \<not> n_taskNormal env h then (HCCL_E_INTERNAL, False, mem)
              else (release_all env (s_opHandles sv), True, set_finished a msgPos mem)))"

definition GetServerInfoForSync :: "int \<Rightarrow> CommKfcAicpuServer \<Rightarrow> HcclResult + (u32 \<times> u32)" where
  "GetServerInfoForSync handle sv =
     (if handle < 0 then Inl HCCL_E_PARA
      else case s_handleIdToMsgPos sv handle of
        None \<Rightarrow> Inl HCCL_E_AGAIN
      | Some msgPos \<Rightarrow> (case s_handleIdToRepeat sv handle of
          None \<Rightarrow> Inl HCCL_E_INTERNAL
        | Some repeat \<Rightarrow> Inr (msgPos, repeat)))"

definition InterGroupSync ::
  "server_env \<Rightarrow> CommKfcAicpuServer \<Rightarrow> int \<Rightarrow> CommKfcAicpuServer \<Rightarrow> HcclResult \<times> CommKfcAicpuServer" where
  "InterGroupSync env otherServer handle sv0 =
     (let sv = KeepAlive env sv0 in
      case GetServerInfoForSync handle otherServer of
        Inl e \<Rightarrow> (e, sv)
      | Inr (msgPos, repeat) \<Rightarrow>
          if unat msgPos \<ge> HCCL_MSG_CNT then (HCCL_E_PARA, sv)
          else (case s_msgArea otherServer of
            None \<Rightarrow> (HCCL_E_PTR, sv)
          | Some a \<Rightarrow> (case s_syncExecCtx sv of
              None \<Rightarrow> (HCCL_E_PTR, sv)
            | Some x \<Rightarrow>
                if x_resourceType x = NEXT_AICPU
                then LaunchOpenCcoreWait env x (FinishedCnt a (unat msgPos)) repeat (s_turnNumsAddr sv) False sv
                else if n_server_only env then (HCCL_E_INTERNAL, sv)
                else (case s_opHandles sv of
                  [] \<Rightarrow> (HCCL_E_INTERNAL, sv)
                | h # _ \<Rightarrow> emit env (LegacyCcoreWait h (FinishedCnt a (unat msgPos)) repeat
                              (s_turnNumsAddr sv) False) sv))))"

definition KFC_NSEC_PER_SEC :: u64 where "KFC_NSEC_PER_SEC = 1000000000"
definition TIMEOUT_ERROR_THRESHOLD :: u64 where "TIMEOUT_ERROR_THRESHOLD = 120"

definition IsTimeout :: "server_env \<Rightarrow> CommKfcAicpuServer \<Rightarrow> bool" where
  "IsTimeout env sv \<longleftrightarrow> n_now env - s_lastMsgTimestamp sv \<ge> s_timeout sv * KFC_NSEC_PER_SEC"

definition CheckTimeOut :: "server_env \<Rightarrow> CommKfcAicpuServer \<Rightarrow> HcclResult \<times> CommKfcAicpuServer" where
  "CheckTimeOut env sv =
     (if \<not> IsTimeout env sv then (HCCL_SUCCESS, sv)
      else (if s_timeout sv \<ge> TIMEOUT_ERROR_THRESHOLD then HCCL_E_TIMEOUT else HCCL_E_AGAIN,
            sv\<lparr>s_timeout := s_timeout sv * 2\<rparr>))"

definition ErrorDfxProcess :: "server_env \<Rightarrow> HcclResult \<Rightarrow> CommKfcAicpuServer \<Rightarrow> HcclResult" where
  "ErrorDfxProcess env errorCode sv =
     (let mild = (if errorCode = HCCL_E_AGAIN then HCCL_SUCCESS else errorCode) in
      if errorCode = HCCL_SUCCESS then errorCode
      else if is_next sv then mild
      else if s_syncExecCtx sv = None \<and> s_opHandles sv = [] then mild
      else if n_server_only env then mild
      else if s_opHandles sv = [] then HCCL_E_INTERNAL
      else mild)"

section \<open>What one message launches\<close>

text \<open>A context whose launches all succeed.\<close>

definition exec_ready :: "server_env \<Rightarrow> ServerExecCtx \<Rightarrow> bool" where
  "exec_ready env x \<longleftrightarrow> (\<forall>tr t. n_answer env tr t = HCCL_SUCCESS) \<and> x_baseOpParam x \<noteq> None \<and>
     (if x_resourceType x = NEXT_AICPU then x_mainThread x \<noteq> 0 \<and> n_streamLite env (x_mainThread x)
      else \<not> n_server_only env \<and> x_mainStream x \<noteq> None)"

definition stream_of :: "ServerExecCtx \<Rightarrow> u64" where
  "stream_of x = (if x_resourceType x = LEGACY then the (x_mainStream x) else op_stream (the (x_baseOpParam x)))"

definition a2a :: "words \<Rightarrow> bool" where
  "a2a msg \<longleftrightarrow> w_commType msg = HCCL_CMD_ALLTOALLV \<or> w_commType msg = HCCL_CMD_ALLTOALL"

definition param_at :: "ServerExecCtx \<Rightarrow> words \<Rightarrow> nat \<Rightarrow> ext_words \<Rightarrow> nat \<Rightarrow> OpParam" where
  "param_at x msg rank ext i =
     (let p = fst (CreateOpParamByBaseOpParam (the (x_baseOpParam x)) msg rank (stream_of x) ext);
          d = of_nat i * (w_dataCnt msg * GetDataTypeSize (w_hcclDataType msg)) in
      if a2a msg then p else p\<lparr>op_inputPtr := w_sendBuffer msg + d, op_outputPtr := w_recvBuffer msg + d\<rparr>)"

definition ext_at :: "ServerExecCtx \<Rightarrow> words \<Rightarrow> nat \<Rightarrow> ext_words \<Rightarrow> nat \<Rightarrow> ext_words" where
  "ext_at x msg rank ext i =
     (let e = snd (CreateOpParamByBaseOpParam (the (x_baseOpParam x)) msg rank (stream_of x) ext) in
      if a2a msg then (advance_ext rank ^^ i) e else e)"

lemma emit_ok: "n_answer env (s_trace sv) t = HCCL_SUCCESS \<Longrightarrow>
  emit env t sv = (HCCL_SUCCESS, sv\<lparr>s_trace := s_trace sv @ [t]\<rparr>)"
  by (simp add: emit_def)

lemma launch_notify_ok:
  "exec_ready env x \<Longrightarrow> launch_notify env x t sv = (HCCL_SUCCESS, sv\<lparr>s_trace := s_trace sv @ [t, LaunchTask]\<rparr>)"
  by (auto simp: launch_notify_def exec_ready_def GetNextThreadAndStream_def emit_catch_def emit_ok)

lemma Create_type:
  "op_opType (fst (CreateOpParamByBaseOpParam b msg rank stm ext)) = w_commType msg"
  "op_inputPtr (fst (CreateOpParamByBaseOpParam b msg rank stm ext)) = w_sendBuffer msg"
  "op_outputPtr (fst (CreateOpParamByBaseOpParam b msg rank stm ext)) = w_recvBuffer msg"
  "op_stream (fst (CreateOpParamByBaseOpParam b msg rank stm ext)) = stm"
  "op_reduceType (fst (CreateOpParamByBaseOpParam b msg rank stm ext)) = w_opType msg"
  by (simp_all add: CreateOpParamByBaseOpParam_def Let_def split: prod.splits)

lemma format_first:
  assumes "exec_ready env x"
  shows "FormatOpParamFromMsg msg x 0 rank (ext, run) =
    (HCCL_SUCCESS, ext_at x msg rank ext 0, Some (param_at x msg rank ext 0))"
proof -
  obtain b where b: "x_baseOpParam x = Some b" using assms by (auto simp: exec_ready_def)
  obtain p e where c: "CreateOpParamByBaseOpParam b msg rank (stream_of x) ext = (p, e)" by fastforce
  have "op_inputPtr p = w_sendBuffer msg" "op_outputPtr p = w_recvBuffer msg"
    using Create_type(2,3)[of b msg rank "stream_of x" ext] c by simp_all
  then have q: "p\<lparr>op_inputPtr := w_sendBuffer msg, op_outputPtr := w_recvBuffer msg\<rparr> = p" by simp
  have "FormatOpenOpParamDataFromMsg (Some b) msg rank 0 (stream_of x) (ext, run) = (HCCL_SUCCESS, e, Some p)"
    by (simp add: FormatOpenOpParamDataFromMsg_def c)
  moreover have "FormatOpParamFromMsg msg x 0 rank (ext, run) =
      FormatOpenOpParamDataFromMsg (Some b) msg rank 0 (stream_of x) (ext, run)"
    using assms by (cases "x_resourceType x") (auto simp: FormatOpParamFromMsg_def exec_ready_def stream_of_def b)
  moreover have "ext_at x msg rank ext 0 = e" "param_at x msg rank ext 0 = p"
    using q by (simp_all add: ext_at_def param_at_def b c Let_def)
  ultimately show ?thesis by simp
qed

lemma format_next:
  assumes "exec_ready env x" "Suc i < 2 ^ 32"
  shows "FormatOpParamFromMsg msg x (of_nat (Suc i)) rank (ext_at x msg rank ext i, Some (param_at x msg rank ext i)) =
    (HCCL_SUCCESS, ext_at x msg rank ext (Suc i), Some (param_at x msg rank ext (Suc i)))"
proof -
  obtain b where b: "x_baseOpParam x = Some b" using assms by (auto simp: exec_ready_def)
  have nz: "(of_nat (Suc i) :: u32) \<noteq> 0"
    using assms(2) dvd_imp_le[of "2 ^ 32" "Suc i"] by (simp only: word_of_nat_eq_0_iff) auto
  have t: "op_opType (param_at x msg rank ext i) = w_commType msg"
    by (simp add: param_at_def Let_def Create_type)
  have e: "ext_at x msg rank ext (Suc i) =
      (if a2a msg then advance_ext rank (ext_at x msg rank ext i) else ext_at x msg rank ext i)"
    by (simp add: ext_at_def Let_def)
  have p: "param_at x msg rank ext (Suc i) =
      (if a2a msg then param_at x msg rank ext i
       else let q = param_at x msg rank ext i; d = w_dataCnt msg * GetDataTypeSize (w_hcclDataType msg) in
         q\<lparr>op_inputPtr := op_inputPtr q + d, op_outputPtr := op_outputPtr q + d\<rparr>)"
    by (simp add: param_at_def Let_def algebra_simps)
  have "FormatOpenOpParamDataFromMsg (Some b) msg rank (of_nat (Suc i)) stm
      (ext_at x msg rank ext i, Some (param_at x msg rank ext i)) =
    (HCCL_SUCCESS, ext_at x msg rank ext (Suc i), Some (param_at x msg rank ext (Suc i)))" for stm
    unfolding FormatOpenOpParamDataFromMsg_def e p using nz t by (simp add: Let_def a2a_def)
  then show ?thesis
    using assms(1) by (cases "x_resourceType x")
      (auto simp del: of_nat_Suc simp: FormatOpParamFromMsg_def exec_ready_def b)
qed

text \<open>The tasks of one repetition.\<close>

definition repeat_tasks ::
  "ServerExecCtx \<Rightarrow> words \<Rightarrow> nat \<Rightarrow> ext_words \<Rightarrow> u64 \<Rightarrow> nat \<Rightarrow> u64 \<Rightarrow> nat \<Rightarrow> nat \<Rightarrow> task list" where
  "repeat_tasks x msg rank ext a msgPos turns n i =
     [CCoreNotifyWait (CommitCnt a msgPos) (turns + of_nat (Suc i) * 4) (Suc i = n), LaunchTask,
      KernelLaunch (param_at x msg rank ext i) (ext_at x msg rank ext i),
      CCoreNotifyRecord (FinishedCnt a msgPos) (turns + of_nat (Suc i) * 4), LaunchTask]"

lemma format_any:
  assumes "exec_ready env x" "i < 2 ^ 32"
    and "i = 0 \<and> pr = (ext, None) \<or>
      (\<exists>j. i = Suc j \<and> pr = (ext_at x msg rank ext j, Some (param_at x msg rank ext j)))"
  shows "FormatOpParamFromMsg msg x (of_nat i) rank pr =
    (HCCL_SUCCESS, ext_at x msg rank ext i, Some (param_at x msg rank ext i))"
  using assms format_first[OF assms(1)] format_next[OF assms(1)] by (auto simp del: of_nat_Suc)

lemma u32_turn: "i < 256 \<Longrightarrow> ucast (of_nat i + 1 :: u32) = (of_nat (Suc i) :: u64)"
proof -
  assume i: "i < 256"
  have "(of_nat i + 1 :: u32) = of_nat (Suc i)" by simp
  then have "ucast (of_nat i + 1 :: u32) = (of_nat (unat (of_nat (Suc i) :: u32)) :: u64)"
    by (simp del: of_nat_Suc)
  then show ?thesis using i by (simp add: unat_of_nat del: of_nat_Suc)
qed

lemma orchestrate_loop_ok:
  assumes "exec_ready env x" "n = unat (w_repeatCnt msg)" "i \<le> n" "rank = unat (s_rankNum sv)"
    and "i = 0 \<and> pr = (ext, None) \<or>
      (\<exists>j. i = Suc j \<and> pr = (ext_at x msg rank ext j, Some (param_at x msg rank ext j)))"
  shows "\<exists>pr'. orchestrate_loop env msg x a msgPos [i..<n] (pr, sv) =
    (HCCL_SUCCESS, pr', sv\<lparr>s_trace := s_trace sv @
       concat (map (repeat_tasks x msg rank ext a msgPos (s_turnNumsAddr sv) n) [i..<n])\<rparr>)"
  using assms(3-5)
proof (induction "n - i" arbitrary: i pr sv)
  case 0
  then show ?case by simp
next
  case (Suc k)
  let ?e = "ext_at x msg rank ext i" and ?p = "param_at x msg rank ext i"
  have n8: "n < 256" using assms(2) unsigned_less[of "w_repeatCnt msg", where ?'a = nat] by simp
  have i: "i < n" "i < 2 ^ 32" using Suc.hyps(2) n8 by simp_all
  have up: "[i..<n] = i # [Suc i..<n]" using i(1) by (simp add: upt_conv_Cons)
  have last: "((of_nat i + 1 :: u32) = ucast (w_repeatCnt msg)) = (Suc i = n)"
  proof -
    have "(of_nat i + 1 :: u32) = of_nat (Suc i)" "ucast (w_repeatCnt msg) = (of_nat n :: u32)"
      by (simp_all add: assms(2))
    moreover have "(of_nat (Suc i) = (of_nat n :: u32)) = (Suc i = n)"
      using i(1) n8 by (auto simp del: of_nat_Suc dest: arg_cong[where f = unat] simp: unat_of_nat)
    ultimately show ?thesis by (simp add: add.commute)
  qed
  let ?T = "repeat_tasks x msg rank ext a msgPos (s_turnNumsAddr sv) n"
  let ?sv = "sv\<lparr>s_trace := s_trace sv @ ?T i\<rparr>"
  have f: "FormatOpParamFromMsg msg x (of_nat i) (unat (s_rankNum sv)) pr = (HCCL_SUCCESS, ?e, Some ?p)"
    using format_any[OF assms(1) i(2) Suc.prems(3)] Suc.prems(2) by simp
  have t: "sv\<lparr>s_trace := s_trace sv @ ?T i\<rparr> =
      sv\<lparr>s_trace := (((s_trace sv @ [CCoreNotifyWait (CommitCnt a msgPos) (s_turnNumsAddr sv + ucast (of_nat i + 1 :: u32) * 4)
          (Suc i = n), LaunchTask]) @ [KernelLaunch ?p ?e]) @
        [CCoreNotifyRecord (FinishedCnt a msgPos) (s_turnNumsAddr sv + ucast (of_nat i + 1 :: u32) * 4), LaunchTask])\<rparr>"
  proof -
    have "ucast (of_nat i + 1 :: u32) = (of_nat (Suc i) :: u64)"
      by (metis u32_turn i(1) n8 less_trans)
    then show ?thesis by (simp add: repeat_tasks_def del: of_nat_Suc)
  qed
  have step: "orchestrate_loop env msg x a msgPos [i..<n] (pr, sv) =
      orchestrate_loop env msg x a msgPos [Suc i..<n] ((?e, Some ?p), ?sv)"
    unfolding up using assms(1)
    by (simp add: t f LaunchOpenCcoreWait_def LaunchOpenCcorePost_def launch_notify_ok last Let_def
        LaunchOpenAicpuKernelServer_def emit_ok exec_ready_def del: append_assoc)
  have "k = n - Suc i" using Suc.hyps(2) by simp
  from Suc.hyps(1)[OF this, of ?sv "(?e, Some ?p)"]
  have "\<exists>pr'. orchestrate_loop env msg x a msgPos [Suc i..<n] ((?e, Some ?p), ?sv) = (HCCL_SUCCESS, pr',
      ?sv\<lparr>s_trace := s_trace ?sv @ concat (map (repeat_tasks x msg rank ext a msgPos (s_turnNumsAddr ?sv) n) [Suc i..<n])\<rparr>)"
    using i(1) Suc.prems(2) by simp
  then show ?case unfolding step unfolding up by simp
qed

text \<open>The message's handle and the execution context it selects in a server with an area.\<close>

definition accepts :: "CommKfcAicpuServer \<Rightarrow> words \<Rightarrow> u64 \<Rightarrow> ServerExecCtx \<Rightarrow> bool" where
  "accepts sv msg a x \<longleftrightarrow> s_msgArea sv = Some a \<and> IsSupportedOp (w_commType msg) \<and>
     MatchExecCtx (w_ccOpTilingData msg) sv = Some x \<and> 0 \<le> sint (w_selfHandleID msg)"

lemma Orchestrate_ok:
  assumes "accepts sv msg a x" "exec_ready env x"
  shows "\<exists>ext'. Orchestrate env msg pos (ext, sv) = (HCCL_SUCCESS, ext', sv\<lparr>s_lastMsgTimestamp := n_now env,
    s_trace := s_trace sv @ concat (map (repeat_tasks x msg (unat (s_rankNum sv)) ext a pos (s_turnNumsAddr sv)
      (unat (w_repeatCnt msg))) [0..<unat (w_repeatCnt msg)]),
    s_handleIdToMsgPos := (s_handleIdToMsgPos sv)(sint (w_selfHandleID msg) \<mapsto> of_nat pos),
    s_handleIdToRepeat := (s_handleIdToRepeat sv)(sint (w_selfHandleID msg) \<mapsto> ucast (w_repeatCnt msg))\<rparr>)"
proof -
  let ?sv = "KeepAlive env sv"
  have n: "unat (ucast (w_repeatCnt msg) :: u32) = unat (w_repeatCnt msg)"
    using unsigned_less[of "w_repeatCnt msg", where ?'a = nat] by (simp add: unsigned_ucast_eq take_bit_nat_def)
  obtain e r where "orchestrate_loop env msg x a pos [0..<unat (w_repeatCnt msg)] ((ext, None), ?sv) =
    (HCCL_SUCCESS, (e, r), ?sv\<lparr>s_trace := s_trace sv @ concat (map (repeat_tasks x msg (unat (s_rankNum sv)) ext a pos
      (s_turnNumsAddr sv) (unat (w_repeatCnt msg))) [0..<unat (w_repeatCnt msg)])\<rparr>)"
    using orchestrate_loop_ok[OF assms(2) refl, of 0 msg "unat (s_rankNum sv)" ?sv "(ext, None)" ext a pos]
    by (auto simp: KeepAlive_def)
  then show ?thesis using assms(1)
    by (simp add: Orchestrate_def accepts_def Let_def n MatchExecCtx_def KeepAlive_def not_less)
qed

text \<open>
  C16: Tasks of a message. When a group's server accepts a message whose operator's context is
  ready, it launches, for each repetition \<open>i\<close> in order, a wait for turn \<open>i + 1\<close> on the
  commit counter of the message's position (the last one marked), the kernel with the
  parameters of repetition \<open>i\<close>, and the notification of turn \<open>i + 1\<close> on the finish counter
  of the same position, and then records the position and the repeat count under the
  message's handle.
\<close>
theorem Orchestrate_tasks:
  assumes "accepts sv msg a x" "exec_ready env x"
  shows "\<exists>ext'. Orchestrate env msg pos (ext, sv) = (HCCL_SUCCESS, ext', sv\<lparr>s_lastMsgTimestamp := n_now env,
    s_trace := s_trace sv @ concat (map (repeat_tasks x msg (unat (s_rankNum sv)) ext a pos (s_turnNumsAddr sv)
      (unat (w_repeatCnt msg))) [0..<unat (w_repeatCnt msg)]),
    s_handleIdToMsgPos := (s_handleIdToMsgPos sv)(sint (w_selfHandleID msg) \<mapsto> of_nat pos),
    s_handleIdToRepeat := (s_handleIdToRepeat sv)(sint (w_selfHandleID msg) \<mapsto> ucast (w_repeatCnt msg))\<rparr>)"
  by (rule Orchestrate_ok[OF assms])

subsection \<open>Failures\<close>

text \<open>\<open>sv'\<close> differs from \<open>sv\<close> only by tasks launched later.\<close>

definition extends :: "CommKfcAicpuServer \<Rightarrow> CommKfcAicpuServer \<Rightarrow> bool" where
  "extends sv sv' \<longleftrightarrow> (\<exists>tr. sv' = sv\<lparr>s_trace := s_trace sv @ tr\<rparr>)"

lemma extends_refl [simp, intro]: "extends sv sv"
  unfolding extends_def by (rule exI[of _ "[]"]) simp

lemma extends_trans [trans]: "extends a b \<Longrightarrow> extends b c \<Longrightarrow> extends a c"
  unfolding extends_def by auto

lemma extends_emit: "extends sv (snd (emit env t sv))" "extends sv (snd (emit_catch env t sv))"
  by (auto simp: emit_def emit_catch_def extends_def Let_def intro: exI[of _ "[]"])

lemma extends_chk:
  assumes "extends s (snd m)" "\<And>s'. extends s' (snd (k s'))"
  shows "extends s (snd (chk_ret m k))"
  using assms by (cases m) (auto intro: extends_trans)

lemma extends_chk2:
  assumes "extends sv (snd (snd m))" "\<And>pr s. extends s (snd (snd (k (pr, s))))"
  shows "extends sv (snd (snd (chk_ret m k)))"
  using assms by (cases m) (auto intro: extends_trans)

lemma extends_launch: "extends sv (snd (launch_notify env x t sv))"
  unfolding launch_notify_def by (auto intro!: extends_chk extends_emit)

lemma extends_loop: "extends sv (snd (snd (orchestrate_loop env msg x a pos is (pr, sv))))"
proof (induction "is" arbitrary: pr sv)
  case Nil
  then show ?case by simp
next
  case (Cons i "is")
  have K: "extends sv (snd (LaunchOpenAicpuKernelServer env (snd pr) (fst pr) sv))" for sv pr
    by (simp add: LaunchOpenAicpuKernelServer_def extends_emit split: option.split)
  have L: "extends sv (snd (LaunchOpenCcoreWait env x c t u l sv))"
    "extends sv (snd (LaunchOpenCcorePost env x c t u sv))" for c t u l sv
    by (simp_all add: LaunchOpenCcoreWait_def LaunchOpenCcorePost_def extends_launch)
  have P: "extends sv (snd (snd (case y of (r, s) \<Rightarrow> (r, pr, s))))" if "extends sv (snd y)"
    for y :: "HcclResult \<times> CommKfcAicpuServer" and pr :: "ext_words \<times> OpParam option" and sv
    using that by (cases y) simp
  have F: "extends sv (snd (snd (case y of (r, pr) \<Rightarrow> (r, pr, sv))))"
    for y :: "HcclResult \<times> ext_words \<times> OpParam option" and sv by (cases y) simp
  show ?case
    unfolding orchestrate_loop.simps Let_def
    by (intro extends_chk2 F) (simp, intro extends_chk2 P K L Cons.IH; simp?; intro extends_chk2 P K L Cons.IH;
       simp?; intro extends_chk2 P K L Cons.IH; simp)
qed

text \<open>
  C17: Messages that are not orchestrated. A message whose operation is not supported, whose
  operator the host has not registered, whose handle is negative, or which comes before
  the group has a message area is answered with an error and launches nothing; and whatever
  the reason of a failure, the handle tables other groups synchronise on keep their
  entries and the launched tasks stay a prefix of the trace.
\<close>
theorem Orchestrate_errors:
  "((\<nexists>a x. accepts sv msg a x) \<longrightarrow>
      fst (Orchestrate env msg pos (ext, sv)) \<in> {HCCL_E_PTR, HCCL_E_PARA, HCCL_E_INTERNAL} \<and>
      snd (Orchestrate env msg pos (ext, sv)) = (ext, KeepAlive env sv)) \<and>
   (fst (Orchestrate env msg pos (ext, sv)) \<noteq> HCCL_SUCCESS \<longrightarrow>
      extends (KeepAlive env sv) (snd (snd (Orchestrate env msg pos (ext, sv)))))"
proof (intro conjI impI)
  have [simp]: "s_msgArea (KeepAlive env sv) = s_msgArea sv" "MatchExecCtx k (KeepAlive env sv) = MatchExecCtx k sv" for k
    by (simp_all add: KeepAlive_def MatchExecCtx_def)
  {
    assume "\<nexists>a x. accepts sv msg a x"
    then show "fst (Orchestrate env msg pos (ext, sv)) \<in> {HCCL_E_PTR, HCCL_E_PARA, HCCL_E_INTERNAL}"
      "snd (Orchestrate env msg pos (ext, sv)) = (ext, KeepAlive env sv)"
      by (auto simp: Orchestrate_def accepts_def Let_def split: option.split)
  }
  assume "fst (Orchestrate env msg pos (ext, sv)) \<noteq> HCCL_SUCCESS"
  then show "extends (KeepAlive env sv) (snd (snd (Orchestrate env msg pos (ext, sv))))"
    using extends_loop[of "KeepAlive env sv" env msg _ _ pos _ "(ext, None)"]
    by (auto simp: Orchestrate_def Let_def split: option.splits prod.splits if_splits)
      (metis snd_conv)+
qed

text \<open>A server with one ready context on the new resource type.\<close>

definition base0 :: OpParam where
  "base0 = \<lparr>op_base = 0, op_opType = HCCL_CMD_ALLGATHER, op_inputPtr = 0, op_outputPtr = 0, op_reduceType = 0,
     op_stream = 9, op_data = DataDes 0 0 0 0\<rparr>"

definition exec0 :: ServerExecCtx where
  "exec0 = \<lparr>x_offset = 8, x_opParamKey = 77, x_commName = ''g'', x_baseOpParam = Some base0,
     x_resourceType = NEXT_AICPU, x_mainStream = None, x_mainThread = 5\<rparr>"

definition senv0 :: server_env where
  "senv0 = \<lparr>n_server_only = False, n_answer = (\<lambda>_ _. HCCL_SUCCESS), n_streamLite = (\<lambda>_. True),
     n_loadParam = (\<lambda>_. (''g'', Some base0)), n_isDevice950 = (HCCL_SUCCESS, True), n_commMgr = (\<lambda>_. True),
     n_collComm = (\<lambda>_. True), n_mainThread = (\<lambda>_. (HCCL_SUCCESS, 5)), n_commAicpu = (\<lambda>_. None),
     n_checkFinish = (\<lambda>_. False), n_taskNormal = (\<lambda>_. True), n_releaseComm = (\<lambda>_. HCCL_SUCCESS), n_now = 0\<rparr>"

definition sv0 :: CommKfcAicpuServer where
  "sv0 = (new_server 0)\<lparr>s_execCtxList := [exec0], s_syncExecCtx := Some exec0, s_msgArea := Some 4096,
     s_turnNumsAddr := 8192, s_rankNum := 4\<rparr>"

definition msg0 :: "u8 \<Rightarrow> words" where
  "msg0 q = fst (AssembleHcclMsg sample_param CONTEXT_DECOUPLE_VERSION 5 77
     (\<lambda>_. 0, \<lparr>primitiveId = q, isResetPrimitiveId = False\<rparr>, idle_ctl))"

lemma msg0_v1: "v1_message sample_param 5 77 q CONTEXT_DECOUPLE_VERSION (msg0 q)"
  using v1_fields[OF refl, where param = sample_param and handle = 5 and tiling = 77 and ver = CONTEXT_DECOUPLE_VERSION]
  by (simp add: msg0_def AssembleHcclMsg_def reset_seq_def idle_ctl_def sample_param_def cmd_codes Let_def)

lemma msg0_fields: "w_commType (msg0 q) = 6" "w_ccOpTilingData (msg0 q) = 77" "w_selfHandleID (msg0 q) = 5"
  "w_repeatCnt (msg0 q) = 2" "w_seqNum (msg0 q) = q" "w_dataCnt (msg0 q) = 7" "w_hcclDataType (msg0 q) = 3"
  "w_sendBuffer (msg0 q) = 0x100000000" "w_recvBuffer (msg0 q) = 0x200000000"
  using msg0_v1[of q] by (simp_all add: v1_message_def sample_param_def cmd_codes)

lemma sv0_fields: "s_timeout sv0 = 30" "s_lastMsgTimestamp sv0 = 0" "s_msgArea sv0 = Some 4096" "s_trace sv0 = []"
  "s_opHandles sv0 = []" "s_syncExecCtx sv0 = Some exec0" "s_rankNum sv0 = 4" "s_turnNumsAddr sv0 = 8192"
  by (simp_all add: sv0_def new_server_def)

lemma exec0_ready: "exec_ready senv0 exec0"
  by (simp add: exec_ready_def senv0_def exec0_def)

lemma sv0_accepts: "accepts sv0 (msg0 q) 4096 exec0"
  by (simp add: accepts_def sv0_def new_server_def msg0_fields IsSupportedOp_def SUPPORT_OP_LIST_def cmd_codes
      MatchExecCtx_def exec0_def)

theorem Orchestrate_tasks_witness:
  "\<exists>ext' sv'. Orchestrate senv0 (msg0 0) 3 (\<lambda>_. 0, sv0) = (HCCL_SUCCESS, ext', sv') \<and>
     length (s_trace sv') = 10 \<and> s_handleIdToMsgPos sv' 5 = Some 3 \<and> s_handleIdToRepeat sv' 5 = Some 2"
  using Orchestrate_tasks[OF sv0_accepts exec0_ready, of 0 3 "\<lambda>_. 0"]
  by (auto simp: msg0_fields repeat_tasks_def upt_rec sv0_def new_server_def)

theorem Orchestrate_errors_witness:
  "fst (Orchestrate senv0 (\<lambda>_. 0) 3 (\<lambda>_. 0, sv0)) \<noteq> HCCL_SUCCESS \<and>
   snd (Orchestrate senv0 (\<lambda>_. 0) 3 (\<lambda>_. 0, sv0)) = (\<lambda>_. 0, KeepAlive senv0 sv0)"
proof -
  have "\<nexists>a x. accepts sv0 (\<lambda>_. 0) a x"
    by (simp add: accepts_def IsSupportedOp_def SUPPORT_OP_LIST_def cmd_codes w_fields)
  then show ?thesis using Orchestrate_errors[of sv0 "\<lambda>_. 0" senv0 3 "\<lambda>_. 0"] by auto
qed

subsection \<open>Parameters of the repetitions\<close>

lemma advance_loop:
  "k \<le> 256 \<Longrightarrow> j < 256 \<Longrightarrow>
    advance_ext k d (ext_sendOffset + j) = d (ext_sendOffset + j) + (if j < k then d (ext_sendCounts + j) else 0) \<and>
    advance_ext k d (ext_recvOffset + j) = d (ext_recvOffset + j) + (if j < k then d (ext_recvCounts + j) else 0) \<and>
    advance_ext k d (ext_sendCounts + j) = d (ext_sendCounts + j) \<and>
    advance_ext k d (ext_recvCounts + j) = d (ext_recvCounts + j)"
  by (induction k) (auto simp: advance_ext_def ext_layout Let_def less_Suc_eq)

lemma advance_pow:
  assumes "rank \<le> 256" "j < rank"
  shows "(advance_ext rank ^^ i) d (ext_sendOffset + j) = d (ext_sendOffset + j) + of_nat i * d (ext_sendCounts + j) \<and>
    (advance_ext rank ^^ i) d (ext_recvOffset + j) = d (ext_recvOffset + j) + of_nat i * d (ext_recvCounts + j) \<and>
    (advance_ext rank ^^ i) d (ext_sendCounts + j) = d (ext_sendCounts + j) \<and>
    (advance_ext rank ^^ i) d (ext_recvCounts + j) = d (ext_recvCounts + j)"
  using assms by (induction i) (simp_all add: advance_loop algebra_simps)

text \<open>
  C18: AlltoAllV and AlltoAll repetitions. For at most 256 ranks, the kernel of repetition \<open>i\<close>
  of an AlltoAllV message gets each rank's send and receive offsets advanced by \<open>i\<close> times
  the rank's counts, with the counts unchanged; a message of an operator the host
  registered as AlltoAll gets for every rank the message's count and rank \<open>j\<close>'s block at
  \<open>j\<close> strides (the count when the stride is zero), advanced by \<open>i\<close> counts.
\<close>
theorem alltoall_repetitions:
  assumes "x_baseOpParam x = Some b" "a2a msg" "rank \<le> 256" "j < rank"
  shows "if op_opType b = HCCL_CMD_ALLTOALL
    then ext_at x msg rank ext i (ext_sendCounts + j) = w_dataCnt msg \<and>
      ext_at x msg rank ext i (ext_recvCounts + j) = w_dataCnt msg \<and>
      ext_at x msg rank ext i (ext_sendOffset + j) =
        (if w_strideCount msg > 0 then w_strideCount msg else w_dataCnt msg) * of_nat j + of_nat i * w_dataCnt msg \<and>
      ext_at x msg rank ext i (ext_recvOffset + j) =
        (if w_strideCount msg > 0 then w_strideCount msg else w_dataCnt msg) * of_nat j + of_nat i * w_dataCnt msg
    else ext_at x msg rank ext i (ext_sendCounts + j) = ext (ext_sendCounts + j) \<and>
      ext_at x msg rank ext i (ext_recvCounts + j) = ext (ext_recvCounts + j) \<and>
      ext_at x msg rank ext i (ext_sendOffset + j) = ext (ext_sendOffset + j) + of_nat i * ext (ext_sendCounts + j) \<and>
      ext_at x msg rank ext i (ext_recvOffset + j) = ext (ext_recvOffset + j) + of_nat i * ext (ext_recvCounts + j)"
proof -
  let ?e = "snd (CreateOpParamByBaseOpParam b msg rank (stream_of x) ext)"
  have e: "?e = (if op_opType b = HCCL_CMD_ALLTOALL then alltoall_ext msg rank ext else ext)"
    by (simp add: CreateOpParamByBaseOpParam_def Let_def)
  have "k \<le> 256 \<Longrightarrow> j < k \<Longrightarrow> alltoall_ext msg k ext (ext_sendCounts + j) = w_dataCnt msg \<and>
      alltoall_ext msg k ext (ext_recvCounts + j) = w_dataCnt msg \<and>
      alltoall_ext msg k ext (ext_sendOffset + j) =
        (if w_strideCount msg > 0 then w_strideCount msg else w_dataCnt msg) * of_nat j \<and>
      alltoall_ext msg k ext (ext_recvOffset + j) =
        (if w_strideCount msg > 0 then w_strideCount msg else w_dataCnt msg) * of_nat j" for k
    by (induction k) (auto simp: alltoall_ext_def ext_layout Let_def less_Suc_eq)
  from this[OF assms(3,4)] show ?thesis
    using assms(1,2) advance_pow[OF assms(3,4), of i "alltoall_ext msg rank ext"]
      advance_pow[OF assms(3,4), of i ext]
    by (cases "op_opType b = HCCL_CMD_ALLTOALL") (simp_all add: ext_at_def e Let_def)
qed

theorem alltoall_repetitions_witness:
  "ext_at exec0 ((msg0 0)(0 := HCCL_CMD_ALLTOALLV)) 4 (\<lambda>k. of_nat k) 3 (ext_sendOffset + 2) = 258 + 3 * 2"
proof -
  have "a2a ((msg0 0)(0 := HCCL_CMD_ALLTOALLV))" "x_baseOpParam exec0 = Some base0"
    "op_opType base0 \<noteq> HCCL_CMD_ALLTOALL"
    by (simp_all add: a2a_def w_commType_def exec0_def base0_def cmd_codes)
  from alltoall_repetitions[OF this(2,1), of 4 2 "\<lambda>k. of_nat k" 3] this(3) show ?thesis
    by (simp add: ext_layout)
qed

section \<open>Time-outs\<close>

text \<open>Polls without a message: the results of the checks, up to the clock of each poll.\<close>

fun idle_checks :: "server_env list \<Rightarrow> CommKfcAicpuServer \<Rightarrow> HcclResult list" where
  "idle_checks [] sv = []"
| "idle_checks (e # es) sv = (case CheckTimeOut e sv of (r, sv') \<Rightarrow> r # idle_checks es sv')"

definition idle_ns :: "CommKfcAicpuServer \<Rightarrow> server_env \<Rightarrow> nat" where
  "idle_ns sv env = unat (n_now env - s_lastMsgTimestamp sv)"

lemma CheckTimeOut_case:
  assumes "s_timeout sv = 30 * 2 ^ m" "m \<le> 2"
  shows "CheckTimeOut env sv =
    (if idle_ns sv env < 30 * 2 ^ m * 10 ^ 9 then (HCCL_SUCCESS, sv)
     else (if m < 2 then HCCL_E_AGAIN else HCCL_E_TIMEOUT, sv\<lparr>s_timeout := 30 * 2 ^ Suc m\<rparr>))"
proof -
  consider "m = 0" | "m = 1" | "m = 2" using assms(2) by linarith
  then show ?thesis using assms
    by cases (auto simp: CheckTimeOut_def IsTimeout_def idle_ns_def KFC_NSEC_PER_SEC_def TIMEOUT_ERROR_THRESHOLD_def
      word_le_nat_alt not_le not_less)
qed

lemma idle_checks_from:
  assumes "s_timeout sv = 30 * 2 ^ m" "m \<le> 2" "k < length es" "HCCL_E_TIMEOUT \<notin> set (take k (idle_checks es sv))"
  shows "m + count_list (take k (idle_checks es sv)) HCCL_E_AGAIN \<le> 2 \<and>
    idle_checks es sv ! k =
     (if idle_ns sv (es ! k) < 30 * 2 ^ (m + count_list (take k (idle_checks es sv)) HCCL_E_AGAIN) * 10 ^ 9
      then HCCL_SUCCESS
      else if m + count_list (take k (idle_checks es sv)) HCCL_E_AGAIN < 2 then HCCL_E_AGAIN else HCCL_E_TIMEOUT)"
  using assms
proof (induction es arbitrary: sv m k)
  case Nil
  then show ?case by simp
next
  case (Cons e es)
  note c = CheckTimeOut_case[OF Cons.prems(1,2), of e]
  show ?case
  proof (cases k)
    case 0
    then show ?thesis using Cons.prems(2) by (simp add: c)
  next
    case (Suc k')
    have i: "idle_ns (sv\<lparr>s_timeout := t\<rparr>) e' = idle_ns sv e'" for t e' by (simp add: idle_ns_def)
    show ?thesis
    proof (cases "idle_ns sv e < 30 * 2 ^ m * 10 ^ 9")
      case True
      then have "idle_checks (e # es) sv = HCCL_SUCCESS # idle_checks es sv" by (simp add: c)
      then show ?thesis using Cons.IH[OF Cons.prems(1,2), of k'] Cons.prems(3,4) Suc by simp
    next
      case False
      then have "m < 2" "idle_checks (e # es) sv = HCCL_E_AGAIN # idle_checks es (sv\<lparr>s_timeout := 30 * 2 ^ Suc m\<rparr>)"
        using Cons.prems(4) Suc by (auto simp: c split: if_splits)
      then show ?thesis
        using Cons.IH[of "sv\<lparr>s_timeout := 30 * 2 ^ Suc m\<rparr>" "Suc m" k'] Cons.prems(3,4) Suc by (simp add: i)
    qed
  qed
qed

text \<open>
  Time-outs of an idle group. Polling a fresh server (30 seconds) without a message, the
  check after \<open>n\<close> earlier warnings succeeds while the group has been idle for less than
  \<open>30 * 2 ^ n\<close> seconds; from then on it warns if \<open>n < 2\<close> and fails with a time-out if
  \<open>n = 2\<close>. So a time-out is never reported before 120 idle seconds or before two warnings.
\<close>
theorem timeout_schedule:
  assumes "s_timeout sv = 30" "k < length es" "HCCL_E_TIMEOUT \<notin> set (take k (idle_checks es sv))"
    and "n = count_list (take k (idle_checks es sv)) HCCL_E_AGAIN"
  shows "n \<le> 2 \<and> idle_checks es sv ! k =
    (if idle_ns sv (es ! k) < 30 * 2 ^ n * 10 ^ 9 then HCCL_SUCCESS else if n < 2 then HCCL_E_AGAIN else HCCL_E_TIMEOUT)"
  using idle_checks_from[of sv 0 k es] assms by simp

theorem timeout_schedule_witness:
  "let e = senv0\<lparr>n_now := 200000000000\<rparr> in idle_checks [e, e, e] sv0 ! 2 = HCCL_E_TIMEOUT"
proof -
  let ?e = "senv0\<lparr>n_now := 200000000000\<rparr>"
  have t: "take 2 (idle_checks [?e, ?e, ?e] sv0) = [HCCL_E_AGAIN, HCCL_E_AGAIN]"
    by (simp add: CheckTimeOut_def IsTimeout_def sv0_def new_server_def
        KFC_NSEC_PER_SEC_def TIMEOUT_ERROR_THRESHOLD_def)
  show ?thesis using timeout_schedule[of sv0 2 "[?e, ?e, ?e]" 2]
    by (simp add: t idle_ns_def sv0_fields Let_def del: idle_checks.simps)
qed

end
