(* ===== verification/Mc2Dispatch.thy ===== *)
theory Mc2Dispatch
  imports Mc2Server
begin

text \<open>
  The dispatcher of the MC2 server kernel (comm_kfc_dispatcher.cc): it creates one server per
  communication group, polls the groups' message areas in turn, and returns when every
  group has been finalized. The message areas are a memory the clients write between polls.
\<close>

section \<open>The dispatcher\<close>

record AscCommServerInfo =
  d_server :: CommKfcAicpuServer
  d_msg :: words
  d_ext :: ext_words
  d_msgPos :: nat
  d_retryCnt :: u32
  d_finalizeFlag :: bool
  d_finishFlag :: bool

definition new_info :: "u32 \<Rightarrow> AscCommServerInfo" where
  "new_info groupIdx =
     \<lparr>d_server = new_server groupIdx, d_msg = (\<lambda>_. 0), d_ext = (\<lambda>_. 0), d_msgPos = 0, d_retryCnt = 0,
      d_finalizeFlag = False, d_finishFlag = False\<rparr>"

definition MAX_RETRY_CNT :: u32 where "MAX_RETRY_CNT = 10"

text \<open>
  One server per distinct workspace, in the order the workspaces first appear. The server a
  group's synchronisation context points into is the one in the list.
\<close>

fun create_loop ::
  "server_env \<Rightarrow> u64 \<Rightarrow> OpResCtx option list \<Rightarrow> (u64 \<Rightarrow> nat option) \<times> AscCommServerInfo list
    \<Rightarrow> HcclResult \<times> AscCommServerInfo list" where
  "create_loop env areaSize [] (w2s, servers) = (HCCL_SUCCESS, servers)"
| "create_loop env areaSize (arg # args) (w2s, servers) =
     (case arg of
        None \<Rightarrow> (HCCL_E_PTR, servers)
      | Some ctx \<Rightarrow>
          case (case w2s (oc_workspace ctx) of
                  None \<Rightarrow> (length servers, w2s(oc_workspace ctx \<mapsto> length servers),
                           servers @ [new_info (of_nat (length servers))])
                | Some k \<Rightarrow> (k, w2s, servers)) of
            (k, w2s, servers) \<Rightarrow>
              case AddOpContext env areaSize ctx (d_server (servers ! k)) of (r, sv) \<Rightarrow>
                let servers = servers[k := (servers ! k)\<lparr>d_server := sv\<rparr>] in
                if r \<noteq> HCCL_SUCCESS then (HCCL_E_INTERNAL, servers)
                else create_loop env areaSize args (w2s, servers))"

definition CreateServerList ::
  "server_env \<Rightarrow> u64 \<Rightarrow> OpResCtx option list \<Rightarrow> HcclResult \<times> AscCommServerInfo list" where
  "CreateServerList env areaSize args =
     (if args = [] then (HCCL_E_PARA, []) else create_loop env areaSize args (\<lambda>_. None, []))"

text \<open>\<open>None\<close> is an access through the null address of a message area.\<close>

definition GetCurrentMsg :: "areas \<times> AscCommServerInfo \<Rightarrow> (HcclResult \<times> areas \<times> AscCommServerInfo) option" where
  "GetCurrentMsg s =
     (case s of (mem, d) \<Rightarrow>
      if d_retryCnt d > 0 then
        Some (if d_retryCnt d > MAX_RETRY_CNT then HCCL_E_INTERNAL else HCCL_SUCCESS, mem, d)
      else (case s_msgArea (d_server d) of
          None \<Rightarrow> None
        | Some a \<Rightarrow> Some (
            case ReadMsgFromMemory (sendMsgs (mem a) (d_msgPos d)) (d_msg d) of (ret, slot, msg) \<Rightarrow>
            let mem = mem(a := (mem a)\<lparr>sendMsgs := (sendMsgs (mem a))(d_msgPos d := slot)\<rparr>);
                d = d\<lparr>d_msg := msg\<rparr> in
            if ret \<noteq> HCCL_SUCCESS then (ret, mem, d)
            else if w_commType msg = HCCL_CMD_ALLTOALLV then
              (case ReadMsgFromMemory_ext (paramExtMsgList (mem a) (d_msgPos d))
                      (unat (s_rankNum (d_server d))) (d_ext d) of (ret, blk, ext) \<Rightarrow>
                (ret, mem(a := (mem a)\<lparr>paramExtMsgList := (paramExtMsgList (mem a))(d_msgPos d := blk)\<rparr>),
                 d\<lparr>d_ext := ext\<rparr>))
            else (ret, mem, d))))"

definition FinalizeProcess :: "server_env \<Rightarrow> AscCommServerInfo \<Rightarrow> HcclResult \<times> AscCommServerInfo" where
  "FinalizeProcess env d =
     (case server_Finalize env (d_msgPos d) (d_server d) of (r, sv) \<Rightarrow>
        let d = d\<lparr>d_server := sv\<rparr> in
        if r \<noteq> HCCL_SUCCESS then (r, d) else (HCCL_SUCCESS, d\<lparr>d_finalizeFlag := True\<rparr>))"

definition InterGroupSyncProcess ::
  "server_env \<Rightarrow> nat \<Rightarrow> AscCommServerInfo list \<Rightarrow> HcclResult \<times> AscCommServerInfo list" where
  "InterGroupSyncProcess env cur servers =
     (let d = servers ! cur;
          groupId = scast (w_commDepGroupID (d_msg d)) :: u32;
          handleId = sint (w_commDepHandleID (d_msg d)) in
      if unat groupId \<ge> length servers \<or> unat groupId = cur \<or> handleId < 0 then (HCCL_E_PARA, servers)
      else case InterGroupSync env (d_server (servers ! unat groupId)) handleId (d_server d) of (ret, sv) \<Rightarrow>
        let d = d\<lparr>d_server := sv\<rparr> in
        if ret = HCCL_SUCCESS then
          (HCCL_SUCCESS, servers[cur := d\<lparr>d_retryCnt := 0, d_msgPos := (d_msgPos d + 1) mod HCCL_MSG_CNT\<rparr>])
        else if ret = HCCL_E_AGAIN then
          (HCCL_SUCCESS, servers[cur := d\<lparr>d_retryCnt := d_retryCnt d + 1\<rparr>])
        else (ret, servers[cur := d]))"

definition PrepareProcess ::
  "server_env \<Rightarrow> AscCommServerInfo \<times> u32 \<Rightarrow> HcclResult \<times> AscCommServerInfo \<times> u32" where
  "PrepareProcess env s =
     (case s of (d, expectSeqNum) \<Rightarrow>
      if expectSeqNum \<noteq> ucast (w_seqNum (d_msg d))
      then (HCCL_SUCCESS, d\<lparr>d_retryCnt := d_retryCnt d + 1\<rparr>, expectSeqNum)
      else case Orchestrate env (d_msg d) (d_msgPos d) (d_ext d, d_server d) of (r, ext, sv) \<Rightarrow>
        let d = d\<lparr>d_ext := ext, d_server := sv\<rparr> in
        if r \<noteq> HCCL_SUCCESS then (r, d, expectSeqNum)
        else (HCCL_SUCCESS, d\<lparr>d_msgPos := (d_msgPos d + 1) mod HCCL_MSG_CNT, d_retryCnt := 0\<rparr>,
              expectSeqNum + 1))"

record dstate =
  d_list :: "AscCommServerInfo list"
  d_expect :: u32
  d_finish :: u32
  d_mem :: areas

definition check_timeout_at :: "server_env \<Rightarrow> nat \<Rightarrow> dstate \<Rightarrow> HcclResult \<times> dstate" where
  "check_timeout_at env g ds =
     (case CheckTimeOut env (d_server (d_list ds ! g)) of (r, sv) \<Rightarrow>
        (r, ds\<lparr>d_list := (d_list ds)[g := (d_list ds ! g)\<lparr>d_server := sv\<rparr>]\<rparr>))"

definition finalized_step :: "server_env \<Rightarrow> nat \<Rightarrow> dstate \<Rightarrow> HcclResult \<times> dstate" where
  "finalized_step env g ds =
     (let d = d_list ds ! g in
      case IsAllTaskFinished env (d_msgPos d) (d_server d) (False, d_mem ds) of (r, isFinish, mem) \<Rightarrow>
        let ds = ds\<lparr>d_mem := mem\<rparr> in
        if r \<noteq> HCCL_SUCCESS then (r, ds)
        else if isFinish then
          (HCCL_SUCCESS, ds\<lparr>d_list := (d_list ds)[g := d\<lparr>d_finishFlag := True\<rparr>], d_finish := d_finish ds + 1\<rparr>)
        else check_timeout_at env g ds)"

definition message_step :: "server_env \<Rightarrow> nat \<Rightarrow> dstate \<Rightarrow> HcclResult \<times> dstate" where
  "message_step env g ds =
     (let d = d_list ds ! g in
      if w_commType (d_msg d) = HCCL_CMD_FINALIZE then
        (case FinalizeProcess env d of (r, d) \<Rightarrow> (r, ds\<lparr>d_list := (d_list ds)[g := d]\<rparr>))
      else if w_commType (d_msg d) = HCCL_CMD_INTER_GROUP_SYNC then
        (case InterGroupSyncProcess env g (d_list ds) of (r, ls) \<Rightarrow> (r, ds\<lparr>d_list := ls\<rparr>))
      else (case PrepareProcess env (d, d_expect ds) of (r, d, e) \<Rightarrow>
        (r, ds\<lparr>d_list := (d_list ds)[g := d], d_expect := e\<rparr>)))"

definition GroupServerProcess :: "server_env \<Rightarrow> nat \<Rightarrow> dstate \<Rightarrow> (HcclResult \<times> dstate) option" where
  "GroupServerProcess env g ds =
     (let d = d_list ds ! g in
      if d_finishFlag d then Some (HCCL_SUCCESS, ds)
      else if d_finalizeFlag d then Some (finalized_step env g ds)
      else (case GetCurrentMsg (d_mem ds, d) of
          None \<Rightarrow> None
        | Some (ret, mem, d) \<Rightarrow>
            let ds = ds\<lparr>d_mem := mem, d_list := (d_list ds)[g := d]\<rparr> in
            Some (if ret = HCCL_E_AGAIN then check_timeout_at env g ds
                  else if ret \<noteq> HCCL_SUCCESS then (ret, ds)
                  else message_step env g ds)))"

text \<open>
  The polling loop. Between two polls the clients write to the message areas: \<open>ev t\<close> gives
  the services and the clients' writes before the \<open>t\<close>-th poll. The loop has fuel, since it may
  run for ever.
\<close>

datatype 'a outcome = Crash | OutOfFuel | Returned 'a

type_synonym events = "nat \<Rightarrow> server_env \<times> (areas \<Rightarrow> areas)"

fun poll_groups :: "events \<Rightarrow> nat list \<Rightarrow> nat \<times> dstate \<Rightarrow> (HcclResult \<times> nat \<times> dstate) option" where
  "poll_groups ev [] s = Some (HCCL_SUCCESS, s)"
| "poll_groups ev (g # gs) (t, ds) =
     (case ev t of (env, upd) \<Rightarrow>
      case GroupServerProcess env g (ds\<lparr>d_mem := upd (d_mem ds)\<rparr>) of
        None \<Rightarrow> None
      | Some (ret, ds) \<Rightarrow>
          let r = ErrorDfxProcess env ret (d_server (d_list ds ! g)) in
          if r \<noteq> HCCL_SUCCESS then Some (r, t + 1, ds) else poll_groups ev gs (t + 1, ds))"

fun run_loop :: "nat \<Rightarrow> events \<Rightarrow> nat \<times> dstate \<Rightarrow> (HcclResult \<times> dstate) outcome" where
  "run_loop 0 ev s = OutOfFuel"
| "run_loop (Suc fuel) ev (t, ds) =
     (if unat (d_finish ds) = length (d_list ds) then Returned (HCCL_SUCCESS, ds)
      else case poll_groups ev [0..<length (d_list ds)] (t, ds) of
        None \<Rightarrow> Crash
      | Some (r, t, ds) \<Rightarrow> if r \<noteq> HCCL_SUCCESS then Returned (r, ds) else run_loop fuel ev (t, ds))"

definition Run ::
  "nat \<Rightarrow> server_env \<Rightarrow> u64 \<Rightarrow> OpResCtx option list \<Rightarrow> events \<Rightarrow> areas \<Rightarrow> (HcclResult \<times> dstate) outcome" where
  "Run fuel env areaSize args ev mem =
     (case CreateServerList env areaSize args of (r, servers) \<Rightarrow>
        let ds = \<lparr>d_list = servers, d_expect = 0, d_finish = 0, d_mem = mem\<rparr> in
        if r \<noteq> HCCL_SUCCESS then Returned (r, ds) else run_loop fuel ev (0, ds))"

section \<open>The polling invariant\<close>

text \<open>One poll of one group that does not end the loop.\<close>

inductive poll_step :: "dstate \<Rightarrow> dstate \<Rightarrow> bool" where
  poll: "g < length (d_list ds) \<Longrightarrow>
    GroupServerProcess env g (ds\<lparr>d_mem := mem\<rparr>) = Some (r, ds') \<Longrightarrow>
    ErrorDfxProcess env r (d_server (d_list ds' ! g)) = HCCL_SUCCESS \<Longrightarrow> poll_step ds ds'"

definition info_ok :: "AscCommServerInfo \<Rightarrow> bool" where
  "info_ok d \<longleftrightarrow> s_opHandles (d_server d) = [] \<and> d_msgPos d < HCCL_MSG_CNT \<and> d_retryCnt d \<le> 11 \<and>
     s_timeout (d_server d) \<in> {30, 60, 120} \<and>
     (d_finishFlag d \<longrightarrow> d_finalizeFlag d \<and> is_next (d_server d) \<and> s_msgArea (d_server d) \<noteq> None)"

definition dinv :: "dstate \<Rightarrow> bool" where
  "dinv ds \<longleftrightarrow> (\<forall>d\<in>set (d_list ds). info_ok d) \<and>
     unat (d_finish ds) = length (filter d_finishFlag (d_list ds)) \<and> length (d_list ds) < 2 ^ 32"

text \<open>What a server never changes while it serves.\<close>

definition same_base :: "CommKfcAicpuServer \<Rightarrow> CommKfcAicpuServer \<Rightarrow> bool" where
  "same_base sv sv' \<longleftrightarrow> s_opHandles sv' = s_opHandles sv \<and> s_timeout sv' = s_timeout sv \<and>
     s_syncExecCtx sv' = s_syncExecCtx sv \<and> s_msgArea sv' = s_msgArea sv \<and> s_execCtxList sv' = s_execCtxList sv"

lemma same_base_refl [simp]: "same_base sv sv" by (simp add: same_base_def)

lemma same_base_extends: "extends sv sv' \<Longrightarrow> same_base sv sv'"
  by (auto simp: extends_def same_base_def)

lemma same_base_trans: "same_base a b \<Longrightarrow> same_base b c \<Longrightarrow> same_base a c"
  by (simp add: same_base_def)

lemma same_base_KeepAlive [simp]: "same_base sv (KeepAlive env sv)"
  by (simp add: same_base_def KeepAlive_def)

lemma same_base_Orchestrate: "same_base sv (snd (snd (Orchestrate env msg pos (ext, sv))))"
proof -
  have "same_base sv sv'" if "extends (KeepAlive env sv) sv'" for sv'
    by (rule same_base_trans[OF same_base_KeepAlive same_base_extends[OF that]])
  moreover have "same_base sv (sv'\<lparr>s_handleIdToMsgPos := f, s_handleIdToRepeat := g\<rparr>)" if "same_base sv sv'" for sv' f g
    using that by (simp add: same_base_def)
  moreover note extends_loop[of "KeepAlive env sv" env msg _ _ pos _ "(ext, None)"]
  ultimately show ?thesis
    by (auto simp: Orchestrate_def Let_def split: option.split prod.split)
      (metis snd_conv)+
qed

lemma same_base_InterGroupSync: "same_base sv (snd (InterGroupSync env other h sv))"
proof -
  have e: "same_base sv sv'" if "extends (KeepAlive env sv) sv'" for sv'
    by (rule same_base_trans[OF same_base_KeepAlive same_base_extends[OF that]])
  show ?thesis
    by (auto simp: InterGroupSync_def Let_def LaunchOpenCcoreWait_def split: option.split prod.split sum.split list.split
        intro: e extends_launch extends_emit)
qed

lemma is_next_same: "same_base sv sv' \<Longrightarrow> is_next sv' = is_next sv"
  by (simp add: same_base_def is_next_def)

lemma info_ok_server:
  "info_ok d \<Longrightarrow> same_base (d_server d) sv \<Longrightarrow> d_finishFlag d' = d_finishFlag d \<Longrightarrow>
    d_finalizeFlag d' = d_finalizeFlag d \<or> d_finalizeFlag d' \<Longrightarrow> d_server d' = sv \<Longrightarrow>
    d_msgPos d' < HCCL_MSG_CNT \<Longrightarrow> d_retryCnt d' \<le> 11 \<Longrightarrow> info_ok d'"
  using is_next_same[of "d_server d" sv] by (auto simp: info_ok_def same_base_def)

lemma ErrorDfx_ok: "ErrorDfxProcess env r sv = HCCL_SUCCESS \<Longrightarrow> r = HCCL_SUCCESS \<or> r = HCCL_E_AGAIN"
  by (auto simp: ErrorDfxProcess_def Let_def split: if_splits)

lemma dinv_upd:
  assumes "dinv ds" "g < length (d_list ds)" "info_ok d'" "\<not> d_finishFlag (d_list ds ! g)" "\<not> d_finishFlag d'"
    "d_list ds' = (d_list ds)[g := d']" "d_finish ds' = d_finish ds"
  shows "dinv ds'"
  using assms length_filter_update[OF assms(2), of d_finishFlag d']
  by (auto simp: dinv_def dest: set_update_subset_insert[THEN subsetD])

lemma check_timeout_dinv:
  assumes "dinv ds" "g < length (d_list ds)" "\<not> d_finishFlag (d_list ds ! g)" "check_timeout_at env g ds = (r, ds')"
    "r \<noteq> HCCL_E_TIMEOUT"
  shows "dinv ds'"
proof -
  let ?d = "d_list ds ! g"
  obtain sv where c: "CheckTimeOut env (d_server ?d) = (r, sv)" "ds' = ds\<lparr>d_list := (d_list ds)[g := ?d\<lparr>d_server := sv\<rparr>]\<rparr>"
    using assms(4) by (auto simp: check_timeout_at_def split: prod.splits)
  have d: "info_ok ?d" using assms(1,2) by (simp add: dinv_def)
  then obtain m :: nat where "s_timeout (d_server ?d) = 30 * 2 ^ m" "m \<le> 2"
    by (auto simp: info_ok_def intro: that[of 0] that[of 1] that[of 2])
  from CheckTimeOut_case[OF this, of env] c(1) this assms(5)
  have "sv = d_server ?d \<or> (m < 2 \<and> sv = (d_server ?d)\<lparr>s_timeout := 30 * 2 ^ Suc m\<rparr>)"
    by (auto split: if_splits)
  moreover have "m < 2 \<Longrightarrow> (30 * 2 ^ Suc m :: u64) \<in> {30, 60, 120}"
    by (cases m) (auto simp: less_Suc_eq)
  ultimately have "info_ok (?d\<lparr>d_server := sv\<rparr>)"
    using d assms(3) by (auto simp: info_ok_def)
  then show ?thesis using dinv_upd[OF assms(1,2)] assms(3) c(2) by simp
qed

lemma IsAllTaskFinished_open:
  assumes "s_opHandles sv = []" "IsAllTaskFinished env pos sv (False, mem) = (r, fin, mem')"
  shows "fin \<longrightarrow> is_next sv \<and> s_msgArea sv \<noteq> None" "fin \<or> r \<noteq> HCCL_SUCCESS" "r = HCCL_SUCCESS \<longrightarrow> fin"
    "r = HCCL_SUCCESS \<or> r = HCCL_E_PTR \<or> r = HCCL_E_INTERNAL"
  using assms by (auto simp: IsAllTaskFinished_def split: option.splits if_splits)

lemma finalized_step_dinv:
  assumes "dinv ds" "g < length (d_list ds)" "\<not> d_finishFlag (d_list ds ! g)" "d_finalizeFlag (d_list ds ! g)"
    "finalized_step env g ds = (r, ds')" "r \<noteq> HCCL_E_TIMEOUT"
  shows "dinv ds'"
proof -
  let ?d = "d_list ds ! g"
  obtain r' fin mem where f: "IsAllTaskFinished env (d_msgPos ?d) (d_server ?d) (False, d_mem ds) = (r', fin, mem)"
    by (metis surj_pair)
  have ok: "info_ok ?d" using assms(1,2) by (simp add: dinv_def)
  then have o: "s_opHandles (d_server ?d) = []" by (simp add: info_ok_def)
  note fin = IsAllTaskFinished_open[OF o f]
  show ?thesis
  proof (cases fin)
    case True
    have "length (filter d_finishFlag (d_list ds)) < length (d_list ds)"
      using assms(2,3) by (metis length_filter_less nth_mem)
    then have u: "unat (d_finish ds + 1) = Suc (unat (d_finish ds))"
      using assms(1) by (simp add: dinv_def unat_word_ariths)
    have "info_ok (?d\<lparr>d_finishFlag := True\<rparr>)" using ok True fin(1) assms(4) by (simp add: info_ok_def)
    then have i: "\<forall>x\<in>set ((d_list ds)[g := ?d\<lparr>d_finishFlag := True\<rparr>]). info_ok x"
      using assms(1) all_update[of "d_list ds" info_ok] by (simp add: dinv_def)
    have "r' = HCCL_SUCCESS" using True f o by (auto simp: IsAllTaskFinished_def split: option.splits if_splits)
    then have "ds' = ds\<lparr>d_mem := mem, d_list := (d_list ds)[g := ?d\<lparr>d_finishFlag := True\<rparr>], d_finish := d_finish ds + 1\<rparr>"
      using True f assms(5) by (simp add: finalized_step_def Let_def)
    then show ?thesis
      using assms(1,3) i u length_filter_update[OF assms(2), of d_finishFlag "?d\<lparr>d_finishFlag := True\<rparr>"]
      by (simp add: dinv_def)
  next
    case False
    then have "ds' = ds\<lparr>d_mem := mem\<rparr>" using fin(2) f assms(5) by (auto simp: finalized_step_def Let_def)
    then show ?thesis using assms(1) by (simp add: dinv_def)
  qed
qed

lemma message_step_dinv:
  assumes "dinv ds" "g < length (d_list ds)" "\<not> d_finishFlag (d_list ds ! g)" "d_retryCnt (d_list ds ! g) \<le> 10"
    "message_step env g ds = (r, ds')"
  shows "dinv ds'"
proof -
  let ?d = "d_list ds ! g"
  have ok: "info_ok ?d" using assms(1,2) by (simp add: dinv_def)
  then have p: "d_msgPos ?d < HCCL_MSG_CNT" "d_retryCnt ?d \<le> 11" by (simp_all add: info_ok_def)
  have r: "d_retryCnt ?d + 1 \<le> 11" using assms(4) by unat_arith
  have m: "Suc (d_msgPos ?d) mod HCCL_MSG_CNT < HCCL_MSG_CNT" by (simp add: HCCL_MSG_CNT_def)
  have upd: "dinv ds'" if "same_base (d_server ?d) (d_server d')" "d_finishFlag d' = d_finishFlag ?d"
    "d_finalizeFlag d' = d_finalizeFlag ?d \<or> d_finalizeFlag d'" "d_msgPos d' < HCCL_MSG_CNT" "d_retryCnt d' \<le> 11"
    "d_list ds' = (d_list ds)[g := d']" "d_finish ds' = d_finish ds" for d'
    by (rule dinv_upd[OF assms(1,2) info_ok_server[OF ok that(1-3) refl that(4,5)]]) (use that assms(3) in auto)
  consider (fin) "w_commType (d_msg ?d) = HCCL_CMD_FINALIZE"
    | (sync) "w_commType (d_msg ?d) \<noteq> HCCL_CMD_FINALIZE" "w_commType (d_msg ?d) = HCCL_CMD_INTER_GROUP_SYNC"
    | (prep) "w_commType (d_msg ?d) \<noteq> HCCL_CMD_FINALIZE" "w_commType (d_msg ?d) \<noteq> HCCL_CMD_INTER_GROUP_SYNC"
    by blast
  then show ?thesis
  proof cases
    case fin
    then have "ds' = ds\<lparr>d_list := (d_list ds)[g := ?d\<lparr>d_server := KeepAlive env (d_server ?d), d_finalizeFlag := True\<rparr>]\<rparr>"
      using assms(5) by (simp add: message_step_def FinalizeProcess_def server_Finalize_def Let_def)
    then show ?thesis
      using upd[of "?d\<lparr>d_server := KeepAlive env (d_server ?d), d_finalizeFlag := True\<rparr>"] p by simp
  next
    case sync
    obtain r' ls where l: "InterGroupSyncProcess env g (d_list ds) = (r', ls)" by fastforce
    then have ds': "ds' = ds\<lparr>d_list := ls\<rparr>" using sync assms(5) by (simp add: message_step_def)
    obtain sv where "ls = d_list ds \<or> same_base (d_server ?d) sv \<and>
       (ls = (d_list ds)[g := ?d\<lparr>d_server := sv\<rparr>] \<or>
        ls = (d_list ds)[g := ?d\<lparr>d_server := sv, d_retryCnt := d_retryCnt ?d + 1\<rparr>] \<or>
        ls = (d_list ds)[g := ?d\<lparr>d_server := sv, d_retryCnt := 0, d_msgPos := Suc (d_msgPos ?d) mod HCCL_MSG_CNT\<rparr>])"
      using l same_base_InterGroupSync[of "d_server ?d" env]
      by (auto simp: InterGroupSyncProcess_def Let_def split: if_splits prod.splits) (metis snd_conv)+
    then show ?thesis
    proof (elim disjE conjE)
      assume "ls = d_list ds"
      then show ?thesis using assms(1) ds' by (simp add: dinv_def)
    qed (rule upd; use ds' p r m in simp)+
  next
    case prep
    obtain r' d' e where l: "PrepareProcess env (?d, d_expect ds) = (r', d', e)" by (metis surj_pair)
    then have ds': "ds' = ds\<lparr>d_list := (d_list ds)[g := d'], d_expect := e\<rparr>"
      using prep assms(5) by (simp add: message_step_def)
    have "same_base (d_server ?d) (d_server d') \<and> d_finishFlag d' = d_finishFlag ?d \<and>
        d_finalizeFlag d' = d_finalizeFlag ?d \<and> d_msgPos d' < HCCL_MSG_CNT \<and> d_retryCnt d' \<le> 11"
      using l same_base_Orchestrate[of "d_server ?d" env "d_msg ?d" "d_msgPos ?d" "d_ext ?d"] p r m
      by (auto simp: PrepareProcess_def Let_def split: if_splits prod.splits)
    then show ?thesis using upd[of d'] ds' by simp
  qed
qed

lemma GetCurrentMsg_keeps:
  assumes "GetCurrentMsg (mem, d) = Some (r, mem', d')"
  shows "d_server d' = d_server d" "d_msgPos d' = d_msgPos d" "d_retryCnt d' = d_retryCnt d"
    "d_finalizeFlag d' = d_finalizeFlag d" "d_finishFlag d' = d_finishFlag d" "r = HCCL_SUCCESS \<longrightarrow> d_retryCnt d \<le> 10"
  using assms by (auto simp: GetCurrentMsg_def Let_def MAX_RETRY_CNT_def not_less word_le_nat_alt
      split: option.splits if_splits prod.splits)

lemma dinv_mem: "dinv (ds\<lparr>d_mem := mem\<rparr>) = dinv ds"
  by (simp add: dinv_def)

lemma poll_step_dinv:
  assumes "dinv ds" "poll_step ds ds'"
  shows "dinv ds'"
  using assms(2)
proof cases
  case (poll g env mem r)
  let ?ds = "ds\<lparr>d_mem := mem\<rparr>" and ?d = "d_list ds ! g"
  have nt: "r \<noteq> HCCL_E_TIMEOUT" using ErrorDfx_ok[OF poll(3)] by auto
  have dm: "dinv ?ds" using assms(1) by (simp add: dinv_mem)
  consider (fin) "d_finishFlag ?d" | (final) "\<not> d_finishFlag ?d" "d_finalizeFlag ?d"
    | (serve) "\<not> d_finishFlag ?d" "\<not> d_finalizeFlag ?d" by blast
  then show ?thesis
  proof cases
    case fin
    then show ?thesis using poll(2) dm by (auto simp: GroupServerProcess_def Let_def)
  next
    case final
    then show ?thesis using poll(2) finalized_step_dinv[OF dm, of g env r ds'] poll(1) nt
      by (simp add: GroupServerProcess_def Let_def)
  next
    case serve
    obtain r1 mem1 d1 where g: "GetCurrentMsg (mem, ?d) = Some (r1, mem1, d1)"
      using poll(2) serve by (auto simp: GroupServerProcess_def Let_def split: option.splits)
    note k = GetCurrentMsg_keeps[OF g]
    let ?ds1 = "ds\<lparr>d_mem := mem1, d_list := (d_list ds)[g := d1]\<rparr>"
    have "info_ok ?d" using assms(1) poll(1) by (simp add: dinv_def)
    then have "info_ok d1" using k by (simp add: info_ok_def)
    then have d1: "dinv ?ds1" using dinv_upd[OF assms(1) poll(1), of d1 ?ds1] serve k(5) by simp
    have f1: "\<not> d_finishFlag (d_list ?ds1 ! g)" "g < length (d_list ?ds1)" using serve k(5) poll(1) by simp_all
    have "(if r1 = HCCL_E_AGAIN then check_timeout_at env g ?ds1
           else if r1 \<noteq> HCCL_SUCCESS then (r1, ?ds1) else message_step env g ?ds1) = (r, ds')"
      using poll(2) serve g by (simp add: GroupServerProcess_def Let_def)
    moreover have "d_retryCnt (d_list ?ds1 ! g) \<le> 10" if "r1 = HCCL_SUCCESS"
      using k(3,6) that poll(1) by simp
    ultimately show ?thesis
      using check_timeout_dinv[OF d1 f1(2,1), of env r ds'] message_step_dinv[OF d1 f1(2,1), of env r ds'] nt d1
      by (auto split: if_splits)
  qed
qed

section \<open>Creating the servers\<close>

definition area_of :: "u64 \<Rightarrow> u64 option" where
  "area_of w = (if w = 0 then None else Some w)"

definition keys_of :: "OpResCtx \<Rightarrow> u64 set" where
  "keys_of ctx = ai_opParam ` set (take 8 (oc_algInfo ctx)) - {0}"

definition knows :: "CommKfcAicpuServer \<Rightarrow> u64 \<Rightarrow> bool" where
  "knows sv k \<longleftrightarrow> MatchExecCtx k sv \<noteq> None"

lemma knows_iff: "knows sv k \<longleftrightarrow> k \<in> x_opParamKey ` set (s_execCtxList sv)"
  by (auto simp: knows_def MatchExecCtx_def find_None_iff)

lemma add_algs_keeps:
  "add_algs env as sv = (r, sv') \<Longrightarrow> s_opHandles sv' = s_opHandles sv \<and> s_timeout sv' = s_timeout sv \<and>
    s_msgArea sv' = s_msgArea sv \<and> (\<forall>k. knows sv k \<longrightarrow> knows sv' k) \<and>
    (r = HCCL_SUCCESS \<longrightarrow> (\<forall>a\<in>set as. ai_opParam a \<noteq> 0 \<longrightarrow> knows sv' (ai_opParam a)))"
proof (induction env as sv arbitrary: r sv' rule: add_algs.induct)
  case (1 env sv)
  then show ?case by simp
next
  case (2 env a as sv)
  let ?key = "ai_opParam a"
  show ?case
  proof (cases "?key = 0 \<or> MatchExecCtx ?key sv \<noteq> None")
    case True
    then have "add_algs env as sv = (r, sv')" using 2(4) by (cases "?key = 0") (simp_all add: Let_def)
    then have "s_opHandles sv' = s_opHandles sv \<and> s_timeout sv' = s_timeout sv \<and>
        s_msgArea sv' = s_msgArea sv \<and> (\<forall>k. knows sv k \<longrightarrow> knows sv' k) \<and>
        (r = HCCL_SUCCESS \<longrightarrow> (\<forall>a\<in>set as. ai_opParam a \<noteq> 0 \<longrightarrow> knows sv' (ai_opParam a)))"
      using 2(1)[OF refl] 2(2)[OF refl] True by (cases "?key = 0") simp_all
    moreover have "?key \<noteq> 0 \<Longrightarrow> knows sv ?key" using True by (simp add: knows_def)
    ultimately show ?thesis by simp
  next
    case False
    then have nz: "?key \<noteq> 0" "MatchExecCtx ?key sv = None" by simp_all
    then have l: "LoadOpenOpParamData env ?key = Inr (n_loadParam env ?key)" by (simp add: LoadOpenOpParamData_def)
    obtain c b where cb: "n_loadParam env ?key = (c, b)" by fastforce
    let ?x = "\<lparr>x_offset = ai_offset a, x_opParamKey = ?key, x_commName = c, x_baseOpParam = b,
           x_resourceType = LEGACY, x_mainStream = None, x_mainThread = 0\<rparr>"
    show ?thesis
    proof (cases "c = []")
      case True
      then show ?thesis using 2(4) nz l cb by (auto simp: Let_def)
    next
      case c: False
      show ?thesis
      proof (cases "bind_resource env ?x")
        case (Inl e)
        then have "e \<noteq> HCCL_SUCCESS" using bind_resource_result by blast
        then show ?thesis using 2(4) nz l cb c Inl by (auto simp: Let_def)
      next
        case (Inr x)
        then have "x_opParamKey x = ?key" using bind_resource_result[of env ?x] by simp
        then have k: "knows (sv\<lparr>s_execCtxList := s_execCtxList sv @ [x]\<rparr>) j \<longleftrightarrow> knows sv j \<or> j = ?key" for j
          by (auto simp: knows_iff)
        have rec: "add_algs env as (sv\<lparr>s_execCtxList := s_execCtxList sv @ [x]\<rparr>) = (r, sv')"
          using 2(4) nz l cb c Inr by (simp add: Let_def)
        show ?thesis
          using 2(3)[OF refl nz(1) _ l[unfolded cb] refl c Inr rec] nz(2) k by simp
      qed
    qed
  qed
qed

lemma AddOpContext_ok:
  assumes "AddOpContext env sz ctx sv = (HCCL_SUCCESS, sv')" "s_msgArea sv \<noteq> Some 0"
  shows "s_opHandles sv' = s_opHandles sv" "s_timeout sv' = s_timeout sv"
    "s_msgArea sv' = area_of (oc_workspace ctx)" "\<forall>k. knows sv k \<longrightarrow> knows sv' k" "\<forall>k\<in>keys_of ctx. knows sv' k"
proof -
  have k: "knows (sv\<lparr>s_msgArea := a, s_turnNumsAddr := t, s_rankNum := q\<rparr>) = knows sv"
    "knows (KeepAlive env sv) = knows sv" "knows (sv\<lparr>s_syncExecCtx := c\<rparr>) = knows sv" for a t q c sv
    by (simp_all add: fun_eq_iff knows_iff KeepAlive_def)
  let ?sv1 = "if s_msgArea sv = None
     then KeepAlive env (sv\<lparr>s_msgArea := area_of (oc_workspace ctx), s_turnNumsAddr := oc_workspace ctx + sz,
       s_rankNum := ucast (oc_rankSize ctx)\<rparr>) else sv"
  have a: "s_msgArea sv = None \<or> s_msgArea sv = Some (oc_workspace ctx)"
    using assms(1) by (auto simp: AddOpContext_def split: if_splits)
  obtain sv2 where r: "add_algs env (take 8 (oc_algInfo ctx)) ?sv1 = (HCCL_SUCCESS, sv2)"
    and sv': "\<exists>x. sv' = sv2\<lparr>s_syncExecCtx := x\<rparr>"
    using assms(1) a by (cases "add_algs env (take 8 (oc_algInfo ctx)) ?sv1")
      (auto simp: AddOpContext_def Let_def area_of_def split: if_splits list.splits)
  note keep = add_algs_keeps[OF r]
  have "s_execCtxList ?sv1 = s_execCtxList sv" by (simp add: KeepAlive_def)
  then have "knows ?sv1 = knows sv" by (simp add: fun_eq_iff knows_iff)
  moreover have "s_opHandles ?sv1 = s_opHandles sv" "s_timeout ?sv1 = s_timeout sv" by (simp_all add: KeepAlive_def)
  ultimately show "s_opHandles sv' = s_opHandles sv" "s_timeout sv' = s_timeout sv"
    "\<forall>k. knows sv k \<longrightarrow> knows sv' k" "\<forall>k\<in>keys_of ctx. knows sv' k"
    using keep sv' by (auto simp: k keys_of_def)
  have "s_msgArea ?sv1 = s_msgArea sv2" using keep by simp
  then show "s_msgArea sv' = area_of (oc_workspace ctx)"
    using sv' a assms(2) by (auto simp: KeepAlive_def area_of_def split: if_splits)
qed

text \<open>The distinct workspaces in order of first appearance.\<close>

definition add_group :: "u64 \<Rightarrow> u64 list \<Rightarrow> u64 list" where
  "add_group w ws = (if w \<in> set ws then ws else ws @ [w])"

definition workspaces :: "OpResCtx option list \<Rightarrow> u64 list \<Rightarrow> u64 list" where
  "workspaces args ws = fold (\<lambda>a. add_group (oc_workspace (the a))) args ws"

definition fresh_info :: "AscCommServerInfo \<Rightarrow> bool" where
  "fresh_info d \<longleftrightarrow> s_opHandles (d_server d) = [] \<and> s_timeout (d_server d) = 30 \<and> d_msgPos d = 0 \<and> d_retryCnt d = 0 \<and>
     \<not> d_finishFlag d \<and> \<not> d_finalizeFlag d \<and> s_msgArea (d_server d) \<noteq> Some 0"

definition indexed :: "(u64 \<Rightarrow> nat option) \<Rightarrow> u64 list \<Rightarrow> bool" where
  "indexed m ws \<longleftrightarrow> distinct ws \<and> (\<forall>w k. m w = Some k \<longrightarrow> k < length ws \<and> ws ! k = w) \<and>
     (\<forall>w. m w = None \<longrightarrow> w \<notin> set ws)"

lemma indexed_snoc: "indexed m ws \<Longrightarrow> m w = None \<Longrightarrow> indexed (m(w \<mapsto> length ws)) (ws @ [w])"
  unfolding indexed_def by (auto simp: nth_append intro: less_SucI)

definition groups_ok :: "AscCommServerInfo list \<Rightarrow> u64 list \<Rightarrow> bool" where
  "groups_ok servers ws \<longleftrightarrow> length servers = length ws \<and> (\<forall>d\<in>set servers. fresh_info d) \<and>
     (\<forall>k<length ws. s_msgArea (d_server (servers ! k)) = area_of (ws ! k))"

lemma create_loop_ok:
  assumes "create_loop env sz args (m, servers) = (HCCL_SUCCESS, servers')" "indexed m ws" "groups_ok servers ws"
  shows "None \<notin> set args \<and> groups_ok servers' (workspaces args ws) \<and> distinct (workspaces args ws) \<and>
    (\<forall>k<length servers. \<forall>j. knows (d_server (servers ! k)) j \<longrightarrow> knows (d_server (servers' ! k)) j)"
  using assms
proof (induction args arbitrary: m servers ws)
  case Nil
  then show ?case by (simp add: workspaces_def indexed_def)
next
  case (Cons arg args)
  then obtain ctx where arg: "arg = Some ctx" by (cases arg) auto
  let ?w = "oc_workspace ctx" and ?ws = "add_group (oc_workspace ctx) ws"
  let ?k = "case m ?w of None \<Rightarrow> length servers | Some k \<Rightarrow> k"
  let ?m = "case m ?w of None \<Rightarrow> m(?w \<mapsto> length servers) | Some k \<Rightarrow> m"
  let ?s = "case m ?w of None \<Rightarrow> servers @ [new_info (of_nat (length servers))] | Some k \<Rightarrow> servers"
  have len: "length servers = length ws" using Cons.prems(3) by (simp add: groups_ok_def)
  have mem: "m ?w = Some k \<Longrightarrow> ?w \<in> set ws" for k
    using Cons.prems(2) nth_mem[of k ws] by (auto simp: indexed_def)
  have im: "indexed ?m ?ws" and mw: "?k < length ?s" "?ws ! ?k = ?w" "length ?s = length ?ws"
    using Cons.prems(2) indexed_snoc[of m ws ?w] len mem
    by (auto simp: indexed_def add_group_def nth_append split: option.splits)
  have fresh: "\<forall>d\<in>set ?s. fresh_info d"
    using Cons.prems(3) by (auto simp: groups_ok_def fresh_info_def new_info_def new_server_def split: option.split)
  obtain sv where sv: "AddOpContext env sz ctx (d_server (?s ! ?k)) = (HCCL_SUCCESS, sv)"
    and rec: "create_loop env sz args (?m, ?s[?k := (?s ! ?k)\<lparr>d_server := sv\<rparr>]) = (HCCL_SUCCESS, servers')"
    using Cons.prems(1) by (auto simp: arg Let_def split: option.splits prod.splits if_splits)
  have fk: "fresh_info (?s ! ?k)" using fresh mw(1) by simp
  then have "s_msgArea (d_server (?s ! ?k)) \<noteq> Some 0" by (simp add: fresh_info_def)
  note add = AddOpContext_ok[OF sv this]
  have "fresh_info ((?s ! ?k)\<lparr>d_server := sv\<rparr>)"
    using fk add by (auto simp: fresh_info_def area_of_def)
  then have f2: "\<forall>d\<in>set (?s[?k := (?s ! ?k)\<lparr>d_server := sv\<rparr>]). fresh_info d"
    using all_update[OF fresh] by simp
  have "\<forall>j<length ?ws. j \<noteq> ?k \<longrightarrow> s_msgArea (d_server (?s ! j)) = area_of (?ws ! j)"
    using Cons.prems(3) len mem by (auto simp: groups_ok_def add_group_def nth_append split: option.splits)
  then have g2: "groups_ok (?s[?k := (?s ! ?k)\<lparr>d_server := sv\<rparr>]) ?ws"
    using f2 mw add(3) by (auto simp: groups_ok_def nth_list_update)
  note IH = Cons.IH[OF rec im g2]
  have "\<forall>k<length servers. \<forall>j. knows (d_server (servers ! k)) j \<longrightarrow>
      knows (d_server (?s[?k := (?s ! ?k)\<lparr>d_server := sv\<rparr>] ! k)) j"
    using add(4) mw(1) by (auto simp: nth_list_update nth_append split: option.splits)
  then show ?case using IH arg mw(3) by (auto simp: workspaces_def split: option.splits)
qed

lemma CreateServerList_ok:
  assumes "CreateServerList env sz args = (HCCL_SUCCESS, servers)"
  shows "None \<notin> set args \<and> groups_ok servers (workspaces args []) \<and> distinct (workspaces args [])"
proof -
  have g: "indexed (\<lambda>_. None) []" "groups_ok [] []" by (simp_all add: indexed_def groups_ok_def)
  have "create_loop env sz args (\<lambda>_. None, []) = (HCCL_SUCCESS, servers)"
    using assms by (simp add: CreateServerList_def split: if_splits)
  from create_loop_ok[OF this g] show ?thesis by simp
qed

text \<open>
  C19: One server per communication group. When the dispatcher creates its servers, every
  argument is present, the servers are those of the distinct workspaces in the order the
  arguments first name them, and each serves the message area at its workspace.
\<close>
theorem CreateServerList_groups:
  assumes "CreateServerList env sz args = (HCCL_SUCCESS, servers)"
  shows "None \<notin> set args \<and> distinct (workspaces args []) \<and>
    map (\<lambda>d. s_msgArea (d_server d)) servers = map area_of (workspaces args [])"
proof -
  note ok = CreateServerList_ok[OF assms]
  then have "length servers = length (workspaces args [])"
    "\<And>k. k < length servers \<Longrightarrow> s_msgArea (d_server (servers ! k)) = area_of (workspaces args [] ! k)"
    by (simp_all add: groups_ok_def)
  then show ?thesis using ok by (simp add: list_eq_iff_nth_eq)
qed

lemma workspaces_length: "length (workspaces args ws) \<le> length args + length ws"
proof (induction args arbitrary: ws)
  case Nil
  then show ?case by (simp add: workspaces_def)
next
  case (Cons a args)
  have "length (add_group w ws) \<le> Suc (length ws)" for w by (simp add: add_group_def)
  from this[of "oc_workspace (the a)"] Cons.IH[of "add_group (oc_workspace (the a)) ws"]
  show ?case by (simp add: workspaces_def)
qed

lemma CreateServerList_fresh:
  assumes "CreateServerList env sz args = (HCCL_SUCCESS, servers)" "length args < 2 ^ 32"
  shows "(\<forall>d\<in>set servers. fresh_info d) \<and> length servers < 2 ^ 32"
  using CreateServerList_ok[OF assms(1)] workspaces_length[of args "[]"] assms(2) by (simp add: groups_ok_def)

definition dispatch_init :: "dstate \<Rightarrow> bool" where
  "dispatch_init ds \<longleftrightarrow> (\<forall>d\<in>set (d_list ds). fresh_info d) \<and> length (d_list ds) < 2 ^ 32 \<and> d_finish ds = 0"

interpretation dispatch: invariant_system dispatch_init poll_step dinv
proof
  fix ds assume i: "dispatch_init ds"
  then have "filter d_finishFlag (d_list ds) = []"
    by (auto simp: dispatch_init_def fresh_info_def filter_empty_conv)
  then show "dinv ds" using i
    by (auto simp: dispatch_init_def dinv_def fresh_info_def info_ok_def HCCL_MSG_CNT_def)
next
  fix ds ds' assume "dinv ds" "poll_step ds ds'"
  then show "dinv ds'" by (rule poll_step_dinv)
qed

lemma GroupServerProcess_length:
  "GroupServerProcess env g ds = Some (r, ds') \<Longrightarrow> length (d_list ds') = length (d_list ds)"
  by (auto simp: GroupServerProcess_def finalized_step_def message_step_def check_timeout_at_def
      InterGroupSyncProcess_def Let_def split: if_splits option.splits prod.splits)

lemma poll_groups_steps:
  "poll_groups ev gs (t, ds) = Some (HCCL_SUCCESS, t', ds') \<Longrightarrow> \<forall>g\<in>set gs. g < length (d_list ds) \<Longrightarrow>
    poll_step\<^sup>*\<^sup>* ds ds'"
proof (induction gs arbitrary: t ds)
  case Nil
  then show ?case by simp
next
  case (Cons g gs)
  obtain env upd where e: "ev t = (env, upd)" by fastforce
  obtain r ds1 where p: "GroupServerProcess env g (ds\<lparr>d_mem := upd (d_mem ds)\<rparr>) = Some (r, ds1)"
    "ErrorDfxProcess env r (d_server (d_list ds1 ! g)) = HCCL_SUCCESS"
    "poll_groups ev gs (t + 1, ds1) = Some (HCCL_SUCCESS, t', ds')"
    using Cons.prems(1) by (auto simp: e Let_def split: option.splits if_splits)
  have l: "length (d_list ds1) = length (d_list ds)" using GroupServerProcess_length[OF p(1)] by simp
  have s: "poll_step ds ds1" using poll_step.poll[OF _ p(1,2)] Cons.prems(2) by simp
  have "poll_step\<^sup>*\<^sup>* ds1 ds'" using Cons.IH[OF p(3)] Cons.prems(2) l by simp
  with s show ?case by (rule converse_rtranclp_into_rtranclp)
qed

lemma run_loop_success:
  "run_loop fuel ev (t, ds) = Returned (HCCL_SUCCESS, ds') \<Longrightarrow>
    poll_step\<^sup>*\<^sup>* ds ds' \<and> unat (d_finish ds') = length (d_list ds')"
proof (induction fuel arbitrary: t ds)
  case 0
  then show ?case by simp
next
  case (Suc fuel)
  show ?case
  proof (cases "unat (d_finish ds) = length (d_list ds)")
    case True
    then show ?thesis using Suc.prems by auto
  next
    case False
    then obtain t1 ds1 where p: "poll_groups ev [0..<length (d_list ds)] (t, ds) = Some (HCCL_SUCCESS, t1, ds1)"
      "run_loop fuel ev (t1, ds1) = Returned (HCCL_SUCCESS, ds')"
      using Suc.prems by (auto split: option.splits if_splits)
    have "poll_step\<^sup>*\<^sup>* ds ds1" using poll_groups_steps[OF p(1)] by simp
    then show ?thesis using Suc.IH[OF p(2)] by (meson rtranclp_trans)
  qed
qed

text \<open>
  C20: Return of the dispatcher. Whatever the clients write and however many rounds it takes,
  the dispatcher returns success only when every group has received its finalize message
  and has been finished, which only groups bound to the new resource type can be: with one
  group on the legacy resource it never returns success, since no legacy handle is ever
  registered.
\<close>
theorem Run_success:
  assumes "Run fuel env sz args ev mem = Returned (HCCL_SUCCESS, ds)" "length args < 2 ^ 32"
  shows "\<forall>d\<in>set (d_list ds). d_finishFlag d \<and> d_finalizeFlag d \<and> is_next (d_server d) \<and>
    s_opHandles (d_server d) = [] \<and> d_msgPos d < HCCL_MSG_CNT"
proof -
  obtain r servers where c: "CreateServerList env sz args = (r, servers)" by fastforce
  let ?ds = "\<lparr>d_list = servers, d_expect = 0, d_finish = 0, d_mem = mem\<rparr>"
  have r: "r = HCCL_SUCCESS" "run_loop fuel ev (0, ?ds) = Returned (HCCL_SUCCESS, ds)"
    using assms(1) by (auto simp: Run_def c Let_def split: if_splits)
  have "dispatch_init ?ds" using CreateServerList_fresh[OF c[unfolded r] assms(2)] by (simp add: dispatch_init_def)
  then have "dinv ds"
    using run_loop_success[OF r(2)] dispatch.steps_inv dispatch.inv_init by blast
  moreover have "unat (d_finish ds) = length (d_list ds)" using run_loop_success[OF r(2)] by simp
  ultimately show ?thesis
    by (auto simp: dinv_def info_ok_def) (metis length_filter_less less_irrefl)+
qed

definition info0 :: AscCommServerInfo where
  "info0 = (new_info 0)\<lparr>d_server := (new_server 0)\<lparr>s_execCtxList := [exec0], s_syncExecCtx := Some exec0,
     s_msgArea := Some 4096, s_turnNumsAddr := 4096 + 64, s_rankNum := 4\<rparr>\<rparr>"

lemma create0: "CreateServerList senv0 64 [Some ctx0] = (HCCL_SUCCESS, [info0])"
  by (simp add: CreateServerList_def AddOpContext_def Let_def new_info_def new_server_def ctx0_def
     KeepAlive_def senv0_def MatchExecCtx_def LoadOpenOpParamData_def bind_resource_def info0_def exec0_def)

definition final_mem :: areas where
  "final_mem = (\<lambda>_. area0\<lparr>sendMsgs := (\<lambda>_. fst (AssembleHcclMsg finalize_param CONTEXT_DECOUPLE_VERSION 0 0
     (\<lambda>_. 0, \<lparr>primitiveId = 0, isResetPrimitiveId = False\<rparr>, idle_ctl)))\<rparr>)"

lemma final_read: "\<exists>slot w. ReadMsgFromMemory (sendMsgs (final_mem a) p) d = (HCCL_SUCCESS, slot, w) \<and> w_commType w = HCCL_CMD_FINALIZE"
proof -
  obtain m where m: "sendMsgs (final_mem a) p = CopyHcclMsg (list_words (msg_words m)) (\<lambda>_. 0)" "m_commType m = HCCL_CMD_FINALIZE"
    by (auto simp: final_mem_def AssembleHcclMsg_def finalize_param_def reset_seq_def idle_ctl_def Let_def)
  then show ?thesis using list_words_msg(1)[of m]
    by (simp add: read_after_copy w_commType_def CopyHcclMsg_word)
qed

lemma run0: "\<exists>ds. Run 3 senv0 64 [Some ctx0] (\<lambda>_. (senv0, id)) final_mem = Returned (HCCL_SUCCESS, ds) \<and> length (d_list ds) = 1"
proof -
  obtain slot w where r: "ReadMsgFromMemory (sendMsgs (final_mem 4096) 0) (\<lambda>_. 0) = (HCCL_SUCCESS, slot, w)" "w_commType w = HCCL_CMD_FINALIZE"
    using final_read by blast
  have n: "numeral k = Suc (pred_numeral k)" for k by simp
  show ?thesis
    using r
    by (simp add: Run_def create0 Let_def numeral_3_eq_3 info0_def new_info_def new_server_def
       GroupServerProcess_def GetCurrentMsg_def message_step_def FinalizeProcess_def server_Finalize_def
       KeepAlive_def ErrorDfxProcess_def finalized_step_def IsAllTaskFinished_def is_next_def exec0_def cmd_codes)
qed
theorem CreateServerList_groups_witness:
  "map (\<lambda>d. s_msgArea (d_server d)) [info0] = map area_of (workspaces [Some ctx0] [])"
  using CreateServerList_groups[OF create0] by simp

theorem Run_success_witness:
  "\<exists>ds d. Run 3 senv0 64 [Some ctx0] (\<lambda>_. (senv0, id)) final_mem = Returned (HCCL_SUCCESS, ds) \<and>
     d_list ds = [d] \<and> d_finishFlag d \<and> is_next (d_server d)"
proof -
  obtain ds where ds: "Run 3 senv0 64 [Some ctx0] (\<lambda>_. (senv0, id)) final_mem = Returned (HCCL_SUCCESS, ds)"
    "length (d_list ds) = 1" using run0 by blast
  then obtain d where "d_list ds = [d]" by (metis length_0_conv length_Suc_conv One_nat_def)
  then show ?thesis using Run_success[OF ds(1)] ds(1) by auto
qed

section \<open>Polling two groups\<close>

text \<open>What a server needs to orchestrate a message at a position, whatever it did before.\<close>

definition same_serving :: "CommKfcAicpuServer \<Rightarrow> CommKfcAicpuServer \<Rightarrow> bool" where
  "same_serving sv sv' \<longleftrightarrow> s_execCtxList sv' = s_execCtxList sv \<and> s_msgArea sv' = s_msgArea sv"

lemma accepts_same: "same_serving sv sv' \<Longrightarrow> accepts sv' w a x = accepts sv w a x"
  by (simp add: accepts_def same_serving_def MatchExecCtx_def)

lemma Orchestrate_serving:
  assumes "accepts sv w a x" "exec_ready env x"
  shows "\<exists>e sv'. Orchestrate env w pos (ext, sv) = (HCCL_SUCCESS, e, sv') \<and> same_serving sv sv'"
  using Orchestrate_ok[OF assms, of pos ext] by (auto simp: same_serving_def)

definition pending :: "HcclMsgArea \<Rightarrow> nat \<Rightarrow> words \<Rightarrow> bool" where
  "pending m i w \<longleftrightarrow> (\<forall>d. \<exists>slot. ReadMsgFromMemory (sendMsgs m i) d = (HCCL_SUCCESS, slot, w)) \<and>
     w_commType w \<noteq> HCCL_CMD_ALLTOALLV \<and> w_commType w \<noteq> HCCL_CMD_FINALIZE \<and> w_commType w \<noteq> HCCL_CMD_INTER_GROUP_SYNC"

definition serving :: "AscCommServerInfo \<Rightarrow> CommKfcAicpuServer \<Rightarrow> nat \<Rightarrow> u32 \<Rightarrow> bool" where
  "serving d sv pos retry \<longleftrightarrow> same_serving sv (d_server d) \<and> d_msgPos d = pos \<and> d_retryCnt d = retry \<and>
     \<not> d_finalizeFlag d \<and> \<not> d_finishFlag d"

text \<open>One poll that reads a pending message and orchestrates it, or finds it too early.\<close>

lemma poll_fresh:
  assumes "g < length (d_list ds)" "serving (d_list ds ! g) sv pos 0" "s_msgArea sv = Some a" "pending (d_mem ds a) pos w"
    "accepts sv w a x" "exec_ready env x"
  shows "\<exists>d mem. GroupServerProcess env g ds =
      Some (HCCL_SUCCESS, ds\<lparr>d_list := (d_list ds)[g := d], d_mem := mem,
        d_expect := (if d_expect ds = ucast (w_seqNum w) then d_expect ds + 1 else d_expect ds)\<rparr>) \<and>
    (if d_expect ds = ucast (w_seqNum w) then serving d sv ((pos + 1) mod HCCL_MSG_CNT) 0
     else serving d sv pos 1 \<and> d_msg d = w) \<and>
    (\<forall>b i. b \<noteq> a \<or> i \<noteq> pos \<longrightarrow> sendMsgs (mem b) i = sendMsgs (d_mem ds b) i)"
proof -
  let ?d = "d_list ds ! g"
  have sv: "same_serving sv (d_server ?d)" and area: "s_msgArea (d_server ?d) = Some a"
    using assms(2,3) by (auto simp: serving_def same_serving_def)
  obtain slot where r: "ReadMsgFromMemory (sendMsgs (d_mem ds a) pos) (d_msg ?d) = (HCCL_SUCCESS, slot, w)"
    using assms(4) by (auto simp: pending_def)
  let ?mem = "(d_mem ds)(a := (d_mem ds a)\<lparr>sendMsgs := (sendMsgs (d_mem ds a))(pos := slot)\<rparr>)"
  have t: "w_commType w \<noteq> HCCL_CMD_ALLTOALLV" "w_commType w \<noteq> HCCL_CMD_FINALIZE" "w_commType w \<noteq> HCCL_CMD_INTER_GROUP_SYNC"
    using assms(4) by (auto simp: pending_def)
  obtain e sv' where o: "Orchestrate env w pos (d_ext ?d, d_server ?d) = (HCCL_SUCCESS, e, sv')" "same_serving (d_server ?d) sv'"
    using Orchestrate_serving[OF assms(5)[folded accepts_same[OF sv]] assms(6)] by blast
  have ss: "same_serving sv sv'" using sv o(2) by (simp add: same_serving_def)
  have p: "GroupServerProcess env g ds = Some (message_step env g (ds\<lparr>d_mem := ?mem, d_list := (d_list ds)[g := ?d\<lparr>d_msg := w\<rparr>]\<rparr>))"
    using assms(2) area r t by (simp add: GroupServerProcess_def serving_def Let_def GetCurrentMsg_def)
  show ?thesis
  proof (cases "d_expect ds = ucast (w_seqNum w)")
    case True
    let ?d' = "?d\<lparr>d_msg := w, d_ext := e, d_server := sv', d_msgPos := (pos + 1) mod HCCL_MSG_CNT, d_retryCnt := 0\<rparr>"
    show ?thesis
      by (rule exI[of _ ?d'], rule exI[of _ ?mem])
        (use assms(1,2) True t o(1) ss p in \<open>simp add: message_step_def PrepareProcess_def serving_def Let_def\<close>)
  next
    case False
    let ?d' = "?d\<lparr>d_msg := w, d_retryCnt := 1\<rparr>"
    show ?thesis
      by (rule exI[of _ ?d'], rule exI[of _ ?mem])
        (use assms(1,2) False t p in \<open>simp add: message_step_def PrepareProcess_def serving_def Let_def\<close>)
  qed
qed

text \<open>A poll of a message cached because it came too early.\<close>

lemma poll_cached:
  assumes "g < length (d_list ds)" "serving (d_list ds ! g) sv pos r" "0 < r" "d_msg (d_list ds ! g) = w"
    "w_commType w \<noteq> HCCL_CMD_FINALIZE" "w_commType w \<noteq> HCCL_CMD_INTER_GROUP_SYNC" "d_expect ds \<noteq> ucast (w_seqNum w)"
  shows "GroupServerProcess env g ds =
    (if r > 10 then Some (HCCL_E_INTERNAL, ds)
     else Some (HCCL_SUCCESS, ds\<lparr>d_list := (d_list ds)[g := (d_list ds ! g)\<lparr>d_retryCnt := r + 1\<rparr>]\<rparr>))"
  using assms by (simp add: GroupServerProcess_def serving_def Let_def GetCurrentMsg_def MAX_RETRY_CNT_def
      message_step_def PrepareProcess_def)

lemma poll_exhausted:
  assumes "g < length (d_list ds)" "serving (d_list ds ! g) sv pos r" "r > 10"
  shows "GroupServerProcess env g ds = Some (HCCL_E_INTERNAL, ds)"
  using assms word_gt_0[of r]
  by (auto simp: GroupServerProcess_def serving_def Let_def GetCurrentMsg_def MAX_RETRY_CNT_def)

definition two_groups ::
  "CommKfcAicpuServer \<Rightarrow> CommKfcAicpuServer \<Rightarrow> u64 \<Rightarrow> u64 \<Rightarrow> (nat \<Rightarrow> words) \<Rightarrow> words \<Rightarrow> nat \<Rightarrow> nat \<Rightarrow> dstate \<Rightarrow> bool" where
  "two_groups svA svB a b wA wB n k ds \<longleftrightarrow>
     (\<exists>dA dB. d_list ds = [dA, dB] \<and> serving dA svA k 0 \<and> serving dB svB 0 (of_nat k) \<and> (k > 0 \<longrightarrow> d_msg dB = wB)) \<and>
     d_expect ds = of_nat k \<and> d_finish ds = 0 \<and>
     (\<forall>i. k \<le> i \<and> i < n \<longrightarrow> pending (d_mem ds a) i (wA i)) \<and> (k = 0 \<longrightarrow> pending (d_mem ds b) 0 wB)"

lemma pending_cong: "sendMsgs m i = sendMsgs m' i \<Longrightarrow> pending m i w = pending m' i w"
  by (simp add: pending_def)

lemma seq_u32: "i < 256 \<Longrightarrow> ucast (of_nat i :: u8) = (of_nat i :: u32)"
proof -
  assume i: "i < 256"
  have "ucast (of_nat i :: u8) = (of_nat (unat (of_nat i :: u8)) :: u32)" by (simp del: unat_of_nat)
  then show ?thesis using i by (simp add: unat_of_nat)
qed

lemma of_nat_u32_eq: "i < 2 ^ 32 \<Longrightarrow> j < 2 ^ 32 \<Longrightarrow> (of_nat i :: u32) = of_nat j \<longleftrightarrow> i = j"
  by (auto dest: arg_cong[where f = unat] simp: unat_of_nat)

text \<open>
  Two groups: \<open>A\<close> has \<open>n\<close> messages pending, with sequence numbers from 0, and the first
  message of \<open>B\<close> is the next one, \<open>n\<close>.
\<close>

definition next_in_B ::
  "server_env \<Rightarrow> CommKfcAicpuServer \<Rightarrow> CommKfcAicpuServer \<Rightarrow> u64 \<Rightarrow> u64 \<Rightarrow> (nat \<Rightarrow> words) \<Rightarrow> words \<Rightarrow> nat \<Rightarrow> bool" where
  "next_in_B env svA svB a b wA wB n \<longleftrightarrow> a \<noteq> b \<and> n \<le> 60 \<and>
     (\<exists>x. s_msgArea svA = Some a \<and> exec_ready env x \<and> (\<forall>i<n. accepts svA (wA i) a x \<and> w_seqNum (wA i) = of_nat i)) \<and>
     (\<exists>x. s_msgArea svB = Some b \<and> exec_ready env x \<and> accepts svB wB b x \<and> w_seqNum wB = of_nat n \<and>
       w_commType wB \<noteq> HCCL_CMD_FINALIZE \<and> w_commType wB \<noteq> HCCL_CMD_INTER_GROUP_SYNC)"

lemma round_A:
  assumes "two_groups svA svB a b wA wB n k ds" "k < n" "next_in_B env svA svB a b wA wB n"
  shows "\<exists>dA dB mem. GroupServerProcess env 0 ds = Some (HCCL_SUCCESS,
      \<lparr>d_list = [dA, dB], d_expect = of_nat (Suc k), d_finish = 0, d_mem = mem\<rparr>) \<and>
    serving dA svA (Suc k) 0 \<and> serving dB svB 0 (of_nat k) \<and> (k > 0 \<longrightarrow> d_msg dB = wB) \<and>
    (\<forall>i. Suc k \<le> i \<and> i < n \<longrightarrow> pending (mem a) i (wA i)) \<and> (k = 0 \<longrightarrow> pending (mem b) 0 wB)"
proof -
  obtain dA dB mem where ds: "ds = \<lparr>d_list = [dA, dB], d_expect = of_nat k, d_finish = 0, d_mem = mem\<rparr>"
    and l: "serving dA svA k 0" "serving dB svB 0 (of_nat k)" "k > 0 \<longrightarrow> d_msg dB = wB"
    and p: "\<forall>i. k \<le> i \<and> i < n \<longrightarrow> pending (mem a) i (wA i)" "k = 0 \<longrightarrow> pending (mem b) 0 wB"
    using assms(1) unfolding two_groups_def by (cases ds) auto
  obtain x where x: "s_msgArea svA = Some a" "exec_ready env x" "accepts svA (wA k) a x" "w_seqNum (wA k) = of_nat k"
    and n: "n \<le> 60" "a \<noteq> b"
    using assms(2,3) unfolding next_in_B_def by blast
  have q: "ucast (w_seqNum (wA k)) = (of_nat k :: u32)" using x(4) seq_u32[of k] assms(2) n by simp
  have m: "(k + 1) mod HCCL_MSG_CNT = Suc k" using assms(2) n by (simp add: HCCL_MSG_CNT_def)
  have pk: "pending (d_mem ds a) k (wA k)" using p(1) assms(2) by (simp add: ds)
  from poll_fresh[of 0 ds svA k a "wA k" x env] obtain d mem' where
    "GroupServerProcess env 0 ds = Some (HCCL_SUCCESS, ds\<lparr>d_list := [d, dB], d_mem := mem', d_expect := of_nat k + 1\<rparr>)"
    and d: "serving d svA (Suc k) 0" "\<forall>c i. c \<noteq> a \<or> i \<noteq> k \<longrightarrow> sendMsgs (mem' c) i = sendMsgs (mem c) i"
    using l(1) x(1-3) pk q m by (simp add: ds) blast
  then have g: "GroupServerProcess env 0 ds = Some (HCCL_SUCCESS,
      \<lparr>d_list = [d, dB], d_expect = of_nat (Suc k), d_finish = 0, d_mem = mem'\<rparr>)"
    by (simp add: ds add.commute)
  have "\<forall>i. Suc k \<le> i \<and> i < n \<longrightarrow> pending (mem' a) i (wA i)" "k = 0 \<longrightarrow> pending (mem' b) 0 wB"
    using d(2) p n(2) pending_cong[of "mem' a" _ "mem a"] pending_cong[of "mem' b" 0 "mem b"] by auto
  then show ?thesis using g d(1) l by blast
qed

lemma two_groups_round:
  assumes "two_groups svA svB a b wA wB n k ds" "k < n" "k < 11" "n \<ge> 12" "next_in_B env svA svB a b wA wB n"
  shows "\<exists>ds'. poll_groups (\<lambda>_. (env, id)) [0, 1] (t, ds) = Some (HCCL_SUCCESS, t + 2, ds') \<and>
    two_groups svA svB a b wA wB n (Suc k) ds'"
proof -
  obtain dA dB mem where g: "GroupServerProcess env 0 ds = Some (HCCL_SUCCESS,
      \<lparr>d_list = [dA, dB], d_expect = of_nat (Suc k), d_finish = 0, d_mem = mem\<rparr>)"
    and l: "serving dA svA (Suc k) 0" "serving dB svB 0 (of_nat k)" "k > 0 \<longrightarrow> d_msg dB = wB"
    and p: "\<forall>i. Suc k \<le> i \<and> i < n \<longrightarrow> pending (mem a) i (wA i)" "k = 0 \<longrightarrow> pending (mem b) 0 wB"
    using round_A[OF assms(1,2,5)] by blast
  let ?ds = "\<lparr>d_list = [dA, dB], d_expect = of_nat (Suc k), d_finish = 0, d_mem = mem\<rparr>"
  obtain x where x: "s_msgArea svB = Some b" "exec_ready env x" "accepts svB wB b x" "w_seqNum wB = of_nat n"
    "w_commType wB \<noteq> HCCL_CMD_FINALIZE" "w_commType wB \<noteq> HCCL_CMD_INTER_GROUP_SYNC" and n: "n \<le> 60" "a \<noteq> b"
    using assms(5) unfolding next_in_B_def by blast
  have q: "of_nat (Suc k) \<noteq> (ucast (w_seqNum wB) :: u32)"
    using x(4) seq_u32[of n] assms(3,4) n of_nat_u32_eq[of "Suc k" n] by (simp del: of_nat_Suc)
  have "\<exists>d mem'. GroupServerProcess env 1 ?ds = Some (HCCL_SUCCESS,
        \<lparr>d_list = [dA, d], d_expect = of_nat (Suc k), d_finish = 0, d_mem = mem'\<rparr>) \<and>
      serving d svB 0 (of_nat (Suc k)) \<and> d_msg d = wB \<and> (\<forall>i. sendMsgs (mem' a) i = sendMsgs (mem a) i)"
  proof (cases "k = 0")
    case True
    have s: "serving (d_list ?ds ! 1) svB 0 0" "pending (d_mem ?ds b) 0 wB" "d_expect ?ds \<noteq> ucast (w_seqNum wB)"
      using l(2) p(2) q True by simp_all
    from poll_fresh[of 1 ?ds svB 0 b wB x env, OF _ s(1) x(1) s(2) x(3,2)] s(3) obtain d mem' where
      "GroupServerProcess env 1 ?ds = Some (HCCL_SUCCESS, ?ds\<lparr>d_list := [dA, d], d_mem := mem', d_expect := d_expect ?ds\<rparr>)"
      "serving d svB 0 1" "d_msg d = wB" "\<forall>c i. c \<noteq> b \<or> i \<noteq> 0 \<longrightarrow> sendMsgs (mem' c) i = sendMsgs (mem c) i"
      by (simp del: of_nat_Suc) blast
    then show ?thesis using True n(2) by (intro exI[of _ d] exI[of _ mem']) simp
  next
    case False
    then have r: "(0::u32) < of_nat k" "\<not> (of_nat k :: u32) > 10"
      using assms(3) by (simp_all add: word_less_nat_alt unat_of_nat)
    show ?thesis
      by (rule exI[of _ "dB\<lparr>d_retryCnt := of_nat k + 1\<rparr>"], rule exI[of _ mem])
        (use poll_cached[of 1 ?ds svB 0 "of_nat k" wB env] l(2,3) x q r False in \<open>simp add: serving_def\<close>)
  qed
  then obtain d mem' where d: "GroupServerProcess env 1 ?ds = Some (HCCL_SUCCESS,
      \<lparr>d_list = [dA, d], d_expect = of_nat (Suc k), d_finish = 0, d_mem = mem'\<rparr>)"
    "serving d svB 0 (of_nat (Suc k))" "d_msg d = wB" "\<forall>i. sendMsgs (mem' a) i = sendMsgs (mem a) i" by blast
  have pa: "\<forall>i. Suc k \<le> i \<and> i < n \<longrightarrow> pending (mem' a) i (wA i)"
    using p(1) d(4) pending_cong[of "mem' a" _ "mem a"] by auto
  show ?thesis
    using g d pa l(1) by (simp add: ErrorDfxProcess_def two_groups_def Let_def del: of_nat_Suc)
qed

lemma two_groups_poll:
  assumes "two_groups svA svB a b wA wB n k ds"
  shows "run_loop (Suc fuel) ev (t, ds) = (case poll_groups ev [0, 1] (t, ds) of
      None \<Rightarrow> Crash
    | Some (r, t, ds) \<Rightarrow> if r \<noteq> HCCL_SUCCESS then Returned (r, ds) else run_loop fuel ev (t, ds))"
proof -
  have l: "length (d_list ds) = 2" "unat (d_finish ds) = 0" "[0..<2] = [0, 1]"
    using assms by (auto simp: two_groups_def upt_rec)
  show ?thesis unfolding run_loop.simps l by simp
qed

lemma two_groups_rounds:
  assumes "two_groups svA svB a b wA wB n 0 ds" "n \<ge> 12" "next_in_B env svA svB a b wA wB n" "k \<le> 11"
  shows "\<exists>ds' t'. run_loop (k + fuel) (\<lambda>_. (env, id)) (t, ds) = run_loop fuel (\<lambda>_. (env, id)) (t', ds') \<and>
    two_groups svA svB a b wA wB n k ds'"
  using assms(4)
proof (induction k arbitrary: fuel)
  case 0
  then show ?case using assms(1) by auto
next
  case (Suc k)
  obtain ds1 t1 where d: "run_loop (k + Suc fuel) (\<lambda>_. (env, id)) (t, ds) = run_loop (Suc fuel) (\<lambda>_. (env, id)) (t1, ds1)"
    "two_groups svA svB a b wA wB n k ds1"
    using Suc.IH[of "Suc fuel"] Suc_leD[OF Suc.prems] by blast
  obtain ds2 where r: "poll_groups (\<lambda>_. (env, id)) [0, 1] (t1, ds1) = Some (HCCL_SUCCESS, t1 + 2, ds2)"
    "two_groups svA svB a b wA wB n (Suc k) ds2"
    using two_groups_round[OF d(2) _ _ assms(2,3)] Suc.prems assms(2) by auto
  have "run_loop (Suc fuel) (\<lambda>_. (env, id)) (t1, ds1) = run_loop fuel (\<lambda>_. (env, id)) (t1 + 2, ds2)"
    using two_groups_poll[OF d(2)] r(1) by simp
  then show ?case using d(1) r(2) by (metis add_Suc add_Suc_right)
qed

text \<open>
  C21: The retry limit counts polls. If a program on two groups issues twelve operations on the
  first group and then one on the second before the server's first poll, the dispatcher
  orchestrates the twelve messages, re-examining the second group's message once a round,
  and then fails with an internal error although the message it refuses is exactly the one
  it expects next.
\<close>
theorem retry_limit_refuses_expected_message:
  assumes "two_groups svA svB a b wA wB 12 0 ds" "next_in_B env svA svB a b wA wB 12" "fuel \<ge> 12"
  shows "\<exists>ds'. run_loop fuel (\<lambda>_. (env, id)) (0, ds) = Returned (HCCL_E_INTERNAL, ds') \<and>
    d_msg (d_list ds' ! 1) = wB \<and> d_expect ds' = ucast (w_seqNum wB)"
proof -
  have f: "fuel = 11 + Suc (fuel - 12)" using assms(3) by simp
  let ?f = "fuel - 12"
  obtain ds1 t1 where d: "run_loop fuel (\<lambda>_. (env, id)) (0, ds) = run_loop (Suc ?f) (\<lambda>_. (env, id)) (t1, ds1)"
    "two_groups svA svB a b wA wB 12 11 ds1"
    using two_groups_rounds[OF assms(1) order_refl assms(2) order_refl, of "Suc ?f" 0] f by metis
  obtain dA dB mem where g: "GroupServerProcess env 0 ds1 = Some (HCCL_SUCCESS,
      \<lparr>d_list = [dA, dB], d_expect = 12, d_finish = 0, d_mem = mem\<rparr>)"
    and l: "serving dB svB 0 11" "d_msg dB = wB"
    using round_A[OF d(2) _ assms(2)] by auto
  let ?ds = "\<lparr>d_list = [dA, dB], d_expect = 12, d_finish = 0, d_mem = mem\<rparr>"
  have "GroupServerProcess env 1 ?ds = Some (HCCL_E_INTERNAL, ?ds)"
    using poll_exhausted[of 1 ?ds svB 0 11 env] l by simp
  then have "run_loop (Suc ?f) (\<lambda>_. (env, id)) (t1, ds1) = Returned (HCCL_E_INTERNAL, ?ds)"
    using two_groups_poll[OF d(2)] g by (simp add: ErrorDfxProcess_def Let_def)
  moreover have "w_seqNum wB = 12" using assms(2) by (auto simp: next_in_B_def)
  ultimately show ?thesis using d(1) l by simp
qed

definition svB0 :: CommKfcAicpuServer where
  "svB0 = sv0\<lparr>s_msgArea := Some 8192\<rparr>"

definition pend_mem :: areas where
  "pend_mem c = area0\<lparr>sendMsgs := (if c = 4096 then (\<lambda>i. msg0 (of_nat i)) else (\<lambda>_. msg0 12))\<rparr>"

lemma msg0_read: "\<exists>slot. ReadMsgFromMemory (msg0 q) d = (HCCL_SUCCESS, slot, msg0 q)"
proof -
  obtain src where "msg0 q = CopyHcclMsg src (\<lambda>_. 0)"
    by (auto simp: msg0_def AssembleHcclMsg_def reset_seq_def idle_ctl_def sample_param_def cmd_codes Let_def)
  then show ?thesis by (simp add: read_after_copy)
qed

theorem retry_limit_refuses_expected_message_witness:
  "\<exists>ds'. run_loop 20 (\<lambda>_. (senv0, id)) (0, \<lparr>d_list = [(new_info 0)\<lparr>d_server := sv0\<rparr>, (new_info 1)\<lparr>d_server := svB0\<rparr>],
     d_expect = 0, d_finish = 0, d_mem = pend_mem\<rparr>) = Returned (HCCL_E_INTERNAL, ds') \<and> d_expect ds' = 12"
proof -
  let ?ds = "\<lparr>d_list = [(new_info 0)\<lparr>d_server := sv0\<rparr>, (new_info 1)\<lparr>d_server := svB0\<rparr>],
     d_expect = 0, d_finish = 0, d_mem = pend_mem\<rparr>"
  have pd: "pending (pend_mem 4096) i (msg0 (of_nat i))" "pending (pend_mem 8192) 0 (msg0 12)" for i
    using msg0_read by (simp_all add: pending_def pend_mem_def msg0_fields cmd_codes)
  have "accepts svB0 (msg0 q) 8192 exec0" for q
    using sv0_accepts[of q] by (simp add: accepts_def svB0_def MatchExecCtx_def)
  then have n: "next_in_B senv0 sv0 svB0 4096 8192 (\<lambda>i. msg0 (of_nat i)) (msg0 12) 12"
    unfolding next_in_B_def using sv0_accepts exec0_ready
    by (auto simp: msg0_fields sv0_fields svB0_def cmd_codes)
  have "two_groups sv0 svB0 4096 8192 (\<lambda>i. msg0 (of_nat i)) (msg0 12) 12 0 ?ds"
    using pd by (simp add: two_groups_def serving_def same_serving_def new_info_def)
  from retry_limit_refuses_expected_message[OF this n, of 20] show ?thesis by (auto simp: msg0_fields)
qed

end
