(* ===== verification/CollBase.thy ===== *)
theory CollBase
  imports Prelude
begin

unbundle bit_operations_syntax

text \<open>
  What the collective algorithm templates share: slices, device memory ranges, the calls a
  template makes on its links and its stream, and what those calls do to the ranks'
  memories. A rank's program returns the list of tasks it has launched; every launch may
  fail with any result code, which the program returns at once.
\<close>

section \<open>Slices and memory ranges\<close>

record Slice =
  sl_offset :: u64
  sl_size :: u64

definition bytes :: "u64 \<Rightarrow> u64 \<Rightarrow> nat set" where
  "bytes off sz = {unat off ..< unat off + unat sz}"

definition slice_bytes :: "Slice \<Rightarrow> nat set" where
  "slice_bytes s = bytes (sl_offset s) (sl_size s)"

definition cover :: "Slice list \<Rightarrow> nat set" where
  "cover ss = (\<Union>s\<in>set ss. slice_bytes s)"

lemma cover_simps [simp]: "cover [] = {}" "cover (s # ss) = slice_bytes s \<union> cover ss"
  "cover (as @ bs) = cover as \<union> cover bs"
  by (auto simp: cover_def)

text \<open>
  A pointer is an offset into one of a rank's buffers; the registered buffers are those a
  link can address at the other side.
\<close>

datatype UserMemType = INPUT_MEM | OUTPUT_MEM | SCRATCH_MEM

type_synonym pointer = "(UserMemType \<times> u64) option"

record DeviceMem =
  dm_ptr :: pointer
  dm_size :: u64

definition null_mem :: DeviceMem where
  "null_mem = \<lparr>dm_ptr = None, dm_size = 0\<rparr>"

definition range_of :: "DeviceMem \<Rightarrow> u64 \<Rightarrow> u64 \<Rightarrow> DeviceMem" where
  "range_of m offset size1 =
     (case dm_ptr m of
        None \<Rightarrow> null_mem
      | Some (b, base) \<Rightarrow>
          if offset + size1 > dm_size m then null_mem
          else \<lparr>dm_ptr = Some (b, base + offset), dm_size = size1\<rparr>)"

section \<open>Tasks\<close>

record TxMemoryInfo =
  tx_dstMemType :: UserMemType
  tx_dstOffset :: u64
  tx_src :: pointer
  tx_len :: u64

record RxMemoryInfo =
  rx_srcMemType :: UserMemType
  rx_srcOffset :: u64
  rx_dst :: pointer
  rx_len :: u64

record RxWithReduceMemoryInfo =
  rw_recvSrcMemType :: UserMemType
  rw_recvSrcOffset :: u64
  rw_recvDst :: pointer
  rw_recvLen :: u64
  rw_reduceSrc :: pointer
  rw_reduceDst :: pointer
  rw_reduceDataCount :: u64

datatype link_call =
    TxAck | RxAck | TxDataSignal | RxDataSignal | PostFinAck | WaitFinAck | TxWaitDone | RxWaitDone
  | DataReceivedAck
  | TxAsync "TxMemoryInfo list" | RxAsync "RxMemoryInfo list"
  | TxWithReduce "TxMemoryInfo list" | RxWithReduce "RxWithReduceMemoryInfo list"

text \<open>
  A task: a call on the link to a rank, a copy within the device (destination, source), a
  copy or a reduction from the memory of the rank at the other end of a link, and a
  reduction of \<open>count\<close> elements within the device.
\<close>

datatype task =
    LinkCall nat link_call
  | CopyLocal DeviceMem DeviceMem
  | CopyRemote DeviceMem nat UserMemType u64 u64
  | ReduceLocal pointer u64 pointer
  | ReduceRemote nat UserMemType u64 u64 pointer

text \<open>
  The links of a rank by the rank at the other end: the class of the transport, its link
  type, and whether the receiver reads the data (bit 1 of the link attribute of a
  point-to-point transport) or the sender writes it.
\<close>

datatype TransportClass = TransportP2p | TransportIbverbs

datatype LinkType =
    LINK_ONCHIP | LINK_HCCS | LINK_PCIE | LINK_ROCE | LINK_SIO | LINK_HCCS_SW | LINK_STANDARD_ROCE | LINK_UB
  | LINK_RESERVED

record Transport =
  l_class :: TransportClass
  l_linkType :: LinkType
  l_pull :: bool

definition IsSpInlineReduce :: "Transport \<Rightarrow> bool" where
  "IsSpInlineReduce t \<longleftrightarrow> l_linkType t = LINK_HCCS \<or> l_linkType t = LINK_PCIE \<or>
     l_linkType t = LINK_SIO \<or> l_linkType t = LINK_HCCS_SW"

text \<open>
  The environment of a rank: the answer to each launch, whether the dispatcher and the
  stream exist, and the size of an element in bytes.
\<close>

record coll_env =
  c_answer :: "task list \<Rightarrow> task \<Rightarrow> HcclResult"
  c_dispatcher :: bool
  c_stream :: bool
  c_unit :: u32

type_synonym prog = "task list \<Rightarrow> HcclResult \<times> task list"

definition launch :: "coll_env \<Rightarrow> task \<Rightarrow> prog" where
  "launch env t tr = (let r = c_answer env tr t in (r, if r = HCCL_SUCCESS then tr @ [t] else tr))"

definition done_ok :: prog where "done_ok tr = (HCCL_SUCCESS, tr)"
definition fail :: "HcclResult \<Rightarrow> prog" where "fail r tr = (r, tr)"

definition andthen :: "prog \<Rightarrow> prog \<Rightarrow> prog" where
  "andthen p q tr = chk_ret (p tr) q"

text \<open>
  The asynchronous copy: the checks of the interface, then those of the dispatcher, which
  launches nothing for an empty copy or for a copy onto itself. The task stands for the whole
  copy; the parts of at most 4 GB the dispatcher makes of it are in \<open>AicpuDispatcher\<close>.
\<close>

definition MemcpyAsync :: "coll_env \<Rightarrow> DeviceMem \<Rightarrow> DeviceMem \<Rightarrow> prog" where
  "MemcpyAsync env dst src =
     (if dm_size src = 0 then done_ok
      else if src = dst then done_ok
      else if dm_size dst < dm_size src then fail HCCL_E_PTR
      else launch env (CopyLocal dst src))"

definition HcclD2DMemcpyAsync :: "coll_env \<Rightarrow> DeviceMem \<Rightarrow> DeviceMem \<Rightarrow> prog" where
  "HcclD2DMemcpyAsync env dst src =
     (if \<not> c_dispatcher env then fail HCCL_E_PTR
      else if dm_ptr dst = None then fail HCCL_E_PTR
      else if dm_ptr src = None then fail HCCL_E_PTR
      else MemcpyAsync env dst src)"

text \<open>The same copy with a source at the other end of a link.\<close>

definition HcclD2DMemcpyAsync_remote ::
  "coll_env \<Rightarrow> DeviceMem \<Rightarrow> nat \<Rightarrow> UserMemType \<Rightarrow> u64 \<Rightarrow> u64 \<Rightarrow> prog" where
  "HcclD2DMemcpyAsync_remote env dst q b off len =
     (if \<not> c_dispatcher env then fail HCCL_E_PTR
      else if dm_ptr dst = None then fail HCCL_E_PTR
      else if len = 0 then done_ok
      else if dm_size dst < len then fail HCCL_E_PTR
      else launch env (CopyRemote dst q b off len))"

fun each :: "('a \<Rightarrow> prog) \<Rightarrow> 'a list \<Rightarrow> prog" where
  "each f [] = done_ok"
| "each f (x # xs) = andthen (f x) (each f xs)"

fun all_of :: "prog list \<Rightarrow> prog" where
  "all_of [] = done_ok"
| "all_of (p # ps) = andthen p (all_of ps)"

text \<open>A program that succeeds and launches \<open>ts\<close>, whatever was launched before.\<close>

definition runs :: "prog \<Rightarrow> task list \<Rightarrow> bool" where
  "runs p ts \<longleftrightarrow> (\<forall>tr. p tr = (HCCL_SUCCESS, tr @ ts))"

named_theorems runs_intros

lemma runs_launch [runs_intros]: "(\<And>tr. c_answer env tr t = HCCL_SUCCESS) \<Longrightarrow> runs (launch env t) [t]"
  by (simp add: runs_def launch_def)

lemma runs_done [runs_intros]: "runs done_ok []"
  by (simp add: runs_def done_ok_def)

lemma runs_andthen [runs_intros]: "runs p ts \<Longrightarrow> runs q us \<Longrightarrow> runs (andthen p q) (ts @ us)"
  by (simp add: runs_def andthen_def)

lemma runs_each [runs_intros]:
  "(\<And>x. x \<in> set xs \<Longrightarrow> runs (f x) (g x)) \<Longrightarrow> runs (each f xs) (concat (map g xs))"
  by (induction xs) (auto intro: runs_intros)

definition all_succeed :: "coll_env \<Rightarrow> bool" where
  "all_succeed env \<longleftrightarrow> (\<forall>tr t. c_answer env tr t = HCCL_SUCCESS)"

lemma runs_launch_ok: "all_succeed env \<Longrightarrow> runs (launch env t) [t]"
  by (simp add: all_succeed_def runs_launch)

text \<open>The first failing launch ends a program with its code, and its tasks stay a prefix.\<close>

definition stops_at_failure :: "prog \<Rightarrow> bool" where
  "stops_at_failure p \<longleftrightarrow> (\<forall>tr. \<exists>ts. snd (p tr) = tr @ ts)"

lemma stops_launch [intro]: "stops_at_failure (launch env t)"
  by (auto simp: stops_at_failure_def launch_def Let_def)

lemma stops_done [intro]: "stops_at_failure done_ok" "stops_at_failure (fail r)"
  by (auto simp: stops_at_failure_def done_ok_def fail_def)

lemma stops_andthen [intro]: "stops_at_failure p \<Longrightarrow> stops_at_failure q \<Longrightarrow> stops_at_failure (andthen p q)"
proof -
  assume p: "stops_at_failure p" and q: "stops_at_failure q"
  show ?thesis unfolding stops_at_failure_def andthen_def
  proof
    fix tr
    obtain r s where ps: "p tr = (r, s)" by fastforce
    then obtain ts us where "s = tr @ ts" "snd (q s) = s @ us"
      using p q unfolding stops_at_failure_def by (metis snd_conv)
    then show "\<exists>ts. snd (chk_ret (p tr) q) = tr @ ts" using ps by auto
  qed
qed

section \<open>Templates\<close>

text \<open>The parameters every template keeps.\<close>

record AlgTemplate =
  at_inputMem :: DeviceMem
  at_outputMem :: DeviceMem
  at_scratchMem :: DeviceMem
  at_count :: u64
  at_slices :: "Slice list"
  at_baseOffset :: u64

definition Prepare ::
  "DeviceMem \<Rightarrow> DeviceMem \<Rightarrow> DeviceMem \<Rightarrow> u64 \<Rightarrow> Slice list \<Rightarrow> u64 \<Rightarrow>
    ('a AlgTemplate_scheme) \<Rightarrow> HcclResult \<times> ('a AlgTemplate_scheme)" where
  "Prepare inputMem outputMem scratchMem count1 slices baseOffset t =
     (HCCL_SUCCESS,
      t\<lparr>at_inputMem := inputMem, at_outputMem := outputMem, at_scratchMem := scratchMem,
        at_count := count1, at_baseOffset := baseOffset,
        at_slices := if slices \<noteq> [] then slices else at_slices t\<rparr>)"

text \<open>Slices of one size, one after the other.\<close>

definition even_slices :: "nat \<Rightarrow> u64 \<Rightarrow> Slice list" where
  "even_slices rankSize sliceSize =
     map (\<lambda>i. \<lparr>sl_offset = sliceSize * of_nat i, sl_size = sliceSize\<rparr>) [0..<rankSize]"

text \<open>Every call on the link to \<open>q\<close> is launched; a null link is refused by the callers.\<close>

definition call :: "coll_env \<Rightarrow> nat \<Rightarrow> link_call \<Rightarrow> prog" where
  "call env q c = launch env (LinkCall q c)"

definition ExecuteBarrier :: "coll_env \<Rightarrow> nat \<Rightarrow> nat \<Rightarrow> prog" where
  "ExecuteBarrier env preLink aftLink =
     all_of [call env preLink TxAck, call env aftLink RxAck,
             call env aftLink TxDataSignal, call env preLink RxDataSignal]"

section \<open>What the tasks do\<close>

text \<open>
  On its stream a task becomes actions: recording a notification at another rank, waiting
  for one, copying or reducing a range of bytes between two memories (rank, buffer, offset).
  The three notifications of a link direction are those of the transports: the ready signal
  for data, the done signal for acknowledgements, and the data acknowledgement of RDMA.
\<close>

datatype notify = SendReady | SendDone | DataAck

type_synonym place = "nat \<times> UserMemType \<times> nat"

datatype action =
    Post nat notify
  | Await nat notify
  | Move place place nat
  | Combine place place nat

text \<open>
  \<open>r\<close> writes the ranges to the other rank \<open>q\<close>, or reads them from it. A null address, with which
  the code ends the call with an error, moves nothing here; the templates pass none when
  their buffers are not null.
\<close>

fun tx_move :: "nat \<Rightarrow> nat \<Rightarrow> TxMemoryInfo \<Rightarrow> action list" where
  "tx_move r q t = (case tx_src t of None \<Rightarrow> []
     | Some (b, a) \<Rightarrow> [Move (q, tx_dstMemType t, unat (tx_dstOffset t)) (r, b, unat a) (unat (tx_len t))])"

fun rx_move :: "nat \<Rightarrow> nat \<Rightarrow> RxMemoryInfo \<Rightarrow> action list" where
  "rx_move r q t = (case rx_dst t of None \<Rightarrow> []
     | Some (b, a) \<Rightarrow> [Move (r, b, unat a) (q, rx_srcMemType t, unat (rx_srcOffset t)) (unat (rx_len t))])"

fun tx_combine :: "nat \<Rightarrow> nat \<Rightarrow> TxMemoryInfo \<Rightarrow> action list" where
  "tx_combine r q t = (case tx_src t of None \<Rightarrow> []
     | Some (b, a) \<Rightarrow> [Combine (q, tx_dstMemType t, unat (tx_dstOffset t)) (r, b, unat a) (unat (tx_len t))])"

text \<open>
  The calls on a point-to-point transport: the final acknowledgement and the waits for
  completion are those of the base class, which do nothing.
\<close>

definition p2p_TxAsync :: "bool \<Rightarrow> nat \<Rightarrow> nat \<Rightarrow> TxMemoryInfo list \<Rightarrow> action list" where
  [simp]: "p2p_TxAsync pull r q ts = (if pull then [] else concat (map (tx_move r q) ts)) @ [Post q SendReady]"

definition p2p_RxAsync :: "bool \<Rightarrow> nat \<Rightarrow> nat \<Rightarrow> RxMemoryInfo list \<Rightarrow> action list" where
  [simp]: "p2p_RxAsync pull r q ts = [Await q SendReady] @ (if pull then concat (map (rx_move r q) ts) else [])"

definition p2p_DataReceivedAck :: "nat \<Rightarrow> action list" where
  [simp]: "p2p_DataReceivedAck q = [Post q SendDone, Await q SendDone, Post q SendReady, Await q SendReady]"

fun p2p_actions :: "bool \<Rightarrow> nat \<Rightarrow> nat \<Rightarrow> link_call \<Rightarrow> action list" where
  "p2p_actions pull r q TxAck = [Post q SendDone]"
| "p2p_actions pull r q RxAck = [Await q SendDone]"
| "p2p_actions pull r q TxDataSignal = [Post q SendReady]"
| "p2p_actions pull r q RxDataSignal = [Await q SendReady]"
| "p2p_actions pull r q (TxAsync ts) = p2p_TxAsync pull r q ts"
| "p2p_actions pull r q (RxAsync ts) = p2p_RxAsync pull r q ts"
| "p2p_actions pull r q DataReceivedAck = p2p_DataReceivedAck q"
| "p2p_actions pull r q _ = []"

text \<open>
  The calls on an RDMA transport with one queue pair: the sender writes (and reduces), then
  the data notification follows on the same queue; the receiver only waits for it.
\<close>

definition ibv_TxAsync :: "nat \<Rightarrow> nat \<Rightarrow> TxMemoryInfo list \<Rightarrow> action list" where
  [simp]: "ibv_TxAsync r q ts = concat (map (tx_move r q) ts) @ [Post q SendReady]"

definition ibv_RxAsync :: "nat \<Rightarrow> RxMemoryInfo list \<Rightarrow> action list" where
  [simp]: "ibv_RxAsync q ts = [Await q SendReady]"

definition ibv_TxWithReduce :: "nat \<Rightarrow> nat \<Rightarrow> TxMemoryInfo list \<Rightarrow> action list" where
  [simp]: "ibv_TxWithReduce r q ts = concat (map (tx_combine r q) ts) @ [Post q SendReady]"

definition ibv_PostFinAck :: "nat \<Rightarrow> action list" where
  [simp]: "ibv_PostFinAck q = [Post q DataAck]"

definition ibv_WaitFinAck :: "nat \<Rightarrow> action list" where
  [simp]: "ibv_WaitFinAck q = [Await q DataAck]"

definition ibv_DataReceivedAck :: "nat \<Rightarrow> action list" where
  [simp]: "ibv_DataReceivedAck q = ibv_PostFinAck q @ ibv_WaitFinAck q"

fun ibv_actions :: "nat \<Rightarrow> nat \<Rightarrow> link_call \<Rightarrow> action list" where
  "ibv_actions r q TxAck = [Post q SendDone]"
| "ibv_actions r q RxAck = [Await q SendDone]"
| "ibv_actions r q TxDataSignal = [Post q SendReady]"
| "ibv_actions r q RxDataSignal = [Await q SendReady]"
| "ibv_actions r q (TxAsync ts) = ibv_TxAsync r q ts"
| "ibv_actions r q (RxAsync ts) = ibv_RxAsync q ts"
| "ibv_actions r q (TxWithReduce ts) = ibv_TxWithReduce r q ts"
| "ibv_actions r q DataReceivedAck = ibv_DataReceivedAck q"
| "ibv_actions r q PostFinAck = ibv_PostFinAck q"
| "ibv_actions r q WaitFinAck = ibv_WaitFinAck q"
| "ibv_actions r q _ = []"

fun link_actions :: "Transport \<Rightarrow> nat \<Rightarrow> nat \<Rightarrow> link_call \<Rightarrow> action list" where
  "link_actions t r q c =
     (case l_class t of TransportP2p \<Rightarrow> p2p_actions (l_pull t) r q c | TransportIbverbs \<Rightarrow> ibv_actions r q c)"

fun task_actions :: "(nat \<Rightarrow> Transport) \<Rightarrow> u32 \<Rightarrow> nat \<Rightarrow> task \<Rightarrow> action list" where
  "task_actions L u r (LinkCall q c) = link_actions (L q) r q c"
| "task_actions L u r (CopyLocal dst src) =
     (case (dm_ptr dst, dm_ptr src) of
        (Some (b, a), Some (c, d)) \<Rightarrow> [Move (r, b, unat a) (r, c, unat d) (unat (dm_size src))]
      | _ \<Rightarrow> [])"
| "task_actions L u r (CopyRemote dst q b off len) =
     (case dm_ptr dst of Some (c, a) \<Rightarrow> [Move (r, c, unat a) (q, b, unat off) (unat len)] | None \<Rightarrow> [])"
| "task_actions L u r (ReduceLocal src n dst) =
     (case (src, dst) of
        (Some (c, d), Some (b, a)) \<Rightarrow> [Combine (r, b, unat a) (r, c, unat d) (unat n * unat u)]
      | _ \<Rightarrow> [])"
| "task_actions L u r (ReduceRemote q b off n dst) =
     (case dst of Some (c, a) \<Rightarrow> [Combine (r, c, unat a) (q, b, unat off) (unat n * unat u)] | None \<Rightarrow> [])"

definition stream_of :: "(nat \<Rightarrow> Transport) \<Rightarrow> u32 \<Rightarrow> nat \<Rightarrow> task list \<Rightarrow> action list" where
  "stream_of L u r ts = concat (map (task_actions L u r) ts)"

lemma stream_of_simps [simp]:
  "stream_of L u r [] = []"
  "stream_of L u r (t # ts) = task_actions L u r t @ stream_of L u r ts"
  "stream_of L u r (ts @ us) = stream_of L u r ts @ stream_of L u r us"
  by (simp_all add: stream_of_def)

lemma stream_of_concat: "stream_of L u r (concat tss) = concat (map (stream_of L u r) tss)"
  by (induction tss) simp_all

text \<open>The memory of every rank; the value at an address stands for the element that starts there.\<close>

type_synonym 'v memory = "nat \<Rightarrow> UserMemType \<Rightarrow> nat \<Rightarrow> 'v"

fun write_range :: "place \<Rightarrow> nat \<Rightarrow> (nat \<Rightarrow> 'v) \<Rightarrow> 'v memory \<Rightarrow> 'v memory" where
  "write_range (r, b, d) len g m =
     (\<lambda>r' b' a. if r' = r \<and> b' = b \<and> d \<le> a \<and> a < d + len then g (a - d) else m r' b' a)"

fun exec_action :: "('v \<Rightarrow> 'v \<Rightarrow> 'v) \<Rightarrow> action \<Rightarrow> 'v memory \<Rightarrow> 'v memory" where
  "exec_action f (Move d (q, c, s) len) m = write_range d len (\<lambda>x. m q c (s + x)) m"
| "exec_action f (Combine (r, b, d) (q, c, s) len) m =
     write_range (r, b, d) len (\<lambda>x. f (m r b (d + x)) (m q c (s + x))) m"
| "exec_action f _ m = m"

end
