(* ===== verification/Streams.thy ===== *)
theory Streams
  imports CollBase
begin

text \<open>
  The ranks' streams running side by side: every rank executes its actions in order, a wait
  blocks until the notification has been recorded, and the actions of different ranks
  interleave arbitrarily. The locales state when such a family of streams cannot block and
  when it delivers its data, whatever the interleaving.
\<close>

section \<open>Small facts on lists\<close>

lemma count_list_concat: "count_list (concat xss) x = sum_list (map (\<lambda>xs. count_list xs x) xss)"
  by (induction xss) simp_all

lemma count_list_take_mono: "i \<le> j \<Longrightarrow> count_list (take i xs) x \<le> count_list (take j xs) x"
  by (metis count_list_append le_add1 le_add_diff_inverse take_add)

lemma concat_split:
  "i < length (concat xss) \<Longrightarrow>
    \<exists>l X Y. l < length xss \<and> xss ! l = X @ (concat xss ! i) # Y \<and>
      take i (concat xss) = concat (take l xss) @ X"
proof (induction xss arbitrary: i)
  case (Cons xs xss)
  show ?case
  proof (cases "i < length xs")
    case True
    then have "xs = take i xs @ (concat (xs # xss) ! i) # drop (Suc i) xs"
      by (simp add: nth_append id_take_nth_drop)
    moreover have "take i (concat (xs # xss)) = concat (take 0 (xs # xss)) @ take i xs"
      using True by simp
    ultimately show ?thesis
      by (intro exI[of _ 0] exI[of _ "take i xs"] exI[of _ "drop (Suc i) xs"]) simp
  next
    case False
    then have i: "i - length xs < length (concat xss)" using Cons.prems by simp
    from Cons.IH[OF i] obtain l X Y where l: "l < length xss"
      "xss ! l = X @ (concat xss ! (i - length xs)) # Y"
      "take (i - length xs) (concat xss) = concat (take l xss) @ X"
      by blast
    have "concat (xs # xss) ! i = concat xss ! (i - length xs)"
      using False by (simp add: nth_append)
    moreover have "take i (concat (xs # xss)) = xs @ take (i - length xs) (concat xss)"
      using False by simp
    ultimately show ?thesis using l
      by (intro exI[of _ "Suc l"] exI[of _ X] exI[of _ Y]) simp
  qed
qed simp

lemma concat_flat: "concat (concat xsss) = concat (map concat xsss)"
  by (induction xsss) simp_all

lemma nth_middle: "l = length A + p \<Longrightarrow> p < length B \<Longrightarrow> (A @ B @ D) ! l = B ! p"
  and take_middle: "l = length A + p \<Longrightarrow> p < length B \<Longrightarrow> take l (A @ B @ D) = A @ take p B"
  by (simp_all add: nth_append)

lemma concat_at:
  "l < length xss \<Longrightarrow> xss ! l = X @ a # Y \<Longrightarrow>
    concat xss = (concat (take l xss) @ X) @ a # (Y @ concat (drop (Suc l) xss))"
  by (subst id_take_nth_drop[of l xss]) simp_all

section \<open>Execution\<close>

record 'v config =
  cf_pc :: "nat \<Rightarrow> nat"
  cf_tok :: "nat \<Rightarrow> nat \<Rightarrow> notify \<Rightarrow> nat"
  cf_mem :: "'v memory"

definition start :: "'v memory \<Rightarrow> 'v config" where
  "start m = \<lparr>cf_pc = (\<lambda>_. 0), cf_tok = (\<lambda>_ _ _. 0), cf_mem = m\<rparr>"

text \<open>\<open>cf_tok c p r k\<close>: the notifications of kind \<open>k\<close> recorded by \<open>p\<close> at \<open>r\<close> and not yet waited for.\<close>

fun enabled :: "'v config \<Rightarrow> nat \<Rightarrow> action \<Rightarrow> bool" where
  "enabled c r (Await q k) \<longleftrightarrow> 0 < cf_tok c q r k"
| "enabled c r _ \<longleftrightarrow> True"

fun take_action :: "('v \<Rightarrow> 'v \<Rightarrow> 'v) \<Rightarrow> nat \<Rightarrow> action \<Rightarrow> 'v config \<Rightarrow> 'v config" where
  "take_action f r (Post q k) c =
     c\<lparr>cf_pc := (cf_pc c)(r := Suc (cf_pc c r)),
       cf_tok := (cf_tok c)(r := (cf_tok c r)(q := (cf_tok c r q)(k := Suc (cf_tok c r q k))))\<rparr>"
| "take_action f r (Await q k) c =
     c\<lparr>cf_pc := (cf_pc c)(r := Suc (cf_pc c r)),
       cf_tok := (cf_tok c)(q := (cf_tok c q)(r := (cf_tok c q r)(k := cf_tok c q r k - 1)))\<rparr>"
| "take_action f r a c =
     c\<lparr>cf_pc := (cf_pc c)(r := Suc (cf_pc c r)), cf_mem := exec_action f a (cf_mem c)\<rparr>"

inductive stream_step ::
  "('v \<Rightarrow> 'v \<Rightarrow> 'v) \<Rightarrow> nat \<Rightarrow> (nat \<Rightarrow> action list) \<Rightarrow> 'v config \<Rightarrow> 'v config \<Rightarrow> bool"
  for f N P where
  "r < N \<Longrightarrow> cf_pc c r < length (P r) \<Longrightarrow> enabled c r (P r ! cf_pc c r) \<Longrightarrow>
    stream_step f N P c (take_action f r (P r ! cf_pc c r) c)"

definition finished :: "nat \<Rightarrow> (nat \<Rightarrow> action list) \<Rightarrow> 'v config \<Rightarrow> bool" where
  "finished N P c \<longleftrightarrow> (\<forall>r<N. cf_pc c r = length (P r))"

definition past :: "(nat \<Rightarrow> action list) \<Rightarrow> 'v config \<Rightarrow> nat \<Rightarrow> action list" where
  "past P c r = take (cf_pc c r) (P r)"

lemma take_action_pc [simp]: "cf_pc (take_action f r a c) = (cf_pc c)(r := Suc (cf_pc c r))"
  by (cases a) auto

lemma take_action_tok:
  "cf_tok (take_action f r a c) q p k =
    cf_tok c q p k + (if q = r \<and> a = Post p k then 1 else 0) - (if p = r \<and> a = Await q k then 1 else 0)"
  by (cases a) auto

declare take_action.simps [simp del]

lemma past_start [simp]: "past P (start m) r = []"
  by (simp add: past_def start_def)

lemma past_step [simp]:
  "cf_pc c r < length (P r) \<Longrightarrow>
    past P (take_action f r a c) q = (if q = r then past P c r @ [P r ! cf_pc c r] else past P c q)"
  by (simp add: past_def take_Suc_conv_app_nth)

text \<open>Notifications are neither lost nor invented.\<close>

definition tokens_ok :: "nat \<Rightarrow> (nat \<Rightarrow> action list) \<Rightarrow> 'v config \<Rightarrow> bool" where
  "tokens_ok N P c \<longleftrightarrow> (\<forall>q<N. \<forall>r<N. \<forall>k. cf_pc c r \<le> length (P r) \<and>
     cf_tok c q r k + count_list (past P c r) (Await q k) = count_list (past P c q) (Post r k))"

lemma tokens_start: "tokens_ok N P (start m)"
  by (simp add: tokens_ok_def start_def past_def)

lemma tokens_step:
  assumes inv: "tokens_ok N P c" and st: "stream_step f N P c d"
  shows "tokens_ok N P d"
  using st
proof cases
  case (1 r)
  note r = 1
  have base: "\<And>q p k. q < N \<Longrightarrow> p < N \<Longrightarrow> cf_pc c p \<le> length (P p) \<and>
     cf_tok c q p k + count_list (past P c p) (Await q k) = count_list (past P c q) (Post p k)"
    using inv by (simp add: tokens_ok_def)
  let ?a = "P r ! cf_pc c r"
  show ?thesis unfolding tokens_ok_def
  proof (intro allI impI)
    fix q p k assume q: "q < N" and p: "p < N"
    have "?a = Await q k \<Longrightarrow> p = r \<Longrightarrow> 0 < cf_tok c q p k" using r by simp
    then have "cf_tok d q p k + count_list (past P d p) (Await q k) = count_list (past P d q) (Post p k)"
      using base[OF q p, of k] r by (auto simp: take_action_tok)
    moreover have "cf_pc d p \<le> length (P p)" using base[OF q p] r by auto
    ultimately show "cf_pc d p \<le> length (P p) \<and>
        cf_tok d q p k + count_list (past P d p) (Await q k) = count_list (past P d q) (Post p k)"
      by simp
  qed
qed

text \<open>Every run is finite: each step executes one action.\<close>

lemma step_progress:
  "stream_step f N P c d \<Longrightarrow> (\<Sum>r<N. length (P r) - cf_pc c r) = Suc (\<Sum>r<N. length (P r) - cf_pc d r)"
proof (induction rule: stream_step.induct)
  case (1 r c)
  let ?g = "\<lambda>r. length (P r) - cf_pc c r" and ?h = "\<lambda>q. length (P q) - ((cf_pc c)(r := Suc (cf_pc c r))) q"
  have "sum ?g {..<N} = ?g r + sum ?g ({..<N} - {r})" "sum ?h {..<N} = ?h r + sum ?h ({..<N} - {r})"
    using 1(1) by (simp_all only: sum.remove[of "{..<N}" r] finite_lessThan lessThan_iff)
  moreover have "sum ?g ({..<N} - {r}) = sum ?h ({..<N} - {r})" by (intro sum.cong) auto
  moreover have "?g r = Suc (?h r)" using 1 by simp
  ultimately have "sum ?g {..<N} = Suc (sum ?h {..<N})" by linarith
  then show ?case by simp
qed

lemma steps_bounded:
  "(stream_step f N P ^^ n) c d \<Longrightarrow> n + (\<Sum>r<N. length (P r) - cf_pc d r) = (\<Sum>r<N. length (P r) - cf_pc c r)"
proof (induction n arbitrary: d)
  case (Suc n)
  then obtain e where "(stream_step f N P ^^ n) c e" "stream_step f N P e d" by auto
  then show ?case using Suc.IH[of e] step_progress[of f N P e d] by simp
qed simp

section \<open>Synchronisation\<close>

lemma tokens_reach: "(stream_step f N P)\<^sup>*\<^sup>* (start m) c \<Longrightarrow> tokens_ok N P c"
  by (induction rule: rtranclp_induct) (simp_all add: tokens_start tokens_step)

text \<open>Where no run blocks, every run has one length and can be completed.\<close>

definition total_actions :: "nat \<Rightarrow> (nat \<Rightarrow> action list) \<Rightarrow> nat" where
  "total_actions N P = (\<Sum>r<N. length (P r))"

lemma run_length:
  assumes "(stream_step f N P ^^ n) (start m) c"
  shows "n \<le> total_actions N P" "n = total_actions N P \<longleftrightarrow> finished N P c"
proof -
  have sum: "n + (\<Sum>r<N. length (P r) - cf_pc c r) = total_actions N P"
    using steps_bounded[OF assms] by (simp add: total_actions_def start_def)
  then show "n \<le> total_actions N P" by linarith
  have "tokens_ok N P c" using assms by (blast intro: tokens_reach relpowp_imp_rtranclp)
  then have "\<forall>r<N. cf_pc c r \<le> length (P r)" by (simp add: tokens_ok_def)
  then have "finished N P c \<longleftrightarrow> (\<Sum>r<N. length (P r) - cf_pc c r) = 0"
    by (auto simp: finished_def le_antisym)
  then show "n = total_actions N P \<longleftrightarrow> finished N P c" using sum by linarith
qed

lemma run_completes:
  assumes stuck: "\<And>c. (stream_step f N P)\<^sup>*\<^sup>* (start m) c \<Longrightarrow> \<not> finished N P c \<Longrightarrow> \<exists>d. stream_step f N P c d"
    and run: "(stream_step f N P ^^ n) (start m) c"
  shows "\<exists>d. (stream_step f N P ^^ (total_actions N P - n)) c d \<and> finished N P d"
  using run
proof (induction "total_actions N P - n" arbitrary: n c)
  case 0
  then have "n = total_actions N P" using run_length(1)[OF 0(2)] by linarith
  then show ?case using run_length(2)[OF 0(2)] by auto
next
  case (Suc k)
  have "\<not> finished N P c" using run_length(2)[OF Suc(3)] Suc(2) by linarith
  then obtain e where e: "stream_step f N P c e"
    using stuck relpowp_imp_rtranclp[OF Suc(3)] by blast
  then have run: "(stream_step f N P ^^ Suc n) (start m) e" using Suc(3) by auto
  have k: "k = total_actions N P - Suc n" using Suc(2) by linarith
  obtain d where d: "(stream_step f N P ^^ k) e d" "finished N P d" using Suc(1)[OF k run] k by auto
  then have "(stream_step f N P ^^ Suc k) c d" using e by (meson relpowp_Suc_I2)
  then show ?case using d(2) Suc(2) by metis
qed

lemma count_list_prefix_le:
  "l \<le> l' \<Longrightarrow> count_list (concat (take l xss)) x \<le> count_list (concat (take l' xss)) x"
  by (simp add: count_list_concat take_map[symmetric] flip: take_map)
    (metis le_add1 le_add_diff_inverse sum_list.append take_add)

lemma count_list_prefix_le_all: "count_list (concat (take l xss)) x \<le> count_list (concat xss) x"
  using count_list_prefix_le[of l "max l (length xss)" xss x] by simp

text \<open>
  A rank that has passed a wait knows how far the other rank has come: the recording that
  fed the wait, and everything before it, has been executed.
\<close>

lemma wait_passed:
  assumes tok: "tokens_ok N P c" and r: "r < N" "q < N"
    and Pr: "P r = A' @ Await q k # B'" "length A' < cf_pc c r"
    and Pq: "P q = A @ Post r k # B" "count_list A (Post r k) \<le> count_list A' (Await q k)"
  shows "length A < cf_pc c q"
proof (rule ccontr)
  assume "\<not> length A < cf_pc c q"
  then have "past P c q = take (cf_pc c q) A" using Pq by (simp add: past_def)
  then have "count_list (past P c q) (Post r k) \<le> count_list A (Post r k)"
    using count_list_take_mono[of "cf_pc c q" "max (cf_pc c q) (length A)" A] by simp
  moreover have "past P c r = A' @ Await q k # take (cf_pc c r - Suc (length A')) B'"
    using Pr by (simp add: past_def take_Cons')
  then have "count_list A' (Await q k) < count_list (past P c r) (Await q k)" by simp
  moreover have "cf_tok c q r k + count_list (past P c r) (Await q k) = count_list (past P c q) (Post r k)"
    using tok r by (simp add: tokens_ok_def)
  ultimately show False using Pq(2) by linarith
qed

section \<open>Programs in steps and phases\<close>

text \<open>
  Every rank runs \<open>n\<close> steps of \<open>C\<close> phases. In every step the waits of a rank on another
  are as many as that rank's recordings, and a wait in a phase is fed by a recording in an
  earlier phase. No interleaving of such streams blocks.
\<close>

locale stepwise_streams =
  fixes N n C :: nat
    and ph :: "nat \<Rightarrow> nat \<Rightarrow> action list list"
    and P :: "nat \<Rightarrow> action list"
  assumes program: "r < N \<Longrightarrow> P r = concat (map (\<lambda>s. concat (ph r s)) [0..<n])"
    and phases: "r < N \<Longrightarrow> s < n \<Longrightarrow> length (ph r s) = C"
    and balanced: "r < N \<Longrightarrow> q < N \<Longrightarrow> s < n \<Longrightarrow>
      count_list (concat (ph r s)) (Await q k) = count_list (concat (ph q s)) (Post r k)"
    and fed: "r < N \<Longrightarrow> s < n \<Longrightarrow> p < C \<Longrightarrow> ph r s ! p = X @ Await q k # Y \<Longrightarrow>
      q < N \<and> count_list (concat (take p (ph r s)) @ X) (Await q k) <
        count_list (concat (take p (ph q s))) (Post r k)"
begin

definition phs :: "nat \<Rightarrow> action list list" where
  "phs r = concat (map (ph r) [0..<n])"

definition pre :: "nat \<Rightarrow> nat \<Rightarrow> action list" where
  "pre r s = concat (map (\<lambda>t. concat (ph r t)) [0..<s])"

lemma pre_Suc: "pre r (Suc s) = pre r s @ concat (ph r s)"
  by (simp add: pre_def)

lemma program_phs: "r < N \<Longrightarrow> P r = concat (phs r)"
  by (simp add: program phs_def concat_flat o_def)

lemma program_at: "r < N \<Longrightarrow> s < n \<Longrightarrow>
    P r = pre r s @ concat (ph r s) @ concat (map (\<lambda>t. concat (ph r t)) [Suc s..<n])"
proof -
  assume a: "r < N" "s < n"
  then have "[0..<n] = [0..<s] @ s # [Suc s..<n]" by (metis le_add1 less_imp_add_positive plus_nat.add_0 upt_add_eq_append upt_conv_Cons)
  then show ?thesis using program[OF a(1)] by (simp add: pre_def)
qed

lemma phs_length_upto: "r < N \<Longrightarrow> s \<le> n \<Longrightarrow> length (concat (map (ph r) [0..<s])) = s * C"
  by (induction s) (simp_all add: phases)

lemma phs_split: "r < N \<Longrightarrow> s < n \<Longrightarrow>
    phs r = concat (map (ph r) [0..<s]) @ ph r s @ concat (map (ph r) [Suc s..<n])"
proof -
  assume a: "r < N" "s < n"
  then have "[0..<n] = [0..<s] @ s # [Suc s..<n]" by (metis le_add1 less_imp_add_positive plus_nat.add_0 upt_add_eq_append upt_conv_Cons)
  then show ?thesis by (simp add: phs_def)
qed

lemma phs_at:
  assumes "r < N" "l < n * C"
  shows "phs r ! l = ph r (l div C) ! (l mod C)"
    and "concat (take l (phs r)) = pre r (l div C) @ concat (take (l mod C) (ph r (l div C)))"
    and "l div C < n" "l mod C < C"
proof -
  have C: "0 < C" using assms(2) by (cases C) auto
  show s: "l div C < n" using assms(2) C by (simp add: less_mult_imp_div_less)
  show p: "l mod C < C" using C by simp
  have len: "length (concat (map (ph r) [0..<l div C])) = l div C * C" using phs_length_upto assms(1) s by simp
  have l: "l = length (concat (map (ph r) [0..<l div C])) + l mod C" using len by simp
  have p': "l mod C < length (ph r (l div C))" using phases assms(1) s p by simp
  show "phs r ! l = ph r (l div C) ! (l mod C)"
    unfolding phs_split[OF assms(1) s] by (rule nth_middle[OF l p'])
  have "take l (phs r) = concat (map (ph r) [0..<l div C]) @ take (l mod C) (ph r (l div C))"
    unfolding phs_split[OF assms(1) s] by (rule take_middle[OF l p'])
  then show "concat (take l (phs r)) = pre r (l div C) @ concat (take (l mod C) (ph r (l div C)))"
    by (simp add: pre_def concat_flat o_def)
qed

lemma phs_length: "r < N \<Longrightarrow> length (phs r) = n * C"
  by (simp add: phs_def phs_length_upto)

lemma pre_balanced: "r < N \<Longrightarrow> q < N \<Longrightarrow> s \<le> n \<Longrightarrow>
    count_list (pre r s) (Await q k) = count_list (pre q s) (Post r k)"
proof (induction s)
  case (Suc s)
  then show ?case using balanced[of r q s k] by (simp add: pre_Suc)
qed (simp add: pre_def)

lemma wait_fed:
  assumes "r < N" "l < n * C" "phs r ! l = X @ Await q k # Y"
  shows "q < N \<and> count_list (concat (take l (phs r)) @ X) (Await q k) < count_list (concat (take l (phs q))) (Post r k)"
proof -
  note at = phs_at[OF assms(1,2)]
  have q: "q < N" "count_list (concat (take (l mod C) (ph r (l div C))) @ X) (Await q k) <
      count_list (concat (take (l mod C) (ph q (l div C)))) (Post r k)"
    using fed[OF assms(1) at(3,4)] assms(3) at(1) by auto
  then show ?thesis
    using pre_balanced[OF assms(1) q(1), of "l div C" k] at(2,3) phs_at(2)[OF q(1) assms(2)] by simp
qed

lemma no_deadlock:
  assumes reach: "(stream_step f N P)\<^sup>*\<^sup>* (start m) c" and unfinished: "\<not> finished N P c"
  shows "\<exists>d. stream_step f N P c d"
proof -
  have tok: "tokens_ok N P c" using reach by (rule tokens_reach)
  define U where "U = {r. r < N \<and> cf_pc c r < length (P r)}"
  have "\<And>r. r < N \<Longrightarrow> cf_pc c r \<le> length (P r)" using tok by (auto simp: tokens_ok_def)
  then have "\<exists>r. r \<in> U" using unfinished by (force simp: finished_def U_def)
  have "\<forall>r\<in>U. \<exists>l X Y. l < n * C \<and> phs r ! l = X @ (P r ! cf_pc c r) # Y \<and> past P c r = concat (take l (phs r)) @ X"
  proof
    fix r assume "r \<in> U"
    then have r: "r < N" "cf_pc c r < length (P r)" by (auto simp: U_def)
    then show "\<exists>l X Y. l < n * C \<and> phs r ! l = X @ (P r ! cf_pc c r) # Y \<and> past P c r = concat (take l (phs r)) @ X"
      using concat_split[of "cf_pc c r" "phs r"] by (simp add: program_phs phs_length past_def)
  qed
  then obtain lab where lab: "\<And>r. r \<in> U \<Longrightarrow> \<exists>X Y. lab r < n * C \<and> phs r ! lab r = X @ (P r ! cf_pc c r) # Y \<and>
      past P c r = concat (take (lab r) (phs r)) @ X"
    by metis
  obtain r where r: "r \<in> U" and least: "\<And>q. q \<in> U \<Longrightarrow> lab r \<le> lab q"
    using \<open>\<exists>r. r \<in> U\<close> ex_has_least_nat[of "\<lambda>r. r \<in> U" _ lab] by blast
  then have rN: "r < N" "cf_pc c r < length (P r)" by (auto simp: U_def)
  have "enabled c r (P r ! cf_pc c r)"
  proof (cases "P r ! cf_pc c r")
    case (Await q k)
    obtain X Y where X: "lab r < n * C" "phs r ! lab r = X @ Await q k # Y"
      "past P c r = concat (take (lab r) (phs r)) @ X"
      using lab[OF r] Await by auto
    have q: "q < N" "count_list (past P c r) (Await q k) < count_list (concat (take (lab r) (phs q))) (Post r k)"
      using wait_fed[OF rN(1) X(1,2)] X(3) by auto
    have "count_list (concat (take (lab r) (phs q))) (Post r k) \<le> count_list (past P c q) (Post r k)"
    proof (cases "q \<in> U")
      case True
      then obtain X' where "past P c q = concat (take (lab q) (phs q)) @ X'" using lab by blast
      then show ?thesis using count_list_prefix_le[OF least[OF True], of "phs q" "Post r k"] by simp
    next
      case False
      then have "past P c q = concat (phs q)" using q(1) by (simp add: U_def past_def program_phs)
      then show ?thesis by (simp add: count_list_prefix_le_all)
    qed
    moreover have "cf_tok c q r k + count_list (past P c r) (Await q k) = count_list (past P c q) (Post r k)"
      using tok q(1) rN(1) by (simp add: tokens_ok_def)
    ultimately show ?thesis using q(2) Await by simp
  qed simp_all
  then show ?thesis using stream_step.intros rN by blast
qed

lemma step_wait_passed:
  assumes tok: "tokens_ok N P c" and "r < N" "q < N" "s < n"
    and r: "concat (ph r s) = A' @ Await q k # B'" "length (pre r s @ A') < cf_pc c r"
    and q: "concat (ph q s) = A @ Post r k # B" "count_list A (Post r k) \<le> count_list A' (Await q k)"
  shows "length (pre q s @ A) < cf_pc c q"
  using wait_passed[OF tok assms(2,3), of "pre r s @ A'" k _ "pre q s @ A"]
    program_at[OF assms(2,4)] program_at[OF assms(3,4)] r q pre_balanced[OF assms(2,3), of s k] assms(4)
  by simp

end

section \<open>Streams that distribute final values\<close>

text \<open>
  Every value a rank may hold is final from the start or arrives by copies of final values:
  \<open>fin r b a\<close> is the value rank \<open>r\<close> shall hold at \<open>(b, a)\<close>, \<open>K s r\<close> the addresses known to be
  final when \<open>r\<close> has executed its steps before \<open>s\<close>, and \<open>R s r\<close> those delivered during step \<open>s\<close>,
  by \<open>r\<close> itself or by a rank whose completion \<open>r\<close> has awaited in that step. A copy reads from
  the rank itself, or from a rank known to have executed its earlier steps.
\<close>

locale gather_streams = stepwise_streams N n C ph P
  for N n C :: nat and ph :: "nat \<Rightarrow> nat \<Rightarrow> action list list" and P :: "nat \<Rightarrow> action list" +
  fixes m0 fin :: "'v memory"
    and K R :: "nat \<Rightarrow> nat \<Rightarrow> (UserMemType \<times> nat) set"
  assumes initially: "r < N \<Longrightarrow> (b, a) \<in> K 0 r \<Longrightarrow> m0 r b a = fin r b a"
    and known_Suc: "r < N \<Longrightarrow> s < n \<Longrightarrow> K (Suc s) r \<subseteq> K s r \<union> R s r"
    and no_combine: "r < N \<Longrightarrow> s < n \<Longrightarrow> Combine x y l \<notin> set (concat (ph r s))"
    and sources: "r < N \<Longrightarrow> s < n \<Longrightarrow> concat (ph r s) = X @ Move (d, db, da) (q, sb, sa) len # Y \<Longrightarrow>
      q < N \<and> (\<forall>x<len. (sb, sa + x) \<in> K s q \<and> fin d db (da + x) = fin q sb (sa + x)) \<and>
      (q = r \<or> (\<exists>k X1 X2 Z1 Z2. X = X1 @ Await q k # X2 \<and> concat (ph q s) = Z1 @ Post r k # Z2 \<and>
        count_list Z1 (Post r k) \<le> count_list X1 (Await q k)))"
    and delivered: "r < N \<Longrightarrow> s < n \<Longrightarrow> (b, a) \<in> R s r \<Longrightarrow>
      \<exists>p<N. \<exists>X Y da src len. concat (ph p s) = X @ Move (r, b, da) src len # Y \<and> da \<le> a \<and> a < da + len \<and>
        (p = r \<or> (\<exists>k Y1 Y2 Z1 Z2. Y = Y1 @ Post r k # Y2 \<and> concat (ph r s) = Z1 @ Await p k # Z2 \<and>
          count_list (X @ Move (r, b, da) src len # Y1) (Post r k) \<le> count_list Z1 (Await p k)))"
begin

definition written :: "'v config \<Rightarrow> nat \<Rightarrow> UserMemType \<Rightarrow> nat \<Rightarrow> bool" where
  "written c q b a \<longleftrightarrow> (b, a) \<in> K 0 q \<or>
     (\<exists>p<N. \<exists>da src len. Move (q, b, da) src len \<in> set (past P c p) \<and> da \<le> a \<and> a < da + len)"

definition good :: "'v config \<Rightarrow> bool" where
  "good c \<longleftrightarrow> tokens_ok N P c \<and> (\<forall>q<N. \<forall>b a. written c q b a \<longrightarrow> cf_mem c q b a = fin q b a)"

lemma past_pre: "r < N \<Longrightarrow> s < n \<Longrightarrow> length (pre r s @ X) \<le> cf_pc c r \<Longrightarrow> concat (ph r s) = X @ Y \<Longrightarrow>
    set (pre r s @ X) \<subseteq> set (past P c r)"
  using program_at[of r s] by (auto simp: past_def take_Cons')

lemma known_written:
  assumes tok: "tokens_ok N P c" and r: "r < N"
  shows "s \<le> n \<Longrightarrow> length (pre r s) \<le> cf_pc c r \<Longrightarrow> (b, a) \<in> K s r \<Longrightarrow> written c r b a"
proof (induction s)
  case 0
  then show ?case by (simp add: written_def)
next
  case (Suc s)
  then have s: "s < n" and len: "length (pre r s) \<le> cf_pc c r"
    "length (pre r s @ concat (ph r s)) \<le> cf_pc c r" by (simp_all add: pre_Suc)
  show ?case
  proof (cases "(b, a) \<in> K s r")
    case True
    then show ?thesis using Suc.IH s len by simp
  next
    case False
    then have new: "(b, a) \<in> R s r" using known_Suc[OF r s] Suc.prems by blast
    obtain p X Y da src l where p: "p < N" "concat (ph p s) = X @ Move (r, b, da) src l # Y"
      "da \<le> a" "a < da + l"
      and how: "p = r \<or> (\<exists>k Y1 Y2 Z1 Z2. Y = Y1 @ Post r k # Y2 \<and> concat (ph r s) = Z1 @ Await p k # Z2 \<and>
          count_list (X @ Move (r, b, da) src l # Y1) (Post r k) \<le> count_list Z1 (Await p k))"
      using delivered[OF r s new] by (elim exE conjE) (rule that, assumption+)
    have "Move (r, b, da) src l \<in> set (past P c p)"
      using how
    proof
      assume pr: "p = r"
      then have "Move (r, b, da) src l \<in> set (concat (ph r s))" using p(2) by simp
      then show ?thesis using past_pre[OF r s len(2), of "[]"] pr by auto
    next
      assume "\<exists>k Y1 Y2 Z1 Z2. Y = Y1 @ Post r k # Y2 \<and> concat (ph r s) = Z1 @ Await p k # Z2 \<and>
          count_list (X @ Move (r, b, da) src l # Y1) (Post r k) \<le> count_list Z1 (Await p k)"
      then obtain k Y1 Y2 Z1 Z2 where k: "Y = Y1 @ Post r k # Y2" "concat (ph r s) = Z1 @ Await p k # Z2"
          "count_list (X @ Move (r, b, da) src l # Y1) (Post r k) \<le> count_list Z1 (Await p k)"
        by blast
      have "length (pre r s @ Z1) < cf_pc c r" using len(2) k(2) by simp
      moreover have "concat (ph p s) = (X @ Move (r, b, da) src l # Y1) @ Post r k # Y2" using p(2) k(1) by simp
      ultimately have "length (pre p s @ (X @ Move (r, b, da) src l # Y1)) < cf_pc c p"
        by (rule step_wait_passed[OF tok r p(1) s k(2) _ _ k(3)])
      then show ?thesis
        using past_pre[OF p(1) s, of "X @ Move (r, b, da) src l # Y1" c "Post r k # Y2"] p(2) k(1) by auto
    qed
    then show ?thesis unfolding written_def using p(1,3,4) by blast
  qed
qed

lemma good_start: "good (start m0)"
proof -
  have "cf_mem (start m0) = m0" by (simp add: start_def)
  then show ?thesis using initially tokens_start by (auto simp: good_def written_def)
qed

lemma good_step:
  assumes good: "good c" and st: "stream_step f N P c d"
  shows "good d"
  using st
proof cases
  case (1 r)
  let ?a = "P r ! cf_pc c r"
  have tok: "tokens_ok N P c" and val: "\<And>q b a. q < N \<Longrightarrow> written c q b a \<Longrightarrow> cf_mem c q b a = fin q b a"
    using good by (auto simp: good_def)
  have split: "\<exists>s X Y. s < n \<and> concat (ph r s) = X @ ?a # Y \<and> past P c r = pre r s @ X"
    using concat_split[of "cf_pc c r" "map (\<lambda>s. concat (ph r s)) [0..<n]"] 1
    by (auto simp: program[OF 1(2)] past_def pre_def take_map)
  have mem: "q < N \<Longrightarrow> written d q b a \<Longrightarrow> cf_mem d q b a = fin q b a" for q b a
  proof (cases ?a)
    case (Move x y len)
    obtain dr db da where x: "x = (dr, db, da)" by (cases x) auto
    obtain sr sb sa where y: "y = (sr, sb, sa)" by (cases y) auto
    assume q: "q < N" and w: "written d q b a"
    obtain s X Y where s: "s < n" "concat (ph r s) = X @ ?a # Y" "past P c r = pre r s @ X"
      using split by blast
    then have src: "sr < N" "\<forall>i<len. (sb, sa + i) \<in> K s sr \<and> fin dr db (da + i) = fin sr sb (sa + i)"
      and how: "sr = r \<or> (\<exists>k X1 X2 Z1 Z2. X = X1 @ Await sr k # X2 \<and> concat (ph sr s) = Z1 @ Post r k # Z2 \<and>
        count_list Z1 (Post r k) \<le> count_list X1 (Await sr k))"
      using sources[OF 1(2) s(1), of X dr db da sr sb sa len Y] Move x y by auto
    have pc: "length (pre r s @ X) = cf_pc c r" using s(3) 1 by (metis length_take less_imp_le min.absorb2 past_def)
    have far: "length (pre sr s) \<le> cf_pc c sr"
      using how
    proof
      assume "sr = r"
      then show ?thesis using pc by simp
    next
      assume "\<exists>k X1 X2 Z1 Z2. X = X1 @ Await sr k # X2 \<and> concat (ph sr s) = Z1 @ Post r k # Z2 \<and>
        count_list Z1 (Post r k) \<le> count_list X1 (Await sr k)"
      then obtain k X1 X2 Z1 Z2 where k: "X = X1 @ Await sr k # X2" "concat (ph sr s) = Z1 @ Post r k # Z2"
        "count_list Z1 (Post r k) \<le> count_list X1 (Await sr k)" by blast
      have "length (pre r s @ X1) < cf_pc c r" using pc k(1) by simp
      moreover have "concat (ph r s) = X1 @ Await sr k # (X2 @ ?a # Y)" using s(2) k(1) by simp
      ultimately have "length (pre sr s @ Z1) < cf_pc c sr"
        using step_wait_passed[OF tok 1(2) src(1) s(1) _ _ k(2,3)] by blast
      then show ?thesis by simp
    qed
    have known: "\<forall>i<len. cf_mem c sr sb (sa + i) = fin sr sb (sa + i)"
      using known_written[OF tok src(1) _ far] s(1) src val by auto
    have w': "written c q b a \<or> (q = dr \<and> b = db \<and> da \<le> a \<and> a < da + len)"
      using w 1 Move x by (auto simp: written_def split: if_splits)
    show ?thesis
    proof (cases "q = dr \<and> b = db \<and> da \<le> a \<and> a < da + len")
      case True
      then have "a = da + (a - da)" "a - da < len" by auto
      then have "cf_mem d q b a = cf_mem c sr sb (sa + (a - da))"
        using True 1(1) Move x y by (simp add: take_action.simps)
      also have "\<dots> = fin sr sb (sa + (a - da))" using known \<open>a - da < len\<close> by blast
      also have "\<dots> = fin dr db (da + (a - da))" using src(2) \<open>a - da < len\<close> by metis
      also have "\<dots> = fin q b a" using True by auto
      finally show ?thesis .
    next
      case False
      then show ?thesis using w' val[OF q] 1(1) Move x y by (auto simp: take_action.simps)
    qed
  next
    case (Combine x y l)
    then show ?thesis using split no_combine[OF 1(2)] by (metis in_set_conv_decomp)
  next
    case (Post u k)
    assume "q < N" "written d q b a"
    then have "written c q b a" using 1 Post by (auto simp: written_def split: if_splits)
    moreover have "cf_mem d = cf_mem c" using 1(1) Post by (simp add: take_action.simps)
    ultimately show ?thesis using val \<open>q < N\<close> by simp
  next
    case (Await u k)
    assume "q < N" "written d q b a"
    then have "written c q b a" using 1 Await by (auto simp: written_def split: if_splits)
    moreover have "cf_mem d = cf_mem c" using 1(1) Await by (simp add: take_action.simps)
    ultimately show ?thesis using val \<open>q < N\<close> by simp
  qed
  then show ?thesis using tokens_step[OF tok st] by (simp add: good_def)
qed

text \<open>When all ranks are done, all they shall know is in their memories.\<close>

theorem delivers:
  assumes "(stream_step f N P)\<^sup>*\<^sup>* (start m0) c" "finished N P c" "r < N" "(b, a) \<in> K n r"
  shows "cf_mem c r b a = fin r b a"
proof -
  have "good c" using assms(1) by (induction rule: rtranclp_induct) (simp_all add: good_start good_step)
  moreover have "length (pre r n) \<le> cf_pc c r"
    using assms(2,3) program[OF assms(3)] by (simp add: finished_def pre_def)
  ultimately show ?thesis using known_written[of c r n b a] assms(3,4) unfolding good_def by blast
qed

end

end
