(* ===== verification/Gather.thy ===== *)
theory Gather
  imports Streams
begin

text \<open>
  Gathering by rounds: in round \<open>s\<close> every rank receives from \<open>from s r\<close> the parts \<open>rx s r\<close>, which
  that rank holds already. The locales turn such a schedule, run over the two protocols of
  the templates (the receiver reads; the sender writes), into streams that neither block
  nor lose data.
\<close>

definition read_phases :: "nat \<Rightarrow> nat \<Rightarrow> action list \<Rightarrow> action list list" where
  "read_phases to from mv =
     [[Post to SendDone], [Await from SendDone], mv, [Post from SendReady], [Await to SendReady], []]"

definition write_phases ::
  "bool \<Rightarrow> bool \<Rightarrow> bool \<Rightarrow> bool \<Rightarrow> nat \<Rightarrow> nat \<Rightarrow> action list \<Rightarrow> action list \<Rightarrow> action list list" where
  "write_phases tx rx ack bar to from mvw mvr =
     [if rx then [Post from SendDone] else [], if tx then [Await to SendDone] else [],
      if tx then mvw @ [Post to SendReady] else [], if rx then Await from SendReady # mvr else [],
      if rx \<and> ack then [Post from DataAck] else [], if tx \<and> ack then [Await to DataAck] else [],
      if bar then [Post from SendDone] else [], if bar then [Await to SendDone] else [],
      if bar then [Post to SendReady] else [], if bar then [Await from SendReady] else []]"

definition only_moves :: "action list \<Rightarrow> bool" where
  "only_moves as \<longleftrightarrow> (\<forall>a\<in>set as. \<exists>d s l. a = Move d s l)"

lemma only_moves_count [simp]:
  "only_moves as \<Longrightarrow> count_list as (Post q k) = 0" "only_moves as \<Longrightarrow> count_list as (Await q k) = 0"
  by (auto simp: only_moves_def count_list_0_iff)

lemma only_moves_simps [simp]: "only_moves []"
  "only_moves (a # as) \<longleftrightarrow> (\<exists>d s l. a = Move d s l) \<and> only_moves as"
  "only_moves (as @ bs) \<longleftrightarrow> only_moves as \<and> only_moves bs"
  by (auto simp: only_moves_def)

lemma only_moves_split:
  "only_moves as \<Longrightarrow> as \<noteq> X @ Await q k # Y" "only_moves as \<Longrightarrow> as \<noteq> X @ Post q k # Y"
  by auto

lemma split_after:
  "ys @ a # B = X @ b # Y \<Longrightarrow> b \<notin> set ys \<Longrightarrow> a \<noteq> b \<Longrightarrow> \<exists>X2. X = ys @ a # X2 \<and> B = X2 @ b # Y"
  by (auto simp: append_eq_append_conv2 Cons_eq_append_conv append_eq_Cons_conv)

definition write_head :: "bool \<Rightarrow> bool \<Rightarrow> nat \<Rightarrow> nat \<Rightarrow> action list" where
  "write_head tx rx to from = (if rx then [Post from SendDone] else []) @ (if tx then [Await to SendDone] else [])"

definition write_tail :: "bool \<Rightarrow> bool \<Rightarrow> bool \<Rightarrow> bool \<Rightarrow> nat \<Rightarrow> nat \<Rightarrow> action list" where
  "write_tail tx rx ack bar to from =
     (if rx \<and> ack then [Post from DataAck] else []) @ (if tx \<and> ack then [Await to DataAck] else []) @
     (if bar then [Post from SendDone, Await to SendDone, Post to SendReady, Await from SendReady] else [])"

lemma write_concat:
  "concat (write_phases tx rx ack bar to from mvw mvr) =
    write_head tx rx to from @ (if tx then mvw @ [Post to SendReady] else []) @
    (if rx then Await from SendReady # mvr else []) @ write_tail tx rx ack bar to from"
  by (simp add: write_phases_def write_head_def write_tail_def)

lemma write_head_facts [simp]: "Move d x l \<notin> set (write_head tx rx to from)" "Combine d x l \<notin> set (write_head tx rx to from)"
  "Move d x l \<notin> set (write_tail tx rx ack bar to from)" "Combine d x l \<notin> set (write_tail tx rx ack bar to from)"
  "count_list (write_head tx rx to from) (Post q SendReady) = 0"
  by (simp_all add: write_head_def write_tail_def)

locale gather_schedule =
  fixes N n :: nat
    and "from" to :: "nat \<Rightarrow> nat \<Rightarrow> nat"
    and rx H :: "nat \<Rightarrow> nat \<Rightarrow> nat set"
    and cells :: "nat \<Rightarrow> nat set"
    and own :: "nat \<Rightarrow> action list"
    and m0 :: "'v memory"
    and g :: "nat \<Rightarrow> 'v"
  assumes partners: "r < N \<Longrightarrow> s < n \<Longrightarrow> from s r < N" "r < N \<Longrightarrow> s < n \<Longrightarrow> to s r < N"
      "r < N \<Longrightarrow> q < N \<Longrightarrow> s < n \<Longrightarrow> from s r = q \<longleftrightarrow> to s q = r"
    and held_0: "r < N \<Longrightarrow> H 0 r \<subseteq> {r}"
    and held_Suc: "r < N \<Longrightarrow> s < n \<Longrightarrow> H (Suc s) r \<subseteq> H s r \<union> rx s r"
    and received_held: "r < N \<Longrightarrow> s < n \<Longrightarrow> rx s r \<subseteq> H s (from s r)"
    and own_part: "r < N \<Longrightarrow>
      (own r = [] \<and> (\<forall>a\<in>cells r. m0 r OUTPUT_MEM a = g a)) \<or>
      (\<exists>sb da sa len. sb \<noteq> OUTPUT_MEM \<and> own r = [Move (r, OUTPUT_MEM, da) (r, sb, sa) len] \<and>
         cells r = {da..<da + len} \<and> (\<forall>x<len. m0 r sb (sa + x) = g (da + x)))"
begin

definition fin :: "'v memory" where
  "fin r b a = (if b = OUTPUT_MEM then g a else m0 r b a)"

fun K :: "nat \<Rightarrow> nat \<Rightarrow> (UserMemType \<times> nat) set" where
  "K 0 r = {(b, a). b \<noteq> OUTPUT_MEM \<or> own r = [] \<and> a \<in> cells r}"
| "K (Suc s) r = {(b, a). b \<noteq> OUTPUT_MEM \<or> (\<exists>l\<in>H s r. a \<in> cells l)}"

fun R :: "nat \<Rightarrow> nat \<Rightarrow> (UserMemType \<times> nat) set" where
  "R 0 r = (if own r = [] then {} else Pair OUTPUT_MEM ` cells r)"
| "R (Suc s) r = {OUTPUT_MEM} \<times> (\<Union>l\<in>rx s r. cells l)"

lemma known_0: "r < N \<Longrightarrow> (b, a) \<in> K 0 r \<Longrightarrow> m0 r b a = fin r b a"
  using own_part[of r] by (auto simp: fin_def)

lemma known_step: "r < N \<Longrightarrow> s < Suc n \<Longrightarrow> K (Suc s) r \<subseteq> K s r \<union> R s r"
  using held_0[of r] held_Suc[of r "s - 1"] by (cases s) auto

lemma own_moves: "r < N \<Longrightarrow> only_moves (own r)"
  using own_part[of r] by auto

lemma own_source:
  "r < N \<Longrightarrow> own r = X @ Move (d, db, da) (q, sb, sa) len # Y \<Longrightarrow>
    q = r \<and> (\<forall>x<len. (sb, sa + x) \<in> K 0 q \<and> fin d db (da + x) = fin q sb (sa + x))"
  using own_part[of r] by (auto simp: fin_def append_eq_Cons_conv)

lemma own_delivers:
  "r < N \<Longrightarrow> (b, a) \<in> R 0 r \<Longrightarrow> b = OUTPUT_MEM \<and>
     (\<exists>src da len. own r = [Move (r, OUTPUT_MEM, da) src len] \<and> da \<le> a \<and> a < da + len)"
  using own_part[of r] by auto

end

text \<open>The receiver reads: \<open>mv s r\<close> are its copies in round \<open>s\<close>.\<close>

locale read_gather = gather_schedule N n "from" to rx H cells own m0 g
  for N n :: nat and "from" to :: "nat \<Rightarrow> nat \<Rightarrow> nat" and rx H :: "nat \<Rightarrow> nat \<Rightarrow> nat set"
    and cells :: "nat \<Rightarrow> nat set" and own :: "nat \<Rightarrow> action list" and m0 :: "'v memory" and g :: "nat \<Rightarrow> 'v" +
  fixes mv :: "nat \<Rightarrow> nat \<Rightarrow> action list"
    and P :: "nat \<Rightarrow> action list"
  assumes read_moves: "r < N \<Longrightarrow> s < n \<Longrightarrow> act \<in> set (mv s r) \<Longrightarrow>
      \<exists>a len. act = Move (r, OUTPUT_MEM, a) (from s r, OUTPUT_MEM, a) len \<and> {a..<a + len} \<subseteq> (\<Union>l\<in>rx s r. cells l)"
    and read_covers: "r < N \<Longrightarrow> s < n \<Longrightarrow> l \<in> rx s r \<Longrightarrow> c \<in> cells l \<Longrightarrow>
      \<exists>a len. Move (r, OUTPUT_MEM, a) (from s r, OUTPUT_MEM, a) len \<in> set (mv s r) \<and> a \<le> c \<and> c < a + len"
    and read_program: "r < N \<Longrightarrow>
      P r = own r @ concat (map (\<lambda>s. concat (read_phases (to s r) (from s r) (mv s r))) [0..<n])"
begin

fun ph :: "nat \<Rightarrow> nat \<Rightarrow> action list list" where
  "ph r 0 = [own r, [], [], [], [], []]"
| "ph r (Suc s) = read_phases (to s r) (from s r) (mv s r)"

lemma mv_moves: "r < N \<Longrightarrow> s < n \<Longrightarrow> only_moves (mv s r)"
  using read_moves by (fastforce simp: only_moves_def)

lemma stepwise: "stepwise_streams N (Suc n) 6 ph P"
proof
  fix r assume "r < N"
  then show "P r = concat (map (\<lambda>s. concat (ph r s)) [0..<Suc n])"
    using read_program by (simp add: upt_conv_Cons map_Suc_upt[symmetric] o_def del: upt_Suc)
next
  fix r s show "length (ph r s) = 6" by (cases s) (simp_all add: read_phases_def)
next
  fix r q s k assume a: "r < N" "q < N" "s < Suc n"
  show "count_list (concat (ph r s)) (Await q k) = count_list (concat (ph q s)) (Post r k)"
  proof (cases s)
    case (Suc t)
    then show ?thesis using a mv_moves partners(3)[of r q t] partners(3)[of q r t]
      by (auto simp: read_phases_def)
  qed (use a own_moves in simp)
next
  fix r s p X q k Y assume a: "r < N" "s < Suc n" "p < 6" "ph r s ! p = X @ Await q k # Y"
  show "q < N \<and> count_list (concat (take p (ph r s)) @ X) (Await q k) <
        count_list (concat (take p (ph q s))) (Post r k)"
  proof (cases s)
    case (Suc t)
    then have t: "t < n" using a by simp
    have "p = 0 \<or> p = 1 \<or> p = 2 \<or> p = 3 \<or> p = 4 \<or> p = 5" using a(3) by linarith
    then show ?thesis
      using a Suc t mv_moves[of r t] mv_moves[of q t] only_moves_split(1)[of "mv t r" X q k Y]
        partners(1)[of r t] partners(2)[of r t] partners(3)[of r "from t r" t] partners(3)[of "to t r" r t]
      by (auto simp: read_phases_def Cons_eq_append_conv numeral_eq_Suc)
  qed (use a own_moves only_moves_split(1)[of "own r" X q k Y] in \<open>auto simp: nth_Cons split: nat.splits\<close>)
qed

lemma streams: "gather_streams N (Suc n) 6 ph P m0 fin K R"
proof (intro gather_streams.intro gather_streams_axioms.intro)
  show "stepwise_streams N (Suc n) 6 ph P" by (rule stepwise)
next
  fix r b a assume "r < N" "(b, a) \<in> K 0 r"
  then show "m0 r b a = fin r b a" by (rule known_0)
next
  fix r s assume "r < N" "s < Suc n"
  then show "K (Suc s) r \<subseteq> K s r \<union> R s r" by (rule known_step)
next
  fix r s x y l assume a: "r < N" "s < Suc n"
  show "Combine x y l \<notin> set (concat (ph r s))"
    using a own_moves[of r] mv_moves[of r "s - 1"]
    by (cases s) (auto simp: read_phases_def only_moves_def)
next
  fix r s X d db da q sb sa len Y
  assume a: "r < N" "s < Suc n" and e: "concat (ph r s) = X @ Move (d, db, da) (q, sb, sa) len # Y"
  show "q < N \<and> (\<forall>x<len. (sb, sa + x) \<in> K s q \<and> fin d db (da + x) = fin q sb (sa + x)) \<and>
      (q = r \<or> (\<exists>k X1 X2 Z1 Z2. X = X1 @ Await q k # X2 \<and> concat (ph q s) = Z1 @ Post r k # Z2 \<and>
        count_list Z1 (Post r k) \<le> count_list X1 (Await q k)))"
  proof (cases s)
    case 0
    then have "own r = X @ Move (d, db, da) (q, sb, sa) len # Y" using e by simp
    then show ?thesis using own_source[OF a(1)] a(1) 0 by blast
  next
    case (Suc t)
    then have t: "t < n" using a by simp
    have in_mv: "Move (d, db, da) (q, sb, sa) len \<in> set (mv t r)"
      using arg_cong[OF e, of set] Suc by (auto simp: read_phases_def)
    obtain X2 where X: "X = [Post (to t r) SendDone] @ Await (from t r) SendDone # X2"
      using e Suc by (auto simp: read_phases_def Cons_eq_append_conv)
    obtain A len' where act: "d = r" "db = OUTPUT_MEM" "da = A" "q = from t r" "sb = OUTPUT_MEM" "sa = A"
      "{A..<A + len} \<subseteq> (\<Union>l\<in>rx t r. cells l)"
      using read_moves[OF a(1) t in_mv] by auto
    have held: "rx t r \<subseteq> H t q" using received_held[OF a(1) t] act by simp
    have src: "\<forall>x<len. (sb, sa + x) \<in> K s q \<and> fin d db (da + x) = fin q sb (sa + x)"
    proof (intro allI impI)
      fix x assume "x < len"
      then have "A + x \<in> {A..<A + len}" by simp
      then obtain l where "l \<in> rx t r" "A + x \<in> cells l" using act(7) by blast
      then show "(sb, sa + x) \<in> K s q \<and> fin d db (da + x) = fin q sb (sa + x)"
        using held act Suc by (auto simp: fin_def)
    qed
    have "to t q = r" using partners(1)[OF a(1) t] partners(3)[OF a(1) _ t, of q] act(4) by simp
    then have "concat (ph q s) = [] @ Post r SendDone # tl (concat (ph q s))"
      using Suc by (simp add: read_phases_def)
    then have "\<exists>k X1 X2 Z1 Z2. X = X1 @ Await q k # X2 \<and> concat (ph q s) = Z1 @ Post r k # Z2 \<and>
        count_list Z1 (Post r k) \<le> count_list X1 (Await q k)"
      using X act by (metis count_list.simps(1) le0)
    then show ?thesis using src act partners(1)[OF a(1) t] by simp
  qed
next
  fix r s b a assume r: "r < N" "s < Suc n" "(b, a) \<in> R s r"
  have "\<exists>X Y da src len. concat (ph r s) = X @ Move (r, b, da) src len # Y \<and> da \<le> a \<and> a < da + len"
  proof (cases s)
    case 0
    then show ?thesis using own_delivers[OF r(1), of b a] r(3) by fastforce
  next
    case (Suc t)
    then obtain l where l: "l \<in> rx t r" "a \<in> cells l" "b = OUTPUT_MEM" using r(3) by auto
    then obtain A len where "Move (r, OUTPUT_MEM, A) (from t r, OUTPUT_MEM, A) len \<in> set (mv t r)" "A \<le> a" "a < A + len"
      using read_covers[of r t l a] Suc r by auto
    moreover from this(1) have "Move (r, OUTPUT_MEM, A) (from t r, OUTPUT_MEM, A) len \<in> set (concat (ph r s))"
      using Suc by (simp add: read_phases_def)
    ultimately show ?thesis using l(3) by (metis split_list)
  qed
  then show "\<exists>p<N. \<exists>X Y da src len. concat (ph p s) = X @ Move (r, b, da) src len # Y \<and> da \<le> a \<and> a < da + len \<and>
        (p = r \<or> (\<exists>k Y1 Y2 Z1 Z2. Y = Y1 @ Post r k # Y2 \<and> concat (ph r s) = Z1 @ Await p k # Z2 \<and>
          count_list (X @ Move (r, b, da) src len # Y1) (Post r k) \<le> count_list Z1 (Await p k)))"
    using r(1) by blast
qed

lemma no_deadlock:
  "(stream_step f N P)\<^sup>*\<^sup>* (start m) c \<Longrightarrow> \<not> finished N P c \<Longrightarrow> \<exists>d. stream_step f N P c d"
  by (rule stepwise_streams.no_deadlock[OF stepwise])

lemma gathers:
  assumes "(stream_step f N P)\<^sup>*\<^sup>* (start m0) c" "finished N P c" "r < N" "l \<in> H n r" "a \<in> cells l"
  shows "cf_mem c r OUTPUT_MEM a = g a"
  using gather_streams.delivers[OF streams assms(1-3), of OUTPUT_MEM a] assms(4,5) by (auto simp: fin_def)

end

text \<open>
  The sender writes (\<open>mvw\<close>), or the receiver reads once the sender is ready (\<open>mvr\<close>); \<open>tx s r\<close>:
  rank \<open>r\<close> has something to send in round \<open>s\<close>. A final acknowledgement or a barrier may follow.
\<close>

locale write_gather = gather_schedule N n "from" to rx H cells own m0 g
  for N n :: nat and "from" to :: "nat \<Rightarrow> nat \<Rightarrow> nat" and rx H :: "nat \<Rightarrow> nat \<Rightarrow> nat set"
    and cells :: "nat \<Rightarrow> nat set" and own :: "nat \<Rightarrow> action list" and m0 :: "'v memory" and g :: "nat \<Rightarrow> 'v" +
  fixes tx :: "nat \<Rightarrow> nat \<Rightarrow> bool"
    and ack bar :: bool
    and mvw mvr :: "nat \<Rightarrow> nat \<Rightarrow> action list"
    and P :: "nat \<Rightarrow> action list"
  assumes write_moves: "r < N \<Longrightarrow> s < n \<Longrightarrow> act \<in> set (mvw s r) \<Longrightarrow>
      \<exists>a len. act = Move (to s r, OUTPUT_MEM, a) (r, OUTPUT_MEM, a) len \<and> {a..<a + len} \<subseteq> (\<Union>l\<in>rx s (to s r). cells l)"
    and read_moves: "r < N \<Longrightarrow> s < n \<Longrightarrow> act \<in> set (mvr s r) \<Longrightarrow>
      \<exists>a len. act = Move (r, OUTPUT_MEM, a) (from s r, OUTPUT_MEM, a) len \<and> {a..<a + len} \<subseteq> (\<Union>l\<in>rx s r. cells l)"
    and covers: "r < N \<Longrightarrow> s < n \<Longrightarrow> l \<in> rx s r \<Longrightarrow> c \<in> cells l \<Longrightarrow>
      tx s (from s r) \<and> (\<exists>a len. (Move (r, OUTPUT_MEM, a) (from s r, OUTPUT_MEM, a) len \<in> set (mvr s r) \<or>
        Move (r, OUTPUT_MEM, a) (from s r, OUTPUT_MEM, a) len \<in> set (mvw s (from s r))) \<and> a \<le> c \<and> c < a + len)"
    and write_program: "r < N \<Longrightarrow> P r = own r @ concat (map (\<lambda>s. concat
        (write_phases (tx s r) (tx s (from s r)) ack bar (to s r) (from s r) (mvw s r) (mvr s r))) [0..<n])"
begin

fun ph :: "nat \<Rightarrow> nat \<Rightarrow> action list list" where
  "ph r 0 = [own r, [], [], [], [], [], [], [], [], []]"
| "ph r (Suc s) = write_phases (tx s r) (tx s (from s r)) ack bar (to s r) (from s r) (mvw s r) (mvr s r)"

lemma mv_moves: "r < N \<Longrightarrow> s < n \<Longrightarrow> only_moves (mvw s r)" "r < N \<Longrightarrow> s < n \<Longrightarrow> only_moves (mvr s r)"
  using write_moves read_moves by (fastforce simp: only_moves_def)+

lemma stepwise: "stepwise_streams N (Suc n) 10 ph P"
proof
  fix r assume "r < N"
  then show "P r = concat (map (\<lambda>s. concat (ph r s)) [0..<Suc n])"
    using write_program by (simp add: upt_conv_Cons map_Suc_upt[symmetric] o_def del: upt_Suc)
next
  fix r s show "length (ph r s) = 10" by (cases s) (simp_all add: write_phases_def)
next
  fix r q s k assume a: "r < N" "q < N" "s < Suc n"
  show "count_list (concat (ph r s)) (Await q k) = count_list (concat (ph q s)) (Post r k)"
  proof (cases s)
    case (Suc t)
    then show ?thesis using a mv_moves partners(3)[of r q t] partners(3)[of q r t]
      by (auto simp: write_phases_def)
  qed (use a own_moves in simp)
next
  fix r s p X q k Y assume a: "r < N" "s < Suc n" "p < 10" "ph r s ! p = X @ Await q k # Y"
  show "q < N \<and> count_list (concat (take p (ph r s)) @ X) (Await q k) <
        count_list (concat (take p (ph q s))) (Post r k)"
  proof (cases s)
    case (Suc t)
    then have t: "t < n" using a by simp
    note f = partners(1)[OF a(1) t] partners(2)[OF a(1) t]
    note invs = partners(3)[OF a(1) f(1) t, simplified] partners(3)[OF f(2) a(1) t, simplified]
    note mvs = mv_moves[OF a(1) t] mv_moves[OF f(1) t] mv_moves[OF f(2) t]
    let ?r = "write_phases (tx t r) (tx t (from t r)) ack bar (to t r) (from t r) (mvw t r) (mvr t r)"
    have at: "?r ! p = X @ Await q k # Y" using a(4) Suc by simp
    have "p = 0 \<or> p = 1 \<or> p = 2 \<or> p = 3 \<or> p = 4 \<or> p = 5 \<or> p = 6 \<or> p = 7 \<or> p = 8 \<or> p = 9"
      using a(3) by presburger
    then consider "p = 1" "tx t r" "q = to t r" "k = SendDone" "X = []"
      | "p = 3" "tx t (from t r)" "q = from t r" "k = SendReady" "X = []"
      | "p = 5" "tx t r" ack "q = to t r" "k = DataAck" "X = []"
      | "p = 7" bar "q = to t r" "k = SendDone" "X = []"
      | "p = 9" bar "q = from t r" "k = SendReady" "X = []"
    proof (elim disjE)
      assume "p = 2"
      moreover have "only_moves (mvw t r @ [])" using mvs by simp
      ultimately show thesis using at only_moves_split(1)[of "mvw t r" _ q k] mvs(1)
        by (auto simp: write_phases_def append_eq_append_conv2 Cons_eq_append_conv append_eq_Cons_conv split: if_splits)
    next
      assume "p = 3"
      then show thesis using at only_moves_split(1)[of "mvr t r" _ q k] mvs(2) that(2)
        by (auto simp: write_phases_def Cons_eq_append_conv split: if_splits)
    qed (use at that in \<open>auto simp: write_phases_def Cons_eq_append_conv split: if_splits\<close>)
    then have "q < N \<and> count_list (concat (take p ?r) @ X) (Await q k) < count_list (concat (take p
        (write_phases (tx t q) (tx t (from t q)) ack bar (to t q) (from t q) (mvw t q) (mvr t q)))) (Post r k)"
    proof cases
      case 1
      then show ?thesis using f invs by (simp add: write_phases_def numeral_eq_Suc)
    next
      case 2
      then show ?thesis using f invs mvs by (simp add: write_phases_def numeral_eq_Suc)
    next
      case 3
      then show ?thesis using f invs mvs by (simp add: write_phases_def numeral_eq_Suc)
    next
      case 4
      then show ?thesis using f invs mvs by (simp add: write_phases_def numeral_eq_Suc)
    next
      case 5
      then show ?thesis using f invs mvs by (simp add: write_phases_def numeral_eq_Suc)
    qed
    then show ?thesis using Suc by simp
  qed (use a own_moves only_moves_split(1)[of "own r" X q k Y] in \<open>auto simp: nth_Cons split: nat.splits\<close>)
qed

lemma streams: "gather_streams N (Suc n) 10 ph P m0 fin K R"
proof (intro gather_streams.intro gather_streams_axioms.intro)
  show "stepwise_streams N (Suc n) 10 ph P" by (rule stepwise)
next
  fix r b a assume "r < N" "(b, a) \<in> K 0 r"
  then show "m0 r b a = fin r b a" by (rule known_0)
next
  fix r s assume "r < N" "s < Suc n"
  then show "K (Suc s) r \<subseteq> K s r \<union> R s r" by (rule known_step)
next
  fix r s x y l assume a: "r < N" "s < Suc n"
  show "Combine x y l \<notin> set (concat (ph r s))"
    using a own_moves[of r] mv_moves[of r "s - 1"]
    by (cases s) (auto simp: write_phases_def only_moves_def)
next
  fix r s X d db da q sb sa len Y
  assume a: "r < N" "s < Suc n" and e: "concat (ph r s) = X @ Move (d, db, da) (q, sb, sa) len # Y"
  show "q < N \<and> (\<forall>x<len. (sb, sa + x) \<in> K s q \<and> fin d db (da + x) = fin q sb (sa + x)) \<and>
      (q = r \<or> (\<exists>k X1 X2 Z1 Z2. X = X1 @ Await q k # X2 \<and> concat (ph q s) = Z1 @ Post r k # Z2 \<and>
        count_list Z1 (Post r k) \<le> count_list X1 (Await q k)))"
  proof (cases s)
    case 0
    then have "own r = X @ Move (d, db, da) (q, sb, sa) len # Y" using e by simp
    then show ?thesis using own_source[OF a(1)] a(1) 0 by blast
  next
    case (Suc t)
    then have t: "t < n" using a by simp
    let ?q = "from t r"
    note f = partners(1)[OF a(1) t] partners(2)[OF a(1) t]
    note invs = partners(3)[OF a(1) f(1) t, simplified] partners(3)[OF f(2) a(1) t, simplified]
    let ?head = "write_head (tx t r) (tx t ?q) (to t r) ?q @ (if tx t r then mvw t r @ [Post (to t r) SendReady] else [])"
    have c: "concat (ph r s) = ?head @ (if tx t ?q then Await ?q SendReady # mvr t r else []) @
        write_tail (tx t r) (tx t ?q) ack bar (to t r) ?q"
      using Suc by (simp add: write_concat)
    have mem: "Move (d, db, da) (q, sb, sa) len \<in> set (concat (ph r s))" using e by simp
    then have wh: "Move (d, db, da) (q, sb, sa) len \<in> set (mvw t r) \<or> Move (d, db, da) (q, sb, sa) len \<in> set (mvr t r)"
      unfolding c by (auto split: if_splits)
    have act: "db = OUTPUT_MEM \<and> sb = OUTPUT_MEM \<and> da = sa \<and> (q = r \<or> q = ?q) \<and> {sa..<sa + len} \<subseteq> (\<Union>l\<in>H t q. cells l)"
      using wh
    proof
      assume "Move (d, db, da) (q, sb, sa) len \<in> set (mvw t r)"
      then show ?thesis using write_moves[OF a(1) t] received_held[OF f(2) t] invs by force
    next
      assume "Move (d, db, da) (q, sb, sa) len \<in> set (mvr t r)"
      then show ?thesis using read_moves[OF a(1) t] received_held[OF a(1) t] by force
    qed
    have src: "\<forall>x<len. (sb, sa + x) \<in> K s q \<and> fin d db (da + x) = fin q sb (sa + x)"
    proof (intro allI impI)
      fix x assume "x < len"
      then have "sa + x \<in> {sa..<sa + len}" by simp
      then obtain l where "l \<in> H t q" "sa + x \<in> cells l" using act by blast
      then show "(sb, sa + x) \<in> K s q \<and> fin d db (da + x) = fin q sb (sa + x)"
        using act Suc by (auto simp: fin_def)
    qed
    have "\<exists>k X1 X2 Z1 Z2. X = X1 @ Await q k # X2 \<and> concat (ph q s) = Z1 @ Post r k # Z2 \<and>
        count_list Z1 (Post r k) \<le> count_list X1 (Await q k)" if "q \<noteq> r"
    proof -
      have q: "q = ?q" using act that by blast
      have "Move (d, db, da) (q, sb, sa) len \<notin> set (mvw t r)" using write_moves[OF a(1) t] that by force
      then have nh: "Move (d, db, da) (q, sb, sa) len \<notin> set ?head" by auto
      have rx: "tx t ?q"
      proof (rule ccontr)
        assume "\<not> tx t ?q"
        then show False using mem nh unfolding c by simp
      qed
      then obtain X2 where X: "X = ?head @ Await ?q SendReady # X2"
        using split_after[of ?head "Await ?q SendReady" _ X "Move (d, db, da) (q, sb, sa) len" Y] e c nh by auto
      have "concat (ph q s) = (write_head (tx t q) (tx t (from t q)) r (from t q) @ mvw t q) @ Post r SendReady #
          ((if tx t (from t q) then Await (from t q) SendReady # mvr t q else []) @ write_tail (tx t q) (tx t (from t q)) ack bar r (from t q))"
        using Suc rx q invs by (simp add: write_concat)
      moreover have "count_list (write_head (tx t q) (tx t (from t q)) r (from t q) @ mvw t q) (Post r SendReady) = 0"
        using mv_moves(1)[OF f(1) t] q by simp
      ultimately show ?thesis using X q by (metis le0)
    qed
    then show ?thesis using src act f a(1) by blast
  qed
next
  fix r s b a assume r: "r < N" "s < Suc n" "(b, a) \<in> R s r"
  show "\<exists>p<N. \<exists>X Y da src len. concat (ph p s) = X @ Move (r, b, da) src len # Y \<and> da \<le> a \<and> a < da + len \<and>
        (p = r \<or> (\<exists>k Y1 Y2 Z1 Z2. Y = Y1 @ Post r k # Y2 \<and> concat (ph r s) = Z1 @ Await p k # Z2 \<and>
          count_list (X @ Move (r, b, da) src len # Y1) (Post r k) \<le> count_list Z1 (Await p k)))"
  proof (cases s)
    case 0
    then have "b = OUTPUT_MEM \<and> (\<exists>src da len. own r = [Move (r, OUTPUT_MEM, da) src len] \<and> da \<le> a \<and> a < da + len)"
      using own_delivers[OF r(1)] r(3) by simp
    then obtain src da len where "b = OUTPUT_MEM" "own r = [Move (r, OUTPUT_MEM, da) src len]" "da \<le> a" "a < da + len"
      by blast
    then have "concat (ph r s) = [] @ Move (r, b, da) src len # []" using 0 by simp
    then show ?thesis using \<open>da \<le> a\<close> \<open>a < da + len\<close> r(1) by blast
  next
    case (Suc t)
    let ?q = "from t r"
    have t: "t < n" using Suc r by simp
    note f = partners(1)[OF r(1) t]
    note invs = partners(3)[OF r(1) f t, simplified]
    obtain l where l: "l \<in> rx t r" "a \<in> cells l" "b = OUTPUT_MEM" using r(3) Suc by auto
    obtain A len where tx: "tx t ?q" and A: "A \<le> a" "a < A + len"
      and mv: "Move (r, OUTPUT_MEM, A) (?q, OUTPUT_MEM, A) len \<in> set (mvr t r) \<or>
        Move (r, OUTPUT_MEM, A) (?q, OUTPUT_MEM, A) len \<in> set (mvw t ?q)" (is "?m \<in> _ \<or> _")
      using covers[OF r(1) t l(1,2)] by blast
    show ?thesis using mv
    proof
      assume "?m \<in> set (mvr t r)"
      then have "?m \<in> set (concat (ph r s))" using Suc tx by (simp add: write_concat)
      then obtain X Y where "concat (ph r s) = X @ ?m # Y" by (metis split_list)
      then show ?thesis using A l(3) r(1) by blast
    next
      assume "?m \<in> set (mvw t ?q)"
      then obtain M1 M2 where M: "mvw t ?q = M1 @ ?m # M2" by (metis split_list)
      then have om: "only_moves M1" "only_moves M2" using mv_moves(1)[OF f t] by auto
      let ?h = "write_head (tx t ?q) (tx t (from t ?q)) r (from t ?q)"
      have "concat (ph ?q s) = (?h @ M1) @ ?m # (M2 @ Post r SendReady #
          ((if tx t (from t ?q) then Await (from t ?q) SendReady # mvr t ?q else []) @
            write_tail (tx t ?q) (tx t (from t ?q)) ack bar r (from t ?q)))"
        using Suc tx M invs by (simp add: write_concat)
      moreover have "concat (ph r s) = (write_head (tx t r) (tx t ?q) (to t r) ?q @
          (if tx t r then mvw t r @ [Post (to t r) SendReady] else [])) @ Await ?q SendReady # (mvr t r @
            write_tail (tx t r) (tx t ?q) ack bar (to t r) ?q)"
        using Suc tx by (simp add: write_concat)
      moreover have "count_list ((?h @ M1) @ ?m # M2) (Post r SendReady) = 0" using om by simp
      ultimately show ?thesis using A l(3) f by (metis le0)
    qed
  qed
qed

lemma no_deadlock:
  "(stream_step f N P)\<^sup>*\<^sup>* (start m) c \<Longrightarrow> \<not> finished N P c \<Longrightarrow> \<exists>d. stream_step f N P c d"
  by (rule stepwise_streams.no_deadlock[OF stepwise])

lemma gathers:
  assumes "(stream_step f N P)\<^sup>*\<^sup>* (start m0) c" "finished N P c" "r < N" "l \<in> H n r" "a \<in> cells l"
  shows "cf_mem c r OUTPUT_MEM a = g a"
  using gather_streams.delivers[OF streams assms(1-3), of OUTPUT_MEM a] assms(4,5) by (auto simp: fin_def)

end

sublocale read_gather \<subseteq> gs: gather_streams N "Suc n" 6 ph P m0 fin K R
  by (rule streams)

sublocale write_gather \<subseteq> gs: gather_streams N "Suc n" 10 ph P m0 fin K R
  by (rule streams)

end
