(* ===== verification/NhrBase.thy ===== *)
theory NhrBase
  imports CollBase "HOL-Library.Product_Lexorder"
begin

text \<open>
  What the templates of the nonuniform hierarchical ring and of the nonuniform Bruck
  algorithm share: the number of rounds, the assignment of slices to ranks, and the merging
  of adjacent slices. Rank numbers and indices are \<open>u32\<close> values, as naturals with the
  wrap-around of the additions and subtractions written out.
\<close>

section \<open>Rounds\<close>

text \<open>The loop that halves \<open>tmp\<close> until it is zero.\<close>

fun halvings :: "nat \<Rightarrow> nat" where
  "halvings tmp = (if tmp = 0 then 0 else Suc (halvings (tmp div 2)))"

declare halvings.simps [simp del]

definition GetStepNumInterServer :: "nat \<Rightarrow> nat" where
  "GetStepNumInterServer rankSize = halvings (sub32 rankSize 1)"

definition CalcCeilLog2 :: "nat \<Rightarrow> nat" where
  "CalcCeilLog2 num = halvings (sub32 num 1)"

lemma halvings_bounds: "t < 2 ^ halvings t \<and> (0 < t \<longrightarrow> 2 ^ (halvings t - 1) \<le> t \<and> 0 < halvings t)"
proof (induction t rule: halvings.induct)
  case (1 t)
  show ?case
  proof (cases "t = 0")
    case True
    then show ?thesis by (simp add: halvings.simps)
  next
    case False
    then have h: "halvings t = Suc (halvings (t div 2))" by (subst halvings.simps) simp
    have IH: "t div 2 < 2 ^ halvings (t div 2)"
      "0 < t div 2 \<longrightarrow> 2 ^ (halvings (t div 2) - 1) \<le> t div 2 \<and> 0 < halvings (t div 2)"
      using 1 False by auto
    have "t < 2 ^ halvings t" using IH(1) h by simp
    moreover have "2 ^ halvings (t div 2) \<le> t"
    proof (cases "t div 2 = 0")
      case True
      then show ?thesis using False by (simp add: halvings.simps)
    next
      case f: False
      then have "2 ^ halvings (t div 2) = 2 * (2::nat) ^ (halvings (t div 2) - 1)"
        using IH(2) by (metis Suc_pred' neq0_conv power_Suc)
      also have "\<dots> \<le> 2 * (t div 2)" using IH(2) f by simp
      finally show ?thesis by simp
    qed
    ultimately show ?thesis using h by simp
  qed
qed

lemma rounds_bounds:
  assumes "2 \<le> N" "N < 2 ^ 32"
  shows "N \<le> 2 ^ GetStepNumInterServer N" "2 ^ (GetStepNumInterServer N - 1) < N" "0 < GetStepNumInterServer N"
  using halvings_bounds[of "N - 1"] assms by (auto simp: GetStepNumInterServer_def)

section \<open>The assignment of slices to ranks\<close>

record NHRBase = AlgTemplate +
  nb_isNeedMerge :: bool
  nb_sliceMap :: "nat list"

text \<open>What a rank sends and receives in a round.\<close>

record InterServerAlgoStep =
  st_step :: nat
  st_myRank :: nat
  st_nSlices :: nat
  st_toRank :: nat
  st_fromRank :: nat
  st_txSliceIdxs :: "nat list"
  st_rxSliceIdxs :: "nat list"

fun reorder_at :: "nat \<Rightarrow> nat \<Rightarrow> nat \<Rightarrow> nat" where
  "reorder_at start len i =
     (let offset = i - start in
      if even offset then w32 (start + offset div 2) else w32 (start + w32 (offset + len) div 2))"

definition ReorderSequence :: "nat \<Rightarrow> nat \<Rightarrow> nat \<Rightarrow> nat list \<Rightarrow> nat list \<Rightarrow> nat list" where
  "ReorderSequence start end len tree tmp =
     fold (\<lambda>i tmp. tmp[reorder_at start len i := tree ! i]) [start..<end] tmp"

text \<open>One pass over the parts of length \<open>len\<close>; the flag tells an odd part was met.\<close>

definition reorder_parts :: "nat \<Rightarrow> nat \<Rightarrow> nat list \<Rightarrow> nat list \<Rightarrow> nat list \<times> bool" where
  "reorder_parts rankSize len tree tmp =
     fold (\<lambda>part (tmp, endFlag).
         let start = w32 (part * len); end = min (w32 (start + len)) rankSize in
         (ReorderSequence start end len tree tmp, endFlag \<or> odd (end - start)))
       (takeWhile (\<lambda>part. w32 (part * len) < rankSize) [0..<rankSize]) (tmp, False)"

fun mapping_loop :: "nat \<Rightarrow> nat list \<Rightarrow> nat \<Rightarrow> nat list \<Rightarrow> nat list \<Rightarrow> nat list" where
  "mapping_loop rankSize [] len tree tmp = tree"
| "mapping_loop rankSize (step # steps) len tree tmp =
     (let nSlices = w32 (sub32 rankSize 1 + 2 ^ step) div 2 ^ (step + 1) in
      if nSlices \<le> 1 then tree
      else let (tmp', endFlag) = reorder_parts rankSize len tree tmp;
               tree' = map (\<lambda>i. tmp' ! i) [0..<rankSize] in
        if endFlag then tree' else mapping_loop rankSize steps (len div 2) tree' tmp')"

definition inverse_map :: "nat \<Rightarrow> nat list \<Rightarrow> nat list \<Rightarrow> nat list" where
  "inverse_map rankSize tree sliceMap =
     fold (\<lambda>i sm. sm[tree ! i := i]) [0..<rankSize] (take rankSize (sliceMap @ replicate rankSize 0))"

definition GetRankMapping :: "nat \<Rightarrow> bool \<Rightarrow> nat list \<Rightarrow> nat list" where
  "GetRankMapping rankSize keepOrder sliceMap =
     (let tree = [0..<rankSize] in
      if keepOrder then tree
      else inverse_map rankSize
        (mapping_loop rankSize [0..<GetStepNumInterServer rankSize] rankSize tree (replicate rankSize 0)) sliceMap)"

text \<open>The assignment is a permutation of the ranks, for every number of ranks.\<close>

definition perm_of :: "nat \<Rightarrow> nat list \<Rightarrow> bool" where
  "perm_of n xs \<longleftrightarrow> length xs = n \<and> set xs = {..<n}"

lemma perm_of_distinct: "perm_of n xs \<Longrightarrow> distinct xs"
  by (metis perm_of_def card_distinct card_lessThan)

lemma perm_of_nth: "perm_of n xs \<Longrightarrow> i < n \<Longrightarrow> xs ! i < n"
  unfolding perm_of_def by (metis lessThan_iff nth_mem)

lemma perm_of_upt: "perm_of n [0..<n]"
  by (auto simp: perm_of_def)

lemma fold_update_length [simp]: "length (fold (\<lambda>i xs. xs[f i := h i]) is xs) = length xs"
  by (induction "is" arbitrary: xs) simp_all

lemma fold_update_other:
  "j \<notin> f ` set is \<Longrightarrow> fold (\<lambda>i xs. xs[f i := h i]) is xs ! j = xs ! j"
  by (induction "is" arbitrary: xs) simp_all

lemma fold_update_at:
  "inj_on f (set is) \<Longrightarrow> distinct is \<Longrightarrow> \<forall>i\<in>set is. f i < length xs \<Longrightarrow> i \<in> set is \<Longrightarrow>
    fold (\<lambda>i xs. xs[f i := h i]) is xs ! f i = h i"
proof (induction "is" arbitrary: xs)
  case (Cons j js)
  show ?case
  proof (cases "i = j")
    case True
    then have "f i \<notin> f ` set js" using Cons.prems(1,2) by (auto simp: inj_on_def)
    then show ?thesis using True Cons.prems(3) by (simp add: fold_update_other)
  qed (use Cons in simp)
qed simp

lemma fold_parts: "fold (\<lambda>p. fold f (parts p)) ps x = fold f (concat (map parts ps)) x"
  by (induction ps arbitrary: x) simp_all

lemma concat_parts: "concat (map (\<lambda>p. [p * len..<p * len + len]) [0..<P]) = [0..<P * len]"
proof (induction P)
  case (Suc P)
  then show ?case using upt_add_eq_append[of 0 "P * len" len] by (simp add: add.commute)
qed simp

text \<open>Where one pass moves the entry \<open>i\<close>: even positions of a part to the front, odd ones behind.\<close>

definition part_move :: "nat \<Rightarrow> nat \<Rightarrow> nat" where
  "part_move len i = i div len * len +
     (if even (i mod len) then i mod len div 2 else (i mod len + len) div 2)"

lemma part_move_parts:
  assumes "0 < len"
  shows "part_move len i div len = i div len"
    "part_move len i mod len = (if even (i mod len) then i mod len div 2 else (i mod len + len) div 2)"
proof -
  have "i mod len < len" using assms by simp
  then have "(if even (i mod len) then i mod len div 2 else (i mod len + len) div 2) < len" by auto
  then show "part_move len i div len = i div len"
    "part_move len i mod len = (if even (i mod len) then i mod len div 2 else (i mod len + len) div 2)"
    using assms by (auto simp: part_move_def)
qed

lemma half_move_inj:
  "(i::nat) < len \<Longrightarrow> j < len \<Longrightarrow> (if even i then i div 2 else (i + len) div 2) =
    (if even j then j div 2 else (j + len) div 2) \<Longrightarrow> i = j"
proof -
  assume less: "i < len" "j < len"
    and eq: "(if even i then i div 2 else (i + len) div 2) = (if even j then j div 2 else (j + len) div 2)"
  have mixed: "a div 2 \<noteq> (b + len) div 2" if "a < len" "odd b" for a b :: nat
  proof -
    have "1 \<le> b" using that(2) by (cases b) auto
    then show ?thesis using that(1) by linarith
  qed
  consider (ee) "even i" "even j" | (oo) "odd i" "odd j" | (eo) "even i" "odd j" | (oe) "odd i" "even j" by blast
  then show "i = j"
  proof cases
    case ee
    then show ?thesis using eq by (metis even_two_times_div_two)
  next
    case oo
    then obtain a b where ab: "i = Suc (2 * a)" "j = Suc (2 * b)" by (auto elim!: oddE)
    then have "(Suc len + 2 * a) div 2 = (Suc len + 2 * b) div 2" using eq oo by (simp add: add.commute)
    then show ?thesis using ab by simp
  qed (use eq mixed less in metis)+
qed

lemma part_move_inj: "0 < len \<Longrightarrow> inj (part_move len)"
proof (rule injI)
  fix i j assume len: "0 < len" and eq: "part_move len i = part_move len j"
  have "i mod len < len" "j mod len < len" using len by simp_all
  moreover have "(if even (i mod len) then i mod len div 2 else (i mod len + len) div 2) =
      (if even (j mod len) then j mod len div 2 else (j mod len + len) div 2)"
    using part_move_parts(2)[OF len] eq by metis
  ultimately have "i mod len = j mod len" by (rule half_move_inj)
  then show "i = j" using part_move_parts(1)[OF len] eq by (metis div_mult_mod_eq)
qed

lemma part_move_less: "0 < len \<Longrightarrow> i < P * len \<Longrightarrow> part_move len i < P * len"
  using part_move_parts(1)[of len i] by (metis div_less_iff_less_mult)

lemma reorder_at_part:
  assumes "0 < len" "i div len = part" "part * len + len < 2 ^ 31"
  shows "reorder_at (part * len) len i = part_move len i"
proof -
  have i: "i = part * len + i mod len" "i mod len < len" using assms(1,2) by auto
  have len: "len < 2 ^ 31" using assms(3) by linarith
  have "i - part * len = i mod len" using i by linarith
  moreover have "w32 (part * len + i mod len div 2) = part * len + i mod len div 2"
    by (rule w32_small) (use i(2) len assms(3) in linarith)
  moreover have "w32 (i mod len + len) = i mod len + len"
    by (rule w32_small) (use i(2) len assms(3) in linarith)
  moreover have "w32 (part * len + (i mod len + len) div 2) = part * len + (i mod len + len) div 2"
    by (rule w32_small) (use i(2) len assms(3) in linarith)
  ultimately show ?thesis using assms(2) by (simp add: part_move_def Let_def)
qed

lemma reorder_parts_spec:
  assumes N: "P * len = N" "0 < N" "N < 2 ^ 31" and tmp: "length tmp = N"
  shows "\<exists>tmp'. reorder_parts N len tree tmp = (tmp', odd len) \<and> length tmp' = N \<and>
    (\<forall>i<N. tmp' ! part_move len i = tree ! i)"
proof -
  have len: "0 < len" "0 < P" using N by (cases len; cases P; auto)+
  have PN: "P \<le> N" using N(1) len(1) by (cases len) auto
  have below: "part * len + len \<le> N" if "part < P" for part
    using that N(1) by (metis Suc_leI add.commute mult_Suc mult_le_mono1)
  have tw: "takeWhile (\<lambda>part. w32 (part * len) < N) [0..<N] = [0..<P]"
  proof -
    have "[0..<N] = [0..<P] @ [P..<N]" using PN by (metis le0 le_add_diff_inverse upt_add_eq_append)
    moreover have "\<forall>part\<in>set [0..<P]. w32 (part * len) < N" using below len N by (fastforce simp: w32_def)
    moreover have "takeWhile (\<lambda>part. w32 (part * len) < N) [P..<N] = []"
      using N by (cases "P < N") (simp_all add: upt_conv_Cons)
    ultimately show ?thesis by (simp only: takeWhile_append2) simp
  qed
  let ?upd = "\<lambda>i xs. xs[part_move len i := tree ! i]"
  have body: "(let start = w32 (part * len); end = min (w32 (start + len)) N in
         (ReorderSequence start end len tree xs, endFlag \<or> odd (end - start))) =
       (fold ?upd [part * len..<part * len + len] xs, endFlag \<or> odd len)"
    if "part < P" for part xs endFlag
  proof -
    note b = below[OF that]
    have "fold (\<lambda>i tmp. tmp[reorder_at (part * len) len i := tree ! i]) [part * len..<part * len + len] xs =
        fold ?upd [part * len..<part * len + len] xs"
    proof (rule fold_cong[OF refl refl])
      fix i assume "i \<in> set [part * len..<part * len + len]"
      then have "i div len = part" using len(1) by (auto intro!: div_nat_eqI simp: mult.commute)
      then have "reorder_at (part * len) len i = part_move len i"
        using reorder_at_part[of len i part] len(1) b N(3) by linarith
      then show "(\<lambda>tmp. tmp[reorder_at (part * len) len i := tree ! i]) = ?upd i" by simp
    qed
    then have rs: "ReorderSequence (part * len) (part * len + len) len tree xs =
        fold ?upd [part * len..<part * len + len] xs"
      by (simp only: ReorderSequence_def)
    have w: "w32 (part * len) = part * len" by (rule w32_small) (use b N(3) in linarith)
    have w': "w32 (part * len + len) = part * len + len" by (rule w32_small) (use b N(3) in linarith)
    show ?thesis by (simp only: Let_def w w' min_absorb1[OF b] rs add_diff_cancel_left')
  qed
  have loop: "fold (\<lambda>part (tmp, endFlag).
         let start = w32 (part * len); end = min (w32 (start + len)) N in
         (ReorderSequence start end len tree tmp, endFlag \<or> odd (end - start))) [0..<k] (tmp, False) =
       (fold (\<lambda>part. fold ?upd [part * len..<part * len + len]) [0..<k] tmp, 0 < k \<and> odd len)"
    if "k \<le> P" for k
    using that
  proof (induction k)
    case (Suc k)
    then show ?case using body[of k] by (simp add: Let_def) auto
  qed simp
  let ?tmp = "fold ?upd [0..<N] tmp"
  have "reorder_parts N len tree tmp = (?tmp, odd len)"
    unfolding reorder_parts_def tw using loop[of P] len by (simp add: fold_parts concat_parts N(1))
  moreover have "?tmp ! part_move len i = tree ! i" if "i < N" for i
    using that part_move_inj[OF len(1)] part_move_less[OF len(1), of _ P] N(1) tmp
    by (intro fold_update_at) (auto intro: inj_on_subset)
  ultimately show ?thesis using tmp by simp
qed

lemma perm_of_moved:
  assumes "perm_of N tree" "length tmp = N" "\<forall>i<N. tmp ! f i = tree ! i" "\<forall>i<N. f i < N"
  shows "perm_of N tmp"
proof -
  have "set tree \<subseteq> set tmp"
  proof
    fix x assume "x \<in> set tree"
    then obtain i where "i < N" "tree ! i = x" using assms(1) by (auto simp: perm_of_def in_set_conv_nth)
    then show "x \<in> set tmp" using assms(2-4) by (metis nth_mem)
  qed
  then have sub: "{..<N} \<subseteq> set tmp" using assms(1) by (simp add: perm_of_def)
  moreover have "card (set tmp) \<le> N" using assms(2) card_length by metis
  ultimately have "set tmp = {..<N}" by (metis card_lessThan card_seteq finite_set)
  then show ?thesis using assms(2) by (simp add: perm_of_def)
qed

lemma mapping_loop_perm:
  assumes "perm_of N tree" "P * len = N" "0 < N" "N < 2 ^ 31" "length tmp = N"
  shows "perm_of N (mapping_loop N steps len tree tmp)"
  using assms(1,2,5)
proof (induction steps arbitrary: P len tree tmp)
  case (Cons step steps)
  obtain tmp' where r: "reorder_parts N len tree tmp = (tmp', odd len)" "length tmp' = N"
    "\<forall>i<N. tmp' ! part_move len i = tree ! i"
    using reorder_parts_spec[OF Cons.prems(2) assms(3,4) Cons.prems(3)] by blast
  have len: "0 < len" using Cons.prems(2) assms(3) by (cases len) auto
  have copy: "map (\<lambda>i. tmp' ! i) [0..<N] = tmp'" using r(2) by (auto intro: map_nth)
  have "perm_of N tmp'"
    using perm_of_moved[OF Cons.prems(1) r(2,3)] part_move_less[OF len, of _ P] Cons.prems(2) by blast
  moreover have "2 * P * (len div 2) = N" if "even len" using that Cons.prems(2) by auto
  ultimately show ?case using Cons.IH[of tmp' "2 * P" "len div 2" tmp'] Cons.prems(1) r copy
    by (simp add: Let_def)
qed simp

lemma inverse_map_perm:
  assumes "perm_of N tree"
  shows "perm_of N (inverse_map N tree sm)" "i < N \<Longrightarrow> inverse_map N tree sm ! (tree ! i) = i"
proof -
  have len0: "length (take N (sm @ replicate N 0)) = N" by simp
  then have len: "length (inverse_map N tree sm) = N" by (simp only: inverse_map_def fold_update_length)
  have "inj_on (nth tree) {..<N}"
    using perm_of_distinct[OF assms] assms by (auto simp: inj_on_def nth_eq_iff_index_eq perm_of_def)
  then have at: "inverse_map N tree sm ! (tree ! j) = j" if "j < N" for j
    using that perm_of_nth[OF assms] unfolding inverse_map_def
    by (intro fold_update_at) (auto simp: atLeast0LessThan len0 simp del: length_take take_append)
  then show "i < N \<Longrightarrow> inverse_map N tree sm ! (tree ! i) = i" by simp
  show "perm_of N (inverse_map N tree sm)"
    by (rule perm_of_moved[OF perm_of_upt len, of "nth tree"]) (use at perm_of_nth[OF assms] in auto)
qed

lemma GetRankMapping_perm_of: "N < 2 ^ 31 \<Longrightarrow> perm_of N (GetRankMapping N keepOrder sm)"
proof (cases "N = 0")
  case False
  assume "N < 2 ^ 31"
  then have "perm_of N (mapping_loop N [0..<GetStepNumInterServer N] N [0..<N] (replicate N 0))"
    using mapping_loop_perm[OF perm_of_upt, where P = 1 and len = N] False by simp
  then show ?thesis using inverse_map_perm(1) perm_of_upt by (simp add: GetRankMapping_def Let_def)
next
  case True
  then show ?thesis by (simp add: GetRankMapping_def inverse_map_def perm_of_def)
qed

section \<open>Merging slices\<close>

fun merge_loop :: "u64 \<Rightarrow> u64 \<Rightarrow> Slice list \<Rightarrow> Slice list" where
  "merge_loop off size1 [] = [\<lparr>sl_offset = off, sl_size = size1\<rparr>]"
| "merge_loop off size1 (s # ss) =
     (if off + size1 = sl_offset s then merge_loop off (size1 + sl_size s) ss
      else \<lparr>sl_offset = off, sl_size = size1\<rparr> # merge_loop (sl_offset s) (sl_size s) ss)"

definition MergeSlices :: "bool \<Rightarrow> Slice list \<Rightarrow> Slice list" where
  "MergeSlices isNeedMerge slices =
     (if \<not> isNeedMerge then slices
      else if length slices \<le> 1 then slices
      else case sort_key (\<lambda>s. (unat (sl_offset s), unat (sl_size s))) slices of
             [] \<Rightarrow> []
           | s # ss \<Rightarrow> merge_loop (sl_offset s) (sl_size s) ss)"

text \<open>A slice within a memory of \<open>S\<close> bytes.\<close>

definition slice_in :: "nat \<Rightarrow> Slice \<Rightarrow> bool" where
  "slice_in S s \<longleftrightarrow> unat (sl_offset s) + unat (sl_size s) \<le> S"

lemma merge_loop_cover:
  assumes "\<forall>s\<in>set ss. slice_in S s" "unat off + unat sz \<le> S" "S < 2 ^ 64"
  shows "cover (merge_loop off sz ss) = bytes off sz \<union> cover ss \<and> (\<forall>s\<in>set (merge_loop off sz ss). slice_in S s)"
  using assms(1,2)
proof (induction off sz ss rule: merge_loop.induct)
  case (1 off sz)
  then show ?case by (simp add: slice_bytes_def slice_in_def)
next
  case (2 off sz s ss)
  show ?case
  proof (cases "off + sz = sl_offset s")
    case True
    have o: "unat (off + sz) = unat off + unat sz"
      using 2(4) assms(3) by (simp add: unat_word_ariths)
    then have le: "unat off + unat sz + unat (sl_size s) \<le> S"
      using 2(3) True by (simp add: slice_in_def)
    then have s: "unat (sz + sl_size s) = unat sz + unat (sl_size s)"
      using assms(3) by (simp add: unat_word_ariths)
    have "bytes off (sz + sl_size s) = bytes off sz \<union> slice_bytes s"
      using s o True by (auto simp: bytes_def slice_bytes_def)
    then show ?thesis using 2(1)[OF True] 2(3) s le True by auto
  next
    case False
    then show ?thesis using 2(2)[OF False] 2(3,4) by (auto simp: slice_bytes_def slice_in_def)
  qed
qed

lemma merge_loop_nonempty [simp]: "merge_loop off sz ss \<noteq> []"
  by (induction off sz ss rule: merge_loop.induct) simp_all

lemma cover_set: "set ss = set ts \<Longrightarrow> cover ss = cover ts"
  by (simp add: cover_def)

lemma MergeSlices_spec:
  assumes "\<forall>s\<in>set ss. slice_in S s" "S < 2 ^ 64"
  shows "cover (MergeSlices b ss) = cover ss" "\<forall>s\<in>set (MergeSlices b ss). slice_in S s"
    "MergeSlices b ss = [] \<longleftrightarrow> ss = []"
proof -
  let ?k = "\<lambda>s. (unat (sl_offset s), unat (sl_size s))"
  have "cover (MergeSlices b ss) = cover ss \<and> (\<forall>s\<in>set (MergeSlices b ss). slice_in S s) \<and>
      (MergeSlices b ss = [] \<longleftrightarrow> ss = [])"
  proof (cases "sort_key ?k ss")
    case Nil
    then have "ss = []" by (metis length_0_conv length_sort)
    then show ?thesis by (simp add: MergeSlices_def)
  next
    case (Cons s ts)
    then have set: "set ss = insert s (set ts)" by (metis list.simps(15) set_sort)
    then have "ss \<noteq> []" by auto
    moreover have "cover ss = slice_bytes s \<union> cover ts" using set by (auto simp: cover_def)
    ultimately show ?thesis
      using merge_loop_cover[of ts S "sl_offset s" "sl_size s"] assms set Cons
      by (auto simp: MergeSlices_def slice_bytes_def slice_in_def)
  qed
  then show "cover (MergeSlices b ss) = cover ss" "\<forall>s\<in>set (MergeSlices b ss). slice_in S s"
    "MergeSlices b ss = [] \<longleftrightarrow> ss = []" by simp_all
qed

text \<open>Merged slices no longer touch one another.\<close>

definition touching :: "Slice \<Rightarrow> Slice \<Rightarrow> bool" where
  "touching s t \<longleftrightarrow> sl_offset s + sl_size s = sl_offset t"

lemma merge_loop_head: "sl_offset (hd (merge_loop off sz ss)) = off"
  by (induction off sz ss rule: merge_loop.induct) simp_all

lemma merge_loop_apart: "successively (\<lambda>s t. \<not> touching s t) (merge_loop off sz ss)"
proof (induction off sz ss rule: merge_loop.induct)
  case (2 off sz s ss)
  then show ?case using merge_loop_head[of "sl_offset s" "sl_size s" ss]
    by (auto simp: successively_Cons touching_def)
qed simp

lemma merge_loop_length: "length (merge_loop off sz ss) \<le> Suc (length ss)"
  by (induction off sz ss rule: merge_loop.induct) auto

lemma MergeSlices_apart:
  "successively (\<lambda>s t. \<not> touching s t) (MergeSlices True ss) \<and> length (MergeSlices True ss) \<le> length ss"
proof (cases "length ss \<le> 1")
  case True
  then have "ss = [] \<or> (\<exists>s. ss = [s])" by (cases ss) auto
  then show ?thesis by (auto simp: MergeSlices_def)
next
  case False
  show ?thesis
  proof (cases "sort_key (\<lambda>s. (unat (sl_offset s), unat (sl_size s))) ss")
    case (Cons s ts)
    then have "length ss = Suc (length ts)" by (metis length_Cons length_sort)
    then show ?thesis using False Cons merge_loop_length[of "sl_offset s" "sl_size s" ts]
      by (simp add: MergeSlices_def merge_loop_apart)
  qed (use False in \<open>simp add: MergeSlices_def\<close>)
qed

section \<open>What the helpers guarantee\<close>

text \<open>
  C25: Merging a round's slices keeps the bytes: for slices within a memory, whatever their
  order, overlaps and sizes, the merged ones name the same bytes and stay within it, are at
  most as many, and, when merging is asked for, no two successive ones touch.
\<close>

theorem MergeSlices_same_bytes:
  assumes "\<forall>s\<in>set slices. slice_in S s" "S < 2 ^ 64"
  shows "cover (MergeSlices b slices) = cover slices \<and> (\<forall>s\<in>set (MergeSlices b slices). slice_in S s) \<and>
    length (MergeSlices b slices) \<le> length slices \<and>
    (b \<longrightarrow> successively (\<lambda>s t. \<not> touching s t) (MergeSlices b slices)) \<and> (\<not> b \<longrightarrow> MergeSlices b slices = slices)"
  using MergeSlices_spec(1,2)[OF assms, of b] MergeSlices_apart[of slices]
  by (cases b) (simp_all add: MergeSlices_def)

lemma MergeSlices_same_bytes_witness:
  "MergeSlices True [\<lparr>sl_offset = 8, sl_size = 4\<rparr>, \<lparr>sl_offset = 0, sl_size = 4\<rparr>, \<lparr>sl_offset = 4, sl_size = 4\<rparr>] =
     [\<lparr>sl_offset = 0, sl_size = 12\<rparr>] \<and>
   cover (MergeSlices True [\<lparr>sl_offset = 8, sl_size = 4\<rparr>, \<lparr>sl_offset = 0, sl_size = 4\<rparr>, \<lparr>sl_offset = 4, sl_size = 4\<rparr>]) =
     cover [\<lparr>sl_offset = 8, sl_size = 4\<rparr>, \<lparr>sl_offset = 0, sl_size = 4\<rparr>, \<lparr>sl_offset = 4, sl_size = 4\<rparr>]"
  using MergeSlices_same_bytes[of "[\<lparr>sl_offset = 8, sl_size = 4\<rparr>, \<lparr>sl_offset = 0, sl_size = 4\<rparr>, \<lparr>sl_offset = 4, sl_size = 4\<rparr>]" 12 True]
  by (simp add: slice_in_def MergeSlices_def)

text \<open>
  C24: The mapping of ranks to slice positions is a permutation of the ranks, for every number
  of ranks below \<open>2 ^ 31\<close>: every index the ring uses is in range and no two ranks share a
  position; when the order is kept it is the identity, whatever the vector held before.
\<close>

theorem GetRankMapping_permutation:
  assumes "N < 2 ^ 31"
  shows "length (GetRankMapping N keepOrder sm) = N \<and> set (GetRankMapping N keepOrder sm) = {..<N} \<and>
    distinct (GetRankMapping N keepOrder sm) \<and> (keepOrder \<longrightarrow> GetRankMapping N keepOrder sm = [0..<N])"
  using GetRankMapping_perm_of[OF assms, of keepOrder sm] perm_of_distinct
  by (auto simp: perm_of_def GetRankMapping_def)

lemma GetRankMapping_six: "GetRankMapping 6 False [7, 7] = [0, 3, 1, 4, 2, 5]"
  apply (simp add: GetRankMapping_def inverse_map_def GetStepNumInterServer_def halvings.simps upt_rec
      reorder_parts_def ReorderSequence_def sub32_def w32_def Let_def)
  apply (simp add: eval_nat_numeral)
  done

lemma GetRankMapping_permutation_witness:
  "GetRankMapping 6 False [7, 7] = [0, 3, 1, 4, 2, 5] \<and> set (GetRankMapping 6 False [7, 7]) = {..<6}"
  using GetRankMapping_permutation[of 6 False "[7, 7]"] GetRankMapping_six by simp

end
