(* ===== verification/AllGather.thy ===== *)
theory AllGather
  imports NhrBase
begin

text \<open>
  AllGather between servers: the nonuniform hierarchical ring and the nonuniform Bruck
  templates, each as the program of one rank. The remote rank of a link
  is its index in the list of links.
\<close>

type_synonym links = "Transport option list"

definition has_link :: "links \<Rightarrow> nat \<Rightarrow> bool" where
  "has_link links q \<longleftrightarrow> links ! q \<noteq> None"

definition link_inline :: "links \<Rightarrow> nat \<Rightarrow> bool" where
  "link_inline links q \<longleftrightarrow> (case links ! q of None \<Rightarrow> False | Some t \<Rightarrow> IsSpInlineReduce t)"

section \<open>Sending and receiving slices of the output buffer\<close>

definition tx_info :: "'a AlgTemplate_scheme \<Rightarrow> Slice \<Rightarrow> TxMemoryInfo" where
  "tx_info t s =
     \<lparr>tx_dstMemType = OUTPUT_MEM, tx_dstOffset = sl_offset s + at_baseOffset t,
      tx_src = dm_ptr (range_of (at_outputMem t) (sl_offset s) (sl_size s)), tx_len = sl_size s\<rparr>"

definition rx_info :: "'a AlgTemplate_scheme \<Rightarrow> Slice \<Rightarrow> RxMemoryInfo" where
  "rx_info t s =
     \<lparr>rx_srcMemType = OUTPUT_MEM, rx_srcOffset = sl_offset s + at_baseOffset t,
      rx_dst = dm_ptr (range_of (at_outputMem t) (sl_offset s) (sl_size s)), rx_len = sl_size s\<rparr>"

definition Tx :: "coll_env \<Rightarrow> 'a AlgTemplate_scheme \<Rightarrow> nat \<Rightarrow> Slice list \<Rightarrow> prog" where
  "Tx env t link txSlices = call env link (TxAsync (map (tx_info t) txSlices))"

definition Rx :: "coll_env \<Rightarrow> 'a AlgTemplate_scheme \<Rightarrow> nat \<Rightarrow> Slice list \<Rightarrow> prog" where
  "Rx env t link rxSlices = call env link (RxAsync (map (rx_info t) rxSlices))"

section \<open>Nonuniform hierarchical ring\<close>

definition AllGatherNHR_Prepare :: "bool \<Rightarrow> NHRBase \<Rightarrow> HcclResult \<times> NHRBase" where
  "AllGatherNHR_Prepare needMerge t = (HCCL_SUCCESS, t\<lparr>nb_isNeedMerge := needMerge\<rparr>)"

text \<open>The indices of the slices of \<open>k\<close> consecutive ones for every rank of a list.\<close>

definition slice_idxs :: "nat list \<Rightarrow> nat \<Rightarrow> nat list \<Rightarrow> nat list" where
  "slice_idxs sliceMap sliceSize ranks =
     concat (map (\<lambda>r. map (\<lambda>j. w32 (w32 (sliceMap ! r * sliceSize) + j)) [0..<sliceSize]) ranks)"

fun step_ranks :: "nat \<Rightarrow> nat \<Rightarrow> nat \<Rightarrow> nat \<Rightarrow> nat list" where
  "step_ranks rankSize delta 0 idx = []"
| "step_ranks rankSize delta (Suc i) idx =
     idx # step_ranks rankSize delta i (sub32 (w32 (idx + rankSize)) delta mod rankSize)"

definition AllGatherNHR_GetStepInfo :: "NHRBase \<Rightarrow> nat \<Rightarrow> nat \<Rightarrow> nat \<Rightarrow> nat \<Rightarrow> InterServerAlgoStep" where
  "AllGatherNHR_GetStepInfo t step nSteps rank rankSize =
     (let sliceSize = w32 (length (at_slices t) div rankSize);
          deltaRank = 2 ^ (nSteps - 1 - step);
          recvFrom = sub32 (w32 (rank + rankSize)) deltaRank mod rankSize;
          sendTo = w32 (rank + deltaRank) mod rankSize;
          nSlices = w32 (sub32 rankSize 1 + 2 ^ (nSteps - 1 - step)) div 2 ^ (nSteps - step);
          deltaSliceIndex = 2 ^ (nSteps - step);
          txSliceIdx = rank;
          rxSliceIdx = w32 (sub32 rank (2 ^ (nSteps - 1 - step)) + rankSize) mod rankSize in
      \<lparr>st_step = step, st_myRank = rank, st_nSlices = w32 (nSlices * sliceSize),
       st_toRank = sendTo, st_fromRank = recvFrom,
       st_txSliceIdxs = slice_idxs (nb_sliceMap t) sliceSize
         (step_ranks rankSize deltaSliceIndex nSlices txSliceIdx),
       st_rxSliceIdxs = slice_idxs (nb_sliceMap t) sliceSize
         (step_ranks rankSize deltaSliceIndex nSlices rxSliceIdx)\<rparr>)"

definition SdmaRx :: "coll_env \<Rightarrow> NHRBase \<Rightarrow> nat \<Rightarrow> nat \<Rightarrow> Slice list \<Rightarrow> prog" where
  "SdmaRx env t linkLeft linkRight rxSlices =
     all_of [call env linkRight TxAck, call env linkLeft RxAck,
       each (\<lambda>s. HcclD2DMemcpyAsync_remote env (range_of (at_outputMem t) (sl_offset s) (sl_size s))
               linkLeft OUTPUT_MEM (at_baseOffset t + sl_offset s) (sl_size s)) rxSlices,
       call env linkLeft TxDataSignal, call env linkRight RxDataSignal]"

definition RdmaTxRx :: "coll_env \<Rightarrow> NHRBase \<Rightarrow> nat \<Rightarrow> nat \<Rightarrow> Slice list \<Rightarrow> Slice list \<Rightarrow> prog" where
  "RdmaTxRx env t linkLeft linkRight txSlices rxSlices =
     all_of [call env linkLeft TxAck, call env linkRight RxAck,
       Tx env t linkRight txSlices, Rx env t linkLeft rxSlices,
       call env linkLeft PostFinAck, call env linkRight WaitFinAck]"

definition nhr_round :: "coll_env \<Rightarrow> NHRBase \<Rightarrow> nat \<Rightarrow> nat \<Rightarrow> links \<Rightarrow> nat \<Rightarrow> nat \<Rightarrow> prog" where
  "nhr_round env t rank rankSize links nSteps step =
     (let info = AllGatherNHR_GetStepInfo t step nSteps rank rankSize;
          left = st_fromRank info; right = st_toRank info;
          txSlices = map (\<lambda>i. at_slices t ! (st_txSliceIdxs info ! i)) [0..<st_nSlices info];
          rxSlices = map (\<lambda>i. at_slices t ! (st_rxSliceIdxs info ! i)) [0..<st_nSlices info];
          rxSlices = MergeSlices (nb_isNeedMerge t) rxSlices;
          txSlices = MergeSlices (nb_isNeedMerge t) txSlices in
      if \<not> has_link links left then fail HCCL_E_PTR
      else if \<not> has_link links right then fail HCCL_E_PTR
      else if link_inline links left \<and> link_inline links right then SdmaRx env t left right rxSlices
      else RdmaTxRx env t left right txSlices rxSlices)"

definition AllGatherNHR_RunAllGather :: "coll_env \<Rightarrow> NHRBase \<Rightarrow> nat \<Rightarrow> nat \<Rightarrow> links \<Rightarrow> prog" where
  "AllGatherNHR_RunAllGather env t rank rankSize links =
     (if length (at_slices t) < rankSize then fail HCCL_E_INTERNAL
      else let nSteps = GetStepNumInterServer rankSize in
        each (nhr_round env t rank rankSize links nSteps) [0..<nSteps])"

text \<open>The input slices when none were given: the rank's own input, or the whole buffer in place.\<close>

definition input_slices :: "'a AlgTemplate_scheme \<Rightarrow> nat \<Rightarrow> u64 \<Rightarrow> Slice list" where
  "input_slices t rankSize sliceSize =
     (if at_slices t \<noteq> [] then at_slices t
      else map (\<lambda>i. \<lparr>sl_offset = if dm_size (at_inputMem t) < dm_size (at_outputMem t) then 0
                                  else sliceSize * of_nat i, sl_size = sliceSize\<rparr>) [0..<rankSize])"

definition copy_slice :: "coll_env \<Rightarrow> 'a AlgTemplate_scheme \<Rightarrow> Slice \<Rightarrow> Slice \<Rightarrow> prog" where
  "copy_slice env t dst src =
     (if at_inputMem t \<noteq> at_outputMem t
      then HcclD2DMemcpyAsync env (range_of (at_outputMem t) (sl_offset dst) (sl_size dst))
        (range_of (at_inputMem t) (sl_offset src) (sl_size src))
      else done_ok)"

text \<open>The template's state after the call, and its program.\<close>

definition AllGatherNHR_RunAsync ::
  "coll_env \<Rightarrow> nat \<Rightarrow> nat \<Rightarrow> links \<Rightarrow> NHRBase \<Rightarrow> NHRBase \<times> prog" where
  "AllGatherNHR_RunAsync env rank rankSize links t0 =
     (let t = (if nb_isNeedMerge t0
               then t0\<lparr>nb_sliceMap := GetRankMapping rankSize False (nb_sliceMap t0)\<rparr> else t0) in
      if \<not> c_dispatcher env then (t, fail HCCL_E_PTR)
      else if \<not> c_stream env then (t, fail HCCL_E_PTR)
      else if rankSize = 1 then
        (t, if at_inputMem t \<noteq> at_outputMem t
            then HcclD2DMemcpyAsync env (at_outputMem t) (at_inputMem t) else done_ok)
      else if length links < rankSize then (t, fail HCCL_E_INTERNAL)
      else if c_unit env = 0 then (t, fail HCCL_E_INTERNAL)
      else
        let sliceSize = at_count t * ucast (c_unit env);
            inputSlices = input_slices t rankSize sliceSize;
            t1 = (if at_slices t = [] then t\<lparr>at_slices := even_slices rankSize sliceSize\<rparr> else t);
            t2 = (if length (nb_sliceMap t1) \<noteq> rankSize
                  then t1\<lparr>nb_sliceMap := GetRankMapping rankSize True (nb_sliceMap t1)\<rparr> else t1);
            targetIdx = nb_sliceMap t2 ! rank in
        (t2, all_of [copy_slice env t2 (at_slices t2 ! targetIdx) (inputSlices ! targetIdx),
                     AllGatherNHR_RunAllGather env t2 rank rankSize links]))"

section \<open>Nonuniform Bruck\<close>

definition nb_indices :: "nat \<Rightarrow> nat \<Rightarrow> nat \<Rightarrow> nat list \<Rightarrow> nat list" where
  "nb_indices rankSize nRealSliceSize base is =
     concat (map (\<lambda>i. let idx = sub32 base i mod rankSize in
       map (\<lambda>j. w32 (w32 (idx * nRealSliceSize) + j)) [0..<nRealSliceSize]) is)"

definition nb_round :: "coll_env \<Rightarrow> 'a AlgTemplate_scheme \<Rightarrow> nat \<Rightarrow> nat \<Rightarrow> links \<Rightarrow> nat \<Rightarrow> nat \<Rightarrow> prog" where
  "nb_round env t rank rankSize links nSteps step =
     (let nRealSliceSize = w32 (length (at_slices t) div rankSize);
          deltaRank = 2 ^ step;
          recvFrom = sub32 (w32 (rankSize + rank)) deltaRank mod rankSize;
          sendTo = w32 (rank + deltaRank) mod rankSize;
          nSlices = (if step = nSteps - 1 \<and> rankSize \<noteq> w32 (2 ^ nSteps)
                     then sub32 rankSize (2 ^ step) else 2 ^ step);
          rxIdxs = nb_indices rankSize nRealSliceSize (w32 (sub32 rank (2 ^ step) + rankSize)) [0..<nSlices];
          txIdxs = nb_indices rankSize nRealSliceSize (w32 (rank + rankSize)) [0..<nSlices];
          txSlices = filter (\<lambda>s. 0 < sl_size s) (map (\<lambda>i. at_slices t ! i) txIdxs);
          rxSlices = filter (\<lambda>s. 0 < sl_size s) (map (\<lambda>i. at_slices t ! i) rxIdxs) in
      if \<not> has_link links recvFrom then fail HCCL_E_PTR
      else if \<not> has_link links sendTo then fail HCCL_E_PTR
      else all_of
        [if rxSlices \<noteq> [] then call env recvFrom TxAck else done_ok,
         if txSlices \<noteq> [] then andthen (call env sendTo RxAck) (Tx env t sendTo txSlices) else done_ok,
         if rxSlices \<noteq> []
         then all_of [Rx env t recvFrom rxSlices, call env recvFrom RxWaitDone, call env recvFrom PostFinAck]
         else done_ok,
         if txSlices \<noteq> [] then andthen (call env sendTo TxWaitDone) (call env sendTo WaitFinAck) else done_ok,
         if link_inline links sendTo \<or> link_inline links recvFrom
         then ExecuteBarrier env recvFrom sendTo else done_ok])"

definition AllGatherNB_RunAllGather :: "coll_env \<Rightarrow> 'a AlgTemplate_scheme \<Rightarrow> nat \<Rightarrow> nat \<Rightarrow> links \<Rightarrow> prog" where
  "AllGatherNB_RunAllGather env t rank rankSize links =
     (if length (at_slices t) < rankSize then fail HCCL_E_INTERNAL
      else let nSteps = CalcCeilLog2 rankSize in
        each (nb_round env t rank rankSize links nSteps) [0..<nSteps])"

definition AllGatherNB_RunAsync ::
  "coll_env \<Rightarrow> nat \<Rightarrow> nat \<Rightarrow> links \<Rightarrow> AlgTemplate \<Rightarrow> AlgTemplate \<times> prog" where
  "AllGatherNB_RunAsync env rank rankSize links t =
     (if \<not> c_dispatcher env then (t, fail HCCL_E_PTR)
      else if \<not> c_stream env then (t, fail HCCL_E_PTR)
      else if rankSize = 1 then
        (t, if at_inputMem t \<noteq> at_outputMem t
            then HcclD2DMemcpyAsync env (at_outputMem t) (at_inputMem t) else done_ok)
      else if length links < rankSize then (t, fail HCCL_E_INTERNAL)
      else if c_unit env = 0 then (t, fail HCCL_E_INTERNAL)
      else
        let sliceSize = at_count t * ucast (c_unit env);
            inputSlices = input_slices t rankSize sliceSize;
            t1 = (if at_slices t = [] then t\<lparr>at_slices := even_slices rankSize sliceSize\<rparr> else t) in
        (t1, all_of [copy_slice env t1 (at_slices t1 ! rank) (inputSlices ! rank),
                     AllGatherNB_RunAllGather env t1 rank rankSize links]))"

section \<open>The switch port phases reported to the network scheduler\<close>

definition AdjInfo_loop :: "nat \<Rightarrow> nat \<Rightarrow> links \<Rightarrow> (nat \<Rightarrow> nat) \<Rightarrow> nat list \<Rightarrow> (nat \<times> nat) list \<Rightarrow>
    HcclResult \<times> (nat \<times> nat) list" where
  "AdjInfo_loop rank rankSize links delta steps acc =
     fold (\<lambda>step (r, acc). if r \<noteq> HCCL_SUCCESS then (r, acc)
         else let sendTo = w32 (rank + delta step) mod rankSize in
           if \<not> has_link links sendTo then (HCCL_E_PTR, acc)
           else (HCCL_SUCCESS, acc @ [(sendTo, step + 1)])) steps (HCCL_SUCCESS, acc)"

text \<open>The result, the destination and phase of each round, and the number of rounds if set.\<close>

definition GetNslbAdjInfo ::
  "(nat \<Rightarrow> nat \<Rightarrow> nat) \<Rightarrow> nat \<Rightarrow> nat \<Rightarrow> links \<Rightarrow> HcclResult \<times> (nat \<times> nat) list \<times> nat option" where
  "GetNslbAdjInfo delta rank rankSize links =
     (if rankSize = 1 then (HCCL_SUCCESS, [], None)
      else if length links < rankSize then (HCCL_SUCCESS, [], None)
      else let nSteps = halvings (sub32 rankSize 1);
               (r, infos) = AdjInfo_loop rank rankSize links (delta nSteps) [0..<nSteps] [] in
        if r \<noteq> HCCL_SUCCESS then (r, infos, None) else (HCCL_SUCCESS, infos, Some nSteps))"

definition AllGatherNHR_GetNslbAdjInfo where
  "AllGatherNHR_GetNslbAdjInfo = GetNslbAdjInfo (\<lambda>nSteps step. 2 ^ (nSteps - 1 - step))"

definition AllGatherNB_GetNslbAdjInfo where
  "AllGatherNB_GetNslbAdjInfo = GetNslbAdjInfo (\<lambda>nSteps step. 2 ^ step)"

end
