(* ===== verification/Schedules.thy ===== *)
theory Schedules
  imports AllGather
begin

text \<open>
  The index arithmetic of the rounds in closed form: who talks to whom, and which parts a
  rank holds before and receives in every round, for any number of ranks below \<open>2 ^ 31\<close>.
\<close>

definition fwd :: "nat \<Rightarrow> nat \<Rightarrow> nat \<Rightarrow> nat" where "fwd N r x = (r + x) mod N"
definition bwd :: "nat \<Rightarrow> nat \<Rightarrow> nat \<Rightarrow> nat" where "bwd N r x = (r + (N - x)) mod N"

lemma fwd_less [simp]: "0 < N \<Longrightarrow> fwd N r x < N" and bwd_less [simp]: "0 < N \<Longrightarrow> bwd N r x < N"
  by (simp_all add: fwd_def bwd_def)

lemma bwd_0 [simp]: "r < N \<Longrightarrow> bwd N r 0 = r"
  by (simp add: bwd_def)

lemma bwd_bwd: "x + y \<le> N \<Longrightarrow> bwd N (bwd N r x) y = bwd N r (x + y)"
proof -
  assume a: "x + y \<le> N"
  have "bwd N (bwd N r x) y = (r + (N - x) + (N - y)) mod N"
    by (simp add: bwd_def mod_add_left_eq)
  also have "r + (N - x) + (N - y) = (r + (N - (x + y))) + N" using a by linarith
  finally show ?thesis by (simp add: bwd_def)
qed

lemma bwd_fwd: "r < N \<Longrightarrow> x \<le> N \<Longrightarrow> bwd N (fwd N r x) x = r"
proof -
  assume a: "r < N" "x \<le> N"
  have "bwd N (fwd N r x) x = (r + x + (N - x)) mod N" by (simp add: bwd_def fwd_def mod_add_left_eq)
  also have "r + x + (N - x) = r + N" using a by linarith
  finally show ?thesis using a by simp
qed

lemma fwd_bwd: "r < N \<Longrightarrow> x \<le> N \<Longrightarrow> fwd N (bwd N r x) x = r"
proof -
  assume a: "r < N" "x \<le> N"
  have "fwd N (bwd N r x) x = (r + (N - x) + x) mod N" by (simp add: bwd_def fwd_def mod_add_left_eq)
  also have "r + (N - x) + x = r + N" using a by linarith
  finally show ?thesis using a by simp
qed

lemma partner_iff: "r < N \<Longrightarrow> q < N \<Longrightarrow> x \<le> N \<Longrightarrow> bwd N r x = q \<longleftrightarrow> fwd N q x = r"
  using bwd_fwd fwd_bwd by metis

lemma bwd_all: "r < N \<Longrightarrow> l < N \<Longrightarrow> \<exists>j<N. bwd N r j = l"
proof -
  assume a: "r < N" "l < N"
  show ?thesis
  proof (cases "l \<le> r")
    case True
    then have "bwd N r (r - l) = l" using a by (simp add: bwd_def)
    then show ?thesis using a by (intro exI[of _ "r - l"]) simp
  next
    case False
    then have "r + (N - (r + N - l)) = l" using a by linarith
    then have "bwd N r (r + N - l) = l" using a unfolding bwd_def by simp
    then show ?thesis using a False by (intro exI[of _ "r + N - l"]) simp
  qed
qed

section \<open>What the code computes\<close>

lemma sub32_wrap: "r < 2 ^ 31 \<Longrightarrow> d \<le> 2 ^ 31 \<Longrightarrow> d \<le> r + N \<Longrightarrow> N \<le> 2 ^ 31 \<Longrightarrow> w32 (sub32 r d + N) = r + N - d"
proof -
  assume a: "r < 2 ^ 31" "d \<le> 2 ^ 31" "d \<le> r + N" "N \<le> 2 ^ 31"
  have lt: "r + N - d < 2 ^ 32" using a by simp
  have "w32 d = d" using a(2) by simp
  then have s: "sub32 r d = (r + (2 ^ 32 - d)) mod 2 ^ 32" by (simp only: sub32_def w32_def)
  have "w32 (sub32 r d + N) = (r + (2 ^ 32 - d) + N) mod 2 ^ 32"
    unfolding w32_def s by (rule mod_add_left_eq)
  also have "r + (2 ^ 32 - d) + N = (r + N - d) + 2 ^ 32" using a(2,3) by simp
  also have "((r + N - d) + 2 ^ 32) mod 2 ^ 32 = (r + N - d) mod 2 ^ 32" by (rule mod_add_self2)
  also have "\<dots> = r + N - d" using lt by (rule mod_less)
  finally show ?thesis .
qed

lemma from_code: "r < N \<Longrightarrow> N \<le> 2 ^ 31 \<Longrightarrow> d \<le> N \<Longrightarrow> sub32 (w32 (r + N)) d mod N = bwd N r d"
  by (simp add: bwd_def)

lemma to_code: "r < N \<Longrightarrow> N \<le> 2 ^ 31 \<Longrightarrow> d \<le> N \<Longrightarrow> w32 (r + d) mod N = fwd N r d"
  by (simp add: fwd_def)

lemma first_rx_code: "r < N \<Longrightarrow> N \<le> 2 ^ 31 \<Longrightarrow> d \<le> N \<Longrightarrow> w32 (sub32 r d + N) mod N = bwd N r d"
  by (subst sub32_wrap) (simp_all add: bwd_def)

lemma step_ranks_bwd:
  "m \<le> 1 \<or> (m - 1) * D \<le> N \<Longrightarrow> idx < N \<Longrightarrow> N \<le> 2 ^ 31 \<Longrightarrow>
    step_ranks N D m idx = map (\<lambda>i. bwd N idx (i * D)) [0..<m]"
proof (induction m arbitrary: idx)
  case (Suc m)
  show ?case
  proof (cases m)
    case 0
    then show ?thesis using Suc.prems by simp
  next
    case (Suc k)
    then have D: "m * D \<le> N" "D \<le> N" using Suc.prems(1) by auto
    have idx: "sub32 (w32 (idx + N)) D mod N = bwd N idx D"
      by (rule from_code) (use Suc.prems D in auto)
    have lt: "bwd N idx D < N" using Suc.prems by simp
    have "step_ranks N D m (bwd N idx D) = map (\<lambda>i. bwd N (bwd N idx D) (i * D)) [0..<m]"
      by (rule Suc.IH) (use D lt Suc Suc.prems in auto)
    also have "\<dots> = map (\<lambda>i. bwd N idx (Suc i * D)) [0..<m]"
    proof (rule map_cong[OF refl])
      fix i assume "i \<in> set [0..<m]"
      then have "Suc i * D \<le> m * D" by (intro mult_le_mono1) auto
      then have "D + i * D \<le> N" using D by simp
      then show "bwd N (bwd N idx D) (i * D) = bwd N idx (Suc i * D)" by (simp add: bwd_bwd)
    qed
    finally show ?thesis using idx Suc.prems by (simp add: upt_conv_Cons map_Suc_upt[symmetric] o_def del: upt_Suc)
  qed
qed simp

section \<open>The rounds of the hierarchical ring\<close>

definition nhr_delta :: "nat \<Rightarrow> nat \<Rightarrow> nat" where
  "nhr_delta N s = 2 ^ (GetStepNumInterServer N - 1 - s)"

definition nhr_count :: "nat \<Rightarrow> nat \<Rightarrow> nat" where
  "nhr_count N s = (N - 1 + nhr_delta N s) div (2 * nhr_delta N s)"

definition nhr_held :: "nat \<Rightarrow> nat \<Rightarrow> nat \<Rightarrow> nat set" where
  "nhr_held N s r = {bwd N r (j * 2 ^ (GetStepNumInterServer N - s)) | j. j * 2 ^ (GetStepNumInterServer N - s) < N}"

definition nhr_rx :: "nat \<Rightarrow> nat \<Rightarrow> nat \<Rightarrow> nat list" where
  "nhr_rx N s r = map (\<lambda>i. bwd N r (nhr_delta N s + i * (2 * nhr_delta N s))) [0..<nhr_count N s]"

lemma nhr_delta_less:
  assumes N: "2 \<le> N" "N \<le> 2 ^ 31"
  shows "nhr_delta N s < N"
proof -
  have "nhr_delta N s \<le> 2 ^ (GetStepNumInterServer N - 1)"
    unfolding nhr_delta_def by (intro power_increasing) auto
  moreover have "2 ^ (GetStepNumInterServer N - 1) < N" using rounds_bounds(2)[of N] N by simp
  ultimately show ?thesis by linarith
qed

lemma nhr_delta_double: "s < GetStepNumInterServer N \<Longrightarrow> 2 ^ (GetStepNumInterServer N - s) = 2 * nhr_delta N s"
  unfolding nhr_delta_def by (metis Suc_diff_Suc diff_Suc_eq_diff_pred power_Suc)

lemma nhr_count_less:
  assumes N: "2 \<le> N" "N \<le> 2 ^ 31"
  shows "i < nhr_count N s \<longleftrightarrow> nhr_delta N s + i * (2 * nhr_delta N s) < N"
proof -
  have "0 < nhr_delta N s" by (simp add: nhr_delta_def)
  then have "i < nhr_count N s \<longleftrightarrow> Suc i * (2 * nhr_delta N s) \<le> N - 1 + nhr_delta N s"
    unfolding nhr_count_def Suc_le_eq[symmetric] by (subst less_eq_div_iff_mult_less_eq) simp_all
  then show ?thesis using N by (simp add: algebra_simps) linarith
qed

lemma nhr_count_le:
  assumes N: "2 \<le> N" "N \<le> 2 ^ 31"
  shows "nhr_count N s \<le> N"
proof (rule ccontr)
  assume "\<not> nhr_count N s \<le> N"
  then have "nhr_delta N s + N * (2 * nhr_delta N s) < N" using nhr_count_less[OF N, of N s] by simp
  moreover have "N * 1 \<le> N * (2 * nhr_delta N s)" by (rule mult_le_mono2) (simp add: nhr_delta_def Suc_le_eq)
  ultimately show False by linarith
qed

lemma nhr_rx_set:
  assumes N: "2 \<le> N" "N \<le> 2 ^ 31"
  shows "set (nhr_rx N s r) = {bwd N r (nhr_delta N s + i * (2 * nhr_delta N s)) | i.
    nhr_delta N s + i * (2 * nhr_delta N s) < N}"
  unfolding nhr_rx_def using nhr_count_less[OF N] by auto

lemma nhr_count_steps:
  assumes N: "2 \<le> N" "N \<le> 2 ^ 31"
  shows "nhr_count N s \<le> 1 \<or> (nhr_count N s - 1) * (2 * nhr_delta N s) \<le> N"
proof (cases "nhr_count N s \<le> 1")
  case False
  then have "nhr_delta N s + (nhr_count N s - 1) * (2 * nhr_delta N s) < N"
    using nhr_count_less[OF N, of "nhr_count N s - 1" s] by simp
  then show ?thesis by linarith
qed simp

lemma nhr_held_0:
  assumes N: "2 \<le> N" "N \<le> 2 ^ 31" and r: "r < N"
  shows "nhr_held N 0 r \<subseteq> {r}"
proof -
  have "N \<le> 2 ^ GetStepNumInterServer N" using rounds_bounds(1)[of N] N by simp
  then have "j * 2 ^ GetStepNumInterServer N < N \<Longrightarrow> j = 0" for j
    by (cases j) auto
  then show ?thesis using r unfolding nhr_held_def by fastforce
qed

lemma nhr_held_Suc:
  assumes N: "2 \<le> N" "N \<le> 2 ^ 31" and s: "s < GetStepNumInterServer N"
  shows "nhr_held N (Suc s) r \<subseteq> nhr_held N s r \<union> set (nhr_rx N s r)"
proof
  fix l assume "l \<in> nhr_held N (Suc s) r"
  moreover have "2 ^ (GetStepNumInterServer N - Suc s) = nhr_delta N s" by (simp add: nhr_delta_def)
  ultimately obtain j where j: "l = bwd N r (j * nhr_delta N s)" "j * nhr_delta N s < N"
    by (auto simp: nhr_held_def)
  show "l \<in> nhr_held N s r \<union> set (nhr_rx N s r)"
  proof (cases "even j")
    case True
    then obtain i where "j = i * 2" by (metis evenE mult.commute)
    then have "l = bwd N r (i * 2 ^ (GetStepNumInterServer N - s))" "i * 2 ^ (GetStepNumInterServer N - s) < N"
      using j nhr_delta_double[OF s] by (simp_all add: mult.assoc)
    then show ?thesis unfolding nhr_held_def by blast
  next
    case False
    then obtain i where "j = 2 * i + 1" by (auto elim!: oddE)
    then have "j * nhr_delta N s = nhr_delta N s + i * (2 * nhr_delta N s)" by simp
    then show ?thesis using j unfolding nhr_rx_set[OF N] by auto
  qed
qed

lemma nhr_rx_held:
  assumes N: "2 \<le> N" "N \<le> 2 ^ 31" and s: "s < GetStepNumInterServer N"
  shows "set (nhr_rx N s r) \<subseteq> nhr_held N s (bwd N r (nhr_delta N s))"
proof
  fix l assume "l \<in> set (nhr_rx N s r)"
  then obtain i where i: "l = bwd N r (nhr_delta N s + i * (2 * nhr_delta N s))"
    "nhr_delta N s + i * (2 * nhr_delta N s) < N"
    unfolding nhr_rx_set[OF N] by blast
  then have "l = bwd N (bwd N r (nhr_delta N s)) (i * (2 * nhr_delta N s))" by (simp add: bwd_bwd)
  then show "l \<in> nhr_held N s (bwd N r (nhr_delta N s))"
    using i(2) nhr_delta_double[OF s] by (auto simp: nhr_held_def)
qed

lemma nhr_held_all: "r < N \<Longrightarrow> l < N \<Longrightarrow> l \<in> nhr_held N (GetStepNumInterServer N) r"
  using bwd_all[of r N l] by (auto simp: nhr_held_def)

text \<open>What a rank sends is what its partner expects, in the same order.\<close>

lemma nhr_tx_rx:
  assumes N: "2 \<le> N" "N \<le> 2 ^ 31" and r: "r < N"
  shows "nhr_rx N s (fwd N r (nhr_delta N s)) = map (\<lambda>i. bwd N r (i * (2 * nhr_delta N s))) [0..<nhr_count N s]"
proof -
  have "bwd N (fwd N r (nhr_delta N s)) (nhr_delta N s + i * (2 * nhr_delta N s)) = bwd N r (i * (2 * nhr_delta N s))"
    if "i < nhr_count N s" for i
    using that nhr_count_less[OF N, of i s] bwd_fwd[OF r, of "nhr_delta N s"] nhr_delta_less[OF N, of s]
      bwd_bwd[of "nhr_delta N s" "i * (2 * nhr_delta N s)" N "fwd N r (nhr_delta N s)"] by simp
  then show ?thesis by (auto simp: nhr_rx_def)
qed

lemma nhr_info:
  assumes N: "2 \<le> N" "N \<le> 2 ^ 31" and r: "r < N" and s: "s < GetStepNumInterServer N"
  shows "AllGatherNHR_GetStepInfo t s (GetStepNumInterServer N) r N =
     (let k = w32 (length (at_slices t) div N) in
      \<lparr>st_step = s, st_myRank = r, st_nSlices = w32 (nhr_count N s * k),
       st_toRank = fwd N r (nhr_delta N s), st_fromRank = bwd N r (nhr_delta N s),
       st_txSliceIdxs = slice_idxs (nb_sliceMap t) k (nhr_rx N s (fwd N r (nhr_delta N s))),
       st_rxSliceIdxs = slice_idxs (nb_sliceMap t) k (nhr_rx N s r)\<rparr>)"
proof -
  let ?d = "nhr_delta N s"
  note d = nhr_delta_less[OF N, of s] nhr_delta_double[OF s]
  have delta: "2 ^ (GetStepNumInterServer N - 1 - s) = ?d" by (simp add: nhr_delta_def)
  have one: "sub32 N 1 = N - 1" by (rule sub32_id) (use N in simp_all)
  have "w32 (N - 1 + ?d) = N - 1 + ?d" by (rule w32_id) (use N d(1) in simp)
  then have cnt: "w32 (sub32 N 1 + ?d) div (2 * ?d) = nhr_count N s" by (simp only: one nhr_count_def)
  have codes: "sub32 (w32 (r + N)) ?d mod N = bwd N r ?d" "w32 (r + ?d) mod N = fwd N r ?d"
    "w32 (sub32 r ?d + N) mod N = bwd N r ?d"
    using from_code[OF r N(2), of ?d] to_code[OF r N(2), of ?d]
      first_rx_code[OF r N(2), of ?d] d(1) by simp_all
  have tx: "step_ranks N (2 * ?d) (nhr_count N s) r = nhr_rx N s (fwd N r ?d)"
    using step_ranks_bwd[OF nhr_count_steps[OF N] r N(2), of s] nhr_tx_rx[OF N r, of s] by simp
  have "step_ranks N (2 * ?d) (nhr_count N s) (bwd N r ?d) = map (\<lambda>i. bwd N (bwd N r ?d) (i * (2 * ?d))) [0..<nhr_count N s]"
    by (rule step_ranks_bwd[OF nhr_count_steps[OF N] _ N(2)]) (use N in simp)
  also have "\<dots> = nhr_rx N s r"
    unfolding nhr_rx_def
  proof (rule map_cong[OF refl])
    fix i assume "i \<in> set [0..<nhr_count N s]"
    then have "?d + i * (2 * ?d) < N" using nhr_count_less[OF N, of i s] by simp
    then show "bwd N (bwd N r ?d) (i * (2 * ?d)) = bwd N r (?d + i * (2 * ?d))" by (simp add: bwd_bwd)
  qed
  finally have rx: "step_ranks N (2 * ?d) (nhr_count N s) (bwd N r ?d) = nhr_rx N s r" .
  show ?thesis
    by (simp only: AllGatherNHR_GetStepInfo_def Let_def delta d(2) cnt codes tx rx)
qed

section \<open>The rounds of the Bruck algorithm\<close>

definition nb_count :: "nat \<Rightarrow> nat \<Rightarrow> nat" where
  "nb_count N s = min (2 ^ s) (N - 2 ^ s)"

definition nb_held :: "nat \<Rightarrow> nat \<Rightarrow> nat \<Rightarrow> nat set" where
  "nb_held N s r = {bwd N r j | j. j < 2 ^ s \<and> j < N}"

definition nb_rx :: "nat \<Rightarrow> nat \<Rightarrow> nat \<Rightarrow> nat list" where
  "nb_rx N s r = map (\<lambda>i. bwd N r (2 ^ s + i)) [0..<nb_count N s]"

lemma nb_count_bound: "i < nb_count N s \<Longrightarrow> 2 ^ s + i < N"
  unfolding nb_count_def by linarith

lemma nb_delta_less:
  assumes N: "2 \<le> N" "N \<le> 2 ^ 31" and s: "s < GetStepNumInterServer N"
  shows "2 ^ s < N"
proof -
  have "(2::nat) ^ s \<le> 2 ^ (GetStepNumInterServer N - 1)" using s by (intro power_increasing) auto
  moreover have "2 ^ (GetStepNumInterServer N - 1) < N" using rounds_bounds(2)[of N] N by simp
  ultimately show ?thesis by linarith
qed

text \<open>The number of parts in a round: doubling, and what is left in the last one.\<close>

lemma nb_count_code:
  assumes N: "2 \<le> N" "N \<le> 2 ^ 31" and s: "s < GetStepNumInterServer N"
  shows "(if s = GetStepNumInterServer N - 1 \<and> N \<noteq> w32 (2 ^ GetStepNumInterServer N)
          then sub32 N (2 ^ s) else 2 ^ s) = nb_count N s"
proof -
  let ?n = "GetStepNumInterServer N"
  have b: "N \<le> 2 ^ ?n" "2 ^ (?n - 1) < N" "0 < ?n" using rounds_bounds[of N] N by simp_all
  have d: "(2::nat) ^ s < N" by (rule nb_delta_less[OF assms])
  show ?thesis
  proof (cases "s = ?n - 1")
    case True
    then have dbl: "2 * 2 ^ s = (2::nat) ^ ?n" using b(3) by (metis Suc_pred' power_Suc)
    then have "N - 2 ^ s \<le> 2 ^ s" using b(1) by linarith
    moreover have "sub32 N (2 ^ s) = N - 2 ^ s" by (rule sub32_id) (use d N in simp_all)
    moreover have "w32 (2 ^ ?n) = 2 ^ ?n"
    proof (rule w32_id)
      have "2 * 2 ^ s < 2 * N" using d by simp
      also have "\<dots> \<le> 2 ^ 32" using N(2) by simp
      finally show "2 ^ ?n < (2::nat) ^ 32" using dbl by simp
    qed
    moreover have "N = 2 ^ ?n \<Longrightarrow> N - 2 ^ s = 2 ^ s" using dbl by linarith
    ultimately show ?thesis using True by (auto simp: nb_count_def)
  next
    case False
    then have "Suc s \<le> ?n - 1" using s by linarith
    then have "(2::nat) ^ Suc s \<le> 2 ^ (?n - 1)" by (rule power_increasing) simp
    then have "2 ^ s \<le> N - 2 ^ s" using b(2) by simp
    then show ?thesis using False by (simp add: nb_count_def)
  qed
qed

lemma nb_held_0: "r < N \<Longrightarrow> nb_held N 0 r \<subseteq> {r}"
  by (auto simp: nb_held_def)

lemma nb_held_Suc: "nb_held N (Suc s) r \<subseteq> nb_held N s r \<union> set (nb_rx N s r)"
proof
  fix l assume "l \<in> nb_held N (Suc s) r"
  then obtain j where j: "l = bwd N r j" "j < 2 * 2 ^ s" "j < N" by (auto simp: nb_held_def)
  show "l \<in> nb_held N s r \<union> set (nb_rx N s r)"
  proof (cases "j < 2 ^ s")
    case True
    then show ?thesis using j by (auto simp: nb_held_def)
  next
    case False
    then have "l = bwd N r (2 ^ s + (j - 2 ^ s))" "j - 2 ^ s < nb_count N s"
      using j by (auto simp: nb_count_def)
    then show ?thesis unfolding nb_rx_def by auto
  qed
qed

lemma nb_rx_held:
  assumes "2 ^ s < N"
  shows "set (nb_rx N s r) \<subseteq> nb_held N s (bwd N r (2 ^ s))"
proof
  fix l assume "l \<in> set (nb_rx N s r)"
  then obtain i where i: "l = bwd N r (2 ^ s + i)" "i < nb_count N s" unfolding nb_rx_def by auto
  then have "l = bwd N (bwd N r (2 ^ s)) i" using nb_count_bound[OF i(2)] by (simp add: bwd_bwd)
  then show "l \<in> nb_held N s (bwd N r (2 ^ s))" using i(2) assms by (auto simp: nb_held_def nb_count_def)
qed

lemma nb_held_all:
  assumes "2 \<le> N" "N \<le> 2 ^ 31" "r < N" "l < N"
  shows "l \<in> nb_held N (GetStepNumInterServer N) r"
proof -
  obtain j where j: "j < N" "bwd N r j = l" using bwd_all[OF assms(3,4)] by blast
  moreover have "N \<le> 2 ^ GetStepNumInterServer N" using rounds_bounds(1)[of N] assms by simp
  ultimately show ?thesis by (auto simp: nb_held_def)
qed

lemma nb_tx_rx:
  assumes "r < N" "2 ^ s < N"
  shows "nb_rx N s (fwd N r (2 ^ s)) = map (bwd N r) [0..<nb_count N s]"
proof -
  have "bwd N (fwd N r (2 ^ s)) (2 ^ s + i) = bwd N r i" if "i < nb_count N s" for i
    using nb_count_bound[OF that] assms bwd_fwd[of r N "2 ^ s"] bwd_bwd[of "2 ^ s" i N "fwd N r (2 ^ s)"]
    by simp
  then show ?thesis by (auto simp: nb_rx_def)
qed

lemma nb_indices_code:
  assumes N: "2 \<le> N" "N \<le> 2 ^ 31" and r: "r < N" and s: "s < GetStepNumInterServer N"
  shows "nb_indices N k (w32 (sub32 r (2 ^ s) + N)) [0..<nb_count N s] =
      concat (map (\<lambda>l. map (\<lambda>j. w32 (w32 (l * k) + j)) [0..<k]) (nb_rx N s r))"
    and "nb_indices N k (w32 (r + N)) [0..<nb_count N s] =
      concat (map (\<lambda>l. map (\<lambda>j. w32 (w32 (l * k) + j)) [0..<k]) (nb_rx N s (fwd N r (2 ^ s))))"
proof -
  have d: "2 ^ s < N" by (rule nb_delta_less[OF N s])
  have rx: "sub32 (w32 (sub32 r (2 ^ s) + N)) i mod N = bwd N r (2 ^ s + i)" if "i < nb_count N s" for i
  proof -
    have i: "2 ^ s + i \<le> N" using nb_count_bound[OF that] by simp
    have "w32 (sub32 r (2 ^ s) + N) = r + N - 2 ^ s" by (rule sub32_wrap) (use r d N in auto)
    moreover have "sub32 (r + N - 2 ^ s) i = r + N - 2 ^ s - i" by (rule sub32_id) (use i r N in auto)
    moreover have "r + N - 2 ^ s - i = r + (N - (2 ^ s + i))" using i by linarith
    ultimately show ?thesis by (simp add: bwd_def)
  qed
  have tx: "sub32 (w32 (r + N)) i mod N = bwd N r i" if "i < nb_count N s" for i
    using from_code[OF r N(2), of i] nb_count_bound[OF that] by simp
  show "nb_indices N k (w32 (sub32 r (2 ^ s) + N)) [0..<nb_count N s] =
      concat (map (\<lambda>l. map (\<lambda>j. w32 (w32 (l * k) + j)) [0..<k]) (nb_rx N s r))"
    unfolding nb_indices_def nb_rx_def Let_def using rx by (auto intro!: arg_cong[where f = concat])
  show "nb_indices N k (w32 (r + N)) [0..<nb_count N s] =
      concat (map (\<lambda>l. map (\<lambda>j. w32 (w32 (l * k) + j)) [0..<k]) (nb_rx N s (fwd N r (2 ^ s))))"
    unfolding nb_indices_def nb_tx_rx[OF r d] Let_def using tx by (auto intro!: arg_cong[where f = concat])
qed

section \<open>The rounds fit together\<close>

text \<open>
  C26: In every round of the hierarchical ring the schedules of the ranks fit together: what a
  rank sends, in this order, is what the rank it sends to expects to receive from it, and the
  two agree on the number of slices; so neither copies a slice the other does not mean.
\<close>

theorem GetStepInfo_partners:
  assumes "2 \<le> N" "N \<le> 2 ^ 31" "r < N" "s < GetStepNumInterServer N"
    "length (at_slices t) = length (at_slices u)" "nb_sliceMap t = nb_sliceMap u"
  shows "let mine = AllGatherNHR_GetStepInfo t s (GetStepNumInterServer N) r N;
             his = AllGatherNHR_GetStepInfo u s (GetStepNumInterServer N) (st_toRank mine) N in
         st_toRank mine < N \<and> st_toRank mine \<noteq> r \<and> st_fromRank his = r \<and>
         st_txSliceIdxs mine = st_rxSliceIdxs his \<and> st_nSlices mine = st_nSlices his"
proof -
  note N = assms(1,2)
  let ?d = "nhr_delta N s"
  have d: "0 < ?d" "?d < N" using nhr_delta_less[OF N, of s] by (simp_all add: nhr_delta_def)
  have q: "fwd N r ?d < N" using N by simp
  have "fwd N r ?d \<noteq> r"
  proof
    assume "fwd N r ?d = r"
    then have "(r + ?d) mod N = r mod N" using assms(3) by (simp add: fwd_def)
    then have "?d mod N = 0" using mod_eq_dvd_iff_nat[of r "r + ?d" N] by simp
    then show False using d by simp
  qed
  then show ?thesis
    using q d bwd_fwd[OF assms(3), of ?d] assms(5,6)
    by (simp add: nhr_info[OF N assms(3,4)] nhr_info[OF N q assms(4)] Let_def)
qed

definition ring_sample :: NHRBase where
  "ring_sample = \<lparr>at_inputMem = null_mem, at_outputMem = null_mem, at_scratchMem = null_mem, at_count = 0,
     at_slices = replicate 5 \<lparr>sl_offset = 0, sl_size = 4\<rparr>, at_baseOffset = 0, nb_isNeedMerge = False,
     nb_sliceMap = [0, 1, 2, 3, 4]\<rparr>"

lemma rounds_five: "GetStepNumInterServer 5 = 3"
  by (simp add: GetStepNumInterServer_def halvings.simps)

lemma GetStepInfo_partners_witness:
  "st_toRank (AllGatherNHR_GetStepInfo ring_sample 1 3 4 5) = 1 \<and>
   st_txSliceIdxs (AllGatherNHR_GetStepInfo ring_sample 1 3 4 5) =
     st_rxSliceIdxs (AllGatherNHR_GetStepInfo ring_sample 1 3 1 5)"
proof -
  have to: "st_toRank (AllGatherNHR_GetStepInfo ring_sample 1 3 4 5) = 1"
    by (simp add: AllGatherNHR_GetStepInfo_def Let_def)
  show ?thesis
    using GetStepInfo_partners[of 5 4 1 ring_sample ring_sample] to
    by (simp add: rounds_five Let_def)
qed

text \<open>The reported rounds.\<close>

lemma AdjInfo_loop_all:
  "(\<And>s. s \<in> set steps \<Longrightarrow> has_link links (w32 (r + delta s) mod N)) \<Longrightarrow>
    AdjInfo_loop r N links delta steps acc =
      (HCCL_SUCCESS, acc @ map (\<lambda>s. (w32 (r + delta s) mod N, s + 1)) steps)"
  unfolding AdjInfo_loop_def by (induction steps arbitrary: acc) (simp_all add: Let_def)

text \<open>
  The rounds a rank reports to the network scheduler are those it executes: one entry per
  round, numbered from one, whose destination is the rank it sends to in that round of the
  ring; with fewer links than ranks, or alone, it reports nothing, and says so with success.
\<close>

theorem GetNslbAdjInfo_rounds:
  assumes "2 \<le> N" "N \<le> 2 ^ 31" "r < N" "\<forall>q<N. has_link links q" "N \<le> length links"
  shows "AllGatherNHR_GetNslbAdjInfo r N links =
      (HCCL_SUCCESS,
       map (\<lambda>s. (st_toRank (AllGatherNHR_GetStepInfo t s (GetStepNumInterServer N) r N), s + 1))
         [0..<GetStepNumInterServer N],
       Some (GetStepNumInterServer N)) \<and>
    (\<forall>few. length few < N \<longrightarrow> AllGatherNHR_GetNslbAdjInfo r N few = (HCCL_SUCCESS, [], None)) \<and>
    AllGatherNHR_GetNslbAdjInfo 0 1 links = (HCCL_SUCCESS, [], None)"
proof -
  let ?n = "GetStepNumInterServer N"
  have n: "halvings (sub32 N 1) = ?n" by (simp add: GetStepNumInterServer_def)
  have N0: "0 < N" using assms(1) by simp
  have "AdjInfo_loop r N links (\<lambda>s. 2 ^ (?n - 1 - s)) [0..<?n] [] =
      (HCCL_SUCCESS, [] @ map (\<lambda>s. (w32 (r + 2 ^ (?n - 1 - s)) mod N, s + 1)) [0..<?n])"
    by (rule AdjInfo_loop_all) (use assms(4) N0 in simp)
  then have loop: "AdjInfo_loop r N links (\<lambda>s. 2 ^ (?n - 1 - s)) [0..<?n] [] =
      (HCCL_SUCCESS, map (\<lambda>s. (st_toRank (AllGatherNHR_GetStepInfo t s ?n r N), s + 1)) [0..<?n])"
    by (simp add: AllGatherNHR_GetStepInfo_def Let_def)
  have "AllGatherNHR_GetNslbAdjInfo r N links = (HCCL_SUCCESS,
      map (\<lambda>s. (st_toRank (AllGatherNHR_GetStepInfo t s ?n r N), s + 1)) [0..<?n], Some ?n)"
    unfolding AllGatherNHR_GetNslbAdjInfo_def GetNslbAdjInfo_def n Let_def loop using assms(1,5) by simp
  then show ?thesis
    using assms(1) by (simp add: AllGatherNHR_GetNslbAdjInfo_def GetNslbAdjInfo_def)
qed

lemma GetNslbAdjInfo_rounds_witness:
  "AllGatherNHR_GetNslbAdjInfo 4 5 (replicate 5 (Some \<lparr>l_class = TransportP2p, l_linkType = LINK_HCCS, l_pull = True\<rparr>)) =
     (HCCL_SUCCESS, [(3, 1), (1, 2), (0, 3)], Some 3)"
  using GetNslbAdjInfo_rounds[of 5 4 "replicate 5 (Some \<lparr>l_class = TransportP2p, l_linkType = LINK_HCCS, l_pull = True\<rparr>)" ring_sample]
  by (simp add: has_link_def rounds_five AllGatherNHR_GetStepInfo_def Let_def upt_rec)

end
