(* ===== verification/GatherProof.thy ===== *)
theory GatherProof
  imports Gather Schedules
begin

text \<open>
  The AllGather templates are correct: with valid slices and links of one kind, every launch
  accepted, the streams of the ranks never block, whatever their interleaving, and when all
  have finished every rank holds every rank's part of the output.
\<close>

section \<open>Set-up\<close>

text \<open>What a rank's environment answers when nothing fails.\<close>

definition env_ready :: "coll_env \<Rightarrow> u32 \<Rightarrow> bool" where
  "env_ready env u \<longleftrightarrow> all_succeed env \<and> c_dispatcher env \<and> c_stream env \<and> c_unit env = u \<and> u \<noteq> 0"

text \<open>
  All links are of one kind: RDMA links, or point-to-point links with inline reduction whose
  two ends agree on who moves the data.
\<close>

definition links_ready :: "nat \<Rightarrow> bool \<Rightarrow> bool \<Rightarrow> links \<Rightarrow> bool" where
  "links_ready N rdma pull links \<longleftrightarrow> N \<le> length links \<and> (\<forall>q<N. \<exists>t. links ! q = Some t \<and> l_pull t = pull \<and>
     (if rdma then l_class t = TransportIbverbs \<and> \<not> IsSpInlineReduce t
      else l_class t = TransportP2p \<and> IsSpInlineReduce t))"

text \<open>
  The output memory is a range of the registered output buffer at the base offset, the input
  memory is the same or a range of the input buffer.
\<close>

definition buffers_ready :: "'a AlgTemplate_scheme \<Rightarrow> u64 \<Rightarrow> u64 \<Rightarrow> bool" where
  "buffers_ready t base size1 \<longleftrightarrow>
     at_outputMem t = \<lparr>dm_ptr = Some (OUTPUT_MEM, base), dm_size = size1\<rparr> \<and> at_baseOffset t = base \<and>
     unat base + unat size1 < 2 ^ 64 \<and>
     (at_inputMem t = at_outputMem t \<or> (\<exists>ib isz. at_inputMem t = \<lparr>dm_ptr = Some (INPUT_MEM, ib), dm_size = isz\<rparr> \<and>
        unat ib + unat isz < 2 ^ 64))"

text \<open>The slices of the output, and the ones of rank \<open>r\<close> when every rank has \<open>k\<close> of them.\<close>

definition output_slices :: "'a AlgTemplate_scheme \<Rightarrow> nat \<Rightarrow> u32 \<Rightarrow> Slice list" where
  "output_slices t N u = (if at_slices t = [] then even_slices N (at_count t * ucast u) else at_slices t)"

definition part :: "Slice list \<Rightarrow> nat list \<Rightarrow> nat \<Rightarrow> nat \<Rightarrow> nat set" where
  "part sl sm k l = cover (map (\<lambda>j. sl ! (sm ! l * k + j)) [0..<k])"

definition slices_ready :: "nat \<Rightarrow> u64 \<Rightarrow> Slice list \<Rightarrow> bool" where
  "slices_ready N size1 sl \<longleftrightarrow> sl \<noteq> [] \<and> length sl mod N = 0 \<and> length sl < 2 ^ 32 \<and>
     (\<forall>s\<in>set sl. slice_in (unat size1) s)"

text \<open>
  The rank's input: its own part of the output already in place, or one slice in the input
  buffer. \<open>g x\<close> is the value that belongs at offset \<open>x\<close> of the output.
\<close>

definition input_ready ::
  "'v memory \<Rightarrow> (nat \<Rightarrow> 'v) \<Rightarrow> nat \<Rightarrow> 'a AlgTemplate_scheme \<Rightarrow> u64 \<Rightarrow> nat set \<Rightarrow> nat \<Rightarrow> Slice \<Rightarrow> Slice \<Rightarrow> bool" where
  "input_ready m0 g r t base own k dst src \<longleftrightarrow>
     (if at_inputMem t = at_outputMem t then \<forall>x\<in>own. m0 r OUTPUT_MEM (unat base + x) = g x
      else k = 1 \<and> slice_in (unat (dm_size (at_inputMem t))) src \<and> sl_size src = sl_size dst \<and>
        (\<forall>x<unat (sl_size dst).
           m0 r INPUT_MEM (unat (snd (the (dm_ptr (at_inputMem t)))) + unat (sl_offset src) + x) =
           g (unat (sl_offset dst) + x)))"

lemma buffers_ready_update [simp]:
  "buffers_ready (t\<lparr>at_slices := x\<rparr>) b n = buffers_ready t b n"
  "buffers_ready (t'\<lparr>nb_sliceMap := y\<rparr>) b n = buffers_ready t' b n"
  by (simp_all add: buffers_ready_def)

section \<open>Programs that succeed\<close>

lemma runs_call: "all_succeed env \<Longrightarrow> runs (call env q c) [LinkCall q c]"
  by (simp add: call_def runs_launch_ok)

lemma runs_all_of_Nil: "runs (all_of []) []"
  by (simp add: runs_done)

lemma runs_all_of_Cons: "runs p ts \<Longrightarrow> runs (all_of ps) us \<Longrightarrow> runs (all_of (p # ps)) (ts @ us)"
  by (simp add: runs_andthen)

lemmas runs_all_of = runs_all_of_Nil runs_all_of_Cons

lemma runs_if: "(b \<Longrightarrow> runs p ts) \<Longrightarrow> runs (if b then p else done_ok) (if b then ts else [])"
  by (simp add: runs_done)

lemma range_of_ready:
  assumes "slice_in (unat size1) s" "unat base + unat size1 < 2 ^ 64"
  shows "range_of \<lparr>dm_ptr = Some (b, base), dm_size = size1\<rparr> (sl_offset s) (sl_size s) =
      \<lparr>dm_ptr = Some (b, base + sl_offset s), dm_size = sl_size s\<rparr>"
    and "unat (base + sl_offset s) = unat base + unat (sl_offset s)"
    and "unat (sl_offset s + base) = unat base + unat (sl_offset s)"
proof -
  have le: "unat (sl_offset s) + unat (sl_size s) \<le> unat size1" using assms(1) by (simp add: slice_in_def)
  then have "unat (sl_offset s + sl_size s) = unat (sl_offset s) + unat (sl_size s)"
    using unsigned_less[of size1, where ?'a = nat] by (simp add: unat_word_ariths)
  then have "\<not> sl_offset s + sl_size s > size1" using le by (simp add: word_less_nat_alt)
  then show "range_of \<lparr>dm_ptr = Some (b, base), dm_size = size1\<rparr> (sl_offset s) (sl_size s) =
      \<lparr>dm_ptr = Some (b, base + sl_offset s), dm_size = sl_size s\<rparr>"
    by (simp add: range_of_def)
  show "unat (base + sl_offset s) = unat base + unat (sl_offset s)"
    using le assms(2) by (simp add: unat_word_ariths)
  then show "unat (sl_offset s + base) = unat base + unat (sl_offset s)" by (simp add: add.commute)
qed

definition slice_move :: "u64 \<Rightarrow> nat \<Rightarrow> nat \<Rightarrow> Slice \<Rightarrow> action" where
  "slice_move base q r s =
     Move (q, OUTPUT_MEM, unat base + unat (sl_offset s)) (r, OUTPUT_MEM, unat base + unat (sl_offset s)) (unat (sl_size s))"

lemma tx_moves:
  assumes "buffers_ready t base size1" "\<forall>s\<in>set ss. slice_in (unat size1) s"
  shows "concat (map (tx_move r q) (map (tx_info t) ss)) = map (slice_move base q r) ss"
proof -
  have "tx_move r q (tx_info t s) = [slice_move base q r s]" if "s \<in> set ss" for s
    using assms that range_of_ready[of size1 s base]
    by (simp add: buffers_ready_def tx_info_def slice_move_def)
  then show ?thesis by (induction ss) simp_all
qed

lemma rx_moves:
  assumes "buffers_ready t base size1" "\<forall>s\<in>set ss. slice_in (unat size1) s"
  shows "concat (map (rx_move r q) (map (rx_info t) ss)) = map (slice_move base r q) ss"
proof -
  have "rx_move r q (rx_info t s) = [slice_move base r q s]" if "s \<in> set ss" for s
    using assms that range_of_ready[of size1 s base]
    by (simp add: buffers_ready_def rx_info_def slice_move_def)
  then show ?thesis by (induction ss) simp_all
qed

lemma slice_moves_cover:
  assumes "c \<in> (+) (unat base) ` cover ss"
  shows "\<exists>a len. Move (q, OUTPUT_MEM, a) (r, OUTPUT_MEM, a) len \<in> set (map (slice_move base q r) (filter (\<lambda>s. 0 < sl_size s) ss)) \<and>
    a \<le> c \<and> c < a + len"
proof -
  obtain s x where s: "s \<in> set ss" "x \<in> slice_bytes s" "c = unat base + x" using assms by (auto simp: cover_def)
  then have "0 < sl_size s" by (auto simp: slice_bytes_def bytes_def word_gt_0 unat_eq_zero[symmetric] simp del: unat_eq_zero)
  then have "slice_move base q r s \<in> set (map (slice_move base q r) (filter (\<lambda>s. 0 < sl_size s) ss))" using s by auto
  then show ?thesis using s
    by (intro exI[of _ "unat base + unat (sl_offset s)"] exI[of _ "unat (sl_size s)"])
      (simp add: slice_move_def[of base q r s] slice_bytes_def bytes_def)
qed

lemma slice_moves_within:
  assumes "act \<in> set (map (slice_move base q r) ss)"
  shows "\<exists>a len. act = Move (q, OUTPUT_MEM, a) (r, OUTPUT_MEM, a) len \<and> {a..<a + len} \<subseteq> (+) (unat base) ` cover ss"
proof -
  obtain s where s: "s \<in> set ss" "act = slice_move base q r s" using assms by auto
  have "{unat base + unat (sl_offset s)..<unat base + unat (sl_offset s) + unat (sl_size s)} = (+) (unat base) ` slice_bytes s"
    by (simp add: slice_bytes_def bytes_def ac_simps)
  also have "\<dots> \<subseteq> (+) (unat base) ` cover ss" using s(1) by (auto simp: cover_def)
  finally show ?thesis using s(2) by (auto simp: slice_move_def)
qed


lemma remote_copies_run:
  assumes "env_ready env u" "buffers_ready t base size1" "\<forall>s\<in>set ss. slice_in (unat size1) s"
  shows "\<exists>ts. runs (each (\<lambda>s. HcclD2DMemcpyAsync_remote env (range_of (at_outputMem t) (sl_offset s) (sl_size s))
               q OUTPUT_MEM (at_baseOffset t + sl_offset s) (sl_size s)) ss) ts \<and>
    stream_of L w r ts = map (slice_move base r q) (filter (\<lambda>s. 0 < sl_size s) ss)"
proof -
  let ?ts = "\<lambda>s. if sl_size s = 0 then [] else
    [CopyRemote (range_of (at_outputMem t) (sl_offset s) (sl_size s)) q OUTPUT_MEM (at_baseOffset t + sl_offset s) (sl_size s)]"
  have one: "runs (HcclD2DMemcpyAsync_remote env (range_of (at_outputMem t) (sl_offset s) (sl_size s))
               q OUTPUT_MEM (at_baseOffset t + sl_offset s) (sl_size s)) (?ts s) \<and>
      stream_of L w r (?ts s) = map (slice_move base r q) (filter (\<lambda>s. 0 < sl_size s) [s])" if "s \<in> set ss" for s
    using assms that range_of_ready[of size1 s base]
    by (auto simp: HcclD2DMemcpyAsync_remote_def env_ready_def buffers_ready_def slice_move_def
        word_gt_0 intro: runs_done runs_launch_ok)
  have "stream_of L w r (concat (map ?ts ss)) = map (slice_move base r q) (filter (\<lambda>s. 0 < sl_size s) ss)"
    using one by (induction ss) auto
  moreover have "runs (each (\<lambda>s. HcclD2DMemcpyAsync_remote env (range_of (at_outputMem t) (sl_offset s) (sl_size s))
               q OUTPUT_MEM (at_baseOffset t + sl_offset s) (sl_size s)) ss) (concat (map ?ts ss))"
    using one by (intro runs_each) blast
  ultimately show ?thesis by blast
qed

text \<open>The copy of a rank's own slice from the input buffer.\<close>

lemma copy_slice_runs:
  assumes "env_ready env u" "buffers_ready t base size1" "slice_in (unat size1) dst"
    and "input_ready m0 g r t base own k dst src" "k = 1 \<Longrightarrow> own = slice_bytes dst"
  shows "\<exists>ts. runs (copy_slice env t dst src) ts \<and>
    (stream_of L w r ts = [] \<and> (\<forall>a\<in>(+) (unat base) ` own. m0 r OUTPUT_MEM a = g (a - unat base)) \<or>
     (\<exists>sb da sa len. sb \<noteq> OUTPUT_MEM \<and> stream_of L w r ts = [Move (r, OUTPUT_MEM, da) (r, sb, sa) len] \<and>
        (+) (unat base) ` own = {da..<da + len} \<and> (\<forall>x<len. m0 r sb (sa + x) = g (da + x - unat base))))"
proof (cases "at_inputMem t = at_outputMem t")
  case True
  then show ?thesis using assms(4) by (intro exI[of _ "[]"]) (auto simp: copy_slice_def input_ready_def runs_done)
next
  case False
  then obtain ib isz where inp: "at_inputMem t = \<lparr>dm_ptr = Some (INPUT_MEM, ib), dm_size = isz\<rparr>"
    "unat ib + unat isz < 2 ^ 64"
    using assms(2) by (auto simp: buffers_ready_def)
  have k: "k = 1" "slice_in (unat isz) src" "sl_size src = sl_size dst"
    "\<forall>x<unat (sl_size dst). m0 r INPUT_MEM (unat ib + unat (sl_offset src) + x) = g (unat (sl_offset dst) + x)"
    using assms(4) False inp by (auto simp: input_ready_def)
  have own: "(+) (unat base) ` own = {unat base + unat (sl_offset dst)..<unat base + unat (sl_offset dst) + unat (sl_size dst)}"
    using assms(5)[OF k(1)] by (simp add: slice_bytes_def bytes_def ac_simps)
  note dst = range_of_ready[OF assms(3)] and src = range_of_ready[OF k(2) inp(2)]
  show ?thesis
  proof (cases "sl_size dst = 0")
    case True
    then show ?thesis using assms(1,2) False own inp k dst src
      by (intro exI[of _ "[]"]) (auto simp: copy_slice_def HcclD2DMemcpyAsync_def MemcpyAsync_def env_ready_def buffers_ready_def runs_done)
  next
    case nz: False
    let ?t = "CopyLocal (range_of (at_outputMem t) (sl_offset dst) (sl_size dst)) (range_of (at_inputMem t) (sl_offset src) (sl_size src))"
    have "runs (copy_slice env t dst src) [?t]"
      using assms(1,2) False inp k dst src nz
      by (auto simp: copy_slice_def HcclD2DMemcpyAsync_def MemcpyAsync_def env_ready_def buffers_ready_def intro: runs_launch_ok)
    moreover have "stream_of L w r [?t] = [Move (r, OUTPUT_MEM, unat base + unat (sl_offset dst))
        (r, INPUT_MEM, unat ib + unat (sl_offset src)) (unat (sl_size dst))]"
      using assms(2) inp k dst src by (simp add: buffers_ready_def)
    ultimately show ?thesis using own k(4) by (intro exI[of _ "[?t]"]) (auto simp: add.assoc)
  qed
qed


section \<open>Slices by rank\<close>

lemma slice_idxs_map:
  assumes "perm_of N sm" "length sl = N * k" "length sl < 2 ^ 32" "set rs \<subseteq> {..<N}"
  shows "map ((!) sl) (slice_idxs sm k rs) = concat (map (\<lambda>l. map (\<lambda>j. sl ! (sm ! l * k + j)) [0..<k]) rs)"
    and "length (slice_idxs sm k rs) = length rs * k"
proof -
  have "w32 (w32 (sm ! l * k) + j) = sm ! l * k + j" if "l \<in> set rs" "j < k" for l j
  proof -
    have "sm ! l < N" using perm_of_nth[OF assms(1)] assms(4) that by auto
    then have "sm ! l * k + k \<le> N * k" by (metis Suc_leI add.commute mult_Suc mult_le_mono1)
    then have "sm ! l * k + j < length sl" using that(2) assms(2) by linarith
    then show ?thesis using assms(3) by simp
  qed
  then show "map ((!) sl) (slice_idxs sm k rs) = concat (map (\<lambda>l. map (\<lambda>j. sl ! (sm ! l * k + j)) [0..<k]) rs)"
    unfolding slice_idxs_def map_concat by (auto intro!: arg_cong[where f = concat])
  show "length (slice_idxs sm k rs) = length rs * k"
    by (induction rs) (simp_all add: slice_idxs_def)
qed

lemma map_over_indices: "map f xs = map (\<lambda>i. f (xs ! i)) [0..<length xs]"
  by (rule nth_equalityI) simp_all

lemma cover_concat_map: "cover (concat (map f rs)) = (\<Union>r\<in>set rs. cover (f r))"
  by (induction rs) simp_all

lemma round_cover:
  assumes "perm_of N sm" "length sl = N * k" "length sl < 2 ^ 32" "set rs \<subseteq> {..<N}"
  shows "cover (map ((!) sl) (slice_idxs sm k rs)) = (\<Union>l\<in>set rs. part sl sm k l)"
    and "set (map ((!) sl) (slice_idxs sm k rs)) \<subseteq> set sl"
proof -
  show "cover (map ((!) sl) (slice_idxs sm k rs)) = (\<Union>l\<in>set rs. part sl sm k l)"
    by (simp only: slice_idxs_map[OF assms] cover_concat_map part_def)
  have "sm ! l * k + j < length sl" if "l \<in> set rs" "j < k" for l j
  proof -
    have "sm ! l < N" using perm_of_nth[OF assms(1)] assms(4) that by auto
    then have "sm ! l * k + k \<le> N * k" by (metis Suc_leI add.commute mult_Suc mult_le_mono1)
    then show ?thesis using that(2) assms(2) by linarith
  qed
  then show "set (map ((!) sl) (slice_idxs sm k rs)) \<subseteq> set sl"
    unfolding slice_idxs_map(1)[OF assms] by auto
qed

text \<open>Every slice belongs to some rank.\<close>

lemma part_all:
  assumes "perm_of N sm" "length sl = N * k" "s \<in> set sl"
  shows "\<exists>l<N. slice_bytes s \<subseteq> part sl sm k l"
proof -
  obtain i where i: "i < N * k" "sl ! i = s" using assms(2,3) by (auto simp: in_set_conv_nth)
  have k: "0 < k" using i(1) by (cases k) auto
  have "i div k < N" using i(1) k by (simp add: less_mult_imp_div_less)
  then obtain l where l: "l < N" "sm ! l = i div k"
    using assms(1) unfolding perm_of_def by (metis in_set_conv_nth lessThan_iff)
  have "s = sl ! (sm ! l * k + i mod k)" using i(2) l(2) by simp
  then have "s \<in> set (map (\<lambda>j. sl ! (sm ! l * k + j)) [0..<k])" using k by auto
  then show ?thesis using l(1) by (auto simp: part_def cover_def)
qed

section \<open>A run of a template on all ranks\<close>

record ('t, 'v) gather_run =
  gr_ranks :: nat
  gr_env :: "nat \<Rightarrow> coll_env"
  gr_links :: "nat \<Rightarrow> links"
  gr_tpl :: "nat \<Rightarrow> 't"
  gr_rdma :: bool
  gr_pull :: bool
  gr_unit :: u32
  gr_base :: u64
  gr_size :: u64
  gr_slices :: "Slice list"
  gr_mem :: "'v memory"
  gr_out :: "nat \<Rightarrow> 'v"

text \<open>The slices of one rank.\<close>

definition gr_k :: "('t, 'v) gather_run \<Rightarrow> nat" where
  "gr_k S = length (gr_slices S) div gr_ranks S"

definition run_ok :: "nat list \<Rightarrow> ('a AlgTemplate_scheme, 'v) gather_run \<Rightarrow> bool" where
  "run_ok sm S \<longleftrightarrow> 2 \<le> gr_ranks S \<and> gr_ranks S < 2 ^ 31 \<and> slices_ready (gr_ranks S) (gr_size S) (gr_slices S) \<and>
     (\<forall>r<gr_ranks S. let t = gr_tpl S r; target = sm ! r in
        env_ready (gr_env S r) (gr_unit S) \<and> links_ready (gr_ranks S) (gr_rdma S) (gr_pull S) (gr_links S r) \<and>
        buffers_ready t (gr_base S) (gr_size S) \<and> output_slices t (gr_ranks S) (gr_unit S) = gr_slices S \<and>
        input_ready (gr_mem S) (gr_out S) r t (gr_base S) (part (gr_slices S) sm (gr_k S) r) (gr_k S)
          (gr_slices S ! target) (input_slices t (gr_ranks S) (at_count t * ucast (gr_unit S)) ! target))"

lemma run_okD:
  assumes "run_ok sm S"
  shows "2 \<le> gr_ranks S" "gr_ranks S < 2 ^ 31" "gr_ranks S \<le> 2 ^ 31"
    "length (gr_slices S) = gr_ranks S * gr_k S" "length (gr_slices S) < 2 ^ 32"
    "\<forall>s\<in>set (gr_slices S). slice_in (unat (gr_size S)) s" "gr_slices S \<noteq> []"
    "w32 (length (gr_slices S) div gr_ranks S) = gr_k S" "unat (gr_size S) < 2 ^ 64" "0 < gr_k S"
proof -
  show "2 \<le> gr_ranks S" "gr_ranks S < 2 ^ 31" "gr_ranks S \<le> 2 ^ 31" "length (gr_slices S) < 2 ^ 32"
    "\<forall>s\<in>set (gr_slices S). slice_in (unat (gr_size S)) s" "gr_slices S \<noteq> []"
    using assms by (auto simp: run_ok_def slices_ready_def)
  have "length (gr_slices S) mod gr_ranks S = 0" using assms by (simp add: run_ok_def slices_ready_def)
  then show len: "length (gr_slices S) = gr_ranks S * gr_k S" by (auto simp: gr_k_def)
  then show "0 < gr_k S" using \<open>gr_slices S \<noteq> []\<close> by (cases "gr_k S") auto
  have "length (gr_slices S) div gr_ranks S < 2 ^ 32"
    using \<open>length (gr_slices S) < 2 ^ 32\<close> div_le_dividend le_less_trans by blast
  then show "w32 (length (gr_slices S) div gr_ranks S) = gr_k S"
    unfolding gr_k_def by (rule w32_id)
  show "unat (gr_size S) < 2 ^ 64" using unsigned_less[of "gr_size S", where ?'a = nat] by simp
qed

lemma run_ok_rank:
  assumes "run_ok sm S" "r < gr_ranks S"
  shows "env_ready (gr_env S r) (gr_unit S)" "links_ready (gr_ranks S) (gr_rdma S) (gr_pull S) (gr_links S r)"
    "buffers_ready (gr_tpl S r) (gr_base S) (gr_size S)"
    "output_slices (gr_tpl S r) (gr_ranks S) (gr_unit S) = gr_slices S"
    "input_ready (gr_mem S) (gr_out S) r (gr_tpl S r) (gr_base S) (part (gr_slices S) sm (gr_k S) r) (gr_k S)
       (gr_slices S ! (sm ! r)) (input_slices (gr_tpl S r) (gr_ranks S) (at_count (gr_tpl S r) * ucast (gr_unit S)) ! (sm ! r))"
  using assms by (auto simp: run_ok_def Let_def)

text \<open>The addresses of a rank's part, and its links as a function.\<close>

definition gr_cells :: "nat list \<Rightarrow> ('t, 'v) gather_run \<Rightarrow> nat \<Rightarrow> nat set" where
  "gr_cells sm S l = (+) (unat (gr_base S)) ` part (gr_slices S) sm (gr_k S) l"

definition gr_value :: "('t, 'v) gather_run \<Rightarrow> nat \<Rightarrow> 'v" where
  "gr_value S a = gr_out S (a - unat (gr_base S))"

definition gr_link :: "('t, 'v) gather_run \<Rightarrow> nat \<Rightarrow> nat \<Rightarrow> Transport" where
  "gr_link S r q = the (gr_links S r ! q)"

lemma link_class:
  assumes "links_ready N rdma pull links" "q < N"
  shows "has_link links q" "link_inline links q = (\<not> rdma)"
    "l_class (the (links ! q)) = (if rdma then TransportIbverbs else TransportP2p)" "l_pull (the (links ! q)) = pull"
  using assms by (auto simp: links_ready_def has_link_def link_inline_def split: if_splits)


section \<open>The hierarchical ring\<close>

text \<open>The assignment of slices that a fresh template computes.\<close>

definition nhr_map :: "(NHRBase, 'v) gather_run \<Rightarrow> nat list" where
  "nhr_map S = GetRankMapping (gr_ranks S) (\<not> nb_isNeedMerge (gr_tpl S 0)) []"

definition nhr_ok :: "(NHRBase, 'v) gather_run \<Rightarrow> bool" where
  "nhr_ok S \<longleftrightarrow> run_ok (nhr_map S) S \<and>
     (\<forall>r<gr_ranks S. nb_sliceMap (gr_tpl S r) = [] \<and> nb_isNeedMerge (gr_tpl S r) = nb_isNeedMerge (gr_tpl S 0))"

definition nhr_rounds :: "(NHRBase, 'v) gather_run \<Rightarrow> nat" where
  "nhr_rounds S = GetStepNumInterServer (gr_ranks S)"

definition nhr_run :: "(NHRBase, 'v) gather_run \<Rightarrow> nat \<Rightarrow> HcclResult \<times> task list" where
  "nhr_run S r = snd (AllGatherNHR_RunAsync (gr_env S r) r (gr_ranks S) (gr_links S r) (gr_tpl S r)) []"

definition nhr_stream :: "(NHRBase, 'v) gather_run \<Rightarrow> nat \<Rightarrow> action list" where
  "nhr_stream S r = stream_of (gr_link S r) (gr_unit S) r (snd (nhr_run S r))"

definition nhr_slices :: "(NHRBase, 'v) gather_run \<Rightarrow> nat \<Rightarrow> nat \<Rightarrow> Slice list" where
  "nhr_slices S s r = MergeSlices (nb_isNeedMerge (gr_tpl S 0))
     (map ((!) (gr_slices S)) (slice_idxs (nhr_map S) (gr_k S) (nhr_rx (gr_ranks S) s r)))"

abbreviation nhr_from :: "(NHRBase, 'v) gather_run \<Rightarrow> nat \<Rightarrow> nat \<Rightarrow> nat" where
  "nhr_from S s r \<equiv> bwd (gr_ranks S) r (nhr_delta (gr_ranks S) s)"

abbreviation nhr_to :: "(NHRBase, 'v) gather_run \<Rightarrow> nat \<Rightarrow> nat \<Rightarrow> nat" where
  "nhr_to S s r \<equiv> fwd (gr_ranks S) r (nhr_delta (gr_ranks S) s)"

definition nhr_read :: "(NHRBase, 'v) gather_run \<Rightarrow> nat \<Rightarrow> nat \<Rightarrow> action list" where
  "nhr_read S s r = map (slice_move (gr_base S) r (nhr_from S s r)) (filter (\<lambda>s. 0 < sl_size s) (nhr_slices S s r))"

definition nhr_write :: "(NHRBase, 'v) gather_run \<Rightarrow> nat \<Rightarrow> nat \<Rightarrow> action list" where
  "nhr_write S s r = map (slice_move (gr_base S) (nhr_to S s r) r) (nhr_slices S s (nhr_to S s r))"

lemma nhr_map_perm: "nhr_ok S \<Longrightarrow> perm_of (gr_ranks S) (nhr_map S)"
  unfolding nhr_map_def nhr_ok_def by (intro GetRankMapping_perm_of) (auto dest: run_okD)

lemma nhr_rx_ranks: "0 < N \<Longrightarrow> set (nhr_rx N s r) \<subseteq> {..<N}"
  by (auto simp: nhr_rx_def)

lemma nhr_slices_spec:
  assumes "nhr_ok S"
  shows "cover (nhr_slices S s r) = (\<Union>l\<in>set (nhr_rx (gr_ranks S) s r). part (gr_slices S) (nhr_map S) (gr_k S) l)"
    "\<forall>s'\<in>set (nhr_slices S s r). slice_in (unat (gr_size S)) s'"
proof -
  have ok: "run_ok (nhr_map S) S" using assms by (simp add: nhr_ok_def)
  note ok' = run_okD[OF ok]
  have sub: "set (nhr_rx (gr_ranks S) s r) \<subseteq> {..<gr_ranks S}" by (rule nhr_rx_ranks) (use ok' in simp)
  note rc = round_cover[OF nhr_map_perm[OF assms] ok'(4,5) sub]
  have "\<forall>s'\<in>set (map ((!) (gr_slices S)) (slice_idxs (nhr_map S) (gr_k S) (nhr_rx (gr_ranks S) s r))).
      slice_in (unat (gr_size S)) s'"
    using rc(2) ok'(6) by blast
  note ms = MergeSlices_spec[OF this ok'(9), of "nb_isNeedMerge (gr_tpl S 0)"]
  show "cover (nhr_slices S s r) = (\<Union>l\<in>set (nhr_rx (gr_ranks S) s r). part (gr_slices S) (nhr_map S) (gr_k S) l)"
    using ms(1) rc(1) unfolding nhr_slices_def by simp
  show "\<forall>s'\<in>set (nhr_slices S s r). slice_in (unat (gr_size S)) s'"
    using ms(2) unfolding nhr_slices_def .
qed

text \<open>One round of one rank.\<close>

lemma nhr_round_stream:
  assumes ok: "nhr_ok S" and r: "r < gr_ranks S" and s: "s < nhr_rounds S"
    and t: "at_slices t = gr_slices S" "nb_sliceMap t = nhr_map S" "nb_isNeedMerge t = nb_isNeedMerge (gr_tpl S 0)"
      "buffers_ready t (gr_base S) (gr_size S)"
  shows "\<exists>ts. runs (nhr_round (gr_env S r) t r (gr_ranks S) (gr_links S r) (nhr_rounds S) s) ts \<and>
    stream_of (gr_link S r) (gr_unit S) r ts = concat
      (if gr_rdma S then write_phases True True True False (nhr_to S s r) (nhr_from S s r) (nhr_write S s r) []
       else read_phases (nhr_to S s r) (nhr_from S s r) (nhr_read S s r))"
proof -
  have rok: "run_ok (nhr_map S) S" using ok by (simp add: nhr_ok_def)
  note N = run_okD[OF rok] and rank = run_ok_rank[OF rok r]
  have succ: "all_succeed (gr_env S r)" using rank(1) by (simp add: env_ready_def)
  let ?N = "gr_ranks S" and ?k = "gr_k S"
  note info = nhr_info[OF N(1,3) r s[unfolded nhr_rounds_def], of t, unfolded t(1,2) N(8) Let_def]
  have cnt: "w32 (nhr_count ?N s * ?k) = nhr_count ?N s * ?k"
  proof (rule w32_id)
    have "nhr_count ?N s \<le> ?N" by (rule nhr_count_le[OF N(1,3)])
    then have "nhr_count ?N s * ?k \<le> ?N * ?k" by (rule mult_le_mono1)
    then show "nhr_count ?N s * ?k < 2 ^ 32" using N(4,5) by linarith
  qed
  have ranks: "set (nhr_rx ?N s q) \<subseteq> {..<?N}" for q by (rule nhr_rx_ranks) (use N in simp)
  have idx: "map (\<lambda>i. gr_slices S ! (slice_idxs (nhr_map S) ?k (nhr_rx ?N s q) ! i)) [0..<nhr_count ?N s * ?k] =
      map ((!) (gr_slices S)) (slice_idxs (nhr_map S) ?k (nhr_rx ?N s q))" for q
  proof -
    have "length (slice_idxs (nhr_map S) ?k (nhr_rx ?N s q)) = nhr_count ?N s * ?k"
      using slice_idxs_map(2)[OF nhr_map_perm[OF ok] N(4,5) ranks, of q] by (simp add: nhr_rx_def)
    then show ?thesis by (simp only: map_over_indices[of "(!) (gr_slices S)"])
  qed
  have partners: "nhr_from S s r < ?N" "nhr_to S s r < ?N" using N by simp_all
  note links = link_class[OF rank(2) partners(1)] link_class[OF rank(2) partners(2)]
  have round: "nhr_round (gr_env S r) t r ?N (gr_links S r) (nhr_rounds S) s =
      (if gr_rdma S
       then RdmaTxRx (gr_env S r) t (nhr_from S s r) (nhr_to S s r) (nhr_slices S s (nhr_to S s r)) (nhr_slices S s r)
       else SdmaRx (gr_env S r) t (nhr_from S s r) (nhr_to S s r) (nhr_slices S s r))"
    unfolding nhr_round_def nhr_rounds_def Let_def info cnt
    using links by (simp add: idx t nhr_slices_def)
  show ?thesis
  proof (cases "gr_rdma S")
    case True
    let ?tx = "TxAsync (map (tx_info t) (nhr_slices S s (nhr_to S s r)))" and ?rx = "RxAsync (map (rx_info t) (nhr_slices S s r))"
    let ?ts = "[LinkCall (nhr_from S s r) TxAck] @ [LinkCall (nhr_to S s r) RxAck] @ [LinkCall (nhr_to S s r) ?tx] @
      [LinkCall (nhr_from S s r) ?rx] @ [LinkCall (nhr_from S s r) PostFinAck] @ [LinkCall (nhr_to S s r) WaitFinAck] @ []"
    have "runs (RdmaTxRx (gr_env S r) t (nhr_from S s r) (nhr_to S s r) (nhr_slices S s (nhr_to S s r)) (nhr_slices S s r)) ?ts"
      unfolding RdmaTxRx_def Tx_def Rx_def by (intro runs_all_of runs_call succ)
    moreover have "stream_of (gr_link S r) (gr_unit S) r ?ts = concat
        (write_phases True True True False (nhr_to S s r) (nhr_from S s r) (nhr_write S s r) [])"
      using True links tx_moves[OF t(4) nhr_slices_spec(2)[OF ok]]
      by (simp add: write_phases_def gr_link_def nhr_write_def)
    ultimately show ?thesis using True round by auto
  next
    case False
    obtain us where us: "runs (each (\<lambda>s'. HcclD2DMemcpyAsync_remote (gr_env S r) (range_of (at_outputMem t) (sl_offset s') (sl_size s'))
               (nhr_from S s r) OUTPUT_MEM (at_baseOffset t + sl_offset s') (sl_size s')) (nhr_slices S s r)) us"
        "stream_of (gr_link S r) (gr_unit S) r us = nhr_read S s r"
      using remote_copies_run[OF rank(1) t(4) nhr_slices_spec(2)[OF ok], of "nhr_from S s r" s r "gr_link S r" "gr_unit S" r]
      unfolding nhr_read_def by blast
    let ?ts = "[LinkCall (nhr_to S s r) TxAck] @ [LinkCall (nhr_from S s r) RxAck] @ us @
      [LinkCall (nhr_from S s r) TxDataSignal] @ [LinkCall (nhr_to S s r) RxDataSignal] @ []"
    have "runs (SdmaRx (gr_env S r) t (nhr_from S s r) (nhr_to S s r) (nhr_slices S s r)) ?ts"
      unfolding SdmaRx_def by (intro runs_all_of runs_call succ us(1))
    moreover have "stream_of (gr_link S r) (gr_unit S) r ?ts = concat
        (read_phases (nhr_to S s r) (nhr_from S s r) (nhr_read S s r))"
      using False links us(2) by (simp add: read_phases_def gr_link_def)
    ultimately show ?thesis using False round by auto
  qed
qed


definition nhr_state :: "(NHRBase, 'v) gather_run \<Rightarrow> nat \<Rightarrow> NHRBase" where
  "nhr_state S r = fst (AllGatherNHR_RunAsync (gr_env S r) r (gr_ranks S) (gr_links S r) (gr_tpl S r))"

definition nhr_own :: "(NHRBase, 'v) gather_run \<Rightarrow> nat \<Rightarrow> action list" where
  "nhr_own S r = stream_of (gr_link S r) (gr_unit S) r (snd (copy_slice (gr_env S r) (nhr_state S r)
     (gr_slices S ! (nhr_map S ! r))
     (input_slices (gr_tpl S r) (gr_ranks S) (at_count (gr_tpl S r) * ucast (gr_unit S)) ! (nhr_map S ! r)) []))"

lemma runsD: "runs p ts \<Longrightarrow> p [] = (HCCL_SUCCESS, ts)"
  by (simp add: runs_def)

lemma nhr_update_commute:
  "(t :: NHRBase)\<lparr>at_slices := x, nb_sliceMap := y\<rparr> = t\<lparr>nb_sliceMap := y, at_slices := x\<rparr>"
  by (cases t) simp

text \<open>A fresh template passes its checks, computes the assignment and the slices, and starts.\<close>

lemma NHR_RunAsync_fresh:
  assumes "nb_sliceMap t = []" "env_ready env u" "N \<noteq> 0" "N \<noteq> 1" "N \<le> length links"
    and len: "length (GetRankMapping N (\<not> nb_isNeedMerge t) []) = N"
    and t2: "t2 = t\<lparr>nb_sliceMap := GetRankMapping N (\<not> nb_isNeedMerge t) [], at_slices := output_slices t N u\<rparr>"
  shows "AllGatherNHR_RunAsync env r N links t =
      (t2, all_of [copy_slice env t2 (at_slices t2 ! (nb_sliceMap t2 ! r))
         (input_slices t N (at_count t * ucast u) ! (nb_sliceMap t2 ! r)),
       AllGatherNHR_RunAllGather env t2 r N links])"
proof -
  have env: "c_dispatcher env" "c_stream env" "c_unit env = u" "u \<noteq> 0" using assms(2) by (simp_all add: env_ready_def)
  have l: "\<not> length links < N" using assms by simp
  have inp: "input_slices (t\<lparr>nb_sliceMap := m\<rparr>) N z = input_slices t N z" for m z by (simp add: input_slices_def)
  show ?thesis
  proof (cases "nb_isNeedMerge t")
    case True
    then have "length (GetRankMapping N False []) = N" using len by simp
    then show ?thesis using True assms(1,3,4) env l inp
      by (simp add: AllGatherNHR_RunAsync_def t2 output_slices_def Let_def nhr_update_commute del: all_of.simps)
  next
    case False
    then have "length (GetRankMapping N True []) = N" using len by simp
    then show ?thesis using False assms(1,3,4) env l inp
      by (simp add: AllGatherNHR_RunAsync_def t2 output_slices_def Let_def nhr_update_commute del: all_of.simps)
  qed
qed

lemma nhr_state_spec:
  assumes ok: "nhr_ok S" and r: "r < gr_ranks S"
  shows "AllGatherNHR_RunAsync (gr_env S r) r (gr_ranks S) (gr_links S r) (gr_tpl S r) =
      (nhr_state S r, all_of [copy_slice (gr_env S r) (nhr_state S r) (gr_slices S ! (nhr_map S ! r))
         (input_slices (gr_tpl S r) (gr_ranks S) (at_count (gr_tpl S r) * ucast (gr_unit S)) ! (nhr_map S ! r)),
       AllGatherNHR_RunAllGather (gr_env S r) (nhr_state S r) r (gr_ranks S) (gr_links S r)])"
    and "at_slices (nhr_state S r) = gr_slices S" "nb_sliceMap (nhr_state S r) = nhr_map S"
    "nb_isNeedMerge (nhr_state S r) = nb_isNeedMerge (gr_tpl S 0)"
    "buffers_ready (nhr_state S r) (gr_base S) (gr_size S)"
    "at_inputMem (nhr_state S r) = at_inputMem (gr_tpl S r)" "at_outputMem (nhr_state S r) = at_outputMem (gr_tpl S r)"
proof -
  have rok: "run_ok (nhr_map S) S" and fresh: "nb_sliceMap (gr_tpl S r) = []"
    "nb_isNeedMerge (gr_tpl S r) = nb_isNeedMerge (gr_tpl S 0)"
    using ok r unfolding nhr_ok_def by blast+
  note N = run_okD[OF rok] and rank = run_ok_rank[OF rok r]
  have map: "GetRankMapping (gr_ranks S) (\<not> nb_isNeedMerge (gr_tpl S r)) [] = nhr_map S"
    using fresh by (simp add: nhr_map_def)
  let ?t2 = "(gr_tpl S r)\<lparr>nb_sliceMap := nhr_map S, at_slices := gr_slices S\<rparr>"
  have len: "length (GetRankMapping (gr_ranks S) (\<not> nb_isNeedMerge (gr_tpl S r)) []) = gr_ranks S"
    unfolding map using nhr_map_perm[OF ok] by (simp add: perm_of_def)
  have links: "gr_ranks S \<le> length (gr_links S r)" using rank(2) by (simp add: links_ready_def)
  have N0: "gr_ranks S \<noteq> 0" "gr_ranks S \<noteq> 1" using N(1) by simp_all
  have t2: "?t2 = (gr_tpl S r)\<lparr>nb_sliceMap := GetRankMapping (gr_ranks S) (\<not> nb_isNeedMerge (gr_tpl S r)) [],
      at_slices := output_slices (gr_tpl S r) (gr_ranks S) (gr_unit S)\<rparr>"
    unfolding map rank(4) ..
  have run: "AllGatherNHR_RunAsync (gr_env S r) r (gr_ranks S) (gr_links S r) (gr_tpl S r) =
      (?t2, all_of [copy_slice (gr_env S r) ?t2 (at_slices ?t2 ! (nb_sliceMap ?t2 ! r))
         (input_slices (gr_tpl S r) (gr_ranks S) (at_count (gr_tpl S r) * ucast (gr_unit S)) ! (nb_sliceMap ?t2 ! r)),
       AllGatherNHR_RunAllGather (gr_env S r) ?t2 r (gr_ranks S) (gr_links S r)])"
    by (rule NHR_RunAsync_fresh[OF fresh(1) rank(1) N0 links len t2])
  then have st: "nhr_state S r = ?t2" by (simp only: nhr_state_def fst_conv)
  have sel: "at_slices ?t2 = gr_slices S" "nb_sliceMap ?t2 = nhr_map S" by simp_all
  show "AllGatherNHR_RunAsync (gr_env S r) r (gr_ranks S) (gr_links S r) (gr_tpl S r) =
      (nhr_state S r, all_of [copy_slice (gr_env S r) (nhr_state S r) (gr_slices S ! (nhr_map S ! r))
         (input_slices (gr_tpl S r) (gr_ranks S) (at_count (gr_tpl S r) * ucast (gr_unit S)) ! (nhr_map S ! r)),
       AllGatherNHR_RunAllGather (gr_env S r) (nhr_state S r) r (gr_ranks S) (gr_links S r)])"
    using run unfolding sel st .
  show "at_slices (nhr_state S r) = gr_slices S" "nb_sliceMap (nhr_state S r) = nhr_map S"
    "at_inputMem (nhr_state S r) = at_inputMem (gr_tpl S r)" "at_outputMem (nhr_state S r) = at_outputMem (gr_tpl S r)"
    by (simp_all add: st)
  show "nb_isNeedMerge (nhr_state S r) = nb_isNeedMerge (gr_tpl S 0)" using fresh(2) by (simp add: st)
  show "buffers_ready (nhr_state S r) (gr_base S) (gr_size S)" using rank(3) by (simp add: st)
qed

text \<open>A rank's whole stream: its own copy, then its rounds.\<close>

lemma part_one: "part sl sm 1 l = slice_bytes (sl ! (sm ! l))"
  by (simp add: part_def)

lemma nhr_program:
  assumes ok: "nhr_ok S" and r: "r < gr_ranks S"
  shows "fst (nhr_run S r) = HCCL_SUCCESS"
    and "nhr_stream S r = nhr_own S r @ concat (map (\<lambda>s. concat
      (if gr_rdma S then write_phases True True True False (nhr_to S s r) (nhr_from S s r) (nhr_write S s r) []
       else read_phases (nhr_to S s r) (nhr_from S s r) (nhr_read S s r))) [0..<nhr_rounds S])"
    and "(nhr_own S r = [] \<and> (\<forall>a\<in>gr_cells (nhr_map S) S r. gr_mem S r OUTPUT_MEM a = gr_value S a)) \<or>
      (\<exists>sb da sa len. sb \<noteq> OUTPUT_MEM \<and> nhr_own S r = [Move (r, OUTPUT_MEM, da) (r, sb, sa) len] \<and>
         gr_cells (nhr_map S) S r = {da..<da + len} \<and> (\<forall>x<len. gr_mem S r sb (sa + x) = gr_value S (da + x)))"
    and "runs (snd (AllGatherNHR_RunAsync (gr_env S r) r (gr_ranks S) (gr_links S r) (gr_tpl S r))) (snd (nhr_run S r))"
proof -
  have rok: "run_ok (nhr_map S) S" using ok by (simp add: nhr_ok_def)
  note N = run_okD[OF rok] and rank = run_ok_rank[OF rok r] and st = nhr_state_spec[OF ok r]
  have target: "nhr_map S ! r < gr_ranks S" by (rule perm_of_nth[OF nhr_map_perm[OF ok] r])
  have "gr_ranks S * 1 \<le> gr_ranks S * gr_k S" by (rule mult_le_mono2) (use N(10) in simp)
  then have "nhr_map S ! r < length (gr_slices S)" using target N(4) by linarith
  then have dst: "slice_in (unat (gr_size S)) (gr_slices S ! (nhr_map S ! r))" using N(6) nth_mem by blast
  have inp: "input_ready (gr_mem S) (gr_out S) r (nhr_state S r) (gr_base S) (part (gr_slices S) (nhr_map S) (gr_k S) r)
      (gr_k S) (gr_slices S ! (nhr_map S ! r))
      (input_slices (gr_tpl S r) (gr_ranks S) (at_count (gr_tpl S r) * ucast (gr_unit S)) ! (nhr_map S ! r))"
    using rank(5) st(6,7) by (simp add: input_ready_def)
  obtain cs where cs: "runs (copy_slice (gr_env S r) (nhr_state S r) (gr_slices S ! (nhr_map S ! r))
         (input_slices (gr_tpl S r) (gr_ranks S) (at_count (gr_tpl S r) * ucast (gr_unit S)) ! (nhr_map S ! r))) cs"
    and own: "stream_of (gr_link S r) (gr_unit S) r cs = [] \<and>
       (\<forall>a\<in>(+) (unat (gr_base S)) ` part (gr_slices S) (nhr_map S) (gr_k S) r. gr_mem S r OUTPUT_MEM a = gr_out S (a - unat (gr_base S))) \<or>
     (\<exists>sb da sa len. sb \<noteq> OUTPUT_MEM \<and> stream_of (gr_link S r) (gr_unit S) r cs = [Move (r, OUTPUT_MEM, da) (r, sb, sa) len] \<and>
        (+) (unat (gr_base S)) ` part (gr_slices S) (nhr_map S) (gr_k S) r = {da..<da + len} \<and>
        (\<forall>x<len. gr_mem S r sb (sa + x) = gr_out S (da + x - unat (gr_base S))))"
    using copy_slice_runs[OF rank(1) st(5) dst inp, of "gr_link S r" "gr_unit S"] part_one by metis
  have own_cs: "nhr_own S r = stream_of (gr_link S r) (gr_unit S) r cs"
    using runsD[OF cs] by (simp add: nhr_own_def)
  show "(nhr_own S r = [] \<and> (\<forall>a\<in>gr_cells (nhr_map S) S r. gr_mem S r OUTPUT_MEM a = gr_value S a)) \<or>
      (\<exists>sb da sa len. sb \<noteq> OUTPUT_MEM \<and> nhr_own S r = [Move (r, OUTPUT_MEM, da) (r, sb, sa) len] \<and>
         gr_cells (nhr_map S) S r = {da..<da + len} \<and> (\<forall>x<len. gr_mem S r sb (sa + x) = gr_value S (da + x)))"
    using own unfolding own_cs gr_cells_def gr_value_def .
  have "\<forall>s\<in>{..<nhr_rounds S}. \<exists>ts. runs (nhr_round (gr_env S r) (nhr_state S r) r (gr_ranks S) (gr_links S r) (nhr_rounds S) s) ts \<and>
    stream_of (gr_link S r) (gr_unit S) r ts = concat
      (if gr_rdma S then write_phases True True True False (nhr_to S s r) (nhr_from S s r) (nhr_write S s r) []
       else read_phases (nhr_to S s r) (nhr_from S s r) (nhr_read S s r))"
    using nhr_round_stream[OF ok r _ st(2-5)] by blast
  then obtain rs where rs: "\<forall>s\<in>{..<nhr_rounds S}. runs (nhr_round (gr_env S r) (nhr_state S r) r (gr_ranks S) (gr_links S r) (nhr_rounds S) s) (rs s) \<and>
    stream_of (gr_link S r) (gr_unit S) r (rs s) = concat
      (if gr_rdma S then write_phases True True True False (nhr_to S s r) (nhr_from S s r) (nhr_write S s r) []
       else read_phases (nhr_to S s r) (nhr_from S s r) (nhr_read S s r))"
    by (rule bchoice[THEN exE])
  have "\<not> length (at_slices (nhr_state S r)) < gr_ranks S"
    using st(2) N(4,10) by simp
  then have "runs (AllGatherNHR_RunAllGather (gr_env S r) (nhr_state S r) r (gr_ranks S) (gr_links S r))
      (concat (map rs [0..<nhr_rounds S]))"
    unfolding AllGatherNHR_RunAllGather_def nhr_rounds_def Let_def
    using rs by (auto simp: nhr_rounds_def intro!: runs_each)
  then have all: "runs (snd (AllGatherNHR_RunAsync (gr_env S r) r (gr_ranks S) (gr_links S r) (gr_tpl S r)))
      (cs @ concat (map rs [0..<nhr_rounds S]) @ [])"
    unfolding st(1) snd_conv by (intro runs_all_of cs)
  have run: "nhr_run S r = (HCCL_SUCCESS, cs @ concat (map rs [0..<nhr_rounds S]))"
    using all unfolding nhr_run_def by (simp add: runsD)
  show "runs (snd (AllGatherNHR_RunAsync (gr_env S r) r (gr_ranks S) (gr_links S r) (gr_tpl S r))) (snd (nhr_run S r))"
    using all by (simp add: run)
  show "fst (nhr_run S r) = HCCL_SUCCESS" using run by simp
  have "map (\<lambda>s. stream_of (gr_link S r) (gr_unit S) r (rs s)) [0..<nhr_rounds S] = map (\<lambda>s. concat
      (if gr_rdma S then write_phases True True True False (nhr_to S s r) (nhr_from S s r) (nhr_write S s r) []
       else read_phases (nhr_to S s r) (nhr_from S s r) (nhr_read S s r))) [0..<nhr_rounds S]"
    using rs by (intro map_cong) auto
  then show "nhr_stream S r = nhr_own S r @ concat (map (\<lambda>s. concat
      (if gr_rdma S then write_phases True True True False (nhr_to S s r) (nhr_from S s r) (nhr_write S s r) []
       else read_phases (nhr_to S s r) (nhr_from S s r) (nhr_read S s r))) [0..<nhr_rounds S])"
    unfolding nhr_stream_def run own_cs snd_conv stream_of_simps stream_of_concat map_map o_def by (simp only:)
qed


text \<open>
  The schedule of a valid run as an instance of the gathering locales. The number of ranks is
  taken as zero for an invalid set-up, where nothing is claimed.
\<close>

lemma nhr_schedule:
  assumes ok: "nhr_ok S"
  shows "gather_schedule (gr_ranks S) (nhr_rounds S) (nhr_from S) (nhr_to S)
     (\<lambda>s r. set (nhr_rx (gr_ranks S) s r)) (nhr_held (gr_ranks S)) (gr_cells (nhr_map S) S)
     (nhr_own S) (gr_mem S) (gr_value S)"
proof
  have rok: "run_ok (nhr_map S) S" using ok by (simp add: nhr_ok_def)
  note N = run_okD[OF rok]
  fix r s q
  show "r < gr_ranks S \<Longrightarrow> s < nhr_rounds S \<Longrightarrow> nhr_from S s r < gr_ranks S"
    "r < gr_ranks S \<Longrightarrow> s < nhr_rounds S \<Longrightarrow> nhr_to S s r < gr_ranks S" by simp_all
  show "r < gr_ranks S \<Longrightarrow> q < gr_ranks S \<Longrightarrow> s < nhr_rounds S \<Longrightarrow> (nhr_from S s r = q) = (nhr_to S s q = r)"
    using nhr_delta_less[OF N(1,3), of s] by (intro partner_iff) auto
  show "r < gr_ranks S \<Longrightarrow> nhr_held (gr_ranks S) 0 r \<subseteq> {r}" by (rule nhr_held_0[OF N(1,3)])
  show "r < gr_ranks S \<Longrightarrow> s < nhr_rounds S \<Longrightarrow>
      nhr_held (gr_ranks S) (Suc s) r \<subseteq> nhr_held (gr_ranks S) s r \<union> set (nhr_rx (gr_ranks S) s r)"
    using nhr_held_Suc[OF N(1,3)] by (simp add: nhr_rounds_def)
  show "r < gr_ranks S \<Longrightarrow> s < nhr_rounds S \<Longrightarrow>
      set (nhr_rx (gr_ranks S) s r) \<subseteq> nhr_held (gr_ranks S) s (nhr_from S s r)"
    using nhr_rx_held[OF N(1,3)] by (simp add: nhr_rounds_def)
  show "r < gr_ranks S \<Longrightarrow>
      (nhr_own S r = [] \<and> (\<forall>a\<in>gr_cells (nhr_map S) S r. gr_mem S r OUTPUT_MEM a = gr_value S a)) \<or>
      (\<exists>sb da sa len. sb \<noteq> OUTPUT_MEM \<and> nhr_own S r = [Move (r, OUTPUT_MEM, da) (r, sb, sa) len] \<and>
         gr_cells (nhr_map S) S r = {da..<da + len} \<and> (\<forall>x<len. gr_mem S r sb (sa + x) = gr_value S (da + x)))"
    by (rule nhr_program(3)[OF ok])
qed

lemma nhr_cells:
  assumes "nhr_ok S"
  shows "(+) (unat (gr_base S)) ` cover (nhr_slices S s r) = (\<Union>l\<in>set (nhr_rx (gr_ranks S) s r). gr_cells (nhr_map S) S l)"
  unfolding nhr_slices_spec(1)[OF assms] gr_cells_def by blast

lemma nhr_read_gather:
  assumes ok: "nhr_ok S" and kind: "\<not> gr_rdma S"
  shows "read_gather (gr_ranks S) (nhr_rounds S) (nhr_from S) (nhr_to S)
     (\<lambda>s r. set (nhr_rx (gr_ranks S) s r)) (nhr_held (gr_ranks S)) (gr_cells (nhr_map S) S)
     (nhr_own S) (gr_mem S) (gr_value S) (nhr_read S) (nhr_stream S)"
proof (intro read_gather.intro nhr_schedule[OF ok] read_gather_axioms.intro)
  fix r s act assume "act \<in> set (nhr_read S s r)"
  then have "act \<in> set (map (slice_move (gr_base S) r (nhr_from S s r)) (nhr_slices S s r))" by (auto simp: nhr_read_def)
  then show "\<exists>a len. act = Move (r, OUTPUT_MEM, a) (nhr_from S s r, OUTPUT_MEM, a) len \<and>
      {a..<a + len} \<subseteq> (\<Union>l\<in>set (nhr_rx (gr_ranks S) s r). gr_cells (nhr_map S) S l)"
    unfolding nhr_cells[OF ok, symmetric] by (rule slice_moves_within)
next
  fix r s l c assume "l \<in> set (nhr_rx (gr_ranks S) s r)" "c \<in> gr_cells (nhr_map S) S l"
  then have "c \<in> (+) (unat (gr_base S)) ` cover (nhr_slices S s r)" using nhr_cells[OF ok] by blast
  then show "\<exists>a len. Move (r, OUTPUT_MEM, a) (nhr_from S s r, OUTPUT_MEM, a) len \<in> set (nhr_read S s r) \<and> a \<le> c \<and> c < a + len"
    unfolding nhr_read_def by (rule slice_moves_cover)
next
  fix r assume "r < gr_ranks S"
  then show "nhr_stream S r = nhr_own S r @
      concat (map (\<lambda>s. concat (read_phases (nhr_to S s r) (nhr_from S s r) (nhr_read S s r))) [0..<nhr_rounds S])"
    using nhr_program(2)[OF ok] kind by simp
qed

lemma nhr_write_gather:
  assumes ok: "nhr_ok S" and kind: "gr_rdma S"
  shows "write_gather (gr_ranks S) (nhr_rounds S) (nhr_from S) (nhr_to S)
     (\<lambda>s r. set (nhr_rx (gr_ranks S) s r)) (nhr_held (gr_ranks S)) (gr_cells (nhr_map S) S)
     (nhr_own S) (gr_mem S) (gr_value S) (\<lambda>s r. True) True False (nhr_write S) (\<lambda>s r. []) (nhr_stream S)"
proof (intro write_gather.intro nhr_schedule[OF ok] write_gather_axioms.intro)
  have rok: "run_ok (nhr_map S) S" using ok by (simp add: nhr_ok_def)
  note N = run_okD[OF rok]
  fix r s act assume "act \<in> set (nhr_write S s r)"
  then show "\<exists>a len. act = Move (nhr_to S s r, OUTPUT_MEM, a) (r, OUTPUT_MEM, a) len \<and>
      {a..<a + len} \<subseteq> (\<Union>l\<in>set (nhr_rx (gr_ranks S) s (nhr_to S s r)). gr_cells (nhr_map S) S l)"
    unfolding nhr_cells[OF ok, symmetric] nhr_write_def by (rule slice_moves_within)
next
  have rok: "run_ok (nhr_map S) S" using ok by (simp add: nhr_ok_def)
  note N = run_okD[OF rok]
  fix r s l c assume a: "r < gr_ranks S" "s < nhr_rounds S" "l \<in> set (nhr_rx (gr_ranks S) s r)" "c \<in> gr_cells (nhr_map S) S l"
  have "fwd (gr_ranks S) (nhr_from S s r) (nhr_delta (gr_ranks S) s) = r"
    using nhr_delta_less[OF N(1,3), of s] a(1) by (intro fwd_bwd) auto
  moreover have "c \<in> (+) (unat (gr_base S)) ` cover (nhr_slices S s r)" using nhr_cells[OF ok] a(3,4) by blast
  then obtain A len where "Move (r, OUTPUT_MEM, A) (nhr_from S s r, OUTPUT_MEM, A) len \<in>
      set (map (slice_move (gr_base S) r (nhr_from S s r)) (filter (\<lambda>s. 0 < sl_size s) (nhr_slices S s r)))" "A \<le> c" "c < A + len"
    using slice_moves_cover by blast
  ultimately show "True \<and> (\<exists>a len. (Move (r, OUTPUT_MEM, a) (nhr_from S s r, OUTPUT_MEM, a) len \<in> set [] \<or>
        Move (r, OUTPUT_MEM, a) (nhr_from S s r, OUTPUT_MEM, a) len \<in> set (nhr_write S s (nhr_from S s r))) \<and> a \<le> c \<and> c < a + len)"
    unfolding nhr_write_def by auto
next
  fix r assume "r < gr_ranks S"
  then show "nhr_stream S r = nhr_own S r @ concat (map (\<lambda>s. concat
        (write_phases True True True False (nhr_to S s r) (nhr_from S s r) (nhr_write S s r) [])) [0..<nhr_rounds S])"
    using nhr_program(2)[OF ok] kind by simp
qed simp

lemma gather_schedule_none: "gather_schedule 0 n fr to rx H cells own m0 g"
  by unfold_locales simp_all

lemma read_gather_none: "read_gather 0 n fr to rx H cells own m0 g mv P"
  by (intro read_gather.intro gather_schedule_none read_gather_axioms.intro) simp_all

lemma write_gather_none: "write_gather 0 n fr to rx H cells own m0 g tx ack bar mvw mvr P"
  by (intro write_gather.intro gather_schedule_none write_gather_axioms.intro) simp_all

definition nhr_readers :: "(NHRBase, 'v) gather_run \<Rightarrow> nat" where
  "nhr_readers S = (if nhr_ok S \<and> \<not> gr_rdma S then gr_ranks S else 0)"

definition nhr_writers :: "(NHRBase, 'v) gather_run \<Rightarrow> nat" where
  "nhr_writers S = (if nhr_ok S \<and> gr_rdma S then gr_ranks S else 0)"

interpretation nhr_reading: read_gather "nhr_readers S" "nhr_rounds S" "nhr_from S" "nhr_to S"
  "\<lambda>s r. set (nhr_rx (gr_ranks S) s r)" "nhr_held (gr_ranks S)" "gr_cells (nhr_map S) S"
  "nhr_own S" "gr_mem S" "gr_value S" "nhr_read S" "nhr_stream S" for S
  by (cases "nhr_ok S \<and> \<not> gr_rdma S")
    (simp_all add: nhr_readers_def nhr_read_gather read_gather_none)

interpretation nhr_writing: write_gather "nhr_writers S" "nhr_rounds S" "nhr_from S" "nhr_to S"
  "\<lambda>s r. set (nhr_rx (gr_ranks S) s r)" "nhr_held (gr_ranks S)" "gr_cells (nhr_map S) S"
  "nhr_own S" "gr_mem S" "gr_value S" "\<lambda>s r. True" True False "nhr_write S" "\<lambda>s r. []" "nhr_stream S" for S
  by (cases "nhr_ok S \<and> gr_rdma S")
    (simp_all add: nhr_writers_def nhr_write_gather write_gather_none)

lemma nhr_not_stuck:
  assumes "nhr_ok S" "(stream_step f (gr_ranks S) (nhr_stream S))\<^sup>*\<^sup>* (start m) c"
    "\<not> finished (gr_ranks S) (nhr_stream S) c"
  shows "\<exists>d. stream_step f (gr_ranks S) (nhr_stream S) c d"
  using nhr_reading.no_deadlock[of f S m c] nhr_writing.no_deadlock[of f S m c] assms
  by (cases "gr_rdma S") (simp_all add: nhr_readers_def nhr_writers_def)

lemma nhr_gathers:
  assumes ok: "nhr_ok S" and run: "(stream_step f (gr_ranks S) (nhr_stream S))\<^sup>*\<^sup>* (start (gr_mem S)) c"
    "finished (gr_ranks S) (nhr_stream S) c" and r: "r < gr_ranks S" and s: "s \<in> set (gr_slices S)" and x: "x \<in> slice_bytes s"
  shows "cf_mem c r OUTPUT_MEM (unat (gr_base S) + x) = gr_out S x"
proof -
  have rok: "run_ok (nhr_map S) S" using ok by (simp add: nhr_ok_def)
  note N = run_okD[OF rok]
  obtain l where l: "l < gr_ranks S" "slice_bytes s \<subseteq> part (gr_slices S) (nhr_map S) (gr_k S) l"
    using part_all[OF nhr_map_perm[OF ok] N(4) s] by blast
  then have cell: "unat (gr_base S) + x \<in> gr_cells (nhr_map S) S l" using x by (auto simp: gr_cells_def)
  have held: "l \<in> nhr_held (gr_ranks S) (nhr_rounds S) r"
    unfolding nhr_rounds_def by (rule nhr_held_all[OF r l(1)])
  have "cf_mem c r OUTPUT_MEM (unat (gr_base S) + x) = gr_value S (unat (gr_base S) + x)"
  proof (cases "gr_rdma S")
    case True
    then have "nhr_writers S = gr_ranks S" using ok by (simp add: nhr_writers_def)
    then show ?thesis using nhr_writing.gathers[of f S c r l "unat (gr_base S) + x"] run r held cell by simp
  next
    case False
    then have "nhr_readers S = gr_ranks S" using ok by (simp add: nhr_readers_def)
    then show ?thesis using nhr_reading.gathers[of f S c r l "unat (gr_base S) + x"] run r held cell by simp
  qed
  then show ?thesis by (simp add: gr_value_def)
qed


section \<open>Correctness of the hierarchical ring\<close>

text \<open>
  C22: AllGather over the hierarchical ring: for every number of ranks below \<open>2 ^ 31\<close>, every
  rank's call succeeds, and for every interleaving of the ranks' streams (a wait blocks until
  its notification has been recorded) a run that is not complete can go on, and a complete
  run leaves every rank's part in every rank's output buffer.
\<close>

theorem AllGatherNHR_gathers:
  assumes "nhr_ok S"
  shows "(\<forall>r<gr_ranks S. fst (nhr_run S r) = HCCL_SUCCESS) \<and>
    (\<forall>m c. (stream_step f (gr_ranks S) (nhr_stream S))\<^sup>*\<^sup>* (start m) c \<longrightarrow>
      finished (gr_ranks S) (nhr_stream S) c \<or> (\<exists>d. stream_step f (gr_ranks S) (nhr_stream S) c d)) \<and>
    (\<forall>c r. (stream_step f (gr_ranks S) (nhr_stream S))\<^sup>*\<^sup>* (start (gr_mem S)) c \<longrightarrow>
      finished (gr_ranks S) (nhr_stream S) c \<longrightarrow> r < gr_ranks S \<longrightarrow>
      (\<forall>s\<in>set (gr_slices S). \<forall>x\<in>slice_bytes s. cf_mem c r OUTPUT_MEM (unat (gr_base S) + x) = gr_out S x))"
  using nhr_program(1)[OF assms] nhr_not_stuck[OF assms] nhr_gathers[OF assms] by blast

text \<open>
  Three ranks over RDMA links, each with two elements of two bytes in its input buffer; the
  output range starts at 64 of the registered buffer.
\<close>

definition sample_link :: "bool \<Rightarrow> Transport" where
  "sample_link rdma = (if rdma then \<lparr>l_class = TransportIbverbs, l_linkType = LINK_ROCE, l_pull = False\<rparr>
     else \<lparr>l_class = TransportP2p, l_linkType = LINK_HCCS, l_pull = True\<rparr>)"

definition sample_env :: coll_env where
  "sample_env = \<lparr>c_answer = \<lambda>_ _. HCCL_SUCCESS, c_dispatcher = True, c_stream = True, c_unit = 2\<rparr>"

definition sample_nhr :: NHRBase where
  "sample_nhr = \<lparr>at_inputMem = \<lparr>dm_ptr = Some (INPUT_MEM, 0), dm_size = 4\<rparr>,
     at_outputMem = \<lparr>dm_ptr = Some (OUTPUT_MEM, 64), dm_size = 12\<rparr>, at_scratchMem = null_mem, at_count = 2,
     at_slices = [], at_baseOffset = 64, nb_isNeedMerge = False, nb_sliceMap = []\<rparr>"

definition ag3 :: "bool \<Rightarrow> (NHRBase, nat) gather_run" where
  "ag3 rdma = \<lparr>gr_ranks = 3, gr_env = \<lambda>r. sample_env, gr_links = \<lambda>r. replicate 3 (Some (sample_link rdma)),
     gr_tpl = \<lambda>r. sample_nhr, gr_rdma = rdma, gr_pull = \<not> rdma, gr_unit = 2, gr_base = 64, gr_size = 12,
     gr_slices = [\<lparr>sl_offset = 0, sl_size = 4\<rparr>, \<lparr>sl_offset = 4, sl_size = 4\<rparr>, \<lparr>sl_offset = 8, sl_size = 4\<rparr>],
     gr_mem = \<lambda>r b a. if b = INPUT_MEM then 100 * r + a else 0, 
     gr_out = \<lambda>x. if x < 4 then x else if x < 8 then 100 + (x - 4) else 200 + (x - 8)\<rparr>"

lemma upt_3: "[0..<3] = [0, 1, 2::nat]"
  by (simp add: numeral_3_eq_3)

lemma less_3_cases: "r < 3 \<Longrightarrow> r = 0 \<or> r = 1 \<or> r = (2::nat)"
  by linarith

lemma links_ready_sample: "links_ready 3 rdma (\<not> rdma) (replicate 3 (Some (sample_link rdma)))"
  by (auto simp: links_ready_def sample_link_def IsSpInlineReduce_def)

lemma ag3_ok: "nhr_ok (ag3 rdma)"
proof -
  have map: "nhr_map (ag3 rdma) = [0, 1, 2]"
    by (simp add: nhr_map_def ag3_def sample_nhr_def GetRankMapping_def upt_3)
  have env: "env_ready sample_env 2"
    by (simp add: env_ready_def sample_env_def all_succeed_def)
  have buf: "buffers_ready sample_nhr 64 12"
    by (simp add: buffers_ready_def sample_nhr_def)
  have sl: "output_slices sample_nhr 3 2 =
      [\<lparr>sl_offset = 0, sl_size = 4\<rparr>, \<lparr>sl_offset = 4, sl_size = 4\<rparr>, \<lparr>sl_offset = 8, sl_size = 4\<rparr>]"
    by (simp add: output_slices_def sample_nhr_def even_slices_def upt_3)
  have ready: "slices_ready 3 12 [\<lparr>sl_offset = 0, sl_size = 4\<rparr>, \<lparr>sl_offset = 4, sl_size = 4\<rparr>, \<lparr>sl_offset = 8, sl_size = 4\<rparr>]"
    by (simp add: slices_ready_def slice_in_def)
  have k: "gr_k (ag3 rdma) = 1" by (simp add: gr_k_def ag3_def)
  have inp: "input_ready (gr_mem (ag3 rdma)) (gr_out (ag3 rdma)) r sample_nhr 64
      (part (gr_slices (ag3 rdma)) [0, 1, 2] 1 r) 1 (gr_slices (ag3 rdma) ! ([0, 1, 2] ! r))
      (input_slices sample_nhr 3 (at_count sample_nhr * ucast (2::u32)) ! ([0, 1, 2] ! r))" if "r < 3" for r
    using less_3_cases[OF that]
    by (auto simp: input_ready_def sample_nhr_def ag3_def input_slices_def upt_3 slice_in_def)
  have "run_ok [0, 1, 2] (ag3 rdma)"
    unfolding run_ok_def Let_def k using env buf sl ready inp links_ready_sample[of rdma]
    by (simp add: ag3_def)
  then show ?thesis unfolding nhr_ok_def map by (simp add: ag3_def sample_nhr_def)
qed

lemma ag3_fields: "gr_ranks (ag3 rdma) = 3" "unat (gr_base (ag3 rdma)) = 64" "gr_out (ag3 rdma) 9 = 201"
    "\<lparr>sl_offset = 8, sl_size = 4\<rparr> \<in> set (gr_slices (ag3 rdma))" "9 \<in> slice_bytes \<lparr>sl_offset = 8, sl_size = 4\<rparr>"
  by (simp_all add: ag3_def slice_bytes_def bytes_def)

lemma AllGatherNHR_gathers_witness:
  "fst (nhr_run (ag3 True) 2) = HCCL_SUCCESS \<and>
   (\<exists>c. (stream_step (+) 3 (nhr_stream (ag3 True)))\<^sup>*\<^sup>* (start (gr_mem (ag3 True))) c \<and>
     finished 3 (nhr_stream (ag3 True)) c \<and> cf_mem c 0 OUTPUT_MEM 73 = 201)"
proof -
  note all = AllGatherNHR_gathers[OF ag3_ok[of True], of "(+)", unfolded ag3_fields(1)]
  have "\<exists>d. (stream_step (+) 3 (nhr_stream (ag3 True)) ^^ (total_actions 3 (nhr_stream (ag3 True)) - 0)) (start (gr_mem (ag3 True))) d \<and>
      finished 3 (nhr_stream (ag3 True)) d"
    by (rule run_completes[where n = 0 and m = "gr_mem (ag3 True)"]) (use all[THEN conjunct2, THEN conjunct1] in blast, simp)
  then obtain c where c: "(stream_step (+) 3 (nhr_stream (ag3 True)))\<^sup>*\<^sup>* (start (gr_mem (ag3 True))) c" "finished 3 (nhr_stream (ag3 True)) c"
    by (meson rtranclp_power)
  have "cf_mem c 0 OUTPUT_MEM (unat (gr_base (ag3 True)) + 9) = gr_out (ag3 True) 9"
    using all[THEN conjunct2, THEN conjunct2, rule_format, OF c _ ag3_fields(4,5)] by simp
  then show ?thesis using c all[THEN conjunct1, rule_format, of 2] unfolding ag3_fields(2,3) by auto
qed

end
