(* ===== verification/GatherNBProof.thy ===== *)
theory GatherNBProof
  imports GatherProof
begin

text \<open>
  The same for the Bruck template: its streams never block and deliver every part. Slices of
  size zero are dropped, and a round in which nothing is left to send is skipped.
\<close>

section \<open>The Bruck algorithm\<close>

definition nb_ok :: "(AlgTemplate, 'v) gather_run \<Rightarrow> bool" where
  "nb_ok S \<longleftrightarrow> run_ok [0..<gr_ranks S] S"

definition nb_rounds :: "(AlgTemplate, 'v) gather_run \<Rightarrow> nat" where
  "nb_rounds S = CalcCeilLog2 (gr_ranks S)"

definition nb_run :: "(AlgTemplate, 'v) gather_run \<Rightarrow> nat \<Rightarrow> HcclResult \<times> task list" where
  "nb_run S r = snd (AllGatherNB_RunAsync (gr_env S r) r (gr_ranks S) (gr_links S r) (gr_tpl S r)) []"

definition nb_stream :: "(AlgTemplate, 'v) gather_run \<Rightarrow> nat \<Rightarrow> action list" where
  "nb_stream S r = stream_of (gr_link S r) (gr_unit S) r (snd (nb_run S r))"

definition nb_slices :: "(AlgTemplate, 'v) gather_run \<Rightarrow> nat \<Rightarrow> nat \<Rightarrow> Slice list" where
  "nb_slices S s r = filter (\<lambda>s. 0 < sl_size s)
     (map ((!) (gr_slices S)) (slice_idxs [0..<gr_ranks S] (gr_k S) (nb_rx (gr_ranks S) s r)))"

abbreviation nb_from :: "(AlgTemplate, 'v) gather_run \<Rightarrow> nat \<Rightarrow> nat \<Rightarrow> nat" where
  "nb_from S s r \<equiv> bwd (gr_ranks S) r (2 ^ s)"

abbreviation nb_to :: "(AlgTemplate, 'v) gather_run \<Rightarrow> nat \<Rightarrow> nat \<Rightarrow> nat" where
  "nb_to S s r \<equiv> fwd (gr_ranks S) r (2 ^ s)"

definition nb_tx :: "(AlgTemplate, 'v) gather_run \<Rightarrow> nat \<Rightarrow> nat \<Rightarrow> bool" where
  "nb_tx S s r \<longleftrightarrow> nb_slices S s (nb_to S s r) \<noteq> []"

definition nb_write :: "(AlgTemplate, 'v) gather_run \<Rightarrow> nat \<Rightarrow> nat \<Rightarrow> action list" where
  "nb_write S s r = (if gr_rdma S \<or> \<not> gr_pull S
     then map (slice_move (gr_base S) (nb_to S s r) r) (nb_slices S s (nb_to S s r)) else [])"

definition nb_read :: "(AlgTemplate, 'v) gather_run \<Rightarrow> nat \<Rightarrow> nat \<Rightarrow> action list" where
  "nb_read S s r = (if gr_rdma S \<or> \<not> gr_pull S then []
     else map (slice_move (gr_base S) r (nb_from S s r)) (nb_slices S s r))"

abbreviation nb_phases :: "(AlgTemplate, 'v) gather_run \<Rightarrow> nat \<Rightarrow> nat \<Rightarrow> action list list" where
  "nb_phases S s r \<equiv> write_phases (nb_tx S s r) (nb_tx S s (nb_from S s r)) (gr_rdma S) (\<not> gr_rdma S)
     (nb_to S s r) (nb_from S s r) (nb_write S s r) (nb_read S s r)"

lemma nb_rx_ranks: "0 < N \<Longrightarrow> set (nb_rx N s r) \<subseteq> {..<N}"
  by (auto simp: nb_rx_def)

lemma cover_nonempty: "cover (filter (\<lambda>s. 0 < sl_size s) ss) = cover ss"
  by (auto simp: cover_def slice_bytes_def bytes_def word_gt_0)

lemma nb_slices_spec:
  assumes "nb_ok S"
  shows "cover (nb_slices S s r) = (\<Union>l\<in>set (nb_rx (gr_ranks S) s r). part (gr_slices S) [0..<gr_ranks S] (gr_k S) l)"
    "\<forall>s'\<in>set (nb_slices S s r). slice_in (unat (gr_size S)) s'"
    "filter (\<lambda>s. 0 < sl_size s) (nb_slices S s r) = nb_slices S s r"
proof -
  note N = run_okD[OF assms[unfolded nb_ok_def]]
  have sub: "set (nb_rx (gr_ranks S) s r) \<subseteq> {..<gr_ranks S}" by (rule nb_rx_ranks) (use N in simp)
  note rc = round_cover[OF perm_of_upt N(4,5) sub]
  show "cover (nb_slices S s r) = (\<Union>l\<in>set (nb_rx (gr_ranks S) s r). part (gr_slices S) [0..<gr_ranks S] (gr_k S) l)"
    unfolding nb_slices_def cover_nonempty by (rule rc(1))
  show "\<forall>s'\<in>set (nb_slices S s r). slice_in (unat (gr_size S)) s'"
    using rc(2) N(6) unfolding nb_slices_def by auto
  show "filter (\<lambda>s. 0 < sl_size s) (nb_slices S s r) = nb_slices S s r" by (simp add: nb_slices_def)
qed

lemma nb_back:
  assumes "nb_ok S" "r < gr_ranks S" "s < nb_rounds S"
  shows "2 ^ s < gr_ranks S" "nb_to S s (nb_from S s r) = r" "nb_from S s (nb_to S s r) = r"
proof -
  note N = run_okD[OF assms(1)[unfolded nb_ok_def]]
  have s: "s < GetStepNumInterServer (gr_ranks S)"
    using assms(3) by (simp add: nb_rounds_def CalcCeilLog2_def GetStepNumInterServer_def)
  show d: "2 ^ s < gr_ranks S" by (rule nb_delta_less[OF N(1,3) s])
  show "nb_to S s (nb_from S s r) = r" "nb_from S s (nb_to S s r) = r"
    using d assms(2) by (simp_all add: fwd_bwd bwd_fwd)
qed

lemma nb_indices_slices:
  assumes "nb_ok S" "r < gr_ranks S" "s < nb_rounds S"
  shows "nb_indices (gr_ranks S) (gr_k S) (w32 (sub32 r (2 ^ s) + gr_ranks S)) [0..<nb_count (gr_ranks S) s] =
      slice_idxs [0..<gr_ranks S] (gr_k S) (nb_rx (gr_ranks S) s r)"
    "nb_indices (gr_ranks S) (gr_k S) (w32 (r + gr_ranks S)) [0..<nb_count (gr_ranks S) s] =
      slice_idxs [0..<gr_ranks S] (gr_k S) (nb_rx (gr_ranks S) s (nb_to S s r))"
proof -
  note N = run_okD[OF assms(1)[unfolded nb_ok_def]]
  have s: "s < GetStepNumInterServer (gr_ranks S)"
    using assms(3) by (simp add: nb_rounds_def CalcCeilLog2_def GetStepNumInterServer_def)
  have idx: "slice_idxs [0..<gr_ranks S] (gr_k S) (nb_rx (gr_ranks S) s q) =
      concat (map (\<lambda>l. map (\<lambda>j. w32 (w32 (l * gr_k S) + j)) [0..<gr_k S]) (nb_rx (gr_ranks S) s q))" for q
    unfolding slice_idxs_def using nb_rx_ranks[of "gr_ranks S" s q] N(1)
    by (intro arg_cong[where f = concat] map_cong) auto
  show "nb_indices (gr_ranks S) (gr_k S) (w32 (sub32 r (2 ^ s) + gr_ranks S)) [0..<nb_count (gr_ranks S) s] =
      slice_idxs [0..<gr_ranks S] (gr_k S) (nb_rx (gr_ranks S) s r)"
    "nb_indices (gr_ranks S) (gr_k S) (w32 (r + gr_ranks S)) [0..<nb_count (gr_ranks S) s] =
      slice_idxs [0..<gr_ranks S] (gr_k S) (nb_rx (gr_ranks S) s (nb_to S s r))"
    unfolding idx by (rule nb_indices_code[OF N(1,3) assms(2) s])+
qed

text \<open>One round of one rank.\<close>

lemma nb_round_stream:
  assumes ok: "nb_ok S" and r: "r < gr_ranks S" and s: "s < nb_rounds S"
    and t: "at_slices t = gr_slices S" "buffers_ready t (gr_base S) (gr_size S)"
  shows "\<exists>ts. runs (nb_round (gr_env S r) t r (gr_ranks S) (gr_links S r) (nb_rounds S) s) ts \<and>
    stream_of (gr_link S r) (gr_unit S) r ts = concat (nb_phases S s r)"
proof -
  note N = run_okD[OF ok[unfolded nb_ok_def]] and rank = run_ok_rank[OF ok[unfolded nb_ok_def] r]
  have succ: "all_succeed (gr_env S r)" using rank(1) by (simp add: env_ready_def)
  have s': "s < GetStepNumInterServer (gr_ranks S)"
    using s by (simp add: nb_rounds_def CalcCeilLog2_def GetStepNumInterServer_def)
  have n: "nb_rounds S = GetStepNumInterServer (gr_ranks S)"
    by (simp add: nb_rounds_def CalcCeilLog2_def GetStepNumInterServer_def)
  let ?left = "nb_from S s r" and ?right = "nb_to S s r"
  note d = nb_back[OF ok r s]
  have codes: "sub32 (w32 (gr_ranks S + r)) (2 ^ s) mod gr_ranks S = ?left" "w32 (r + 2 ^ s) mod gr_ranks S = ?right"
    using from_code[OF r N(3), of "2 ^ s"] to_code[OF r N(3), of "2 ^ s"] d(1) by (simp_all add: add.commute)
  have partners: "?left < gr_ranks S" "?right < gr_ranks S" using N by simp_all
  note links = link_class[OF rank(2) partners(1)] link_class[OF rank(2) partners(2)]
  let ?rx = "nb_slices S s r" and ?tx = "nb_slices S s ?right"
  let ?p1 = "if ?rx \<noteq> [] then call (gr_env S r) ?left TxAck else done_ok"
  let ?p2 = "if ?tx \<noteq> [] then andthen (call (gr_env S r) ?right RxAck) (Tx (gr_env S r) t ?right ?tx) else done_ok"
  let ?p3 = "if ?rx \<noteq> [] then all_of [Rx (gr_env S r) t ?left ?rx, call (gr_env S r) ?left RxWaitDone, call (gr_env S r) ?left PostFinAck]
         else done_ok"
  let ?p4 = "if ?tx \<noteq> [] then andthen (call (gr_env S r) ?right TxWaitDone) (call (gr_env S r) ?right WaitFinAck) else done_ok"
  let ?p5 = "if \<not> gr_rdma S then ExecuteBarrier (gr_env S r) ?left ?right else done_ok"
  have round: "nb_round (gr_env S r) t r (gr_ranks S) (gr_links S r) (nb_rounds S) s = all_of [?p1, ?p2, ?p3, ?p4, ?p5]"
    unfolding nb_round_def Let_def n nb_count_code[OF N(1,3) s'] codes t(1) N(8) nb_indices_slices[OF ok r s]
    using links by (simp add: nb_slices_def del: all_of.simps)
  let ?t1 = "if ?rx \<noteq> [] then [LinkCall ?left TxAck] else []"
  let ?t2 = "if ?tx \<noteq> [] then [LinkCall ?right RxAck] @ [LinkCall ?right (TxAsync (map (tx_info t) ?tx))] else []"
  let ?t3 = "if ?rx \<noteq> [] then [LinkCall ?left (RxAsync (map (rx_info t) ?rx))] @ [LinkCall ?left RxWaitDone] @ [LinkCall ?left PostFinAck] @ [] else []"
  let ?t4 = "if ?tx \<noteq> [] then [LinkCall ?right TxWaitDone] @ [LinkCall ?right WaitFinAck] else []"
  let ?t5 = "if \<not> gr_rdma S then [LinkCall ?left TxAck] @ [LinkCall ?right RxAck] @ [LinkCall ?right TxDataSignal] @ [LinkCall ?left RxDataSignal] @ [] else []"
  have r1: "runs ?p1 ?t1" by (intro runs_if runs_call succ)
  have r2: "runs ?p2 ?t2" unfolding Tx_def by (intro runs_if runs_andthen runs_call succ)
  have r3: "runs ?p3 ?t3" unfolding Rx_def by (intro runs_if runs_all_of runs_call succ)
  have r4: "runs ?p4 ?t4" by (intro runs_if runs_andthen runs_call succ)
  have r5: "runs ?p5 ?t5" unfolding ExecuteBarrier_def by (intro runs_if runs_all_of runs_call succ)
  have "runs (all_of [?p1, ?p2, ?p3, ?p4, ?p5]) (?t1 @ ?t2 @ ?t3 @ ?t4 @ ?t5 @ [])"
    by (intro runs_all_of r1 r2 r3 r4 r5)
  moreover have "stream_of (gr_link S r) (gr_unit S) r (?t1 @ ?t2 @ ?t3 @ ?t4 @ ?t5 @ []) = concat (nb_phases S s r)"
    using links d tx_moves[OF t(2) nb_slices_spec(2)[OF ok], of r ?right s ?right]
      rx_moves[OF t(2) nb_slices_spec(2)[OF ok], of r ?left s r]
    by (simp add: write_phases_def gr_link_def nb_write_def nb_read_def nb_tx_def)
  ultimately show ?thesis unfolding round by blast
qed


text \<open>A rank's whole stream: its own copy, then its rounds.\<close>

definition nb_state :: "(AlgTemplate, 'v) gather_run \<Rightarrow> nat \<Rightarrow> AlgTemplate" where
  "nb_state S r = (gr_tpl S r)\<lparr>at_slices := gr_slices S\<rparr>"

definition nb_own :: "(AlgTemplate, 'v) gather_run \<Rightarrow> nat \<Rightarrow> action list" where
  "nb_own S r = stream_of (gr_link S r) (gr_unit S) r (snd (copy_slice (gr_env S r) (nb_state S r) (gr_slices S ! r)
     (input_slices (gr_tpl S r) (gr_ranks S) (at_count (gr_tpl S r) * ucast (gr_unit S)) ! r) []))"

lemma nb_RunAsync_ok:
  assumes ok: "nb_ok S" and r: "r < gr_ranks S"
  shows "AllGatherNB_RunAsync (gr_env S r) r (gr_ranks S) (gr_links S r) (gr_tpl S r) =
      (nb_state S r, all_of [copy_slice (gr_env S r) (nb_state S r) (gr_slices S ! r)
         (input_slices (gr_tpl S r) (gr_ranks S) (at_count (gr_tpl S r) * ucast (gr_unit S)) ! r),
       AllGatherNB_RunAllGather (gr_env S r) (nb_state S r) r (gr_ranks S) (gr_links S r)])"
proof -
  note N = run_okD[OF ok[unfolded nb_ok_def]] and rank = run_ok_rank[OF ok[unfolded nb_ok_def] r]
  have env: "c_dispatcher (gr_env S r)" "c_stream (gr_env S r)" "c_unit (gr_env S r) = gr_unit S" "gr_unit S \<noteq> 0"
    using rank(1) by (simp_all add: env_ready_def)
  have l: "\<not> length (gr_links S r) < gr_ranks S" using rank(2) by (simp add: links_ready_def)
  have N1: "gr_ranks S \<noteq> 1" using N(1) by simp
  have st: "nb_state S r = (if at_slices (gr_tpl S r) = []
      then (gr_tpl S r)\<lparr>at_slices := even_slices (gr_ranks S) (at_count (gr_tpl S r) * ucast (gr_unit S))\<rparr> else gr_tpl S r)"
    using rank(4) by (auto simp: nb_state_def output_slices_def split: if_splits)
  have sl: "at_slices (nb_state S r) = gr_slices S" by (simp add: nb_state_def)
  show ?thesis
    unfolding AllGatherNB_RunAsync_def Let_def env(3) st[symmetric] sl using env l N1 by (simp del: all_of.simps)
qed

lemma nb_program:
  assumes ok: "nb_ok S" and r: "r < gr_ranks S"
  shows "fst (nb_run S r) = HCCL_SUCCESS"
    and "nb_stream S r = nb_own S r @ concat (map (\<lambda>s. concat (nb_phases S s r)) [0..<nb_rounds S])"
    and "(nb_own S r = [] \<and> (\<forall>a\<in>gr_cells [0..<gr_ranks S] S r. gr_mem S r OUTPUT_MEM a = gr_value S a)) \<or>
      (\<exists>sb da sa len. sb \<noteq> OUTPUT_MEM \<and> nb_own S r = [Move (r, OUTPUT_MEM, da) (r, sb, sa) len] \<and>
         gr_cells [0..<gr_ranks S] S r = {da..<da + len} \<and> (\<forall>x<len. gr_mem S r sb (sa + x) = gr_value S (da + x)))"
proof -
  note N = run_okD[OF ok[unfolded nb_ok_def]] and rank = run_ok_rank[OF ok[unfolded nb_ok_def] r]
  have st: "at_slices (nb_state S r) = gr_slices S" "buffers_ready (nb_state S r) (gr_base S) (gr_size S)"
    using rank(3) by (simp_all add: nb_state_def)
  have id: "[0..<gr_ranks S] ! r = r" using r by simp
  have "gr_ranks S * 1 \<le> gr_ranks S * gr_k S" by (rule mult_le_mono2) (use N(10) in simp)
  then have "r < length (gr_slices S)" using r N(4) by linarith
  then have dst: "slice_in (unat (gr_size S)) (gr_slices S ! r)" using N(6) nth_mem by blast
  let ?src = "input_slices (gr_tpl S r) (gr_ranks S) (at_count (gr_tpl S r) * ucast (gr_unit S)) ! r"
  have inp: "input_ready (gr_mem S) (gr_out S) r (nb_state S r) (gr_base S) (part (gr_slices S) [0..<gr_ranks S] (gr_k S) r)
      (gr_k S) (gr_slices S ! r) ?src"
    using rank(5) unfolding id by (simp add: input_ready_def nb_state_def)
  have one: "gr_k S = 1 \<Longrightarrow> part (gr_slices S) [0..<gr_ranks S] (gr_k S) r = slice_bytes (gr_slices S ! r)"
    using part_one[of "gr_slices S" "[0..<gr_ranks S]" r] id by simp
  obtain cs where cs: "runs (copy_slice (gr_env S r) (nb_state S r) (gr_slices S ! r) ?src) cs"
    and own: "stream_of (gr_link S r) (gr_unit S) r cs = [] \<and>
       (\<forall>a\<in>(+) (unat (gr_base S)) ` part (gr_slices S) [0..<gr_ranks S] (gr_k S) r. gr_mem S r OUTPUT_MEM a = gr_out S (a - unat (gr_base S))) \<or>
     (\<exists>sb da sa len. sb \<noteq> OUTPUT_MEM \<and> stream_of (gr_link S r) (gr_unit S) r cs = [Move (r, OUTPUT_MEM, da) (r, sb, sa) len] \<and>
        (+) (unat (gr_base S)) ` part (gr_slices S) [0..<gr_ranks S] (gr_k S) r = {da..<da + len} \<and>
        (\<forall>x<len. gr_mem S r sb (sa + x) = gr_out S (da + x - unat (gr_base S))))"
    using copy_slice_runs[OF rank(1) st(2) dst inp one, of "gr_link S r" "gr_unit S"] by blast
  have own_cs: "nb_own S r = stream_of (gr_link S r) (gr_unit S) r cs"
    using runsD[OF cs] by (simp add: nb_own_def)
  show "(nb_own S r = [] \<and> (\<forall>a\<in>gr_cells [0..<gr_ranks S] S r. gr_mem S r OUTPUT_MEM a = gr_value S a)) \<or>
      (\<exists>sb da sa len. sb \<noteq> OUTPUT_MEM \<and> nb_own S r = [Move (r, OUTPUT_MEM, da) (r, sb, sa) len] \<and>
         gr_cells [0..<gr_ranks S] S r = {da..<da + len} \<and> (\<forall>x<len. gr_mem S r sb (sa + x) = gr_value S (da + x)))"
    using own unfolding own_cs gr_cells_def gr_value_def .
  have "\<forall>s\<in>{..<nb_rounds S}. \<exists>ts. runs (nb_round (gr_env S r) (nb_state S r) r (gr_ranks S) (gr_links S r) (nb_rounds S) s) ts \<and>
    stream_of (gr_link S r) (gr_unit S) r ts = concat (nb_phases S s r)"
    using nb_round_stream[OF ok r _ st] by blast
  then obtain rs where rs: "\<forall>s\<in>{..<nb_rounds S}. runs (nb_round (gr_env S r) (nb_state S r) r (gr_ranks S) (gr_links S r) (nb_rounds S) s) (rs s) \<and>
    stream_of (gr_link S r) (gr_unit S) r (rs s) = concat (nb_phases S s r)"
    by (rule bchoice[THEN exE])
  have "\<not> length (at_slices (nb_state S r)) < gr_ranks S" using st(1) N(4,10) by simp
  then have "runs (AllGatherNB_RunAllGather (gr_env S r) (nb_state S r) r (gr_ranks S) (gr_links S r))
      (concat (map rs [0..<nb_rounds S]))"
    unfolding AllGatherNB_RunAllGather_def nb_rounds_def Let_def
    using rs by (auto simp: nb_rounds_def intro!: runs_each)
  then have "runs (snd (AllGatherNB_RunAsync (gr_env S r) r (gr_ranks S) (gr_links S r) (gr_tpl S r)))
      (cs @ concat (map rs [0..<nb_rounds S]) @ [])"
    unfolding nb_RunAsync_ok[OF ok r] snd_conv by (intro runs_all_of cs)
  then have run: "nb_run S r = (HCCL_SUCCESS, cs @ concat (map rs [0..<nb_rounds S]))"
    unfolding nb_run_def by (simp add: runsD)
  then show "fst (nb_run S r) = HCCL_SUCCESS" by simp
  have "map (\<lambda>s. stream_of (gr_link S r) (gr_unit S) r (rs s)) [0..<nb_rounds S] =
      map (\<lambda>s. concat (nb_phases S s r)) [0..<nb_rounds S]"
    using rs by (intro map_cong) auto
  then show "nb_stream S r = nb_own S r @ concat (map (\<lambda>s. concat (nb_phases S s r)) [0..<nb_rounds S])"
    unfolding nb_stream_def run own_cs snd_conv stream_of_simps stream_of_concat map_map o_def by (simp only:)
qed

lemma nb_schedule:
  assumes ok: "nb_ok S"
  shows "gather_schedule (gr_ranks S) (nb_rounds S) (nb_from S) (nb_to S)
     (\<lambda>s r. set (nb_rx (gr_ranks S) s r)) (nb_held (gr_ranks S)) (gr_cells [0..<gr_ranks S] S)
     (nb_own S) (gr_mem S) (gr_value S)"
proof
  note N = run_okD[OF ok[unfolded nb_ok_def]]
  fix r s q
  show "r < gr_ranks S \<Longrightarrow> s < nb_rounds S \<Longrightarrow> nb_from S s r < gr_ranks S"
    "r < gr_ranks S \<Longrightarrow> s < nb_rounds S \<Longrightarrow> nb_to S s r < gr_ranks S" by simp_all
  show "r < gr_ranks S \<Longrightarrow> q < gr_ranks S \<Longrightarrow> s < nb_rounds S \<Longrightarrow> (nb_from S s r = q) = (nb_to S s q = r)"
    using nb_back(1)[OF ok] by (intro partner_iff) (auto intro: less_imp_le)
  show "r < gr_ranks S \<Longrightarrow> nb_held (gr_ranks S) 0 r \<subseteq> {r}" by (rule nb_held_0)
  show "r < gr_ranks S \<Longrightarrow> s < nb_rounds S \<Longrightarrow>
      nb_held (gr_ranks S) (Suc s) r \<subseteq> nb_held (gr_ranks S) s r \<union> set (nb_rx (gr_ranks S) s r)"
    by (rule nb_held_Suc)
  show "r < gr_ranks S \<Longrightarrow> s < nb_rounds S \<Longrightarrow>
      set (nb_rx (gr_ranks S) s r) \<subseteq> nb_held (gr_ranks S) s (nb_from S s r)"
    using nb_back(1)[OF ok] by (intro nb_rx_held)
  show "r < gr_ranks S \<Longrightarrow>
      (nb_own S r = [] \<and> (\<forall>a\<in>gr_cells [0..<gr_ranks S] S r. gr_mem S r OUTPUT_MEM a = gr_value S a)) \<or>
      (\<exists>sb da sa len. sb \<noteq> OUTPUT_MEM \<and> nb_own S r = [Move (r, OUTPUT_MEM, da) (r, sb, sa) len] \<and>
         gr_cells [0..<gr_ranks S] S r = {da..<da + len} \<and> (\<forall>x<len. gr_mem S r sb (sa + x) = gr_value S (da + x)))"
    by (rule nb_program(3)[OF ok])
qed

lemma nb_cells:
  assumes "nb_ok S"
  shows "(+) (unat (gr_base S)) ` cover (nb_slices S s r) = (\<Union>l\<in>set (nb_rx (gr_ranks S) s r). gr_cells [0..<gr_ranks S] S l)"
  unfolding nb_slices_spec(1)[OF assms] gr_cells_def by blast

lemma nb_gather:
  assumes ok: "nb_ok S"
  shows "write_gather (gr_ranks S) (nb_rounds S) (nb_from S) (nb_to S)
     (\<lambda>s r. set (nb_rx (gr_ranks S) s r)) (nb_held (gr_ranks S)) (gr_cells [0..<gr_ranks S] S)
     (nb_own S) (gr_mem S) (gr_value S) (nb_tx S) (gr_rdma S) (\<not> gr_rdma S) (nb_write S) (nb_read S) (nb_stream S)"
proof (intro write_gather.intro nb_schedule[OF ok] write_gather_axioms.intro)
  fix r s act assume "act \<in> set (nb_write S s r)"
  then have "act \<in> set (map (slice_move (gr_base S) (nb_to S s r) r) (nb_slices S s (nb_to S s r)))"
    unfolding nb_write_def by (cases "gr_rdma S \<or> \<not> gr_pull S") simp_all
  then show "\<exists>a len. act = Move (nb_to S s r, OUTPUT_MEM, a) (r, OUTPUT_MEM, a) len \<and>
      {a..<a + len} \<subseteq> (\<Union>l\<in>set (nb_rx (gr_ranks S) s (nb_to S s r)). gr_cells [0..<gr_ranks S] S l)"
    unfolding nb_cells[OF ok, symmetric] by (rule slice_moves_within)
next
  fix r s act assume "act \<in> set (nb_read S s r)"
  then have "act \<in> set (map (slice_move (gr_base S) r (nb_from S s r)) (nb_slices S s r))"
    unfolding nb_read_def by (cases "gr_rdma S \<or> \<not> gr_pull S") simp_all
  then show "\<exists>a len. act = Move (r, OUTPUT_MEM, a) (nb_from S s r, OUTPUT_MEM, a) len \<and>
      {a..<a + len} \<subseteq> (\<Union>l\<in>set (nb_rx (gr_ranks S) s r). gr_cells [0..<gr_ranks S] S l)"
    unfolding nb_cells[OF ok, symmetric] by (rule slice_moves_within)
next
  fix r s l c assume a: "r < gr_ranks S" "s < nb_rounds S" "l \<in> set (nb_rx (gr_ranks S) s r)" "c \<in> gr_cells [0..<gr_ranks S] S l"
  note b = nb_back[OF ok a(1,2)]
  have c: "c \<in> (+) (unat (gr_base S)) ` cover (nb_slices S s r)" using nb_cells[OF ok] a(3,4) by blast
  then have tx: "nb_tx S s (nb_from S s r)" unfolding nb_tx_def b(2) by auto
  obtain A len where m: "Move (r, OUTPUT_MEM, A) (nb_from S s r, OUTPUT_MEM, A) len \<in>
      set (map (slice_move (gr_base S) r (nb_from S s r)) (nb_slices S s r))" "A \<le> c" "c < A + len"
    using slice_moves_cover[OF c, of r "nb_from S s r"] unfolding nb_slices_spec(3)[OF ok] by blast
  have "Move (r, OUTPUT_MEM, A) (nb_from S s r, OUTPUT_MEM, A) len \<in> set (nb_read S s r) \<or>
      Move (r, OUTPUT_MEM, A) (nb_from S s r, OUTPUT_MEM, A) len \<in> set (nb_write S s (nb_from S s r))"
    using m(1) unfolding nb_read_def nb_write_def b(2) by (cases "gr_rdma S \<or> \<not> gr_pull S") simp_all
  then show "nb_tx S s (nb_from S s r) \<and> (\<exists>a len. (Move (r, OUTPUT_MEM, a) (nb_from S s r, OUTPUT_MEM, a) len \<in> set (nb_read S s r) \<or>
        Move (r, OUTPUT_MEM, a) (nb_from S s r, OUTPUT_MEM, a) len \<in> set (nb_write S s (nb_from S s r))) \<and> a \<le> c \<and> c < a + len)"
    using tx m(2,3) by blast
next
  fix r assume "r < gr_ranks S"
  then show "nb_stream S r = nb_own S r @ concat (map (\<lambda>s. concat (nb_phases S s r)) [0..<nb_rounds S])"
    by (rule nb_program(2)[OF ok])
qed

definition nb_members :: "(AlgTemplate, 'v) gather_run \<Rightarrow> nat" where
  "nb_members S = (if nb_ok S then gr_ranks S else 0)"

interpretation nb: write_gather "nb_members S" "nb_rounds S" "nb_from S" "nb_to S"
  "\<lambda>s r. set (nb_rx (gr_ranks S) s r)" "nb_held (gr_ranks S)" "gr_cells [0..<gr_ranks S] S"
  "nb_own S" "gr_mem S" "gr_value S" "nb_tx S" "gr_rdma S" "\<not> gr_rdma S" "nb_write S" "nb_read S" "nb_stream S" for S
  by (cases "nb_ok S") (simp_all add: nb_members_def nb_gather write_gather_none)

lemma nb_not_stuck:
  assumes "nb_ok S" "(stream_step f (gr_ranks S) (nb_stream S))\<^sup>*\<^sup>* (start m) c"
    "\<not> finished (gr_ranks S) (nb_stream S) c"
  shows "\<exists>d. stream_step f (gr_ranks S) (nb_stream S) c d"
  using nb.no_deadlock[of f S m c] assms by (simp add: nb_members_def)

lemma nb_gathers:
  assumes ok: "nb_ok S" and run: "(stream_step f (gr_ranks S) (nb_stream S))\<^sup>*\<^sup>* (start (gr_mem S)) c"
    "finished (gr_ranks S) (nb_stream S) c" and r: "r < gr_ranks S" and s: "s \<in> set (gr_slices S)" and x: "x \<in> slice_bytes s"
  shows "cf_mem c r OUTPUT_MEM (unat (gr_base S) + x) = gr_out S x"
proof -
  note N = run_okD[OF ok[unfolded nb_ok_def]]
  obtain l where l: "l < gr_ranks S" "slice_bytes s \<subseteq> part (gr_slices S) [0..<gr_ranks S] (gr_k S) l"
    using part_all[OF perm_of_upt N(4) s] by blast
  then have cell: "unat (gr_base S) + x \<in> gr_cells [0..<gr_ranks S] S l" using x by (auto simp: gr_cells_def)
  have held: "l \<in> nb_held (gr_ranks S) (nb_rounds S) r"
    using nb_held_all[OF N(1,3) r l(1)] by (simp add: nb_rounds_def CalcCeilLog2_def GetStepNumInterServer_def)
  have "nb_members S = gr_ranks S" using ok by (simp add: nb_members_def)
  then have "cf_mem c r OUTPUT_MEM (unat (gr_base S) + x) = gr_value S (unat (gr_base S) + x)"
    using nb.gathers[of f S c r l "unat (gr_base S) + x"] run r held cell by simp
  then show ?thesis by (simp add: gr_value_def)
qed

text \<open>
  C23: AllGather by the nonuniform Bruck algorithm: for every number of ranks below \<open>2 ^ 31\<close>,
  also when it is no power of two, and for slices of any sizes, zero included, every rank's call succeeds, no
  interleaving of the ranks' streams blocks before all are complete, and a complete run leaves
  every rank's part in every rank's output buffer.
\<close>

theorem AllGatherNB_gathers:
  assumes "nb_ok S"
  shows "(\<forall>r<gr_ranks S. fst (nb_run S r) = HCCL_SUCCESS) \<and>
    (\<forall>m c. (stream_step f (gr_ranks S) (nb_stream S))\<^sup>*\<^sup>* (start m) c \<longrightarrow>
      finished (gr_ranks S) (nb_stream S) c \<or> (\<exists>d. stream_step f (gr_ranks S) (nb_stream S) c d)) \<and>
    (\<forall>c r. (stream_step f (gr_ranks S) (nb_stream S))\<^sup>*\<^sup>* (start (gr_mem S)) c \<longrightarrow>
      finished (gr_ranks S) (nb_stream S) c \<longrightarrow> r < gr_ranks S \<longrightarrow>
      (\<forall>s\<in>set (gr_slices S). \<forall>x\<in>slice_bytes s. cf_mem c r OUTPUT_MEM (unat (gr_base S) + x) = gr_out S x))"
  using nb_program(1)[OF assms] nb_not_stuck[OF assms] nb_gathers[OF assms] by blast

text \<open>
  Three ranks over point-to-point links that read; the slices are given, of four, zero and
  two bytes.
\<close>

definition sample_nb :: AlgTemplate where
  "sample_nb = \<lparr>at_inputMem = \<lparr>dm_ptr = Some (INPUT_MEM, 0), dm_size = 8\<rparr>,
     at_outputMem = \<lparr>dm_ptr = Some (OUTPUT_MEM, 64), dm_size = 6\<rparr>, at_scratchMem = null_mem, at_count = 2,
     at_slices = [\<lparr>sl_offset = 0, sl_size = 4\<rparr>, \<lparr>sl_offset = 4, sl_size = 0\<rparr>, \<lparr>sl_offset = 4, sl_size = 2\<rparr>],
     at_baseOffset = 64\<rparr>"

definition nb3 :: "(AlgTemplate, nat) gather_run" where
  "nb3 = \<lparr>gr_ranks = 3, gr_env = \<lambda>r. sample_env, gr_links = \<lambda>r. replicate 3 (Some (sample_link False)),
     gr_tpl = \<lambda>r. sample_nb, gr_rdma = False, gr_pull = True, gr_unit = 2, gr_base = 64, gr_size = 6,
     gr_slices = [\<lparr>sl_offset = 0, sl_size = 4\<rparr>, \<lparr>sl_offset = 4, sl_size = 0\<rparr>, \<lparr>sl_offset = 4, sl_size = 2\<rparr>],
     gr_mem = \<lambda>r b a. if b = INPUT_MEM then 100 * r + a else 0,
     gr_out = \<lambda>x. if x < 4 then x else 200 + x\<rparr>"

lemma nb3_ok: "nb_ok nb3"
proof -
  have env: "env_ready sample_env 2"
    by (simp add: env_ready_def sample_env_def all_succeed_def)
  have buf: "buffers_ready sample_nb 64 6"
    by (simp add: buffers_ready_def sample_nb_def)
  have sl: "output_slices sample_nb 3 2 = gr_slices nb3"
    by (simp add: output_slices_def sample_nb_def nb3_def)
  have ready: "slices_ready 3 6 (gr_slices nb3)"
    by (simp add: slices_ready_def slice_in_def nb3_def)
  have k: "gr_k nb3 = 1" by (simp add: gr_k_def nb3_def)
  have inp: "input_ready (gr_mem nb3) (gr_out nb3) r sample_nb 64
      (part (gr_slices nb3) [0, 1, 2] 1 r) 1 (gr_slices nb3 ! ([0, 1, 2] ! r))
      (input_slices sample_nb 3 (at_count sample_nb * ucast (2::u32)) ! ([0, 1, 2] ! r))" if "r < 3" for r
    using less_3_cases[OF that]
    by (auto simp: input_ready_def sample_nb_def nb3_def input_slices_def slice_in_def part_def slice_bytes_def bytes_def)
  have "run_ok [0, 1, 2] nb3"
    unfolding run_ok_def Let_def k using env buf sl ready inp links_ready_sample[of False]
    by (simp add: nb3_def)
  then show ?thesis unfolding nb_ok_def by (simp add: nb3_def upt_3)
qed

lemma nb3_fields: "gr_ranks nb3 = 3" "unat (gr_base nb3) = 64" "gr_out nb3 5 = 205"
    "\<lparr>sl_offset = 4, sl_size = 2\<rparr> \<in> set (gr_slices nb3)" "5 \<in> slice_bytes \<lparr>sl_offset = 4, sl_size = 2\<rparr>"
  by (simp_all add: nb3_def slice_bytes_def bytes_def)

lemma AllGatherNB_gathers_witness:
  "fst (nb_run nb3 2) = HCCL_SUCCESS \<and>
   (\<exists>c. (stream_step (+) 3 (nb_stream nb3))\<^sup>*\<^sup>* (start (gr_mem nb3)) c \<and>
     finished 3 (nb_stream nb3) c \<and> cf_mem c 0 OUTPUT_MEM 69 = 205)"
proof -
  note all = AllGatherNB_gathers[OF nb3_ok, of "(+)", unfolded nb3_fields(1)]
  have "\<exists>d. (stream_step (+) 3 (nb_stream nb3) ^^ (total_actions 3 (nb_stream nb3) - 0)) (start (gr_mem nb3)) d \<and>
      finished 3 (nb_stream nb3) d"
    by (rule run_completes[where n = 0 and m = "gr_mem nb3"]) (use all[THEN conjunct2, THEN conjunct1] in blast, simp)
  then obtain c where c: "(stream_step (+) 3 (nb_stream nb3))\<^sup>*\<^sup>* (start (gr_mem nb3)) c" "finished 3 (nb_stream nb3) c"
    by (meson rtranclp_power)
  have "cf_mem c 0 OUTPUT_MEM (unat (gr_base nb3) + 5) = gr_out nb3 5"
    using all[THEN conjunct2, THEN conjunct2, rule_format, OF c _ nb3_fields(4,5)] by simp
  then show ?thesis using c all[THEN conjunct1, rule_format, of 2] unfolding nb3_fields(2,3) by auto
qed

text \<open>
  AllGather by the Bruck algorithm ends: every run of the ranks' streams takes at most as many
  steps as there are actions, is complete exactly when it has taken them all, and whatever its
  steps so far, it can be continued to a complete one.
\<close>

theorem AllGatherNB_terminates:
  assumes "nb_ok S" "(stream_step f (gr_ranks S) (nb_stream S) ^^ n) (start m) c"
  shows "n \<le> total_actions (gr_ranks S) (nb_stream S) \<and>
    (n = total_actions (gr_ranks S) (nb_stream S) \<longleftrightarrow> finished (gr_ranks S) (nb_stream S) c) \<and>
    (\<exists>d. (stream_step f (gr_ranks S) (nb_stream S) ^^ (total_actions (gr_ranks S) (nb_stream S) - n)) c d \<and>
      finished (gr_ranks S) (nb_stream S) d)"
proof -
  have stuck: "\<exists>d. stream_step f (gr_ranks S) (nb_stream S) c d"
    if "(stream_step f (gr_ranks S) (nb_stream S))\<^sup>*\<^sup>* (start m) c" "\<not> finished (gr_ranks S) (nb_stream S) c" for c
    using nb_not_stuck[OF assms(1) that] .
  show ?thesis by (intro conjI run_length[OF assms(2)] run_completes[OF stuck assms(2)])
qed

lemma AllGatherNB_terminates_witness:
  "\<exists>d. (stream_step (+) 3 (nb_stream nb3) ^^ total_actions 3 (nb_stream nb3)) (start (\<lambda>_ _ _. 0::nat)) d \<and>
     finished 3 (nb_stream nb3) d"
  using AllGatherNB_terminates[OF nb3_ok, where f = "(+)" and n = 0 and m = "\<lambda>_ _ _. 0::nat", unfolded nb3_fields(1)] by simp

end
