(* ===== verification/ReduceScatter.thy ===== *)
theory ReduceScatter
  imports AllGather
begin

text \<open>
  Reductions between ranks: the sender and the receiver of a reduction over a link (sender.cc,
  reducer.cc), the ReduceScatter template of the nonuniform hierarchical ring, and AllReduce as
  ReduceScatter followed by AllGather. The address of a registered buffer at the other end of a
  link is known (\<open>GetRemoteMem\<close> succeeds); memory for the templates' helper objects is available.
\<close>

section \<open>Reducing over a link\<close>

definition INLINE_REDUCE_BITMASK :: u64 where "INLINE_REDUCE_BITMASK = 0x01"
definition RDMA_REDUCE_BITMASK :: u64 where "RDMA_REDUCE_BITMASK = 0x08"

text \<open>
  What a rank's links can do: whether its device reduces while writing over RDMA, and which
  links acknowledge received data.
\<close>

record link_caps =
  lc_rdmaDevice :: bool
  lc_dataAck :: "nat \<Rightarrow> bool"

definition IsSupportTransportWithReduce :: "link_caps \<Rightarrow> Transport \<Rightarrow> bool" where
  "IsSupportTransportWithReduce caps t \<longleftrightarrow> l_class t = TransportIbverbs \<and> lc_rdmaDevice caps"

record SenderMemoryInfo =
  sm_dstOffset :: u64
  sm_src :: DeviceMem

record ReducerMemoryInfo =
  rd_remoteMemOffset :: u64
  rd_localsrc :: DeviceMem
  rd_localdst :: DeviceMem
  rd_remoteRcvTemp :: DeviceMem

datatype DstMemType = RESULT_INPUT_MEM | RESULT_OUTPUT_MEM | RESULT_MEM_RESERVED_NEW

definition sender_infos :: "UserMemType \<Rightarrow> SenderMemoryInfo list \<Rightarrow> TxMemoryInfo list" where
  "sender_infos dstMemType = map (\<lambda>m. \<lparr>tx_dstMemType = dstMemType, tx_dstOffset = sm_dstOffset m,
     tx_src = dm_ptr (sm_src m), tx_len = dm_size (sm_src m)\<rparr>)"

definition Sender_run ::
  "coll_env \<Rightarrow> link_caps \<Rightarrow> u64 \<Rightarrow> Transport \<Rightarrow> nat \<Rightarrow> SenderMemoryInfo list \<Rightarrow> prog" where
  "Sender_run env caps reduceAttribute t q mems =
     (if IsSupportTransportWithReduce caps t \<and>
         (l_linkType t = LINK_STANDARD_ROCE \<or> RDMA_REDUCE_BITMASK AND reduceAttribute \<noteq> 0)
      then call env q (TxWithReduce (sender_infos INPUT_MEM mems))
      else if IsSpInlineReduce t \<and> INLINE_REDUCE_BITMASK AND reduceAttribute \<noteq> 0 then call env q TxDataSignal
      else call env q (TxAsync (sender_infos OUTPUT_MEM mems)))"

text \<open>The asynchronous reduction of \<open>count\<close> elements into \<open>dst\<close>, from here or over the link to \<open>q\<close>.\<close>

definition HcclReduceAsync :: "coll_env \<Rightarrow> pointer \<Rightarrow> u64 \<Rightarrow> pointer \<Rightarrow> prog" where
  "HcclReduceAsync env src cnt dst =
     (if \<not> c_dispatcher env then fail HCCL_E_PTR
      else if dst = None then fail HCCL_E_PTR
      else if src = None then fail HCCL_E_PTR
      else launch env (ReduceLocal src cnt dst))"

definition HcclReduceAsync_remote :: "coll_env \<Rightarrow> nat \<Rightarrow> UserMemType \<Rightarrow> u64 \<Rightarrow> u64 \<Rightarrow> pointer \<Rightarrow> prog" where
  "HcclReduceAsync_remote env q b off cnt dst =
     (if \<not> c_dispatcher env then fail HCCL_E_PTR
      else if dst = None then fail HCCL_E_PTR
      else launch env (ReduceRemote q b off cnt dst))"

definition PrepareRxMems :: "ReducerMemoryInfo list \<Rightarrow> RxMemoryInfo list" where
  "PrepareRxMems = map (\<lambda>m. \<lparr>rx_srcMemType = INPUT_MEM, rx_srcOffset = rd_remoteMemOffset m,
     rx_dst = dm_ptr (rd_remoteRcvTemp m), rx_len = dm_size (rd_remoteRcvTemp m)\<rparr>)"

definition PrepareRxWithReduceMems :: "coll_env \<Rightarrow> ReducerMemoryInfo list \<Rightarrow> RxWithReduceMemoryInfo list" where
  "PrepareRxWithReduceMems env = map (\<lambda>m. \<lparr>rw_recvSrcMemType = INPUT_MEM, rw_recvSrcOffset = rd_remoteMemOffset m,
     rw_recvDst = dm_ptr (rd_remoteRcvTemp m), rw_recvLen = dm_size (rd_remoteRcvTemp m),
     rw_reduceSrc = dm_ptr (if rd_localsrc m = rd_localdst m then rd_remoteRcvTemp m else rd_localsrc m),
     rw_reduceDst = dm_ptr (rd_localdst m), rw_reduceDataCount = dm_size (rd_localdst m) div ucast (c_unit env)\<rparr>)"

text \<open>Reducing straight from the memory of the other rank, and the result copied where it belongs.\<close>

definition inline_reduce :: "coll_env \<Rightarrow> nat \<Rightarrow> ReducerMemoryInfo \<Rightarrow> prog" where
  "inline_reduce env q m =
     andthen (HcclReduceAsync_remote env q INPUT_MEM (rd_remoteMemOffset m)
         (dm_size (rd_remoteRcvTemp m) div ucast (c_unit env)) (dm_ptr (rd_localsrc m)))
       (if rd_localsrc m \<noteq> rd_localdst m then HcclD2DMemcpyAsync env (rd_localdst m) (rd_localsrc m) else done_ok)"

definition reduce_received :: "coll_env \<Rightarrow> RxWithReduceMemoryInfo \<Rightarrow> prog" where
  "reduce_received env m = HcclReduceAsync env (rw_reduceSrc m) (rw_reduceDataCount m) (rw_reduceDst m)"

text \<open>\<open>preSync\<close> and \<open>postSync\<close> are the calls a template may set around the transfer.\<close>

definition Reducer_run ::
  "coll_env \<Rightarrow> link_caps \<Rightarrow> u64 \<Rightarrow> prog \<Rightarrow> prog \<Rightarrow> Transport \<Rightarrow> nat \<Rightarrow> ReducerMemoryInfo list \<Rightarrow> DstMemType \<Rightarrow> prog" where
  "Reducer_run env caps reduceAttribute preSync postSync t q mems resultMem =
     (let isSpRdmaReduce = RDMA_REDUCE_BITMASK AND reduceAttribute \<noteq> 0;
          withReduce = IsSupportTransportWithReduce caps t;
          ack = (if lc_dataAck caps q then call env q DataReceivedAck else done_ok) in
      if \<not> c_stream env then fail HCCL_E_PTR
      else if withReduce \<and> isSpRdmaReduce then
        all_of [call env q (RxAsync (PrepareRxMems mems)), ack, preSync,
          if resultMem = RESULT_OUTPUT_MEM
          then each (\<lambda>m. HcclD2DMemcpyAsync env (rd_localdst m) (rd_localsrc m)) mems else done_ok,
          postSync]
      else if withReduce \<and> l_linkType t = LINK_STANDARD_ROCE then
        all_of [preSync, call env q (RxWithReduce (PrepareRxWithReduceMems env mems)), postSync]
      else if IsSpInlineReduce t \<and> INLINE_REDUCE_BITMASK AND reduceAttribute \<noteq> 0 then
        all_of [call env q RxDataSignal, preSync, each (inline_reduce env q) mems, postSync]
      else
        all_of [preSync, call env q (RxAsync (PrepareRxMems mems)), postSync, ack,
          each (reduce_received env) (PrepareRxWithReduceMems env mems)])"

text \<open>The same for one piece of memory, where the null checks come first.\<close>

definition Sender_run_one ::
  "coll_env \<Rightarrow> link_caps \<Rightarrow> u64 \<Rightarrow> Transport \<Rightarrow> nat \<Rightarrow> u64 \<Rightarrow> DeviceMem \<Rightarrow> UserMemType \<Rightarrow> prog" where
  "Sender_run_one env caps reduceAttribute t q dstOffset src dstMemType =
     (let m = [\<lparr>sm_dstOffset = dstOffset, sm_src = src\<rparr>] in
      if IsSupportTransportWithReduce caps t \<and>
         (l_linkType t = LINK_STANDARD_ROCE \<or> RDMA_REDUCE_BITMASK AND reduceAttribute \<noteq> 0)
      then call env q (TxWithReduce (sender_infos dstMemType m))
      else if IsSpInlineReduce t \<and> INLINE_REDUCE_BITMASK AND reduceAttribute \<noteq> 0 then call env q TxDataSignal
      else call env q (TxAsync (sender_infos OUTPUT_MEM m)))"

definition Reducer_run_one ::
  "coll_env \<Rightarrow> link_caps \<Rightarrow> u64 \<Rightarrow> Transport \<Rightarrow> nat \<Rightarrow> ReducerMemoryInfo \<Rightarrow> DstMemType \<Rightarrow> UserMemType \<Rightarrow> prog" where
  "Reducer_run_one env caps reduceAttribute t q m resultMem srcMemType =
     (let withReduce = IsSupportTransportWithReduce caps t;
          ack = (if lc_dataAck caps q then call env q DataReceivedAck else done_ok);
          copy_out = HcclD2DMemcpyAsync env (rd_localdst m) (rd_localsrc m) in
      if dm_ptr (rd_localsrc m) = None then fail HCCL_E_PTR
      else if dm_ptr (rd_localdst m) = None then fail HCCL_E_PTR
      else if dm_ptr (rd_remoteRcvTemp m) = None then fail HCCL_E_PTR
      else if \<not> c_stream env then fail HCCL_E_PTR
      else if withReduce \<and> RDMA_REDUCE_BITMASK AND reduceAttribute \<noteq> 0 then
        all_of [call env q (RxAsync [\<lparr>rx_srcMemType = INPUT_MEM, rx_srcOffset = rd_remoteMemOffset m,
            rx_dst = dm_ptr (rd_localdst m), rx_len = dm_size (rd_localdst m)\<rparr>]), ack,
          if resultMem = RESULT_OUTPUT_MEM then copy_out else done_ok]
      else if withReduce \<and> l_linkType t = LINK_STANDARD_ROCE then
        call env q (RxWithReduce (map (rw_recvSrcMemType_update (\<lambda>_. srcMemType)) (PrepareRxWithReduceMems env [m])))
      else if IsSpInlineReduce t \<and> INLINE_REDUCE_BITMASK AND reduceAttribute \<noteq> 0 then
        all_of [call env q RxDataSignal,
          HcclReduceAsync_remote env q srcMemType (rd_remoteMemOffset m)
            (dm_size (rd_remoteRcvTemp m) div ucast (c_unit env)) (dm_ptr (rd_localsrc m)),
          if rd_localsrc m \<noteq> rd_localdst m then copy_out else done_ok,
          if lc_dataAck caps q
          then all_of [call env q TxAck, call env q RxAck, call env q TxDataSignal, call env q RxDataSignal]
          else done_ok]
      else
        all_of [call env q (RxAsync (PrepareRxMems [m])), ack,
          each (reduce_received env) (PrepareRxWithReduceMems env [m])])"

section \<open>ReduceScatter over the hierarchical ring\<close>

record ReduceScatterNHR = NHRBase +
  rs_reduceAttr :: u64
  rs_barrierSwitchOn :: bool

definition new_ReduceScatterNHR :: ReduceScatterNHR where
  "new_ReduceScatterNHR = \<lparr>at_inputMem = null_mem, at_outputMem = null_mem, at_scratchMem = null_mem, at_count = 0,
     at_slices = [], at_baseOffset = 0, nb_isNeedMerge = False, nb_sliceMap = [], rs_reduceAttr = 0,
     rs_barrierSwitchOn = True\<rparr>"

definition ReduceScatterNHR_Prepare :: "u64 \<Rightarrow> bool \<Rightarrow> ReduceScatterNHR \<Rightarrow> HcclResult \<times> ReduceScatterNHR" where
  "ReduceScatterNHR_Prepare reduceAttrBitMap needMerge t =
     (HCCL_SUCCESS, t\<lparr>rs_reduceAttr := reduceAttrBitMap, nb_isNeedMerge := needMerge\<rparr>)"

definition NHRBase_ExecuteBarrier :: "coll_env \<Rightarrow> nat \<Rightarrow> nat \<Rightarrow> prog" where
  "NHRBase_ExecuteBarrier env preLink aftLink =
     all_of [call env preLink TxAck, call env aftLink RxAck,
             call env aftLink TxDataSignal, call env preLink RxDataSignal,
             call env preLink PostFinAck, call env aftLink WaitFinAck]"

text \<open>The template's own copy of the mapping loop, which does not keep the order.\<close>

definition GetSliceMap :: "nat \<Rightarrow> nat list \<Rightarrow> nat list" where
  "GetSliceMap rankSize sliceMap =
     inverse_map rankSize
       (mapping_loop rankSize [0..<halvings (sub32 rankSize 1)] rankSize [0..<rankSize] (replicate rankSize 0)) sliceMap"

definition ReduceScatterNHR_SimpleCheck :: "coll_env \<Rightarrow> 'a AlgTemplate_scheme \<Rightarrow> nat \<Rightarrow> links \<Rightarrow> HcclResult" where
  "ReduceScatterNHR_SimpleCheck env t rankSize links =
     (if \<not> c_dispatcher env then HCCL_E_PTR
      else if \<not> c_stream env then HCCL_E_PTR
      else if dm_ptr (at_outputMem t) = None \<or> dm_ptr (at_inputMem t) = None then HCCL_E_PTR
      else if length links < rankSize then HCCL_E_INTERNAL
      else HCCL_SUCCESS)"

definition CheckSlices :: "Slice list \<Rightarrow> nat \<Rightarrow> HcclResult" where
  "CheckSlices slices rankSize = (if length slices mod rankSize \<noteq> 0 then HCCL_E_INTERNAL else HCCL_SUCCESS)"

definition ReduceScatterNHR_GetStepInfo :: "'a NHRBase_scheme \<Rightarrow> nat \<Rightarrow> nat \<Rightarrow> nat \<Rightarrow> InterServerAlgoStep" where
  "ReduceScatterNHR_GetStepInfo t step rank rankSize =
     (let sliceSize = w32 (length (at_slices t) div rankSize);
          deltaRank = 2 ^ step;
          sendTo = sub32 (w32 (rank + rankSize)) deltaRank mod rankSize;
          recvFrom = w32 (rank + deltaRank) mod rankSize;
          nSlices = w32 (sub32 rankSize 1 + 2 ^ step) div 2 ^ (step + 1);
          deltaSliceIndex = 2 ^ (step + 1) in
      \<lparr>st_step = step, st_myRank = rank, st_nSlices = w32 (nSlices * sliceSize),
       st_toRank = sendTo, st_fromRank = recvFrom,
       st_txSliceIdxs = slice_idxs (nb_sliceMap t) sliceSize (step_ranks rankSize deltaSliceIndex nSlices sendTo),
       st_rxSliceIdxs = slice_idxs (nb_sliceMap t) sliceSize (step_ranks rankSize deltaSliceIndex nSlices rank)\<rparr>)"

text \<open>The slices at the indices of a step.\<close>

definition slices_at :: "Slice list \<Rightarrow> nat list \<Rightarrow> nat \<Rightarrow> Slice list" where
  "slices_at slices idxs n = map (\<lambda>i. slices ! (idxs ! i)) [0..<n]"

definition GetRxSlices ::
  "'a NHRBase_scheme \<Rightarrow> InterServerAlgoStep \<Rightarrow> Slice list \<Rightarrow> Slice list \<Rightarrow> Slice list \<times> Slice list" where
  "GetRxSlices t info inputSlices outputSlices =
     (MergeSlices (nb_isNeedMerge t) (slices_at inputSlices (st_rxSliceIdxs info) (st_nSlices info)),
      MergeSlices (nb_isNeedMerge t) (slices_at outputSlices (st_rxSliceIdxs info) (st_nSlices info)))"

text \<open>
  The memories of a reduction in place, and those of the last step, which is not merged and
  moves the result to the output. A list \<open>temp\<close> shorter than \<open>rx\<close>, which the code would read
  past its end, gives no defined memory.
\<close>

definition in_place :: "'a AlgTemplate_scheme \<Rightarrow> Slice list \<Rightarrow> Slice list \<Rightarrow> ReducerMemoryInfo list" where
  "in_place t rx temp = map (\<lambda>i.
     let dst = range_of (at_inputMem t) (sl_offset (rx ! i)) (sl_size (rx ! i)) in
     \<lparr>rd_remoteMemOffset = at_baseOffset t + sl_offset (rx ! i), rd_localsrc = dst, rd_localdst = dst,
      rd_remoteRcvTemp = range_of (at_scratchMem t) (sl_offset (temp ! i)) (sl_size (temp ! i))\<rparr>) [0..<length rx]"

definition last_step :: "'a AlgTemplate_scheme \<Rightarrow> Slice list \<Rightarrow> Slice list \<Rightarrow> ReducerMemoryInfo list" where
  "last_step t ins outs = map (\<lambda>i.
     \<lparr>rd_remoteMemOffset = at_baseOffset t + sl_offset (ins ! i),
      rd_localsrc = range_of (at_inputMem t) (sl_offset (ins ! i)) (sl_size (ins ! i)),
      rd_localdst = range_of (at_outputMem t) (sl_offset (outs ! i)) (sl_size (outs ! i)),
      rd_remoteRcvTemp = range_of (at_scratchMem t) (sl_offset (outs ! i)) (sl_size (outs ! i))\<rparr>) [0..<length ins]"

definition InlineReducer :: "coll_env \<Rightarrow> nat \<Rightarrow> ReducerMemoryInfo list \<Rightarrow> prog" where
  "InlineReducer env linkLeft = each (inline_reduce env linkLeft)"

definition InlineReduceRx :: "coll_env \<Rightarrow> 'a AlgTemplate_scheme \<Rightarrow> nat \<Rightarrow> Slice list \<Rightarrow> Slice list \<Rightarrow> prog" where
  "InlineReduceRx env t linkLeft rx temp = InlineReducer env linkLeft (in_place t rx temp)"

definition InlineReduceRxLastStep :: "coll_env \<Rightarrow> 'a AlgTemplate_scheme \<Rightarrow> nat \<Rightarrow> Slice list \<Rightarrow> Slice list \<Rightarrow> prog" where
  "InlineReduceRxLastStep env t linkLeft ins outs = InlineReducer env linkLeft (last_step t ins outs)"

text \<open>Without inline reduction: first all data into the scratch memory, then the reductions.\<close>

definition fetch :: "coll_env \<Rightarrow> nat \<Rightarrow> u64 \<Rightarrow> ReducerMemoryInfo \<Rightarrow> prog" where
  "fetch env linkLeft len m =
     HcclD2DMemcpyAsync_remote env (rd_remoteRcvTemp m) linkLeft INPUT_MEM (rd_remoteMemOffset m) len"

definition TbeReduceRx :: "coll_env \<Rightarrow> 'a AlgTemplate_scheme \<Rightarrow> nat \<Rightarrow> Slice list \<Rightarrow> Slice list \<Rightarrow> prog" where
  "TbeReduceRx env t linkLeft rx temp =
     (let mems = in_place t rx temp in
      andthen (each (\<lambda>i. fetch env linkLeft (sl_size (rx ! i)) (mems ! i)) [0..<length rx])
        (each (\<lambda>m. HcclReduceAsync env (dm_ptr (rd_remoteRcvTemp m))
           (dm_size (rd_localdst m) div ucast (c_unit env)) (dm_ptr (rd_localdst m))) mems))"

definition TbeReduceRxLastStep :: "coll_env \<Rightarrow> 'a AlgTemplate_scheme \<Rightarrow> nat \<Rightarrow> Slice list \<Rightarrow> Slice list \<Rightarrow> prog" where
  "TbeReduceRxLastStep env t linkLeft ins outs =
     (let mems = last_step t ins outs in
      andthen (each (\<lambda>i. fetch env linkLeft (sl_size (ins ! i)) (mems ! i)) [0..<length ins])
        (each (\<lambda>m. HcclReduceAsync env
           (dm_ptr (if rd_localsrc m = rd_localdst m then rd_remoteRcvTemp m else rd_localsrc m))
           (dm_size (rd_localdst m) div ucast (c_unit env)) (dm_ptr (rd_localdst m))) mems))"

definition SdmaReducer ::
  "coll_env \<Rightarrow> ReduceScatterNHR \<Rightarrow> nat \<Rightarrow> nat \<Rightarrow> InterServerAlgoStep \<Rightarrow> Slice list \<Rightarrow> Slice list \<Rightarrow> prog" where
  "SdmaReducer env t nSteps linkLeft info inputSlices outputSlices =
     (let ins = slices_at inputSlices (st_rxSliceIdxs info) (st_nSlices info);
          outs = slices_at outputSlices (st_rxSliceIdxs info) (st_nSlices info);
          (rx, temp) = GetRxSlices t info inputSlices outputSlices in
      if INLINE_REDUCE_BITMASK AND rs_reduceAttr t = 1
      then if st_step info = nSteps - 1 then InlineReduceRxLastStep env t linkLeft ins outs
           else InlineReduceRx env t linkLeft rx temp
      else if st_step info = nSteps - 1 then TbeReduceRxLastStep env t linkLeft ins outs
           else TbeReduceRx env t linkLeft rx temp)"

definition RunSourceSender ::
  "coll_env \<Rightarrow> link_caps \<Rightarrow> ReduceScatterNHR \<Rightarrow> Transport \<Rightarrow> nat \<Rightarrow> InterServerAlgoStep \<Rightarrow> Slice list \<Rightarrow> Slice list \<Rightarrow> prog" where
  "RunSourceSender env caps t tr link info inputSlices outputSlices =
     (let tx = MergeSlices (nb_isNeedMerge t) (slices_at inputSlices (st_txSliceIdxs info) (st_nSlices info));
          temp = MergeSlices (nb_isNeedMerge t) (slices_at outputSlices (st_txSliceIdxs info) (st_nSlices info)) in
      Sender_run env caps (rs_reduceAttr t) tr link (map (\<lambda>i.
        \<lparr>sm_dstOffset = at_baseOffset t + sl_offset (temp ! i),
         sm_src = range_of (at_inputMem t) (sl_offset (tx ! i)) (sl_size (tx ! i))\<rparr>) [0..<length tx]))"

definition RunDestReducer ::
  "coll_env \<Rightarrow> link_caps \<Rightarrow> ReduceScatterNHR \<Rightarrow> Transport \<Rightarrow> nat \<Rightarrow> InterServerAlgoStep \<Rightarrow> Slice list \<Rightarrow> Slice list \<Rightarrow> prog" where
  "RunDestReducer env caps t tr link info inputSlices outputSlices =
     (let (rx, temp) = GetRxSlices t info inputSlices outputSlices in
      Reducer_run env caps (rs_reduceAttr t) done_ok done_ok tr link (in_place t rx temp) RESULT_INPUT_MEM)"

definition RunDestReducerLastStep ::
  "coll_env \<Rightarrow> link_caps \<Rightarrow> ReduceScatterNHR \<Rightarrow> Transport \<Rightarrow> nat \<Rightarrow> InterServerAlgoStep \<Rightarrow> Slice list \<Rightarrow> Slice list \<Rightarrow> prog" where
  "RunDestReducerLastStep env caps t tr link info inputSlices outputSlices =
     Reducer_run env caps (rs_reduceAttr t) done_ok done_ok tr link
       (last_step t (slices_at inputSlices (st_rxSliceIdxs info) (st_nSlices info))
          (slices_at outputSlices (st_rxSliceIdxs info) (st_nSlices info))) RESULT_INPUT_MEM"

definition rs_round ::
  "coll_env \<Rightarrow> link_caps \<Rightarrow> ReduceScatterNHR \<Rightarrow> nat \<Rightarrow> nat \<Rightarrow> links \<Rightarrow> Slice list \<Rightarrow> Slice list \<Rightarrow> nat \<Rightarrow> nat \<Rightarrow> prog" where
  "rs_round env caps t rank rankSize links inputSlices outputSlices nSteps step =
     (let info = ReduceScatterNHR_GetStepInfo t step rank rankSize;
          left = st_fromRank info; right = st_toRank info in
      if \<not> has_link links left then fail HCCL_E_PTR
      else if \<not> has_link links right then fail HCCL_E_PTR
      else if link_inline links left \<and> link_inline links right
      then all_of [call env right TxAck, call env left RxAck,
             SdmaReducer env t nSteps left info inputSlices outputSlices,
             call env left TxDataSignal, call env right RxDataSignal]
      else all_of [call env left TxAck, call env right RxAck,
             RunSourceSender env caps t (the (links ! right)) right info inputSlices outputSlices,
             if step = nSteps - 1
             then RunDestReducerLastStep env caps t (the (links ! left)) left info inputSlices outputSlices
             else RunDestReducer env caps t (the (links ! left)) left info inputSlices outputSlices,
             call env left PostFinAck, call env right WaitFinAck,
             if rs_barrierSwitchOn t then NHRBase_ExecuteBarrier env left right else done_ok])"

definition RunReduceScatterNHR ::
  "coll_env \<Rightarrow> link_caps \<Rightarrow> ReduceScatterNHR \<Rightarrow> nat \<Rightarrow> nat \<Rightarrow> links \<Rightarrow> Slice list \<Rightarrow> Slice list \<Rightarrow> prog" where
  "RunReduceScatterNHR env caps t rank rankSize links inputSlices outputSlices =
     (if length inputSlices < rankSize then fail HCCL_E_INTERNAL
      else if length outputSlices < rankSize then fail HCCL_E_INTERNAL
      else let nSteps = GetStepNumInterServer rankSize in
        each (rs_round env caps t rank rankSize links inputSlices outputSlices nSteps) [0..<nSteps])"

text \<open>The output slices when none were given: at the start of a smaller output, or in place.\<close>

definition rs_output_slices :: "'a AlgTemplate_scheme \<Rightarrow> nat \<Rightarrow> u64 \<Rightarrow> Slice list" where
  "rs_output_slices t rankSize sliceSize =
     (if at_slices t \<noteq> [] then at_slices t
      else map (\<lambda>i. \<lparr>sl_offset = if dm_size (at_inputMem t) > dm_size (at_outputMem t) then 0
                                  else of_nat i * sliceSize, sl_size = sliceSize\<rparr>) [0..<rankSize])"

text \<open>The template's state after the call, and its program.\<close>

definition ReduceScatterNHR_RunAsync ::
  "coll_env \<Rightarrow> link_caps \<Rightarrow> nat \<Rightarrow> nat \<Rightarrow> links \<Rightarrow> ReduceScatterNHR \<Rightarrow> ReduceScatterNHR \<times> prog" where
  "ReduceScatterNHR_RunAsync env caps rank rankSize links t0 =
     (let check = ReduceScatterNHR_SimpleCheck env t0 rankSize links in
      if check \<noteq> HCCL_SUCCESS then (t0, fail check)
      else let t = (if nb_isNeedMerge t0 then t0\<lparr>nb_sliceMap := GetSliceMap rankSize (nb_sliceMap t0)\<rparr> else t0) in
        if rankSize = 1 then
          (t, if at_inputMem t \<noteq> at_outputMem t
              then HcclD2DMemcpyAsync env (at_outputMem t) (at_inputMem t) else done_ok)
        else if c_unit env = 0 then (t, fail HCCL_E_INTERNAL)
        else
          let sliceSize = at_count t * ucast (c_unit env);
              outputSlices = rs_output_slices t rankSize sliceSize;
              t1 = (if at_slices t = [] then t\<lparr>at_slices := even_slices rankSize sliceSize\<rparr> else t);
              check = CheckSlices (at_slices t1) rankSize in
          if check \<noteq> HCCL_SUCCESS then (t1, fail check)
          else let t2 = (if length (nb_sliceMap t1) \<noteq> rankSize
                         then t1\<lparr>nb_sliceMap := GetRankMapping rankSize True (nb_sliceMap t1)\<rparr> else t1) in
            (t2, RunReduceScatterNHR env caps t2 rank rankSize links (at_slices t2) outputSlices))"

section \<open>AllReduce over the hierarchical ring\<close>

record AllReduceNHR = AlgTemplate +
  ar_reduceAttr :: u64
  ar_barrierSwitchOn :: bool

definition AllReduceNHR_Prepare :: "u64 \<Rightarrow> AllReduceNHR \<Rightarrow> HcclResult \<times> AllReduceNHR" where
  "AllReduceNHR_Prepare reduceAttrBitMap t = (HCCL_SUCCESS, t\<lparr>ar_reduceAttr := reduceAttrBitMap\<rparr>)"

definition HCCL_MIN_SLICE_ALIGN :: u64 where "HCCL_MIN_SLICE_ALIGN = 128"

definition RoundUpWithDivisor :: "u64 \<Rightarrow> u64 \<Rightarrow> u64" where
  "RoundUpWithDivisor val divisor =
     (if val = 0 \<or> divisor = 0 then divisor else ((val + (divisor - 1)) div divisor) * divisor)"

fun residue_slices :: "nat \<Rightarrow> u64 \<Rightarrow> u64 \<Rightarrow> u64 \<Rightarrow> Slice list" where
  "residue_slices 0 totalSize aligned residue = []"
| "residue_slices (Suc n) totalSize aligned residue =
     (let sz = (if residue > aligned then aligned else residue) in
      \<lparr>sl_offset = totalSize - residue, sl_size = sz\<rparr> # residue_slices n totalSize aligned (residue - sz))"

definition AllReduceNHR_PrepareRunAsync :: "coll_env \<Rightarrow> nat \<Rightarrow> 'a AlgTemplate_scheme \<Rightarrow> 'a AlgTemplate_scheme" where
  "AllReduceNHR_PrepareRunAsync env rankSize t =
     (if at_slices t = [] then
        let totalSize = at_count t * ucast (c_unit env);
            calculated = (totalSize + (of_nat rankSize - 1)) div of_nat rankSize in
        t\<lparr>at_slices := residue_slices rankSize totalSize (RoundUpWithDivisor calculated HCCL_MIN_SLICE_ALIGN) totalSize\<rparr>
      else t)"

text \<open>The two phases are run by fresh templates on the memories and slices of this one.\<close>

definition AllReduceNHR_ReduceScatter :: "AllReduceNHR \<Rightarrow> ReduceScatterNHR" where
  "AllReduceNHR_ReduceScatter t =
     (let s = snd (ReduceScatterNHR_Prepare (ar_reduceAttr t) True new_ReduceScatterNHR);
          s = (if ar_barrierSwitchOn t then s else s\<lparr>rs_barrierSwitchOn := False\<rparr>) in
      snd (Prepare (at_inputMem t) (at_inputMem t) (at_outputMem t) (at_count t) (at_slices t) (at_baseOffset t) s))"

definition RunReduceScatter :: "coll_env \<Rightarrow> link_caps \<Rightarrow> nat \<Rightarrow> nat \<Rightarrow> links \<Rightarrow> AllReduceNHR \<Rightarrow> prog" where
  "RunReduceScatter env caps rank rankSize links t =
     snd (ReduceScatterNHR_RunAsync env caps rank rankSize links (AllReduceNHR_ReduceScatter t))"

definition new_AllGatherNHR :: NHRBase where
  "new_AllGatherNHR = \<lparr>at_inputMem = null_mem, at_outputMem = null_mem, at_scratchMem = null_mem, at_count = 0,
     at_slices = [], at_baseOffset = 0, nb_isNeedMerge = False, nb_sliceMap = []\<rparr>"

definition AllReduceNHR_AllGather :: "AllReduceNHR \<Rightarrow> NHRBase" where
  "AllReduceNHR_AllGather t =
     snd (Prepare (at_inputMem t) (at_outputMem t) (at_outputMem t) (at_count t) (at_slices t) (at_baseOffset t)
       (snd (AllGatherNHR_Prepare True new_AllGatherNHR)))"

definition RunAllGather :: "coll_env \<Rightarrow> nat \<Rightarrow> nat \<Rightarrow> links \<Rightarrow> AllReduceNHR \<Rightarrow> prog" where
  "RunAllGather env rank rankSize links t =
     snd (AllGatherNHR_RunAsync env rank rankSize links (AllReduceNHR_AllGather t))"

definition AllReduceNHR_RunAsync ::
  "coll_env \<Rightarrow> link_caps \<Rightarrow> nat \<Rightarrow> nat \<Rightarrow> links \<Rightarrow> AllReduceNHR \<Rightarrow> AllReduceNHR \<times> prog" where
  "AllReduceNHR_RunAsync env caps rank rankSize links t =
     (let check = ReduceScatterNHR_SimpleCheck env t rankSize links in
      if check \<noteq> HCCL_SUCCESS then (t, fail check)
      else if rankSize = 1 then
        (t, if at_inputMem t \<noteq> at_outputMem t
            then HcclD2DMemcpyAsync env (at_outputMem t) (at_inputMem t) else done_ok)
      else let t' = AllReduceNHR_PrepareRunAsync env rankSize t in
        (t', andthen (RunReduceScatter env caps rank rankSize links t') (RunAllGather env rank rankSize links t')))"

section \<open>The switch port phases reported to the network scheduler\<close>

definition adj_steps :: "links \<Rightarrow> (nat \<Rightarrow> nat) \<Rightarrow> nat \<Rightarrow> nat list \<Rightarrow> HcclResult \<times> (nat \<times> nat) list \<Rightarrow>
    HcclResult \<times> (nat \<times> nat) list" where
  "adj_steps links target begin1 steps =
     fold (\<lambda>step (r, acc). if r \<noteq> HCCL_SUCCESS then (r, acc)
         else if \<not> has_link links (target step) then (HCCL_E_PTR, acc)
           else (HCCL_SUCCESS, acc @ [(target step, step + begin1 + 1)])) steps"

definition ReduceScatterNHR_GetNslbAdjInfo ::
  "nat \<Rightarrow> nat \<Rightarrow> links \<Rightarrow> HcclResult \<times> (nat \<times> nat) list \<times> nat option" where
  "ReduceScatterNHR_GetNslbAdjInfo rank rankSize links =
     (if rankSize = 1 then (HCCL_SUCCESS, [], None)
      else if length links < rankSize then (HCCL_SUCCESS, [], None)
      else let nSteps = halvings (sub32 rankSize 1);
               (r, infos) = adj_steps links (\<lambda>step. sub32 (w32 (rank + rankSize)) (2 ^ step) mod rankSize) 0
                 [0..<nSteps] (HCCL_SUCCESS, []) in
        if r \<noteq> HCCL_SUCCESS then (r, infos, None) else (HCCL_SUCCESS, infos, Some nSteps))"

definition AllReduceNHR_GetNslbAdjInfo ::
  "nat \<Rightarrow> nat \<Rightarrow> links \<Rightarrow> HcclResult \<times> (nat \<times> nat) list \<times> nat option" where
  "AllReduceNHR_GetNslbAdjInfo rank rankSize links =
     (if rankSize = 1 then (HCCL_SUCCESS, [], None)
      else if length links < rankSize then (HCCL_SUCCESS, [], None)
      else let nSteps = halvings (sub32 rankSize 1);
               (r, infos) = adj_steps links (\<lambda>step. w32 (rank + 2 ^ (nSteps - 1 - step)) mod rankSize) nSteps [0..<nSteps]
                 (adj_steps links (\<lambda>step. sub32 (w32 (rank + rankSize)) (2 ^ step) mod rankSize) 0
                   [0..<nSteps] (HCCL_SUCCESS, [])) in
        if r \<noteq> HCCL_SUCCESS then (r, infos, None) else (HCCL_SUCCESS, infos, Some (length infos)))"

end
