(* ===== verification/Rounds.thy ===== *)
theory Rounds
  imports Gather
begin

text \<open>
  Streams in rounds: if in every round a rank changes its own memory only and reads, besides,
  memory of one partner that the partner leaves alone in that round, then every interleaving of
  the streams ends in the memory of the execution round by round, in which all ranks take a
  round at once.
\<close>

lemma exec_synchronisation [simp]: "exec_action f (Post q k) m = m" "exec_action f (Await q k) m = m"
  by simp_all

text \<open>The places an action writes, and those it reads elsewhere than it writes.\<close>

fun writes :: "action \<Rightarrow> (nat \<times> UserMemType \<times> nat) set" where
  "writes (Move (r, b, d) src len) = {(r, b, a) | a. d \<le> a \<and> a < d + len}"
| "writes (Combine (r, b, d) src len) = {(r, b, a) | a. d \<le> a \<and> a < d + len}"
| "writes _ = {}"

fun reads :: "action \<Rightarrow> (nat \<times> UserMemType \<times> nat) set" where
  "reads (Move dst (q, c, s) len) = {(q, c, a) | a. s \<le> a \<and> a < s + len}"
| "reads (Combine dst (q, c, s) len) = {(q, c, a) | a. s \<le> a \<and> a < s + len}"
| "reads _ = {}"

definition local_action :: "nat \<Rightarrow> action \<Rightarrow> bool" where
  "local_action r a \<longleftrightarrow> (\<forall>q k. a \<noteq> Post q k \<and> a \<noteq> Await q k) \<and> (\<forall>p\<in>writes a. fst p = r)"

lemma exec_not_written: "(q, b, x) \<notin> writes a \<Longrightarrow> exec_action f a m q b x = m q b x"
  by (cases a rule: writes.cases) auto

lemma fold_not_written:
  "(\<And>a. a \<in> set as \<Longrightarrow> (q, b, x) \<notin> writes a) \<Longrightarrow> fold (exec_action f) as m q b x = m q b x"
  by (induction as arbitrary: m) (simp_all add: exec_not_written)

text \<open>What an action does to its own rank depends on the rank and on the places it reads.\<close>

lemma exec_local:
  assumes "\<forall>p\<in>writes a. fst p = r" "m r = m' r" "\<And>q b x. (q, b, x) \<in> reads a \<Longrightarrow> m q b x = m' q b x"
  shows "exec_action f a m r = exec_action f a m' r"
proof -
  have m: "\<And>b x. m r b x = m' r b x" using assms(2) by simp
  show ?thesis
  proof (cases a)
    case (Move x y len)
    obtain dr db da where x: "x = (dr, db, da)" by (cases x) auto
    obtain sr sb sa where y: "y = (sr, sb, sa)" by (cases y) auto
    show ?thesis
    proof (intro ext)
      fix b z
      show "exec_action f a m r b z = exec_action f a m' r b z"
        using assms(3)[of sr sb "sa + (z - da)"] m Move x y by (auto simp: less_diff_conv2)
    qed
  next
    case (Combine x y len)
    obtain dr db da where x: "x = (dr, db, da)" by (cases x) auto
    obtain sr sb sa where y: "y = (sr, sb, sa)" by (cases y) auto
    show ?thesis
    proof (intro ext)
      fix b z
      show "exec_action f a m r b z = exec_action f a m' r b z"
        using assms(3)[of sr sb "sa + (z - da)"] m Combine x y by (auto simp: less_diff_conv2)
    qed
  qed (use assms(2) in simp_all)
qed

text \<open>The memory after \<open>s\<close> rounds: in a round every rank starts from the memory before it.\<close>

primrec round_mem :: "('v \<Rightarrow> 'v \<Rightarrow> 'v) \<Rightarrow> (nat \<Rightarrow> nat \<Rightarrow> action list) \<Rightarrow> 'v memory \<Rightarrow> nat \<Rightarrow> 'v memory" where
  "round_mem f mv m 0 = m"
| "round_mem f mv m (Suc s) = (\<lambda>r. fold (exec_action f) (mv s r) (round_mem f mv m s) r)"

text \<open>
  A round in which some ranks read and some are read from: \<open>tx\<close> and \<open>rx\<close> say whether the rank
  offers its memory to \<open>to\<close> and whether it reads from \<open>from\<close>.
\<close>

definition part_phases :: "bool \<Rightarrow> bool \<Rightarrow> nat \<Rightarrow> nat \<Rightarrow> action list \<Rightarrow> action list list" where
  "part_phases tx rx to from mv =
     [if tx then [Post to SendDone] else [], if rx then [Await from SendDone] else [], mv,
      if rx then [Post from SendReady] else [], if tx then [Await to SendReady] else [], []]"

lemma part_phases_all [simp]: "part_phases True True to from mv = read_phases to from mv"
  by (simp add: part_phases_def read_phases_def)

lemma part_phases_none [simp]: "concat (part_phases False False to from mv) = mv"
  by (simp add: part_phases_def)

locale read_rounds =
  fixes N n :: nat
    and "from" to :: "nat \<Rightarrow> nat \<Rightarrow> nat"
    and tx rx :: "nat \<Rightarrow> nat \<Rightarrow> bool"
    and mv :: "nat \<Rightarrow> nat \<Rightarrow> action list"
    and P :: "nat \<Rightarrow> action list"
  assumes partners: "r < N \<Longrightarrow> s < n \<Longrightarrow> rx s r \<Longrightarrow> from s r < N \<and> tx s (from s r) \<and> to s (from s r) = r"
      "r < N \<Longrightarrow> s < n \<Longrightarrow> tx s r \<Longrightarrow> to s r < N \<and> rx s (to s r) \<and> from s (to s r) = r"
    and own_writes: "r < N \<Longrightarrow> s < n \<Longrightarrow> a \<in> set (mv s r) \<Longrightarrow> local_action r a"
    and partner_reads: "r < N \<Longrightarrow> s < n \<Longrightarrow> a \<in> set (mv s r) \<Longrightarrow> (q, b, x) \<in> reads a \<Longrightarrow>
      q = r \<or> rx s r \<and> q = from s r \<and> (\<forall>a'\<in>set (mv s q). (q, b, x) \<notin> writes a')"
    and program: "r < N \<Longrightarrow> P r = concat (map (\<lambda>s.
      concat (part_phases (tx s r) (rx s r) (to s r) (from s r) (mv s r))) [0..<n])"
begin

definition ph :: "nat \<Rightarrow> nat \<Rightarrow> action list list" where
  "ph r s = part_phases (tx s r) (rx s r) (to s r) (from s r) (mv s r)"

lemma concat_ph: "concat (ph r s) =
    (if tx s r then [Post (to s r) SendDone] else []) @ (if rx s r then [Await (from s r) SendDone] else []) @ mv s r @
    (if rx s r then [Post (from s r) SendReady] else []) @ (if tx s r then [Await (to s r) SendReady] else [])"
  by (simp add: ph_def part_phases_def)

lemma mv_quiet: "r < N \<Longrightarrow> s < n \<Longrightarrow> Post q k \<notin> set (mv s r) \<and> Await q k \<notin> set (mv s r)"
  using own_writes[of r s "Post q k"] own_writes[of r s "Await q k"] by (auto simp: local_action_def)

lemma mv_count [simp]: "r < N \<Longrightarrow> s < n \<Longrightarrow> count_list (mv s r) (Post q k) = 0"
    "r < N \<Longrightarrow> s < n \<Longrightarrow> count_list (mv s r) (Await q k) = 0"
  using mv_quiet by (simp_all add: count_list_0_iff)

lemma mv_split: "r < N \<Longrightarrow> s < n \<Longrightarrow> mv s r \<noteq> X @ Await q k # Y"
  using mv_quiet[of r s q k] by auto

lemma reading: "r < N \<Longrightarrow> q < N \<Longrightarrow> s < n \<Longrightarrow> rx s r \<and> from s r = q \<longleftrightarrow> tx s q \<and> to s q = r"
  using partners(1)[of r s] partners(2)[of q s] by blast

lemma stepwise: "stepwise_streams N n 6 ph P"
proof
  fix r assume "r < N"
  then show "P r = concat (map (\<lambda>s. concat (ph r s)) [0..<n])" by (simp add: program ph_def)
next
  fix r s show "length (ph r s) = 6" by (simp add: ph_def part_phases_def)
next
  fix r q s k assume a: "r < N" "q < N" "s < n"
  then show "count_list (concat (ph r s)) (Await q k) = count_list (concat (ph q s)) (Post r k)"
    using reading[of r q s] reading[of q r s] by (auto simp: concat_ph)
next
  fix r s p X q k Y assume a: "r < N" "s < n" "p < 6" "ph r s ! p = X @ Await q k # Y"
  have "p = 0 \<or> p = 1 \<or> p = 2 \<or> p = 3 \<or> p = 4 \<or> p = 5" using a(3) by linarith
  then consider "p = 1" "rx s r" "q = from s r" "k = SendDone" "X = []" | "p = 4" "tx s r" "q = to s r" "k = SendReady" "X = []"
    using a(4) mv_split[OF a(1,2), of X q k Y]
    by (auto simp: ph_def part_phases_def Cons_eq_append_conv numeral_eq_Suc split: if_splits)
  then show "q < N \<and> count_list (concat (take p (ph r s)) @ X) (Await q k) <
        count_list (concat (take p (ph q s))) (Post r k)"
  proof cases
    case 1
    then show ?thesis using partners(1)[OF a(1,2)] by (simp add: ph_def part_phases_def)
  next
    case 2
    then show ?thesis using partners(2)[OF a(1,2)] a(1,2)
      by (auto simp: ph_def part_phases_def numeral_eq_Suc)
  qed
qed

end

sublocale read_rounds \<subseteq> rr: stepwise_streams N n 6 ph P
  by (rule stepwise)

context read_rounds
begin

abbreviation "pre \<equiv> rr.pre"

lemma pre_split: "s \<le> s' \<Longrightarrow> pre r s' = pre r s @ concat (map (\<lambda>t. concat (ph r t)) [s..<s'])"
  unfolding rr.pre_def by (metis concat_append le_add1 le_add_diff_inverse map_append plus_nat.add_0 upt_add_eq_append)

lemma program_pre: "r < N \<Longrightarrow> P r = pre r n"
  using rr.program by (simp add: rr.pre_def)

lemma fold_ph [simp]: "fold (exec_action f) (concat (ph r s)) m = fold (exec_action f) (mv s r) m"
  by (simp add: concat_ph)

text \<open>The memory of a rank that has executed \<open>X\<close> of its round \<open>s\<close>.\<close>

abbreviation "within f m r s X \<equiv> fold (exec_action f) X (round_mem f mv m s) r"

lemma idle_rounds: "s \<le> s' \<Longrightarrow> concat (map (\<lambda>t. concat (ph r t)) [s..<s']) = [] \<Longrightarrow>
    round_mem f mv m s' r = round_mem f mv m s r"
proof (induction s')
  case (Suc s')
  show ?case
  proof (cases "s = Suc s'")
    case False
    then have "s \<le> s'" "concat (map (\<lambda>t. concat (ph r t)) [s..<s']) = []" "concat (ph r s') = []" using Suc.prems by auto
    moreover from this(3) have "mv s' r = []" by (simp add: concat_ph split: if_splits)
    ultimately show ?thesis using Suc.IH by simp
  qed simp
qed simp

lemma within_unique:
  assumes "s \<le> s'" "pre r s @ X = pre r s' @ X'" "concat (ph r s) = X @ Y"
  shows "within f m r s X = within f m r s' X'"
proof (cases "s = s'")
  case False
  let ?rest = "concat (map (\<lambda>t. concat (ph r t)) [Suc s..<s'])"
  have "pre r s' = pre r (Suc s) @ ?rest" by (rule pre_split) (use assms(1) False in simp)
  then have X: "X = X @ Y @ ?rest @ X'" using assms(2,3) by (simp add: rr.pre_Suc)
  then have e: "Y = []" "?rest = []" "X' = []" by simp_all
  have "within f m r s X = round_mem f mv m (Suc s) r" using assms(3) e fold_ph[of f r s "round_mem f mv m s"] by simp
  also have "\<dots> = round_mem f mv m s' r" by (rule idle_rounds[symmetric]) (use assms(1) False e in simp_all)
  finally show ?thesis using e by simp
qed (use assms in simp)

definition follows :: "('v \<Rightarrow> 'v \<Rightarrow> 'v) \<Rightarrow> 'v memory \<Rightarrow> 'v config \<Rightarrow> bool" where
  "follows f m c \<longleftrightarrow> tokens_ok N P c \<and> (\<forall>r<N. \<forall>s<n. \<forall>X Y. concat (ph r s) = X @ Y \<longrightarrow>
     past P c r = pre r s @ X \<longrightarrow> cf_mem c r = within f m r s X)"

lemma follows_start: "follows f m (start m)"
proof -
  have "m r = within f m r s X" if "[] = pre r s @ X" for r s X
    using that idle_rounds[of 0 s r f m] by (simp add: rr.pre_def)
  then show ?thesis by (simp add: follows_def tokens_start) (simp add: start_def)
qed

text \<open>While a rank is reading, its partner is in the same round: it has offered its memory and not yet got it back.\<close>

lemma partner_window:
  assumes tok: "tokens_ok N P c" and r: "r < N" "s < n" "rx s r" and q: "q = from s r"
    and X: "concat (ph r s) = X @ a # Y" "a \<in> set (mv s r)" "past P c r = pre r s @ X"
  shows "\<exists>X' Y'. past P c q = pre q s @ X' \<and> concat (ph q s) = X' @ Y'"
proof -
  have qN: "q < N" "tx s q" "to s q = r" using partners(1)[OF r] q by simp_all
  let ?h = "if tx s r then [Post (to s r) SendDone] else []" and ?t = "if tx s r then [Await (to s r) SendReady] else []"
  have a: "a \<noteq> Post u k" "a \<noteq> Await u k" for u k using X(2) mv_quiet[OF r(1,2)] by metis+
  have cr: "concat (ph r s) = ?h @ Await q SendDone # (mv s r @ Post q SendReady # ?t)"
    using r(3) q by (simp add: concat_ph)
  have "a \<notin> set ?h" using a by simp
  then obtain X2 where X2: "X = ?h @ Await q SendDone # X2" "mv s r @ Post q SendReady # ?t = X2 @ a # Y"
    using split_after[of ?h "Await q SendDone" _ X a Y] X(1) a(2)[of q SendDone] unfolding cr by metis
  have short: "length X2 < length (mv s r)"
  proof (rule ccontr)
    assume long: "\<not> length X2 < length (mv s r)"
    have "a = (mv s r @ Post q SendReady # ?t) ! length X2" using X2(2) by simp
    moreover have "length X2 < length (mv s r) + Suc (length ?t)" using arg_cong[OF X2(2), of length] by simp
    ultimately show False using long a(1)[of q SendReady] a(2)[of "to s r" SendReady]
      by (auto simp: nth_append nth_Cons split: nat.splits if_splits)
  qed
  have lr: "cf_pc c r = length (pre r s @ X)"
    using X(3) tok r(1) by (metis length_take min.absorb2 past_def tokens_ok_def)
  have cr': "concat (ph r s) = (?h @ Await q SendDone # mv s r) @ Post q SendReady # ?t" using cr by simp
  let ?z = "[Post r SendDone] @ (if rx s q then [Await (from s q) SendDone] else []) @ mv s q @
      (if rx s q then [Post (from s q) SendReady] else [])"
  have cq: "concat (ph q s) = [] @ Post r SendDone # (tl ?z @ [Await r SendReady])"
    "concat (ph q s) = ?z @ Await r SendReady # []"
    using qN by (simp_all add: concat_ph)
  have cX: "concat (ph r s) = ?h @ Await q SendDone # (X2 @ a # Y)" using X(1) X2(1) by simp
  have "length (pre r s @ ?h) < cf_pc c r" using lr X2(1) by simp
  then have started: "length (pre q s) < cf_pc c q"
    using rr.step_wait_passed[OF tok r(1) qN(1) r(2) cX _ cq(1)] by simp
  have waiting: "cf_pc c q \<le> length (pre q s @ ?z)"
  proof (rule ccontr)
    assume "\<not> ?thesis"
    then have "length (pre r s @ (?h @ Await q SendDone # mv s r)) < cf_pc c r"
      using rr.step_wait_passed[OF tok qN(1) r(1,2) cq(2) _ cr'] r(1,2) by simp
    then show False using lr X2(1) short by simp
  qed
  let ?k = "cf_pc c q - length (pre q s)"
  have "?k \<le> length (concat (ph q s))" using waiting unfolding cq(2) by simp
  then have "past P c q = pre q s @ take ?k (concat (ph q s))"
    using started unfolding past_def rr.program_at[OF qN(1) r(2)] by (simp del: concat_ph)
  then show ?thesis by (metis append_take_drop_id)
qed

lemma follows_step:
  assumes inv: "follows f m c" and st: "stream_step f N P c d"
  shows "follows f m d"
  using st
proof cases
  case (1 r)
  let ?a = "P r ! cf_pc c r"
  have tok: "tokens_ok N P c" and val: "\<And>q s X Y. q < N \<Longrightarrow> s < n \<Longrightarrow> concat (ph q s) = X @ Y \<Longrightarrow>
      past P c q = pre q s @ X \<Longrightarrow> cf_mem c q = within f m q s X"
    using inv by (auto simp: follows_def)
  obtain s X Y where s: "s < n" "concat (ph r s) = X @ ?a # Y" "past P c r = pre r s @ X"
    using concat_split[of "cf_pc c r" "map (\<lambda>s. concat (ph r s)) [0..<n]"] 1
    by (auto simp: rr.program[OF 1(2)] past_def rr.pre_def take_map)
  have local: "\<forall>p\<in>writes ?a. fst p = r"
  proof (cases "?a \<in> set (mv s r)")
    case True
    then show ?thesis using own_writes[OF 1(2) s(1)] by (simp add: local_action_def)
  next
    case False
    moreover have "?a \<in> set (concat (ph r s))" using s(2) by simp
    ultimately show ?thesis by (auto simp: concat_ph split: if_splits)
  qed
  have mem: "cf_mem d = exec_action f ?a (cf_mem c)" using 1(1) by (cases ?a) (simp_all add: take_action.simps)
  have other: "cf_mem d q = cf_mem c q" if "q \<noteq> r" for q
    using local that unfolding mem by (intro ext exec_not_written) force
  have before: "cf_mem c r = within f m r s X" by (rule val[OF 1(2) s])
  have seen: "cf_mem c q b x = fold (exec_action f) X (round_mem f mv m s) q b x" if "(q, b, x) \<in> reads ?a" for q b x
  proof (cases "q = r")
    case True
    then show ?thesis using before by simp
  next
    case False
    have "?a \<in> set (concat (ph r s))" using s(2) by simp
    then have a: "?a \<in> set (mv s r)" using that by (auto simp: concat_ph split: if_splits)
    then have q: "rx s r" "q = from s r" "\<forall>a'\<in>set (mv s q). (q, b, x) \<notin> writes a'"
      using partner_reads[OF 1(2) s(1) a that] False by auto
    have qN: "q < N" using partners(1)[OF 1(2) s(1) q(1)] q(2) by simp
    obtain X' Y' where X': "past P c q = pre q s @ X'" "concat (ph q s) = X' @ Y'"
      using partner_window[OF tok 1(2) s(1) q(1,2) s(2) a s(3)] by blast
    have quiet: "(q, b, x) \<notin> writes a'" if "a' \<in> set X'" for a'
    proof -
      have "a' \<in> set (concat (ph q s))" using that X'(2) by simp
      then show ?thesis using q(1,3) by (auto simp: concat_ph)
    qed
    have foreign: "(q, b, x) \<notin> writes a'" if "a' \<in> set X" for a'
    proof -
      have "a' \<in> set (concat (ph r s))" using that s(2) by simp
      then have "a' \<in> set (mv s r) \<or> writes a' = {}" using q(1) by (auto simp: concat_ph)
      then show ?thesis using own_writes[OF 1(2) s(1), of a'] False by (force simp: local_action_def)
    qed
    have "cf_mem c q b x = within f m q s X' b x" using val[OF qN s(1) X'(2,1)] by simp
    also have "\<dots> = round_mem f mv m s q b x" by (rule fold_not_written) (rule quiet)
    also have "\<dots> = within f m q s X b x" by (rule fold_not_written[symmetric]) (rule foreign)
    finally show ?thesis .
  qed
  have mine: "cf_mem d r = within f m r s (X @ [?a])"
    using exec_local[of ?a r "cf_mem c" "fold (exec_action f) X (round_mem f mv m s)" f] local before seen by (simp add: mem)
  show ?thesis unfolding follows_def
  proof (intro conjI allI impI)
    show "tokens_ok N P d" by (rule tokens_step[OF tok st])
    fix q s' X' Y' assume q: "q < N" "s' < n" "concat (ph q s') = X' @ Y'" "past P d q = pre q s' @ X'"
    show "cf_mem d q = within f m q s' X'"
    proof (cases "q = r")
      case False
      then show ?thesis using val[OF q(1,2,3)] q(4) other 1 by simp
    next
      case True
      then have "pre r s @ (X @ [?a]) = pre r s' @ X'" using q(4) s(3) 1 by simp
      then have "within f m r s (X @ [?a]) = within f m r s' X'"
        using within_unique[of s s' r "X @ [?a]" X' Y f m] within_unique[of s' s r X' "X @ [?a]" Y' f m] s(2) q(3) True
        by (cases "s \<le> s'") simp_all
      then show ?thesis using mine True by simp
    qed
  qed
qed

lemma follows_reach: "(stream_step f N P)\<^sup>*\<^sup>* (start m) c \<Longrightarrow> follows f m c"
  by (induction rule: rtranclp_induct) (simp_all add: follows_start follows_step)

text \<open>Every complete run ends in the memory of the execution round by round.\<close>

lemma final_memory:
  assumes "(stream_step f N P)\<^sup>*\<^sup>* (start m) c" "finished N P c" "r < N"
  shows "cf_mem c r = round_mem f mv m n r"
proof (cases n)
  case 0
  then have "past P c r = []" using assms(2,3) program_pre[of r] by (simp add: finished_def past_def rr.pre_def)
  have inert: "cf_mem c = m" using assms(1)
  proof (induction rule: rtranclp_induct)
    case (step d e)
    then show ?case using 0 program_pre by (auto simp: stream_step.simps rr.pre_def)
  qed (simp add: start_def)
  then show ?thesis using 0 by simp
next
  case (Suc k)
  have "past P c r = pre r k @ concat (ph r k)"
    using assms(2,3) program_pre[of r] Suc by (simp add: finished_def past_def rr.pre_Suc)
  then have "cf_mem c r = within f m r k (concat (ph r k))"
    using follows_reach[OF assms(1), unfolded follows_def, THEN conjunct2, rule_format, OF assms(3), of k "concat (ph r k)" "[]"] Suc
    by simp
  then show ?thesis using Suc by simp
qed

end

lemma read_rounds_none: "read_rounds 0 n fr to tx rx mv P"
  by unfold_locales simp_all

lemma read_rounds_or_none:
  assumes "b \<Longrightarrow> read_rounds N n fr to tx rx mv P"
  shows "read_rounds (if b then N else 0) n fr to tx rx mv P"
  using assms read_rounds_none by (cases b) simp_all

text \<open>Programs in rounds one after the other.\<close>

lemma read_rounds_append:
  assumes A: "read_rounds N n fa ta xa ya ma Pa" and B: "read_rounds N k fb tb xb yb mb Pb"
    and eqs: "\<And>s. s < n \<Longrightarrow> f s = fa s \<and> t s = ta s \<and> tx s = xa s \<and> rx s = ya s \<and> mv s = ma s"
      "\<And>s. s < k \<Longrightarrow> f (n + s) = fb s \<and> t (n + s) = tb s \<and> tx (n + s) = xb s \<and> rx (n + s) = yb s \<and> mv (n + s) = mb s"
      "\<And>r. r < N \<Longrightarrow> P r = Pa r @ Pb r"
  shows "read_rounds N (n + k) f t tx rx mv P"
proof -
  have split: "s < n + k \<Longrightarrow> s < n \<or> (\<exists>s'<k. s = n + s')" for s by presburger
  show ?thesis
  proof
    fix r s q a b x
    show "r < N \<Longrightarrow> s < n + k \<Longrightarrow> rx s r \<Longrightarrow> f s r < N \<and> tx s (f s r) \<and> t s (f s r) = r"
      using split[of s] eqs(1)[of s] eqs(2) read_rounds.partners(1)[OF A] read_rounds.partners(1)[OF B] by metis
    show "r < N \<Longrightarrow> s < n + k \<Longrightarrow> tx s r \<Longrightarrow> t s r < N \<and> rx s (t s r) \<and> f s (t s r) = r"
      using split[of s] eqs(1)[of s] eqs(2) read_rounds.partners(2)[OF A] read_rounds.partners(2)[OF B] by metis
    show "r < N \<Longrightarrow> s < n + k \<Longrightarrow> a \<in> set (mv s r) \<Longrightarrow> local_action r a"
      using split[of s] eqs(1)[of s] eqs(2) read_rounds.own_writes[OF A] read_rounds.own_writes[OF B] by metis
    assume p: "r < N" "s < n + k" "a \<in> set (mv s r)" "(q, b, x) \<in> reads a"
    from split[OF p(2)] show "q = r \<or> rx s r \<and> q = f s r \<and> (\<forall>a'\<in>set (mv s q). (q, b, x) \<notin> writes a')"
    proof
      assume s: "s < n"
      have "mv s = ma s" "f s = fa s" "rx s = ya s" using eqs(1)[OF s] by simp_all
      then show ?thesis using read_rounds.partner_reads[OF A p(1) s _ p(4)] p(3) by simp
    next
      assume "\<exists>s'<k. s = n + s'"
      then obtain s' where s: "s' < k" "s = n + s'" by blast
      have "mv s = mb s'" "f s = fb s'" "rx s = yb s'" using eqs(2)[OF s(1)] s(2) by simp_all
      then show ?thesis using read_rounds.partner_reads[OF B p(1) s(1) _ p(4)] p(3) by simp
    qed
  next
    fix r assume r: "r < N"
    let ?F = "\<lambda>s. concat (part_phases (tx s r) (rx s r) (t s r) (f s r) (mv s r))"
    have "Pa r = concat (map ?F [0..<n])"
      using read_rounds.program[OF A r] eqs(1) by (auto intro!: arg_cong[where f = concat])
    moreover have "Pb r = concat (map (\<lambda>s. ?F (n + s)) [0..<k])"
      using read_rounds.program[OF B r] eqs(2) by (auto intro!: arg_cong[where f = concat])
    moreover have "map (\<lambda>s. ?F (n + s)) [0..<k] = map ?F [n..<n + k]"
    proof -
      have "[n..<n + k] = map (\<lambda>s. n + s) [0..<k]" using map_add_upt[of n k] by (simp add: add.commute)
      then show ?thesis by (simp only: map_map o_def)
    qed
    ultimately have "P r = concat (map ?F [0..<n] @ map ?F [n..<n + k])"
      by (simp only: eqs(3)[OF r] concat_append)
    also have "map ?F [0..<n] @ map ?F [n..<n + k] = map ?F [0..<n + k]"
      unfolding map_append[symmetric] using upt_add_eq_append[of 0 n k] by (simp only: le0 simp_thms)
    finally show "P r = concat (map ?F [0..<n + k])" .
  qed
qed

lemma round_mem_cong: "(\<And>s. s < n \<Longrightarrow> mv s = mv' s) \<Longrightarrow> round_mem f mv m n = round_mem f mv' m n"
  by (induction n) simp_all

lemma round_mem_append: "round_mem f mv m (n + k) = round_mem f (\<lambda>s. mv (n + s)) (round_mem f mv m n) k"
  by (induction k) simp_all

end
