(* ===== verification/SliceRounds.thy ===== *)
theory SliceRounds
  imports Rounds NhrBase "HOL-Library.Multiset"
begin

text \<open>
  What a list of copies or reductions of slices does to a memory, and why merging the slices
  first does not change it: merging keeps how often a byte is named.
\<close>

section \<open>How often a byte is named\<close>

definition hits :: "Slice list \<Rightarrow> nat \<Rightarrow> nat" where
  "hits ss x = length (filter (\<lambda>s. x \<in> slice_bytes s) ss)"

lemma hits_simps [simp]: "hits [] x = 0"
  "hits (s # ss) x = (if x \<in> slice_bytes s then 1 else 0) + hits ss x"
  "hits (as @ bs) x = hits as x + hits bs x"
  by (simp_all add: hits_def)

lemma hits_cover: "0 < hits ss x \<longleftrightarrow> x \<in> cover ss"
  by (induction ss) auto

lemma hits_mset: "mset ss = mset ts \<Longrightarrow> hits ss x = hits ts x"
  unfolding hits_def by (metis mset_filter size_mset)

lemma hits_concat: "hits (concat sss) x = sum_list (map (\<lambda>ss. hits ss x) sss)"
  by (induction sss) simp_all

definition disjoint_slices :: "Slice list \<Rightarrow> bool" where
  "disjoint_slices ss \<longleftrightarrow> (\<forall>i<length ss. \<forall>j<length ss. i \<noteq> j \<longrightarrow> slice_bytes (ss ! i) \<inter> slice_bytes (ss ! j) = {})"

lemma disjoint_slices_Cons:
  "disjoint_slices (s # ss) \<longleftrightarrow> slice_bytes s \<inter> cover ss = {} \<and> disjoint_slices ss"
proof
  assume a: "disjoint_slices (s # ss)"
  have "slice_bytes s \<inter> slice_bytes (ss ! j) = {}" if "j < length ss" for j
    using a[unfolded disjoint_slices_def, rule_format, of 0 "Suc j"] that by simp
  then have "slice_bytes s \<inter> cover ss = {}" unfolding cover_def by (fastforce simp: in_set_conv_nth)
  moreover have "slice_bytes (ss ! i) \<inter> slice_bytes (ss ! j) = {}" if "i < length ss" "j < length ss" "i \<noteq> j" for i j
    using a[unfolded disjoint_slices_def, rule_format, of "Suc i" "Suc j"] that by simp
  ultimately show "slice_bytes s \<inter> cover ss = {} \<and> disjoint_slices ss" by (simp add: disjoint_slices_def)
next
  assume a: "slice_bytes s \<inter> cover ss = {} \<and> disjoint_slices ss"
  then have "slice_bytes s \<inter> slice_bytes (ss ! j) = {}" if "j < length ss" for j
    using that nth_mem[of j ss] unfolding cover_def by blast
  then show "disjoint_slices (s # ss)"
    using a by (auto simp: disjoint_slices_def nth_Cons Int_commute split: nat.splits)
qed

lemma disjoint_slices_hits: "disjoint_slices ss \<Longrightarrow> hits ss x \<le> 1"
proof (induction ss)
  case (Cons s ss)
  then have d: "slice_bytes s \<inter> cover ss = {}" "hits ss x \<le> 1" by (simp_all add: disjoint_slices_Cons)
  show ?case
  proof (cases "x \<in> slice_bytes s")
    case True
    then have "\<not> 0 < hits ss x" using d(1) by (auto simp: hits_cover)
    then show ?thesis using True by simp
  qed (use d in simp)
qed simp

lemma merge_loop_hits:
  assumes "\<forall>s\<in>set ss. slice_in S s" "unat off + unat sz \<le> S" "S < 2 ^ 64"
  shows "hits (merge_loop off sz ss) x = (if x \<in> bytes off sz then 1 else 0) + hits ss x"
  using assms(1,2)
proof (induction off sz ss rule: merge_loop.induct)
  case (1 off sz)
  then show ?case by (simp add: slice_bytes_def)
next
  case (2 off sz s ss)
  show ?case
  proof (cases "off + sz = sl_offset s")
    case True
    have o: "unat (off + sz) = unat off + unat sz" using 2(4) assms(3) by (simp add: unat_word_ariths)
    then have le: "unat off + unat sz + unat (sl_size s) \<le> S" using 2(3) True by (simp add: slice_in_def)
    then have s: "unat (sz + sl_size s) = unat sz + unat (sl_size s)" using assms(3) by (simp add: unat_word_ariths)
    have "(if x \<in> bytes off (sz + sl_size s) then 1 else 0) =
        (if x \<in> bytes off sz then 1 else 0) + (if x \<in> slice_bytes s then 1 else (0::nat))"
      using s o True by (auto simp: bytes_def slice_bytes_def)
    then show ?thesis using 2(1)[OF True] 2(3) s le True by simp
  next
    case False
    then show ?thesis using 2(2)[OF False] 2(3,4) by (auto simp: slice_bytes_def slice_in_def)
  qed
qed

text \<open>The sizes of merged slices stay multiples of the size of an element.\<close>

lemma merge_loop_dvd:
  assumes "\<forall>s\<in>set ss. slice_in S s \<and> u dvd unat (sl_size s)" "unat off + unat sz \<le> S" "S < 2 ^ 64" "u dvd unat sz"
  shows "\<forall>s\<in>set (merge_loop off sz ss). u dvd unat (sl_size s)"
  using assms(1,2,4)
proof (induction off sz ss rule: merge_loop.induct)
  case (2 off sz s ss)
  show ?case
  proof (cases "off + sz = sl_offset s")
    case True
    have o: "unat (off + sz) = unat off + unat sz" using 2(4) assms(3) by (simp add: unat_word_ariths)
    then have le: "unat off + unat sz + unat (sl_size s) \<le> S" using 2(3) True by (simp add: slice_in_def)
    then have s: "unat (sz + sl_size s) = unat sz + unat (sl_size s)" using assms(3) by (simp add: unat_word_ariths)
    then show ?thesis using 2(1)[OF True] 2(3,5) le True by simp
  next
    case False
    then show ?thesis using 2(2)[OF False] 2(3,5) by (simp add: slice_in_def)
  qed
qed simp

lemma MergeSlices_hits:
  assumes "\<forall>s\<in>set ss. slice_in S s" "S < 2 ^ 64"
  shows "hits (MergeSlices b ss) x = hits ss x"
proof -
  let ?k = "\<lambda>s. (unat (sl_offset s), unat (sl_size s))"
  have m: "hits (sort_key ?k ss) x = hits ss x" by (rule hits_mset) simp
  show ?thesis
  proof (cases "sort_key ?k ss")
    case Nil
    then have "ss = []" by (metis length_0_conv length_sort)
    then show ?thesis by (simp add: MergeSlices_def)
  next
    case (Cons s ts)
    then have "set ss = insert s (set ts)" by (metis list.simps(15) set_sort)
    then show ?thesis
      using merge_loop_hits[of ts S "sl_offset s" "sl_size s" x] assms Cons m
      by (auto simp: MergeSlices_def slice_bytes_def slice_in_def)
  qed
qed

lemma MergeSlices_dvd:
  assumes "\<forall>s\<in>set ss. slice_in S s \<and> u dvd unat (sl_size s)" "S < 2 ^ 64"
  shows "\<forall>s\<in>set (MergeSlices b ss). u dvd unat (sl_size s)"
proof -
  let ?k = "\<lambda>s. (unat (sl_offset s), unat (sl_size s))"
  show ?thesis
  proof (cases "sort_key ?k ss")
    case (Cons s ts)
    then have "set ss = insert s (set ts)" by (metis list.simps(15) set_sort)
    then show ?thesis
      using merge_loop_dvd[of ts S u "sl_offset s" "sl_size s"] assms Cons by (auto simp: MergeSlices_def slice_in_def)
  qed (use assms in \<open>auto simp: MergeSlices_def\<close>)
qed

section \<open>Copies and reductions of slices\<close>

text \<open>From buffer \<open>c\<close> of rank \<open>q\<close> at \<open>e\<close> to buffer \<open>b\<close> of rank \<open>r\<close> at \<open>d\<close>.\<close>

definition slice_copy :: "nat \<times> UserMemType \<times> nat \<Rightarrow> nat \<times> UserMemType \<times> nat \<Rightarrow> Slice \<Rightarrow> action" where
  "slice_copy = (\<lambda>(r, b, d) (q, c, e) s.
     Move (r, b, d + unat (sl_offset s)) (q, c, e + unat (sl_offset s)) (unat (sl_size s)))"

definition slice_reduce :: "nat \<times> UserMemType \<times> nat \<Rightarrow> nat \<times> UserMemType \<times> nat \<Rightarrow> Slice \<Rightarrow> action" where
  "slice_reduce = (\<lambda>(r, b, d) (q, c, e) s.
     Combine (r, b, d + unat (sl_offset s)) (q, c, e + unat (sl_offset s)) (unat (sl_size s)))"

lemma slice_bytes_iff: "x \<in> slice_bytes s \<longleftrightarrow> unat (sl_offset s) \<le> x \<and> x < unat (sl_offset s) + unat (sl_size s)"
  by (simp add: slice_bytes_def bytes_def)

lemma writes_slice [simp]:
  "p \<in> writes (slice_copy (r, b, d) src s) \<longleftrightarrow> (\<exists>x\<in>slice_bytes s. p = (r, b, d + x))"
  "p \<in> writes (slice_reduce (r, b, d) src s) \<longleftrightarrow> (\<exists>x\<in>slice_bytes s. p = (r, b, d + x))"
proof -
  obtain q c e where src: "src = (q, c, e)" by (cases src) auto
  have "(\<exists>a. p = (r, b, a) \<and> d + unat (sl_offset s) \<le> a \<and> a < d + unat (sl_offset s) + unat (sl_size s)) \<longleftrightarrow>
      (\<exists>x\<in>slice_bytes s. p = (r, b, d + x))" (is "?l \<longleftrightarrow> ?r")
  proof
    assume ?l
    then obtain a where "p = (r, b, a)" "d + unat (sl_offset s) \<le> a" "a < d + unat (sl_offset s) + unat (sl_size s)" by blast
    then show ?r by (intro bexI[of _ "a - d"]) (auto simp: slice_bytes_iff)
  qed (auto simp: slice_bytes_iff)
  then show "p \<in> writes (slice_copy (r, b, d) src s) \<longleftrightarrow> (\<exists>x\<in>slice_bytes s. p = (r, b, d + x))"
    "p \<in> writes (slice_reduce (r, b, d) src s) \<longleftrightarrow> (\<exists>x\<in>slice_bytes s. p = (r, b, d + x))"
    by (simp_all add: slice_copy_def slice_reduce_def src)
qed

lemma reads_slice [simp]:
  "p \<in> reads (slice_copy dst (q, c, e) s) \<longleftrightarrow> (\<exists>x\<in>slice_bytes s. p = (q, c, e + x))"
  "p \<in> reads (slice_reduce dst (q, c, e) s) \<longleftrightarrow> (\<exists>x\<in>slice_bytes s. p = (q, c, e + x))"
proof -
  obtain r b d where dst: "dst = (r, b, d)" by (cases dst) auto
  have "(\<exists>a. p = (q, c, a) \<and> e + unat (sl_offset s) \<le> a \<and> a < e + unat (sl_offset s) + unat (sl_size s)) \<longleftrightarrow>
      (\<exists>x\<in>slice_bytes s. p = (q, c, e + x))" (is "?l \<longleftrightarrow> ?r")
  proof
    assume ?l
    then obtain a where "p = (q, c, a)" "e + unat (sl_offset s) \<le> a" "a < e + unat (sl_offset s) + unat (sl_size s)" by blast
    then show ?r by (intro bexI[of _ "a - e"]) (auto simp: slice_bytes_iff)
  qed (auto simp: slice_bytes_iff)
  then show "p \<in> reads (slice_copy dst (q, c, e) s) \<longleftrightarrow> (\<exists>x\<in>slice_bytes s. p = (q, c, e + x))"
    "p \<in> reads (slice_reduce dst (q, c, e) s) \<longleftrightarrow> (\<exists>x\<in>slice_bytes s. p = (q, c, e + x))"
    by (simp_all add: slice_copy_def slice_reduce_def dst)
qed

lemma exec_slice_copy: "exec_action f (slice_copy (r, b, d) (q, c, e) s) m r b (d + x) =
    (if x \<in> slice_bytes s then m q c (e + x) else m r b (d + x))"
  by (auto simp: slice_copy_def slice_bytes_iff intro!: arg_cong2[where f = "m q"])

lemma exec_slice_reduce: "exec_action f (slice_reduce (r, b, d) (q, c, e) s) m r b (d + x) =
    (if x \<in> slice_bytes s then f (m r b (d + x)) (m q c (e + x)) else m r b (d + x))"
  by (auto simp: slice_reduce_def slice_bytes_iff intro!: arg_cong2[where f = f] arg_cong2[where f = "m q"])

lemma exec_elsewhere:
  "(q', b') \<noteq> (r, b) \<Longrightarrow> exec_action f (slice_copy (r, b, d) src s) m q' b' = m q' b'"
  "(q', b') \<noteq> (r, b) \<Longrightarrow> exec_action f (slice_reduce (r, b, d) src s) m q' b' = m q' b'"
  by (intro ext exec_not_written; auto)+

lemma fold_elsewhere:
  "(q', b') \<noteq> (r, b) \<Longrightarrow> fold (exec_action f) (map (slice_copy (r, b, d) src) ss) m q' b' = m q' b'"
  "(q', b') \<noteq> (r, b) \<Longrightarrow> fold (exec_action f) (map (slice_reduce (r, b, d) src) ss) m q' b' = m q' b'"
  by (induction ss arbitrary: m) (simp_all add: exec_elsewhere)

lemma fold_slice_copy:
  assumes "(q, c) \<noteq> (r, b)"
  shows "fold (exec_action f) (map (slice_copy (r, b, d) (q, c, e)) ss) m r b (d + x) =
    (if x \<in> cover ss then m q c (e + x) else m r b (d + x))"
proof (induction ss arbitrary: m)
  case (Cons s ss)
  then show ?case by (simp add: exec_slice_copy exec_elsewhere[OF assms])
qed simp

lemma fold_slice_reduce:
  assumes "(q, c) \<noteq> (r, b)" "hits ss x \<le> 1"
  shows "fold (exec_action f) (map (slice_reduce (r, b, d) (q, c, e)) ss) m r b (d + x) =
    (if x \<in> cover ss then f (m r b (d + x)) (m q c (e + x)) else m r b (d + x))"
  using assms(2)
proof (induction ss arbitrary: m)
  case (Cons s ss)
  have once: "x \<in> slice_bytes s \<Longrightarrow> x \<notin> cover ss" using Cons.prems hits_cover[of ss x] by auto
  have "hits ss x \<le> 1" using Cons.prems by (auto split: if_splits)
  then show ?case using Cons.IH[of "exec_action f (slice_reduce (r, b, d) (q, c, e) s) m"] once
    by (auto simp: exec_slice_reduce exec_elsewhere[OF assms(1)])
qed simp

end
