(* ===== verification/ReduceSchedule.thy ===== *)
theory ReduceSchedule
  imports ReduceScatter SliceRounds Schedules GatherProof
begin

text \<open>
  The rounds of ReduceScatter: they are those of AllGather in the opposite order with the
  directions exchanged, so what a rank receives and reduces in a round is what it would send
  there. Reducing along them gives the reduction of all ranks' values, in their cyclic order.
\<close>

section \<open>Reducing a list\<close>

fun reduce_all :: "('v \<Rightarrow> 'v \<Rightarrow> 'v) \<Rightarrow> 'v list \<Rightarrow> 'v" where
  "reduce_all f [] = undefined"
| "reduce_all f [x] = x"
| "reduce_all f (x # y # ys) = f x (reduce_all f (y # ys))"

definition associative :: "('v \<Rightarrow> 'v \<Rightarrow> 'v) \<Rightarrow> bool" where
  "associative f \<longleftrightarrow> (\<forall>x y z. f (f x y) z = f x (f y z))"

lemma reduce_all_append:
  "associative f \<Longrightarrow> xs \<noteq> [] \<Longrightarrow> ys \<noteq> [] \<Longrightarrow> reduce_all f (xs @ ys) = f (reduce_all f xs) (reduce_all f ys)"
proof (induction f xs rule: reduce_all.induct)
  case (2 f x)
  then show ?case by (cases ys) simp_all
qed (simp_all add: associative_def)

lemma reduce_all_sum: "xs \<noteq> [] \<Longrightarrow> reduce_all (+) xs = (sum_list xs :: 'a :: comm_monoid_add)"
proof -
  have "xs \<noteq> [] \<Longrightarrow> f = (+) \<Longrightarrow> reduce_all f xs = sum_list xs" for f and xs :: "'a list"
    by (induction f xs rule: reduce_all.induct) simp_all
  then show "xs \<noteq> [] \<Longrightarrow> reduce_all (+) xs = (sum_list xs :: 'a)" by blast
qed

section \<open>The rounds\<close>

text \<open>Round \<open>s\<close> of ReduceScatter mirrors this round of AllGather.\<close>

definition mirror :: "nat \<Rightarrow> nat \<Rightarrow> nat" where
  "mirror N s = GetStepNumInterServer N - 1 - s"

definition rs_rx :: "nat \<Rightarrow> nat \<Rightarrow> nat \<Rightarrow> nat list" where
  "rs_rx N s r = map (\<lambda>i. bwd N r (i * (2 * 2 ^ s))) [0..<nhr_count N (mirror N s)]"

lemma mirror_delta: "s < GetStepNumInterServer N \<Longrightarrow> nhr_delta N (mirror N s) = 2 ^ s"
  by (simp add: nhr_delta_def mirror_def)

lemma rs_delta_less: "2 \<le> N \<Longrightarrow> N \<le> 2 ^ 31 \<Longrightarrow> s < GetStepNumInterServer N \<Longrightarrow> 2 ^ s < N"
  using nhr_delta_less[of N "mirror N s"] by (simp add: mirror_delta)

lemma rs_count_less:
  "2 \<le> N \<Longrightarrow> N \<le> 2 ^ 31 \<Longrightarrow> s < GetStepNumInterServer N \<Longrightarrow>
    i < nhr_count N (mirror N s) \<longleftrightarrow> 2 ^ s + i * (2 * 2 ^ s) < N"
  using nhr_count_less[of N i "mirror N s"] by (simp add: mirror_delta)

lemma rs_rx_nhr:
  "2 \<le> N \<Longrightarrow> N \<le> 2 ^ 31 \<Longrightarrow> r < N \<Longrightarrow> s < GetStepNumInterServer N \<Longrightarrow>
    rs_rx N s r = nhr_rx N (mirror N s) (fwd N r (2 ^ s))"
  using nhr_tx_rx[of N r "mirror N s"] by (simp add: rs_rx_def mirror_delta)

lemma bwd_inj: "r < N \<Longrightarrow> x < N \<Longrightarrow> y < N \<Longrightarrow> bwd N r x = bwd N r y \<Longrightarrow> x = y"
proof -
  assume a: "r < N" "x < N" "y < N" "bwd N r x = bwd N r y"
  have *: "bwd N r z = (if z \<le> r then r - z else r + N - z)" if "z < N" for z
  proof (cases "z \<le> r")
    case True
    then have "r + (N - z) = (r - z) + N" using that by linarith
    then have "bwd N r z = ((r - z) + N) mod N" by (simp only: bwd_def)
    also have "\<dots> = r - z" using a(1) by (simp only: mod_add_self2) simp
    finally show ?thesis using True by simp
  next
    case False
    then have "r + (N - z) = r + N - z" "r + N - z < N" using that by linarith+
    then show ?thesis using False by (simp add: bwd_def)
  qed
  show ?thesis using a *[of x] *[of y] by (simp split: if_splits)
qed

lemma rs_rx_mem:
  assumes N: "2 \<le> N" "N \<le> 2 ^ 31" and r: "r < N" and s: "s < GetStepNumInterServer N" and j: "j < N"
  shows "bwd N r j \<in> set (rs_rx N s r) \<longleftrightarrow> 2 * 2 ^ s dvd j \<and> j + 2 ^ s < N"
proof
  assume "bwd N r j \<in> set (rs_rx N s r)"
  then obtain i where i: "bwd N r j = bwd N r (i * (2 * 2 ^ s))" "2 ^ s + i * (2 * 2 ^ s) < N"
    using rs_count_less[OF N s] by (auto simp: rs_rx_def)
  then have "j = i * (2 * 2 ^ s)" using bwd_inj[OF r j, of "i * (2 * 2 ^ s)"] by simp
  then show "2 * 2 ^ s dvd j \<and> j + 2 ^ s < N" using i(2) by simp
next
  assume a: "2 * 2 ^ s dvd j \<and> j + 2 ^ s < N"
  then obtain i where i: "j = i * (2 * 2 ^ s)" by (metis dvd_def mult.commute)
  then have "i < nhr_count N (mirror N s)" using rs_count_less[OF N s, of i] a by simp
  then show "bwd N r j \<in> set (rs_rx N s r)" using i by (auto simp: rs_rx_def)
qed

lemma nhr_rx_distinct:
  assumes N: "2 \<le> N" "N \<le> 2 ^ 31" and r: "r < N"
  shows "distinct (nhr_rx N s r)"
proof -
  have "inj_on (\<lambda>i. bwd N r (nhr_delta N s + i * (2 * nhr_delta N s))) {0..<nhr_count N s}"
  proof (rule inj_onI)
    fix i j assume a: "i \<in> {0..<nhr_count N s}" "j \<in> {0..<nhr_count N s}"
      "bwd N r (nhr_delta N s + i * (2 * nhr_delta N s)) = bwd N r (nhr_delta N s + j * (2 * nhr_delta N s))"
    have "nhr_delta N s + i * (2 * nhr_delta N s) < N" "nhr_delta N s + j * (2 * nhr_delta N s) < N"
      using nhr_count_less[OF N, of i s] nhr_count_less[OF N, of j s] a(1,2) by (simp_all only: atLeastLessThan_iff)
    then have "nhr_delta N s + i * (2 * nhr_delta N s) = nhr_delta N s + j * (2 * nhr_delta N s)"
      by (rule bwd_inj[OF r _ _ a(3)])
    then have "i * (2 * nhr_delta N s) = j * (2 * nhr_delta N s)" by (rule add_left_imp_eq)
    then have "2 * nhr_delta N s = 0 \<or> i = j" by (simp only: mult_cancel2) blast
    then show "i = j" by (simp add: nhr_delta_def)
  qed
  then show ?thesis by (simp add: nhr_rx_def distinct_map)
qed

text \<open>In AllGather a rank does not receive in a round what its partner receives then; so neither in ReduceScatter.\<close>

lemma odd_multiple: "0 < (d::nat) \<Longrightarrow> i * (2 * d) \<noteq> d + j * (2 * d)"
proof
  assume d: "0 < d" and e: "i * (2 * d) = d + j * (2 * d)"
  have "d * (2 * i) = d * (2 * j + 1)" using e by (simp add: algebra_simps)
  then have "2 * i = 2 * j + 1" using d by (simp only: mult_cancel1) simp
  then show False by presburger
qed

lemma nhr_rx_apart:
  assumes N: "2 \<le> N" "N \<le> 2 ^ 31" and r: "r < N"
  shows "set (nhr_rx N s r) \<inter> set (nhr_rx N s (bwd N r (nhr_delta N s))) = {}"
proof (rule ccontr)
  let ?d = "nhr_delta N s" and ?q = "bwd N r (nhr_delta N s)"
  have d: "?d < N" "0 < ?d" using nhr_delta_less[OF N, of s] by (simp_all add: nhr_delta_def)
  have q: "?q < N" using N by simp
  assume "\<not> ?thesis"
  then obtain l where "l \<in> set (nhr_rx N s r)" "l \<in> set (nhr_rx N s ?q)" by blast
  then obtain i j where i: "l = bwd N r (?d + i * (2 * ?d))" "?d + i * (2 * ?d) < N"
    and j: "l = bwd N ?q (?d + j * (2 * ?d))" "?d + j * (2 * ?d) < N"
    unfolding nhr_rx_set[OF N] by blast
  have "bwd N ?q (i * (2 * ?d)) = bwd N ?q (?d + j * (2 * ?d))"
    using i j(1) bwd_bwd[of ?d "i * (2 * ?d)" N r] by simp
  moreover have "i * (2 * ?d) < N" using i(2) by linarith
  ultimately have "i * (2 * ?d) = ?d + j * (2 * ?d)" using bwd_inj[OF q _ j(2)] by blast
  then show False using odd_multiple[OF d(2)] by blast
qed

lemma rs_rx_apart:
  assumes N: "2 \<le> N" "N \<le> 2 ^ 31" and r: "r < N" and s: "s < GetStepNumInterServer N"
  shows "set (rs_rx N s r) \<inter> set (rs_rx N s (fwd N r (2 ^ s))) = {}"
proof -
  let ?q = "fwd N r (2 ^ s)"
  have d: "2 ^ s < N" by (rule rs_delta_less[OF N s])
  have q: "?q < N" "fwd N ?q (2 ^ s) < N" using N by simp_all
  have "bwd N (fwd N ?q (2 ^ s)) (2 ^ s) = ?q" using bwd_fwd[OF q(1), of "2 ^ s"] d by simp
  then show ?thesis
    using nhr_rx_apart[OF N q(2), of "mirror N s"] rs_rx_nhr[OF N r s] rs_rx_nhr[OF N q(1) s]
    by (simp add: mirror_delta[OF s] Int_commute)
qed

text \<open>What the code computes for a round.\<close>

lemma rs_info:
  assumes N: "2 \<le> N" "N \<le> 2 ^ 31" and r: "r < N" and s: "s < GetStepNumInterServer N"
  shows "ReduceScatterNHR_GetStepInfo t s r N =
     (let k = w32 (length (at_slices t) div N) in
      \<lparr>st_step = s, st_myRank = r, st_nSlices = w32 (nhr_count N (mirror N s) * k),
       st_toRank = bwd N r (2 ^ s), st_fromRank = fwd N r (2 ^ s),
       st_txSliceIdxs = slice_idxs (nb_sliceMap t) k (rs_rx N s (bwd N r (2 ^ s))),
       st_rxSliceIdxs = slice_idxs (nb_sliceMap t) k (rs_rx N s r)\<rparr>)"
proof -
  let ?m = "mirror N s"
  have d: "2 ^ s < N" by (rule rs_delta_less[OF N s])
  have one: "sub32 N 1 = N - 1" by (rule sub32_id) (use N in simp_all)
  have "w32 (N - 1 + 2 ^ s) = N - 1 + 2 ^ s" by (rule w32_id) (use N d in simp)
  then have cnt: "w32 (sub32 N 1 + 2 ^ s) div 2 ^ (s + 1) = nhr_count N ?m"
    by (simp only: one nhr_count_def mirror_delta[OF s]) simp
  have codes: "sub32 (w32 (r + N)) (2 ^ s) mod N = bwd N r (2 ^ s)" "w32 (r + 2 ^ s) mod N = fwd N r (2 ^ s)"
    using from_code[OF r N(2), of "2 ^ s"] to_code[OF r N(2), of "2 ^ s"] d by simp_all
  have steps: "nhr_count N ?m \<le> 1 \<or> (nhr_count N ?m - 1) * (2 * 2 ^ s) \<le> N"
    using nhr_count_steps[OF N, of ?m] by (simp add: mirror_delta[OF s])
  have rx: "step_ranks N (2 ^ (s + 1)) (nhr_count N ?m) q = rs_rx N s q" if "q < N" for q
    using step_ranks_bwd[OF steps that N(2)] by (simp add: rs_rx_def)
  have "bwd N r (2 ^ s) < N" using N by simp
  then show ?thesis
    unfolding ReduceScatterNHR_GetStepInfo_def Let_def cnt codes using rx[OF r] rx by simp
qed

section \<open>Reducing along the rounds\<close>

text \<open>
  \<open>A s r\<close> is what rank \<open>r\<close> holds of part \<open>l\<close> before round \<open>s\<close>: if in every round the ranks that
  receive \<open>l\<close> reduce their partner's value into theirs, and the others keep theirs, rank \<open>l\<close> ends
  with the reduction of all values.
\<close>

lemma fwd_fwd: "fwd N (fwd N l x) y = fwd N l (x + y)"
  by (simp add: fwd_def mod_add_left_eq add.assoc)

lemma reduced_along:
  assumes N: "2 \<le> N" "N \<le> 2 ^ 31" and l: "l < N" and f: "associative f"
    and step: "\<And>s r. s < GetStepNumInterServer N \<Longrightarrow> r < N \<Longrightarrow>
      A (Suc s) r = (if l \<in> set (rs_rx N s r) then f (A s r) (A s (fwd N r (2 ^ s))) else A s r)"
  shows "A (GetStepNumInterServer N) l = reduce_all f (map (\<lambda>j. A 0 (fwd N l j)) [0..<N])"
proof -
  let ?g = "\<lambda>j. A 0 (fwd N l j)" and ?n = "GetStepNumInterServer N"
  have "s \<le> ?n \<Longrightarrow> j < N \<Longrightarrow> 2 ^ s dvd j \<Longrightarrow> A s (fwd N l j) = reduce_all f (map ?g [j..<min (j + 2 ^ s) N])" for s j
  proof (induction s arbitrary: j)
    case 0
    then show ?case using N by (simp add: min_def)
  next
    case (Suc s)
    let ?r = "fwd N l j"
    have s: "s < ?n" using Suc.prems by simp
    have r: "?r < N" using N by simp
    have even: "2 * 2 ^ s dvd j" "2 ^ s dvd j" using Suc.prems(3) by (auto dest: dvd_mult_right)
    have "bwd N ?r j = l" by (rule bwd_fwd[OF l]) (use Suc.prems in simp)
    then have rx: "l \<in> set (rs_rx N s ?r) \<longleftrightarrow> j + 2 ^ s < N"
      using rs_rx_mem[OF N r s Suc.prems(2)] even(1) by simp
    show ?case
    proof (cases "j + 2 ^ s < N")
      case True
      have mine: "A s ?r = reduce_all f (map ?g [j..<j + 2 ^ s])"
        using Suc.IH[of j] s even(2) Suc.prems(2) True by (simp add: min_def)
      have his: "A s (fwd N ?r (2 ^ s)) = reduce_all f (map ?g [j + 2 ^ s..<min (j + 2 ^ s + 2 ^ s) N])"
        using Suc.IH[of "j + 2 ^ s"] s even(2) True by (simp add: fwd_fwd)
      have "[j..<min (j + 2 ^ Suc s) N] = [j..<j + 2 ^ s] @ [j + 2 ^ s..<min (j + 2 ^ s + 2 ^ s) N]"
        using True upt_add_eq_append[of j "j + 2 ^ s" "min (j + 2 ^ s + 2 ^ s) N - (j + 2 ^ s)"]
        by (simp add: mult_2 add.assoc)
      moreover have "[j..<j + 2 ^ s] \<noteq> []" "[j + 2 ^ s..<min (j + 2 ^ s + 2 ^ s) N] \<noteq> []"
        using True by (simp_all add: min_le_iff_disj)
      ultimately have "reduce_all f (map ?g [j..<min (j + 2 ^ Suc s) N]) = f (A s ?r) (A s (fwd N ?r (2 ^ s)))"
        using mine his reduce_all_append[OF f] by simp
      then show ?thesis using step[OF s r] rx True by simp
    next
      case False
      then have "min (j + 2 ^ Suc s) N = min (j + 2 ^ s) N" by simp
      then show ?thesis using step[OF s r] rx False Suc.IH[of j] s even(2) Suc.prems(2) by simp
    qed
  qed
  from this[of ?n 0] have "A ?n (fwd N l 0) = reduce_all f (map ?g [0..<min (2 ^ ?n) N])" using N by simp
  moreover have "min (2 ^ ?n) N = N" using rounds_bounds(1)[of N] N by simp
  ultimately show ?thesis using l by (simp add: fwd_def)
qed

end
