(* ===== verification/WriteRounds.thy ===== *)
theory WriteRounds
  imports Rounds
begin

text \<open>
  Rounds in which the sender writes: a rank offers its memory, its partner writes or reduces
  into it and says so, and the rank may then work on what it has received. As for reading
  (\<open>Rounds\<close>), every interleaving of the streams ends in the memory of the execution round by
  round, where what a rank does in a round is what is written to it, followed by its own work.
\<close>

definition exchange_phases ::
  "bool \<Rightarrow> bool \<Rightarrow> bool \<Rightarrow> bool \<Rightarrow> bool \<Rightarrow> nat \<Rightarrow> nat \<Rightarrow> action list \<Rightarrow> action list \<Rightarrow> action list list" where
  "exchange_phases tx rx ack bar fin to from mvw mvl =
     [if rx then [Post from SendDone] else [], if tx then [Await to SendDone] else [],
      if tx then mvw @ [Post to SendReady] else [], (if rx then [Await from SendReady] else []) @ mvl,
      if rx \<and> ack then [Post from DataAck] else [], if tx \<and> ack then [Await to DataAck] else [],
      if bar then [Post from SendDone] else [], if bar then [Await to SendDone] else [],
      if bar then [Post to SendReady] else [], if bar then [Await from SendReady] else [],
      if fin then [Post from DataAck] else [], if fin then [Await to DataAck] else []]"

lemma exchange_write: "concat (exchange_phases tx True ack bar False to from mvw mvl) =
    concat (write_phases tx True ack bar to from mvw mvl)"
  by (simp add: exchange_phases_def write_phases_def)

definition exchange_head :: "bool \<Rightarrow> bool \<Rightarrow> nat \<Rightarrow> nat \<Rightarrow> action list" where
  "exchange_head tx rx to from = (if rx then [Post from SendDone] else []) @ (if tx then [Await to SendDone] else [])"

definition exchange_tail :: "bool \<Rightarrow> bool \<Rightarrow> bool \<Rightarrow> bool \<Rightarrow> bool \<Rightarrow> nat \<Rightarrow> nat \<Rightarrow> action list" where
  "exchange_tail tx rx ack bar fin to from =
     (if rx \<and> ack then [Post from DataAck] else []) @ (if tx \<and> ack then [Await to DataAck] else []) @
     (if bar then [Post from SendDone, Await to SendDone, Post to SendReady, Await from SendReady] else []) @
     (if fin then [Post from DataAck, Await to DataAck] else [])"

lemma exchange_concat:
  "concat (exchange_phases tx rx ack bar fin to from mvw mvl) =
    exchange_head tx rx to from @ (if tx then mvw @ [Post to SendReady] else []) @
    (if rx then [Await from SendReady] else []) @ mvl @ exchange_tail tx rx ack bar fin to from"
  by (simp add: exchange_phases_def exchange_head_def exchange_tail_def)

definition synchronises :: "action \<Rightarrow> bool" where
  "synchronises a \<longleftrightarrow> (\<exists>q k. a = Post q k \<or> a = Await q k)"

lemma synchronises_exec: "synchronises a \<Longrightarrow> exec_action f a m = m"
  by (auto simp: synchronises_def)

lemma exchange_synchronises: "a \<in> set (exchange_head tx rx to from) \<Longrightarrow> synchronises a"
  "a \<in> set (exchange_tail tx rx ack bar fin to from) \<Longrightarrow> synchronises a"
  by (auto simp: exchange_head_def exchange_tail_def synchronises_def split: if_splits)

lemma exchange_head_ready [simp]: "count_list (exchange_head tx rx to from) (Post q SendReady) = 0"
  by (simp add: exchange_head_def)

lemma take_step: "take (Suc k - p) xs =
    take (k - p) xs @ (if p \<le> k \<and> k < p + length xs then [xs ! (k - p)] else [])"
proof (cases "p \<le> k \<and> k < p + length xs")
  case True
  then have "Suc k - p = Suc (k - p)" "k - p < length xs" by linarith+
  then show ?thesis using True by (simp add: take_Suc_conv_app_nth)
qed (cases "p \<le> k"; simp)

locale write_rounds =
  fixes N n :: nat
    and "from" to :: "nat \<Rightarrow> nat \<Rightarrow> nat"
    and tx rx :: "nat \<Rightarrow> nat \<Rightarrow> bool"
    and ack :: bool
    and bar fin :: "nat \<Rightarrow> bool"
    and mvw mvl :: "nat \<Rightarrow> nat \<Rightarrow> action list"
    and P :: "nat \<Rightarrow> action list"
  assumes partners: "r < N \<Longrightarrow> s < n \<Longrightarrow> rx s r \<Longrightarrow> from s r < N \<and> tx s (from s r) \<and> to s (from s r) = r"
      "r < N \<Longrightarrow> s < n \<Longrightarrow> tx s r \<Longrightarrow> to s r < N \<and> rx s (to s r) \<and> from s (to s r) = r"
    and no_self: "r < N \<Longrightarrow> s < n \<Longrightarrow> tx s r \<Longrightarrow> to s r \<noteq> r"
    and barriers: "r < N \<Longrightarrow> s < n \<Longrightarrow> bar s \<or> fin s \<Longrightarrow> tx s r \<and> rx s r"
    and writing: "r < N \<Longrightarrow> s < n \<Longrightarrow> tx s r \<Longrightarrow> a \<in> set (mvw s r) \<Longrightarrow> local_action (to s r) a"
    and sources: "r < N \<Longrightarrow> s < n \<Longrightarrow> tx s r \<Longrightarrow> a \<in> set (mvw s r) \<Longrightarrow> (q, b, x) \<in> reads a \<Longrightarrow>
      q = r \<and> (rx s r \<longrightarrow> (\<forall>a'\<in>set (mvw s (from s r)). (q, b, x) \<notin> writes a'))"
    and own_work: "r < N \<Longrightarrow> s < n \<Longrightarrow> a \<in> set (mvl s r) \<Longrightarrow> local_action r a \<and> (\<forall>p\<in>reads a. fst p = r)"
    and program: "r < N \<Longrightarrow> P r = concat (map (\<lambda>s. concat
      (exchange_phases (tx s r) (rx s r) ack (bar s) (fin s) (to s r) (from s r) (mvw s r) (mvl s r))) [0..<n])"
begin

definition ph :: "nat \<Rightarrow> nat \<Rightarrow> action list list" where
  "ph r s = exchange_phases (tx s r) (rx s r) ack (bar s) (fin s) (to s r) (from s r) (mvw s r) (mvl s r)"

abbreviation "head r s \<equiv> exchange_head (tx s r) (rx s r) (to s r) (from s r)"
abbreviation "sent r s \<equiv> if tx s r then mvw s r @ [Post (to s r) SendReady] else []"
abbreviation "got r s \<equiv> if rx s r then [Await (from s r) SendReady] else []"
abbreviation "tail r s \<equiv> exchange_tail (tx s r) (rx s r) ack (bar s) (fin s) (to s r) (from s r)"

lemma concat_ph: "concat (ph r s) = head r s @ sent r s @ got r s @ mvl s r @ tail r s"
  by (simp add: ph_def exchange_concat)

lemma quiet: "r < N \<Longrightarrow> s < n \<Longrightarrow> Post q k \<notin> set (mvl s r) \<and> Await q k \<notin> set (mvl s r)"
  "r < N \<Longrightarrow> s < n \<Longrightarrow> tx s r \<Longrightarrow> Post q k \<notin> set (mvw s r) \<and> Await q k \<notin> set (mvw s r)"
  using own_work[of r s "Post q k"] own_work[of r s "Await q k"]
    writing[of r s "Post q k"] writing[of r s "Await q k"] by (auto simp: local_action_def)

lemma quiet_count [simp]:
  "r < N \<Longrightarrow> s < n \<Longrightarrow> count_list (mvl s r) (Post q k) = 0" "r < N \<Longrightarrow> s < n \<Longrightarrow> count_list (mvl s r) (Await q k) = 0"
  "r < N \<Longrightarrow> s < n \<Longrightarrow> tx s r \<Longrightarrow> count_list (mvw s r) (Post q k) = 0"
  "r < N \<Longrightarrow> s < n \<Longrightarrow> tx s r \<Longrightarrow> count_list (mvw s r) (Await q k) = 0"
  using quiet by (simp_all add: count_list_0_iff)

lemma quiet_split: "r < N \<Longrightarrow> s < n \<Longrightarrow> mvl s r \<noteq> X @ Await q k # Y"
  "r < N \<Longrightarrow> s < n \<Longrightarrow> tx s r \<Longrightarrow> mvw s r @ [Post p j] \<noteq> X @ Await q k # Y"
proof -
  show "r < N \<Longrightarrow> s < n \<Longrightarrow> mvl s r \<noteq> X @ Await q k # Y" using quiet(1)[of r s q k] by auto
  assume a: "r < N" "s < n" "tx s r"
  show "mvw s r @ [Post p j] \<noteq> X @ Await q k # Y"
  proof
    assume "mvw s r @ [Post p j] = X @ Await q k # Y"
    then have "Await q k \<in> set (mvw s r @ [Post p j])" by simp
    then show False using quiet(2)[OF a, of q k] by simp
  qed
qed

lemma partnership: "r < N \<Longrightarrow> q < N \<Longrightarrow> s < n \<Longrightarrow> rx s r \<and> from s r = q \<longleftrightarrow> tx s q \<and> to s q = r"
  using partners(1)[of r s] partners(2)[of q s] by blast

lemma stepwise: "stepwise_streams N n 12 ph P"
proof
  fix r assume "r < N"
  then show "P r = concat (map (\<lambda>s. concat (ph r s)) [0..<n])" by (simp add: program ph_def)
next
  fix r s show "length (ph r s) = 12" by (simp add: ph_def exchange_phases_def)
next
  fix r q s k assume a: "r < N" "q < N" "s < n"
  then show "count_list (concat (ph r s)) (Await q k) = count_list (concat (ph q s)) (Post r k)"
    using partnership[of r q s] partnership[of q r s] barriers[of r s] barriers[of q s]
    by (auto simp: concat_ph exchange_head_def exchange_tail_def)
next
  fix r s p X q k Y assume a: "r < N" "s < n" "p < 12" "ph r s ! p = X @ Await q k # Y"
  have "p = 0 \<or> p = 1 \<or> p = 2 \<or> p = 3 \<or> p = 4 \<or> p = 5 \<or> p = 6 \<or> p = 7 \<or> p = 8 \<or> p = 9 \<or> p = 10 \<or> p = 11"
    using a(3) by presburger
  then consider "p = 1" "tx s r" "q = to s r" "k = SendDone" "X = []"
    | "p = 3" "rx s r" "q = from s r" "k = SendReady" "X = []"
    | "p = 5" "tx s r \<and> ack" "q = to s r" "k = DataAck" "X = []"
    | "p = 7" "bar s" "q = to s r" "k = SendDone" "X = []"
    | "p = 9" "bar s" "q = from s r" "k = SendReady" "X = []"
    | "p = 11" "fin s" "q = to s r" "k = DataAck" "X = []"
  proof (elim disjE)
    assume "p = 2"
    then show thesis using a(4) quiet_split(2)[OF a(1,2), of "to s r" SendReady X q k Y]
      by (simp add: ph_def exchange_phases_def split: if_splits)
  next
    assume "p = 3"
    then show thesis using a(4) quiet_split(1)[OF a(1,2), of _ q k Y] that(2)
      by (auto simp: ph_def exchange_phases_def Cons_eq_append_conv split: if_splits)
  qed (use a(4) that in \<open>simp_all add: ph_def exchange_phases_def Cons_eq_append_conv split: if_splits\<close>)
  then show "q < N \<and> count_list (concat (take p (ph r s)) @ X) (Await q k) <
        count_list (concat (take p (ph q s))) (Post r k)"
  proof cases
    case 1
    then show ?thesis using partners(2)[OF a(1,2)] by (simp add: ph_def exchange_phases_def)
  next
    case 2
    then have "q < N" "tx s q" "to s q = r" using partners(1)[OF a(1,2)] by simp_all
    then show ?thesis using 2 a(1,2) by (simp add: ph_def exchange_phases_def numeral_eq_Suc)
  next
    case 3
    then have "q < N" "rx s q" "from s q = r" using partners(2)[OF a(1,2)] by simp_all
    then show ?thesis unfolding ph_def exchange_phases_def using 3 a(1,2) by (simp add: numeral_eq_Suc)
  next
    case 4
    then have "q < N" "rx s q" "from s q = r" using partners(2)[OF a(1,2)] barriers[OF a(1,2)] by simp_all
    then show ?thesis using 4 a(1,2) barriers[OF a(1,2)] by (simp add: ph_def exchange_phases_def numeral_eq_Suc)
  next
    case 5
    then have "q < N" "tx s q" "to s q = r" using partners(1)[OF a(1,2)] barriers[OF a(1,2)] by simp_all
    then show ?thesis using 5 a(1,2) barriers[OF a(1,2)] by (simp add: ph_def exchange_phases_def numeral_eq_Suc)
  next
    case 6
    then have "q < N" "rx s q" "from s q = r" using partners(2)[OF a(1,2)] barriers[OF a(1,2)] by simp_all
    then show ?thesis using 6 a(1,2) barriers[OF a(1,2)] barriers[of q s]
      by (simp add: ph_def exchange_phases_def numeral_eq_Suc)
  qed
qed

end

sublocale write_rounds \<subseteq> rr: stepwise_streams N n 12 ph P
  by (rule stepwise)

context write_rounds
begin

abbreviation "pre \<equiv> rr.pre"

text \<open>Where in a rank's stream the writes of a round begin, and its own work.\<close>

definition pw :: "nat \<Rightarrow> nat \<Rightarrow> nat" where
  "pw r s = length (pre r s @ head r s)"

definition pl :: "nat \<Rightarrow> nat \<Rightarrow> nat" where
  "pl r s = length (pre r s @ head r s @ sent r s @ got r s)"

lemma places: "length (pre r s) \<le> pw r s" "tx s r \<Longrightarrow> pw r s + length (mvw s r) < pl r s" "pw r s \<le> pl r s"
    "pl r s + length (mvl s r) \<le> length (pre r (Suc s))"
  by (simp_all add: pw_def pl_def rr.pre_Suc concat_ph)

lemma pre_mono: "s \<le> s' \<Longrightarrow> length (pre r s) \<le> length (pre r s')"
proof (induction s')
  case (Suc s')
  then show ?case by (cases "s = Suc s'") (simp_all add: rr.pre_Suc)
qed simp

lemma one_round: "length (pre r s) \<le> k \<Longrightarrow> k < length (pre r (Suc s)) \<Longrightarrow> length (pre r s') \<le> k \<Longrightarrow>
    k < length (pre r (Suc s')) \<Longrightarrow> s = s'"
  using pre_mono[of "Suc s" s' r] pre_mono[of "Suc s'" s r] by (metis leD le_trans not_less_eq_eq nle_le)

text \<open>What stands at a place of a round.\<close>

lemma action_at:
  assumes r: "r < N" "s < n" and k: "length (pre r s) \<le> k" "k < length (pre r (Suc s))"
  obtains (writing_at) "tx s r" "pw r s \<le> k" "k < pw r s + length (mvw s r)" "P r ! k = mvw s r ! (k - pw r s)"
  | (working_at) "pl r s \<le> k" "k < pl r s + length (mvl s r)" "P r ! k = mvl s r ! (k - pl r s)"
  | (syncing_at) "synchronises (P r ! k)" "\<not> (tx s r \<and> pw r s \<le> k \<and> k < pw r s + length (mvw s r))"
      "\<not> (pl r s \<le> k \<and> k < pl r s + length (mvl s r))"
proof -
  let ?i = "k - length (pre r s)"
  have i: "?i < length (concat (ph r s))" using k by (simp add: rr.pre_Suc)
  have P: "P r ! k = concat (ph r s) ! ?i"
    unfolding rr.program_at[OF r] using k(1) i by (simp add: nth_append del: concat_ph)
  have w: "k - pw r s = ?i - length (head r s)" "pw r s \<le> k \<longleftrightarrow> length (head r s) \<le> ?i"
    using k(1) by (auto simp: pw_def)
  have l: "k - pl r s = ?i - length (head r s) - length (sent r s) - length (got r s)"
    "pl r s \<le> k \<longleftrightarrow> length (head r s) + length (sent r s) + length (got r s) \<le> ?i"
    using k(1) by (auto simp: pl_def)
  have pwk: "k < pw r s + j \<longleftrightarrow> ?i < length (head r s) + j" "k < pl r s + j \<longleftrightarrow>
      ?i < length (head r s) + length (sent r s) + length (got r s) + j" for j
    using k(1) by (auto simp: pw_def pl_def)
  consider "?i < length (head r s)"
    | "length (head r s) \<le> ?i" "?i < length (head r s) + length (sent r s)"
    | "length (head r s) + length (sent r s) \<le> ?i" "?i < length (head r s) + length (sent r s) + length (got r s)"
    | "length (head r s) + length (sent r s) + length (got r s) \<le> ?i"
      "?i < length (head r s) + length (sent r s) + length (got r s) + length (mvl s r)"
    | "length (head r s) + length (sent r s) + length (got r s) + length (mvl s r) \<le> ?i" by linarith
  then show thesis
  proof cases
    case 1
    then have "P r ! k \<in> set (head r s)" unfolding P concat_ph by (simp add: nth_append)
    then show thesis using 1 w l syncing_at by (auto simp: exchange_synchronises)
  next
    case 2
    then have tx: "tx s r" by (auto split: if_splits)
    have at: "P r ! k = (mvw s r @ [Post (to s r) SendReady]) ! (?i - length (head r s))"
      unfolding P concat_ph using 2 tx by (simp add: nth_append)
    show thesis
    proof (cases "?i < length (head r s) + length (mvw s r)")
      case True
      then have "?i - length (head r s) < length (mvw s r)" using 2(1) by linarith
      then have "P r ! k = mvw s r ! (k - pw r s)" unfolding at w(1) by (simp add: nth_append)
      moreover have "pw r s \<le> k" "k < pw r s + length (mvw s r)" using 2(1) True w(2) pwk(1) by blast+
      ultimately show thesis using writing_at tx by blast
    next
      case False
      then have "P r ! k = Post (to s r) SendReady" unfolding at using 2 tx by (simp add: nth_append less_Suc_eq_le)
      then show thesis using syncing_at False 2 tx l(2) pwk by (auto simp: synchronises_def)
    qed
  next
    case 3
    then have "P r ! k \<in> set (got r s)" unfolding P concat_ph by (auto simp: nth_append split: if_splits)
    then show thesis using 3 w(2) l(2) pwk syncing_at by (auto simp: synchronises_def split: if_splits)
  next
    case 4
    let ?b = "head r s @ sent r s @ got r s"
    have split: "concat (ph r s) = ?b @ mvl s r @ tail r s" by (simp only: concat_ph append_assoc)
    have len: "length ?b = length (head r s) + length (sent r s) + length (got r s)"
      by (simp only: length_append add.assoc)
    have at: "?i = length ?b + (k - pl r s)" "k - pl r s < length (mvl s r)"
      unfolding l(1) len using 4 by linarith+
    have "P r ! k = mvl s r ! (k - pl r s)" unfolding P split by (rule nth_middle[OF at])
    then show thesis using 4 working_at l(2) pwk(2) by blast
  next
    case 5
    let ?b = "head r s @ sent r s @ got r s @ mvl s r"
    have split: "concat (ph r s) = ?b @ tail r s @ []" by (simp only: concat_ph append_assoc append_Nil2)
    have len: "length ?b = length (head r s) + length (sent r s) + length (got r s) + length (mvl s r)"
      by (simp only: length_append add.assoc)
    have le: "length ?b \<le> ?i" using 5 unfolding len .
    then have less: "?i - length ?b < length (tail r s)" using i unfolding split length_append list.size(3) by linarith
    have "?i = length ?b + (?i - length ?b)" using le by linarith
    then have "P r ! k = tail r s ! (?i - length ?b)" unfolding P split by (rule nth_middle) (rule less)
    then have "P r ! k \<in> set (tail r s)" using nth_mem[OF less] by (simp only:)
    then have "synchronises (P r ! k)" by (rule exchange_synchronises(2))
    then show thesis using 5 w(2) l(2) pwk syncing_at by (auto split: if_splits)
  qed
qed

text \<open>
  What a rank does in a round: what its partner writes, then its own work. Of the two, what has
  been done already is read off the places the partner and the rank have reached.
\<close>

definition round_work :: "nat \<Rightarrow> nat \<Rightarrow> action list" where
  "round_work s r = (if rx s r then mvw s (from s r) else []) @ mvl s r"

definition taken :: "'v config \<Rightarrow> nat \<Rightarrow> nat \<Rightarrow> action list" where
  "taken c s r = (if rx s r then take (cf_pc c (from s r) - pw (from s r) s) (mvw s (from s r)) else [])"

definition worked :: "'v config \<Rightarrow> nat \<Rightarrow> nat \<Rightarrow> action list" where
  "worked c s r = take (cf_pc c r - pl r s) (mvl s r)"

abbreviation "value_of f m c s r \<equiv> fold (exec_action f) (taken c s r @ worked c s r) (round_mem f round_work m s) r"

definition in_round :: "'v config \<Rightarrow> nat \<Rightarrow> nat \<Rightarrow> bool" where
  "in_round c s r \<longleftrightarrow> length (pre r s) \<le> cf_pc c r \<and> cf_pc c r \<le> length (pre r (Suc s))"

lemma taken_local: "r < N \<Longrightarrow> s < n \<Longrightarrow> a \<in> set (taken c s r) \<Longrightarrow> rx s r \<and> a \<in> set (mvw s (from s r)) \<and> local_action r a"
  using partners(1)[of r s] writing[of "from s r" s a] by (auto simp: taken_def dest: in_set_takeD split: if_splits)

text \<open>The two synchronisations of a transfer.\<close>

lemma write_started:
  assumes tok: "tokens_ok N P c" and u: "u < N" "s < n" "tx s u" and at: "pw u s \<le> cf_pc c u"
  shows "length (pre (to s u) s) < cf_pc c (to s u)"
proof -
  have v: "to s u < N" "rx s (to s u)" "from s (to s u) = u" using partners(2)[OF u] by simp_all
  let ?h = "if rx s u then [Post (from s u) SendDone] else []"
  have hd: "head u s = ?h @ [Await (to s u) SendDone]" using u(3) by (simp add: exchange_head_def)
  have cu: "concat (ph u s) = ?h @ Await (to s u) SendDone # (sent u s @ got u s @ mvl s u @ tail u s)"
    by (simp only: concat_ph hd append_assoc append_Cons append_Nil)
  have cv: "concat (ph (to s u) s) = [] @ Post u SendDone # ((if tx s (to s u) then [Await (to s (to s u)) SendDone] else []) @
      sent (to s u) s @ got (to s u) s @ mvl s (to s u) @ tail (to s u) s)"
    unfolding concat_ph exchange_head_def using v by simp
  have "length (pre u s @ ?h) < cf_pc c u" using at unfolding pw_def hd by simp
  from rr.step_wait_passed[OF tok u(1) v(1) u(2) cu this cv] show ?thesis by simp
qed

lemma write_arrived:
  assumes tok: "tokens_ok N P c" and r: "r < N" "s < n" "rx s r" and at: "length (pre r s @ head r s @ sent r s) < cf_pc c r"
  shows "pw (from s r) s + length (mvw s (from s r)) < cf_pc c (from s r)"
proof -
  let ?q = "from s r"
  have q: "?q < N" "tx s ?q" "to s ?q = r" using partners(1)[OF r] by simp_all
  have cr: "concat (ph r s) = (head r s @ sent r s) @ Await ?q SendReady # (mvl s r @ tail r s)"
    unfolding concat_ph using r(3) by simp
  have cq: "concat (ph ?q s) = (head ?q s @ mvw s ?q) @ Post r SendReady # (got ?q s @ mvl s ?q @ tail ?q s)"
    unfolding concat_ph using q by simp
  have "count_list (head ?q s @ mvw s ?q) (Post r SendReady) \<le> count_list (head r s @ sent r s) (Await ?q SendReady)"
    using quiet_count(3)[OF q(1) r(2) q(2)] by simp
  from rr.step_wait_passed[OF tok r(1) q(1) r(2) cr _ cq this] at show ?thesis by (simp add: pw_def)
qed

lemma value_before:
  assumes tok: "tokens_ok N P c" and r: "r < N" "s < n" and at: "cf_pc c r \<le> length (pre r s)"
  shows "taken c s r = []" "worked c s r = []"
proof -
  show "worked c s r = []" using at places(1,3)[of r s] by (simp add: worked_def)
  show "taken c s r = []"
  proof (cases "rx s r \<and> pw (from s r) s < cf_pc c (from s r)")
    case True
    then have q: "from s r < N" "tx s (from s r)" "to s (from s r) = r" using partners(1)[OF r] by simp_all
    have "length (pre r s) < cf_pc c r"
      using write_started[OF tok q(1) r(2) q(2)] True q(3) by simp
    then show ?thesis using at by simp
  qed (auto simp: taken_def)
qed

lemma value_after:
  assumes tok: "tokens_ok N P c" and r: "r < N" "s < n" and at: "length (pre r (Suc s)) \<le> cf_pc c r"
  shows "taken c s r @ worked c s r = round_work s r"
proof -
  have "pl r s + length (mvl s r) \<le> cf_pc c r" using at places(4)[of r s] by simp
  then have w: "worked c s r = mvl s r" by (simp add: worked_def)
  have "taken c s r = mvw s (from s r)" if rx: "rx s r"
  proof -
    have "length (pre r s @ head r s @ sent r s) < pl r s" using rx by (simp add: pl_def)
    also have "\<dots> \<le> cf_pc c r" using at places(4)[of r s] by simp
    finally show ?thesis using write_arrived[OF tok r rx] rx by (simp add: taken_def)
  qed
  then show ?thesis using w by (auto simp: round_work_def taken_def)
qed

lemma idle_round: "concat (ph r s) = [] \<Longrightarrow> round_work s r = []"
  by (auto simp: concat_ph exchange_head_def round_work_def split: if_splits)

lemma idle_rounds: "s \<le> s' \<Longrightarrow> length (pre r s) = length (pre r s') \<Longrightarrow>
    round_mem f round_work m s' r = round_mem f round_work m s r"
proof (induction s')
  case (Suc s')
  show ?case
  proof (cases "s = Suc s'")
    case False
    then have le: "s \<le> s'" "length (pre r s) \<le> length (pre r s')" using Suc.prems pre_mono[of s s' r] by simp_all
    then have "length (pre r s) = length (pre r s')" "concat (ph r s') = []"
      using Suc.prems(2) by (simp_all add: rr.pre_Suc)
    then show ?thesis using Suc.IH le(1) idle_round[of r s'] by simp
  qed simp
qed simp

lemma value_unique:
  assumes tok: "tokens_ok N P c" and r: "r < N" "s' < n" and "s \<le> s'" "in_round c s r" "in_round c s' r"
  shows "value_of f m c s r = value_of f m c s' r"
proof (cases "s = s'")
  case False
  then have lt: "Suc s \<le> s'" "s < n" using assms(3,4) by simp_all
  then have eq: "cf_pc c r = length (pre r (Suc s))" "cf_pc c r = length (pre r s')"
    using assms(5,6) pre_mono[OF lt(1), of r] by (simp_all add: in_round_def)
  have "value_of f m c s r = round_mem f round_work m (Suc s) r"
    using value_after[OF tok r(1) lt(2)] eq(1) by simp
  also have "\<dots> = round_mem f round_work m s' r" by (rule idle_rounds[symmetric]) (use lt eq in simp_all)
  also have "\<dots> = value_of f m c s' r" using value_before[OF tok r] eq(2) by simp
  finally show ?thesis .
qed simp

definition follows :: "('v \<Rightarrow> 'v \<Rightarrow> 'v) \<Rightarrow> 'v memory \<Rightarrow> 'v config \<Rightarrow> bool" where
  "follows f m c \<longleftrightarrow> tokens_ok N P c \<and> (\<forall>r<N. \<forall>s<n. in_round c s r \<longrightarrow> cf_mem c r = value_of f m c s r)"

lemma follows_start: "follows f m (start m)"
proof -
  have "m r = value_of f m (start m) s r" if r: "r < N" "s < n" "in_round (start m) s r" for r s
  proof -
    have z: "length (pre r s) = 0" using r(3) by (simp add: in_round_def start_def)
    then have "taken (start m) s r = []" "worked (start m) s r = []"
      using value_before[OF tokens_start r(1,2), of m] by (simp_all add: start_def)
    moreover have "round_mem f round_work m s r = round_mem f round_work m 0 r"
      by (rule idle_rounds) (use z in \<open>simp_all add: rr.pre_def\<close>)
    ultimately show ?thesis by simp
  qed
  then show ?thesis by (simp add: follows_def tokens_start) (simp add: start_def)
qed

lemma round_of: "k < length (pre r j) \<Longrightarrow> \<exists>s<j. length (pre r s) \<le> k \<and> k < length (pre r (Suc s))"
proof (induction j)
  case (Suc j)
  then show ?case by (cases "k < length (pre r j)") (auto intro: less_SucI)
qed (simp add: rr.pre_def)

lemma program_pre: "r < N \<Longrightarrow> P r = pre r n"
  using rr.program by (simp add: rr.pre_def)

lemma write_in_round: "tx s r \<Longrightarrow> pw r s \<le> k \<Longrightarrow> k < pw r s + length (mvw s r) \<Longrightarrow>
    length (pre r s) \<le> k \<and> k < length (pre r (Suc s))"
  using places(1)[of r s] places(2)[of s r] places(4)[of r s] by linarith

text \<open>A rank that is written to stays where it has offered its memory.\<close>

lemma target_waits:
  assumes tok: "tokens_ok N P c" and u: "u < N" "s < n" "tx s u"
    and at: "pw u s \<le> cf_pc c u" "cf_pc c u < pw u s + length (mvw s u)"
  shows "in_round c s' (to s u) \<Longrightarrow> s' = s" "worked c s (to s u) = []"
proof -
  let ?v = "to s u"
  have v: "?v < N" "rx s ?v" "from s ?v = u" using partners(2)[OF u] by simp_all
  have lower: "length (pre ?v s) < cf_pc c ?v" by (rule write_started[OF tok u at(1)])
  have upper: "\<not> length (pre ?v s @ head ?v s @ sent ?v s) < cf_pc c ?v"
    using write_arrived[OF tok v(1) u(2) v(2)] at(2) v(3) by auto
  have "length (pre ?v s @ head ?v s @ sent ?v s) < pl ?v s" using v(2) by (simp add: pl_def)
  then have less: "cf_pc c ?v < pl ?v s" using upper by linarith
  then show "worked c s ?v = []" by (simp add: worked_def)
  have end1: "cf_pc c ?v < length (pre ?v (Suc s))" using less places(4)[of ?v s] by linarith
  show "s' = s" if "in_round c s' ?v"
  proof (rule ccontr)
    assume "s' \<noteq> s"
    then consider "Suc s' \<le> s" | "Suc s \<le> s'" by linarith
    then show False
    proof cases
      case 1
      then show False using pre_mono[of "Suc s'" s ?v] lower that by (simp add: in_round_def)
    next
      case 2
      then show False using pre_mono[of "Suc s" s' ?v] end1 that by (simp add: in_round_def)
    qed
  qed
qed

lemma follows_step:
  assumes inv: "follows f m c" and st: "stream_step f N P c d"
  shows "follows f m d"
  using st
proof cases
  case (1 u)
  let ?k = "cf_pc c u" and ?a = "P u ! cf_pc c u"
  have tok: "tokens_ok N P c" and val: "\<And>r s. r < N \<Longrightarrow> s < n \<Longrightarrow> in_round c s r \<Longrightarrow> cf_mem c r = value_of f m c s r"
    using inv by (auto simp: follows_def)
  have tokd: "tokens_ok N P d" by (rule tokens_step[OF tok st])
  obtain s0 where s0: "s0 < n" "length (pre u s0) \<le> ?k" "?k < length (pre u (Suc s0))"
    using round_of[of ?k u n] 1(3) program_pre[OF 1(2)] by auto
  have pcd: "cf_pc d = (cf_pc c)(u := Suc ?k)" using 1(1) by simp
  have mem: "cf_mem d = exec_action f ?a (cf_mem c)" using 1(1) by (cases ?a) (simp_all add: take_action.simps)
  have others: "cf_mem d r = cf_mem c r" if "local_action q ?a" "r \<noteq> q" for q r
    using that unfolding mem local_action_def by (intro ext exec_not_written) force
  have same_taken: "taken d s r = taken c s r @ (if rx s r \<and> from s r = u \<and> pw u s \<le> ?k \<and> ?k < pw u s + length (mvw s u)
      then [mvw s u ! (?k - pw u s)] else [])" for s r
    by (simp add: taken_def pcd take_step)
  have same_worked: "worked d s r = worked c s r @ (if r = u \<and> pl u s \<le> ?k \<and> ?k < pl u s + length (mvl s u)
      then [mvl s u ! (?k - pl u s)] else [])" for s r
    by (simp add: worked_def pcd take_step)
  have not_self: "rx s0 u \<Longrightarrow> from s0 u \<noteq> u"
    using partners(1)[OF 1(2) s0(1)] no_self[of "from s0 u" s0] s0(1) by metis
  have here: "in_round c s0 u" using s0 by (simp add: in_round_def)
  have mine: "cf_mem c u = value_of f m c s0 u" by (rule val[OF 1(2) s0(1) here])
  have keep: "taken d s0 u = taken c s0 u" using not_self by (auto simp: same_taken)
  text \<open>The rank that has moved.\<close>
  have own: "cf_mem d u = value_of f m d s0 u"
  proof (rule action_at[OF 1(2) s0])
    assume w: "tx s0 u" "pw u s0 \<le> ?k" "?k < pw u s0 + length (mvw s0 u)" "?a = mvw s0 u ! (?k - pw u s0)"
    have "?a \<in> set (mvw s0 u)" unfolding w(4) by (rule nth_mem) (use w(2,3) in linarith)
    then have "cf_mem d u = cf_mem c u" using others[OF writing[OF 1(2) s0(1) w(1)]] no_self[OF 1(2) s0(1) w(1)] by metis
    moreover have "\<not> pl u s0 \<le> ?k" using places(2)[OF w(1)] w(3) by linarith
    ultimately show ?thesis using mine by (simp add: keep same_worked)
  next
    assume w: "pl u s0 \<le> ?k" "?k < pl u s0 + length (mvl s0 u)" "?a = mvl s0 u ! (?k - pl u s0)"
    have "?a \<in> set (mvl s0 u)" unfolding w(3) by (rule nth_mem) (use w(1,2) in linarith)
    note loc = own_work[OF 1(2) s0(1) this]
    let ?M = "fold (exec_action f) (taken c s0 u @ worked c s0 u) (round_mem f round_work m s0)"
    have "cf_mem d u = exec_action f ?a ?M u"
      unfolding mem by (rule exec_local) (use loc mine in \<open>auto simp: local_action_def\<close>)
    then show ?thesis using w by (simp add: keep same_worked)
  next
    assume w: "synchronises ?a" "\<not> (tx s0 u \<and> pw u s0 \<le> ?k \<and> ?k < pw u s0 + length (mvw s0 u))"
      "\<not> (pl u s0 \<le> ?k \<and> ?k < pl u s0 + length (mvl s0 u))"
    have "cf_mem d u = cf_mem c u" unfolding mem synchronises_exec[OF w(1)] ..
    moreover have "worked d s0 u = worked c s0 u" using w(3) by (auto simp: same_worked)
    ultimately show ?thesis using mine by (simp add: keep)
  qed
  text \<open>The rank that is written to.\<close>
  have target: "cf_mem d v = value_of f m d s v"
    if v: "v = to s0 u" and w: "tx s0 u" "pw u s0 \<le> ?k" "?k < pw u s0 + length (mvw s0 u)" "?a = mvw s0 u ! (?k - pw u s0)"
      and s: "s < n" "in_round c s v" for v s
  proof -
    have vN: "v < N" "rx s0 v" "from s0 v = u" "v \<noteq> u"
      using partners(2)[OF 1(2) s0(1) w(1)] no_self[OF 1(2) s0(1) w(1)] v by simp_all
    note waits = target_waits[OF tok 1(2) s0(1) w(1-3), folded v]
    have a: "?a \<in> set (mvw s0 u)" unfolding w(4) by (rule nth_mem) (use w(2,3) in linarith)
    have seq: "s = s0" by (rule waits(1)[OF s(2)])
    have before: "cf_mem c v = fold (exec_action f) (taken c s0 v) (round_mem f round_work m s0) v"
      using val[OF vN(1) s] waits(2) seq by simp
    have idle: "worked c s0 u = []" using places(2)[OF w(1)] w(3) by (simp add: worked_def)
    have src: "cf_mem c q b x = fold (exec_action f) (taken c s0 v) (round_mem f round_work m s0) q b x"
      if p: "(q, b, x) \<in> reads ?a" for q b x
    proof -
      note from_src = sources[OF 1(2) s0(1) w(1) a p]
      have q: "q = u" using from_src by simp
      have clean: "(u, b, x) \<notin> writes a'" if "a' \<in> set (taken c s0 u)" for a'
        using taken_local[OF 1(2) s0(1) that] from_src q by blast
      have "cf_mem c u b x = round_mem f round_work m s0 u b x"
        unfolding mine using idle by (simp add: fold_not_written[OF clean])
      also have "\<dots> = fold (exec_action f) (taken c s0 v) (round_mem f round_work m s0) u b x"
        by (rule fold_not_written[symmetric]) (use taken_local[OF vN(1) s0(1)] vN(4) in \<open>force simp: local_action_def\<close>)
      finally show ?thesis using q by simp
    qed
    have "local_action v ?a" using writing[OF 1(2) s0(1) w(1) a] v by simp
    then have "cf_mem d v = exec_action f ?a (fold (exec_action f) (taken c s0 v) (round_mem f round_work m s0)) v"
      unfolding mem by (intro exec_local before src) (simp_all add: local_action_def)
    moreover have "taken d s0 v = taken c s0 v @ [?a]" "worked d s0 v = []"
      using vN w waits(2) by (simp_all add: same_taken same_worked)
    ultimately show ?thesis using seq by simp
  qed
  text \<open>Every other rank.\<close>
  have rest: "cf_mem d r = value_of f m d s r" if r: "r < N" "s < n" "r \<noteq> u" "in_round c s r" for r s
  proof (cases "tx s0 u \<and> pw u s0 \<le> ?k \<and> ?k < pw u s0 + length (mvw s0 u) \<and> r = to s0 u")
    case True
    have "?a = mvw s0 u ! (?k - pw u s0)"
    proof (rule action_at[OF 1(2) s0])
      assume "pl u s0 \<le> ?k"
      then show ?thesis using places(2)[of s0 u] True by linarith
    qed (use True in blast)+
    then show ?thesis using target[of r s] True r by blast
  next
    case False
    have no: "\<not> (rx s r \<and> from s r = u \<and> pw u s \<le> ?k \<and> ?k < pw u s + length (mvw s u))"
    proof
      assume w: "rx s r \<and> from s r = u \<and> pw u s \<le> ?k \<and> ?k < pw u s + length (mvw s u)"
      then have tx: "tx s u" "to s u = r" using partners(1)[OF r(1,2)] by auto
      have "s = s0" using write_in_round[OF tx(1), of ?k] w one_round[of u s ?k s0] s0(2,3) by blast
      then show False using False w tx by simp
    qed
    have "cf_mem d r = cf_mem c r"
    proof (rule action_at[OF 1(2) s0])
      assume w: "tx s0 u" "pw u s0 \<le> ?k" "?k < pw u s0 + length (mvw s0 u)" "?a = mvw s0 u ! (?k - pw u s0)"
      have "?a \<in> set (mvw s0 u)" unfolding w(4) by (rule nth_mem) (use w(2,3) in linarith)
      then show ?thesis using others[OF writing[OF 1(2) s0(1) w(1)]] False w by metis
    next
      assume w: "pl u s0 \<le> ?k" "?k < pl u s0 + length (mvl s0 u)" "?a = mvl s0 u ! (?k - pl u s0)"
      have "?a \<in> set (mvl s0 u)" unfolding w(3) by (rule nth_mem) (use w(1,2) in linarith)
      then show ?thesis using others[of u r] own_work[OF 1(2) s0(1)] r(3) by blast
    next
      assume "synchronises ?a"
      then show ?thesis using synchronises_exec mem by metis
    qed
    moreover have "taken d s r = taken c s r" "worked d s r = worked c s r"
      using no r(3) by (auto simp: same_taken same_worked)
    ultimately show ?thesis using val[OF r(1,2,4)] by simp
  qed
  show ?thesis unfolding follows_def
  proof (intro conjI allI impI tokd)
    fix r s assume r: "r < N" "s < n" "in_round d s r"
    show "cf_mem d r = value_of f m d s r"
    proof (cases "r = u")
      case True
      have "in_round d s0 u" using s0 by (simp add: in_round_def pcd)
      moreover have "in_round d s u" using r(3) True by simp
      ultimately have "value_of f m d s0 u = value_of f m d s u"
        using value_unique[OF tokd 1(2) r(2), of s0 f m] value_unique[OF tokd 1(2) s0(1), of s f m, symmetric]
        by (metis nle_le)
      then show ?thesis using own True by simp
    next
      case False
      then have "in_round c s r" using r(3) by (simp add: in_round_def pcd)
      then show ?thesis using rest r False by blast
    qed
  qed
qed

lemma follows_reach: "(stream_step f N P)\<^sup>*\<^sup>* (start m) c \<Longrightarrow> follows f m c"
  by (induction rule: rtranclp_induct) (simp_all add: follows_start follows_step)

text \<open>Every complete run ends in the memory of the execution round by round.\<close>

lemma final_memory:
  assumes run: "(stream_step f N P)\<^sup>*\<^sup>* (start m) c" and "finished N P c" "r < N"
  shows "cf_mem c r = round_mem f round_work m n r"
proof -
  have end1: "cf_pc c r = length (pre r n)" using assms(2,3) program_pre[of r] by (simp add: finished_def)
  have fol: "follows f m c" by (rule follows_reach[OF run])
  show ?thesis
  proof (cases n)
    case 0
    have "cf_mem c = m" using run
    proof (induction rule: rtranclp_induct)
      case (step d e)
      then show ?case using 0 program_pre by (auto simp: stream_step.simps rr.pre_def)
    qed (simp add: start_def)
    then show ?thesis using 0 by simp
  next
    case (Suc k)
    then have k: "k < n" "in_round c k r" using end1 pre_mono[of k "Suc k" r] by (simp_all add: in_round_def)
    have "cf_mem c r = value_of f m c k r" using fol k assms(3) by (simp add: follows_def)
    also have "\<dots> = round_mem f round_work m n r"
    proof -
      have tok: "tokens_ok N P c" using fol by (simp add: follows_def)
      have "taken c k r @ worked c k r = round_work k r"
        by (rule value_after[OF tok assms(3) k(1)]) (use end1 Suc in simp)
      then show ?thesis unfolding Suc by simp
    qed
    finally show ?thesis .
  qed
qed

end

lemma write_rounds_none: "write_rounds 0 n fr to tx rx ack bar fin mvw mvl P"
  by unfold_locales simp_all

lemma write_rounds_or_none:
  assumes "b \<Longrightarrow> write_rounds N n fr to tx rx ack bar fin mvw mvl P"
  shows "write_rounds (if b then N else 0) n fr to tx rx ack bar fin mvw mvl P"
  using assms write_rounds_none by (cases b) simp_all

text \<open>Programs in rounds one after the other.\<close>

lemma write_rounds_append:
  assumes A: "write_rounds N n fa ta xa ya ack ba ea wa la Pa" and B: "write_rounds N k fb tb xb yb ack bb eb wb lb Pb"
    and eqs: "\<And>s. s < n \<Longrightarrow> f s = fa s \<and> t s = ta s \<and> tx s = xa s \<and> rx s = ya s \<and> bar s = ba s \<and> fin s = ea s \<and> w s = wa s \<and> l s = la s"
      "\<And>s. s < k \<Longrightarrow> f (n + s) = fb s \<and> t (n + s) = tb s \<and> tx (n + s) = xb s \<and> rx (n + s) = yb s \<and> bar (n + s) = bb s \<and>
        fin (n + s) = eb s \<and> w (n + s) = wb s \<and> l (n + s) = lb s"
      "\<And>r. r < N \<Longrightarrow> P r = Pa r @ Pb r"
  shows "write_rounds N (n + k) f t tx rx ack bar fin w l P"
proof -
  have obl: "(rx s r \<longrightarrow> f s r < N \<and> tx s (f s r) \<and> t s (f s r) = r) \<and>
      (tx s r \<longrightarrow> t s r < N \<and> rx s (t s r) \<and> f s (t s r) = r \<and> t s r \<noteq> r \<and> (\<forall>a\<in>set (w s r). local_action (t s r) a \<and>
        (\<forall>q b x. (q, b, x) \<in> reads a \<longrightarrow> q = r \<and> (rx s r \<longrightarrow> (\<forall>a'\<in>set (w s (f s r)). (q, b, x) \<notin> writes a'))))) \<and>
      (bar s \<or> fin s \<longrightarrow> tx s r \<and> rx s r) \<and> (\<forall>a\<in>set (l s r). local_action r a \<and> (\<forall>p\<in>reads a. fst p = r))"
    if r: "r < N" "s < n + k" for r s
  proof (cases "s < n")
    case True
    have e: "f s = fa s" "t s = ta s" "tx s = xa s" "rx s = ya s" "bar s = ba s" "fin s = ea s" "w s = wa s" "l s = la s"
      using eqs(1)[OF True] by blast+
    show ?thesis unfolding e
      using write_rounds.partners[OF A r(1) True] write_rounds.no_self[OF A r(1) True] write_rounds.barriers[OF A r(1) True]
        write_rounds.writing[OF A r(1) True] write_rounds.sources[OF A r(1) True] write_rounds.own_work[OF A r(1) True] by blast
  next
    case False
    then obtain s' where s': "s = n + s'" "s' < k" using r(2) by (metis add_less_cancel_left le_add_diff_inverse not_less)
    have e: "f s = fb s'" "t s = tb s'" "tx s = xb s'" "rx s = yb s'" "bar s = bb s'" "fin s = eb s'" "w s = wb s'" "l s = lb s'"
      using eqs(2)[OF s'(2)] unfolding s'(1) by blast+
    show ?thesis unfolding e
      using write_rounds.partners[OF B r(1) s'(2)] write_rounds.no_self[OF B r(1) s'(2)] write_rounds.barriers[OF B r(1) s'(2)]
        write_rounds.writing[OF B r(1) s'(2)] write_rounds.sources[OF B r(1) s'(2)] write_rounds.own_work[OF B r(1) s'(2)] by blast
  qed
  show ?thesis
  proof
    fix r s a q b x assume "r < N" "s < n + k"
    note o = obl[OF this]
    show "rx s r \<Longrightarrow> f s r < N \<and> tx s (f s r) \<and> t s (f s r) = r" using o by blast
    show "tx s r \<Longrightarrow> t s r < N \<and> rx s (t s r) \<and> f s (t s r) = r" using o by blast
    show "tx s r \<Longrightarrow> t s r \<noteq> r" using o by blast
    show "bar s \<or> fin s \<Longrightarrow> tx s r \<and> rx s r" using o by blast
    show "tx s r \<Longrightarrow> a \<in> set (w s r) \<Longrightarrow> local_action (t s r) a" using o by blast
    show "tx s r \<Longrightarrow> a \<in> set (w s r) \<Longrightarrow> (q, b, x) \<in> reads a \<Longrightarrow>
        q = r \<and> (rx s r \<longrightarrow> (\<forall>a'\<in>set (w s (f s r)). (q, b, x) \<notin> writes a'))" using o by blast
    show "a \<in> set (l s r) \<Longrightarrow> local_action r a \<and> (\<forall>p\<in>reads a. fst p = r)" using o by blast
  next
    fix r assume r: "r < N"
    let ?F = "\<lambda>s. concat (exchange_phases (tx s r) (rx s r) ack (bar s) (fin s) (t s r) (f s r) (w s r) (l s r))"
    have "Pa r = concat (map ?F [0..<n])"
      unfolding write_rounds.program[OF A r]
    proof (rule arg_cong[where f = concat], rule map_cong[OF refl])
      fix s assume "s \<in> set [0..<n]"
      then have s: "s < n" by simp
      have e: "f s = fa s" "t s = ta s" "tx s = xa s" "rx s = ya s" "bar s = ba s" "fin s = ea s" "w s = wa s" "l s = la s"
        using eqs(1)[OF s] by blast+
      show "concat (exchange_phases (xa s r) (ya s r) ack (ba s) (ea s) (ta s r) (fa s r) (wa s r) (la s r)) = ?F s"
        unfolding e ..
    qed
    moreover have "Pb r = concat (map (\<lambda>s. ?F (n + s)) [0..<k])"
      unfolding write_rounds.program[OF B r]
    proof (rule arg_cong[where f = concat], rule map_cong[OF refl])
      fix s assume "s \<in> set [0..<k]"
      then have s: "s < k" by simp
      have e: "f (n + s) = fb s" "t (n + s) = tb s" "tx (n + s) = xb s" "rx (n + s) = yb s" "bar (n + s) = bb s"
        "fin (n + s) = eb s" "w (n + s) = wb s" "l (n + s) = lb s"
        using eqs(2)[OF s] by blast+
      show "concat (exchange_phases (xb s r) (yb s r) ack (bb s) (eb s) (tb s r) (fb s r) (wb s r) (lb s r)) = ?F (n + s)"
        unfolding e ..
    qed
    moreover have "map (\<lambda>s. ?F (n + s)) [0..<k] = map ?F [n..<n + k]"
    proof -
      have "[n..<n + k] = map (\<lambda>s. n + s) [0..<k]" using map_add_upt[of n k] by (simp add: add.commute)
      then show ?thesis by (simp only: map_map o_def)
    qed
    ultimately have "P r = concat (map ?F [0..<n] @ map ?F [n..<n + k])"
      by (simp only: eqs(3)[OF r] concat_append)
    also have "map ?F [0..<n] @ map ?F [n..<n + k] = map ?F [0..<n + k]"
      unfolding map_append[symmetric] using upt_add_eq_append[of 0 n k] by (simp only: le0 simp_thms)
    finally show "P r = concat (map ?F [0..<n + k])" .
  qed
qed

text \<open>What belongs to a round of two programs one after the other.\<close>

definition two_phases :: "nat \<Rightarrow> (nat \<Rightarrow> 'a) \<Rightarrow> (nat \<Rightarrow> 'a) \<Rightarrow> nat \<Rightarrow> 'a" where
  "two_phases n f g s = (if s < n then f s else g (s - n))"

lemma two_phases [simp]: "s < n \<Longrightarrow> two_phases n f g s = f s" "two_phases n f g (n + s) = g s"
  by (simp_all add: two_phases_def)

text \<open>Streams that never block have a complete run.\<close>

lemma complete_run:
  assumes "\<And>c. (stream_step f N P)\<^sup>*\<^sup>* (start m) c \<Longrightarrow> finished N P c \<or> (\<exists>d. stream_step f N P c d)"
  shows "\<exists>c. (stream_step f N P)\<^sup>*\<^sup>* (start m) c \<and> finished N P c"
proof -
  have "\<exists>d. (stream_step f N P ^^ (total_actions N P - 0)) (start m) d \<and> finished N P d"
    by (rule run_completes[where n = 0 and m = m]) (use assms in blast, simp)
  then show ?thesis by (meson rtranclp_power)
qed

end
