(* ===== verification/ReduceSteps.thy ===== *)
theory ReduceSteps
  imports ReduceSchedule WriteRounds
begin

text \<open>
  What a rank does in a round of ReduceScatter. On a reading link it fetches its partner's data
  and reduces, or reduces straight over the link; on a writing link its partner reduces into its
  memory, or writes into its scratch memory, from which it reduces.
\<close>

section \<open>Set-up\<close>

text \<open>Reduction in place: the output is the input, and the scratch memory lies elsewhere.\<close>

definition rs_buffers :: "'a AlgTemplate_scheme \<Rightarrow> u64 \<Rightarrow> u64 \<Rightarrow> bool" where
  "rs_buffers t base size1 \<longleftrightarrow>
     at_inputMem t = \<lparr>dm_ptr = Some (INPUT_MEM, base), dm_size = size1\<rparr> \<and> at_outputMem t = at_inputMem t \<and>
     at_baseOffset t = base \<and> unat base + unat size1 < 2 ^ 64 \<and>
     (\<exists>sb sbase ssize. at_scratchMem t = \<lparr>dm_ptr = Some (sb, sbase), dm_size = ssize\<rparr> \<and> sb \<noteq> INPUT_MEM \<and>
        unat size1 \<le> unat ssize \<and> unat sbase + unat ssize < 2 ^ 64)"

definition whole_elements :: "u32 \<Rightarrow> Slice list \<Rightarrow> bool" where
  "whole_elements u ss \<longleftrightarrow> (\<forall>s\<in>set ss. unat u dvd unat (sl_size s))"

definition reduce_slices_ok :: "('t, 'v) gather_run \<Rightarrow> bool" where
  "reduce_slices_ok S \<longleftrightarrow> 2 \<le> gr_ranks S \<and> gr_ranks S < 2 ^ 31 \<and> slices_ready (gr_ranks S) (gr_size S) (gr_slices S) \<and>
     disjoint_slices (gr_slices S) \<and> whole_elements (gr_unit S) (gr_slices S)"

text \<open>
  On writing links all ranks reduce in the same way; received data goes to the registered output
  buffer, which is the scratch memory; no link acknowledges data it has received, and a standard
  link whose device reduces is used with the attribute that says so.
\<close>

definition remote_mode :: "link_caps \<Rightarrow> (ReduceScatterNHR, 'v) gather_run \<Rightarrow> bool" where
  "remote_mode caps S \<longleftrightarrow> lc_rdmaDevice caps \<and> RDMA_REDUCE_BITMASK AND rs_reduceAttr (gr_tpl S 0) \<noteq> 0"

definition writes_ready :: "link_caps \<Rightarrow> (ReduceScatterNHR, 'v) gather_run \<Rightarrow> bool" where
  "writes_ready caps S \<longleftrightarrow> (\<forall>r<gr_ranks S. let t = gr_tpl S r in
     dm_ptr (at_scratchMem t) = Some (OUTPUT_MEM, gr_base S) \<and> rs_reduceAttr t = rs_reduceAttr (gr_tpl S 0) \<and>
     rs_barrierSwitchOn t = rs_barrierSwitchOn (gr_tpl S 0) \<and>
     (\<forall>q<gr_ranks S. \<not> lc_dataAck caps q \<and>
       (lc_rdmaDevice caps \<and> l_linkType (gr_link S r q) = LINK_STANDARD_ROCE \<longrightarrow> remote_mode caps S)))"

definition rs_ok :: "link_caps \<Rightarrow> (ReduceScatterNHR, 'v) gather_run \<Rightarrow> bool" where
  "rs_ok caps S \<longleftrightarrow> reduce_slices_ok S \<and> (gr_rdma S \<longrightarrow> writes_ready caps S) \<and> (\<forall>r<gr_ranks S. let t = gr_tpl S r in
     env_ready (gr_env S r) (gr_unit S) \<and> links_ready (gr_ranks S) (gr_rdma S) (gr_pull S) (gr_links S r) \<and>
     rs_buffers t (gr_base S) (gr_size S) \<and> output_slices t (gr_ranks S) (gr_unit S) = gr_slices S \<and>
     nb_sliceMap t = [] \<and> nb_isNeedMerge t = nb_isNeedMerge (gr_tpl S 0))"

lemma reduce_slicesD:
  assumes "reduce_slices_ok S"
  shows "2 \<le> gr_ranks S" "gr_ranks S < 2 ^ 31" "gr_ranks S \<le> 2 ^ 31"
    "length (gr_slices S) = gr_ranks S * gr_k S" "length (gr_slices S) < 2 ^ 32"
    "\<forall>s\<in>set (gr_slices S). slice_in (unat (gr_size S)) s"
    "w32 (length (gr_slices S) div gr_ranks S) = gr_k S" "unat (gr_size S) < 2 ^ 64" "0 < gr_k S"
    "disjoint_slices (gr_slices S)" "\<forall>s\<in>set (gr_slices S). unat (gr_unit S) dvd unat (sl_size s)"
proof -
  show "2 \<le> gr_ranks S" "gr_ranks S < 2 ^ 31" "gr_ranks S \<le> 2 ^ 31" "length (gr_slices S) < 2 ^ 32"
    "\<forall>s\<in>set (gr_slices S). slice_in (unat (gr_size S)) s"
    "disjoint_slices (gr_slices S)" "\<forall>s\<in>set (gr_slices S). unat (gr_unit S) dvd unat (sl_size s)"
    using assms by (auto simp: reduce_slices_ok_def slices_ready_def whole_elements_def)
  have ne: "gr_slices S \<noteq> []" "length (gr_slices S) mod gr_ranks S = 0"
    using assms by (simp_all add: reduce_slices_ok_def slices_ready_def)
  then show len: "length (gr_slices S) = gr_ranks S * gr_k S" by (auto simp: gr_k_def)
  then show "0 < gr_k S" using ne(1) by (cases "gr_k S") auto
  have "length (gr_slices S) div gr_ranks S < 2 ^ 32"
    using \<open>length (gr_slices S) < 2 ^ 32\<close> div_le_dividend le_less_trans by blast
  then show "w32 (length (gr_slices S) div gr_ranks S) = gr_k S"
    unfolding gr_k_def by (rule w32_id)
  show "unat (gr_size S) < 2 ^ 64" using unsigned_less[of "gr_size S", where ?'a = nat] by simp
qed

lemma rs_okD:
  assumes "rs_ok caps S" "r < gr_ranks S"
  shows "env_ready (gr_env S r) (gr_unit S)" "links_ready (gr_ranks S) (gr_rdma S) (gr_pull S) (gr_links S r)"
    "rs_buffers (gr_tpl S r) (gr_base S) (gr_size S)"
    "output_slices (gr_tpl S r) (gr_ranks S) (gr_unit S) = gr_slices S"
    "nb_sliceMap (gr_tpl S r) = []" "nb_isNeedMerge (gr_tpl S r) = nb_isNeedMerge (gr_tpl S 0)"
  using assms unfolding rs_ok_def Let_def by blast+

lemma writes_readyD:
  assumes "writes_ready caps S" "r < gr_ranks S"
  shows "dm_ptr (at_scratchMem (gr_tpl S r)) = Some (OUTPUT_MEM, gr_base S)"
    "rs_reduceAttr (gr_tpl S r) = rs_reduceAttr (gr_tpl S 0)" "rs_barrierSwitchOn (gr_tpl S r) = rs_barrierSwitchOn (gr_tpl S 0)"
    "q < gr_ranks S \<Longrightarrow> \<not> lc_dataAck caps q"
    "q < gr_ranks S \<Longrightarrow> lc_rdmaDevice caps \<Longrightarrow> l_linkType (gr_link S r q) = LINK_STANDARD_ROCE \<Longrightarrow> remote_mode caps S"
  using assms unfolding writes_ready_def Let_def by blast+

section \<open>Parts of the slices\<close>

lemma hits_selected:
  assumes "disjoint_slices sl" "distinct is" "set is \<subseteq> {..<length sl}"
  shows "hits (map ((!) sl) is) x \<le> 1"
  using assms(2,3)
proof (induction "is")
  case (Cons i "is")
  have IH: "hits (map ((!) sl) is) x \<le> 1" using Cons by simp
  show ?case
  proof (cases "x \<in> slice_bytes (sl ! i)")
    case True
    have "x \<notin> slice_bytes (sl ! j)" if "j \<in> set is" for j
    proof -
      have "i < length sl" "j < length sl" "i \<noteq> j" using Cons.prems that by auto
      then show ?thesis using assms(1) True unfolding disjoint_slices_def by blast
    qed
    then have "\<not> 0 < hits (map ((!) sl) is) x" unfolding hits_cover by (auto simp: cover_def)
    then show ?thesis by simp
  qed (use IH in simp)
qed simp

lemma slice_idxs_plain:
  assumes "perm_of N sm" "N * k < 2 ^ 32" "set rs \<subseteq> {..<N}"
  shows "slice_idxs sm k rs = concat (map (\<lambda>l. map (\<lambda>j. sm ! l * k + j) [0..<k]) rs)"
proof -
  have "w32 (w32 (sm ! l * k) + j) = sm ! l * k + j" if "l \<in> set rs" "j < k" for l j
  proof -
    have "sm ! l < N" using perm_of_nth[OF assms(1)] assms(3) that by auto
    then have "sm ! l * k + k \<le> N * k" by (metis Suc_leI add.commute mult_Suc mult_le_mono1)
    then have "sm ! l * k + j < 2 ^ 32" using that(2) assms(2) by linarith
    then show ?thesis by simp
  qed
  then show ?thesis unfolding slice_idxs_def by (auto intro!: arg_cong[where f = concat])
qed

lemma same_index: "(a::nat) * k + i = b * k + j \<Longrightarrow> i < k \<Longrightarrow> j < k \<Longrightarrow> a = b \<and> i = j"
proof -
  assume a: "a * k + i = b * k + j" "i < k" "j < k"
  have "(a * k + i) div k = a" "(b * k + j) div k = b" using a(2,3) by simp_all
  then show ?thesis using a(1) by simp
qed

lemma slice_idxs_distinct:
  assumes "perm_of N sm" "N * k < 2 ^ 32" "set rs \<subseteq> {..<N}" "distinct rs"
  shows "distinct (slice_idxs sm k rs)" "set (slice_idxs sm k rs) \<subseteq> {..<N * k}"
proof -
  have in_row: "i \<in> set (map (\<lambda>j. sm ! l * k + j) [0..<k]) \<Longrightarrow> l \<in> set rs \<Longrightarrow> i < N * k" for i l
  proof -
    assume a: "i \<in> set (map (\<lambda>j. sm ! l * k + j) [0..<k])" "l \<in> set rs"
    have "sm ! l < N" using perm_of_nth[OF assms(1)] assms(3) a(2) by auto
    then have "sm ! l * k + k \<le> N * k" by (metis Suc_leI add.commute mult_Suc mult_le_mono1)
    then show "i < N * k" using a(1) by auto
  qed
  show "set (slice_idxs sm k rs) \<subseteq> {..<N * k}"
    unfolding slice_idxs_plain[OF assms(1-3)] using in_row by auto
  have sm: "sm ! l = sm ! l' \<Longrightarrow> l \<in> set rs \<Longrightarrow> l' \<in> set rs \<Longrightarrow> l = l'" for l l'
    using nth_eq_iff_index_eq[OF perm_of_distinct[OF assms(1)]] assms(1,3) by (auto simp: perm_of_def)
  have "distinct (concat (map (\<lambda>l. map (\<lambda>j. sm ! l * k + j) [0..<k]) rs'))" if "set rs' \<subseteq> set rs" "distinct rs'" for rs'
    using that
  proof (induction rs')
    case (Cons l rs')
    have "distinct (map (\<lambda>j. sm ! l * k + j) [0..<k])" by (simp add: distinct_map inj_on_def)
    moreover have "i \<notin> set (concat (map (\<lambda>l. map (\<lambda>j. sm ! l * k + j) [0..<k]) rs'))"
      if here: "i \<in> set (map (\<lambda>j. sm ! l * k + j) [0..<k])" for i
    proof
      assume "i \<in> set (concat (map (\<lambda>l. map (\<lambda>j. sm ! l * k + j) [0..<k]) rs'))"
      then obtain l' where l: "l' \<in> set rs'" "i \<in> set (map (\<lambda>j. sm ! l' * k + j) [0..<k])"
        by (auto simp only: set_concat image_iff UN_iff set_map[of _ rs'])
      have row: "i \<in> set (map (\<lambda>j. a + j) [0..<k]) \<Longrightarrow> \<exists>j<k. i = a + j" for a
        by (auto simp only: set_map set_upt image_iff atLeastLessThan_iff Bex_def)
      obtain j' where l': "l' \<in> set rs'" "j' < k" "i = sm ! l' * k + j'" using l row by blast
      obtain j where j: "j < k" "i = sm ! l * k + j" using here row by blast
      have "sm ! l = sm ! l'" using same_index[of "sm ! l" k j "sm ! l'" j'] l' j by simp
      then have "l = l'" using sm Cons.prems(1) l'(1) by auto
      then show False using Cons.prems(2) l'(1) by simp
    qed
    ultimately show ?case using Cons by (auto simp del: set_concat)
  qed simp
  then show "distinct (slice_idxs sm k rs)" unfolding slice_idxs_plain[OF assms(1-3)] using assms(4) by blast
qed

lemma part_unique:
  assumes "perm_of N sm" "length sl = N * k" "disjoint_slices sl" "l < N" "l' < N"
    "x \<in> part sl sm k l" "x \<in> part sl sm k l'"
  shows "l = l'"
proof -
  obtain j j' where j: "j < k" "x \<in> slice_bytes (sl ! (sm ! l * k + j))"
    "j' < k" "x \<in> slice_bytes (sl ! (sm ! l' * k + j'))"
    using assms(6,7) by (auto simp: part_def cover_def)
  have bound: "i < N \<Longrightarrow> m < k \<Longrightarrow> sm ! i * k + m < length sl" for i m
  proof -
    assume a: "i < N" "m < k"
    have "sm ! i < N" using perm_of_nth[OF assms(1) a(1)] .
    then have "sm ! i * k + k \<le> N * k" by (metis Suc_leI add.commute mult_Suc mult_le_mono1)
    then show ?thesis using a(2) assms(2) by linarith
  qed
  have "sm ! l * k + j = sm ! l' * k + j'"
    using assms(3) j bound[OF assms(4) j(1)] bound[OF assms(5) j(3)] unfolding disjoint_slices_def by blast
  then have "sm ! l = sm ! l'" using same_index j(1,3) by blast
  then show ?thesis
    using nth_eq_iff_index_eq[OF perm_of_distinct[OF assms(1)]] assms(1,4,5) by (auto simp: perm_of_def)
qed

section \<open>The reducer of one round\<close>

definition inline_mode :: "ReduceScatterNHR \<Rightarrow> bool" where
  "inline_mode t \<longleftrightarrow> INLINE_REDUCE_BITMASK AND rs_reduceAttr t = 1"

text \<open>The place of a buffer's byte 0 of the slices: the scratch memory of a template, and the input of a rank.\<close>

definition rs_scratch :: "'a AlgTemplate_scheme \<Rightarrow> nat \<Rightarrow> nat \<times> UserMemType \<times> nat" where
  "rs_scratch t r = (case dm_ptr (at_scratchMem t) of Some (b, a) \<Rightarrow> (r, b, unat a) | None \<Rightarrow> (r, SCRATCH_MEM, 0))"

definition rs_input :: "u64 \<Rightarrow> nat \<Rightarrow> nat \<times> UserMemType \<times> nat" where
  "rs_input base r = (r, INPUT_MEM, unat base)"

definition rs_actions :: "bool \<Rightarrow> 'a AlgTemplate_scheme \<Rightarrow> u64 \<Rightarrow> nat \<Rightarrow> nat \<Rightarrow> Slice list \<Rightarrow> action list" where
  "rs_actions inl t base r q ss =
     (if inl then map (slice_reduce (rs_input base r) (rs_input base q)) ss
      else map (slice_copy (rs_scratch t r) (rs_input base q)) (filter (\<lambda>s. 0 < sl_size s) ss) @
        map (slice_reduce (rs_input base r) (rs_scratch t r)) ss)"

definition rs_mem :: "'a AlgTemplate_scheme \<Rightarrow> Slice \<Rightarrow> ReducerMemoryInfo" where
  "rs_mem t s = (let dst = range_of (at_inputMem t) (sl_offset s) (sl_size s) in
     \<lparr>rd_remoteMemOffset = at_baseOffset t + sl_offset s, rd_localsrc = dst, rd_localdst = dst,
      rd_remoteRcvTemp = range_of (at_scratchMem t) (sl_offset s) (sl_size s)\<rparr>)"

lemma in_place_same: "in_place t ss ss = map (rs_mem t) ss"
  by (simp add: in_place_def map_over_indices[of "rs_mem t"] rs_mem_def)

lemma last_step_same: "at_outputMem t = at_inputMem t \<Longrightarrow> last_step t ss ss = map (rs_mem t) ss"
  by (simp add: last_step_def map_over_indices[of "rs_mem t"] rs_mem_def Let_def)

lemma rs_buffersD:
  assumes "rs_buffers t base size1"
  obtains sb sbase ssize where "at_scratchMem t = \<lparr>dm_ptr = Some (sb, sbase), dm_size = ssize\<rparr>" "sb \<noteq> INPUT_MEM"
    "unat size1 \<le> unat ssize" "unat sbase + unat ssize < 2 ^ 64"
    "at_inputMem t = \<lparr>dm_ptr = Some (INPUT_MEM, base), dm_size = size1\<rparr>" "at_outputMem t = at_inputMem t"
    "at_baseOffset t = base" "unat base + unat size1 < 2 ^ 64"
  using assms by (auto simp: rs_buffers_def)

lemma rs_mem_ready:
  assumes "rs_buffers t base size1" "slice_in (unat size1) s"
  obtains sb sbase where "rs_scratch t r = (r, sb, unat sbase)" "sb \<noteq> INPUT_MEM"
    "rd_localdst (rs_mem t s) = \<lparr>dm_ptr = Some (INPUT_MEM, base + sl_offset s), dm_size = sl_size s\<rparr>"
    "rd_localsrc (rs_mem t s) = rd_localdst (rs_mem t s)" "rd_remoteMemOffset (rs_mem t s) = base + sl_offset s"
    "rd_remoteRcvTemp (rs_mem t s) = \<lparr>dm_ptr = Some (sb, sbase + sl_offset s), dm_size = sl_size s\<rparr>"
    "unat (base + sl_offset s) = unat base + unat (sl_offset s)"
    "unat (sbase + sl_offset s) = unat sbase + unat (sl_offset s)"
proof -
  obtain sb sbase ssize where b: "at_scratchMem t = \<lparr>dm_ptr = Some (sb, sbase), dm_size = ssize\<rparr>" "sb \<noteq> INPUT_MEM"
    "unat size1 \<le> unat ssize" "unat sbase + unat ssize < 2 ^ 64"
    "at_inputMem t = \<lparr>dm_ptr = Some (INPUT_MEM, base), dm_size = size1\<rparr>" "at_outputMem t = at_inputMem t"
    "at_baseOffset t = base" "unat base + unat size1 < 2 ^ 64"
    by (rule rs_buffersD[OF assms(1)])
  have "slice_in (unat ssize) s" using assms(2) b(3) by (simp add: slice_in_def)
  note r = range_of_ready[OF this b(4)] range_of_ready[OF assms(2) b(8)]
  show thesis by (rule that[of sb sbase]) (simp_all add: rs_scratch_def rs_mem_def Let_def b r)
qed

text \<open>As many elements as the slice has, of the size of an element.\<close>

lemma element_bytes: "unat u dvd unat (sz :: u64) \<Longrightarrow> unat (sz div ucast (u :: u32)) * unat u = unat sz"
proof -
  have "unat (ucast u :: u64) = unat u" by (simp add: unsigned_ucast_eq take_bit_nat_eq_self less_trans[OF unsigned_less[of u, where ?'a = nat]])
  then show "unat u dvd unat sz \<Longrightarrow> unat (sz div ucast u) * unat u = unat sz" by (simp add: unat_div)
qed

lemma inline_reduce_stream:
  assumes env: "env_ready env u" and buf: "rs_buffers t base size1"
    and s: "slice_in (unat size1) s" "unat u dvd unat (sl_size s)"
  shows "\<exists>ts. runs (inline_reduce env q (rs_mem t s)) ts \<and>
    stream_of L u r ts = [slice_reduce (rs_input base r) (rs_input base q) s]"
proof -
  obtain sb sbase where m: "rs_scratch t r = (r, sb, unat sbase)" "sb \<noteq> INPUT_MEM"
    "rd_localdst (rs_mem t s) = \<lparr>dm_ptr = Some (INPUT_MEM, base + sl_offset s), dm_size = sl_size s\<rparr>"
    "rd_localsrc (rs_mem t s) = rd_localdst (rs_mem t s)" "rd_remoteMemOffset (rs_mem t s) = base + sl_offset s"
    "rd_remoteRcvTemp (rs_mem t s) = \<lparr>dm_ptr = Some (sb, sbase + sl_offset s), dm_size = sl_size s\<rparr>"
    "unat (base + sl_offset s) = unat base + unat (sl_offset s)"
    "unat (sbase + sl_offset s) = unat sbase + unat (sl_offset s)"
    by (rule rs_mem_ready[OF buf s(1), of r])
  have env': "all_succeed env" "c_dispatcher env" "c_unit env = u" using env by (simp_all add: env_ready_def)
  let ?t = "ReduceRemote q INPUT_MEM (base + sl_offset s) (sl_size s div ucast u) (Some (INPUT_MEM, base + sl_offset s))"
  have "runs (inline_reduce env q (rs_mem t s)) ([?t] @ [])"
    unfolding inline_reduce_def using m env' by (intro runs_andthen) (simp_all add: HcclReduceAsync_remote_def runs_launch_ok runs_done)
  moreover have "stream_of L u r ([?t] @ []) = [slice_reduce (rs_input base r) (rs_input base q) s]"
    using m element_bytes[OF s(2)] by (simp add: slice_reduce_def rs_input_def)
  ultimately show ?thesis by blast
qed

lemma fetch_stream:
  assumes env: "env_ready env u" and buf: "rs_buffers t base size1" and s: "slice_in (unat size1) s"
  shows "\<exists>ts. runs (fetch env q (sl_size s) (rs_mem t s)) ts \<and>
    stream_of L u r ts = map (slice_copy (rs_scratch t r) (rs_input base q)) (filter (\<lambda>s. 0 < sl_size s) [s])"
proof -
  obtain sb sbase where m: "rs_scratch t r = (r, sb, unat sbase)" "sb \<noteq> INPUT_MEM"
    "rd_localdst (rs_mem t s) = \<lparr>dm_ptr = Some (INPUT_MEM, base + sl_offset s), dm_size = sl_size s\<rparr>"
    "rd_localsrc (rs_mem t s) = rd_localdst (rs_mem t s)" "rd_remoteMemOffset (rs_mem t s) = base + sl_offset s"
    "rd_remoteRcvTemp (rs_mem t s) = \<lparr>dm_ptr = Some (sb, sbase + sl_offset s), dm_size = sl_size s\<rparr>"
    "unat (base + sl_offset s) = unat base + unat (sl_offset s)"
    "unat (sbase + sl_offset s) = unat sbase + unat (sl_offset s)"
    by (rule rs_mem_ready[OF buf s, of r])
  have env': "all_succeed env" "c_dispatcher env" using env by (simp_all add: env_ready_def)
  show ?thesis
  proof (cases "sl_size s = 0")
    case True
    then show ?thesis using m env'
      by (intro exI[of _ "[]"]) (simp add: fetch_def HcclD2DMemcpyAsync_remote_def runs_done)
  next
    case False
    then show ?thesis using m env'
      by (intro exI[of _ "[CopyRemote (rd_remoteRcvTemp (rs_mem t s)) q INPUT_MEM (base + sl_offset s) (sl_size s)]"])
        (simp add: fetch_def HcclD2DMemcpyAsync_remote_def runs_launch_ok slice_copy_def rs_input_def word_gt_0)
  qed
qed

lemma reduce_fetched_stream:
  assumes env: "env_ready env u" and buf: "rs_buffers t base size1"
    and s: "slice_in (unat size1) s" "unat u dvd unat (sl_size s)"
  shows "\<exists>ts. runs (HcclReduceAsync env (dm_ptr (rd_remoteRcvTemp (rs_mem t s)))
      (dm_size (rd_localdst (rs_mem t s)) div ucast u) (dm_ptr (rd_localdst (rs_mem t s)))) ts \<and>
    stream_of L u r ts = [slice_reduce (rs_input base r) (rs_scratch t r) s]"
proof -
  obtain sb sbase where m: "rs_scratch t r = (r, sb, unat sbase)" "sb \<noteq> INPUT_MEM"
    "rd_localdst (rs_mem t s) = \<lparr>dm_ptr = Some (INPUT_MEM, base + sl_offset s), dm_size = sl_size s\<rparr>"
    "rd_localsrc (rs_mem t s) = rd_localdst (rs_mem t s)" "rd_remoteMemOffset (rs_mem t s) = base + sl_offset s"
    "rd_remoteRcvTemp (rs_mem t s) = \<lparr>dm_ptr = Some (sb, sbase + sl_offset s), dm_size = sl_size s\<rparr>"
    "unat (base + sl_offset s) = unat base + unat (sl_offset s)"
    "unat (sbase + sl_offset s) = unat sbase + unat (sl_offset s)"
    by (rule rs_mem_ready[OF buf s(1), of r])
  have env': "all_succeed env" "c_dispatcher env" using env by (simp_all add: env_ready_def)
  let ?t = "ReduceLocal (Some (sb, sbase + sl_offset s)) (sl_size s div ucast u) (Some (INPUT_MEM, base + sl_offset s))"
  show ?thesis using m env' element_bytes[OF s(2)]
    by (intro exI[of _ "[?t]"]) (simp add: HcclReduceAsync_def runs_launch_ok slice_reduce_def rs_input_def)
qed

lemma each_stream:
  assumes "\<And>x. x \<in> set xs \<Longrightarrow> \<exists>ts. runs (f x) ts \<and> stream_of L u r ts = g x"
  shows "\<exists>ts. runs (each f xs) ts \<and> stream_of L u r ts = concat (map g xs)"
proof -
  have "\<forall>x\<in>set xs. \<exists>ts. runs (f x) ts \<and> stream_of L u r ts = g x" using assms by blast
  then obtain h where h: "\<forall>x\<in>set xs. runs (f x) (h x) \<and> stream_of L u r (h x) = g x"
    by (rule bchoice[THEN exE])
  have "runs (each f xs) (concat (map h xs))" using h by (intro runs_each) blast
  moreover have "stream_of L u r (concat (map h xs)) = concat (map g xs)"
    using h unfolding stream_of_concat map_map by (intro arg_cong[where f = concat] map_cong) simp_all
  ultimately show ?thesis by blast
qed

lemma each_map: "each f (map g xs) = each (\<lambda>x. f (g x)) xs"
  by (induction xs) simp_all

lemma each_nth: "each (\<lambda>i. f (xs ! i)) [0..<length xs] = each f xs"
  by (metis each_map map_nth)

lemma concat_singles: "concat (map (\<lambda>x. [f x]) xs) = map f xs"
  by (induction xs) simp_all

lemma concat_filters: "concat (map (\<lambda>x. map f (filter P [x])) xs) = map f (filter P xs)"
  by (induction xs) simp_all

text \<open>Both reducers, in the last round and before it, for the same slices on both sides.\<close>

lemma reducer_stream:
  assumes env: "env_ready env u" and buf: "rs_buffers t base size1"
    and ss: "\<forall>s\<in>set ss. slice_in (unat size1) s \<and> unat u dvd unat (sl_size s)"
  shows "\<exists>ts. runs (if inl then if last_round then InlineReduceRxLastStep env t q ss ss else InlineReduceRx env t q ss ss
      else if last_round then TbeReduceRxLastStep env t q ss ss else TbeReduceRx env t q ss ss) ts \<and>
    stream_of L u r ts = rs_actions inl t base r q ss"
proof -
  have unit: "c_unit env = u" using env by (simp add: env_ready_def)
  have out: "at_outputMem t = at_inputMem t" using buf by (auto simp: rs_buffers_def)
  note lists = in_place_same last_step_same[OF out]
  show ?thesis
  proof (cases inl)
    case True
    have "\<exists>ts. runs (each (\<lambda>s. inline_reduce env q (rs_mem t s)) ss) ts \<and>
        stream_of L u r ts = concat (map (\<lambda>s. [slice_reduce (rs_input base r) (rs_input base q) s]) ss)"
      using ss by (intro each_stream inline_reduce_stream[OF env buf]) auto
    then show ?thesis using True
      by (simp add: InlineReduceRxLastStep_def InlineReduceRx_def InlineReducer_def lists each_map rs_actions_def concat_singles)
  next
    case False
    obtain fs where fs: "runs (each (\<lambda>s. fetch env q (sl_size s) (rs_mem t s)) ss) fs"
        "stream_of L u r fs = map (slice_copy (rs_scratch t r) (rs_input base q)) (filter (\<lambda>s. 0 < sl_size s) ss)"
      using each_stream[of ss "\<lambda>s. fetch env q (sl_size s) (rs_mem t s)" L u r, OF fetch_stream[OF env buf]] ss
      unfolding concat_filters by blast
    obtain rs where rs: "runs (each (\<lambda>s. HcclReduceAsync env (dm_ptr (rd_remoteRcvTemp (rs_mem t s)))
        (dm_size (rd_localdst (rs_mem t s)) div ucast u) (dm_ptr (rd_localdst (rs_mem t s)))) ss) rs"
        "stream_of L u r rs = map (slice_reduce (rs_input base r) (rs_scratch t r)) ss"
      using each_stream[of ss "\<lambda>s. HcclReduceAsync env (dm_ptr (rd_remoteRcvTemp (rs_mem t s)))
        (dm_size (rd_localdst (rs_mem t s)) div ucast u) (dm_ptr (rd_localdst (rs_mem t s)))" L u r,
        OF reduce_fetched_stream[OF env buf]] ss
      unfolding concat_singles by blast
    have src: "rd_localsrc (rs_mem t s) = rd_localdst (rs_mem t s)" for s by (simp add: rs_mem_def Let_def)
    have get: "each (\<lambda>i. fetch env q (sl_size (ss ! i)) (map (rs_mem t) ss ! i)) [0..<length ss] =
        each (\<lambda>s. fetch env q (sl_size s) (rs_mem t s)) ss"
    proof -
      have "each (\<lambda>i. fetch env q (sl_size (ss ! i)) (map (rs_mem t) ss ! i)) is =
          each (\<lambda>i. fetch env q (sl_size (ss ! i)) (rs_mem t (ss ! i))) is" if "set is \<subseteq> {..<length ss}" for "is"
        using that by (induction "is") simp_all
      then show ?thesis using each_nth[of "\<lambda>s. fetch env q (sl_size s) (rs_mem t s)" ss] by (simp add: lessThan_atLeast0)
    qed
    show ?thesis using False runs_andthen[OF fs(1) rs(1)] fs(2) rs(2)
      by (intro exI[of _ "fs @ rs"])
        (simp add: TbeReduceRxLastStep_def TbeReduceRx_def Let_def lists get each_map rs_actions_def unit src)
  qed
qed

section \<open>The two ends of a writing link\<close>

text \<open>What is received through the output buffer, and what the sender does to its partner's memory.\<close>

definition rs_inbox :: "u64 \<Rightarrow> nat \<Rightarrow> nat \<times> UserMemType \<times> nat" where
  "rs_inbox base r = (r, OUTPUT_MEM, unat base)"

definition rs_sent :: "bool \<Rightarrow> u64 \<Rightarrow> nat \<Rightarrow> nat \<Rightarrow> Slice list \<Rightarrow> action list" where
  "rs_sent remote base r q ss = map (if remote then slice_reduce (rs_input base q) (rs_input base r)
     else slice_copy (rs_inbox base q) (rs_input base r)) ss"

definition rs_send :: "'a AlgTemplate_scheme \<Rightarrow> Slice \<Rightarrow> SenderMemoryInfo" where
  "rs_send t s = \<lparr>sm_dstOffset = at_baseOffset t + sl_offset s, sm_src = range_of (at_inputMem t) (sl_offset s) (sl_size s)\<rparr>"

lemma sends_same: "map (\<lambda>i. \<lparr>sm_dstOffset = at_baseOffset t + sl_offset (ss ! i),
    sm_src = range_of (at_inputMem t) (sl_offset (ss ! i)) (sl_size (ss ! i))\<rparr>) [0..<length ss] = map (rs_send t) ss"
  by (simp add: map_over_indices[of "rs_send t"] rs_send_def)

lemma sent_moves:
  assumes "rs_buffers t base size1" "\<forall>s\<in>set ss. slice_in (unat size1) s"
  shows "concat (map (tx_combine r q) (sender_infos INPUT_MEM (map (rs_send t) ss))) =
      map (slice_reduce (rs_input base q) (rs_input base r)) ss"
    "concat (map (tx_move r q) (sender_infos OUTPUT_MEM (map (rs_send t) ss))) =
      map (slice_copy (rs_inbox base q) (rs_input base r)) ss"
proof -
  have b: "at_inputMem t = \<lparr>dm_ptr = Some (INPUT_MEM, base), dm_size = size1\<rparr>" "at_baseOffset t = base"
    "unat base + unat size1 < 2 ^ 64" using assms(1) by (auto simp: rs_buffers_def)
  have one: "range_of (at_inputMem t) (sl_offset s) (sl_size s) = \<lparr>dm_ptr = Some (INPUT_MEM, base + sl_offset s), dm_size = sl_size s\<rparr>"
    "unat (base + sl_offset s) = unat base + unat (sl_offset s)" if "s \<in> set ss" for s
    using range_of_ready[of size1 s base] assms(2) that b by simp_all
  show "concat (map (tx_combine r q) (sender_infos INPUT_MEM (map (rs_send t) ss))) =
      map (slice_reduce (rs_input base q) (rs_input base r)) ss"
    "concat (map (tx_move r q) (sender_infos OUTPUT_MEM (map (rs_send t) ss))) =
      map (slice_copy (rs_inbox base q) (rs_input base r)) ss"
    using one
    by (induction ss) (simp_all add: sender_infos_def rs_send_def b(2) slice_reduce_def slice_copy_def rs_input_def rs_inbox_def)
qed

lemma sender_stream:
  assumes env: "env_ready env u" and buf: "rs_buffers t base size1"
    and ss: "\<forall>s\<in>set ss. slice_in (unat size1) s \<and> d dvd unat (sl_size s)"
    and remote: "remote \<longleftrightarrow> lc_rdmaDevice caps \<and> RDMA_REDUCE_BITMASK AND attr \<noteq> 0"
    and link: "l_class (L q) = TransportIbverbs" "IsSpInlineReduce (L q) = False"
      "lc_rdmaDevice caps \<Longrightarrow> l_linkType (L q) = LINK_STANDARD_ROCE \<Longrightarrow> remote"
  shows "\<exists>ts. runs (Sender_run env caps attr (L q) q (map (rs_send t) ss)) ts \<and>
    stream_of L u' r ts = rs_sent remote base r q ss @ [Post q SendReady]"
proof -
  have succ: "all_succeed env" using env by (simp add: env_ready_def)
  have "\<forall>s\<in>set ss. slice_in (unat size1) s" using ss by blast
  note moves = sent_moves[OF buf this, of r q]
  show ?thesis
  proof (cases remote)
    case True
    then have "runs (Sender_run env caps attr (L q) q (map (rs_send t) ss)) [LinkCall q (TxWithReduce (sender_infos INPUT_MEM (map (rs_send t) ss)))]"
      using remote link(1) by (simp add: Sender_run_def IsSupportTransportWithReduce_def runs_call[OF succ])
    then show ?thesis using True link(1) moves(1) by (intro exI conjI) (assumption, simp add: rs_sent_def)
  next
    case False
    then have no: "\<not> (IsSupportTransportWithReduce caps (L q) \<and> (l_linkType (L q) = LINK_STANDARD_ROCE \<or> RDMA_REDUCE_BITMASK AND attr \<noteq> 0))"
      using remote link(1,3) by (auto simp: IsSupportTransportWithReduce_def)
    have "runs (Sender_run env caps attr (L q) q (map (rs_send t) ss)) [LinkCall q (TxAsync (sender_infos OUTPUT_MEM (map (rs_send t) ss)))]"
      unfolding Sender_run_def if_not_P[OF no] using link(2) by (simp add: runs_call[OF succ])
    then show ?thesis using False link(1) moves(2) by (intro exI conjI) (assumption, simp add: rs_sent_def)
  qed
qed

lemma receiver_stream:
  assumes env: "env_ready env u" and buf: "rs_buffers t base size1"
    and ss: "\<forall>s\<in>set ss. slice_in (unat size1) s \<and> unat u dvd unat (sl_size s)"
    and remote: "remote \<longleftrightarrow> lc_rdmaDevice caps \<and> RDMA_REDUCE_BITMASK AND attr \<noteq> 0"
    and link: "l_class (L q) = TransportIbverbs" "IsSpInlineReduce (L q) = False"
      "lc_rdmaDevice caps \<Longrightarrow> l_linkType (L q) = LINK_STANDARD_ROCE \<Longrightarrow> remote"
    and ack: "\<not> lc_dataAck caps q"
  shows "\<exists>ts. runs (Reducer_run env caps attr done_ok done_ok (L q) q (map (rs_mem t) ss) RESULT_INPUT_MEM) ts \<and>
    stream_of L u r ts = [Await q SendReady] @ (if remote then [] else map (slice_reduce (rs_input base r) (rs_scratch t r)) ss)"
proof -
  have env': "all_succeed env" "c_stream env" "c_unit env = u" using env by (simp_all add: env_ready_def)
  let ?rx = "LinkCall q (RxAsync (PrepareRxMems (map (rs_mem t) ss)))"
  show ?thesis
  proof (cases remote)
    case True
    have "Reducer_run env caps attr done_ok done_ok (L q) q (map (rs_mem t) ss) RESULT_INPUT_MEM =
        all_of [call env q (RxAsync (PrepareRxMems (map (rs_mem t) ss))), done_ok, done_ok, done_ok, done_ok]"
      using True remote link(1) env'(2) ack by (simp add: Reducer_run_def IsSupportTransportWithReduce_def Let_def)
    moreover have "runs (all_of [call env q (RxAsync (PrepareRxMems (map (rs_mem t) ss))), done_ok, done_ok, done_ok, done_ok])
        ([?rx] @ [] @ [] @ [] @ [] @ [])"
      by (intro runs_all_of runs_call env'(1) runs_done)
    ultimately show ?thesis using True link(1) by (intro exI[of _ "[?rx] @ [] @ [] @ [] @ [] @ []"]) simp
  next
    case False
    have src: "rd_localsrc (rs_mem t s) = rd_localdst (rs_mem t s)" for s by (simp add: rs_mem_def Let_def)
    have mems: "each (reduce_received env) (PrepareRxWithReduceMems env (map (rs_mem t) ss)) =
        each (\<lambda>s. HcclReduceAsync env (dm_ptr (rd_remoteRcvTemp (rs_mem t s)))
          (dm_size (rd_localdst (rs_mem t s)) div ucast u) (dm_ptr (rd_localdst (rs_mem t s)))) ss"
      by (simp add: PrepareRxWithReduceMems_def each_map reduce_received_def src env'(3))
    obtain rs where rs: "runs (each (reduce_received env) (PrepareRxWithReduceMems env (map (rs_mem t) ss))) rs"
        "stream_of L u r rs = map (slice_reduce (rs_input base r) (rs_scratch t r)) ss"
      using each_stream[of ss "\<lambda>s. HcclReduceAsync env (dm_ptr (rd_remoteRcvTemp (rs_mem t s)))
        (dm_size (rd_localdst (rs_mem t s)) div ucast u) (dm_ptr (rd_localdst (rs_mem t s)))" L u r,
        OF reduce_fetched_stream[OF env buf]] ss
      unfolding concat_singles mems by blast
    have no: "\<not> (IsSupportTransportWithReduce caps (L q) \<and> RDMA_REDUCE_BITMASK AND attr \<noteq> 0)"
      "\<not> (IsSupportTransportWithReduce caps (L q) \<and> l_linkType (L q) = LINK_STANDARD_ROCE)"
      using False remote link(1,3) by (auto simp: IsSupportTransportWithReduce_def)
    have "Reducer_run env caps attr done_ok done_ok (L q) q (map (rs_mem t) ss) RESULT_INPUT_MEM =
        all_of [done_ok, call env q (RxAsync (PrepareRxMems (map (rs_mem t) ss))), done_ok, done_ok,
          each (reduce_received env) (PrepareRxWithReduceMems env (map (rs_mem t) ss))]"
      unfolding Reducer_run_def Let_def if_not_P[OF no(1)] if_not_P[OF no(2)] using link(2) env'(2) ack by simp
    moreover have "runs (all_of [done_ok, call env q (RxAsync (PrepareRxMems (map (rs_mem t) ss))), done_ok, done_ok,
          each (reduce_received env) (PrepareRxWithReduceMems env (map (rs_mem t) ss))]) ([] @ [?rx] @ [] @ [] @ rs @ [])"
      by (intro runs_all_of runs_call env'(1) runs_done rs(1))
    ultimately show ?thesis using False link(1) rs(2) by (intro exI[of _ "[] @ [?rx] @ [] @ [] @ rs @ []"]) simp
  qed
qed

section \<open>A rank's rounds\<close>

definition rs_map :: "(ReduceScatterNHR, 'v) gather_run \<Rightarrow> nat list" where
  "rs_map S = GetRankMapping (gr_ranks S) (\<not> nb_isNeedMerge (gr_tpl S 0)) []"

definition rs_rounds :: "('t, 'v) gather_run \<Rightarrow> nat" where
  "rs_rounds S = GetStepNumInterServer (gr_ranks S)"

definition rs_run :: "link_caps \<Rightarrow> (ReduceScatterNHR, 'v) gather_run \<Rightarrow> nat \<Rightarrow> HcclResult \<times> task list" where
  "rs_run caps S r = snd (ReduceScatterNHR_RunAsync (gr_env S r) caps r (gr_ranks S) (gr_links S r) (gr_tpl S r)) []"

definition rs_stream :: "link_caps \<Rightarrow> (ReduceScatterNHR, 'v) gather_run \<Rightarrow> nat \<Rightarrow> action list" where
  "rs_stream caps S r = stream_of (gr_link S r) (gr_unit S) r (snd (rs_run caps S r))"

abbreviation rs_from :: "('t, 'v) gather_run \<Rightarrow> nat \<Rightarrow> nat \<Rightarrow> nat" where
  "rs_from S s r \<equiv> fwd (gr_ranks S) r (2 ^ s)"

abbreviation rs_to :: "('t, 'v) gather_run \<Rightarrow> nat \<Rightarrow> nat \<Rightarrow> nat" where
  "rs_to S s r \<equiv> bwd (gr_ranks S) r (2 ^ s)"

text \<open>The slices rank \<open>r\<close> receives: as its partner sends them, and as it reduces them.\<close>

definition rs_merged :: "(ReduceScatterNHR, 'v) gather_run \<Rightarrow> nat \<Rightarrow> nat \<Rightarrow> Slice list" where
  "rs_merged S s r = MergeSlices (nb_isNeedMerge (gr_tpl S 0))
     (map ((!) (gr_slices S)) (slice_idxs (rs_map S) (gr_k S) (rs_rx (gr_ranks S) s r)))"

definition rs_slices :: "(ReduceScatterNHR, 'v) gather_run \<Rightarrow> nat \<Rightarrow> nat \<Rightarrow> Slice list" where
  "rs_slices S s r = (if s = rs_rounds S - 1
     then map ((!) (gr_slices S)) (slice_idxs (rs_map S) (gr_k S) (rs_rx (gr_ranks S) s r)) else rs_merged S s r)"

text \<open>On writing links: what rank \<open>r\<close> does to its partner's memory, and then to its own.\<close>

definition rs_given :: "link_caps \<Rightarrow> (ReduceScatterNHR, 'v) gather_run \<Rightarrow> nat \<Rightarrow> nat \<Rightarrow> action list" where
  "rs_given caps S s r = rs_sent (remote_mode caps S) (gr_base S) r (rs_to S s r) (rs_merged S s (rs_to S s r))"

definition rs_own :: "link_caps \<Rightarrow> (ReduceScatterNHR, 'v) gather_run \<Rightarrow> nat \<Rightarrow> nat \<Rightarrow> action list" where
  "rs_own caps S s r = (if remote_mode caps S then []
     else map (slice_reduce (rs_input (gr_base S) r) (rs_inbox (gr_base S) r)) (rs_slices S s r))"

definition rs_work :: "link_caps \<Rightarrow> (ReduceScatterNHR, 'v) gather_run \<Rightarrow> nat \<Rightarrow> nat \<Rightarrow> action list" where
  "rs_work caps S s r = (if gr_rdma S then rs_given caps S s (rs_from S s r) @ rs_own caps S s r
     else rs_actions (inline_mode (gr_tpl S r)) (gr_tpl S r) (gr_base S) r (rs_from S s r) (rs_slices S s r))"

definition rs_exchange :: "link_caps \<Rightarrow> (ReduceScatterNHR, 'v) gather_run \<Rightarrow> nat \<Rightarrow> nat \<Rightarrow> action list" where
  "rs_exchange caps S s r = concat (if gr_rdma S
     then exchange_phases True True True (rs_barrierSwitchOn (gr_tpl S 0)) (rs_barrierSwitchOn (gr_tpl S 0))
       (rs_to S s r) (rs_from S s r) (rs_given caps S s r) (rs_own caps S s r)
     else read_phases (rs_to S s r) (rs_from S s r) (rs_work caps S s r))"

lemma GetSliceMap_mapping: "GetSliceMap N sm = GetRankMapping N False sm"
  by (simp add: GetSliceMap_def GetRankMapping_def GetStepNumInterServer_def Let_def)

lemma rs_reduce_ok: "rs_ok caps S \<Longrightarrow> reduce_slices_ok S"
  by (simp add: rs_ok_def)

lemma rs_map_perm: "reduce_slices_ok S \<Longrightarrow> perm_of (gr_ranks S) (rs_map S)"
  unfolding rs_map_def by (intro GetRankMapping_perm_of) (auto dest: reduce_slicesD(2))

lemma rs_rx_ranks: "0 < N \<Longrightarrow> set (rs_rx N s r) \<subseteq> {..<N}"
  by (auto simp: rs_rx_def)

lemma rs_slices_either:
  assumes "reduce_slices_ok S" "r < gr_ranks S" "s < rs_rounds S" and ts: "ts = rs_slices S s r \<or> ts = rs_merged S s r"
  shows "cover ts = (\<Union>l\<in>set (rs_rx (gr_ranks S) s r). part (gr_slices S) (rs_map S) (gr_k S) l)"
    "\<forall>s'\<in>set ts. slice_in (unat (gr_size S)) s' \<and> unat (gr_unit S) dvd unat (sl_size s')"
    "hits ts x \<le> 1"
proof -
  note ok = reduce_slicesD[OF assms(1)]
  let ?N = "gr_ranks S" and ?m = "nb_isNeedMerge (gr_tpl S 0)"
  let ?ix = "slice_idxs (rs_map S) (gr_k S) (rs_rx ?N s r)"
  let ?ss = "map ((!) (gr_slices S)) ?ix"
  have sub: "set (rs_rx ?N s r) \<subseteq> {..<?N}" by (rule rs_rx_ranks) (use ok in simp)
  have dist: "distinct (rs_rx ?N s r)"
    using rs_rx_nhr[OF ok(1,3) assms(2)] assms(3) nhr_rx_distinct[OF ok(1,3)] ok(1) by (simp add: rs_rounds_def)
  note perm = rs_map_perm[OF assms(1)]
  note rc = round_cover[OF perm ok(4,5) sub]
  have len: "gr_ranks S * gr_k S < 2 ^ 32" using ok(4,5) by simp
  note ix = slice_idxs_distinct[OF perm len sub dist]
  have h: "hits ?ss x \<le> 1" by (rule hits_selected[OF ok(10) ix(1)]) (use ix(2) ok(4) in simp)
  have all: "\<forall>s'\<in>set ?ss. slice_in (unat (gr_size S)) s' \<and> unat (gr_unit S) dvd unat (sl_size s')"
    using rc(2) ok(6,11) by blast
  have which: "ts = ?ss \<or> ts = MergeSlices ?m ?ss"
    using ts unfolding rs_slices_def rs_merged_def by presburger
  have sin: "\<forall>s'\<in>set ?ss. slice_in (unat (gr_size S)) s'" using all by blast
  show "cover ts = (\<Union>l\<in>set (rs_rx ?N s r). part (gr_slices S) (rs_map S) (gr_k S) l)"
    using MergeSlices_spec(1)[OF sin ok(8), of ?m] rc(1) which by metis
  show "\<forall>s'\<in>set ts. slice_in (unat (gr_size S)) s' \<and> unat (gr_unit S) dvd unat (sl_size s')"
    using MergeSlices_spec(2)[OF sin ok(8), of ?m] MergeSlices_dvd[OF all ok(8), of ?m] all
      which by metis
  show "hits ts x \<le> 1"
    using MergeSlices_hits[OF sin ok(8), of ?m x] h which by metis
qed

lemmas rs_slices_spec = rs_slices_either[OF _ _ _ disjI1[OF refl]]
lemmas rs_merged_spec = rs_slices_either[OF _ _ _ disjI2[OF refl]]

lemma rs_read_round_stream:
  assumes ok: "rs_ok caps S" and kind: "\<not> gr_rdma S" and r: "r < gr_ranks S" and s: "s < rs_rounds S"
    and t: "at_slices t = gr_slices S" "nb_sliceMap t = rs_map S" "nb_isNeedMerge t = nb_isNeedMerge (gr_tpl S 0)"
      "rs_buffers t (gr_base S) (gr_size S)" "rs_reduceAttr t = rs_reduceAttr (gr_tpl S r)"
      "at_scratchMem t = at_scratchMem (gr_tpl S r)"
  shows "\<exists>ts. runs (rs_round (gr_env S r) caps t r (gr_ranks S) (gr_links S r) (gr_slices S) (gr_slices S) (rs_rounds S) s) ts \<and>
    stream_of (gr_link S r) (gr_unit S) r ts = concat (read_phases (rs_to S s r) (rs_from S s r) (rs_work caps S s r))"
proof -
  note red = rs_reduce_ok[OF ok]
  note N = reduce_slicesD[OF red] and rank = rs_okD[OF ok r]
  have succ: "all_succeed (gr_env S r)" using rank(1) by (simp add: env_ready_def)
  let ?N = "gr_ranks S" and ?k = "gr_k S" and ?c = "nhr_count (gr_ranks S) (mirror (gr_ranks S) s)"
  note info = rs_info[OF N(1,3) r s[unfolded rs_rounds_def], of t, unfolded t(1,2) N(7) Let_def]
  have cnt: "w32 (?c * ?k) = ?c * ?k"
  proof (rule w32_id)
    have "?c * ?k \<le> ?N * ?k" by (intro mult_le_mono1 nhr_count_le[OF N(1,3)])
    then show "?c * ?k < 2 ^ 32" using N(4,5) by linarith
  qed
  have "length (slice_idxs (rs_map S) ?k (rs_rx ?N s r)) = ?c * ?k"
    using slice_idxs_map(2)[OF rs_map_perm[OF red] N(4,5) rs_rx_ranks, of s r] N(1) by (simp add: rs_rx_def)
  then have at: "slices_at (gr_slices S) (slice_idxs (rs_map S) ?k (rs_rx ?N s r)) (?c * ?k) =
      map ((!) (gr_slices S)) (slice_idxs (rs_map S) ?k (rs_rx ?N s r))"
    by (simp only: slices_at_def map_over_indices[of "(!) (gr_slices S)"])
  have partners: "rs_from S s r < ?N" "rs_to S s r < ?N" using N by simp_all
  note links = link_class[OF rank(2) partners(1)] link_class[OF rank(2) partners(2)]
  let ?red = "if inline_mode t
    then if s = rs_rounds S - 1 then InlineReduceRxLastStep (gr_env S r) t (rs_from S s r) (rs_slices S s r) (rs_slices S s r)
         else InlineReduceRx (gr_env S r) t (rs_from S s r) (rs_slices S s r) (rs_slices S s r)
    else if s = rs_rounds S - 1 then TbeReduceRxLastStep (gr_env S r) t (rs_from S s r) (rs_slices S s r) (rs_slices S s r)
         else TbeReduceRx (gr_env S r) t (rs_from S s r) (rs_slices S s r) (rs_slices S s r)"
  have "SdmaReducer (gr_env S r) t (rs_rounds S) (rs_from S s r) (ReduceScatterNHR_GetStepInfo t s r ?N) (gr_slices S) (gr_slices S) = ?red"
    unfolding SdmaReducer_def GetRxSlices_def info cnt
    by (simp add: at Let_def rs_slices_def rs_merged_def inline_mode_def t(3))
  then have round: "rs_round (gr_env S r) caps t r ?N (gr_links S r) (gr_slices S) (gr_slices S) (rs_rounds S) s =
      all_of [call (gr_env S r) (rs_to S s r) TxAck, call (gr_env S r) (rs_from S s r) RxAck, ?red,
        call (gr_env S r) (rs_from S s r) TxDataSignal, call (gr_env S r) (rs_to S s r) RxDataSignal]"
    unfolding rs_round_def Let_def using links kind by (simp add: info)
  obtain us where us: "runs ?red us" "stream_of (gr_link S r) (gr_unit S) r us =
      rs_actions (inline_mode t) t (gr_base S) r (rs_from S s r) (rs_slices S s r)"
    using reducer_stream[OF rank(1) t(4) rs_slices_spec(2)[OF red r s]] by blast
  let ?ts = "[LinkCall (rs_to S s r) TxAck] @ [LinkCall (rs_from S s r) RxAck] @ us @
      [LinkCall (rs_from S s r) TxDataSignal] @ [LinkCall (rs_to S s r) RxDataSignal] @ []"
  have "rs_scratch t r = rs_scratch (gr_tpl S r) r" "inline_mode t = inline_mode (gr_tpl S r)"
    using t(5,6) by (simp_all add: rs_scratch_def inline_mode_def)
  then have "stream_of (gr_link S r) (gr_unit S) r us = rs_work caps S s r"
    using us(2) kind by (simp add: rs_work_def rs_actions_def)
  then have "stream_of (gr_link S r) (gr_unit S) r ?ts = concat (read_phases (rs_to S s r) (rs_from S s r) (rs_work caps S s r))"
    using links kind by (simp add: read_phases_def gr_link_def)
  moreover have "runs (all_of [call (gr_env S r) (rs_to S s r) TxAck, call (gr_env S r) (rs_from S s r) RxAck, ?red,
        call (gr_env S r) (rs_from S s r) TxDataSignal, call (gr_env S r) (rs_to S s r) RxDataSignal]) ?ts"
    by (intro runs_all_of runs_call succ us(1))
  ultimately show ?thesis unfolding round by blast
qed

text \<open>On a writing link.\<close>

lemma rs_write_round_stream:
  assumes ok: "rs_ok caps S" and kind: "gr_rdma S" and r: "r < gr_ranks S" and s: "s < rs_rounds S"
    and t: "at_slices t = gr_slices S" "nb_sliceMap t = rs_map S" "nb_isNeedMerge t = nb_isNeedMerge (gr_tpl S 0)"
      "rs_buffers t (gr_base S) (gr_size S)" "rs_reduceAttr t = rs_reduceAttr (gr_tpl S r)"
      "at_scratchMem t = at_scratchMem (gr_tpl S r)" "rs_barrierSwitchOn t = rs_barrierSwitchOn (gr_tpl S r)"
  shows "\<exists>ts. runs (rs_round (gr_env S r) caps t r (gr_ranks S) (gr_links S r) (gr_slices S) (gr_slices S) (rs_rounds S) s) ts \<and>
    stream_of (gr_link S r) (gr_unit S) r ts = rs_exchange caps S s r"
proof -
  note red = rs_reduce_ok[OF ok]
  note N = reduce_slicesD[OF red] and rank = rs_okD[OF ok r]
  have w: "writes_ready caps S" using ok kind by (simp add: rs_ok_def)
  note W = writes_readyD[OF w r]
  have succ: "all_succeed (gr_env S r)" using rank(1) by (simp add: env_ready_def)
  let ?N = "gr_ranks S" and ?k = "gr_k S" and ?c = "nhr_count (gr_ranks S) (mirror (gr_ranks S) s)"
  let ?from = "rs_from S s r" and ?to = "rs_to S s r" and ?info = "ReduceScatterNHR_GetStepInfo t s r (gr_ranks S)"
  note info = rs_info[OF N(1,3) r s[unfolded rs_rounds_def], of t, unfolded t(1,2) N(7) Let_def]
  have cnt: "w32 (?c * ?k) = ?c * ?k"
  proof (rule w32_id)
    have "?c * ?k \<le> ?N * ?k" by (intro mult_le_mono1 nhr_count_le[OF N(1,3)])
    then show "?c * ?k < 2 ^ 32" using N(4,5) by linarith
  qed
  have at: "slices_at (gr_slices S) (slice_idxs (rs_map S) ?k (rs_rx ?N s q)) (?c * ?k) =
      map ((!) (gr_slices S)) (slice_idxs (rs_map S) ?k (rs_rx ?N s q))" for q
  proof -
    have "length (slice_idxs (rs_map S) ?k (rs_rx ?N s q)) = ?c * ?k"
      using slice_idxs_map(2)[OF rs_map_perm[OF red] N(4,5) rs_rx_ranks, of s q] N(1) by (simp add: rs_rx_def)
    then show ?thesis by (simp only: slices_at_def map_over_indices[of "(!) (gr_slices S)"])
  qed
  have partners: "?from < ?N" "?to < ?N" using N by simp_all
  note links = link_class[OF rank(2) partners(1)] link_class[OF rank(2) partners(2)]
  have mode: "remote_mode caps S \<longleftrightarrow> lc_rdmaDevice caps \<and> RDMA_REDUCE_BITMASK AND rs_reduceAttr t \<noteq> 0"
    using t(5) W(2) by (simp add: remote_mode_def)
  have scratch: "rs_scratch t r = rs_inbox (gr_base S) r" using t(6) W(1) by (simp add: rs_scratch_def rs_inbox_def)
  have inl: "IsSpInlineReduce (gr_link S r ?from) = False" "IsSpInlineReduce (gr_link S r ?to) = False"
    using links kind by (auto simp: link_inline_def has_link_def gr_link_def split: option.splits)
  have cls: "l_class (gr_link S r ?from) = TransportIbverbs" "l_class (gr_link S r ?to) = TransportIbverbs"
    using links kind by (simp_all add: gr_link_def)
  let ?send = "RunSourceSender (gr_env S r) caps t (gr_link S r ?to) ?to ?info (gr_slices S) (gr_slices S)"
  let ?recv = "if s = rs_rounds S - 1
      then RunDestReducerLastStep (gr_env S r) caps t (gr_link S r ?from) ?from ?info (gr_slices S) (gr_slices S)
      else RunDestReducer (gr_env S r) caps t (gr_link S r ?from) ?from ?info (gr_slices S) (gr_slices S)"
  let ?bar = "if rs_barrierSwitchOn t then NHRBase_ExecuteBarrier (gr_env S r) ?from ?to else done_ok"
  have round: "rs_round (gr_env S r) caps t r ?N (gr_links S r) (gr_slices S) (gr_slices S) (rs_rounds S) s =
      all_of [call (gr_env S r) ?from TxAck, call (gr_env S r) ?to RxAck, ?send, ?recv,
        call (gr_env S r) ?from PostFinAck, call (gr_env S r) ?to WaitFinAck, ?bar]"
  proof -
    have ends: "st_fromRank ?info = ?from" "st_toRank ?info = ?to" by (simp_all add: info)
    show ?thesis unfolding rs_round_def Let_def ends using links kind by (simp add: gr_link_def)
  qed
  have out: "at_outputMem t = at_inputMem t" using t(4) by (auto simp: rs_buffers_def)
  have send: "?send = Sender_run (gr_env S r) caps (rs_reduceAttr t) (gr_link S r ?to) ?to (map (rs_send t) (rs_merged S s ?to))"
    unfolding RunSourceSender_def Let_def info by (simp add: cnt at t(3) rs_merged_def[symmetric] sends_same)
  have rx: "slices_at (gr_slices S) (st_rxSliceIdxs ?info) (st_nSlices ?info) =
      map ((!) (gr_slices S)) (slice_idxs (rs_map S) ?k (rs_rx ?N s r))"
    by (simp add: info cnt at)
  have recv: "?recv = Reducer_run (gr_env S r) caps (rs_reduceAttr t) done_ok done_ok (gr_link S r ?from) ?from
      (map (rs_mem t) (rs_slices S s r)) RESULT_INPUT_MEM"
    unfolding RunDestReducerLastStep_def RunDestReducer_def GetRxSlices_def Let_def rx
    by (simp add: t(3) rs_merged_def[symmetric] in_place_same last_step_same[OF out] rs_slices_def)
  obtain us where us: "runs ?send us" "stream_of (gr_link S r) (gr_unit S) r us = rs_given caps S s r @ [Post ?to SendReady]"
    using sender_stream[where L = "gr_link S r" and q = ?to and r = r and u' = "gr_unit S",
        OF rank(1) t(4) rs_merged_spec(2)[OF red partners(2) s] mode cls(2) inl(2) W(5)[OF partners(2)]]
    unfolding send rs_given_def by blast
  obtain vs where vs: "runs ?recv vs" "stream_of (gr_link S r) (gr_unit S) r vs = [Await ?from SendReady] @ rs_own caps S s r"
    using receiver_stream[where L = "gr_link S r" and q = ?from and r = r,
        OF rank(1) t(4) rs_slices_spec(2)[OF red r s] mode cls(1) inl(1) W(5)[OF partners(1)] W(4)[OF partners(1)]]
    unfolding recv rs_own_def scratch by blast
  have bar: "rs_barrierSwitchOn t = rs_barrierSwitchOn (gr_tpl S 0)" using t(7) W(3) by simp
  let ?bs = "if rs_barrierSwitchOn t then [LinkCall ?from TxAck] @ [LinkCall ?to RxAck] @ [LinkCall ?to TxDataSignal] @
      [LinkCall ?from RxDataSignal] @ [LinkCall ?from PostFinAck] @ [LinkCall ?to WaitFinAck] @ [] else []"
  have bs: "runs ?bar ?bs" unfolding NHRBase_ExecuteBarrier_def by (intro runs_if runs_all_of runs_call succ)
  let ?ts = "[LinkCall ?from TxAck] @ [LinkCall ?to RxAck] @ us @ vs @ [LinkCall ?from PostFinAck] @ [LinkCall ?to WaitFinAck] @ ?bs @ []"
  have "runs (rs_round (gr_env S r) caps t r ?N (gr_links S r) (gr_slices S) (gr_slices S) (rs_rounds S) s) ?ts"
    unfolding round by (intro runs_all_of runs_call succ us(1) vs(1) bs)
  moreover have "stream_of (gr_link S r) (gr_unit S) r ?ts = rs_exchange caps S s r"
    using kind cls us(2) vs(2) bar by (simp add: rs_exchange_def exchange_phases_def)
  ultimately show ?thesis by blast
qed

text \<open>On both kinds.\<close>

lemma rs_round_stream:
  assumes ok: "rs_ok caps S" and r: "r < gr_ranks S" and s: "s < rs_rounds S"
    and t: "at_slices t = gr_slices S" "nb_sliceMap t = rs_map S" "nb_isNeedMerge t = nb_isNeedMerge (gr_tpl S 0)"
      "rs_buffers t (gr_base S) (gr_size S)" "rs_reduceAttr t = rs_reduceAttr (gr_tpl S r)"
      "at_scratchMem t = at_scratchMem (gr_tpl S r)" "rs_barrierSwitchOn t = rs_barrierSwitchOn (gr_tpl S r)"
  shows "\<exists>ts. runs (rs_round (gr_env S r) caps t r (gr_ranks S) (gr_links S r) (gr_slices S) (gr_slices S) (rs_rounds S) s) ts \<and>
    stream_of (gr_link S r) (gr_unit S) r ts = rs_exchange caps S s r"
proof (cases "gr_rdma S")
  case False
  then show ?thesis using rs_read_round_stream[OF ok False r s t(1-6)] by (simp add: rs_exchange_def)
qed (rule rs_write_round_stream[OF ok _ r s t])

end
