(* ===== verification/ReduceProof.thy ===== *)
theory ReduceProof
  imports ReduceSteps
begin

text \<open>
  ReduceScatter on both kinds of links: no interleaving of the ranks' streams blocks, and at the
  end every rank holds the reduction of its part over all ranks, whether the data is reduced over
  the link, by the receiver or by the sender, or through scratch memory.
\<close>

section \<open>A rank's program\<close>

definition rs_state :: "(ReduceScatterNHR, 'v) gather_run \<Rightarrow> nat \<Rightarrow> ReduceScatterNHR" where
  "rs_state S r = (gr_tpl S r)\<lparr>nb_sliceMap := rs_map S, at_slices := gr_slices S\<rparr>"

lemma rs_update_commute:
  "(t :: ReduceScatterNHR)\<lparr>at_slices := x, nb_sliceMap := y\<rparr> = t\<lparr>nb_sliceMap := y, at_slices := x\<rparr>"
  by (cases t) simp

lemma rs_output_in_place:
  "at_outputMem t = at_inputMem t \<Longrightarrow> rs_output_slices t N (at_count t * ucast u) = output_slices t N u"
  by (simp add: rs_output_slices_def output_slices_def even_slices_def mult.commute)

lemma RS_RunAsync_fresh:
  assumes "nb_sliceMap t = []" "env_ready env u" "rs_buffers t base size1" "N \<noteq> 0" "N \<noteq> 1" "N \<le> length links"
    and m: "m = GetRankMapping N (\<not> nb_isNeedMerge t) []" "length m = N"
    and sl: "sl = output_slices t N u" "length sl mod N = 0"
    and t2: "t2 = t\<lparr>nb_sliceMap := m, at_slices := sl\<rparr>"
  shows "ReduceScatterNHR_RunAsync env caps r N links t = (t2, RunReduceScatterNHR env caps t2 r N links sl sl)"
proof -
  have env: "c_dispatcher env" "c_stream env" "c_unit env = u" "u \<noteq> 0" using assms(2) by (simp_all add: env_ready_def)
  have l: "\<not> length links < N" using assms by simp
  have mem: "at_outputMem t = at_inputMem t" "dm_ptr (at_inputMem t) \<noteq> None"
    using assms(3) by (auto simp: rs_buffers_def)
  have check: "ReduceScatterNHR_SimpleCheck env t N links = HCCL_SUCCESS"
    using env l mem by (simp add: ReduceScatterNHR_SimpleCheck_def)
  have inp: "rs_output_slices (t\<lparr>nb_sliceMap := x\<rparr>) N z = rs_output_slices t N z" for x z
    by (simp add: rs_output_slices_def)
  have os: "rs_output_slices t N (at_count t * ucast u) = sl"
    using rs_output_in_place[OF mem(1)] sl(1) by simp
  have sl': "at_slices t \<noteq> [] \<Longrightarrow> sl = at_slices t" "at_slices t = [] \<Longrightarrow> sl = even_slices N (at_count t * ucast u)"
    using sl(1) by (simp_all add: output_slices_def)
  show ?thesis
  proof (cases "nb_isNeedMerge t")
    case True
    then have map: "GetSliceMap N (nb_sliceMap t) = m" "length m = N" using m assms(1) by (simp_all add: GetSliceMap_mapping)
    show ?thesis
    proof (cases "at_slices t = []")
      case e: True
      then show ?thesis using True assms(4,5) env inp os sl'(2) sl(2) map t2
        by (simp add: ReduceScatterNHR_RunAsync_def check Let_def CheckSlices_def)
    next
      case e: False
      have "t\<lparr>nb_sliceMap := m, at_slices := sl\<rparr> = t\<lparr>nb_sliceMap := m\<rparr>" using e sl'(1) by (cases t) simp
      then show ?thesis using e True assms(4,5) env inp os sl'(1) sl(2) map t2
        by (simp add: ReduceScatterNHR_RunAsync_def check Let_def CheckSlices_def)
    qed
  next
    case False
    then have map: "GetRankMapping N True [] = m" "length m = N" using m by simp_all
    show ?thesis
    proof (cases "at_slices t = []")
      case e: True
      then show ?thesis using False assms(1,4,5) env inp os sl'(2) sl(2) map t2
        by (simp add: ReduceScatterNHR_RunAsync_def check Let_def CheckSlices_def rs_update_commute)
    next
      case e: False
      have "t\<lparr>nb_sliceMap := m, at_slices := sl\<rparr> = t\<lparr>nb_sliceMap := m\<rparr>" using e sl'(1) by (cases t) simp
      then show ?thesis using e False assms(1,4,5) env inp os sl'(1) sl(2) map t2
        by (simp add: ReduceScatterNHR_RunAsync_def check Let_def CheckSlices_def)
    qed
  qed
qed

lemma rs_program:
  assumes ok: "rs_ok caps S" and r: "r < gr_ranks S"
  shows "\<exists>ts. runs (snd (ReduceScatterNHR_RunAsync (gr_env S r) caps r (gr_ranks S) (gr_links S r) (gr_tpl S r))) ts \<and>
    stream_of (gr_link S r) (gr_unit S) r ts = concat (map (\<lambda>s. rs_exchange caps S s r) [0..<rs_rounds S])"
proof -
  note red = rs_reduce_ok[OF ok]
  note N = reduce_slicesD[OF red] and rank = rs_okD[OF ok r]
  have len: "length (rs_map S) = gr_ranks S" using rs_map_perm[OF red] by (simp add: perm_of_def)
  have map: "rs_map S = GetRankMapping (gr_ranks S) (\<not> nb_isNeedMerge (gr_tpl S r)) []"
    using rank(6) by (simp add: rs_map_def)
  have links: "gr_ranks S \<le> length (gr_links S r)" using rank(2) by (simp add: links_ready_def)
  have N0: "gr_ranks S \<noteq> 0" "gr_ranks S \<noteq> 1" using N(1) by simp_all
  have mod: "length (gr_slices S) mod gr_ranks S = 0" using N(4) by simp
  have run: "ReduceScatterNHR_RunAsync (gr_env S r) caps r (gr_ranks S) (gr_links S r) (gr_tpl S r) =
      (rs_state S r, RunReduceScatterNHR (gr_env S r) caps (rs_state S r) r (gr_ranks S) (gr_links S r) (gr_slices S) (gr_slices S))"
    by (rule RS_RunAsync_fresh[OF rank(5,1,3) N0 links map len rank(4)[symmetric] mod rs_state_def])
  have st: "at_slices (rs_state S r) = gr_slices S" "nb_sliceMap (rs_state S r) = rs_map S"
      "rs_reduceAttr (rs_state S r) = rs_reduceAttr (gr_tpl S r)" "at_scratchMem (rs_state S r) = at_scratchMem (gr_tpl S r)"
      "rs_barrierSwitchOn (rs_state S r) = rs_barrierSwitchOn (gr_tpl S r)"
    by (simp_all add: rs_state_def)
  have st': "nb_isNeedMerge (rs_state S r) = nb_isNeedMerge (gr_tpl S 0)" "rs_buffers (rs_state S r) (gr_base S) (gr_size S)"
    using rank(6,3) by (simp_all add: rs_state_def rs_buffers_def)
  have "\<not> length (gr_slices S) < gr_ranks S" using N(4,9) by simp
  then have prog: "RunReduceScatterNHR (gr_env S r) caps (rs_state S r) r (gr_ranks S) (gr_links S r) (gr_slices S) (gr_slices S) =
      each (rs_round (gr_env S r) caps (rs_state S r) r (gr_ranks S) (gr_links S r) (gr_slices S) (gr_slices S) (rs_rounds S))
        [0..<rs_rounds S]"
    by (simp add: RunReduceScatterNHR_def rs_rounds_def Let_def)
  show ?thesis unfolding run snd_conv prog
    by (intro each_stream rs_round_stream[OF ok r]) (use st st' in auto)
qed

lemma rs_run_stream:
  assumes "rs_ok caps S" "r < gr_ranks S"
  shows "fst (rs_run caps S r) = HCCL_SUCCESS"
    "rs_stream caps S r = concat (map (\<lambda>s. rs_exchange caps S s r) [0..<rs_rounds S])"
  using rs_program[OF assms] by (auto simp: rs_run_def rs_stream_def dest: runsD)

section \<open>The rounds at work\<close>

lemma rs_scratch_place:
  assumes "rs_buffers t base size1"
  obtains sb sbase where "rs_scratch t r = (r, sb, sbase)" "sb \<noteq> INPUT_MEM"
  using assms by (auto simp: rs_buffers_def rs_scratch_def)

lemma actions_writes:
  assumes "rs_buffers t base size1" "a \<in> set (rs_actions inl t base r q ss)" "(p, b, x) \<in> writes a"
  shows "p = r \<and> (b = INPUT_MEM \<longrightarrow> (\<exists>y\<in>cover ss. x = unat base + y))"
proof -
  obtain sb sbase where sc: "rs_scratch t r = (r, sb, sbase)" "sb \<noteq> INPUT_MEM"
    by (rule rs_scratch_place[OF assms(1)])
  show ?thesis using assms(2,3) sc
    by (fastforce simp: rs_actions_def rs_input_def cover_def split: if_splits)
qed

lemma actions_local:
  assumes "rs_buffers t base size1" "a \<in> set (rs_actions inl t base r q ss)"
  shows "local_action r a"
proof -
  have "a \<noteq> Post p k \<and> a \<noteq> Await p k" for p k
    using assms(2) by (auto simp: rs_actions_def slice_copy_def slice_reduce_def split: if_splits prod.splits)
  then show ?thesis using actions_writes[OF assms] by (auto simp: local_action_def)
qed

lemma actions_reads:
  assumes "rs_buffers t base size1" "a \<in> set (rs_actions inl t base r q ss)" "(p, b, x) \<in> reads a"
  shows "p = r \<or> p = q \<and> b = INPUT_MEM \<and> (\<exists>y\<in>cover ss. x = unat base + y)"
proof -
  obtain sb sbase where sc: "rs_scratch t r = (r, sb, sbase)" "sb \<noteq> INPUT_MEM"
    by (rule rs_scratch_place[OF assms(1)])
  show ?thesis using assms(2,3) sc
    by (fastforce simp: rs_actions_def rs_input_def cover_def split: if_splits)
qed

lemma cover_filled: "cover (filter (\<lambda>s. 0 < sl_size s) ss) = cover ss"
  by (auto simp: cover_def slice_bytes_iff word_gt_0 unat_eq_zero[symmetric] simp del: unat_eq_zero)

text \<open>One round reduces the bytes of its slices and leaves the others.\<close>

lemma actions_result:
  assumes "rs_buffers t base size1" "q \<noteq> r" "hits ss x \<le> 1"
  shows "fold (exec_action f) (rs_actions inl t base r q ss) m r INPUT_MEM (unat base + x) =
    (if x \<in> cover ss then f (m r INPUT_MEM (unat base + x)) (m q INPUT_MEM (unat base + x)) else m r INPUT_MEM (unat base + x))"
proof (cases inl)
  case True
  then show ?thesis using fold_slice_reduce[of q INPUT_MEM r INPUT_MEM ss x f "unat base" "unat base" m] assms(2,3)
    by (simp add: rs_actions_def rs_input_def)
next
  case False
  obtain sb sbase where sc: "rs_scratch t r = (r, sb, sbase)" "sb \<noteq> INPUT_MEM"
    by (rule rs_scratch_place[OF assms(1)])
  let ?g = "fold (exec_action f) (map (slice_copy (r, sb, sbase) (q, INPUT_MEM, unat base)) (filter (\<lambda>s. 0 < sl_size s) ss)) m"
  have "?g r INPUT_MEM (unat base + x) = m r INPUT_MEM (unat base + x)"
    using fold_elsewhere(1)[of r INPUT_MEM r sb f sbase "(q, INPUT_MEM, unat base)" "filter (\<lambda>s. 0 < sl_size s) ss" m] sc(2) by simp
  moreover have "?g r sb (sbase + x) = (if x \<in> cover ss then m q INPUT_MEM (unat base + x) else m r sb (sbase + x))"
    using fold_slice_copy[of q INPUT_MEM r sb f sbase "unat base" "filter (\<lambda>s. 0 < sl_size s) ss" m x] assms(2) by (simp add: cover_filled)
  ultimately show ?thesis
    using fold_slice_reduce[of r sb r INPUT_MEM ss x f "unat base" sbase ?g] assms(3) sc False
    by (simp add: rs_actions_def rs_input_def)
qed

text \<open>The same on writing links.\<close>

lemma sent_facts:
  assumes "a \<in> set (rs_sent remote base r q ss)"
  shows "local_action q a" "(p, b, x) \<in> reads a \<Longrightarrow> p = r \<and> b = INPUT_MEM \<and> (\<exists>y\<in>cover ss. x = unat base + y)"
    "(p, b, x) \<in> writes a \<Longrightarrow> p = q \<and> (\<exists>y\<in>cover ss. x = unat base + y)"
proof -
  have "a \<noteq> Post p k \<and> a \<noteq> Await p k" for p k
    using assms by (auto simp: rs_sent_def rs_input_def rs_inbox_def slice_copy_def slice_reduce_def split: if_splits)
  moreover show w: "(p, b, x) \<in> writes a \<Longrightarrow> p = q \<and> (\<exists>y\<in>cover ss. x = unat base + y)" for p b x
    using assms by (fastforce simp: rs_sent_def rs_input_def rs_inbox_def cover_def split: if_splits)
  ultimately show "local_action q a" by (auto simp: local_action_def)
  show "(p, b, x) \<in> reads a \<Longrightarrow> p = r \<and> b = INPUT_MEM \<and> (\<exists>y\<in>cover ss. x = unat base + y)"
    using assms by (fastforce simp: rs_sent_def rs_input_def rs_inbox_def cover_def split: if_splits)
qed

lemma own_facts:
  assumes "a \<in> set (rs_own caps S s r)"
  shows "local_action r a" "p \<in> reads a \<Longrightarrow> fst p = r"
proof -
  have "a \<noteq> Post p k \<and> a \<noteq> Await p k" for p k
    using assms by (auto simp: rs_own_def rs_input_def rs_inbox_def slice_reduce_def split: if_splits)
  moreover have "(p, b, x) \<in> writes a \<Longrightarrow> p = r" for p b x
    using assms by (auto simp: rs_own_def rs_input_def rs_inbox_def split: if_splits)
  ultimately show "local_action r a" by (auto simp: local_action_def)
  show "p \<in> reads a \<Longrightarrow> fst p = r"
    using assms by (auto simp: rs_own_def rs_input_def rs_inbox_def split: if_splits)
qed

text \<open>The memory is a rank's own part and its partner's, reduced on the slices of the round.\<close>

lemma written_result:
  assumes "q \<noteq> r" "hits ss x \<le> 1" "hits ts x \<le> 1" "cover ts = cover ss"
  shows "fold (exec_action f) (rs_sent remote base q r ts @
      (if remote then [] else map (slice_reduce (rs_input base r) (rs_inbox base r)) ss)) m r INPUT_MEM (unat base + x) =
    (if x \<in> cover ss then f (m r INPUT_MEM (unat base + x)) (m q INPUT_MEM (unat base + x)) else m r INPUT_MEM (unat base + x))"
proof (cases remote)
  case True
  then show ?thesis using fold_slice_reduce[of q INPUT_MEM r INPUT_MEM ts x f "unat base" "unat base" m] assms
    by (simp add: rs_sent_def rs_input_def)
next
  case False
  let ?g = "fold (exec_action f) (map (slice_copy (r, OUTPUT_MEM, unat base) (q, INPUT_MEM, unat base)) ts) m"
  have "?g r INPUT_MEM (unat base + x) = m r INPUT_MEM (unat base + x)"
    using fold_elsewhere(1)[of r INPUT_MEM r OUTPUT_MEM f "unat base" "(q, INPUT_MEM, unat base)" ts m] by simp
  moreover have "?g r OUTPUT_MEM (unat base + x) = (if x \<in> cover ss then m q INPUT_MEM (unat base + x) else m r OUTPUT_MEM (unat base + x))"
    using fold_slice_copy[of q INPUT_MEM r OUTPUT_MEM f "unat base" "unat base" ts m x] assms(1,4) by simp
  ultimately show ?thesis
    using fold_slice_reduce[of r OUTPUT_MEM r INPUT_MEM ss x f "unat base" "unat base" ?g] assms(2) False
    by (simp add: rs_sent_def rs_input_def rs_inbox_def)
qed

section \<open>All ranks\<close>

lemma rs_partners:
  assumes N: "2 \<le> gr_ranks S" "gr_ranks S < 2 ^ 31" and s: "s < rs_rounds S" and r: "r < gr_ranks S" "q < gr_ranks S"
  shows "rs_from S s r < gr_ranks S" "rs_to S s r < gr_ranks S" "rs_from S s r = q \<longleftrightarrow> rs_to S s q = r" "rs_from S s r \<noteq> r"
proof -
  have d: "2 ^ s < gr_ranks S" using rs_delta_less[of "gr_ranks S" s] N s by (simp add: rs_rounds_def)
  show "rs_from S s r < gr_ranks S" "rs_to S s r < gr_ranks S" using N by simp_all
  show "rs_from S s r = q \<longleftrightarrow> rs_to S s q = r" using partner_iff[OF r(2,1), of "2 ^ s"] d by (simp only: eq_commute[of r] eq_commute[of q])
  show "rs_from S s r \<noteq> r"
  proof
    assume "rs_from S s r = r"
    then have "bwd (gr_ranks S) r (2 ^ s) = bwd (gr_ranks S) r 0"
      using bwd_fwd[of r "gr_ranks S" "2 ^ s"] d r by simp
    moreover have "0 < gr_ranks S" using N by simp
    ultimately have "(2::nat) ^ s = 0" using bwd_inj[OF r(1) d, of 0] by blast
    then show False by simp
  qed
qed

lemma rs_parts_apart:
  assumes red: "reduce_slices_ok S" and r: "r < gr_ranks S" and s: "s < rs_rounds S"
    and y: "y \<in> cover (rs_merged S s r)"
  shows "y \<notin> cover (rs_merged S s (rs_from S s r))"
proof
  note N = reduce_slicesD[OF red]
  let ?q = "rs_from S s r"
  have q: "?q < gr_ranks S" using N(1) by simp
  assume "y \<in> cover (rs_merged S s ?q)"
  then obtain l' where l': "l' \<in> set (rs_rx (gr_ranks S) s ?q)" "y \<in> part (gr_slices S) (rs_map S) (gr_k S) l'"
    using rs_merged_spec(1)[OF red q s] by blast
  obtain l where l: "l \<in> set (rs_rx (gr_ranks S) s r)" "y \<in> part (gr_slices S) (rs_map S) (gr_k S) l"
    using rs_merged_spec(1)[OF red r s] y by blast
  have "l < gr_ranks S" "l' < gr_ranks S"
    using l(1) l'(1) rs_rx_ranks[of "gr_ranks S" s r] rs_rx_ranks[of "gr_ranks S" s ?q] N(1) by auto
  then have "l = l'" by (rule part_unique[OF rs_map_perm[OF red] N(4,10) _ _ l(2) l'(2)])
  then show False
    using rs_rx_apart[OF N(1,3) r, of s] s l(1) l'(1) by (auto simp: rs_rounds_def)
qed

lemma rs_same_cover:
  assumes "reduce_slices_ok S" "r < gr_ranks S" "s < rs_rounds S"
  shows "cover (rs_merged S s r) = cover (rs_slices S s r)"
  using rs_merged_spec(1)[OF assms] rs_slices_spec(1)[OF assms] by simp

lemma rs_partner_reads:
  assumes ok: "rs_ok caps S" and kind: "\<not> gr_rdma S" and r: "r < gr_ranks S" and s: "s < rs_rounds S"
    and a: "a \<in> set (rs_work caps S s r)" "(q, b, x) \<in> reads a"
  shows "q = r \<or> q = rs_from S s r \<and> (\<forall>a'\<in>set (rs_work caps S s q). (q, b, x) \<notin> writes a')"
proof (cases "q = r")
  case False
  note red = rs_reduce_ok[OF ok]
  have work: "rs_work caps S s r = rs_actions (inline_mode (gr_tpl S r)) (gr_tpl S r) (gr_base S) r (rs_from S s r) (rs_slices S s r)" for r
    using kind by (simp add: rs_work_def)
  have q: "q = rs_from S s r" "b = INPUT_MEM" "\<exists>y\<in>cover (rs_slices S s r). x = unat (gr_base S) + y"
    using actions_reads[OF rs_okD(3)[OF ok r] a(1)[unfolded work] a(2)] False by blast+
  then obtain y where y: "y \<in> cover (rs_slices S s r)" "x = unat (gr_base S) + y" by blast
  have qN: "q < gr_ranks S" using q(1) reduce_slicesD(1)[OF red] by simp
  have "(q, b, x) \<notin> writes a'" if "a' \<in> set (rs_work caps S s q)" for a'
  proof
    assume "(q, b, x) \<in> writes a'"
    then have "\<exists>y'\<in>cover (rs_slices S s q). x = unat (gr_base S) + y'"
      using actions_writes[OF rs_okD(3)[OF ok qN] that[unfolded work]] q(2) by blast
    then have "y \<in> cover (rs_slices S s q)" using y(2) by (simp only: add_left_cancel) blast
    then show False
      using rs_parts_apart[OF red r s, of y] y(1) unfolding rs_same_cover[OF red r s] q(1)[symmetric] rs_same_cover[OF red qN s] by blast
  qed
  then show ?thesis using q(1) by blast
qed simp

lemma rs_read_rounds:
  assumes ok: "rs_ok caps S" and kind: "\<not> gr_rdma S"
  shows "read_rounds (gr_ranks S) (rs_rounds S) (rs_from S) (rs_to S) (\<lambda>s r. True) (\<lambda>s r. True) (rs_work caps S) (rs_stream caps S)"
proof
  note N = reduce_slicesD[OF rs_reduce_ok[OF ok]]
  note p = rs_partners(3)[OF N(1,2)]
  fix r s q a b x
  show "r < gr_ranks S \<Longrightarrow> s < rs_rounds S \<Longrightarrow> rs_from S s r < gr_ranks S \<and> True \<and> rs_to S s (rs_from S s r) = r"
    using p[where r = r and q = "rs_from S s r" and s = s] N(1) by simp
  show "r < gr_ranks S \<Longrightarrow> s < rs_rounds S \<Longrightarrow> rs_to S s r < gr_ranks S \<and> True \<and> rs_from S s (rs_to S s r) = r"
    using p[where r = "rs_to S s r" and q = r and s = s] N(1) by simp
  show "r < gr_ranks S \<Longrightarrow> s < rs_rounds S \<Longrightarrow> a \<in> set (rs_work caps S s r) \<Longrightarrow> local_action r a"
    unfolding rs_work_def if_not_P[OF kind] by (rule actions_local[OF rs_okD(3)[OF ok]])
  show "r < gr_ranks S \<Longrightarrow> s < rs_rounds S \<Longrightarrow> a \<in> set (rs_work caps S s r) \<Longrightarrow> (q, b, x) \<in> reads a \<Longrightarrow>
      q = r \<or> True \<and> q = rs_from S s r \<and> (\<forall>a'\<in>set (rs_work caps S s q). (q, b, x) \<notin> writes a')"
    using rs_partner_reads[OF ok kind] by blast
  show "r < gr_ranks S \<Longrightarrow> rs_stream caps S r = concat (map (\<lambda>s.
      concat (part_phases True True (rs_to S s r) (rs_from S s r) (rs_work caps S s r))) [0..<rs_rounds S])"
    using rs_run_stream(2)[OF ok] kind by (simp add: rs_exchange_def)
qed

lemma rs_write_rounds:
  assumes ok: "rs_ok caps S" and kind: "gr_rdma S"
  defines "bar \<equiv> (\<lambda>s::nat. rs_barrierSwitchOn (gr_tpl S 0))"
  shows "write_rounds (gr_ranks S) (rs_rounds S) (rs_from S) (rs_to S) (\<lambda>s r. True) (\<lambda>s r. True) True bar bar
    (rs_given caps S) (rs_own caps S) (rs_stream caps S)"
proof
  note red = rs_reduce_ok[OF ok]
  note N = reduce_slicesD[OF red]
  note p = rs_partners[OF N(1,2)]
  fix r s q a b x assume r: "r < gr_ranks S" and s: "s < rs_rounds S"
  have q: "rs_to S s r < gr_ranks S" "rs_from S s r < gr_ranks S" using N(1) by simp_all
  have ring: "rs_from S s (rs_to S s r) = r" "rs_to S s (rs_from S s r) = r"
    using p(3)[OF s q(1) r] p(3)[OF s r q(2)] by blast+
  show "rs_from S s r < gr_ranks S \<and> True \<and> rs_to S s (rs_from S s r) = r"
    "rs_to S s r < gr_ranks S \<and> True \<and> rs_from S s (rs_to S s r) = r" using q ring by blast+
  show "rs_to S s r \<noteq> r" using p(4)[OF s q(1) q(1)] ring(1) by metis
  show "a \<in> set (rs_given caps S s r) \<Longrightarrow> local_action (rs_to S s r) a"
    unfolding rs_given_def by (rule sent_facts(1))
  show "a \<in> set (rs_given caps S s r) \<Longrightarrow> (q, b, x) \<in> reads a \<Longrightarrow>
      q = r \<and> (True \<longrightarrow> (\<forall>a'\<in>set (rs_given caps S s (rs_from S s r)). (q, b, x) \<notin> writes a'))"
  proof -
    assume "a \<in> set (rs_given caps S s r)" "(q, b, x) \<in> reads a"
    then obtain y where y: "q = r" "y \<in> cover (rs_merged S s (rs_to S s r))" "x = unat (gr_base S) + y"
      unfolding rs_given_def using sent_facts(2) by blast
    have "(q, b, x) \<notin> writes a'" if a': "a' \<in> set (rs_given caps S s (rs_from S s r))" for a'
    proof
      assume "(q, b, x) \<in> writes a'"
      then have "\<exists>z\<in>cover (rs_merged S s r). x = unat (gr_base S) + z"
        using sent_facts(3)[OF a'[unfolded rs_given_def ring(2)]] by blast
      then have "y \<in> cover (rs_merged S s r)" using y(3) by (simp only: add_left_cancel) blast
      then show False using rs_parts_apart[OF red q(1) s y(2)] unfolding ring(1) by blast
    qed
    then show ?thesis using y(1) by blast
  qed
  show "a \<in> set (rs_own caps S s r) \<Longrightarrow> local_action r a \<and> (\<forall>p\<in>reads a. fst p = r)"
    using own_facts by blast
next
  fix r assume "r < gr_ranks S"
  then show "rs_stream caps S r = concat (map (\<lambda>s. concat (exchange_phases True True True (bar s) (bar s) (rs_to S s r) (rs_from S s r)
      (rs_given caps S s r) (rs_own caps S s r))) [0..<rs_rounds S])"
    using rs_run_stream(2)[OF ok] kind by (simp add: rs_exchange_def bar_def)
qed simp_all

definition rs_readers :: "link_caps \<Rightarrow> (ReduceScatterNHR, 'v) gather_run \<Rightarrow> nat" where
  "rs_readers caps S = (if rs_ok caps S \<and> \<not> gr_rdma S then gr_ranks S else 0)"

definition rs_writers :: "link_caps \<Rightarrow> (ReduceScatterNHR, 'v) gather_run \<Rightarrow> nat" where
  "rs_writers caps S = (if rs_ok caps S \<and> gr_rdma S then gr_ranks S else 0)"

interpretation rs_reducing: read_rounds "rs_readers caps S" "rs_rounds S" "rs_from S" "rs_to S" "\<lambda>s r. True" "\<lambda>s r. True"
  "rs_work caps S" "rs_stream caps S" for S caps
  unfolding rs_readers_def by (rule read_rounds_or_none) (blast intro: rs_read_rounds)

interpretation rs_writing: write_rounds "rs_writers caps S" "rs_rounds S" "rs_from S" "rs_to S" "\<lambda>s r. True" "\<lambda>s r. True" True
  "\<lambda>s. rs_barrierSwitchOn (gr_tpl S 0)" "\<lambda>s. rs_barrierSwitchOn (gr_tpl S 0)" "rs_given caps S" "rs_own caps S" "rs_stream caps S"
  for S caps
  unfolding rs_writers_def by (rule write_rounds_or_none) (blast intro: rs_write_rounds)

lemma rs_round_work: "gr_rdma S \<Longrightarrow>
    write_rounds.round_work (rs_from S) (\<lambda>s r. True) (rs_given caps S) (rs_own caps S) = rs_work caps S"
  by (simp add: rs_writing.round_work_def rs_work_def fun_eq_iff)

lemma rs_final_memory:
  assumes ok: "rs_ok caps S" and "(stream_step f (gr_ranks S) (rs_stream caps S))\<^sup>*\<^sup>* (start m) c"
    "finished (gr_ranks S) (rs_stream caps S) c" "r < gr_ranks S"
  shows "cf_mem c r = round_mem f (rs_work caps S) m (rs_rounds S) r"
proof (cases "gr_rdma S")
  case True
  then have "rs_writers caps S = gr_ranks S" using ok by (simp add: rs_writers_def)
  then show ?thesis using rs_writing.final_memory[of f caps S m c r, unfolded rs_round_work[OF True]] assms(2-4) by simp
next
  case False
  then have "rs_readers caps S = gr_ranks S" using ok by (simp add: rs_readers_def)
  then show ?thesis using rs_reducing.final_memory[of f caps S m c r] assms(2-4) by simp
qed

lemma rs_not_stuck:
  assumes ok: "rs_ok caps S" and "(stream_step f (gr_ranks S) (rs_stream caps S))\<^sup>*\<^sup>* (start m) c"
    "\<not> finished (gr_ranks S) (rs_stream caps S) c"
  shows "\<exists>d. stream_step f (gr_ranks S) (rs_stream caps S) c d"
proof (cases "gr_rdma S")
  case True
  then have "rs_writers caps S = gr_ranks S" using ok by (simp add: rs_writers_def)
  then show ?thesis using rs_writing.rr.no_deadlock[of f caps S m c] assms(2,3) by simp
next
  case False
  then have "rs_readers caps S = gr_ranks S" using ok by (simp add: rs_readers_def)
  then show ?thesis using rs_reducing.rr.no_deadlock[of f caps S m c] assms(2,3) by simp
qed

lemma work_result:
  assumes ok: "rs_ok caps S" and r: "r < gr_ranks S" and s: "s < rs_rounds S"
  shows "fold (exec_action f) (rs_work caps S s r) m r INPUT_MEM (unat (gr_base S) + x) =
    (if x \<in> cover (rs_slices S s r)
     then f (m r INPUT_MEM (unat (gr_base S) + x)) (m (rs_from S s r) INPUT_MEM (unat (gr_base S) + x))
     else m r INPUT_MEM (unat (gr_base S) + x))"
proof -
  note red = rs_reduce_ok[OF ok]
  note N = reduce_slicesD[OF red]
  note other = rs_partners(4)[OF N(1,2) s r r]
  have q: "rs_from S s r < gr_ranks S" using N(1) by simp
  show ?thesis
  proof (cases "gr_rdma S")
    case True
    have "rs_to S s (rs_from S s r) = r" using rs_partners(3)[OF N(1,2) s r q] by blast
    then show ?thesis
      using written_result[OF other rs_slices_spec(3)[OF red r s] rs_merged_spec(3)[OF red r s] rs_same_cover[OF red r s],
          of f "remote_mode caps S" "gr_base S" m x] True
      by (simp add: rs_work_def rs_given_def rs_own_def)
  next
    case False
    then show ?thesis
      using actions_result[OF rs_okD(3)[OF ok r] other rs_slices_spec(3)[OF red r s], of f "inline_mode (gr_tpl S r)" m x]
      by (simp add: rs_work_def)
  qed
qed

text \<open>Round by round, the part of rank \<open>l\<close> becomes the reduction over all ranks there.\<close>

lemma rs_reduced:
  assumes ok: "rs_ok caps S" and f: "associative f" and l: "l < gr_ranks S" and x: "x \<in> part (gr_slices S) (rs_map S) (gr_k S) l"
  shows "round_mem f (rs_work caps S) m (rs_rounds S) l INPUT_MEM (unat (gr_base S) + x) =
    reduce_all f (map (\<lambda>j. m (fwd (gr_ranks S) l j) INPUT_MEM (unat (gr_base S) + x)) [0..<gr_ranks S])"
proof -
  note red = rs_reduce_ok[OF ok]
  note N = reduce_slicesD[OF red]
  let ?A = "\<lambda>s r. round_mem f (rs_work caps S) m s r INPUT_MEM (unat (gr_base S) + x)"
  have "?A (Suc s) r = (if l \<in> set (rs_rx (gr_ranks S) s r) then f (?A s r) (?A s (rs_from S s r)) else ?A s r)"
    if s: "s < GetStepNumInterServer (gr_ranks S)" and r: "r < gr_ranks S" for s r
  proof -
    have s': "s < rs_rounds S" using s by (simp add: rs_rounds_def)
    note spec = rs_slices_spec[OF red r s']
    have here: "x \<in> cover (rs_slices S s r) \<longleftrightarrow> l \<in> set (rs_rx (gr_ranks S) s r)"
    proof
      assume "x \<in> cover (rs_slices S s r)"
      then obtain l' where l': "l' \<in> set (rs_rx (gr_ranks S) s r)" "x \<in> part (gr_slices S) (rs_map S) (gr_k S) l'"
        using spec(1) by blast
      have "l' < gr_ranks S" using l'(1) rs_rx_ranks[of "gr_ranks S" s r] N(1) by auto
      then have "l = l'" by (rule part_unique[OF rs_map_perm[OF red] N(4,10) l _ x l'(2)])
      then show "l \<in> set (rs_rx (gr_ranks S) s r)" using l'(1) by simp
    qed (use spec(1) x in blast)
    show ?thesis using work_result[OF ok r s', of f "round_mem f (rs_work caps S) m s" x] by (simp add: here)
  qed
  then have "?A (GetStepNumInterServer (gr_ranks S)) l =
      reduce_all f (map (\<lambda>j. ?A 0 (fwd (gr_ranks S) l j)) [0..<gr_ranks S])"
    by (rule reduced_along[OF N(1,3) l f])
  then show ?thesis by (simp add: rs_rounds_def)
qed

section \<open>Correctness of ReduceScatter\<close>

text \<open>The result on either kind of links.\<close>

lemma rs_reduces:
  assumes "rs_ok caps S" "associative f"
  shows "(\<forall>r<gr_ranks S. fst (rs_run caps S r) = HCCL_SUCCESS) \<and>
    (\<forall>m c. (stream_step f (gr_ranks S) (rs_stream caps S))\<^sup>*\<^sup>* (start m) c \<longrightarrow>
      finished (gr_ranks S) (rs_stream caps S) c \<or> (\<exists>d. stream_step f (gr_ranks S) (rs_stream caps S) c d)) \<and>
    (\<forall>m c r. (stream_step f (gr_ranks S) (rs_stream caps S))\<^sup>*\<^sup>* (start m) c \<longrightarrow>
      finished (gr_ranks S) (rs_stream caps S) c \<longrightarrow> r < gr_ranks S \<longrightarrow>
      (\<forall>x\<in>part (gr_slices S) (rs_map S) (gr_k S) r. cf_mem c r INPUT_MEM (unat (gr_base S) + x) =
        reduce_all f (map (\<lambda>j. m ((r + j) mod gr_ranks S) INPUT_MEM (unat (gr_base S) + x)) [0..<gr_ranks S])))"
proof (intro conjI allI impI ballI)
  show "fst (rs_run caps S r) = HCCL_SUCCESS" if "r < gr_ranks S" for r by (rule rs_run_stream(1)[OF assms(1) that])
  show "finished (gr_ranks S) (rs_stream caps S) c \<or> (\<exists>d. stream_step f (gr_ranks S) (rs_stream caps S) c d)"
    if "(stream_step f (gr_ranks S) (rs_stream caps S))\<^sup>*\<^sup>* (start m) c" for m c
    using rs_not_stuck[OF assms(1) that] by blast
  fix m c r x
  assume run: "(stream_step f (gr_ranks S) (rs_stream caps S))\<^sup>*\<^sup>* (start m) c" "finished (gr_ranks S) (rs_stream caps S) c"
      "r < gr_ranks S" and x: "x \<in> part (gr_slices S) (rs_map S) (gr_k S) r"
  show "cf_mem c r INPUT_MEM (unat (gr_base S) + x) =
      reduce_all f (map (\<lambda>j. m ((r + j) mod gr_ranks S) INPUT_MEM (unat (gr_base S) + x)) [0..<gr_ranks S])"
    unfolding rs_final_memory[OF assms(1) run] using rs_reduced[OF assms run(3) x, of m] by (simp add: fwd_def)
qed

text \<open>
  C28: ReduceScatter over the hierarchical ring on reading links, reducing in place, inline or
  through the scratch memory, with or without merged slices: for every number of ranks from 2
  below \<open>2 ^ 31\<close>, every rank's call succeeds, and for every interleaving of the ranks' streams a
  run that is not complete can go on, and a complete run leaves at every rank, on every byte of
  its part, the reduction of all ranks' inputs there, in the cyclic order of the ranks from its
  own, for every associative operation.
\<close>

theorem ReduceScatterNHR_reduces:
  assumes "rs_ok caps S" "\<not> gr_rdma S" "associative f"
  shows "(\<forall>r<gr_ranks S. fst (rs_run caps S r) = HCCL_SUCCESS) \<and>
    (\<forall>m c. (stream_step f (gr_ranks S) (rs_stream caps S))\<^sup>*\<^sup>* (start m) c \<longrightarrow>
      finished (gr_ranks S) (rs_stream caps S) c \<or> (\<exists>d. stream_step f (gr_ranks S) (rs_stream caps S) c d)) \<and>
    (\<forall>m c r. (stream_step f (gr_ranks S) (rs_stream caps S))\<^sup>*\<^sup>* (start m) c \<longrightarrow>
      finished (gr_ranks S) (rs_stream caps S) c \<longrightarrow> r < gr_ranks S \<longrightarrow>
      (\<forall>x\<in>part (gr_slices S) (rs_map S) (gr_k S) r. cf_mem c r INPUT_MEM (unat (gr_base S) + x) =
        reduce_all f (map (\<lambda>j. m ((r + j) mod gr_ranks S) INPUT_MEM (unat (gr_base S) + x)) [0..<gr_ranks S])))"
  by (rule rs_reduces[OF assms(1,3)])

text \<open>Three ranks with two elements of two bytes each, in place; the range starts at 64 of the input buffer.\<close>

definition sample_rs :: "bool \<Rightarrow> ReduceScatterNHR" where
  "sample_rs direct = new_ReduceScatterNHR\<lparr>at_inputMem := \<lparr>dm_ptr = Some (INPUT_MEM, 64), dm_size = 12\<rparr>,
     at_outputMem := \<lparr>dm_ptr = Some (INPUT_MEM, 64), dm_size = 12\<rparr>,
     at_scratchMem := \<lparr>dm_ptr = Some (OUTPUT_MEM, 64), dm_size = 16\<rparr>, at_count := 2, at_baseOffset := 64,
     rs_reduceAttr := if direct then 9 else 0\<rparr>"

definition rs3 :: "bool \<Rightarrow> bool \<Rightarrow> (ReduceScatterNHR, nat) gather_run" where
  "rs3 direct rdma = \<lparr>gr_ranks = 3, gr_env = \<lambda>r. sample_env, gr_links = \<lambda>r. replicate 3 (Some (sample_link rdma)),
     gr_tpl = \<lambda>r. sample_rs direct, gr_rdma = rdma, gr_pull = \<not> rdma, gr_unit = 2, gr_base = 64, gr_size = 12,
     gr_slices = [\<lparr>sl_offset = 0, sl_size = 4\<rparr>, \<lparr>sl_offset = 4, sl_size = 4\<rparr>, \<lparr>sl_offset = 8, sl_size = 4\<rparr>],
     gr_mem = \<lambda>r b a. 100 * r + a, gr_out = \<lambda>x. 0\<rparr>"

lemma slices3:
  "disjoint_slices [\<lparr>sl_offset = 0, sl_size = 4\<rparr>, \<lparr>sl_offset = 4, sl_size = 4\<rparr>, \<lparr>sl_offset = 8, sl_size = 4\<rparr>]"
  "whole_elements 2 [\<lparr>sl_offset = 0, sl_size = 4\<rparr>, \<lparr>sl_offset = 4, sl_size = 4\<rparr>, \<lparr>sl_offset = 8, sl_size = 4\<rparr>]"
  "slices_ready 3 12 [\<lparr>sl_offset = 0, sl_size = 4\<rparr>, \<lparr>sl_offset = 4, sl_size = 4\<rparr>, \<lparr>sl_offset = 8, sl_size = 4\<rparr>]"
  by (auto simp: disjoint_slices_Cons disjoint_slices_def[of "[]"] slice_bytes_def bytes_def whole_elements_def
      slices_ready_def slice_in_def)

definition sample_caps :: link_caps where
  "sample_caps = \<lparr>lc_rdmaDevice = True, lc_dataAck = \<lambda>q. False\<rparr>"

lemma rs3_ok: "rs_ok sample_caps (rs3 direct rdma)"
proof -
  have env: "env_ready sample_env 2" by (simp add: env_ready_def sample_env_def all_succeed_def)
  have sl: "output_slices (sample_rs direct) 3 2 =
      [\<lparr>sl_offset = 0, sl_size = 4\<rparr>, \<lparr>sl_offset = 4, sl_size = 4\<rparr>, \<lparr>sl_offset = 8, sl_size = 4\<rparr>]"
    by (simp add: output_slices_def sample_rs_def new_ReduceScatterNHR_def even_slices_def upt_3)
  have buf: "rs_buffers (sample_rs direct) 64 12" by (simp add: rs_buffers_def sample_rs_def new_ReduceScatterNHR_def)
  note links = links_ready_sample[of rdma]
  have "writes_ready sample_caps (rs3 direct rdma)" if rdma
    using that by (simp add: writes_ready_def rs3_def sample_rs_def sample_caps_def new_ReduceScatterNHR_def gr_link_def sample_link_def)
  moreover have "nb_sliceMap (sample_rs direct) = []" by (simp add: sample_rs_def new_ReduceScatterNHR_def)
  ultimately show ?thesis using env sl buf links slices3
    by (simp add: rs_ok_def reduce_slices_ok_def rs3_def)
qed

lemma associative_plus: "associative ((+) :: nat \<Rightarrow> nat \<Rightarrow> nat)"
  by (simp add: associative_def)

lemma ReduceScatterNHR_reduces_witness:
  "fst (rs_run sample_caps (rs3 True False) 2) = HCCL_SUCCESS \<and>
   (\<exists>c. (stream_step (+) 3 (rs_stream sample_caps (rs3 True False)))\<^sup>*\<^sup>* (start (gr_mem (rs3 True False))) c \<and>
     finished 3 (rs_stream sample_caps (rs3 True False)) c \<and> cf_mem c 2 INPUT_MEM 73 = 519)"
proof -
  let ?S = "rs3 True False"
  have N: "gr_ranks ?S = 3" "unat (gr_base ?S) = 64" "\<not> gr_rdma ?S" by (simp_all add: rs3_def)
  note all = ReduceScatterNHR_reduces[OF rs3_ok[of True False] N(3) associative_plus, unfolded N(1,2)]
  obtain c where c: "(stream_step (+) 3 (rs_stream sample_caps ?S))\<^sup>*\<^sup>* (start (gr_mem ?S)) c" "finished 3 (rs_stream sample_caps ?S) c"
    using complete_run[of "(+)" 3 "rs_stream sample_caps ?S" "gr_mem ?S"] all[THEN conjunct2, THEN conjunct1] by blast
  have "rs_map ?S = [0, 1, 2]"
    by (simp add: rs_map_def rs3_def sample_rs_def new_ReduceScatterNHR_def GetRankMapping_def upt_3)
  then have x: "9 \<in> part (gr_slices ?S) (rs_map ?S) (gr_k ?S) 2"
    by (simp add: gr_k_def rs3_def part_def slice_bytes_def bytes_def)
  have "cf_mem c 2 INPUT_MEM (64 + 9) = reduce_all (+) (map (\<lambda>j. gr_mem ?S ((2 + j) mod 3) INPUT_MEM (64 + 9)) [0..<3])"
    using all[THEN conjunct2, THEN conjunct2, rule_format, OF c _ x] by simp
  also have "\<dots> = 519" by (simp add: rs3_def upt_3)
  finally show ?thesis using c all[THEN conjunct1, rule_format, of 2] by auto
qed

end
