(* ===== verification/GatherRounds.thy ===== *)
theory GatherRounds
  imports ReduceProof WriteRounds
begin

text \<open>
  AllGather over the hierarchical ring as rounds, on both kinds of links: what the memory is
  after all rounds does not depend on how the ranks' steps interleave, and holds every rank's
  part, so that AllGather can be run after another template on the same streams.
\<close>

section \<open>Reading links\<close>

definition nhr_moves :: "(NHRBase, 'v) gather_run \<Rightarrow> nat \<Rightarrow> nat \<Rightarrow> action list" where
  "nhr_moves S s r = (if s = 0 then nhr_own S r else nhr_read S (s - 1) r)"

lemma slice_move_copy: "slice_move base q r = slice_copy (q, OUTPUT_MEM, unat base) (r, OUTPUT_MEM, unat base)"
  by (simp add: slice_move_def slice_copy_def fun_eq_iff)

lemma nhr_own_shape:
  assumes ok: "nhr_ok S" and r: "r < gr_ranks S"
  obtains "nhr_own S r = []" | sb da sa len where "nhr_own S r = [Move (r, OUTPUT_MEM, da) (r, sb, sa) len]"
  using nhr_program(3)[OF ok r] by blast

lemma nhr_own_local:
  assumes ok: "nhr_ok S" and r: "r < gr_ranks S" and a: "a \<in> set (nhr_own S r)"
  shows "local_action r a" "(q, b, x) \<in> reads a \<Longrightarrow> q = r"
proof -
  show "local_action r a" by (rule nhr_own_shape[OF ok r]) (use a in \<open>auto simp: local_action_def\<close>)
  show "(q, b, x) \<in> reads a \<Longrightarrow> q = r" by (rule nhr_own_shape[OF ok r]) (use a in auto)
qed

lemma nhr_read_local: "a \<in> set (nhr_read S s r) \<Longrightarrow> local_action r a"
  by (auto simp: nhr_read_def slice_move_copy local_action_def) (auto simp: slice_copy_def)

lemma nhr_partner_reads:
  assumes ok: "nhr_ok S" and dis: "disjoint_slices (gr_slices S)" and r: "r < gr_ranks S"
    and a: "a \<in> set (nhr_read S s r)" "(q, b, x) \<in> reads a"
  shows "q = nhr_from S s r \<and> (\<forall>a'\<in>set (nhr_read S s q). (q, b, x) \<notin> writes a')"
proof -
  have rok: "run_ok (nhr_map S) S" using ok by (simp add: nhr_ok_def)
  note N = run_okD[OF rok]
  obtain s' y where s': "s' \<in> set (nhr_slices S s r)" "y \<in> slice_bytes s'"
      "q = nhr_from S s r" "b = OUTPUT_MEM" "x = unat (gr_base S) + y"
    using a by (auto simp: nhr_read_def slice_move_copy)
  have "y \<in> cover (nhr_slices S s r)" using s'(1,2) by (auto simp: cover_def)
  then obtain l where l: "l \<in> set (nhr_rx (gr_ranks S) s r)" "y \<in> part (gr_slices S) (nhr_map S) (gr_k S) l"
    unfolding nhr_slices_spec(1)[OF ok] by blast
  have "(q, b, x) \<notin> writes a'" if a': "a' \<in> set (nhr_read S s q)" for a'
  proof
    assume w: "(q, b, x) \<in> writes a'"
    obtain t where t: "t \<in> set (nhr_slices S s q)" "a' = slice_move (gr_base S) q (nhr_from S s q) t"
      using a' by (auto simp: nhr_read_def)
    have "\<exists>z\<in>slice_bytes t. x = unat (gr_base S) + z" using w unfolding t(2) slice_move_copy by auto
    then have "y \<in> slice_bytes t" using s'(5) by (simp only: add_left_cancel) blast
    then have "y \<in> cover (nhr_slices S s q)" using t(1) by (auto simp: cover_def)
    then obtain l' where l': "l' \<in> set (nhr_rx (gr_ranks S) s q)" "y \<in> part (gr_slices S) (nhr_map S) (gr_k S) l'"
      unfolding nhr_slices_spec(1)[OF ok] by blast
    have "l < gr_ranks S" "l' < gr_ranks S"
      using l(1) l'(1) nhr_rx_ranks[of "gr_ranks S" s r] nhr_rx_ranks[of "gr_ranks S" s q] N(1) by auto
    then have "l = l'" by (rule part_unique[OF nhr_map_perm[OF ok] N(4) dis _ _ l(2) l'(2)])
    then show False using nhr_rx_apart[OF N(1,3) r, of s] l(1) l'(1) s'(3) by auto
  qed
  then show ?thesis using s'(3) by blast
qed

lemma nhr_moves_0: "nhr_moves S 0 = nhr_own S" and nhr_moves_pos: "s \<noteq> 0 \<Longrightarrow> nhr_moves S s = nhr_read S (s - 1)"
  by (simp_all add: nhr_moves_def fun_eq_iff)

lemma nhr_moves_reads:
  assumes ok: "nhr_ok S" and dis: "disjoint_slices (gr_slices S)" and r: "r < gr_ranks S"
    and a: "a \<in> set (nhr_moves S s r)" "(q, b, x) \<in> reads a"
  shows "q = r \<or> s \<noteq> 0 \<and> q = nhr_from S (s - 1) r \<and> (\<forall>a'\<in>set (nhr_moves S s q). (q, b, x) \<notin> writes a')"
proof (cases "s = 0")
  case True
  then show ?thesis using nhr_own_local(2)[OF ok r _ a(2)] a(1) unfolding True nhr_moves_0 by blast
next
  case False
  then show ?thesis using nhr_partner_reads[OF ok dis r _ a(2)] a(1) False unfolding nhr_moves_pos[OF False] by blast
qed

lemma nhr_partners:
  assumes N: "2 \<le> gr_ranks S" "gr_ranks S < 2 ^ 31" and r: "r < gr_ranks S" "q < gr_ranks S"
  shows "nhr_from S s r < gr_ranks S" "nhr_to S s r < gr_ranks S" "nhr_from S s r = q \<longleftrightarrow> nhr_to S s q = r"
proof -
  have d: "nhr_delta (gr_ranks S) s < gr_ranks S" by (rule nhr_delta_less) (use N in simp_all)
  show "nhr_from S s r < gr_ranks S" "nhr_to S s r < gr_ranks S" using N by simp_all
  show "nhr_from S s r = q \<longleftrightarrow> nhr_to S s q = r" using partner_iff[OF r, of "nhr_delta (gr_ranks S) s"] d by simp
qed

text \<open>
  AllGather alone as rounds, the first of which is the copy of the rank's own part. Its complete
  runs end in the memory of the rounds, so that memory holds every rank's part.
\<close>

lemma nhr_read_rounds:
  assumes ok: "nhr_ok S" and kind: "\<not> gr_rdma S" and dis: "disjoint_slices (gr_slices S)"
  shows "read_rounds (gr_ranks S) (Suc (nhr_rounds S)) (\<lambda>s. nhr_from S (s - 1)) (\<lambda>s. nhr_to S (s - 1)) (\<lambda>s r. s \<noteq> 0) (\<lambda>s r. s \<noteq> 0)
    (nhr_moves S) (nhr_stream S)"
proof
  have rok: "run_ok (nhr_map S) S" using ok by (simp add: nhr_ok_def)
  note N = run_okD[OF rok]
  fix r s q a b x
  note p = nhr_partners(3)[OF N(1,2)]
  show "r < gr_ranks S \<Longrightarrow> s \<noteq> 0 \<Longrightarrow> nhr_from S (s - 1) r < gr_ranks S \<and> s \<noteq> 0 \<and> nhr_to S (s - 1) (nhr_from S (s - 1) r) = r"
    using p[where r = r and q = "nhr_from S (s - 1) r" and s = "s - 1"] N(1) by simp
  show "r < gr_ranks S \<Longrightarrow> s \<noteq> 0 \<Longrightarrow> nhr_to S (s - 1) r < gr_ranks S \<and> s \<noteq> 0 \<and> nhr_from S (s - 1) (nhr_to S (s - 1) r) = r"
    using p[where r = "nhr_to S (s - 1) r" and q = r and s = "s - 1"] N(1) by simp
  show "r < gr_ranks S \<Longrightarrow> s < Suc (nhr_rounds S) \<Longrightarrow> a \<in> set (nhr_moves S s r) \<Longrightarrow> local_action r a"
    by (cases "s = 0") (auto simp: nhr_moves_def intro: nhr_own_local(1)[OF ok] nhr_read_local)
  show "r < gr_ranks S \<Longrightarrow> s < Suc (nhr_rounds S) \<Longrightarrow> a \<in> set (nhr_moves S s r) \<Longrightarrow> (q, b, x) \<in> reads a \<Longrightarrow>
      q = r \<or> s \<noteq> 0 \<and> q = nhr_from S (s - 1) r \<and> (\<forall>a'\<in>set (nhr_moves S s q). (q, b, x) \<notin> writes a')"
    by (rule nhr_moves_reads[OF ok dis])
  show "r < gr_ranks S \<Longrightarrow> nhr_stream S r = concat (map (\<lambda>s. concat (part_phases (s \<noteq> 0) (s \<noteq> 0)
      (nhr_to S (s - 1) r) (nhr_from S (s - 1) r) (nhr_moves S s r))) [0..<Suc (nhr_rounds S)])"
    using nhr_program(2)[OF ok] kind
    by (simp add: upt_conv_Cons map_Suc_upt[symmetric] o_def nhr_moves_def del: upt_Suc)
qed

definition nhr_round_readers :: "(NHRBase, 'v) gather_run \<Rightarrow> nat" where
  "nhr_round_readers S = (if nhr_ok S \<and> \<not> gr_rdma S \<and> disjoint_slices (gr_slices S) then gr_ranks S else 0)"

interpretation nhr_rounding: read_rounds "nhr_round_readers S" "Suc (nhr_rounds S)" "\<lambda>s. nhr_from S (s - 1)"
  "\<lambda>s. nhr_to S (s - 1)" "\<lambda>s r. s \<noteq> 0" "\<lambda>s r. s \<noteq> 0" "nhr_moves S" "nhr_stream S" for S
  unfolding nhr_round_readers_def by (rule read_rounds_or_none) (blast intro: nhr_read_rounds)

section \<open>Writing links\<close>

definition nhr_given :: "(NHRBase, 'v) gather_run \<Rightarrow> nat \<Rightarrow> nat \<Rightarrow> action list" where
  "nhr_given S s r = (if s = 0 then [] else nhr_write S (s - 1) r)"

definition nhr_start :: "(NHRBase, 'v) gather_run \<Rightarrow> nat \<Rightarrow> nat \<Rightarrow> action list" where
  "nhr_start S s r = (if s = 0 then nhr_own S r else [])"

lemma fwd_other: "r < N \<Longrightarrow> 0 < d \<Longrightarrow> d < N \<Longrightarrow> fwd N r d \<noteq> r"
proof
  assume a: "r < N" "0 < d" "d < N" "fwd N r d = r"
  then have "(r + d) mod N = r mod N" by (simp add: fwd_def)
  then have "d mod N = 0" using mod_eq_dvd_iff_nat[of r "r + d" N] by simp
  then show False using a by simp
qed

lemma nhr_write_moves:
  assumes ok: "nhr_ok S" and r: "r < gr_ranks S"
    and a: "a \<in> set (nhr_write S s r)"
  shows "local_action (nhr_to S s r) a" "(q, b, x) \<in> reads a \<Longrightarrow> q = r \<and> b = OUTPUT_MEM \<and>
      (\<exists>y\<in>cover (nhr_slices S s (nhr_to S s r)). x = unat (gr_base S) + y)"
proof -
  show "local_action (nhr_to S s r) a"
    using a by (auto simp: nhr_write_def slice_move_copy local_action_def) (auto simp: slice_copy_def)
  show "(q, b, x) \<in> reads a \<Longrightarrow> q = r \<and> b = OUTPUT_MEM \<and>
      (\<exists>y\<in>cover (nhr_slices S s (nhr_to S s r)). x = unat (gr_base S) + y)"
    using a by (fastforce simp: nhr_write_def slice_move_copy cover_def)
qed

lemma nhr_sources:
  assumes ok: "nhr_ok S" and dis: "disjoint_slices (gr_slices S)" and r: "r < gr_ranks S"
    and a: "a \<in> set (nhr_write S s r)" "(q, b, x) \<in> reads a"
  shows "q = r \<and> (\<forall>a'\<in>set (nhr_write S s (nhr_from S s r)). (q, b, x) \<notin> writes a')"
proof -
  have rok: "run_ok (nhr_map S) S" using ok by (simp add: nhr_ok_def)
  note N = run_okD[OF rok] and p = nhr_partners[OF run_okD(1,2)[OF rok]]
  let ?v = "nhr_to S s r" and ?u = "nhr_from S s r"
  obtain y where y: "y \<in> cover (nhr_slices S s ?v)" "q = r" "b = OUTPUT_MEM" "x = unat (gr_base S) + y"
    using nhr_write_moves(2)[OF ok r a] by blast
  have ring: "nhr_from S s ?v = r" "nhr_to S s ?u = r" "?v < gr_ranks S" "?u < gr_ranks S"
    using p(3)[where r = ?v and q = r and s = s] p(3)[where r = r and q = ?u and s = s] r N(1) by simp_all
  obtain l where l: "l \<in> set (nhr_rx (gr_ranks S) s ?v)" "y \<in> part (gr_slices S) (nhr_map S) (gr_k S) l"
    using y(1) unfolding nhr_slices_spec(1)[OF ok] by blast
  have "(q, b, x) \<notin> writes a'" if a': "a' \<in> set (nhr_write S s ?u)" for a'
  proof
    assume w: "(q, b, x) \<in> writes a'"
    obtain t where t: "t \<in> set (nhr_slices S s r)" "a' = slice_move (gr_base S) r ?u t"
      using a' ring(2) by (auto simp: nhr_write_def)
    have "\<exists>z\<in>slice_bytes t. x = unat (gr_base S) + z" using w unfolding t(2) slice_move_copy by auto
    then have "y \<in> slice_bytes t" using y(4) by (simp only: add_left_cancel) blast
    then have "y \<in> cover (nhr_slices S s r)" using t(1) by (auto simp: cover_def)
    then obtain l' where l': "l' \<in> set (nhr_rx (gr_ranks S) s r)" "y \<in> part (gr_slices S) (nhr_map S) (gr_k S) l'"
      unfolding nhr_slices_spec(1)[OF ok] by blast
    have "l < gr_ranks S" "l' < gr_ranks S"
      using l(1) l'(1) nhr_rx_ranks[of "gr_ranks S" s ?v] nhr_rx_ranks[of "gr_ranks S" s r] N(1) by auto
    then have "l = l'" by (rule part_unique[OF nhr_map_perm[OF ok] N(4) dis _ _ l(2) l'(2)])
    then show False using nhr_rx_apart[OF N(1,3) ring(3), of s] l(1) l'(1) ring(1) by auto
  qed
  then show ?thesis using y(2) by blast
qed

lemma nhr_write_rounds:
  assumes ok: "nhr_ok S" and kind: "gr_rdma S" and dis: "disjoint_slices (gr_slices S)"
  shows "write_rounds (gr_ranks S) (Suc (nhr_rounds S)) (\<lambda>s. nhr_from S (s - 1)) (\<lambda>s. nhr_to S (s - 1)) (\<lambda>s r. s \<noteq> 0) (\<lambda>s r. s \<noteq> 0)
    True (\<lambda>s. False) (\<lambda>s. False) (nhr_given S) (nhr_start S) (nhr_stream S)"
proof
  have rok: "run_ok (nhr_map S) S" using ok by (simp add: nhr_ok_def)
  note N = run_okD[OF rok]
  note p = nhr_partners[OF N(1,2)]
  fix r s q a b x
  show "r < gr_ranks S \<Longrightarrow> s \<noteq> 0 \<Longrightarrow> nhr_from S (s - 1) r < gr_ranks S \<and> s \<noteq> 0 \<and> nhr_to S (s - 1) (nhr_from S (s - 1) r) = r"
    using p(3)[where r = r and q = "nhr_from S (s - 1) r" and s = "s - 1"] N(1) by simp
  show "r < gr_ranks S \<Longrightarrow> s \<noteq> 0 \<Longrightarrow> nhr_to S (s - 1) r < gr_ranks S \<and> s \<noteq> 0 \<and> nhr_from S (s - 1) (nhr_to S (s - 1) r) = r"
    using p(3)[where r = "nhr_to S (s - 1) r" and q = r and s = "s - 1"] N(1) by simp
  show "r < gr_ranks S \<Longrightarrow> nhr_to S (s - 1) r \<noteq> r"
    by (rule fwd_other) (use nhr_delta_less[OF N(1,3), of "s - 1"] in \<open>simp_all add: nhr_delta_def\<close>)
  show "r < gr_ranks S \<Longrightarrow> s \<noteq> 0 \<Longrightarrow> a \<in> set (nhr_given S s r) \<Longrightarrow> local_action (nhr_to S (s - 1) r) a"
    using nhr_write_moves(1)[OF ok] by (simp add: nhr_given_def)
  show "r < gr_ranks S \<Longrightarrow> s \<noteq> 0 \<Longrightarrow> a \<in> set (nhr_given S s r) \<Longrightarrow> (q, b, x) \<in> reads a \<Longrightarrow>
      q = r \<and> (s \<noteq> 0 \<longrightarrow> (\<forall>a'\<in>set (nhr_given S s (nhr_from S (s - 1) r)). (q, b, x) \<notin> writes a'))"
  proof -
    assume p: "r < gr_ranks S" "s \<noteq> 0" "a \<in> set (nhr_given S s r)" "(q, b, x) \<in> reads a"
    have g: "nhr_given S s = nhr_write S (s - 1)" using p(2) by (simp add: nhr_given_def fun_eq_iff)
    show ?thesis using nhr_sources[OF ok dis p(1) p(3)[unfolded g] p(4)] unfolding g by blast
  qed
  show "r < gr_ranks S \<Longrightarrow> a \<in> set (nhr_start S s r) \<Longrightarrow> local_action r a \<and> (\<forall>p\<in>reads a. fst p = r)"
    using nhr_own_local[OF ok, of r a] by (auto simp: nhr_start_def split: if_splits)
  show "r < gr_ranks S \<Longrightarrow> nhr_stream S r = concat (map (\<lambda>s. concat (exchange_phases (s \<noteq> 0) (s \<noteq> 0) True False False
      (nhr_to S (s - 1) r) (nhr_from S (s - 1) r) (nhr_given S s r) (nhr_start S s r))) [0..<Suc (nhr_rounds S)])"
    using nhr_program(2)[OF ok] kind
    by (simp add: upt_conv_Cons map_Suc_upt[symmetric] o_def nhr_given_def nhr_start_def exchange_write exchange_phases_def[of False] del: upt_Suc)
qed simp_all

definition nhr_round_writers :: "(NHRBase, 'v) gather_run \<Rightarrow> nat" where
  "nhr_round_writers S = (if nhr_ok S \<and> gr_rdma S \<and> disjoint_slices (gr_slices S) then gr_ranks S else 0)"

interpretation nhr_write_rounding: write_rounds "nhr_round_writers S" "Suc (nhr_rounds S)" "\<lambda>s. nhr_from S (s - 1)"
  "\<lambda>s. nhr_to S (s - 1)" "\<lambda>s r. s \<noteq> 0" "\<lambda>s r. s \<noteq> 0" True "\<lambda>s. False" "\<lambda>s. False" "nhr_given S" "nhr_start S" "nhr_stream S" for S
  unfolding nhr_round_writers_def by (rule write_rounds_or_none) (blast intro: nhr_write_rounds)

section \<open>Both kinds of links\<close>

definition nhr_work :: "(NHRBase, 'v) gather_run \<Rightarrow> nat \<Rightarrow> nat \<Rightarrow> action list" where
  "nhr_work S = (if gr_rdma S then write_rounds.round_work (\<lambda>s. nhr_from S (s - 1)) (\<lambda>s r. s \<noteq> 0) (nhr_given S) (nhr_start S)
     else nhr_moves S)"

lemma nhr_final_memory:
  assumes "nhr_ok S" "disjoint_slices (gr_slices S)" "(stream_step f (gr_ranks S) (nhr_stream S))\<^sup>*\<^sup>* (start m) c"
    "finished (gr_ranks S) (nhr_stream S) c" "r < gr_ranks S"
  shows "cf_mem c r = round_mem f (nhr_work S) m (Suc (nhr_rounds S)) r"
  using nhr_rounding.final_memory[of f S m c r] nhr_write_rounding.final_memory[of f S m c r] assms
  by (cases "gr_rdma S") (simp_all add: nhr_work_def nhr_round_readers_def nhr_round_writers_def del: round_mem.simps)

lemma nhr_complete_run:
  assumes ok: "nhr_ok S"
  obtains c where "(stream_step f (gr_ranks S) (nhr_stream S))\<^sup>*\<^sup>* (start m) c" "finished (gr_ranks S) (nhr_stream S) c"
proof -
  have "\<exists>c. (stream_step f (gr_ranks S) (nhr_stream S) ^^ (total_actions (gr_ranks S) (nhr_stream S) - 0)) (start m) c \<and>
      finished (gr_ranks S) (nhr_stream S) c"
    by (rule run_completes[where m = m]) (erule (1) nhr_not_stuck[OF ok], simp)
  then show thesis using that by (meson rtranclp_power)
qed

lemma nhr_work_result:
  assumes ok: "nhr_ok S" and dis: "disjoint_slices (gr_slices S)" and r: "r < gr_ranks S"
    and s: "s \<in> set (gr_slices S)" "x \<in> slice_bytes s"
  shows "round_mem f (nhr_work S) (gr_mem S) (Suc (nhr_rounds S)) r OUTPUT_MEM (unat (gr_base S) + x) = gr_out S x"
proof -
  obtain c where run: "(stream_step f (gr_ranks S) (nhr_stream S))\<^sup>*\<^sup>* (start (gr_mem S)) c" "finished (gr_ranks S) (nhr_stream S) c"
    using nhr_complete_run[OF ok, of f "gr_mem S"] .
  show ?thesis
    using nhr_final_memory[OF ok dis run r] nhr_gathers[OF ok run r s] by simp
qed

text \<open>What the ranks do depends neither on the memory nor on the values.\<close>

lemma nhr_same [simp]:
  fixes S :: "(NHRBase, 'v) gather_run" and m :: "'v memory" and g :: "nat \<Rightarrow> 'v"
  defines "S' \<equiv> S\<lparr>gr_mem := m, gr_out := g\<rparr>"
  shows "nhr_run S' = nhr_run S" "nhr_stream S' = nhr_stream S" "nhr_moves S' = nhr_moves S" "nhr_given S' = nhr_given S"
    "nhr_start S' = nhr_start S" "nhr_work S' = nhr_work S" "nhr_rounds S' = nhr_rounds S"
proof -
  have map: "nhr_map S' = nhr_map S" and run: "nhr_run S' = nhr_run S" and state: "nhr_state S' = nhr_state S"
    and link: "gr_link S' = gr_link S" and k: "gr_k S' = gr_k S"
    by (simp_all add: S'_def nhr_map_def nhr_run_def nhr_state_def gr_link_def gr_k_def fun_eq_iff)
  have own: "nhr_own S' = nhr_own S" by (simp add: nhr_own_def map state link fun_eq_iff) (simp add: S'_def)
  have slices: "nhr_slices S' = nhr_slices S" by (simp add: nhr_slices_def map k fun_eq_iff) (simp add: S'_def)
  have rw: "nhr_read S' = nhr_read S" "nhr_write S' = nhr_write S"
    by (simp_all add: nhr_read_def nhr_write_def slices fun_eq_iff) (simp_all add: S'_def)
  show "nhr_run S' = nhr_run S" by (rule run)
  show "nhr_stream S' = nhr_stream S" by (simp add: nhr_stream_def run link fun_eq_iff) (simp add: S'_def)
  show moves: "nhr_moves S' = nhr_moves S" and given1: "nhr_given S' = nhr_given S" and start: "nhr_start S' = nhr_start S"
    by (simp_all add: nhr_moves_def nhr_given_def nhr_start_def own rw fun_eq_iff)
  show "nhr_work S' = nhr_work S" by (simp add: nhr_work_def moves given1 start) (simp add: S'_def)
  show "nhr_rounds S' = nhr_rounds S" by (simp add: S'_def nhr_rounds_def)
qed

lemma nhr_round_result:
  assumes "nhr_ok S" "\<not> gr_rdma S" "disjoint_slices (gr_slices S)" "r < gr_ranks S" "s \<in> set (gr_slices S)" "x \<in> slice_bytes s"
  shows "round_mem f (nhr_moves S) (gr_mem S) (Suc (nhr_rounds S)) r OUTPUT_MEM (unat (gr_base S) + x) = gr_out S x"
  using nhr_work_result[OF assms(1,3-6), of f] assms(2) by (simp add: nhr_work_def del: round_mem.simps)

end
