(* ===== verification/ReduceSlices.thy ===== *)
theory ReduceSlices
  imports ReduceScatter SliceRounds
begin

text \<open>
  The slices AllReduce makes of its data when none are given: as many as ranks, all but the last
  non-empty one of the same aligned size, the ones after it empty. They divide the data, so
  every byte is reduced and gathered exactly once.
\<close>

lemma residue_slices_map:
  assumes "unat R \<le> unat T"
  shows "residue_slices n T a R = map (\<lambda>i. \<lparr>sl_offset = of_nat (unat T - (unat R - i * unat a)),
    sl_size = of_nat (min (unat a) (unat R - i * unat a))\<rparr>) [0..<n]"
  using assms
proof (induction n arbitrary: R)
  case (Suc n)
  let ?sz = "if R > a then a else R"
  have sz: "unat ?sz = min (unat a) (unat R)" by (simp add: word_less_nat_alt min_def)
  then have le: "?sz \<le> R" by (simp add: word_le_nat_alt)
  have rest: "unat (R - ?sz) = unat R - min (unat a) (unat R)" using unat_sub[OF le] sz by simp
  have off: "T - R = of_nat (unat T - (unat R - 0 * unat a))"
    using Suc.prems by (simp add: of_nat_diff)
  have unat_eq_of_nat_sym: "unat w = k \<Longrightarrow> w = of_nat k" for w :: u64 and k
    by (metis of_nat_unat ucast_id)
  have size: "?sz = of_nat (min (unat a) (unat R - 0 * unat a))"
    using sz by (metis mult_zero_left diff_zero unat_eq_of_nat_sym)
  have step: "unat R - min (unat a) (unat R) - i * unat a = unat R - Suc i * unat a" for i
    by (simp add: min_def)
  have "residue_slices n T a (R - ?sz) = map (\<lambda>i. \<lparr>sl_offset = of_nat (unat T - (unat R - Suc i * unat a)),
      sl_size = of_nat (min (unat a) (unat R - Suc i * unat a))\<rparr>) [0..<n]"
    using Suc.IH[of "R - ?sz"] Suc.prems unfolding rest step by simp
  then show ?case
    by (simp only: residue_slices.simps Let_def off size upt_conv_Cons zero_less_Suc map_Suc_upt[symmetric] list.map map_map o_def)
qed simp

text \<open>A byte lies in the slice its offset names.\<close>

lemma residue_slice_bytes:
  assumes "i < n" "0 < unat a"
  shows "x \<in> slice_bytes (residue_slices n T a T ! i) \<longleftrightarrow> x < unat T \<and> x div unat a = i"
    "slice_in (unat T) (residue_slices n T a T ! i)"
    "unat (sl_size (residue_slices n T a T ! i)) = min (unat a) (unat T - i * unat a)"
    "unat (sl_offset (residue_slices n T a T ! i)) = min (unat T) (i * unat a)"
proof -
  have T: "unat T < 2 ^ 64" using unsigned_less[of T, where ?'a = nat] by simp
  have w: "unat (of_nat k :: u64) = k" if "k \<le> unat T" for k
    using that T by (simp add: unsigned_of_nat take_bit_nat_eq_self)
  have nth: "residue_slices n T a T ! i = \<lparr>sl_offset = of_nat (unat T - (unat T - i * unat a)),
      sl_size = of_nat (min (unat a) (unat T - i * unat a))\<rparr>"
    unfolding residue_slices_map[OF order_refl] using assms(1) by (subst nth_map) simp_all
  have o: "unat (sl_offset (residue_slices n T a T ! i)) = unat T - (unat T - i * unat a)"
    unfolding nth Slice.select_convs by (rule w) simp
  show s: "unat (sl_size (residue_slices n T a T ! i)) = min (unat a) (unat T - i * unat a)"
    unfolding nth Slice.select_convs by (rule w) simp
  show o': "unat (sl_offset (residue_slices n T a T ! i)) = min (unat T) (i * unat a)" using o by linarith
  show "slice_in (unat T) (residue_slices n T a T ! i)" using o s unfolding slice_in_def by linarith
  have "x \<in> slice_bytes (residue_slices n T a T ! i) \<longleftrightarrow> x < unat T \<and> i * unat a \<le> x \<and> x < i * unat a + unat a"
    unfolding slice_bytes_iff o' s by (auto simp: min_def split: if_splits)
  also have "\<dots> \<longleftrightarrow> x < unat T \<and> x div unat a = i"
    using dividend_less_div_times[OF assms(2), of x] div_times_less_eq_dividend[of x "unat a"]
    by (auto intro!: div_nat_eqI simp: mult.commute add.commute)
  finally show "x \<in> slice_bytes (residue_slices n T a T ! i) \<longleftrightarrow> x < unat T \<and> x div unat a = i" .
qed

text \<open>Slices of a size that reaches the end divide the data.\<close>

lemma residue_divide:
  assumes a: "0 < unat a" "unat T \<le> n * unat a"
  shows "length (residue_slices n T a T) = n" "cover (residue_slices n T a T) = {..<unat T}"
    "disjoint_slices (residue_slices n T a T)"
    "s \<in> set (residue_slices n T a T) \<Longrightarrow> slice_in (unat T) s \<and> (sl_size s = 0 \<or> unat a dvd unat (sl_offset s))"
    "s \<in> set (residue_slices n T a T) \<Longrightarrow> u dvd unat a \<Longrightarrow> u dvd unat T \<Longrightarrow> u dvd unat (sl_offset s) \<and> u dvd unat (sl_size s)"
proof -
  let ?ss = "residue_slices n T a T"
  note at = residue_slice_bytes[where n = n and T = T, OF _ a(1)]
  show len: "length ?ss = n" unfolding residue_slices_map[OF order_refl] by simp
  show "cover ?ss = {..<unat T}"
  proof -
    have "x \<in> cover ?ss \<longleftrightarrow> (\<exists>i<n. x \<in> slice_bytes (?ss ! i))" for x
      unfolding cover_def using len by (force simp: set_conv_nth)
    moreover have "x < unat T \<Longrightarrow> x div unat a < n" for x
      using a by (metis less_mult_imp_div_less mult.commute order_less_le_trans)
    ultimately have "x \<in> cover ?ss \<longleftrightarrow> x < unat T" for x using at(1) by metis
    then show ?thesis by blast
  qed
  show "disjoint_slices ?ss" using at(1) len by (auto simp: disjoint_slices_def)
  assume "s \<in> set ?ss"
  then obtain i where i: "i < n" "s = ?ss ! i" using len by (auto simp: in_set_conv_nth)
  have "sl_size s = 0 \<or> i * unat a \<le> unat T" using at(3)[OF i(1)] i(2) by (metis diff_is_0_eq linear min_0R unat_eq_zero)
  then have "sl_size s = 0 \<or> unat a dvd unat (sl_offset s)" using at(4)[OF i(1)] i(2) by (auto simp: min_def)
  then show "slice_in (unat T) s \<and> (sl_size s = 0 \<or> unat a dvd unat (sl_offset s))" using at(2)[OF i(1)] i(2) by simp
  assume u: "u dvd unat a" "u dvd unat T"
  then have "u dvd min (unat T) (i * unat a)" "u dvd min (unat a) (unat T - i * unat a)"
    by (simp_all add: min_def dvd_diff_nat)
  then show "u dvd unat (sl_offset s) \<and> u dvd unat (sl_size s)" using at(3,4)[OF i(1)] i(2) by simp
qed

lemma RoundUpWithDivisor_spec:
  assumes "unat v + 127 < 2 ^ 64"
  shows "unat v \<le> unat (RoundUpWithDivisor v HCCL_MIN_SLICE_ALIGN)" "128 dvd unat (RoundUpWithDivisor v HCCL_MIN_SLICE_ALIGN)"
    "0 < unat (RoundUpWithDivisor v HCCL_MIN_SLICE_ALIGN)"
proof -
  have up: "unat (v + (HCCL_MIN_SLICE_ALIGN - 1)) = unat v + 127"
    using assms by (simp add: HCCL_MIN_SLICE_ALIGN_def unat_word_ariths)
  have q: "unat ((v + (HCCL_MIN_SLICE_ALIGN - 1)) div HCCL_MIN_SLICE_ALIGN) = (unat v + 127) div 128"
    by (simp only: unat_div up) (simp add: HCCL_MIN_SLICE_ALIGN_def)
  have "(unat v + 127) div 128 * 128 < 2 ^ 64" using assms by (meson div_times_less_eq_dividend le_less_trans)
  then have m: "unat (((v + (HCCL_MIN_SLICE_ALIGN - 1)) div HCCL_MIN_SLICE_ALIGN) * HCCL_MIN_SLICE_ALIGN) = (unat v + 127) div 128 * 128"
    by (simp only: unat_word_ariths(2) q) (simp add: HCCL_MIN_SLICE_ALIGN_def)
  have r: "unat (RoundUpWithDivisor v HCCL_MIN_SLICE_ALIGN) = (if v = 0 then 128 else (unat v + 127) div 128 * 128)"
    using m by (simp add: RoundUpWithDivisor_def) (simp add: HCCL_MIN_SLICE_ALIGN_def)
  show "128 dvd unat (RoundUpWithDivisor v HCCL_MIN_SLICE_ALIGN)" by (simp add: r)
  have up: "k \<le> (k + 127) div 128 * 128" "0 < k \<Longrightarrow> 0 < (k + 127) div 128 * 128" for k :: nat
    using div_mult_mod_eq[of "k + 127" 128] mod_less_divisor[of 128 "k + 127"] by linarith+
  have "v \<noteq> 0 \<Longrightarrow> 0 < unat v" by (simp add: unat_gt_0)
  then show "unat v \<le> unat (RoundUpWithDivisor v HCCL_MIN_SLICE_ALIGN)" "0 < unat (RoundUpWithDivisor v HCCL_MIN_SLICE_ALIGN)"
    unfolding r using up[of "unat v"] by (auto simp: unat_eq_zero)
qed


lemma ceil_div: "0 < (n::nat) \<Longrightarrow> t \<le> n * ((t + (n - 1)) div n)"
proof -
  assume n: "0 < n"
  have "(t + (n - 1)) mod n < n" using n by simp
  then show ?thesis using mult_div_mod_eq[of n "t + (n - 1)"] n by linarith
qed

definition prepared_slices :: "coll_env \<Rightarrow> nat \<Rightarrow> 'a AlgTemplate_scheme \<Rightarrow> Slice list" where
  "prepared_slices env N t = at_slices (AllReduceNHR_PrepareRunAsync env N t)"

lemma product_of_sizes:
  assumes "unat c * unat w < 2 ^ 64"
  shows "unat (c * ucast (w :: u32) :: u64) = unat c * unat w"
proof -
  have "unat (ucast w :: u64) = unat w"
    by (simp add: unsigned_ucast_eq take_bit_nat_eq_self less_trans[OF unsigned_less[of w, where ?'a = nat]])
  then show ?thesis using assms by (simp add: unat_word_ariths)
qed

lemma rank_count:
  assumes "0 < N" "N < 2 ^ 31"
  shows "unat (of_nat N :: u64) = N" "unat (of_nat N - 1 :: u64) = N - 1"
proof -
  show n: "unat (of_nat N :: u64) = N" using assms by (simp add: unsigned_of_nat take_bit_nat_eq_self)
  then have "(1 :: u64) \<le> of_nat N" using assms(1) by (simp add: word_le_nat_alt)
  then show "unat (of_nat N - 1 :: u64) = N - 1" using n by (simp add: unat_sub)
qed

lemma prepared_slices_aligned:
  assumes new: "at_slices t = []" and N: "0 < N" "N < 2 ^ 31"
    and T: "unat (at_count t) * unat (c_unit env) + N + 127 < 2 ^ 64"
  obtains a where "0 < unat a" "128 dvd unat a" "unat (at_count t * ucast (c_unit env) :: u64) \<le> N * unat a"
    "unat (at_count t * ucast (c_unit env) :: u64) = unat (at_count t) * unat (c_unit env)"
    "prepared_slices env N t = residue_slices N (at_count t * ucast (c_unit env)) a (at_count t * ucast (c_unit env))"
proof -
  let ?T = "at_count t * ucast (c_unit env) :: u64"
  let ?calc = "(?T + (of_nat N - 1)) div of_nat N"
  let ?a = "RoundUpWithDivisor ?calc HCCL_MIN_SLICE_ALIGN"
  have uT: "unat ?T = unat (at_count t) * unat (c_unit env)" by (rule product_of_sizes) (use T in linarith)
  note n = rank_count[OF N]
  have "unat (?T + (of_nat N - 1)) = unat ?T + (N - 1)" using uT n T by (simp add: unat_word_ariths)
  then have calc: "unat ?calc = (unat ?T + (N - 1)) div N" by (simp only: unat_div n)
  have "(unat ?T + (N - 1)) div N \<le> unat ?T + (N - 1)" by (rule div_le_dividend)
  then have "unat ?calc + 127 < 2 ^ 64" using calc T uT N(1) by linarith
  note a = RoundUpWithDivisor_spec[OF this]
  have "unat ?T \<le> N * ((unat ?T + (N - 1)) div N)" by (rule ceil_div[OF N(1)])
  also have "\<dots> \<le> N * unat ?a" using mult_le_mono2[OF a(1), of N] unfolding calc .
  finally have le: "unat ?T \<le> N * unat ?a" .
  show thesis
    by (rule that[OF a(3,2) le uT]) (use new in \<open>simp add: prepared_slices_def AllReduceNHR_PrepareRunAsync_def Let_def\<close>)
qed

lemma prepared_slices_divide:
  assumes "at_slices t = []" "0 < N" "N < 2 ^ 31" "unat (at_count t) * unat (c_unit env) + N + 127 < 2 ^ 64"
    "unat (c_unit env) dvd 128"
  shows "length (prepared_slices env N t) = N"
    "cover (prepared_slices env N t) = {..<unat (at_count t) * unat (c_unit env)}"
    "disjoint_slices (prepared_slices env N t)"
    "s \<in> set (prepared_slices env N t) \<Longrightarrow> slice_in (unat (at_count t) * unat (c_unit env)) s \<and>
      (sl_size s = 0 \<or> 128 dvd unat (sl_offset s)) \<and>
      unat (c_unit env) dvd unat (sl_offset s) \<and> unat (c_unit env) dvd unat (sl_size s)"
proof -
  let ?T = "at_count t * ucast (c_unit env) :: u64" and ?ss = "prepared_slices env N t" and ?u = "unat (c_unit env)"
  obtain a where a: "0 < unat a" "128 dvd unat a" "unat ?T \<le> N * unat a" and uT: "unat ?T = unat (at_count t) * ?u"
    and ss: "?ss = residue_slices N ?T a ?T"
    by (rule prepared_slices_aligned[OF assms(1-4)])
  note d = residue_divide[OF a(1,3)]
  show "length ?ss = N" "cover ?ss = {..<unat (at_count t) * ?u}" "disjoint_slices ?ss"
    using d(1-3) unfolding ss uT by simp_all
  assume "s \<in> set ?ss"
  then have s: "s \<in> set (residue_slices N ?T a ?T)" unfolding ss .
  have u: "?u dvd unat a" "?u dvd unat ?T" using assms(5) a(2) dvd_trans uT by auto
  have "sl_size s = 0 \<or> 128 dvd unat (sl_offset s)" using d(4)[OF s] a(2) dvd_trans by blast
  then show "slice_in (unat (at_count t) * ?u) s \<and> (sl_size s = 0 \<or> 128 dvd unat (sl_offset s)) \<and>
      ?u dvd unat (sl_offset s) \<and> ?u dvd unat (sl_size s)"
    using d(4)[OF s] d(5)[OF s u] unfolding uT by blast
qed

text \<open>
  C29: When no slices are given, AllReduce divides its data: one slice per rank, which start at
  multiples of 128 bytes unless empty, lie within the data, name every byte of it exactly once,
  and, for elements whose size divides 128, cut no element.
\<close>

theorem AllReduceNHR_slices:
  assumes "at_slices t = []" "0 < N" "N < 2 ^ 31" "unat (at_count t) * unat (c_unit env) + N + 127 < 2 ^ 64"
    "unat (c_unit env) dvd 128"
  shows "let ss = at_slices (AllReduceNHR_PrepareRunAsync env N t); T = unat (at_count t) * unat (c_unit env) in
    length ss = N \<and> cover ss = {..<T} \<and> disjoint_slices ss \<and>
    (\<forall>s\<in>set ss. slice_in T s \<and> (sl_size s = 0 \<or> 128 dvd unat (sl_offset s)) \<and>
      unat (c_unit env) dvd unat (sl_offset s) \<and> unat (c_unit env) dvd unat (sl_size s))"
  using prepared_slices_divide[OF assms] unfolding prepared_slices_def Let_def by blast

text \<open>A hundred elements of two bytes for three ranks: the last slice is empty.\<close>

definition sample_ar :: "u64 \<Rightarrow> AllReduceNHR" where
  "sample_ar attr = \<lparr>at_inputMem = \<lparr>dm_ptr = Some (INPUT_MEM, 64), dm_size = 200\<rparr>,
     at_outputMem = \<lparr>dm_ptr = Some (OUTPUT_MEM, 64), dm_size = 200\<rparr>, at_scratchMem = null_mem, at_count = 100,
     at_slices = [], at_baseOffset = 64, ar_reduceAttr = attr, ar_barrierSwitchOn = True\<rparr>"

definition env2 :: coll_env where
  "env2 = \<lparr>c_answer = \<lambda>_ _. HCCL_SUCCESS, c_dispatcher = True, c_stream = True, c_unit = 2\<rparr>"

lemma AllReduceNHR_slices_witness:
  "at_slices (AllReduceNHR_PrepareRunAsync env2 3 (sample_ar 0)) = [\<lparr>sl_offset = 0, sl_size = 128\<rparr>,
     \<lparr>sl_offset = 128, sl_size = 72\<rparr>, \<lparr>sl_offset = 200, sl_size = 0\<rparr>] \<and>
   cover (at_slices (AllReduceNHR_PrepareRunAsync env2 3 (sample_ar 0))) = {..<200}"
proof -
  have "at_slices (AllReduceNHR_PrepareRunAsync env2 3 (sample_ar 0)) = [\<lparr>sl_offset = 0, sl_size = 128\<rparr>,
     \<lparr>sl_offset = 128, sl_size = 72\<rparr>, \<lparr>sl_offset = 200, sl_size = 0\<rparr>]"
    by (simp add: AllReduceNHR_PrepareRunAsync_def sample_ar_def env2_def RoundUpWithDivisor_def HCCL_MIN_SLICE_ALIGN_def
        numeral_3_eq_3 Let_def)
  moreover have "unat (at_count (sample_ar 0)) * unat (c_unit env2) = 200" "unat (c_unit env2) dvd 128"
    by (simp_all add: sample_ar_def env2_def)
  ultimately show ?thesis using AllReduceNHR_slices[of "sample_ar 0" 3 env2] by (simp add: sample_ar_def Let_def)
qed

end
