(* ===== verification/AllReduceProof.thy ===== *)
theory AllReduceProof
  imports GatherRounds ReduceSlices
begin

text \<open>
  AllReduce as ReduceScatter followed by AllGather on the same streams: nothing separates the
  two phases but the order of each rank's own stream, so the ranks can be in different phases;
  no interleaving blocks, and at the end every rank's output holds the reduction of all inputs.
\<close>

section \<open>The two phases\<close>

text \<open>Input and output of one size, at the same offset of the two registered buffers.\<close>

definition ar_buffers :: "'a AlgTemplate_scheme \<Rightarrow> u64 \<Rightarrow> u64 \<Rightarrow> bool" where
  "ar_buffers t base size1 \<longleftrightarrow>
     at_inputMem t = \<lparr>dm_ptr = Some (INPUT_MEM, base), dm_size = size1\<rparr> \<and>
     at_outputMem t = \<lparr>dm_ptr = Some (OUTPUT_MEM, base), dm_size = size1\<rparr> \<and>
     at_baseOffset t = base \<and> unat base + unat size1 < 2 ^ 64"

definition ar_prepared :: "(AllReduceNHR, 'v) gather_run \<Rightarrow> nat \<Rightarrow> AllReduceNHR" where
  "ar_prepared S r = AllReduceNHR_PrepareRunAsync (gr_env S r) (gr_ranks S) (gr_tpl S r)"

text \<open>On writing links all ranks reduce in the same way, as for ReduceScatter.\<close>

definition ar_writes :: "link_caps \<Rightarrow> (AllReduceNHR, 'v) gather_run \<Rightarrow> bool" where
  "ar_writes caps S \<longleftrightarrow> (\<forall>r<gr_ranks S. ar_reduceAttr (gr_tpl S r) = ar_reduceAttr (gr_tpl S 0) \<and>
     ar_barrierSwitchOn (gr_tpl S r) = ar_barrierSwitchOn (gr_tpl S 0) \<and>
     (\<forall>q<gr_ranks S. \<not> lc_dataAck caps q \<and> (lc_rdmaDevice caps \<and> l_linkType (gr_link S r q) = LINK_STANDARD_ROCE \<longrightarrow>
       RDMA_REDUCE_BITMASK AND ar_reduceAttr (gr_tpl S 0) \<noteq> 0)))"

definition ar_ok :: "link_caps \<Rightarrow> (AllReduceNHR, 'v) gather_run \<Rightarrow> bool" where
  "ar_ok caps S \<longleftrightarrow> reduce_slices_ok S \<and> length (gr_slices S) = gr_ranks S \<and> (gr_rdma S \<longrightarrow> ar_writes caps S) \<and> (\<forall>r<gr_ranks S.
     env_ready (gr_env S r) (gr_unit S) \<and> links_ready (gr_ranks S) (gr_rdma S) (gr_pull S) (gr_links S r) \<and>
     ar_buffers (gr_tpl S r) (gr_base S) (gr_size S) \<and> at_slices (ar_prepared S r) = gr_slices S)"

definition ar_run :: "link_caps \<Rightarrow> (AllReduceNHR, 'v) gather_run \<Rightarrow> nat \<Rightarrow> HcclResult \<times> task list" where
  "ar_run caps S r = snd (AllReduceNHR_RunAsync (gr_env S r) caps r (gr_ranks S) (gr_links S r) (gr_tpl S r)) []"

definition ar_stream :: "link_caps \<Rightarrow> (AllReduceNHR, 'v) gather_run \<Rightarrow> nat \<Rightarrow> action list" where
  "ar_stream caps S r = stream_of (gr_link S r) (gr_unit S) r (snd (ar_run caps S r))"

text \<open>The phases as runs of their own: AllGather from the memory the first phase leaves.\<close>

definition ar_first :: "(AllReduceNHR, 'v) gather_run \<Rightarrow> (ReduceScatterNHR, 'v) gather_run" where
  "ar_first S = \<lparr>gr_ranks = gr_ranks S, gr_env = gr_env S, gr_links = gr_links S,
     gr_tpl = (\<lambda>r. AllReduceNHR_ReduceScatter (ar_prepared S r)), gr_rdma = gr_rdma S, gr_pull = gr_pull S,
     gr_unit = gr_unit S, gr_base = gr_base S, gr_size = gr_size S, gr_slices = gr_slices S, gr_mem = gr_mem S, gr_out = gr_out S\<rparr>"

definition ar_second :: "(AllReduceNHR, 'v) gather_run \<Rightarrow> 'v memory \<Rightarrow> (nat \<Rightarrow> 'v) \<Rightarrow> (NHRBase, 'v) gather_run" where
  "ar_second S m g = \<lparr>gr_ranks = gr_ranks S, gr_env = gr_env S, gr_links = gr_links S,
     gr_tpl = (\<lambda>r. AllReduceNHR_AllGather (ar_prepared S r)), gr_rdma = gr_rdma S, gr_pull = gr_pull S,
     gr_unit = gr_unit S, gr_base = gr_base S, gr_size = gr_size S, gr_slices = gr_slices S, gr_mem = m, gr_out = g\<rparr>"

lemma ar_first_fields [simp]:
  "gr_ranks (ar_first S) = gr_ranks S" "gr_env (ar_first S) = gr_env S" "gr_links (ar_first S) = gr_links S"
  "gr_tpl (ar_first S) = (\<lambda>r. AllReduceNHR_ReduceScatter (ar_prepared S r))" "gr_pull (ar_first S) = gr_pull S"
  "gr_unit (ar_first S) = gr_unit S" "gr_base (ar_first S) = gr_base S" "gr_size (ar_first S) = gr_size S"
  "gr_slices (ar_first S) = gr_slices S" "gr_k (ar_first S) = gr_k S" "gr_link (ar_first S) = gr_link S"
  "rs_rounds (ar_first S) = rs_rounds S" "gr_rdma (ar_first S) = gr_rdma S"
  by (simp_all add: ar_first_def gr_k_def gr_link_def fun_eq_iff rs_rounds_def)

lemma ar_second_fields [simp]:
  "gr_ranks (ar_second S m g) = gr_ranks S" "gr_env (ar_second S m g) = gr_env S" "gr_links (ar_second S m g) = gr_links S"
  "gr_tpl (ar_second S m g) = (\<lambda>r. AllReduceNHR_AllGather (ar_prepared S r))" "gr_pull (ar_second S m g) = gr_pull S"
  "gr_unit (ar_second S m g) = gr_unit S" "gr_base (ar_second S m g) = gr_base S" "gr_size (ar_second S m g) = gr_size S"
  "gr_slices (ar_second S m g) = gr_slices S" "gr_k (ar_second S m g) = gr_k S" "gr_link (ar_second S m g) = gr_link S"
  "gr_rdma (ar_second S m g) = gr_rdma S" "gr_mem (ar_second S m g) = m" "gr_out (ar_second S m g) = g"
  "nhr_rounds (ar_second S m g) = rs_rounds S"
  by (simp_all add: ar_second_def gr_k_def gr_link_def fun_eq_iff rs_rounds_def nhr_rounds_def)

lemma ar_prepared_fields:
  "at_inputMem (ar_prepared S r) = at_inputMem (gr_tpl S r)" "at_outputMem (ar_prepared S r) = at_outputMem (gr_tpl S r)"
  "at_baseOffset (ar_prepared S r) = at_baseOffset (gr_tpl S r)" "at_count (ar_prepared S r) = at_count (gr_tpl S r)"
  by (simp_all add: ar_prepared_def AllReduceNHR_PrepareRunAsync_def Let_def)

lemma first_template:
  assumes "at_slices t \<noteq> []"
  shows "at_slices (AllReduceNHR_ReduceScatter t) = at_slices t" "at_inputMem (AllReduceNHR_ReduceScatter t) = at_inputMem t"
    "at_outputMem (AllReduceNHR_ReduceScatter t) = at_inputMem t" "at_scratchMem (AllReduceNHR_ReduceScatter t) = at_outputMem t"
    "at_baseOffset (AllReduceNHR_ReduceScatter t) = at_baseOffset t" "nb_sliceMap (AllReduceNHR_ReduceScatter t) = []"
    "nb_isNeedMerge (AllReduceNHR_ReduceScatter t)"
  using assms by (simp_all add: AllReduceNHR_ReduceScatter_def Let_def ReduceScatterNHR_Prepare_def Prepare_def new_ReduceScatterNHR_def)

lemma second_template:
  assumes "at_slices t \<noteq> []"
  shows "at_slices (AllReduceNHR_AllGather t) = at_slices t" "at_inputMem (AllReduceNHR_AllGather t) = at_inputMem t"
    "at_outputMem (AllReduceNHR_AllGather t) = at_outputMem t" "at_baseOffset (AllReduceNHR_AllGather t) = at_baseOffset t"
    "nb_sliceMap (AllReduceNHR_AllGather t) = []" "nb_isNeedMerge (AllReduceNHR_AllGather t)"
  using assms by (simp_all add: AllReduceNHR_AllGather_def AllGatherNHR_Prepare_def Prepare_def new_AllGatherNHR_def)

lemma ar_okD:
  assumes "ar_ok caps S"
  shows "reduce_slices_ok S" "length (gr_slices S) = gr_ranks S" "gr_slices S \<noteq> []" "gr_k S = 1"
    "r < gr_ranks S \<Longrightarrow> env_ready (gr_env S r) (gr_unit S)"
    "r < gr_ranks S \<Longrightarrow> links_ready (gr_ranks S) (gr_rdma S) (gr_pull S) (gr_links S r)"
    "r < gr_ranks S \<Longrightarrow> ar_buffers (gr_tpl S r) (gr_base S) (gr_size S)"
    "r < gr_ranks S \<Longrightarrow> at_slices (ar_prepared S r) = gr_slices S"
proof -
  show red: "reduce_slices_ok S" and len: "length (gr_slices S) = gr_ranks S" using assms by (simp_all add: ar_ok_def)
  show "gr_slices S \<noteq> []" "gr_k S = 1" using len reduce_slicesD(1)[OF red] by (auto simp: gr_k_def)
  show "r < gr_ranks S \<Longrightarrow> env_ready (gr_env S r) (gr_unit S)"
    "r < gr_ranks S \<Longrightarrow> links_ready (gr_ranks S) (gr_rdma S) (gr_pull S) (gr_links S r)"
    "r < gr_ranks S \<Longrightarrow> ar_buffers (gr_tpl S r) (gr_base S) (gr_size S)"
    "r < gr_ranks S \<Longrightarrow> at_slices (ar_prepared S r) = gr_slices S"
    using assms by (simp_all add: ar_ok_def)
qed

lemma ar_merging:
  shows "nb_isNeedMerge (gr_tpl (ar_first S) r)" "nb_isNeedMerge (gr_tpl (ar_second S m g) r)"
proof -
  show "nb_isNeedMerge (gr_tpl (ar_first S) r)"
    by (simp add: AllReduceNHR_ReduceScatter_def Let_def ReduceScatterNHR_Prepare_def Prepare_def new_ReduceScatterNHR_def)
  show "nb_isNeedMerge (gr_tpl (ar_second S m g) r)"
    by (simp add: AllReduceNHR_AllGather_def AllGatherNHR_Prepare_def Prepare_def)
qed

lemma ar_first_ok:
  assumes ok: "ar_ok caps S"
  shows "rs_ok caps (ar_first S)"
proof -
  note D = ar_okD[OF ok]
  have red: "reduce_slices_ok (ar_first S)" using D(1) by (simp add: reduce_slices_ok_def)
  have "rs_buffers (gr_tpl (ar_first S) r) (gr_base S) (gr_size S) \<and>
      output_slices (gr_tpl (ar_first S) r) (gr_ranks S) (gr_unit S) = gr_slices S \<and> nb_sliceMap (gr_tpl (ar_first S) r) = []"
    if r: "r < gr_ranks S" for r
  proof -
    have sl: "at_slices (ar_prepared S r) = gr_slices S" by (rule D(8)[OF r])
    then have ne: "at_slices (ar_prepared S r) \<noteq> []" using D(3) by simp
    note t = first_template[OF ne] ar_prepared_fields[of S r]
    show ?thesis using D(7)[OF r] D(3) t sl by (simp add: rs_buffers_def ar_buffers_def output_slices_def)
  qed
  moreover have "writes_ready caps (ar_first S)" if kind: "gr_rdma S"
  proof -
    have w: "ar_writes caps S" using ok kind by (simp add: ar_ok_def)
    have t: "rs_reduceAttr (AllReduceNHR_ReduceScatter (ar_prepared S r)) = ar_reduceAttr (gr_tpl S r)"
      "rs_barrierSwitchOn (AllReduceNHR_ReduceScatter (ar_prepared S r)) = ar_barrierSwitchOn (gr_tpl S r)" for r
      by (simp_all add: AllReduceNHR_ReduceScatter_def ar_prepared_def AllReduceNHR_PrepareRunAsync_def Let_def
          ReduceScatterNHR_Prepare_def Prepare_def new_ReduceScatterNHR_def)
    have scratch: "dm_ptr (at_scratchMem (AllReduceNHR_ReduceScatter (ar_prepared S r))) = Some (OUTPUT_MEM, gr_base S)"
      if r: "r < gr_ranks S" for r
      using first_template(4)[of "ar_prepared S r"] D(3) D(7)[OF r] D(8)[OF r] by (simp add: ar_prepared_fields ar_buffers_def)
    show ?thesis unfolding writes_ready_def Let_def remote_mode_def ar_first_fields t
      using w[unfolded ar_writes_def] scratch by blast
  qed
  moreover have "nb_isNeedMerge (AllReduceNHR_ReduceScatter (ar_prepared S r))" for r using ar_merging(1)[of S r] by simp
  ultimately show ?thesis using red D(5,6) by (simp add: rs_ok_def Let_def)
qed

lemma ar_maps: "nhr_map (ar_second S m g) = rs_map (ar_first S)"
  using ar_merging(1)[of S 0] ar_merging(2)[of S m g 0] by (simp add: rs_map_def nhr_map_def)

text \<open>AllGather is set up correctly when every rank holds its own part of \<open>g\<close> in its input.\<close>

lemma ar_second_ok:
  assumes ok: "ar_ok caps S"
    and own: "\<And>r x. r < gr_ranks S \<Longrightarrow> x \<in> part (gr_slices S) (rs_map (ar_first S)) 1 r \<Longrightarrow>
      m r INPUT_MEM (unat (gr_base S) + x) = g x"
  shows "nhr_ok (ar_second S m g)"
proof -
  note D = ar_okD[OF ok]
  note N = reduce_slicesD[OF D(1)]
  let ?sm = "rs_map (ar_first S)"
  have perm: "perm_of (gr_ranks S) ?sm" using rs_map_perm[of "ar_first S"] D(1) by (simp add: reduce_slices_ok_def)
  have "let t = gr_tpl (ar_second S m g) r; target = ?sm ! r in
        env_ready (gr_env S r) (gr_unit S) \<and> links_ready (gr_ranks S) (gr_rdma S) (gr_pull S) (gr_links S r) \<and>
        buffers_ready t (gr_base S) (gr_size S) \<and> output_slices t (gr_ranks S) (gr_unit S) = gr_slices S \<and>
        input_ready m g r t (gr_base S) (part (gr_slices S) ?sm (gr_k S) r) (gr_k S)
          (gr_slices S ! target) (input_slices t (gr_ranks S) (at_count t * ucast (gr_unit S)) ! target)"
    if r: "r < gr_ranks S" for r
  proof -
    have sl: "at_slices (ar_prepared S r) = gr_slices S" by (rule D(8)[OF r])
    then have ne: "at_slices (ar_prepared S r) \<noteq> []" using D(3) by simp
    note t = second_template[OF ne] ar_prepared_fields[of S r]
    have "?sm ! r < length (gr_slices S)" using perm_of_nth[OF perm r] D(2) by simp
    then have "slice_in (unat (gr_size S)) (gr_slices S ! (?sm ! r))" using N(6) nth_mem by blast
    moreover have "m r INPUT_MEM (unat (gr_base S) + unat (sl_offset (gr_slices S ! (?sm ! r))) + x) =
        g (unat (sl_offset (gr_slices S ! (?sm ! r))) + x)" if "x < unat (sl_size (gr_slices S ! (?sm ! r)))" for x
      using own[OF r, of "unat (sl_offset (gr_slices S ! (?sm ! r))) + x"] that
      by (simp add: part_one[unfolded One_nat_def] slice_bytes_iff add.assoc)
    ultimately show ?thesis using D(3,4) D(5-7)[OF r] t sl
      by (simp add: buffers_ready_def ar_buffers_def output_slices_def input_slices_def input_ready_def Let_def)
  qed
  then have "run_ok ?sm (ar_second S m g)"
    using D(1) by (simp add: run_ok_def reduce_slices_ok_def Let_def)
  moreover have "nb_sliceMap (gr_tpl (ar_second S m g) r) = []" if r: "r < gr_ranks S" for r
    using second_template(5)[of "ar_prepared S r"] D(3) D(8)[OF r] by simp
  moreover have "nb_isNeedMerge (gr_tpl (ar_second S m g) r)" for r by (rule ar_merging(2))
  ultimately show ?thesis unfolding nhr_ok_def ar_maps by (simp del: ar_second_fields add: ar_second_fields(1))
qed

section \<open>All rounds\<close>

text \<open>What the second phase does depends neither on the memory nor on the values; any run stands for it.\<close>

definition ar_gather :: "(AllReduceNHR, 'v) gather_run \<Rightarrow> (NHRBase, 'v) gather_run" where
  "ar_gather S = ar_second S (\<lambda>_ _ _. gr_out S 0) (\<lambda>_. gr_out S 0)"

lemma ar_second_same:
  "nhr_moves (ar_second S m g) = nhr_moves (ar_gather S)" "nhr_stream (ar_second S m g) = nhr_stream (ar_gather S)"
  "nhr_run (ar_second S m g) = nhr_run (ar_gather S)" "nhr_work (ar_second S m g) = nhr_work (ar_gather S)"
proof -
  have e: "ar_second S m g = (ar_gather S)\<lparr>gr_mem := m, gr_out := g\<rparr>" by (simp add: ar_gather_def ar_second_def)
  show "nhr_moves (ar_second S m g) = nhr_moves (ar_gather S)" "nhr_stream (ar_second S m g) = nhr_stream (ar_gather S)"
    "nhr_run (ar_second S m g) = nhr_run (ar_gather S)" "nhr_work (ar_second S m g) = nhr_work (ar_gather S)"
    unfolding e by simp_all
qed

lemma ar_gather_ok: "ar_ok caps S \<Longrightarrow> nhr_ok (ar_gather S)"
  unfolding ar_gather_def by (rule ar_second_ok) simp_all

definition ar_from :: "(AllReduceNHR, 'v) gather_run \<Rightarrow> nat \<Rightarrow> nat \<Rightarrow> nat" where
  "ar_from S = two_phases (rs_rounds S) (rs_from (ar_first S)) (\<lambda>s. nhr_from (ar_gather S) (s - 1))"

definition ar_to :: "(AllReduceNHR, 'v) gather_run \<Rightarrow> nat \<Rightarrow> nat \<Rightarrow> nat" where
  "ar_to S = two_phases (rs_rounds S) (rs_to (ar_first S)) (\<lambda>s. nhr_to (ar_gather S) (s - 1))"

definition ar_active :: "(AllReduceNHR, 'v) gather_run \<Rightarrow> nat \<Rightarrow> nat \<Rightarrow> bool" where
  "ar_active S = two_phases (rs_rounds S) (\<lambda>s r. True) (\<lambda>s r. s \<noteq> 0)"

definition ar_barrier :: "(AllReduceNHR, 'v) gather_run \<Rightarrow> nat \<Rightarrow> bool" where
  "ar_barrier S = two_phases (rs_rounds S) (\<lambda>s. rs_barrierSwitchOn (gr_tpl (ar_first S) 0)) (\<lambda>s. False)"

definition ar_given :: "link_caps \<Rightarrow> (AllReduceNHR, 'v) gather_run \<Rightarrow> nat \<Rightarrow> nat \<Rightarrow> action list" where
  "ar_given caps S = two_phases (rs_rounds S) (rs_given caps (ar_first S)) (nhr_given (ar_gather S))"

definition ar_own :: "link_caps \<Rightarrow> (AllReduceNHR, 'v) gather_run \<Rightarrow> nat \<Rightarrow> nat \<Rightarrow> action list" where
  "ar_own caps S = two_phases (rs_rounds S) (rs_own caps (ar_first S)) (nhr_start (ar_gather S))"

definition ar_work :: "link_caps \<Rightarrow> (AllReduceNHR, 'v) gather_run \<Rightarrow> nat \<Rightarrow> nat \<Rightarrow> action list" where
  "ar_work caps S = two_phases (rs_rounds S) (rs_work caps (ar_first S)) (nhr_work (ar_gather S))"

lemmas ar_phases = ar_from_def ar_to_def ar_active_def ar_barrier_def ar_given_def ar_own_def ar_work_def

lemma ar_gather_fields [simp]:
  "gr_ranks (ar_gather S) = gr_ranks S" "gr_slices (ar_gather S) = gr_slices S" "nhr_rounds (ar_gather S) = rs_rounds S"
  "gr_rdma (ar_gather S) = gr_rdma S" "gr_env (ar_gather S) = gr_env S" "gr_links (ar_gather S) = gr_links S"
  "gr_link (ar_gather S) = gr_link S" "gr_unit (ar_gather S) = gr_unit S"
  "gr_tpl (ar_gather S) = (\<lambda>r. AllReduceNHR_AllGather (ar_prepared S r))"
  by (simp_all add: ar_gather_def)

lemma ar_program:
  assumes ok: "ar_ok caps S" and r: "r < gr_ranks S"
  shows "fst (ar_run caps S r) = HCCL_SUCCESS"
    "ar_stream caps S r = rs_stream caps (ar_first S) r @ nhr_stream (ar_gather S) r"
proof -
  note D = ar_okD[OF ok]
  note N = reduce_slicesD[OF D(1)]
  have env: "c_dispatcher (gr_env S r)" "c_stream (gr_env S r)" using D(5)[OF r] by (simp_all add: env_ready_def)
  have "\<not> length (gr_links S r) < gr_ranks S" using D(6)[OF r] by (simp add: links_ready_def)
  then have check: "ReduceScatterNHR_SimpleCheck (gr_env S r) (gr_tpl S r) (gr_ranks S) (gr_links S r) = HCCL_SUCCESS"
    using env D(7)[OF r] by (simp add: ReduceScatterNHR_SimpleCheck_def ar_buffers_def)
  have prog: "snd (AllReduceNHR_RunAsync (gr_env S r) caps r (gr_ranks S) (gr_links S r) (gr_tpl S r)) =
      andthen (RunReduceScatter (gr_env S r) caps r (gr_ranks S) (gr_links S r) (ar_prepared S r))
        (RunAllGather (gr_env S r) r (gr_ranks S) (gr_links S r) (ar_prepared S r))"
    using N(1) by (simp add: AllReduceNHR_RunAsync_def check Let_def ar_prepared_def)
  have r1: "r < gr_ranks (ar_first S)" and r2: "r < gr_ranks (ar_gather S)" using r by simp_all
  obtain ts where ts: "runs (RunReduceScatter (gr_env S r) caps r (gr_ranks S) (gr_links S r) (ar_prepared S r)) ts"
      "stream_of (gr_link S r) (gr_unit S) r ts = rs_stream caps (ar_first S) r"
    using rs_program[OF ar_first_ok[OF ok] r1] rs_run_stream(2)[OF ar_first_ok[OF ok] r1] by (auto simp: RunReduceScatter_def)
  have us: "runs (RunAllGather (gr_env S r) r (gr_ranks S) (gr_links S r) (ar_prepared S r)) (snd (nhr_run (ar_gather S) r))"
    using nhr_program(4)[OF ar_gather_ok[OF ok] r2] by (simp add: RunAllGather_def)
  have run: "ar_run caps S r = (HCCL_SUCCESS, ts @ snd (nhr_run (ar_gather S) r))"
    unfolding ar_run_def prog using runsD[OF runs_andthen[OF ts(1) us]] by simp
  show "fst (ar_run caps S r) = HCCL_SUCCESS" by (simp add: run)
  show "ar_stream caps S r = rs_stream caps (ar_first S) r @ nhr_stream (ar_gather S) r"
    by (simp add: ar_stream_def run ts(2) nhr_stream_def)
qed

lemma ar_read_rounds:
  assumes ok: "ar_ok caps S" and kind: "\<not> gr_rdma S"
  shows "read_rounds (gr_ranks S) (rs_rounds S + Suc (rs_rounds S)) (ar_from S) (ar_to S) (ar_active S) (ar_active S)
    (ar_work caps S) (ar_stream caps S)"
proof -
  note D = ar_okD[OF ok]
  have first: "read_rounds (gr_ranks S) (rs_rounds S) (rs_from (ar_first S)) (rs_to (ar_first S)) (\<lambda>s r. True) (\<lambda>s r. True)
      (rs_work caps (ar_first S)) (rs_stream caps (ar_first S))"
    using rs_read_rounds[OF ar_first_ok[OF ok]] kind by simp
  have work: "nhr_work (ar_gather S) = nhr_moves (ar_gather S)" using kind by (simp add: nhr_work_def)
  have second: "read_rounds (gr_ranks S) (Suc (rs_rounds S)) (\<lambda>s. nhr_from (ar_gather S) (s - 1))
      (\<lambda>s. nhr_to (ar_gather S) (s - 1)) (\<lambda>s r. s \<noteq> 0) (\<lambda>s r. s \<noteq> 0) (nhr_work (ar_gather S)) (nhr_stream (ar_gather S))"
    using nhr_read_rounds[OF ar_gather_ok[OF ok]] reduce_slicesD(10)[OF D(1)] kind by (simp add: work)
  show ?thesis by (rule read_rounds_append[OF first second _ _ ar_program(2)[OF ok]]) (simp_all add: ar_phases)
qed

lemma ar_write_rounds:
  assumes ok: "ar_ok caps S" and kind: "gr_rdma S"
  shows "write_rounds (gr_ranks S) (rs_rounds S + Suc (rs_rounds S)) (ar_from S) (ar_to S) (ar_active S) (ar_active S) True
    (ar_barrier S) (ar_barrier S) (ar_given caps S) (ar_own caps S) (ar_stream caps S)"
proof -
  note D = ar_okD[OF ok]
  have first: "write_rounds (gr_ranks S) (rs_rounds S) (rs_from (ar_first S)) (rs_to (ar_first S)) (\<lambda>s r. True) (\<lambda>s r. True) True
      (\<lambda>s. rs_barrierSwitchOn (gr_tpl (ar_first S) 0)) (\<lambda>s. rs_barrierSwitchOn (gr_tpl (ar_first S) 0))
      (rs_given caps (ar_first S)) (rs_own caps (ar_first S)) (rs_stream caps (ar_first S))"
    using rs_write_rounds[OF ar_first_ok[OF ok]] kind by simp
  have second: "write_rounds (gr_ranks S) (Suc (rs_rounds S)) (\<lambda>s. nhr_from (ar_gather S) (s - 1))
      (\<lambda>s. nhr_to (ar_gather S) (s - 1)) (\<lambda>s r. s \<noteq> 0) (\<lambda>s r. s \<noteq> 0) True (\<lambda>s. False) (\<lambda>s. False)
      (nhr_given (ar_gather S)) (nhr_start (ar_gather S)) (nhr_stream (ar_gather S))"
    using nhr_write_rounds[OF ar_gather_ok[OF ok]] reduce_slicesD(10)[OF D(1)] kind by simp
  show ?thesis by (rule write_rounds_append[OF first second _ _ ar_program(2)[OF ok]]) (simp_all add: ar_phases)
qed

definition ar_readers :: "link_caps \<Rightarrow> (AllReduceNHR, 'v) gather_run \<Rightarrow> nat" where
  "ar_readers caps S = (if ar_ok caps S \<and> \<not> gr_rdma S then gr_ranks S else 0)"

definition ar_writers :: "link_caps \<Rightarrow> (AllReduceNHR, 'v) gather_run \<Rightarrow> nat" where
  "ar_writers caps S = (if ar_ok caps S \<and> gr_rdma S then gr_ranks S else 0)"

interpretation ar_reading: read_rounds "ar_readers caps S" "rs_rounds S + Suc (rs_rounds S)" "ar_from S" "ar_to S"
  "ar_active S" "ar_active S" "ar_work caps S" "ar_stream caps S" for caps S
  unfolding ar_readers_def by (rule read_rounds_or_none) (blast intro: ar_read_rounds)

interpretation ar_writing: write_rounds "ar_writers caps S" "rs_rounds S + Suc (rs_rounds S)" "ar_from S" "ar_to S"
  "ar_active S" "ar_active S" True "ar_barrier S" "ar_barrier S" "ar_given caps S" "ar_own caps S" "ar_stream caps S" for caps S
  unfolding ar_writers_def by (rule write_rounds_or_none) (blast intro: ar_write_rounds)

lemma ar_round_work:
  assumes "gr_rdma S"
  shows "write_rounds.round_work (ar_from S) (ar_active S) (ar_given caps S) (ar_own caps S) = ar_work caps S"
proof (intro ext)
  fix s r
  show "write_rounds.round_work (ar_from S) (ar_active S) (ar_given caps S) (ar_own caps S) s r = ar_work caps S s r"
    unfolding ar_writing.round_work_def unfolding ar_phases two_phases_def nhr_work_def nhr_write_rounding.round_work_def
    using assms by (simp add: rs_work_def)
qed

lemma ar_final_memory:
  assumes ok: "ar_ok caps S" and "(stream_step f (gr_ranks S) (ar_stream caps S))\<^sup>*\<^sup>* (start m) c"
    "finished (gr_ranks S) (ar_stream caps S) c" "r < gr_ranks S"
  shows "cf_mem c r = round_mem f (ar_work caps S) m (rs_rounds S + Suc (rs_rounds S)) r"
proof (cases "gr_rdma S")
  case True
  then have "ar_writers caps S = gr_ranks S" using ok by (simp add: ar_writers_def)
  then show ?thesis
    using ar_writing.final_memory[of f caps S m c r, unfolded ar_round_work[OF True]] assms(2-4) by (simp del: round_mem.simps)
next
  case False
  then have "ar_readers caps S = gr_ranks S" using ok by (simp add: ar_readers_def)
  then show ?thesis using ar_reading.final_memory[of f caps S m c r] assms(2-4) by (simp del: round_mem.simps)
qed

lemma ar_not_stuck:
  assumes ok: "ar_ok caps S" and "(stream_step f (gr_ranks S) (ar_stream caps S))\<^sup>*\<^sup>* (start m) c"
    "\<not> finished (gr_ranks S) (ar_stream caps S) c"
  shows "\<exists>d. stream_step f (gr_ranks S) (ar_stream caps S) c d"
proof (cases "gr_rdma S")
  case True
  then have "ar_writers caps S = gr_ranks S" using ok by (simp add: ar_writers_def)
  then show ?thesis using ar_writing.rr.no_deadlock[of f caps S m c] assms(2,3) by simp
next
  case False
  then have "ar_readers caps S = gr_ranks S" using ok by (simp add: ar_readers_def)
  then show ?thesis using ar_reading.rr.no_deadlock[of f caps S m c] assms(2,3) by simp
qed

lemma ar_two_phases:
  "round_mem f (ar_work caps S) m (rs_rounds S + Suc (rs_rounds S)) =
    round_mem f (nhr_work (ar_gather S)) (round_mem f (rs_work caps (ar_first S)) m (rs_rounds S)) (Suc (rs_rounds S))"
proof -
  have "round_mem f (ar_work caps S) m (rs_rounds S) = round_mem f (rs_work caps (ar_first S)) m (rs_rounds S)"
    by (rule round_mem_cong) (simp add: ar_work_def)
  moreover have "(\<lambda>s. ar_work caps S (rs_rounds S + s)) = nhr_work (ar_gather S)" by (simp add: ar_work_def fun_eq_iff)
  ultimately show ?thesis by (simp only: round_mem_append)
qed

lemma ar_reduced:
  fixes S :: "(AllReduceNHR, 'v) gather_run" and m :: "'v memory"
  assumes ok: "ar_ok caps S" and f: "associative f" and r: "r < gr_ranks S"
    and l: "l < gr_ranks S" and x: "x \<in> part (gr_slices S) (rs_map (ar_first S)) 1 l"
  shows "round_mem f (ar_work caps S) m (rs_rounds S + Suc (rs_rounds S)) r OUTPUT_MEM (unat (gr_base S) + x) =
    reduce_all f (map (\<lambda>j. m (fwd (gr_ranks S) l j) INPUT_MEM (unat (gr_base S) + x)) [0..<gr_ranks S])"
proof -
  note D = ar_okD[OF ok]
  note N = reduce_slicesD[OF D(1)]
  let ?P = "part (gr_slices S) (rs_map (ar_first S)) 1"
  let ?M = "round_mem f (rs_work caps (ar_first S)) m (rs_rounds S)"
  let ?g = "\<lambda>y. ?M (SOME l. l < gr_ranks S \<and> y \<in> ?P l) INPUT_MEM (unat (gr_base S) + y)"
  have perm: "perm_of (gr_ranks S) (rs_map (ar_first S))"
    using rs_map_perm[of "ar_first S"] rs_reduce_ok[OF ar_first_ok[OF ok]] by simp
  have len: "length (gr_slices S) = gr_ranks S * 1" using D(2) by simp
  have pick: "?g y = ?M q INPUT_MEM (unat (gr_base S) + y)" if q: "q < gr_ranks S" "y \<in> ?P q" for q y
  proof -
    have "(SOME l. l < gr_ranks S \<and> y \<in> ?P l) = q"
      by (rule some_equality) (use q part_unique[OF perm len N(10)] in blast)+
    then show ?thesis by (simp only:)
  qed
  have second: "nhr_ok (ar_second S ?M ?g)"
    by (rule ar_second_ok[OF ok]) (rule pick[symmetric])
  let ?s = "gr_slices S ! (rs_map (ar_first S) ! l)"
  have "rs_map (ar_first S) ! l < length (gr_slices S)" using perm_of_nth[OF perm l] D(2) by simp
  then have s: "?s \<in> set (gr_slices S)" "x \<in> slice_bytes ?s" using x nth_mem by (simp_all add: part_one[unfolded One_nat_def])
  have "round_mem f (nhr_work (ar_gather S)) ?M (Suc (rs_rounds S)) r OUTPUT_MEM (unat (gr_base S) + x) = ?g x"
    using nhr_work_result[OF second, of r ?s x f] N(10) r s by (simp add: ar_second_same del: round_mem.simps)
  moreover have "?g x = reduce_all f (map (\<lambda>j. m (fwd (gr_ranks S) l j) INPUT_MEM (unat (gr_base S) + x)) [0..<gr_ranks S])"
    using pick[OF l x] rs_reduced[OF ar_first_ok[OF ok] f, of l x m] l x D(4) by simp
  ultimately show ?thesis by (simp only: ar_two_phases)
qed

section \<open>Correctness of AllReduce\<close>

text \<open>The result on either kind of links.\<close>

lemma ar_reduces:
  fixes S :: "(AllReduceNHR, 'v) gather_run" and f :: "'v \<Rightarrow> 'v \<Rightarrow> 'v"
  assumes "ar_ok caps S" "associative f"
  shows "(\<forall>r<gr_ranks S. fst (ar_run caps S r) = HCCL_SUCCESS) \<and>
    (\<forall>m c. (stream_step f (gr_ranks S) (ar_stream caps S))\<^sup>*\<^sup>* (start m) c \<longrightarrow>
      finished (gr_ranks S) (ar_stream caps S) c \<or> (\<exists>d. stream_step f (gr_ranks S) (ar_stream caps S) c d)) \<and>
    (\<forall>m c r l. (stream_step f (gr_ranks S) (ar_stream caps S))\<^sup>*\<^sup>* (start m) c \<longrightarrow>
      finished (gr_ranks S) (ar_stream caps S) c \<longrightarrow> r < gr_ranks S \<longrightarrow> l < gr_ranks S \<longrightarrow>
      (\<forall>x\<in>slice_bytes (gr_slices S ! (GetRankMapping (gr_ranks S) False [] ! l)).
        cf_mem c r OUTPUT_MEM (unat (gr_base S) + x) =
        reduce_all f (map (\<lambda>j. m ((l + j) mod gr_ranks S) INPUT_MEM (unat (gr_base S) + x)) [0..<gr_ranks S])))"
proof (intro conjI allI impI ballI)
  show "fst (ar_run caps S r) = HCCL_SUCCESS" if "r < gr_ranks S" for r by (rule ar_program(1)[OF assms(1) that])
  show "finished (gr_ranks S) (ar_stream caps S) c \<or> (\<exists>d. stream_step f (gr_ranks S) (ar_stream caps S) c d)"
    if "(stream_step f (gr_ranks S) (ar_stream caps S))\<^sup>*\<^sup>* (start m) c" for m c
    using ar_not_stuck[OF assms(1) that] by blast
  have map: "rs_map (ar_first S) = GetRankMapping (gr_ranks S) False []"
    using ar_merging(1)[of S 0] by (simp add: rs_map_def)
  fix m c r l x
  assume run: "(stream_step f (gr_ranks S) (ar_stream caps S))\<^sup>*\<^sup>* (start m) c" "finished (gr_ranks S) (ar_stream caps S) c"
      "r < gr_ranks S" and l: "l < gr_ranks S"
    and x: "x \<in> slice_bytes (gr_slices S ! (GetRankMapping (gr_ranks S) False [] ! l))"
  show "cf_mem c r OUTPUT_MEM (unat (gr_base S) + x) =
      reduce_all f (map (\<lambda>j. m ((l + j) mod gr_ranks S) INPUT_MEM (unat (gr_base S) + x)) [0..<gr_ranks S])"
    unfolding ar_final_memory[OF assms(1) run]
    using ar_reduced[OF assms run(3) l, of x m] x by (simp add: part_one[unfolded One_nat_def] map fwd_def)
qed

text \<open>
  C27: AllReduce over the hierarchical ring on reading links: for every number of ranks from 2
  below \<open>2 ^ 31\<close> every rank's call succeeds, and for every interleaving of the
  ranks' streams, in which a rank may already be gathering while another is still reducing, a
  run that is not complete can go on, and a complete run leaves in every rank's output, on every
  byte of every rank \<open>l\<close>'s part, the reduction of all ranks' inputs there, in the cyclic order of
  the ranks from \<open>l\<close>, the same at every rank.
\<close>

theorem AllReduceNHR_reduces:
  fixes S :: "(AllReduceNHR, 'v) gather_run" and f :: "'v \<Rightarrow> 'v \<Rightarrow> 'v"
  assumes "ar_ok caps S" "\<not> gr_rdma S" "associative f"
  shows "(\<forall>r<gr_ranks S. fst (ar_run caps S r) = HCCL_SUCCESS) \<and>
    (\<forall>m c. (stream_step f (gr_ranks S) (ar_stream caps S))\<^sup>*\<^sup>* (start m) c \<longrightarrow>
      finished (gr_ranks S) (ar_stream caps S) c \<or> (\<exists>d. stream_step f (gr_ranks S) (ar_stream caps S) c d)) \<and>
    (\<forall>m c r l. (stream_step f (gr_ranks S) (ar_stream caps S))\<^sup>*\<^sup>* (start m) c \<longrightarrow>
      finished (gr_ranks S) (ar_stream caps S) c \<longrightarrow> r < gr_ranks S \<longrightarrow> l < gr_ranks S \<longrightarrow>
      (\<forall>x\<in>slice_bytes (gr_slices S ! (GetRankMapping (gr_ranks S) False [] ! l)).
        cf_mem c r OUTPUT_MEM (unat (gr_base S) + x) =
        reduce_all f (map (\<lambda>j. m ((l + j) mod gr_ranks S) INPUT_MEM (unat (gr_base S) + x)) [0..<gr_ranks S])))"
  by (rule ar_reduces[OF assms(1,3)])

text \<open>
  C40: AllReduce over the hierarchical ring on writing (RDMA) links, where the sender reduces into
  the receiver's memory, or writes into its output buffer, from which the receiver reduces, with
  or without a barrier, for every number of ranks from 2 below \<open>2 ^ 31\<close>: all ranks
  use the same way of reducing, no link asks for acknowledgements of received data, and
  on a standard link whose device can reduce the attribute for it is set (otherwise the receiver
  would not wait for the data). Every call succeeds, no interleaving of the streams blocks, and a
  complete run leaves in every output the reduction of all inputs.
\<close>

theorem AllReduceNHR_reduces_writing:
  fixes S :: "(AllReduceNHR, 'v) gather_run" and f :: "'v \<Rightarrow> 'v \<Rightarrow> 'v"
  assumes "ar_ok caps S" "gr_rdma S" "associative f"
  shows "(\<forall>r<gr_ranks S. fst (ar_run caps S r) = HCCL_SUCCESS) \<and>
    (\<forall>m c. (stream_step f (gr_ranks S) (ar_stream caps S))\<^sup>*\<^sup>* (start m) c \<longrightarrow>
      finished (gr_ranks S) (ar_stream caps S) c \<or> (\<exists>d. stream_step f (gr_ranks S) (ar_stream caps S) c d)) \<and>
    (\<forall>m c r l. (stream_step f (gr_ranks S) (ar_stream caps S))\<^sup>*\<^sup>* (start m) c \<longrightarrow>
      finished (gr_ranks S) (ar_stream caps S) c \<longrightarrow> r < gr_ranks S \<longrightarrow> l < gr_ranks S \<longrightarrow>
      (\<forall>x\<in>slice_bytes (gr_slices S ! (GetRankMapping (gr_ranks S) False [] ! l)).
        cf_mem c r OUTPUT_MEM (unat (gr_base S) + x) =
        reduce_all f (map (\<lambda>j. m ((l + j) mod gr_ranks S) INPUT_MEM (unat (gr_base S) + x)) [0..<gr_ranks S])))"
  by (rule ar_reduces[OF assms(1,3)])

text \<open>The slices AllReduce makes itself are fit for both phases.\<close>

lemma prepared_ok:
  assumes "at_slices t = []" "2 \<le> gr_ranks S" "gr_ranks S < 2 ^ 31" "gr_slices S = prepared_slices env (gr_ranks S) t"
    "c_unit env = gr_unit S" "unat (gr_size S) = unat (at_count t) * unat (gr_unit S)"
    "unat (gr_size S) + gr_ranks S + 127 < 2 ^ 64" "unat (gr_unit S) dvd 128"
  shows "reduce_slices_ok S" "length (gr_slices S) = gr_ranks S"
proof -
  have "0 < gr_ranks S" using assms(2) by simp
  note d = prepared_slices_divide[OF assms(1) this assms(3), of env, unfolded assms(5), folded assms(6),
      OF assms(7,8), folded assms(4)]
  show "length (gr_slices S) = gr_ranks S" by (rule d(1))
  then have "slices_ready (gr_ranks S) (gr_size S) (gr_slices S)"
    using assms(2,3) d(4) by (auto simp: slices_ready_def)
  moreover have "whole_elements (gr_unit S) (gr_slices S)" using d(4) by (simp add: whole_elements_def)
  ultimately show "reduce_slices_ok S" using assms(2,3) d(3) by (simp add: reduce_slices_ok_def)
qed

definition ar3 :: "bool \<Rightarrow> (AllReduceNHR, nat) gather_run" where
  "ar3 rdma = \<lparr>gr_ranks = 3, gr_env = \<lambda>r. env2, gr_links = \<lambda>r. replicate 3 (Some (sample_link rdma)),
     gr_tpl = \<lambda>r. sample_ar 1, gr_rdma = rdma, gr_pull = \<not> rdma, gr_unit = 2, gr_base = 64, gr_size = 200,
     gr_slices = prepared_slices env2 3 (sample_ar 1), gr_mem = \<lambda>r b a. 1000 * r + a, gr_out = \<lambda>x. 0\<rparr>"

lemma ar3_slices: "prepared_slices env2 3 (sample_ar 1) = [\<lparr>sl_offset = 0, sl_size = 128\<rparr>,
    \<lparr>sl_offset = 128, sl_size = 72\<rparr>, \<lparr>sl_offset = 200, sl_size = 0\<rparr>]"
  by (simp add: prepared_slices_def AllReduceNHR_PrepareRunAsync_def sample_ar_def env2_def RoundUpWithDivisor_def
      HCCL_MIN_SLICE_ALIGN_def numeral_3_eq_3 Let_def)

lemma ar3_ok: "ar_ok sample_caps (ar3 rdma)"
proof -
  have "reduce_slices_ok (ar3 rdma)" "length (gr_slices (ar3 rdma)) = gr_ranks (ar3 rdma)"
    by (rule prepared_ok[of "sample_ar 1" "ar3 rdma" env2]; simp add: ar3_def env2_def sample_ar_def)+
  moreover have "env_ready env2 2" by (simp add: env_ready_def env2_def all_succeed_def)
  moreover note links_ready_sample[of rdma]
  moreover have "ar_buffers (sample_ar 1) 64 200" by (simp add: ar_buffers_def sample_ar_def)
  moreover have "ar_writes sample_caps (ar3 rdma)" if rdma
    using that by (simp add: ar_writes_def ar3_def sample_caps_def gr_link_def sample_link_def)
  moreover have "at_slices (ar_prepared (ar3 rdma) r) = gr_slices (ar3 rdma)" for r
    by (simp add: ar_prepared_def prepared_slices_def ar3_def)
  ultimately show ?thesis by (simp add: ar_ok_def) (simp add: ar3_def)
qed

lemma GetRankMapping_three: "GetRankMapping 3 False [] = [0, 1, 2]"
  apply (simp add: GetRankMapping_def inverse_map_def GetStepNumInterServer_def halvings.simps upt_rec sub32_def w32_def Let_def)
  apply (simp add: eval_nat_numeral)
  done

lemma ar3_fields: "gr_ranks (ar3 rdma) = 3" "unat (gr_base (ar3 rdma)) = 64"
  by (simp_all add: ar3_def)

lemma ar3_part: "130 \<in> slice_bytes (gr_slices (ar3 rdma) ! (GetRankMapping 3 False [] ! 1))"
  unfolding GetRankMapping_three by (simp add: ar3_def ar3_slices slice_bytes_def bytes_def)

lemma ar3_sum: "reduce_all (+) (map (\<lambda>j. gr_mem (ar3 rdma) ((1 + j) mod 3) INPUT_MEM (64 + 130)) [0..<3]) = 3582"
  by (simp add: ar3_def upt_3)

lemma AllReduceNHR_reduces_witness:
  "fst (ar_run sample_caps (ar3 False) 1) = HCCL_SUCCESS \<and>
   (\<exists>c. (stream_step (+) 3 (ar_stream sample_caps (ar3 False)))\<^sup>*\<^sup>* (start (gr_mem (ar3 False))) c \<and>
     finished 3 (ar_stream sample_caps (ar3 False)) c \<and> cf_mem c 0 OUTPUT_MEM 194 = 3582)"
proof -
  let ?S = "ar3 False"
  have kind: "\<not> gr_rdma ?S" by (simp add: ar3_def)
  note all = AllReduceNHR_reduces[OF ar3_ok[of False] kind associative_plus, unfolded ar3_fields]
  obtain c where c: "(stream_step (+) 3 (ar_stream sample_caps ?S))\<^sup>*\<^sup>* (start (gr_mem ?S)) c" "finished 3 (ar_stream sample_caps ?S) c"
    using complete_run[of "(+)" 3 "ar_stream sample_caps ?S" "gr_mem ?S"] all[THEN conjunct2, THEN conjunct1] by blast
  have "cf_mem c 0 OUTPUT_MEM (64 + 130) = 3582"
    using all[THEN conjunct2, THEN conjunct2, rule_format, OF c _ _ ar3_part] ar3_sum by simp
  then show ?thesis using c all[THEN conjunct1, rule_format, of 1] by auto
qed

lemma AllReduceNHR_reduces_writing_witness:
  "fst (ar_run sample_caps (ar3 True) 1) = HCCL_SUCCESS \<and>
   (\<exists>c. (stream_step (+) 3 (ar_stream sample_caps (ar3 True)))\<^sup>*\<^sup>* (start (gr_mem (ar3 True))) c \<and>
     finished 3 (ar_stream sample_caps (ar3 True)) c \<and> cf_mem c 0 OUTPUT_MEM 194 = 3582)"
proof -
  let ?S = "ar3 True"
  have kind: "gr_rdma ?S" by (simp add: ar3_def)
  note all = AllReduceNHR_reduces_writing[OF ar3_ok[of True] kind associative_plus, unfolded ar3_fields]
  obtain c where c: "(stream_step (+) 3 (ar_stream sample_caps ?S))\<^sup>*\<^sup>* (start (gr_mem ?S)) c" "finished 3 (ar_stream sample_caps ?S) c"
    using complete_run[of "(+)" 3 "ar_stream sample_caps ?S" "gr_mem ?S"] all[THEN conjunct2, THEN conjunct1] by blast
  have "cf_mem c 0 OUTPUT_MEM (64 + 130) = 3582"
    using all[THEN conjunct2, THEN conjunct2, rule_format, OF c _ _ ar3_part] ar3_sum by simp
  then show ?thesis using c all[THEN conjunct1, rule_format, of 1] by auto
qed

end
