(* ===== verification/ScatterBroadcast.thy ===== *)
theory ScatterBroadcast
  imports ReduceScatter
begin

unbundle bit_operations_syntax

text \<open>
  Scatter over the nonuniform hierarchical ring (scatter_nhr.cc), in which the root's data
  spreads along a binomial tree, and Broadcast as Scatter followed by AllGather on the slices of
  one buffer (broadcast_nhr.cc). Both templates keep the root's rank besides the ring's state.
\<close>

record RootedNHR = NHRBase +
  nr_root :: nat

section \<open>Scatter\<close>

definition ScatterNHR_Prepare :: "bool \<Rightarrow> RootedNHR \<Rightarrow> HcclResult \<times> RootedNHR" where
  "ScatterNHR_Prepare needMerge t = (HCCL_SUCCESS, t\<lparr>nb_isNeedMerge := needMerge\<rparr>)"

text \<open>How many ranks send in a round: all that hold data, unless the last round runs short of receivers.\<close>

definition scatter_senders :: "nat \<Rightarrow> nat \<Rightarrow> nat \<Rightarrow> nat" where
  "scatter_senders rankSize nSteps step =
     (let isPerfect = (rankSize AND sub32 rankSize 1) = 0 in
      if \<not> isPerfect \<and> step = nSteps - 1 then sub32 rankSize (2 ^ step) else 2 ^ step)"

definition ScatterNHR_GetStepInfo :: "RootedNHR \<Rightarrow> nat \<Rightarrow> nat \<Rightarrow> nat \<Rightarrow> nat \<Rightarrow> InterServerAlgoStep" where
  "ScatterNHR_GetStepInfo t step nSteps rank rankSize =
     (let deltaRoot = sub32 (w32 (nr_root t + rankSize)) rank mod rankSize;
          deltaRankPair = 2 ^ step;
          nSlices = w32 (sub32 rankSize 1 + 2 ^ step) div 2 ^ (step + 1);
          deltaSliceIndex = 2 ^ (step + 1);
          nRanks = scatter_senders rankSize nSteps step;
          idle = \<lparr>st_step = step, st_myRank = rank, st_nSlices = 0, st_toRank = rankSize, st_fromRank = rankSize,
            st_txSliceIdxs = [], st_rxSliceIdxs = []\<rparr> in
      if deltaRoot < nRanks then
        let sendTo = sub32 (w32 (rank + rankSize)) deltaRankPair mod rankSize in
        idle\<lparr>st_txSliceIdxs := map (\<lambda>i. nb_sliceMap t ! i) (step_ranks rankSize deltaSliceIndex nSlices sendTo),
          st_toRank := sendTo, st_nSlices := nSlices\<rparr>
      else if deltaRankPair \<le> deltaRoot \<and> deltaRoot < w32 (nRanks + deltaRankPair) then
        let recvFrom = w32 (rank + deltaRankPair) mod rankSize in
        idle\<lparr>st_rxSliceIdxs := map (\<lambda>i. nb_sliceMap t ! i) (step_ranks rankSize deltaSliceIndex nSlices rank),
          st_fromRank := recvFrom, st_nSlices := nSlices\<rparr>
      else idle)"

text \<open>A call on a link that may be null, in which case it is left out.\<close>

definition on_link :: "nat option \<Rightarrow> (nat \<Rightarrow> prog) \<Rightarrow> prog" where
  "on_link link p = (case link of None \<Rightarrow> done_ok | Some q \<Rightarrow> p q)"

definition step_slices :: "'a NHRBase_scheme \<Rightarrow> nat \<Rightarrow> nat list \<Rightarrow> Slice list" where
  "step_slices t nSlices idxs = MergeSlices (nb_isNeedMerge t) (map (\<lambda>i. at_slices t ! (idxs ! i)) [0..<nSlices])"

definition ScatterNHR_SdmaRx ::
  "coll_env \<Rightarrow> RootedNHR \<Rightarrow> nat option \<Rightarrow> nat option \<Rightarrow> InterServerAlgoStep \<Rightarrow> prog" where
  "ScatterNHR_SdmaRx env t linkLeft linkRight info =
     all_of [on_link linkRight (\<lambda>q. call env q TxAck),
       on_link linkLeft (\<lambda>q. all_of [call env q RxAck,
         each (\<lambda>s. HcclD2DMemcpyAsync_remote env (range_of (at_outputMem t) (sl_offset s) (sl_size s))
                 q OUTPUT_MEM (at_baseOffset t + sl_offset s) (sl_size s))
           (step_slices t (st_nSlices info) (st_rxSliceIdxs info)),
         call env q TxDataSignal]),
       on_link linkRight (\<lambda>q. call env q RxDataSignal)]"

definition ScatterNHR_RdmaTxRx ::
  "coll_env \<Rightarrow> RootedNHR \<Rightarrow> nat option \<Rightarrow> nat option \<Rightarrow> InterServerAlgoStep \<Rightarrow> prog" where
  "ScatterNHR_RdmaTxRx env t linkLeft linkRight info =
     all_of [on_link linkLeft (\<lambda>q. call env q TxAck),
       on_link linkRight (\<lambda>q. all_of [call env q RxAck,
         Tx env t q (step_slices t (st_nSlices info) (st_txSliceIdxs info)),
         call env q TxWaitDone, call env q WaitFinAck]),
       on_link linkLeft (\<lambda>q. all_of [Rx env t q (step_slices t (st_nSlices info) (st_rxSliceIdxs info)),
         call env q RxWaitDone, call env q PostFinAck])]"

definition scatter_round :: "coll_env \<Rightarrow> RootedNHR \<Rightarrow> nat \<Rightarrow> nat \<Rightarrow> links \<Rightarrow> nat \<Rightarrow> nat \<Rightarrow> prog" where
  "scatter_round env t rank rankSize links nSteps step =
     (let info = ScatterNHR_GetStepInfo t step nSteps rank rankSize;
          right = (if st_txSliceIdxs info \<noteq> [] then Some (st_toRank info) else None);
          left = (if st_rxSliceIdxs info \<noteq> [] then Some (st_fromRank info) else None) in
      if \<not> pred_option (has_link links) right then fail HCCL_E_PTR
      else if \<not> pred_option (has_link links) left then fail HCCL_E_PTR
      else if (\<exists>q\<in>set_option right. link_inline links q) \<or> (\<exists>q\<in>set_option left. link_inline links q)
        then ScatterNHR_SdmaRx env t left right info
      else ScatterNHR_RdmaTxRx env t left right info)"

definition RunScatterNHR :: "coll_env \<Rightarrow> RootedNHR \<Rightarrow> nat \<Rightarrow> nat \<Rightarrow> links \<Rightarrow> prog" where
  "RunScatterNHR env t rank rankSize links =
     (let nSteps = GetStepNumInterServer rankSize in
      each (scatter_round env t rank rankSize links nSteps) [0..<nSteps])"

definition ScatterNHR_RunAsync ::
  "coll_env \<Rightarrow> nat \<Rightarrow> nat \<Rightarrow> links \<Rightarrow> RootedNHR \<Rightarrow> RootedNHR \<times> prog" where
  "ScatterNHR_RunAsync env rank rankSize links t0 =
     (let t = (if nb_isNeedMerge t0
               then t0\<lparr>nb_sliceMap := GetRankMapping rankSize False (nb_sliceMap t0)\<rparr> else t0) in
      if \<not> c_dispatcher env then (t, fail HCCL_E_PTR)
      else if \<not> c_stream env then (t, fail HCCL_E_PTR)
      else if dm_ptr (at_outputMem t) = None \<or> dm_ptr (at_inputMem t) = None then (t, fail HCCL_E_PTR)
      else if rankSize = 1 then
        (t, if at_inputMem t \<noteq> at_outputMem t
            then HcclD2DMemcpyAsync env (at_outputMem t) (at_inputMem t) else done_ok)
      else if c_unit env = 0 then (t, fail HCCL_E_INTERNAL)
      else
        let sliceSize = (at_count t div of_nat rankSize) * ucast (c_unit env);
            t1 = (if at_slices t = [] then t\<lparr>at_slices := even_slices rankSize sliceSize\<rparr> else t) in
        if length links < rankSize then (t1, fail HCCL_E_INTERNAL)
        else
          let t2 = (if length (nb_sliceMap t1) \<noteq> rankSize
                    then t1\<lparr>nb_sliceMap := GetRankMapping rankSize True (nb_sliceMap t1)\<rparr> else t1);
              own = at_slices t2 ! (nb_sliceMap t2 ! rank) in
          (t2, andthen
            (if at_inputMem t2 \<noteq> at_outputMem t2
             then HcclD2DMemcpyAsync env (at_outputMem t2) (range_of (at_inputMem t2) (sl_offset own) (sl_size own))
             else done_ok)
            (RunScatterNHR env t2 rank rankSize links)))"

section \<open>Broadcast\<close>

definition BroadcastNHR_PrepareSlice :: "coll_env \<Rightarrow> nat \<Rightarrow> 'a AlgTemplate_scheme \<Rightarrow> 'a AlgTemplate_scheme" where
  "BroadcastNHR_PrepareSlice env rankSize t =
     (let unitSize = ucast (c_unit env);
          sizeAvg = ((at_count t + of_nat rankSize - 1) div of_nat rankSize) * unitSize;
          sizePerSlice = RoundUpWithDivisor sizeAvg HCCL_MIN_SLICE_ALIGN;
          total = at_count t * unitSize in
      t\<lparr>at_slices := residue_slices rankSize total sizePerSlice total\<rparr>)"

definition new_ScatterNHR :: RootedNHR where
  "new_ScatterNHR = \<lparr>at_inputMem = null_mem, at_outputMem = null_mem, at_scratchMem = null_mem, at_count = 0,
     at_slices = [], at_baseOffset = 0, nb_isNeedMerge = False, nb_sliceMap = [], nr_root = 0xFFFFFFFF\<rparr>"

text \<open>The templates of the two phases work on the range of the input buffer at the base offset.\<close>

definition BroadcastNHR_Scatter :: "RootedNHR \<Rightarrow> DeviceMem \<Rightarrow> RootedNHR" where
  "BroadcastNHR_Scatter t srcMem =
     (snd (Prepare srcMem srcMem srcMem (at_count t) (at_slices t) (at_baseOffset t)
       (snd (ScatterNHR_Prepare True new_ScatterNHR))))\<lparr>nr_root := nr_root t\<rparr>"

definition BroadcastNHR_AllGather :: "RootedNHR \<Rightarrow> DeviceMem \<Rightarrow> NHRBase" where
  "BroadcastNHR_AllGather t srcMem =
     snd (Prepare srcMem srcMem srcMem (at_count t) (at_slices t) (at_baseOffset t)
       (snd (AllGatherNHR_Prepare True new_AllGatherNHR)))"

definition BroadcastNHR_RunAsync ::
  "coll_env \<Rightarrow> nat \<Rightarrow> nat \<Rightarrow> links \<Rightarrow> RootedNHR \<Rightarrow> RootedNHR \<times> prog" where
  "BroadcastNHR_RunAsync env rank rankSize links t =
     (if \<not> c_dispatcher env then (t, fail HCCL_E_PTR)
      else if \<not> c_stream env then (t, fail HCCL_E_PTR)
      else if rankSize = 1 then (t, done_ok)
      else if length links < rankSize then (t, fail HCCL_E_INTERNAL)
      else if c_unit env = 0 then (t, fail HCCL_E_INTERNAL)
      else
        let srcMem = range_of (at_inputMem t) (at_baseOffset t) (at_count t * ucast (c_unit env));
            dstMem = range_of (at_outputMem t) (at_baseOffset t) (at_count t * ucast (c_unit env));
            t1 = BroadcastNHR_PrepareSlice env rankSize t in
        (t1, all_of [if at_inputMem t \<noteq> at_outputMem t \<and> rank = nr_root t
                       then HcclD2DMemcpyAsync env dstMem srcMem else done_ok,
                     snd (ScatterNHR_RunAsync env rank rankSize links (BroadcastNHR_Scatter t1 srcMem)),
                     snd (AllGatherNHR_RunAsync env rank rankSize links (BroadcastNHR_AllGather t1 srcMem))]))"

section \<open>The switch port phases reported to the network scheduler\<close>

text \<open>The steps in which the rank sends; the root is taken to be rank 0.\<close>

definition scatter_phases :: "nat \<Rightarrow> nat \<Rightarrow> nat \<Rightarrow> nat list" where
  "scatter_phases rank rankSize nSteps =
     filter (\<lambda>step. sub32 rankSize rank mod rankSize < scatter_senders rankSize nSteps step) [0..<nSteps]"

definition ScatterNHR_GetNslbAdjInfo ::
  "nat \<Rightarrow> nat \<Rightarrow> links \<Rightarrow> HcclResult \<times> (nat \<times> nat) list \<times> nat option" where
  "ScatterNHR_GetNslbAdjInfo rank rankSize links =
     (if rankSize = 1 then (HCCL_SUCCESS, [], None)
      else if length links < rankSize then (HCCL_SUCCESS, [], None)
      else let nSteps = halvings (sub32 rankSize 1);
               (r, infos) = adj_steps links (\<lambda>step. sub32 (w32 (rank + rankSize)) (2 ^ step) mod rankSize) 0
                 (scatter_phases rank rankSize nSteps) (HCCL_SUCCESS, []) in
        if r \<noteq> HCCL_SUCCESS then (r, infos, None) else (HCCL_SUCCESS, infos, Some (length infos)))"

definition BroadcastNHR_GetNslbAdjInfo ::
  "nat \<Rightarrow> nat \<Rightarrow> links \<Rightarrow> HcclResult \<times> (nat \<times> nat) list \<times> nat option" where
  "BroadcastNHR_GetNslbAdjInfo rank rankSize links =
     (if rankSize = 1 then (HCCL_SUCCESS, [], None)
      else if length links < rankSize then (HCCL_SUCCESS, [], None)
      else let nSteps = halvings (sub32 rankSize 1);
               (r, infos) = adj_steps links (\<lambda>step. w32 (rank + 2 ^ (nSteps - 1 - step)) mod rankSize) nSteps [0..<nSteps]
                 (adj_steps links (\<lambda>step. sub32 (w32 (rank + rankSize)) (2 ^ step) mod rankSize) 0
                   (scatter_phases rank rankSize nSteps) (HCCL_SUCCESS, [])) in
        if r \<noteq> HCCL_SUCCESS then (r, infos, None) else (HCCL_SUCCESS, infos, Some (length infos)))"

end
