(* ===== verification/ScatterSchedule.thy ===== *)
theory ScatterSchedule
  imports ScatterBroadcast Schedules
begin

text \<open>
  The rounds of Scatter in closed form. A rank is described by its distance behind the root; in
  round \<open>s\<close> the ranks at a distance below \<open>2 ^ s\<close> hold data, and each sends to the rank \<open>2 ^ s\<close>
  further behind the parts at every second of its distances.
\<close>

section \<open>Distances from the root\<close>

lemma bwd_plain:
  assumes "r < N" "x < N"
  shows "bwd N r x = (if x \<le> r then r - x else r + N - x)"
proof (cases "x \<le> r")
  case True
  then have "r + (N - x) = (r - x) + N" using assms by linarith
  then show ?thesis using True assms unfolding bwd_def by (metis less_imp_diff_less mod_add_self2 mod_less)
qed (use assms in \<open>simp add: bwd_def\<close>)

lemma bwd_involution:
  assumes "r < N" "x < N"
  shows "bwd N r (bwd N r x) = x"
proof -
  have "bwd N r x < N" using assms by simp
  then show ?thesis using assms by (simp add: bwd_plain[OF assms(1)] split: if_splits)
qed

lemma bwd_shift: "r < N \<Longrightarrow> root < N \<Longrightarrow> bwd N root r + D \<le> N \<Longrightarrow> bwd N r D = bwd N root (bwd N root r + D)"
  using bwd_bwd[of "bwd N root r" D N root] bwd_involution[of root N r] by simp

lemma distance_bwd: "r < N \<Longrightarrow> root < N \<Longrightarrow> bwd N root r + D < N \<Longrightarrow> bwd N root (bwd N r D) = bwd N root r + D"
  using bwd_shift[of r N root D] bwd_involution[of root N "bwd N root r + D"] by simp

lemma distance_fwd:
  assumes "r < N" "root < N" "D \<le> bwd N root r"
  shows "bwd N root (fwd N r D) = bwd N root r - D"
proof -
  let ?d = "bwd N root r" and ?p = "bwd N root (bwd N root r - D)"
  have N: "0 < N" "?d < N" "?p < N" using assms(1) by simp_all
  have "bwd N ?p D = bwd N root ?d" using bwd_bwd[of "?d - D" D N root] assms(3) N(2) by simp
  then have "bwd N ?p D = r" using bwd_involution[OF assms(2,1)] by simp
  then have "fwd N r D = ?p" using fwd_bwd[OF N(3), of D] assms(3) N(2) by simp
  then show ?thesis using bwd_involution[OF assms(2), of "?d - D"] N(2) by simp
qed

section \<open>Who sends to whom\<close>

definition sc_sends :: "nat \<Rightarrow> nat \<Rightarrow> nat \<Rightarrow> nat \<Rightarrow> bool" where
  "sc_sends N root s r \<longleftrightarrow> bwd N root r < nb_count N s"

definition sc_receives :: "nat \<Rightarrow> nat \<Rightarrow> nat \<Rightarrow> nat \<Rightarrow> bool" where
  "sc_receives N root s r \<longleftrightarrow> 2 ^ s \<le> bwd N root r \<and> bwd N root r < nb_count N s + 2 ^ s"

definition sc_count :: "nat \<Rightarrow> nat \<Rightarrow> nat" where
  "sc_count N s = (N - 1 + 2 ^ s) div 2 ^ Suc s"

text \<open>The parts rank \<open>r\<close> receives in round \<open>s\<close>, if it receives.\<close>

definition sc_rx :: "nat \<Rightarrow> nat \<Rightarrow> nat \<Rightarrow> nat list" where
  "sc_rx N s r = map (\<lambda>i. bwd N r (i * 2 ^ Suc s)) [0..<sc_count N s]"

lemma round_small:
  assumes "2 \<le> N" "N \<le> 2 ^ 31" "s < GetStepNumInterServer N"
  shows "2 ^ s < N"
proof -
  have "(2::nat) ^ s \<le> 2 ^ (GetStepNumInterServer N - 1)" by (rule power_increasing) (use assms(3) in simp_all)
  also have "\<dots> < N" by (rule rounds_bounds(2)) (use assms in simp_all)
  finally show ?thesis .
qed

lemma power_of_two_test:
  assumes "0 < n" "N \<le> 2 ^ n" "2 ^ (n - 1) < N" "(N AND (N - 1)) = 0"
  shows "N = (2::nat) ^ n"
proof (rule ccontr)
  assume "N \<noteq> 2 ^ n"
  have n: "2 ^ n = 2 * (2::nat) ^ (n - 1)" using assms(1) by (cases n) simp_all
  have "N div 2 ^ (n - 1) = 1" by (rule div_nat_eqI) (use assms \<open>N \<noteq> 2 ^ n\<close> n in simp_all)
  moreover have "(N - 1) div 2 ^ (n - 1) = 1" by (rule div_nat_eqI) (use assms n in simp_all)
  ultimately have "bit N (n - 1) \<and> bit (N - 1) (n - 1)" by (simp only: bit_iff_odd) simp
  then have "bit (N AND (N - 1)) (n - 1)" by (simp only: bit_and_iff)
  then show False using assms(4) by simp
qed

lemma scatter_senders_count:
  assumes N: "2 \<le> N" "N < 2 ^ 31" and s: "s < GetStepNumInterServer N"
  shows "scatter_senders N (GetStepNumInterServer N) s = nb_count N s"
proof -
  let ?n = "GetStepNumInterServer N"
  have D: "2 ^ s < N" by (rule round_small) (use N s in simp_all)
  have b: "N \<le> 2 ^ ?n" "2 ^ (?n - 1) < N" using rounds_bounds[of N] N by simp_all
  have sub: "sub32 N (Suc 0) = N - 1" "sub32 N (2 ^ s) = N - 2 ^ s" using N D by simp_all
  have half: "2 ^ ?n = 2 * (2::nat) ^ (?n - 1)" using s by (cases ?n) simp_all
  show ?thesis
  proof (cases "s = ?n - 1")
    case True
    then have "N = 2 ^ ?n \<or> (N AND (N - 1)) \<noteq> 0" using power_of_two_test[OF _ b] s by auto
    moreover have "min (2 ^ s) (N - 2 ^ s) = N - 2 ^ s" using b half True by simp
    moreover have "N = 2 ^ ?n \<Longrightarrow> N - 2 ^ s = 2 ^ s" using half True by simp
    ultimately show ?thesis using True unfolding scatter_senders_def Let_def nb_count_def One_nat_def sub by auto
  next
    case False
    then have "2 * (2::nat) ^ s \<le> 2 ^ (?n - 1)" using s power_increasing[of "Suc s" "?n - 1" "2::nat"] by simp
    then show ?thesis using False b by (auto simp: scatter_senders_def Let_def nb_count_def)
  qed
qed

lemma sc_count_less:
  assumes N: "2 \<le> N"
  shows "i < sc_count N s \<longleftrightarrow> 2 ^ s + i * 2 ^ Suc s < N"
proof -
  have "i < sc_count N s \<longleftrightarrow> Suc i * 2 ^ Suc s \<le> N - 1 + 2 ^ s"
    unfolding sc_count_def Suc_le_eq[symmetric] by (subst less_eq_div_iff_mult_less_eq) simp_all
  then show ?thesis using N by (simp add: algebra_simps) linarith
qed

lemma sc_rx_ranks: "0 < N \<Longrightarrow> set (sc_rx N s r) \<subseteq> {..<N}"
  by (auto simp: sc_rx_def)

lemma sc_partners:
  assumes N: "2 \<le> N" and D: "2 ^ s < N" and r: "r < N" "root < N"
  shows "sc_receives N root s r \<Longrightarrow> sc_sends N root s (fwd N r (2 ^ s)) \<and> bwd N (fwd N r (2 ^ s)) (2 ^ s) = r"
    "sc_sends N root s r \<Longrightarrow> sc_receives N root s (bwd N r (2 ^ s)) \<and> fwd N (bwd N r (2 ^ s)) (2 ^ s) = r"
    "sc_sends N root s r \<Longrightarrow> \<not> sc_receives N root s r"
proof -
  show "sc_receives N root s r \<Longrightarrow> sc_sends N root s (fwd N r (2 ^ s)) \<and> bwd N (fwd N r (2 ^ s)) (2 ^ s) = r"
    using distance_fwd[OF r, of "2 ^ s"] bwd_fwd[OF r(1), of "2 ^ s"] D by (simp add: sc_sends_def sc_receives_def) linarith
  have "bwd N root r < nb_count N s \<Longrightarrow> bwd N root r + 2 ^ s < N" unfolding nb_count_def by linarith
  then show "sc_sends N root s r \<Longrightarrow> sc_receives N root s (bwd N r (2 ^ s)) \<and> fwd N (bwd N r (2 ^ s)) (2 ^ s) = r"
    using distance_bwd[OF r, of "2 ^ s"] fwd_bwd[OF r(1), of "2 ^ s"] D by (simp add: sc_sends_def sc_receives_def)
  show "sc_sends N root s r \<Longrightarrow> \<not> sc_receives N root s r" by (simp add: sc_sends_def sc_receives_def nb_count_def)
qed

section \<open>What the code computes\<close>

lemma scatter_info:
  assumes N: "2 \<le> N" "N < 2 ^ 31" and r: "r < N" "nr_root t < N" and s: "s < GetStepNumInterServer N"
  shows "ScatterNHR_GetStepInfo t s (GetStepNumInterServer N) r N =
     (if sc_sends N (nr_root t) s r then \<lparr>st_step = s, st_myRank = r, st_nSlices = sc_count N s,
        st_toRank = bwd N r (2 ^ s), st_fromRank = N,
        st_txSliceIdxs = map ((!) (nb_sliceMap t)) (sc_rx N s (bwd N r (2 ^ s))), st_rxSliceIdxs = []\<rparr>
      else if sc_receives N (nr_root t) s r then \<lparr>st_step = s, st_myRank = r, st_nSlices = sc_count N s,
        st_toRank = N, st_fromRank = fwd N r (2 ^ s),
        st_txSliceIdxs = [], st_rxSliceIdxs = map ((!) (nb_sliceMap t)) (sc_rx N s r)\<rparr>
      else \<lparr>st_step = s, st_myRank = r, st_nSlices = 0, st_toRank = N, st_fromRank = N,
        st_txSliceIdxs = [], st_rxSliceIdxs = []\<rparr>)"
proof -
  have D: "2 ^ s < N" by (rule round_small) (use N s in simp_all)
  have N31: "N \<le> 2 ^ 31" using N by simp
  have delta: "sub32 (w32 (nr_root t + N)) r mod N = bwd N (nr_root t) r"
    by (rule from_code) (use N r in simp_all)
  have one: "sub32 N 1 = N - 1" by (rule sub32_id) (use N in simp_all)
  have "w32 (N - 1 + 2 ^ s) = N - 1 + 2 ^ s" by (rule w32_id) (use N D in simp)
  then have cnt: "w32 (sub32 N 1 + 2 ^ s) div 2 ^ (s + 1) = sc_count N s" by (simp only: one sc_count_def Suc_eq_plus1)
  have codes: "sub32 (w32 (r + N)) (2 ^ s) mod N = bwd N r (2 ^ s)" "w32 (r + 2 ^ s) mod N = fwd N r (2 ^ s)"
    using from_code[OF r(1) N31, of "2 ^ s"] to_code[OF r(1) N31, of "2 ^ s"] D by simp_all
  have "nb_count N s \<le> N" by (simp add: nb_count_def)
  then have w: "w32 (nb_count N s + 2 ^ s) = nb_count N s + 2 ^ s" by (intro w32_id) (use N D in simp)
  have steps: "sc_count N s \<le> 1 \<or> (sc_count N s - 1) * 2 ^ Suc s \<le> N"
  proof (cases "sc_count N s \<le> 1")
    case False
    then have "2 ^ s + (sc_count N s - 1) * 2 ^ Suc s < N" using sc_count_less[OF N(1), of "sc_count N s - 1" s] by simp
    then show ?thesis by linarith
  qed simp
  have ranks: "step_ranks N (2 ^ (s + 1)) (sc_count N s) q = sc_rx N s q" if "q < N" for q
    unfolding sc_rx_def using step_ranks_bwd[OF steps that N31] by simp
  have q: "bwd N r (2 ^ s) < N" using N by simp
  show ?thesis
    unfolding ScatterNHR_GetStepInfo_def Let_def delta cnt codes scatter_senders_count[OF N s] w
      ranks[OF r(1)] ranks[OF q]
    by (simp add: sc_sends_def sc_receives_def)
qed

section \<open>Who holds what\<close>

definition sc_held :: "nat \<Rightarrow> nat \<Rightarrow> nat \<Rightarrow> nat \<Rightarrow> nat set" where
  "sc_held N root s r = {bwd N root (bwd N root r + j * 2 ^ s) | j. bwd N root r < 2 ^ s \<and> bwd N root r + j * 2 ^ s < N}"

lemma sc_held_0: "r < N \<Longrightarrow> root < N \<Longrightarrow> l \<in> sc_held N root 0 r \<Longrightarrow> r = root"
  using bwd_involution[of root N r] by (auto simp: sc_held_def)

lemma sc_held_own:
  assumes "2 \<le> N" "N \<le> 2 ^ 31" "r < N" "root < N"
  shows "r \<in> sc_held N root (GetStepNumInterServer N) r"
proof -
  have "bwd N root r < N" using assms by simp
  also have "N \<le> 2 ^ GetStepNumInterServer N" by (rule rounds_bounds(1)) (use assms in simp_all)
  finally have "bwd N root r < 2 ^ GetStepNumInterServer N" .
  then show ?thesis unfolding sc_held_def
    by (intro CollectI exI[of _ 0]) (use bwd_involution[of root N r] assms in simp)
qed

lemma sc_held_Suc:
  assumes N: "2 \<le> N" and r: "r < N" "root < N" and l: "l \<in> sc_held N root (Suc s) r"
  shows "\<not> sc_receives N root s r \<and> l \<in> sc_held N root s r \<or>
    sc_receives N root s r \<and> l \<in> set (sc_rx N s r) \<and> l \<in> sc_held N root s (fwd N r (2 ^ s))"
proof -
  let ?d = "bwd N root r"
  obtain j where j: "l = bwd N root (?d + j * 2 ^ Suc s)" "?d < 2 ^ Suc s" "?d + j * 2 ^ Suc s < N"
    using l by (auto simp: sc_held_def)
  show ?thesis
  proof (cases "?d < 2 ^ s")
    case True
    have "l \<in> sc_held N root s r"
      unfolding sc_held_def by (intro CollectI exI[of _ "j * 2"]) (use j True in \<open>simp add: mult.assoc\<close>)
    then show ?thesis using True by (simp add: sc_receives_def)
  next
    case False
    have "?d - 2 ^ s < nb_count N s" unfolding nb_count_def using False j(2,3) unfolding power_Suc by linarith
    then have rx: "sc_receives N root s r" using False unfolding sc_receives_def by linarith
    have "j < sc_count N s" unfolding sc_count_less[OF N] using False j(3) by linarith
    moreover have "l = bwd N r (j * 2 ^ Suc s)" using bwd_shift[OF r, of "j * 2 ^ Suc s"] j by simp
    ultimately have "l \<in> set (sc_rx N s r)" by (auto simp: sc_rx_def)
    moreover have "l \<in> sc_held N root s (fwd N r (2 ^ s))"
    proof -
      have d: "bwd N root (fwd N r (2 ^ s)) = ?d - 2 ^ s" using distance_fwd[OF r] False by simp
      have "?d - 2 ^ s + (2 * j + 1) * 2 ^ s = ?d + j * 2 ^ Suc s" using False by simp
      then show ?thesis unfolding sc_held_def d
        by (intro CollectI exI[of _ "2 * j + 1"] conjI) (use j False in \<open>simp_all add: mult.assoc mult.left_commute\<close>)
    qed
    ultimately show ?thesis using rx by blast
  qed
qed

end
