(* ===== verification/ScatterProof.thy ===== *)
theory ScatterProof
  imports ScatterSchedule GatherRounds
begin

text \<open>
  Scatter over the hierarchical ring is correct on both kinds of links: no interleaving of the
  streams blocks, and at the end every rank holds its own part of the root's data. A rank may
  also receive parts its partner does not hold; they are never passed on as if they were valid.
\<close>

section \<open>Set-up\<close>

definition scatter_slices :: "'a AlgTemplate_scheme \<Rightarrow> nat \<Rightarrow> u32 \<Rightarrow> Slice list" where
  "scatter_slices t N u =
     (if at_slices t = [] then even_slices N ((at_count t div of_nat N) * ucast u) else at_slices t)"

definition sc_map :: "(RootedNHR, 'v) gather_run \<Rightarrow> nat list" where
  "sc_map S = GetRankMapping (gr_ranks S) (\<not> nb_isNeedMerge (gr_tpl S 0)) []"

text \<open>In place, one slice per rank, links of one kind, one root.\<close>

definition sc_ok :: "nat \<Rightarrow> (RootedNHR, 'v) gather_run \<Rightarrow> bool" where
  "sc_ok root S \<longleftrightarrow> 2 \<le> gr_ranks S \<and> gr_ranks S < 2 ^ 31 \<and> root < gr_ranks S \<and>
     length (gr_slices S) = gr_ranks S \<and> (\<forall>s\<in>set (gr_slices S). slice_in (unat (gr_size S)) s) \<and>
     (\<forall>r<gr_ranks S. let t = gr_tpl S r in
        env_ready (gr_env S r) (gr_unit S) \<and> links_ready (gr_ranks S) (gr_rdma S) (gr_pull S) (gr_links S r) \<and>
        at_inputMem t = at_outputMem t \<and> buffers_ready t (gr_base S) (gr_size S) \<and>
        scatter_slices t (gr_ranks S) (gr_unit S) = gr_slices S \<and> nb_sliceMap t = [] \<and>
        nb_isNeedMerge t = nb_isNeedMerge (gr_tpl S 0) \<and> nr_root t = root)"

definition sc_run :: "(RootedNHR, 'v) gather_run \<Rightarrow> nat \<Rightarrow> HcclResult \<times> task list" where
  "sc_run S r = snd (ScatterNHR_RunAsync (gr_env S r) r (gr_ranks S) (gr_links S r) (gr_tpl S r)) []"

definition sc_stream :: "(RootedNHR, 'v) gather_run \<Rightarrow> nat \<Rightarrow> action list" where
  "sc_stream S r = stream_of (gr_link S r) (gr_unit S) r (snd (sc_run S r))"

definition sc_rounds :: "('t, 'v) gather_run \<Rightarrow> nat" where
  "sc_rounds S = GetStepNumInterServer (gr_ranks S)"

lemma sc_okD:
  assumes "sc_ok root S"
  shows "2 \<le> gr_ranks S" "gr_ranks S < 2 ^ 31" "root < gr_ranks S" "gr_ranks S \<le> 2 ^ 31" "length (gr_slices S) = gr_ranks S"
    "\<forall>s\<in>set (gr_slices S). slice_in (unat (gr_size S)) s" "unat (gr_size S) < 2 ^ 64" "0 < gr_ranks S" "gr_slices S \<noteq> []"
    "perm_of (gr_ranks S) (sc_map S)" "s < sc_rounds S \<Longrightarrow> 2 ^ s < gr_ranks S"
proof -
  show N: "2 \<le> gr_ranks S" "gr_ranks S < 2 ^ 31" "root < gr_ranks S" "gr_ranks S \<le> 2 ^ 31" "length (gr_slices S) = gr_ranks S"
    "\<forall>s\<in>set (gr_slices S). slice_in (unat (gr_size S)) s" "0 < gr_ranks S"
    using assms by (simp_all add: sc_ok_def)
  then show "gr_slices S \<noteq> []" by auto
  show "unat (gr_size S) < 2 ^ 64" using unsigned_less[of "gr_size S", where ?'a = nat] by simp
  show "perm_of (gr_ranks S) (sc_map S)" unfolding sc_map_def by (rule GetRankMapping_perm_of[OF N(2)])
  show "s < sc_rounds S \<Longrightarrow> 2 ^ s < gr_ranks S" unfolding sc_rounds_def by (rule round_small[OF N(1,4)])
qed

lemma sc_ok_rank:
  assumes "sc_ok root S" "r < gr_ranks S"
  shows "env_ready (gr_env S r) (gr_unit S)" "links_ready (gr_ranks S) (gr_rdma S) (gr_pull S) (gr_links S r)"
    "at_inputMem (gr_tpl S r) = at_outputMem (gr_tpl S r)" "buffers_ready (gr_tpl S r) (gr_base S) (gr_size S)"
    "scatter_slices (gr_tpl S r) (gr_ranks S) (gr_unit S) = gr_slices S" "nb_sliceMap (gr_tpl S r) = []"
    "nb_isNeedMerge (gr_tpl S r) = nb_isNeedMerge (gr_tpl S 0)" "nr_root (gr_tpl S r) = root"
  using assms unfolding sc_ok_def Let_def by blast+

section \<open>What a rank does\<close>

text \<open>The slices rank \<open>r\<close> receives in round \<open>s\<close>, and the copies that bring them there.\<close>

definition sc_slices :: "(RootedNHR, 'v) gather_run \<Rightarrow> nat \<Rightarrow> nat \<Rightarrow> Slice list" where
  "sc_slices S s r = MergeSlices (nb_isNeedMerge (gr_tpl S 0))
     (map ((!) (gr_slices S)) (map ((!) (sc_map S)) (sc_rx (gr_ranks S) s r)))"

abbreviation sc_from :: "(RootedNHR, 'v) gather_run \<Rightarrow> nat \<Rightarrow> nat \<Rightarrow> nat" where
  "sc_from S s r \<equiv> fwd (gr_ranks S) r (2 ^ s)"

abbreviation sc_to :: "(RootedNHR, 'v) gather_run \<Rightarrow> nat \<Rightarrow> nat \<Rightarrow> nat" where
  "sc_to S s r \<equiv> bwd (gr_ranks S) r (2 ^ s)"

definition sc_given :: "(RootedNHR, 'v) gather_run \<Rightarrow> nat \<Rightarrow> nat \<Rightarrow> action list" where
  "sc_given S s r = map (slice_move (gr_base S) (sc_to S s r) r)
     (filter (\<lambda>s. gr_rdma S \<or> 0 < sl_size s) (sc_slices S s (sc_to S s r)))"

definition sc_work :: "nat \<Rightarrow> (RootedNHR, 'v) gather_run \<Rightarrow> nat \<Rightarrow> nat \<Rightarrow> action list" where
  "sc_work root S s r = (if sc_receives (gr_ranks S) root s r then sc_given S s (sc_from S s r) else [])"

lemma sc_part: "part (gr_slices S) (sc_map S) 1 l = slice_bytes (gr_slices S ! (sc_map S ! l))"
  by (rule part_one)

lemma sc_slices_spec:
  assumes ok: "sc_ok root S"
  shows "cover (sc_slices S s r) = (\<Union>l\<in>set (sc_rx (gr_ranks S) s r). slice_bytes (gr_slices S ! (sc_map S ! l)))"
    "\<forall>s'\<in>set (sc_slices S s r). slice_in (unat (gr_size S)) s'"
proof -
  note N = sc_okD[OF ok]
  let ?ss = "map ((!) (gr_slices S)) (map ((!) (sc_map S)) (sc_rx (gr_ranks S) s r))"
  have "set ?ss \<subseteq> set (gr_slices S)"
    using sc_rx_ranks[OF N(8), of s r] perm_of_nth[OF N(10)] N(5) by (auto intro!: nth_mem)
  then have "\<forall>s'\<in>set ?ss. slice_in (unat (gr_size S)) s'" using N(6) by blast
  note ms = MergeSlices_spec[OF this N(7), of "nb_isNeedMerge (gr_tpl S 0)"]
  show "\<forall>s'\<in>set (sc_slices S s r). slice_in (unat (gr_size S)) s'" using ms(2) unfolding sc_slices_def .
  show "cover (sc_slices S s r) = (\<Union>l\<in>set (sc_rx (gr_ranks S) s r). slice_bytes (gr_slices S ! (sc_map S ! l)))"
    using ms(1) unfolding sc_slices_def by (simp add: cover_def)
qed

lemma runs_on_link:
  "runs (on_link None p) []" "runs (p q) ts \<Longrightarrow> runs (on_link (Some q) p) ts"
  by (simp_all add: on_link_def runs_done)

lemma cover_without_empty: "cover (filter (\<lambda>s. b \<or> 0 < sl_size s) ss) = cover ss"
proof (induction ss)
  case (Cons s ss)
  have "\<not> 0 < sl_size s \<Longrightarrow> slice_bytes s = {}" using word_gt_0[of "sl_size s"] by (simp add: slice_bytes_def bytes_def)
  then show ?case using Cons by auto
qed simp

lemma sc_rx_nonempty: "2 \<le> N \<Longrightarrow> 2 ^ s < N \<Longrightarrow> sc_rx N s r \<noteq> []"
  using sc_count_less[of N 0 s] by (auto simp: sc_rx_def)

lemma sc_rx_length: "length (sc_rx N s r) = sc_count N s"
  by (simp add: sc_rx_def)

lemma sc_step_slices:
  assumes "at_slices t = gr_slices S" "nb_isNeedMerge t = nb_isNeedMerge (gr_tpl S 0)"
  shows "step_slices t (sc_count (gr_ranks S) s) (map ((!) (sc_map S)) (sc_rx (gr_ranks S) s q)) = sc_slices S s q"
proof -
  have "map (\<lambda>i. gr_slices S ! (map ((!) (sc_map S)) (sc_rx (gr_ranks S) s q) ! i)) [0..<sc_count (gr_ranks S) s] =
      map ((!) (gr_slices S)) (map ((!) (sc_map S)) (sc_rx (gr_ranks S) s q))"
    using map_over_indices[of "(!) (gr_slices S)" "map ((!) (sc_map S)) (sc_rx (gr_ranks S) s q)"] sc_rx_length
    by (metis length_map)
  then show ?thesis by (simp only: step_slices_def sc_slices_def assms)
qed

lemma sc_received:
  assumes ok: "sc_ok root S" and r: "r < gr_ranks S" and s: "s < sc_rounds S" and rx: "sc_receives (gr_ranks S) root s r"
  shows "sc_work root S s r = map (slice_move (gr_base S) r (sc_from S s r)) (filter (\<lambda>s. gr_rdma S \<or> 0 < sl_size s) (sc_slices S s r))"
proof -
  note N = sc_okD[OF ok]
  have "sc_to S s (sc_from S s r) = r" using sc_partners(1)[OF N(1) N(11)[OF s] r N(3) rx] by simp
  then show ?thesis using rx by (simp add: sc_work_def sc_given_def)
qed

abbreviation sc_tx :: "nat \<Rightarrow> (RootedNHR, 'v) gather_run \<Rightarrow> nat \<Rightarrow> nat \<Rightarrow> bool" where
  "sc_tx root S \<equiv> sc_sends (gr_ranks S) root"

abbreviation sc_rxs :: "nat \<Rightarrow> (RootedNHR, 'v) gather_run \<Rightarrow> nat \<Rightarrow> nat \<Rightarrow> bool" where
  "sc_rxs root S \<equiv> sc_receives (gr_ranks S) root"

definition sc_actions :: "nat \<Rightarrow> (RootedNHR, 'v) gather_run \<Rightarrow> nat \<Rightarrow> nat \<Rightarrow> action list" where
  "sc_actions root S s r = concat (if gr_rdma S
     then exchange_phases (sc_tx root S s r) (sc_rxs root S s r) True False False (sc_to S s r) (sc_from S s r) (sc_given S s r) []
     else part_phases (sc_tx root S s r) (sc_rxs root S s r) (sc_to S s r) (sc_from S s r) (sc_work root S s r))"

lemma sc_round_stream:
  assumes ok: "sc_ok root S" and r: "r < gr_ranks S" and s: "s < sc_rounds S"
    and t: "at_slices t = gr_slices S" "nb_sliceMap t = sc_map S" "nb_isNeedMerge t = nb_isNeedMerge (gr_tpl S 0)"
      "buffers_ready t (gr_base S) (gr_size S)" "nr_root t = root"
  shows "\<exists>ts. runs (scatter_round (gr_env S r) t r (gr_ranks S) (gr_links S r) (sc_rounds S) s) ts \<and>
    stream_of (gr_link S r) (gr_unit S) r ts = sc_actions root S s r"
proof -
  note N = sc_okD[OF ok] and rank = sc_ok_rank[OF ok r]
  have succ: "all_succeed (gr_env S r)" using rank(1) by (simp add: env_ready_def)
  have root: "nr_root t < gr_ranks S" using t(5) N(3) by simp
  note info = scatter_info[OF N(1,2) r root s[unfolded sc_rounds_def], folded sc_rounds_def, unfolded t(2,5)]
  have partners: "sc_from S s r < gr_ranks S" "sc_to S s r < gr_ranks S" using N(8) by simp_all
  note links = link_class[OF rank(2) partners(1)] link_class[OF rank(2) partners(2)]
  have D: "2 ^ s < gr_ranks S" by (rule N(11)[OF s])
  note ne = sc_rx_nonempty[OF N(1) D] and slices = sc_step_slices[OF t(1,3)] and within = sc_slices_spec(2)[OF ok]
  consider (tx) "sc_tx root S s r" "\<not> sc_rxs root S s r" | (rx) "\<not> sc_tx root S s r" "sc_rxs root S s r"
    | (idle) "\<not> sc_tx root S s r" "\<not> sc_rxs root S s r"
    using sc_partners(3)[OF N(1) D r N(3)] by blast
  then show ?thesis
  proof cases
    case tx
    show ?thesis
    proof (cases "gr_rdma S")
      case True
      let ?c = "TxAsync (map (tx_info t) (sc_slices S s (sc_to S s r)))" and ?q = "sc_to S s r"
      let ?ts = "[] @ ([LinkCall ?q RxAck] @ [LinkCall ?q ?c] @ [LinkCall ?q TxWaitDone] @ [LinkCall ?q WaitFinAck] @ []) @ [] @ []"
      have e: "scatter_round (gr_env S r) t r (gr_ranks S) (gr_links S r) (sc_rounds S) s =
          ScatterNHR_RdmaTxRx (gr_env S r) t None (Some ?q) (ScatterNHR_GetStepInfo t s (sc_rounds S) r (gr_ranks S))"
        unfolding scatter_round_def Let_def info using tx links True ne by simp
      have "runs (scatter_round (gr_env S r) t r (gr_ranks S) (gr_links S r) (sc_rounds S) s) ?ts"
        unfolding e ScatterNHR_RdmaTxRx_def info Tx_def using tx
        by (intro runs_all_of runs_on_link runs_call succ) (simp add: slices runs_all_of runs_call succ)
      moreover have "stream_of (gr_link S r) (gr_unit S) r ?ts = sc_actions root S s r"
        using True tx links tx_moves[OF t(4) within]
        by (simp add: sc_actions_def exchange_phases_def sc_given_def gr_link_def)
      ultimately show ?thesis by blast
    next
      case False
      let ?q = "sc_to S s r"
      let ?ts = "[LinkCall ?q TxAck] @ [] @ [LinkCall ?q RxDataSignal] @ []"
      have e: "scatter_round (gr_env S r) t r (gr_ranks S) (gr_links S r) (sc_rounds S) s =
          ScatterNHR_SdmaRx (gr_env S r) t None (Some ?q) (ScatterNHR_GetStepInfo t s (sc_rounds S) r (gr_ranks S))"
        unfolding scatter_round_def Let_def info using tx links False ne by simp
      have "runs (scatter_round (gr_env S r) t r (gr_ranks S) (gr_links S r) (sc_rounds S) s) ?ts"
        unfolding e ScatterNHR_SdmaRx_def by (intro runs_all_of runs_on_link runs_call succ)
      moreover have "stream_of (gr_link S r) (gr_unit S) r ?ts = sc_actions root S s r"
        using False tx links by (simp add: sc_actions_def part_phases_def sc_work_def gr_link_def)
      ultimately show ?thesis by blast
    qed
  next
    case rx
    let ?p = "sc_from S s r"
    show ?thesis
    proof (cases "gr_rdma S")
      case True
      let ?c = "RxAsync (map (rx_info t) (sc_slices S s r))"
      let ?ts = "[LinkCall ?p TxAck] @ [] @ ([LinkCall ?p ?c] @ [LinkCall ?p RxWaitDone] @ [LinkCall ?p PostFinAck] @ []) @ []"
      have e: "scatter_round (gr_env S r) t r (gr_ranks S) (gr_links S r) (sc_rounds S) s =
          ScatterNHR_RdmaTxRx (gr_env S r) t (Some ?p) None (ScatterNHR_GetStepInfo t s (sc_rounds S) r (gr_ranks S))"
        unfolding scatter_round_def Let_def info using rx links True ne by simp
      have "runs (scatter_round (gr_env S r) t r (gr_ranks S) (gr_links S r) (sc_rounds S) s) ?ts"
        unfolding e ScatterNHR_RdmaTxRx_def info Rx_def using rx
        by (intro runs_all_of runs_on_link runs_call succ) (simp add: slices runs_all_of runs_call succ)
      moreover have "stream_of (gr_link S r) (gr_unit S) r ?ts = sc_actions root S s r"
        using True rx links by (simp add: sc_actions_def exchange_phases_def gr_link_def)
      ultimately show ?thesis by blast
    next
      case False
      obtain us where us: "runs (each (\<lambda>s'. HcclD2DMemcpyAsync_remote (gr_env S r) (range_of (at_outputMem t) (sl_offset s') (sl_size s'))
               ?p OUTPUT_MEM (at_baseOffset t + sl_offset s') (sl_size s')) (sc_slices S s r)) us"
          "stream_of (gr_link S r) (gr_unit S) r us = sc_work root S s r"
        using remote_copies_run[OF rank(1) t(4) within, of ?p s r "gr_link S r" "gr_unit S" r] False
        unfolding sc_received[OF ok r s rx(2)] by simp blast
      let ?ts = "[] @ ([LinkCall ?p RxAck] @ us @ [LinkCall ?p TxDataSignal] @ []) @ [] @ []"
      have e: "scatter_round (gr_env S r) t r (gr_ranks S) (gr_links S r) (sc_rounds S) s =
          ScatterNHR_SdmaRx (gr_env S r) t (Some ?p) None (ScatterNHR_GetStepInfo t s (sc_rounds S) r (gr_ranks S))"
        unfolding scatter_round_def Let_def info using rx links False ne by simp
      have "runs (scatter_round (gr_env S r) t r (gr_ranks S) (gr_links S r) (sc_rounds S) s) ?ts"
        unfolding e ScatterNHR_SdmaRx_def info using rx us(1)
        by (intro runs_all_of runs_on_link runs_call succ) (simp add: slices runs_all_of runs_call succ)
      moreover have "stream_of (gr_link S r) (gr_unit S) r ?ts = sc_actions root S s r"
        using False rx links us(2) by (simp add: sc_actions_def part_phases_def gr_link_def)
      ultimately show ?thesis by blast
    qed
  next
    case idle
    have e: "scatter_round (gr_env S r) t r (gr_ranks S) (gr_links S r) (sc_rounds S) s =
        ScatterNHR_RdmaTxRx (gr_env S r) t None None (ScatterNHR_GetStepInfo t s (sc_rounds S) r (gr_ranks S))"
      unfolding scatter_round_def Let_def info using idle by simp
    have "runs (scatter_round (gr_env S r) t r (gr_ranks S) (gr_links S r) (sc_rounds S) s) ([] @ [] @ [] @ [])"
      unfolding e ScatterNHR_RdmaTxRx_def by (intro runs_all_of runs_on_link)
    then show ?thesis
      using idle by (intro exI[of _ "[]"]) (simp add: sc_actions_def exchange_phases_def part_phases_def sc_work_def)
  qed
qed

definition sc_state :: "(RootedNHR, 'v) gather_run \<Rightarrow> nat \<Rightarrow> RootedNHR" where
  "sc_state S r = fst (ScatterNHR_RunAsync (gr_env S r) r (gr_ranks S) (gr_links S r) (gr_tpl S r))"

lemma sc_state_spec:
  assumes ok: "sc_ok root S" and r: "r < gr_ranks S"
  shows "ScatterNHR_RunAsync (gr_env S r) r (gr_ranks S) (gr_links S r) (gr_tpl S r) =
      (sc_state S r, andthen done_ok (RunScatterNHR (gr_env S r) (sc_state S r) r (gr_ranks S) (gr_links S r)))"
    and "at_slices (sc_state S r) = gr_slices S" "nb_sliceMap (sc_state S r) = sc_map S"
    "nb_isNeedMerge (sc_state S r) = nb_isNeedMerge (gr_tpl S 0)"
    "buffers_ready (sc_state S r) (gr_base S) (gr_size S)" "nr_root (sc_state S r) = root"
proof -
  note N = sc_okD[OF ok] and rank = sc_ok_rank[OF ok r]
  let ?t = "gr_tpl S r"
  let ?t2 = "?t\<lparr>nb_sliceMap := sc_map S, at_slices := gr_slices S\<rparr>"
  have env: "c_dispatcher (gr_env S r)" "c_stream (gr_env S r)" "c_unit (gr_env S r) = gr_unit S" "gr_unit S \<noteq> 0"
    using rank(1) by (simp_all add: env_ready_def)
  have mem: "at_outputMem ?t = \<lparr>dm_ptr = Some (OUTPUT_MEM, gr_base S), dm_size = gr_size S\<rparr>"
    "at_inputMem ?t = \<lparr>dm_ptr = Some (OUTPUT_MEM, gr_base S), dm_size = gr_size S\<rparr>"
    using rank(3,4) by (simp_all add: buffers_ready_def)
  have N1: "gr_ranks S \<noteq> 1" "gr_ranks S \<noteq> 0" "\<not> length (gr_links S r) < gr_ranks S"
    using N(1) rank(2) by (simp_all add: links_ready_def)
  have merge: "nb_isNeedMerge (gr_tpl S 0) = nb_isNeedMerge ?t" by (rule rank(7)[symmetric])
  have map: "sc_map S = GetRankMapping (gr_ranks S) (\<not> nb_isNeedMerge ?t) []" by (simp only: sc_map_def merge)
  have len: "length (GetRankMapping (gr_ranks S) (\<not> nb_isNeedMerge ?t) []) = gr_ranks S"
    using N(10) unfolding map by (simp add: perm_of_def)
  have swap: "(u :: RootedNHR)\<lparr>at_slices := x, nb_sliceMap := y\<rparr> = u\<lparr>nb_sliceMap := y, at_slices := x\<rparr>" for u x y
    by (cases u) simp
  have slices: "gr_slices S = (if at_slices ?t = [] then even_slices (gr_ranks S) ((at_count ?t div of_nat (gr_ranks S)) * ucast (gr_unit S))
      else at_slices ?t)"
    using rank(5) by (simp only: scatter_slices_def)
  have self: "(u :: RootedNHR)\<lparr>nb_sliceMap := y, at_slices := at_slices u\<rparr> = u\<lparr>nb_sliceMap := y\<rparr>" for u y
    by (cases u) simp
  have run: "ScatterNHR_RunAsync (gr_env S r) r (gr_ranks S) (gr_links S r) ?t =
      (?t2, andthen done_ok (RunScatterNHR (gr_env S r) ?t2 r (gr_ranks S) (gr_links S r)))"
  proof (cases "nb_isNeedMerge ?t")
    case True
    then have "length (GetRankMapping (gr_ranks S) False []) = gr_ranks S" using len by simp
    then show ?thesis using True env mem N1 rank(6) by (simp add: ScatterNHR_RunAsync_def Let_def map slices self)
  next
    case False
    then have "length (GetRankMapping (gr_ranks S) True []) = gr_ranks S" using len by simp
    then show ?thesis using False env mem N1 rank(6)
      by (simp add: ScatterNHR_RunAsync_def Let_def map slices swap self)
  qed
  then have st: "sc_state S r = ?t2" by (simp only: sc_state_def fst_conv)
  show "ScatterNHR_RunAsync (gr_env S r) r (gr_ranks S) (gr_links S r) ?t =
      (sc_state S r, andthen done_ok (RunScatterNHR (gr_env S r) (sc_state S r) r (gr_ranks S) (gr_links S r)))"
    unfolding st by (rule run)
  show "at_slices (sc_state S r) = gr_slices S" "nb_sliceMap (sc_state S r) = sc_map S" by (simp_all add: st)
  show "nb_isNeedMerge (sc_state S r) = nb_isNeedMerge (gr_tpl S 0)" using merge by (simp add: st)
  show "buffers_ready (sc_state S r) (gr_base S) (gr_size S)" "nr_root (sc_state S r) = root"
    using rank(4,8) mem by (simp_all add: st buffers_ready_def)
qed

lemma sc_program:
  assumes ok: "sc_ok root S" and r: "r < gr_ranks S"
  shows "runs (snd (ScatterNHR_RunAsync (gr_env S r) r (gr_ranks S) (gr_links S r) (gr_tpl S r))) (snd (sc_run S r))"
    "fst (sc_run S r) = HCCL_SUCCESS"
    "sc_stream S r = concat (map (\<lambda>s. sc_actions root S s r) [0..<sc_rounds S])"
proof -
  note st = sc_state_spec[OF ok r]
  have "\<forall>s\<in>{..<sc_rounds S}. \<exists>ts. runs (scatter_round (gr_env S r) (sc_state S r) r (gr_ranks S) (gr_links S r) (sc_rounds S) s) ts \<and>
      stream_of (gr_link S r) (gr_unit S) r ts = sc_actions root S s r"
    using sc_round_stream[OF ok r _ st(2-6)] by blast
  then obtain rs where rs: "\<forall>s\<in>{..<sc_rounds S}.
      runs (scatter_round (gr_env S r) (sc_state S r) r (gr_ranks S) (gr_links S r) (sc_rounds S) s) (rs s) \<and>
      stream_of (gr_link S r) (gr_unit S) r (rs s) = sc_actions root S s r"
    by (rule bchoice[THEN exE])
  then have "runs (RunScatterNHR (gr_env S r) (sc_state S r) r (gr_ranks S) (gr_links S r)) (concat (map rs [0..<sc_rounds S]))"
    unfolding RunScatterNHR_def Let_def sc_rounds_def[symmetric] by (intro runs_each) auto
  then have all: "runs (snd (ScatterNHR_RunAsync (gr_env S r) r (gr_ranks S) (gr_links S r) (gr_tpl S r)))
      ([] @ concat (map rs [0..<sc_rounds S]))"
    unfolding st(1) snd_conv by (intro runs_andthen runs_done)
  have run: "sc_run S r = (HCCL_SUCCESS, concat (map rs [0..<sc_rounds S]))"
    using runsD[OF all] by (simp add: sc_run_def)
  show "runs (snd (ScatterNHR_RunAsync (gr_env S r) r (gr_ranks S) (gr_links S r) (gr_tpl S r))) (snd (sc_run S r))"
    using all by (simp add: run)
  show "fst (sc_run S r) = HCCL_SUCCESS" by (simp add: run)
  show "sc_stream S r = concat (map (\<lambda>s. sc_actions root S s r) [0..<sc_rounds S])"
    using rs by (auto simp: sc_stream_def run stream_of_concat intro!: arg_cong[where f = concat])
qed

section \<open>The rounds\<close>

lemma sc_given_moves:
  "a \<in> set (sc_given S s r) \<Longrightarrow> local_action (sc_to S s r) a"
  "a \<in> set (sc_given S s r) \<Longrightarrow> (q, b, x) \<in> reads a \<Longrightarrow> q = r"
  by (auto simp: sc_given_def slice_move_copy local_action_def) (auto simp: slice_copy_def)

lemma sc_partner_facts:
  assumes ok: "sc_ok root S" and r: "r < gr_ranks S" and s: "s < sc_rounds S"
  shows "sc_rxs root S s r \<Longrightarrow> sc_from S s r < gr_ranks S \<and> sc_tx root S s (sc_from S s r) \<and> sc_to S s (sc_from S s r) = r"
    "sc_tx root S s r \<Longrightarrow> sc_to S s r < gr_ranks S \<and> sc_rxs root S s (sc_to S s r) \<and> sc_from S s (sc_to S s r) = r"
    "sc_tx root S s r \<Longrightarrow> \<not> sc_rxs root S s r"
  using sc_partners[OF sc_okD(1)[OF ok] sc_okD(11)[OF ok s] r sc_okD(3)[OF ok]] sc_okD(8)[OF ok] by simp_all

lemma sc_read_rounds:
  assumes ok: "sc_ok root S" and kind: "\<not> gr_rdma S"
  shows "read_rounds (gr_ranks S) (sc_rounds S) (sc_from S) (sc_to S) (sc_tx root S) (sc_rxs root S) (sc_work root S) (sc_stream S)"
proof
  note p = sc_partner_facts[OF ok]
  fix r s q a b x assume r: "r < gr_ranks S" and s: "s < sc_rounds S"
  show "sc_rxs root S s r \<Longrightarrow> sc_from S s r < gr_ranks S \<and> sc_tx root S s (sc_from S s r) \<and> sc_to S s (sc_from S s r) = r"
    "sc_tx root S s r \<Longrightarrow> sc_to S s r < gr_ranks S \<and> sc_rxs root S s (sc_to S s r) \<and> sc_from S s (sc_to S s r) = r"
    using p(1,2)[OF r s] by blast+
  assume a: "a \<in> set (sc_work root S s r)"
  then have rx: "sc_rxs root S s r" and g: "a \<in> set (sc_given S s (sc_from S s r))"
    by (auto simp: sc_work_def split: if_splits)
  show "local_action r a" using sc_given_moves(1)[OF g] p(1)[OF r s rx] by simp
  assume "(q, b, x) \<in> reads a"
  then have q: "q = sc_from S s r" by (rule sc_given_moves(2)[OF g])
  moreover have "sc_work root S s q = []" using p(1)[OF r s rx] p(3)[of q s] s q by (auto simp: sc_work_def)
  ultimately show "q = r \<or> sc_rxs root S s r \<and> q = sc_from S s r \<and> (\<forall>a'\<in>set (sc_work root S s q). (q, b, x) \<notin> writes a')"
    using rx by simp
next
  fix r assume "r < gr_ranks S"
  then show "sc_stream S r = concat (map (\<lambda>s. concat (part_phases (sc_tx root S s r) (sc_rxs root S s r)
      (sc_to S s r) (sc_from S s r) (sc_work root S s r))) [0..<sc_rounds S])"
    using sc_program(3)[OF ok] kind by (simp add: sc_actions_def)
qed

lemma sc_write_rounds:
  assumes ok: "sc_ok root S" and kind: "gr_rdma S"
  shows "write_rounds (gr_ranks S) (sc_rounds S) (sc_from S) (sc_to S) (sc_tx root S) (sc_rxs root S) True (\<lambda>s. False) (\<lambda>s. False)
    (sc_given S) (\<lambda>s r. []) (sc_stream S)"
proof
  note p = sc_partner_facts[OF ok]
  fix r s q a b x assume r: "r < gr_ranks S" and s: "s < sc_rounds S"
  show "sc_rxs root S s r \<Longrightarrow> sc_from S s r < gr_ranks S \<and> sc_tx root S s (sc_from S s r) \<and> sc_to S s (sc_from S s r) = r"
    "sc_tx root S s r \<Longrightarrow> sc_to S s r < gr_ranks S \<and> sc_rxs root S s (sc_to S s r) \<and> sc_from S s (sc_to S s r) = r"
    using p(1,2)[OF r s] by blast+
  show "sc_tx root S s r \<Longrightarrow> sc_to S s r \<noteq> r" using p(2,3)[OF r s] by metis
  show "a \<in> set (sc_given S s r) \<Longrightarrow> local_action (sc_to S s r) a" by (rule sc_given_moves(1))
  show "sc_tx root S s r \<Longrightarrow> a \<in> set (sc_given S s r) \<Longrightarrow> (q, b, x) \<in> reads a \<Longrightarrow>
      q = r \<and> (sc_rxs root S s r \<longrightarrow> (\<forall>a'\<in>set (sc_given S s (sc_from S s r)). (q, b, x) \<notin> writes a'))"
    using sc_given_moves(2) p(3)[OF r s] by blast
next
  fix r assume "r < gr_ranks S"
  then show "sc_stream S r = concat (map (\<lambda>s. concat (exchange_phases (sc_tx root S s r) (sc_rxs root S s r) True False False
      (sc_to S s r) (sc_from S s r) (sc_given S s r) [])) [0..<sc_rounds S])"
    using sc_program(3)[OF ok] kind by (simp add: sc_actions_def)
qed simp_all

text \<open>The number of ranks is taken as zero for an invalid set-up, where nothing is claimed.\<close>

definition sc_readers :: "nat \<Rightarrow> (RootedNHR, 'v) gather_run \<Rightarrow> nat" where
  "sc_readers root S = (if sc_ok root S \<and> \<not> gr_rdma S then gr_ranks S else 0)"

definition sc_writers :: "nat \<Rightarrow> (RootedNHR, 'v) gather_run \<Rightarrow> nat" where
  "sc_writers root S = (if sc_ok root S \<and> gr_rdma S then gr_ranks S else 0)"

interpretation sc_reading: read_rounds "sc_readers root S" "sc_rounds S" "sc_from S" "sc_to S" "sc_tx root S" "sc_rxs root S"
  "sc_work root S" "sc_stream S" for root S
  unfolding sc_readers_def by (rule read_rounds_or_none) (blast intro: sc_read_rounds)

interpretation sc_writing: write_rounds "sc_writers root S" "sc_rounds S" "sc_from S" "sc_to S" "sc_tx root S" "sc_rxs root S"
  True "\<lambda>s. False" "\<lambda>s. False" "sc_given S" "\<lambda>s r. []" "sc_stream S" for root S
  unfolding sc_writers_def by (rule write_rounds_or_none) (blast intro: sc_write_rounds)

lemma sc_round_work: "write_rounds.round_work (sc_from S) (sc_rxs root S) (sc_given S) (\<lambda>s r. []) = sc_work root S"
  by (simp add: sc_writing.round_work_def sc_work_def fun_eq_iff)

lemma sc_final_memory:
  assumes ok: "sc_ok root S" and "(stream_step f (gr_ranks S) (sc_stream S))\<^sup>*\<^sup>* (start m) c"
    "finished (gr_ranks S) (sc_stream S) c" "r < gr_ranks S"
  shows "cf_mem c r = round_mem f (sc_work root S) m (sc_rounds S) r"
proof (cases "gr_rdma S")
  case True
  then have "sc_writers root S = gr_ranks S" using ok by (simp add: sc_writers_def)
  then show ?thesis using sc_writing.final_memory[of f root S m c r, unfolded sc_round_work] assms(2-4) by simp
next
  case False
  then have "sc_readers root S = gr_ranks S" using ok by (simp add: sc_readers_def)
  then show ?thesis using sc_reading.final_memory[of f root S m c r] assms(2-4) by simp
qed

lemma sc_not_stuck:
  assumes ok: "sc_ok root S" and "(stream_step f (gr_ranks S) (sc_stream S))\<^sup>*\<^sup>* (start m) c"
    "\<not> finished (gr_ranks S) (sc_stream S) c"
  shows "\<exists>d. stream_step f (gr_ranks S) (sc_stream S) c d"
proof (cases "gr_rdma S")
  case True
  then have "sc_writers root S = gr_ranks S" using ok by (simp add: sc_writers_def)
  then show ?thesis using sc_writing.rr.no_deadlock[of f root S m c] assms(2,3) by simp
next
  case False
  then have "sc_readers root S = gr_ranks S" using ok by (simp add: sc_readers_def)
  then show ?thesis using sc_reading.rr.no_deadlock[of f root S m c] assms(2,3) by simp
qed

text \<open>What a rank holds before a round is the root's data.\<close>

lemma sc_held_data:
  assumes ok: "sc_ok root S"
  shows "s \<le> sc_rounds S \<Longrightarrow> r < gr_ranks S \<Longrightarrow> l \<in> sc_held (gr_ranks S) root s r \<Longrightarrow>
    x \<in> slice_bytes (gr_slices S ! (sc_map S ! l)) \<Longrightarrow>
    round_mem f (sc_work root S) m s r OUTPUT_MEM (unat (gr_base S) + x) = m root OUTPUT_MEM (unat (gr_base S) + x)"
proof (induction s arbitrary: r)
  case 0
  then show ?case using sc_held_0[of r "gr_ranks S" root l] sc_okD(3)[OF ok] by simp
next
  case (Suc s)
  note N = sc_okD[OF ok]
  let ?m = "round_mem f (sc_work root S) m s"
  have s: "s < sc_rounds S" "s \<le> sc_rounds S" using Suc.prems(1) by simp_all
  from sc_held_Suc[OF N(1) Suc.prems(2) N(3) Suc.prems(3)] show ?case
  proof
    assume "\<not> sc_rxs root S s r \<and> l \<in> sc_held (gr_ranks S) root s r"
    then show ?thesis using Suc.IH[OF s(2) Suc.prems(2) _ Suc.prems(4)] by (simp add: sc_work_def)
  next
    assume h: "sc_rxs root S s r \<and> l \<in> set (sc_rx (gr_ranks S) s r) \<and> l \<in> sc_held (gr_ranks S) root s (sc_from S s r)"
    let ?q = "sc_from S s r" and ?ss = "filter (\<lambda>s. gr_rdma S \<or> 0 < sl_size s) (sc_slices S s r)"
    have q: "?q < gr_ranks S" "sc_tx root S s ?q" using sc_partner_facts(1)[OF ok Suc.prems(2) s(1)] h by simp_all
    then have "?q \<noteq> r" using sc_partner_facts(3)[OF ok q(1) s(1)] h by metis
    then have other: "(?q, OUTPUT_MEM) \<noteq> (r, OUTPUT_MEM)" by simp
    have "x \<in> cover ?ss" unfolding cover_without_empty sc_slices_spec(1)[OF ok] using h Suc.prems(4) by blast
    then have "round_mem f (sc_work root S) m (Suc s) r OUTPUT_MEM (unat (gr_base S) + x) = ?m ?q OUTPUT_MEM (unat (gr_base S) + x)"
      unfolding round_mem.simps sc_received[OF ok Suc.prems(2) s(1) conjunct1[OF h]] slice_move_copy fold_slice_copy[OF other] by simp
    also have "\<dots> = m root OUTPUT_MEM (unat (gr_base S) + x)" by (rule Suc.IH[OF s(2) q(1) _ Suc.prems(4)]) (use h in simp)
    finally show ?thesis .
  qed
qed

lemma sc_scattered:
  assumes ok: "sc_ok root S" and r: "r < gr_ranks S" and x: "x \<in> slice_bytes (gr_slices S ! (sc_map S ! r))"
  shows "round_mem f (sc_work root S) m (sc_rounds S) r OUTPUT_MEM (unat (gr_base S) + x) = m root OUTPUT_MEM (unat (gr_base S) + x)"
  by (rule sc_held_data[OF ok _ r _ x])
    (use sc_held_own[OF sc_okD(1)[OF ok] sc_okD(4)[OF ok] r sc_okD(3)[OF ok]] in \<open>simp_all add: sc_rounds_def\<close>)

section \<open>Correctness of Scatter\<close>

text \<open>
  C31: Scatter over the hierarchical ring in one buffer, on reading and on writing links: for
  every number of ranks from 2 below \<open>2 ^ 31\<close>, every root and every division into one slice per
  rank, every rank's call succeeds, and for every interleaving of the ranks' streams a run that
  is not complete can go on, and a complete run leaves at every rank, on its own slice, the data
  the root had there.
\<close>

theorem ScatterNHR_scatters:
  assumes "sc_ok root S"
  shows "(\<forall>r<gr_ranks S. fst (sc_run S r) = HCCL_SUCCESS) \<and>
    (\<forall>m c. (stream_step f (gr_ranks S) (sc_stream S))\<^sup>*\<^sup>* (start m) c \<longrightarrow>
      finished (gr_ranks S) (sc_stream S) c \<or> (\<exists>d. stream_step f (gr_ranks S) (sc_stream S) c d)) \<and>
    (\<forall>m c r x. (stream_step f (gr_ranks S) (sc_stream S))\<^sup>*\<^sup>* (start m) c \<longrightarrow>
      finished (gr_ranks S) (sc_stream S) c \<longrightarrow> r < gr_ranks S \<longrightarrow>
      x \<in> slice_bytes (gr_slices S ! (GetRankMapping (gr_ranks S) (\<not> nb_isNeedMerge (gr_tpl S 0)) [] ! r)) \<longrightarrow>
      cf_mem c r OUTPUT_MEM (unat (gr_base S) + x) = m root OUTPUT_MEM (unat (gr_base S) + x))"
proof (intro conjI allI impI)
  show "fst (sc_run S r) = HCCL_SUCCESS" if "r < gr_ranks S" for r by (rule sc_program(2)[OF assms that])
  show "finished (gr_ranks S) (sc_stream S) c \<or> (\<exists>d. stream_step f (gr_ranks S) (sc_stream S) c d)"
    if "(stream_step f (gr_ranks S) (sc_stream S))\<^sup>*\<^sup>* (start m) c" for m c
    using sc_not_stuck[OF assms that] by blast
  fix m c r x
  assume run: "(stream_step f (gr_ranks S) (sc_stream S))\<^sup>*\<^sup>* (start m) c" "finished (gr_ranks S) (sc_stream S) c" "r < gr_ranks S"
    and x: "x \<in> slice_bytes (gr_slices S ! (GetRankMapping (gr_ranks S) (\<not> nb_isNeedMerge (gr_tpl S 0)) [] ! r))"
  show "cf_mem c r OUTPUT_MEM (unat (gr_base S) + x) = m root OUTPUT_MEM (unat (gr_base S) + x)"
    unfolding sc_final_memory[OF assms run] by (rule sc_scattered[OF assms run(3)]) (use x in \<open>simp add: sc_map_def\<close>)
qed

text \<open>Three ranks, the root being rank 1; the slices are computed from six elements of two bytes.\<close>

definition sample_sc :: RootedNHR where
  "sample_sc = \<lparr>at_inputMem = \<lparr>dm_ptr = Some (OUTPUT_MEM, 64), dm_size = 12\<rparr>,
     at_outputMem = \<lparr>dm_ptr = Some (OUTPUT_MEM, 64), dm_size = 12\<rparr>, at_scratchMem = null_mem, at_count = 6,
     at_slices = [], at_baseOffset = 64, nb_isNeedMerge = False, nb_sliceMap = [], nr_root = 1\<rparr>"

definition sc3 :: "bool \<Rightarrow> (RootedNHR, nat) gather_run" where
  "sc3 rdma = \<lparr>gr_ranks = 3, gr_env = \<lambda>r. sample_env, gr_links = \<lambda>r. replicate 3 (Some (sample_link rdma)),
     gr_tpl = \<lambda>r. sample_sc, gr_rdma = rdma, gr_pull = \<not> rdma, gr_unit = 2, gr_base = 64, gr_size = 12,
     gr_slices = [\<lparr>sl_offset = 0, sl_size = 4\<rparr>, \<lparr>sl_offset = 4, sl_size = 4\<rparr>, \<lparr>sl_offset = 8, sl_size = 4\<rparr>],
     gr_mem = \<lambda>r b a. 1000 * r + a, gr_out = \<lambda>x. 0\<rparr>"

lemma sc3_ok: "sc_ok 1 (sc3 rdma)"
proof -
  have env: "env_ready sample_env 2" by (simp add: env_ready_def sample_env_def all_succeed_def)
  have buf: "buffers_ready sample_sc 64 12" by (simp add: buffers_ready_def sample_sc_def)
  have sl: "scatter_slices sample_sc 3 2 =
      [\<lparr>sl_offset = 0, sl_size = 4\<rparr>, \<lparr>sl_offset = 4, sl_size = 4\<rparr>, \<lparr>sl_offset = 8, sl_size = 4\<rparr>]"
    by (simp add: scatter_slices_def sample_sc_def even_slices_def upt_3)
  have "at_inputMem sample_sc = at_outputMem sample_sc" "nb_sliceMap sample_sc = []" "nr_root sample_sc = 1"
    by (simp_all add: sample_sc_def)
  then show ?thesis using env buf sl links_ready_sample[of rdma] by (simp add: sc_ok_def sc3_def slice_in_def)
qed

lemma ScatterNHR_scatters_witness:
  "fst (sc_run (sc3 True) 2) = HCCL_SUCCESS \<and>
   (\<exists>c. (stream_step (+) 3 (sc_stream (sc3 True)))\<^sup>*\<^sup>* (start (gr_mem (sc3 True))) c \<and>
     finished 3 (sc_stream (sc3 True)) c \<and> cf_mem c 2 OUTPUT_MEM 73 = 1073)"
proof -
  have N: "gr_ranks (sc3 True) = 3" "unat (gr_base (sc3 True)) = 64" by (simp_all add: sc3_def)
  note all = ScatterNHR_scatters[OF sc3_ok[of True], of "(+)", unfolded N]
  have "\<exists>d. (stream_step (+) 3 (sc_stream (sc3 True)) ^^ (total_actions 3 (sc_stream (sc3 True)) - 0)) (start (gr_mem (sc3 True))) d \<and>
      finished 3 (sc_stream (sc3 True)) d"
    by (rule run_completes[where n = 0 and m = "gr_mem (sc3 True)"]) (use all[THEN conjunct2, THEN conjunct1] in blast, simp)
  then obtain c where c: "(stream_step (+) 3 (sc_stream (sc3 True)))\<^sup>*\<^sup>* (start (gr_mem (sc3 True))) c" "finished 3 (sc_stream (sc3 True)) c"
    by (meson rtranclp_power)
  have x: "9 \<in> slice_bytes (gr_slices (sc3 True) ! (GetRankMapping 3 (\<not> nb_isNeedMerge (gr_tpl (sc3 True) 0)) [] ! 2))"
    by (simp add: sc3_def sample_sc_def GetRankMapping_def upt_3 slice_bytes_def bytes_def)
  have "cf_mem c 2 OUTPUT_MEM (64 + 9) = gr_mem (sc3 True) 1 OUTPUT_MEM (64 + 9)"
    using all[THEN conjunct2, THEN conjunct2, rule_format, OF c _ x] by simp
  then show ?thesis using c all[THEN conjunct1, rule_format, of 2] by (auto simp: sc3_def)
qed

end
