(* ===== verification/BroadcastProof.thy ===== *)
theory BroadcastProof
  imports ScatterProof ReduceSlices
begin

text \<open>
  Broadcast as Scatter followed by AllGather on the same streams and the same buffer: the slices
  it makes divide the data, no interleaving of the ranks' streams blocks, and at the end every
  rank holds the root's data, on reading and on writing links.
\<close>

section \<open>The slices\<close>

definition broadcast_slices :: "nat \<Rightarrow> u32 \<Rightarrow> u64 \<Rightarrow> Slice list" where
  "broadcast_slices N u n =
     (let T = n * ucast u in residue_slices N T
       (RoundUpWithDivisor (((n + of_nat N - 1) div of_nat N) * ucast u) HCCL_MIN_SLICE_ALIGN) T)"

lemma PrepareSlice_slices:
  "at_slices (BroadcastNHR_PrepareSlice env N t) = broadcast_slices N (c_unit env) (at_count t)"
  by (simp add: BroadcastNHR_PrepareSlice_def broadcast_slices_def Let_def)

lemma ceil_div_le: "0 < (n::nat) \<Longrightarrow> (t + (n - 1)) div n \<le> t"
proof (cases t)
  case (Suc k)
  assume n: "0 < n"
  have "t + (n - 1) = k + n" using Suc n by simp
  then have "(t + (n - 1)) div n = k div n + 1" using div_add_self2[of n k] n by simp
  then show ?thesis using Suc div_le_dividend[of k n] by simp
qed simp

lemma broadcast_slices_divide:
  assumes N: "0 < N" "N < 2 ^ 31" and T: "unat n * unat u + N + 127 < 2 ^ 64" and u: "u \<noteq> 0"
  shows "length (broadcast_slices N u n) = N" "cover (broadcast_slices N u n) = {..<unat n * unat u}"
    "disjoint_slices (broadcast_slices N u n)"
    "s \<in> set (broadcast_slices N u n) \<Longrightarrow> slice_in (unat n * unat u) s \<and> (sl_size s = 0 \<or> 128 dvd unat (sl_offset s))"
    "s \<in> set (broadcast_slices N u n) \<Longrightarrow> unat u dvd 128 \<Longrightarrow> unat u dvd unat (sl_offset s) \<and> unat u dvd unat (sl_size s)"
proof -
  let ?T = "n * ucast u :: u64" and ?c = "(n + of_nat N - 1) div of_nat N"
  let ?a = "RoundUpWithDivisor (?c * ucast u) HCCL_MIN_SLICE_ALIGN"
  have "0 < unat u" using u by (simp add: unat_gt_0)
  then have "unat n \<le> unat n * unat u" by simp
  then have n: "unat n + N < 2 ^ 64" using T by linarith
  have uT: "unat ?T = unat n * unat u" by (rule product_of_sizes) (use T in linarith)
  note k = rank_count[OF N]
  have shift: "n + of_nat N - 1 = n + (of_nat N - 1)" by (rule add_diff_eq[symmetric])
  have "unat (n + of_nat N - 1) = unat n + (N - 1)"
    unfolding shift unat_word_ariths(1) k(2) using n by simp
  then have c: "unat ?c = (unat n + (N - 1)) div N" by (simp only: unat_div k)
  have "unat ?c * unat u \<le> unat n * unat u" unfolding c by (rule mult_le_mono1[OF ceil_div_le[OF N(1)]])
  then have small: "unat ?c * unat u + 127 < 2 ^ 64" using T by linarith
  then have "unat ?c * unat u < 2 ^ 64" by linarith
  note avg = product_of_sizes[OF this] small
  note a = RoundUpWithDivisor_spec[of "?c * ucast u", unfolded avg(1), OF avg(2)]
  have "unat n * unat u \<le> N * unat ?c * unat u" unfolding c by (rule mult_le_mono1[OF ceil_div[OF N(1)]])
  also have "\<dots> \<le> N * unat ?a" using mult_le_mono2[OF a(1), of N] by (simp only: mult.assoc)
  finally have le: "unat ?T \<le> N * unat ?a" unfolding uT .
  have ss: "broadcast_slices N u n = residue_slices N ?T ?a ?T" by (simp only: broadcast_slices_def Let_def)
  note d = residue_divide[OF a(3) le]
  show "length (broadcast_slices N u n) = N" "cover (broadcast_slices N u n) = {..<unat n * unat u}"
    "disjoint_slices (broadcast_slices N u n)" using d(1-3) unfolding ss uT by simp_all
  assume "s \<in> set (broadcast_slices N u n)"
  then have s: "s \<in> set (residue_slices N ?T ?a ?T)" unfolding ss .
  show "slice_in (unat n * unat u) s \<and> (sl_size s = 0 \<or> 128 dvd unat (sl_offset s))"
    using d(4)[OF s] a(2) unfolding uT by (blast intro: dvd_trans)
  assume "unat u dvd 128"
  then have "unat u dvd unat ?a" "unat u dvd unat ?T" using a(2) uT by (auto intro: dvd_trans)
  then show "unat u dvd unat (sl_offset s) \<and> unat u dvd unat (sl_size s)" using d(5)[OF s] by blast
qed

section \<open>Set-up\<close>

text \<open>
  One registered buffer, in which the data stands at the base offset; every rank is called with
  the same amount of data and the same root, on links of one kind.
\<close>

definition bc_ok :: "nat \<Rightarrow> (RootedNHR, 'v) gather_run \<Rightarrow> bool" where
  "bc_ok root S \<longleftrightarrow> 2 \<le> gr_ranks S \<and> gr_ranks S < 2 ^ 31 \<and> root < gr_ranks S \<and>
     unat (gr_size S) + gr_ranks S + 127 < 2 ^ 64 \<and> unat (gr_base S) + unat (gr_size S) < 2 ^ 64 \<and>
     (\<forall>r<gr_ranks S. let t = gr_tpl S r in
        env_ready (gr_env S r) (gr_unit S) \<and> links_ready (gr_ranks S) (gr_rdma S) (gr_pull S) (gr_links S r) \<and>
        unat (at_count t) * unat (gr_unit S) = unat (gr_size S) \<and> at_inputMem t = at_outputMem t \<and>
        dm_ptr (at_outputMem t) = Some (OUTPUT_MEM, 0) \<and> unat (gr_base S) + unat (gr_size S) \<le> unat (dm_size (at_outputMem t)) \<and>
        at_baseOffset t = gr_base S \<and> nr_root t = root)"

definition bc_run :: "(RootedNHR, 'v) gather_run \<Rightarrow> nat \<Rightarrow> HcclResult \<times> task list" where
  "bc_run S r = snd (BroadcastNHR_RunAsync (gr_env S r) r (gr_ranks S) (gr_links S r) (gr_tpl S r)) []"

definition bc_stream :: "(RootedNHR, 'v) gather_run \<Rightarrow> nat \<Rightarrow> action list" where
  "bc_stream S r = stream_of (gr_link S r) (gr_unit S) r (snd (bc_run S r))"

definition bc_slices :: "(RootedNHR, 'v) gather_run \<Rightarrow> Slice list" where
  "bc_slices S = broadcast_slices (gr_ranks S) (gr_unit S) (at_count (gr_tpl S 0))"

definition bc_prepared :: "(RootedNHR, 'v) gather_run \<Rightarrow> nat \<Rightarrow> RootedNHR" where
  "bc_prepared S r = BroadcastNHR_PrepareSlice (gr_env S r) (gr_ranks S) (gr_tpl S r)"

definition bc_mem :: "('t, 'v) gather_run \<Rightarrow> DeviceMem" where
  "bc_mem S = \<lparr>dm_ptr = Some (OUTPUT_MEM, gr_base S), dm_size = gr_size S\<rparr>"

text \<open>The phases as runs of their own: AllGather from the memory that Scatter leaves.\<close>

definition bc_first :: "(RootedNHR, 'v) gather_run \<Rightarrow> (RootedNHR, 'v) gather_run" where
  "bc_first S = S\<lparr>gr_tpl := \<lambda>r. BroadcastNHR_Scatter (bc_prepared S r) (bc_mem S), gr_slices := bc_slices S\<rparr>"

definition bc_gather :: "(RootedNHR, 'v) gather_run \<Rightarrow> (NHRBase, 'v) gather_run" where
  "bc_gather S = \<lparr>gr_ranks = gr_ranks S, gr_env = gr_env S, gr_links = gr_links S,
     gr_tpl = (\<lambda>r. BroadcastNHR_AllGather (bc_prepared S r) (bc_mem S)), gr_rdma = gr_rdma S, gr_pull = gr_pull S,
     gr_unit = gr_unit S, gr_base = gr_base S, gr_size = gr_size S, gr_slices = bc_slices S,
     gr_mem = (\<lambda>_ _ _. gr_out S 0), gr_out = (\<lambda>_. gr_out S 0)\<rparr>"

lemma bc_first_fields [simp]:
  "gr_ranks (bc_first S) = gr_ranks S" "gr_env (bc_first S) = gr_env S" "gr_links (bc_first S) = gr_links S"
  "gr_tpl (bc_first S) = (\<lambda>r. BroadcastNHR_Scatter (bc_prepared S r) (bc_mem S))" "gr_pull (bc_first S) = gr_pull S"
  "gr_unit (bc_first S) = gr_unit S" "gr_base (bc_first S) = gr_base S" "gr_size (bc_first S) = gr_size S"
  "gr_slices (bc_first S) = bc_slices S" "gr_link (bc_first S) = gr_link S" "gr_rdma (bc_first S) = gr_rdma S"
  "sc_rounds (bc_first S) = sc_rounds S"
  by (simp_all add: bc_first_def gr_link_def fun_eq_iff sc_rounds_def)

lemma bc_gather_fields [simp]:
  "gr_ranks (bc_gather S) = gr_ranks S" "gr_env (bc_gather S) = gr_env S" "gr_links (bc_gather S) = gr_links S"
  "gr_tpl (bc_gather S) = (\<lambda>r. BroadcastNHR_AllGather (bc_prepared S r) (bc_mem S))" "gr_pull (bc_gather S) = gr_pull S"
  "gr_unit (bc_gather S) = gr_unit S" "gr_base (bc_gather S) = gr_base S" "gr_size (bc_gather S) = gr_size S"
  "gr_slices (bc_gather S) = bc_slices S" "gr_link (bc_gather S) = gr_link S" "gr_rdma (bc_gather S) = gr_rdma S"
  "nhr_rounds (bc_gather S) = sc_rounds S"
  by (simp_all add: bc_gather_def gr_link_def fun_eq_iff sc_rounds_def nhr_rounds_def)

lemma bc_okD:
  assumes "bc_ok root S"
  shows "2 \<le> gr_ranks S" "gr_ranks S < 2 ^ 31" "root < gr_ranks S" "0 < gr_ranks S" "unat (gr_base S) + unat (gr_size S) < 2 ^ 64"
    "length (bc_slices S) = gr_ranks S" "cover (bc_slices S) = {..<unat (gr_size S)}" "disjoint_slices (bc_slices S)"
    "\<forall>s\<in>set (bc_slices S). slice_in (unat (gr_size S)) s" "bc_slices S \<noteq> []"
proof -
  show N: "2 \<le> gr_ranks S" "gr_ranks S < 2 ^ 31" "root < gr_ranks S" "0 < gr_ranks S" "unat (gr_base S) + unat (gr_size S) < 2 ^ 64"
    using assms by (simp_all add: bc_ok_def)
  have size: "unat (at_count (gr_tpl S 0)) * unat (gr_unit S) = unat (gr_size S)" and u: "gr_unit S \<noteq> 0"
    using assms N(4) by (auto simp: bc_ok_def Let_def env_ready_def)
  have T: "unat (at_count (gr_tpl S 0)) * unat (gr_unit S) + gr_ranks S + 127 < 2 ^ 64"
    using assms unfolding size by (simp add: bc_ok_def)
  note d = broadcast_slices_divide[OF N(4,2) T u, folded bc_slices_def, unfolded size]
  show "length (bc_slices S) = gr_ranks S" "cover (bc_slices S) = {..<unat (gr_size S)}" "disjoint_slices (bc_slices S)"
    "\<forall>s\<in>set (bc_slices S). slice_in (unat (gr_size S)) s" using d(1-4) by blast+
  then show "bc_slices S \<noteq> []" using N(4) by auto
qed

lemma bc_ok_rank:
  assumes ok: "bc_ok root S" and r: "r < gr_ranks S"
  shows "env_ready (gr_env S r) (gr_unit S)" "links_ready (gr_ranks S) (gr_rdma S) (gr_pull S) (gr_links S r)"
    "at_inputMem (gr_tpl S r) = at_outputMem (gr_tpl S r)" "nr_root (gr_tpl S r) = root" "at_baseOffset (gr_tpl S r) = gr_base S"
    "at_slices (bc_prepared S r) = bc_slices S"
    "range_of (at_inputMem (gr_tpl S r)) (at_baseOffset (gr_tpl S r)) (at_count (gr_tpl S r) * ucast (c_unit (gr_env S r))) = bc_mem S"
proof -
  let ?t = "gr_tpl S r"
  show env: "env_ready (gr_env S r) (gr_unit S)" and "links_ready (gr_ranks S) (gr_rdma S) (gr_pull S) (gr_links S r)"
    and io: "at_inputMem ?t = at_outputMem ?t" and "nr_root ?t = root" and base: "at_baseOffset ?t = gr_base S"
    using ok r unfolding bc_ok_def Let_def by blast+
  have u: "c_unit (gr_env S r) = gr_unit S" "gr_unit S \<noteq> 0" using env by (simp_all add: env_ready_def)
  have size: "unat (at_count (gr_tpl S q)) * unat (gr_unit S) = unat (gr_size S)" if "q < gr_ranks S" for q
    using ok that by (simp add: bc_ok_def Let_def)
  have "unat (at_count ?t) * unat (gr_unit S) = unat (at_count (gr_tpl S 0)) * unat (gr_unit S)"
    using size[OF r] size[OF bc_okD(4)[OF ok]] by simp
  moreover have "unat (gr_unit S) \<noteq> 0" using u(2) by (simp add: unat_eq_zero)
  ultimately have "unat (at_count ?t) = unat (at_count (gr_tpl S 0))" by simp
  then have "at_count ?t = at_count (gr_tpl S 0)" by (simp add: word_unat_eq_iff)
  then show "at_slices (bc_prepared S r) = bc_slices S"
    by (simp add: bc_prepared_def PrepareSlice_slices bc_slices_def u(1))
  have mem: "dm_ptr (at_outputMem ?t) = Some (OUTPUT_MEM, 0)" "unat (gr_base S) + unat (gr_size S) \<le> unat (dm_size (at_outputMem ?t))"
    using ok r by (simp_all add: bc_ok_def Let_def)
  have "unat (at_count ?t * ucast (gr_unit S) :: u64) = unat (gr_size S)"
    using product_of_sizes[of "at_count ?t" "gr_unit S"] size[OF r] bc_okD(5)[OF ok] by simp
  then have sz: "at_count ?t * ucast (gr_unit S) = gr_size S" by (simp add: word_unat_eq_iff)
  have "unat (gr_base S + gr_size S) = unat (gr_base S) + unat (gr_size S)"
    using bc_okD(5)[OF ok] by (simp add: unat_word_ariths)
  then have "\<not> dm_size (at_outputMem ?t) < gr_base S + gr_size S" using mem(2) by (simp add: word_less_nat_alt)
  then show "range_of (at_inputMem ?t) (at_baseOffset ?t) (at_count ?t * ucast (c_unit (gr_env S r))) = bc_mem S"
    by (simp add: range_of_def io mem(1) base u(1) sz bc_mem_def)
qed

section \<open>The two phases\<close>

lemma bc_templates:
  assumes ok: "bc_ok root S" and r: "r < gr_ranks S"
  shows "at_slices (BroadcastNHR_Scatter (bc_prepared S r) (bc_mem S)) = bc_slices S"
    "at_slices (BroadcastNHR_AllGather (bc_prepared S r) (bc_mem S)) = bc_slices S"
    "nr_root (BroadcastNHR_Scatter (bc_prepared S r) (bc_mem S)) = root"
    "buffers_ready (BroadcastNHR_Scatter (bc_prepared S r) (bc_mem S)) (gr_base S) (gr_size S)"
    "buffers_ready (BroadcastNHR_AllGather (bc_prepared S r) (bc_mem S)) (gr_base S) (gr_size S)"
proof -
  note rank = bc_ok_rank[OF ok r] and N = bc_okD[OF ok]
  have keep: "at_baseOffset (bc_prepared S r) = gr_base S" "nr_root (bc_prepared S r) = root"
    using rank(4,5) by (simp_all add: bc_prepared_def BroadcastNHR_PrepareSlice_def Let_def)
  show "at_slices (BroadcastNHR_Scatter (bc_prepared S r) (bc_mem S)) = bc_slices S"
    "at_slices (BroadcastNHR_AllGather (bc_prepared S r) (bc_mem S)) = bc_slices S"
    using N(10) rank(6) by (simp_all add: BroadcastNHR_Scatter_def BroadcastNHR_AllGather_def Prepare_def)
  show "nr_root (BroadcastNHR_Scatter (bc_prepared S r) (bc_mem S)) = root"
    using keep by (simp add: BroadcastNHR_Scatter_def)
  show "buffers_ready (BroadcastNHR_Scatter (bc_prepared S r) (bc_mem S)) (gr_base S) (gr_size S)"
    "buffers_ready (BroadcastNHR_AllGather (bc_prepared S r) (bc_mem S)) (gr_base S) (gr_size S)"
    using keep N(5) by (simp_all add: buffers_ready_def BroadcastNHR_Scatter_def BroadcastNHR_AllGather_def Prepare_def bc_mem_def)
qed

lemma bc_template_kinds [simp]:
  "nb_isNeedMerge (BroadcastNHR_Scatter t m)" "nb_isNeedMerge (BroadcastNHR_AllGather t m)"
  "nb_sliceMap (BroadcastNHR_Scatter t m) = []" "nb_sliceMap (BroadcastNHR_AllGather t m) = []"
  "at_inputMem (BroadcastNHR_Scatter t m) = m" "at_outputMem (BroadcastNHR_Scatter t m) = m"
  "at_inputMem (BroadcastNHR_AllGather t m) = m" "at_outputMem (BroadcastNHR_AllGather t m) = m"
  by (simp_all add: BroadcastNHR_Scatter_def BroadcastNHR_AllGather_def Prepare_def ScatterNHR_Prepare_def
      AllGatherNHR_Prepare_def new_ScatterNHR_def new_AllGatherNHR_def)

lemma bc_first_ok:
  assumes ok: "bc_ok root S"
  shows "sc_ok root (bc_first S)"
  unfolding sc_ok_def Let_def
proof (intro conjI allI impI)
  note N = bc_okD[OF ok]
  show "2 \<le> gr_ranks (bc_first S)" "gr_ranks (bc_first S) < 2 ^ 31" "root < gr_ranks (bc_first S)"
    "length (gr_slices (bc_first S)) = gr_ranks (bc_first S)"
    "\<forall>s\<in>set (gr_slices (bc_first S)). slice_in (unat (gr_size (bc_first S))) s"
    using N(1-3,6,9) by simp_all
  fix r assume "r < gr_ranks (bc_first S)"
  then have r: "r < gr_ranks S" by simp
  note rank = bc_ok_rank[OF ok r] and t = bc_templates[OF ok r]
  show "env_ready (gr_env (bc_first S) r) (gr_unit (bc_first S))"
    "links_ready (gr_ranks (bc_first S)) (gr_rdma (bc_first S)) (gr_pull (bc_first S)) (gr_links (bc_first S) r)"
    using rank(1,2) by simp_all
  show "buffers_ready (gr_tpl (bc_first S) r) (gr_base (bc_first S)) (gr_size (bc_first S))"
    "nr_root (gr_tpl (bc_first S) r) = root"
    using t(3,4) by simp_all
  show "scatter_slices (gr_tpl (bc_first S) r) (gr_ranks (bc_first S)) (gr_unit (bc_first S)) = gr_slices (bc_first S)"
    using t(1) N(10) by (simp add: scatter_slices_def)
qed simp_all

lemma bc_maps: "nhr_map (bc_gather S) = GetRankMapping (gr_ranks S) False []"
    "sc_map (bc_first S) = GetRankMapping (gr_ranks S) False []"
  by (simp_all add: nhr_map_def sc_map_def)

text \<open>AllGather is set up correctly when every rank holds its own part of \<open>g\<close>.\<close>

lemma bc_second_ok:
  assumes ok: "bc_ok root S"
    and own: "\<And>r x. r < gr_ranks S \<Longrightarrow> x \<in> slice_bytes (bc_slices S ! (sc_map (bc_first S) ! r)) \<Longrightarrow>
      m r OUTPUT_MEM (unat (gr_base S) + x) = g x"
  shows "nhr_ok ((bc_gather S)\<lparr>gr_mem := m, gr_out := g\<rparr>)"
proof -
  let ?S = "(bc_gather S)\<lparr>gr_mem := m, gr_out := g\<rparr>"
  note N = bc_okD[OF ok]
  have map: "nhr_map ?S = sc_map (bc_first S)" by (simp add: nhr_map_def bc_maps(2))
  have k: "gr_k ?S = 1" using N(4,6) by (simp add: gr_k_def)
  have sl: "slices_ready (gr_ranks S) (gr_size S) (bc_slices S)"
    using N(2,6,9,10) by (auto simp: slices_ready_def)
  have "let t = gr_tpl ?S r in env_ready (gr_env ?S r) (gr_unit ?S) \<and>
      links_ready (gr_ranks ?S) (gr_rdma ?S) (gr_pull ?S) (gr_links ?S r) \<and>
      buffers_ready t (gr_base ?S) (gr_size ?S) \<and> output_slices t (gr_ranks ?S) (gr_unit ?S) = gr_slices ?S \<and>
      input_ready (gr_mem ?S) (gr_out ?S) r t (gr_base ?S) (part (gr_slices ?S) (nhr_map ?S) (gr_k ?S) r) (gr_k ?S) d s"
    if r: "r < gr_ranks S" for r d s
    using bc_ok_rank(1,2)[OF ok r] bc_templates(2,5)[OF ok r] own[OF r] N(10)
    by (simp add: k map output_slices_def input_ready_def part_one[unfolded One_nat_def])
  then have "run_ok (nhr_map ?S) ?S"
    unfolding run_ok_def Let_def using N(1,2) sl by simp
  then show ?thesis unfolding nhr_ok_def by simp
qed

section \<open>All rounds\<close>

lemma bc_gather_ok: "bc_ok root S \<Longrightarrow> nhr_ok (bc_gather S)"
  using bc_second_ok[of root S "\<lambda>_ _ _. gr_out S 0" "\<lambda>_. gr_out S 0"] by (simp add: bc_gather_def)

lemma bc_program:
  assumes ok: "bc_ok root S" and r: "r < gr_ranks S"
  shows "fst (bc_run S r) = HCCL_SUCCESS" "bc_stream S r = sc_stream (bc_first S) r @ nhr_stream (bc_gather S) r"
proof -
  note N = bc_okD[OF ok] and rank = bc_ok_rank[OF ok r]
  have env: "c_dispatcher (gr_env S r)" "c_stream (gr_env S r)" "c_unit (gr_env S r) \<noteq> 0"
    "gr_ranks S \<noteq> 1" "\<not> length (gr_links S r) < gr_ranks S"
    using rank(1,2) N(1) by (simp_all add: env_ready_def links_ready_def)
  have prog: "snd (BroadcastNHR_RunAsync (gr_env S r) r (gr_ranks S) (gr_links S r) (gr_tpl S r)) = all_of [done_ok,
      snd (ScatterNHR_RunAsync (gr_env S r) r (gr_ranks S) (gr_links S r) (gr_tpl (bc_first S) r)),
      snd (AllGatherNHR_RunAsync (gr_env S r) r (gr_ranks S) (gr_links S r) (gr_tpl (bc_gather S) r))]"
    using env rank(3) by (simp only: BroadcastNHR_RunAsync_def Let_def rank(7)[unfolded rank(3)] bc_prepared_def bc_first_fields bc_gather_fields
        if_False if_True simp_thms not_True_eq_False not_False_eq_True snd_conv)
  have r1: "r < gr_ranks (bc_first S)" and r2: "r < gr_ranks (bc_gather S)" using r by simp_all
  note first = sc_program(1)[OF bc_first_ok[OF ok] r1, unfolded bc_first_fields(1-3)]
  note second = nhr_program(4)[OF bc_gather_ok[OF ok] r2, unfolded bc_gather_fields(1-3)]
  have "runs (snd (BroadcastNHR_RunAsync (gr_env S r) r (gr_ranks S) (gr_links S r) (gr_tpl S r)))
      ([] @ snd (sc_run (bc_first S) r) @ snd (nhr_run (bc_gather S) r) @ [])"
    unfolding prog by (intro runs_all_of runs_done first second)
  then have run: "bc_run S r = (HCCL_SUCCESS, snd (sc_run (bc_first S) r) @ snd (nhr_run (bc_gather S) r))"
    using runsD by (fastforce simp: bc_run_def)
  show "fst (bc_run S r) = HCCL_SUCCESS" by (simp add: run)
  show "bc_stream S r = sc_stream (bc_first S) r @ nhr_stream (bc_gather S) r"
    by (simp add: bc_stream_def run sc_stream_def nhr_stream_def)
qed

text \<open>The partners, the copies a rank gives and those that reach it, over both phases.\<close>

definition bc_from :: "(RootedNHR, 'v) gather_run \<Rightarrow> nat \<Rightarrow> nat \<Rightarrow> nat" where
  "bc_from S = two_phases (sc_rounds S) (sc_from (bc_first S)) (\<lambda>s. nhr_from (bc_gather S) (s - 1))"

definition bc_to :: "(RootedNHR, 'v) gather_run \<Rightarrow> nat \<Rightarrow> nat \<Rightarrow> nat" where
  "bc_to S = two_phases (sc_rounds S) (sc_to (bc_first S)) (\<lambda>s. nhr_to (bc_gather S) (s - 1))"

definition bc_tx :: "nat \<Rightarrow> (RootedNHR, 'v) gather_run \<Rightarrow> nat \<Rightarrow> nat \<Rightarrow> bool" where
  "bc_tx root S = two_phases (sc_rounds S) (sc_tx root (bc_first S)) (\<lambda>s r. s \<noteq> 0)"

definition bc_rx :: "nat \<Rightarrow> (RootedNHR, 'v) gather_run \<Rightarrow> nat \<Rightarrow> nat \<Rightarrow> bool" where
  "bc_rx root S = two_phases (sc_rounds S) (sc_rxs root (bc_first S)) (\<lambda>s r. s \<noteq> 0)"

definition bc_given :: "(RootedNHR, 'v) gather_run \<Rightarrow> nat \<Rightarrow> nat \<Rightarrow> action list" where
  "bc_given S = two_phases (sc_rounds S) (sc_given (bc_first S)) (nhr_given (bc_gather S))"

definition bc_start :: "(RootedNHR, 'v) gather_run \<Rightarrow> nat \<Rightarrow> nat \<Rightarrow> action list" where
  "bc_start S = two_phases (sc_rounds S) (\<lambda>s r. []) (nhr_start (bc_gather S))"

definition bc_work :: "nat \<Rightarrow> (RootedNHR, 'v) gather_run \<Rightarrow> nat \<Rightarrow> nat \<Rightarrow> action list" where
  "bc_work root S = two_phases (sc_rounds S) (sc_work root (bc_first S)) (nhr_work (bc_gather S))"

lemmas bc_phases = bc_from_def bc_to_def bc_tx_def bc_rx_def bc_given_def bc_start_def bc_work_def

lemma bc_read_rounds:
  assumes ok: "bc_ok root S" and kind: "\<not> gr_rdma S"
  shows "read_rounds (gr_ranks S) (sc_rounds S + Suc (sc_rounds S)) (bc_from S) (bc_to S) (bc_tx root S) (bc_rx root S)
    (bc_work root S) (bc_stream S)"
proof -
  have first: "read_rounds (gr_ranks S) (sc_rounds S) (sc_from (bc_first S)) (sc_to (bc_first S)) (sc_tx root (bc_first S))
      (sc_rxs root (bc_first S)) (sc_work root (bc_first S)) (sc_stream (bc_first S))"
    using sc_read_rounds[OF bc_first_ok[OF ok]] kind by simp
  have work: "nhr_work (bc_gather S) = nhr_moves (bc_gather S)" using kind by (simp add: nhr_work_def)
  have second: "read_rounds (gr_ranks S) (Suc (sc_rounds S)) (\<lambda>s. nhr_from (bc_gather S) (s - 1)) (\<lambda>s. nhr_to (bc_gather S) (s - 1))
      (\<lambda>s r. s \<noteq> 0) (\<lambda>s r. s \<noteq> 0) (nhr_work (bc_gather S)) (nhr_stream (bc_gather S))"
    using nhr_read_rounds[OF bc_gather_ok[OF ok]] kind bc_okD(8)[OF ok] by (simp add: work)
  show ?thesis by (rule read_rounds_append[OF first second _ _ bc_program(2)[OF ok]]) (simp_all add: bc_phases)
qed

lemma bc_write_rounds:
  assumes ok: "bc_ok root S" and kind: "gr_rdma S"
  shows "write_rounds (gr_ranks S) (sc_rounds S + Suc (sc_rounds S)) (bc_from S) (bc_to S) (bc_tx root S) (bc_rx root S) True
    (\<lambda>s. False) (\<lambda>s. False) (bc_given S) (bc_start S) (bc_stream S)"
proof -
  have first: "write_rounds (gr_ranks S) (sc_rounds S) (sc_from (bc_first S)) (sc_to (bc_first S)) (sc_tx root (bc_first S))
      (sc_rxs root (bc_first S)) True (\<lambda>s. False) (\<lambda>s. False) (sc_given (bc_first S)) (\<lambda>s r. []) (sc_stream (bc_first S))"
    using sc_write_rounds[OF bc_first_ok[OF ok]] kind by simp
  have second: "write_rounds (gr_ranks S) (Suc (sc_rounds S)) (\<lambda>s. nhr_from (bc_gather S) (s - 1)) (\<lambda>s. nhr_to (bc_gather S) (s - 1))
      (\<lambda>s r. s \<noteq> 0) (\<lambda>s r. s \<noteq> 0) True (\<lambda>s. False) (\<lambda>s. False) (nhr_given (bc_gather S)) (nhr_start (bc_gather S)) (nhr_stream (bc_gather S))"
    using nhr_write_rounds[OF bc_gather_ok[OF ok]] kind bc_okD(8)[OF ok] by simp
  show ?thesis by (rule write_rounds_append[OF first second _ _ bc_program(2)[OF ok]]) (simp_all add: bc_phases)
qed

definition bc_readers :: "nat \<Rightarrow> (RootedNHR, 'v) gather_run \<Rightarrow> nat" where
  "bc_readers root S = (if bc_ok root S \<and> \<not> gr_rdma S then gr_ranks S else 0)"

definition bc_writers :: "nat \<Rightarrow> (RootedNHR, 'v) gather_run \<Rightarrow> nat" where
  "bc_writers root S = (if bc_ok root S \<and> gr_rdma S then gr_ranks S else 0)"

interpretation bc_reading: read_rounds "bc_readers root S" "sc_rounds S + Suc (sc_rounds S)" "bc_from S" "bc_to S" "bc_tx root S"
  "bc_rx root S" "bc_work root S" "bc_stream S" for root S
  unfolding bc_readers_def by (rule read_rounds_or_none) (blast intro: bc_read_rounds)

interpretation bc_writing: write_rounds "bc_writers root S" "sc_rounds S + Suc (sc_rounds S)" "bc_from S" "bc_to S" "bc_tx root S"
  "bc_rx root S" True "\<lambda>s. False" "\<lambda>s. False" "bc_given S" "bc_start S" "bc_stream S" for root S
  unfolding bc_writers_def by (rule write_rounds_or_none) (blast intro: bc_write_rounds)

lemma bc_round_work:
  assumes "gr_rdma S"
  shows "write_rounds.round_work (bc_from S) (bc_rx root S) (bc_given S) (bc_start S) = bc_work root S"
proof (intro ext)
  fix s r
  show "write_rounds.round_work (bc_from S) (bc_rx root S) (bc_given S) (bc_start S) s r = bc_work root S s r"
    unfolding bc_writing.round_work_def unfolding bc_phases two_phases_def nhr_work_def nhr_write_rounding.round_work_def
    using assms by (simp add: sc_work_def)
qed

lemma bc_final_memory:
  assumes ok: "bc_ok root S" and "(stream_step f (gr_ranks S) (bc_stream S))\<^sup>*\<^sup>* (start m) c"
    "finished (gr_ranks S) (bc_stream S) c" "r < gr_ranks S"
  shows "cf_mem c r = round_mem f (bc_work root S) m (sc_rounds S + Suc (sc_rounds S)) r"
proof (cases "gr_rdma S")
  case True
  then have "bc_writers root S = gr_ranks S" using ok by (simp add: bc_writers_def)
  then show ?thesis
    using bc_writing.final_memory[of f root S m c r, unfolded bc_round_work[OF True]] assms(2-4) by (simp del: round_mem.simps)
next
  case False
  then have "bc_readers root S = gr_ranks S" using ok by (simp add: bc_readers_def)
  then show ?thesis using bc_reading.final_memory[of f root S m c r] assms(2-4) by (simp del: round_mem.simps)
qed

lemma bc_not_stuck:
  assumes ok: "bc_ok root S" and "(stream_step f (gr_ranks S) (bc_stream S))\<^sup>*\<^sup>* (start m) c"
    "\<not> finished (gr_ranks S) (bc_stream S) c"
  shows "\<exists>d. stream_step f (gr_ranks S) (bc_stream S) c d"
proof (cases "gr_rdma S")
  case True
  then have "bc_writers root S = gr_ranks S" using ok by (simp add: bc_writers_def)
  then show ?thesis using bc_writing.rr.no_deadlock[of f root S m c] assms(2,3) by simp
next
  case False
  then have "bc_readers root S = gr_ranks S" using ok by (simp add: bc_readers_def)
  then show ?thesis using bc_reading.rr.no_deadlock[of f root S m c] assms(2,3) by simp
qed

lemma bc_result:
  fixes S :: "(RootedNHR, 'v) gather_run" and m :: "'v memory"
  assumes ok: "bc_ok root S" and r: "r < gr_ranks S" and x: "x < unat (gr_size S)"
  shows "round_mem f (bc_work root S) m (sc_rounds S + Suc (sc_rounds S)) r OUTPUT_MEM (unat (gr_base S) + x) =
    m root OUTPUT_MEM (unat (gr_base S) + x)"
proof -
  note N = bc_okD[OF ok]
  let ?M = "round_mem f (sc_work root (bc_first S)) m (sc_rounds S)" and ?g = "\<lambda>y. m root OUTPUT_MEM (unat (gr_base S) + y)"
  let ?S = "(bc_gather S)\<lparr>gr_mem := ?M, gr_out := ?g\<rparr>"
  have "round_mem f (bc_work root S) m (sc_rounds S) = ?M" by (rule round_mem_cong) (simp add: bc_work_def)
  moreover have "(\<lambda>s. bc_work root S (sc_rounds S + s)) = nhr_work ?S" by (simp add: bc_work_def fun_eq_iff)
  ultimately have phases: "round_mem f (bc_work root S) m (sc_rounds S + Suc (sc_rounds S)) =
      round_mem f (nhr_work ?S) (gr_mem ?S) (Suc (nhr_rounds ?S))"
    by (simp only: round_mem_append nhr_same bc_gather_fields) simp
  have "?M q OUTPUT_MEM (unat (gr_base S) + y) = ?g y"
    if "q < gr_ranks S" "y \<in> slice_bytes (bc_slices S ! (sc_map (bc_first S) ! q))" for q y
    using sc_scattered[OF bc_first_ok[OF ok], of q y f m] that by simp
  then have second: "nhr_ok ?S" by (rule bc_second_ok[OF ok])
  obtain s where s: "s \<in> set (bc_slices S)" "x \<in> slice_bytes s" using N(7) x by (auto simp: cover_def)
  show ?thesis unfolding phases
    using nhr_work_result[OF second, of r s x f] N(8) r s by (simp del: round_mem.simps)
qed

section \<open>Correctness of Broadcast\<close>

text \<open>
  C30: Broadcast over the hierarchical ring in one buffer, on reading and on writing links: for
  every number of ranks from 2 below \<open>2 ^ 31\<close>, every root and every amount of data that fits,
  every rank's call succeeds, and for every interleaving of the ranks' streams, in which a rank
  may already be gathering while another still waits for the root's data, a run that is not
  complete can go on, and a complete run leaves at every rank every byte of the root's data.
\<close>

theorem BroadcastNHR_broadcasts:
  fixes S :: "(RootedNHR, 'v) gather_run" and f :: "'v \<Rightarrow> 'v \<Rightarrow> 'v"
  assumes "bc_ok root S"
  shows "(\<forall>r<gr_ranks S. fst (bc_run S r) = HCCL_SUCCESS) \<and>
    (\<forall>m c. (stream_step f (gr_ranks S) (bc_stream S))\<^sup>*\<^sup>* (start m) c \<longrightarrow>
      finished (gr_ranks S) (bc_stream S) c \<or> (\<exists>d. stream_step f (gr_ranks S) (bc_stream S) c d)) \<and>
    (\<forall>m c r x. (stream_step f (gr_ranks S) (bc_stream S))\<^sup>*\<^sup>* (start m) c \<longrightarrow>
      finished (gr_ranks S) (bc_stream S) c \<longrightarrow> r < gr_ranks S \<longrightarrow> x < unat (gr_size S) \<longrightarrow>
      cf_mem c r OUTPUT_MEM (unat (gr_base S) + x) = m root OUTPUT_MEM (unat (gr_base S) + x))"
proof (intro conjI allI impI)
  show "fst (bc_run S r) = HCCL_SUCCESS" if "r < gr_ranks S" for r by (rule bc_program(1)[OF assms that])
  show "finished (gr_ranks S) (bc_stream S) c \<or> (\<exists>d. stream_step f (gr_ranks S) (bc_stream S) c d)"
    if "(stream_step f (gr_ranks S) (bc_stream S))\<^sup>*\<^sup>* (start m) c" for m c
    using bc_not_stuck[OF assms that] by blast
  fix m c r x
  assume run: "(stream_step f (gr_ranks S) (bc_stream S))\<^sup>*\<^sup>* (start m) c" "finished (gr_ranks S) (bc_stream S) c" "r < gr_ranks S"
    and x: "x < unat (gr_size S)"
  show "cf_mem c r OUTPUT_MEM (unat (gr_base S) + x) = m root OUTPUT_MEM (unat (gr_base S) + x)"
    unfolding bc_final_memory[OF assms run] by (rule bc_result[OF assms run(3) x])
qed

text \<open>Three ranks, the root being rank 1, and a hundred elements of two bytes: one slice is empty.\<close>

definition sample_bc :: RootedNHR where
  "sample_bc = \<lparr>at_inputMem = \<lparr>dm_ptr = Some (OUTPUT_MEM, 0), dm_size = 300\<rparr>,
     at_outputMem = \<lparr>dm_ptr = Some (OUTPUT_MEM, 0), dm_size = 300\<rparr>, at_scratchMem = null_mem, at_count = 100,
     at_slices = [], at_baseOffset = 64, nb_isNeedMerge = False, nb_sliceMap = [], nr_root = 1\<rparr>"

definition bc3 :: "bool \<Rightarrow> (RootedNHR, nat) gather_run" where
  "bc3 rdma = \<lparr>gr_ranks = 3, gr_env = \<lambda>r. sample_env, gr_links = \<lambda>r. replicate 3 (Some (sample_link rdma)),
     gr_tpl = \<lambda>r. sample_bc, gr_rdma = rdma, gr_pull = \<not> rdma, gr_unit = 2, gr_base = 64, gr_size = 200,
     gr_slices = [], gr_mem = \<lambda>r b a. 1000 * r + a, gr_out = \<lambda>x. 0\<rparr>"

lemma bc3_ok: "bc_ok 1 (bc3 rdma)"
proof -
  have "env_ready sample_env 2" by (simp add: env_ready_def sample_env_def all_succeed_def)
  moreover have "at_inputMem sample_bc = at_outputMem sample_bc" "nr_root sample_bc = 1" "at_baseOffset sample_bc = 64"
    "unat (at_count sample_bc) * 2 = 200" "dm_ptr (at_outputMem sample_bc) = Some (OUTPUT_MEM, 0)" "dm_size (at_outputMem sample_bc) = 300"
    by (simp_all add: sample_bc_def)
  ultimately show ?thesis using links_ready_sample[of rdma] by (simp add: bc_ok_def bc3_def)
qed

lemma BroadcastNHR_broadcasts_witness:
  "fst (bc_run (bc3 True) 2) = HCCL_SUCCESS \<and>
   (\<exists>c. (stream_step (+) 3 (bc_stream (bc3 True)))\<^sup>*\<^sup>* (start (gr_mem (bc3 True))) c \<and>
     finished 3 (bc_stream (bc3 True)) c \<and> cf_mem c 2 OUTPUT_MEM 263 = 1263)"
proof -
  have N: "gr_ranks (bc3 True) = 3" "unat (gr_base (bc3 True)) = 64" "unat (gr_size (bc3 True)) = 200" by (simp_all add: bc3_def)
  note all = BroadcastNHR_broadcasts[OF bc3_ok[of True], of "(+)", unfolded N]
  have "\<exists>d. (stream_step (+) 3 (bc_stream (bc3 True)) ^^ (total_actions 3 (bc_stream (bc3 True)) - 0)) (start (gr_mem (bc3 True))) d \<and>
      finished 3 (bc_stream (bc3 True)) d"
    by (rule run_completes[where n = 0 and m = "gr_mem (bc3 True)"]) (use all[THEN conjunct2, THEN conjunct1] in blast, simp)
  then obtain c where c: "(stream_step (+) 3 (bc_stream (bc3 True)))\<^sup>*\<^sup>* (start (gr_mem (bc3 True))) c" "finished 3 (bc_stream (bc3 True)) c"
    by (meson rtranclp_power)
  have "cf_mem c 2 OUTPUT_MEM (64 + 199) = gr_mem (bc3 True) 1 OUTPUT_MEM (64 + 199)"
    using all[THEN conjunct2, THEN conjunct2, rule_format, OF c, of 2 199] by simp
  then show ?thesis using c all[THEN conjunct1, rule_format, of 2] by (auto simp: bc3_def)
qed

text \<open>
  The slices Broadcast makes: one per rank, which start at multiples of 128 bytes unless
  empty, lie within the data, name every byte of it exactly once, and, for elements whose size
  divides 128, cut no element.
\<close>

theorem BroadcastNHR_slices:
  assumes "0 < N" "N < 2 ^ 31" "unat (at_count t) * unat (c_unit env) + N + 127 < 2 ^ 64" "c_unit env \<noteq> 0"
  shows "let ss = at_slices (BroadcastNHR_PrepareSlice env N t); T = unat (at_count t) * unat (c_unit env) in
    length ss = N \<and> cover ss = {..<T} \<and> disjoint_slices ss \<and>
    (\<forall>s\<in>set ss. slice_in T s \<and> (sl_size s = 0 \<or> 128 dvd unat (sl_offset s)) \<and>
      (unat (c_unit env) dvd 128 \<longrightarrow> unat (c_unit env) dvd unat (sl_offset s) \<and> unat (c_unit env) dvd unat (sl_size s)))"
  using broadcast_slices_divide[OF assms] unfolding PrepareSlice_slices Let_def by blast

lemma BroadcastNHR_slices_witness:
  "at_slices (BroadcastNHR_PrepareSlice sample_env 3 sample_bc) = [\<lparr>sl_offset = 0, sl_size = 128\<rparr>,
     \<lparr>sl_offset = 128, sl_size = 72\<rparr>, \<lparr>sl_offset = 200, sl_size = 0\<rparr>] \<and>
   cover (at_slices (BroadcastNHR_PrepareSlice sample_env 3 sample_bc)) = {..<200}"
proof -
  have "at_slices (BroadcastNHR_PrepareSlice sample_env 3 sample_bc) = [\<lparr>sl_offset = 0, sl_size = 128\<rparr>,
     \<lparr>sl_offset = 128, sl_size = 72\<rparr>, \<lparr>sl_offset = 200, sl_size = 0\<rparr>]"
    by (simp add: BroadcastNHR_PrepareSlice_def sample_bc_def sample_env_def RoundUpWithDivisor_def HCCL_MIN_SLICE_ALIGN_def
        numeral_3_eq_3 Let_def)
  moreover have "unat (at_count sample_bc) * unat (c_unit sample_env) = 200" "c_unit sample_env \<noteq> 0"
    by (simp_all add: sample_bc_def sample_env_def)
  ultimately show ?thesis using BroadcastNHR_slices[of 3 sample_bc sample_env] by (simp add: sample_bc_def Let_def)
qed

section \<open>The reported phases\<close>

lemma adj_steps_all:
  "(\<And>s. s \<in> set steps \<Longrightarrow> has_link links (target s)) \<Longrightarrow>
    adj_steps links target b steps (HCCL_SUCCESS, acc) = (HCCL_SUCCESS, acc @ map (\<lambda>s. (target s, s + b + 1)) steps)"
  unfolding adj_steps_def by (induction steps arbitrary: acc) simp_all

lemma sc_info_sends:
  assumes "2 \<le> N" "N < 2 ^ 31" "r < N" "nr_root t < N" "s < GetStepNumInterServer N"
  shows "st_txSliceIdxs (ScatterNHR_GetStepInfo t s (GetStepNumInterServer N) r N) \<noteq> [] \<longleftrightarrow> sc_sends N (nr_root t) s r"
    "sc_sends N (nr_root t) s r \<Longrightarrow> st_toRank (ScatterNHR_GetStepInfo t s (GetStepNumInterServer N) r N) = bwd N r (2 ^ s)"
  using sc_rx_nonempty[OF assms(1) round_small[OF assms(1) _ assms(5)]] assms(2)
  unfolding scatter_info[OF assms] by simp_all

lemma ScatterNHR_reported:
  assumes N: "2 \<le> N" "N < 2 ^ 31" and r: "r < N" and links: "\<forall>q<N. has_link links q" "N \<le> length links"
  defines "n \<equiv> GetStepNumInterServer N"
  defines "steps \<equiv> filter (\<lambda>s. sc_sends N 0 s r) [0..<n]"
  shows "ScatterNHR_GetNslbAdjInfo r N links =
    (HCCL_SUCCESS, map (\<lambda>s. (bwd N r (2 ^ s), s + 1)) steps, Some (length steps))"
proof -
  have n: "halvings (sub32 N 1) = n" by (simp add: n_def GetStepNumInterServer_def)
  have zero: "sub32 N r mod N = bwd N 0 r" using from_code[of 0 N r] N r by simp
  have senders: "scatter_senders N n s = nb_count N s" if "s < n" for s
    using scatter_senders_count[OF N] that by (simp add: n_def)
  have phases: "scatter_phases r N n = steps"
    unfolding scatter_phases_def steps_def zero sc_sends_def by (rule filter_cong) (simp_all add: senders)
  have to: "sub32 (w32 (r + N)) (2 ^ s) mod N = bwd N r (2 ^ s)" if "s < n" for s
    by (rule from_code) (use N r round_small[OF N(1) _ that[unfolded n_def]] in simp_all)
  have "adj_steps links (\<lambda>s. sub32 (w32 (r + N)) (2 ^ s) mod N) 0 steps (HCCL_SUCCESS, []) =
      (HCCL_SUCCESS, [] @ map (\<lambda>s. (sub32 (w32 (r + N)) (2 ^ s) mod N, s + 0 + 1)) steps)"
    by (rule adj_steps_all) (use links(1) N in \<open>simp add: steps_def\<close>)
  also have "\<dots> = (HCCL_SUCCESS, map (\<lambda>s. (bwd N r (2 ^ s), s + 1)) steps)"
    using to by (auto simp: steps_def)
  finally show ?thesis
    unfolding ScatterNHR_GetNslbAdjInfo_def n Let_def phases using N links(2) by simp
qed

text \<open>
  C32: The phases a rank reports to the network scheduler for Scatter are the rounds in which it
  sends, with their receivers, when the root is rank 0. For every other root they are not: the
  root itself sends in the first round and does not report it.
\<close>

theorem ScatterNHR_reports_root_zero:
  assumes "2 \<le> N" "N < 2 ^ 31" "\<forall>q<N. has_link links q" "N \<le> length links" "r < N" "nr_root t < N"
  defines "n \<equiv> GetStepNumInterServer N"
  shows "(nr_root t = 0 \<longrightarrow> fst (snd (ScatterNHR_GetNslbAdjInfo r N links)) =
      map (\<lambda>s. (st_toRank (ScatterNHR_GetStepInfo t s n r N), s + 1))
        (filter (\<lambda>s. st_txSliceIdxs (ScatterNHR_GetStepInfo t s n r N) \<noteq> []) [0..<n])) \<and>
    (nr_root t \<noteq> 0 \<longrightarrow> st_txSliceIdxs (ScatterNHR_GetStepInfo t 0 n (nr_root t) N) \<noteq> [] \<and>
      1 \<notin> snd ` set (fst (snd (ScatterNHR_GetNslbAdjInfo (nr_root t) N links))))"
proof (intro conjI impI)
  note info = sc_info_sends[OF assms(1,2,5,6), folded n_def]
  note rep = ScatterNHR_reported[OF assms(1,2) _ assms(3,4), folded n_def]
  have n0: "0 < n" using rounds_bounds[of N] assms(1,2) by (simp add: n_def)
  show "fst (snd (ScatterNHR_GetNslbAdjInfo r N links)) =
      map (\<lambda>s. (st_toRank (ScatterNHR_GetStepInfo t s n r N), s + 1))
        (filter (\<lambda>s. st_txSliceIdxs (ScatterNHR_GetStepInfo t s n r N) \<noteq> []) [0..<n])" if "nr_root t = 0"
  proof -
    have "filter (\<lambda>s. st_txSliceIdxs (ScatterNHR_GetStepInfo t s n r N) \<noteq> []) [0..<n] = filter (\<lambda>s. sc_sends N 0 s r) [0..<n]"
      by (rule filter_cong) (simp_all only: set_upt atLeastLessThan_iff info(1) that)
    then show ?thesis unfolding rep[OF assms(5)] fst_conv snd_conv using info(2) that by auto
  qed
  assume root: "nr_root t \<noteq> 0"
  show "st_txSliceIdxs (ScatterNHR_GetStepInfo t 0 n (nr_root t) N) \<noteq> []"
    using sc_info_sends(1)[OF assms(1,2,6,6), of 0] n0 assms(1,6) unfolding n_def by (simp add: sc_sends_def nb_count_def bwd_plain)
  have "\<not> sc_sends N 0 0 (nr_root t)" using root assms(1,6) by (simp add: sc_sends_def nb_count_def bwd_plain)
  then show "1 \<notin> snd ` set (fst (snd (ScatterNHR_GetNslbAdjInfo (nr_root t) N links)))"
    unfolding rep[OF assms(6)] by auto
qed

lemma ScatterNHR_reports_root_zero_witness:
  "st_txSliceIdxs (ScatterNHR_GetStepInfo (sample_bc\<lparr>nb_sliceMap := [0, 1, 2]\<rparr>) 0 2 1 3) = [0] \<and>
   fst (snd (ScatterNHR_GetNslbAdjInfo 1 3 (replicate 3 (Some (sample_link False))))) = [] \<and>
   1 \<notin> snd ` set (fst (snd (ScatterNHR_GetNslbAdjInfo 1 3 (replicate 3 (Some (sample_link False))))))"
proof -
  have n: "GetStepNumInterServer 3 = 2" by (simp add: GetStepNumInterServer_def halvings.simps)
  have root: "nr_root sample_bc = 1" by (simp add: sample_bc_def)
  have "1 \<notin> snd ` set (fst (snd (ScatterNHR_GetNslbAdjInfo 1 3 (replicate 3 (Some (sample_link False))))))"
    using ScatterNHR_reports_root_zero[of 3 "replicate 3 (Some (sample_link False))" 1 "sample_bc\<lparr>nb_sliceMap := [0, 1, 2]\<rparr>"]
    by (simp add: root has_link_def)
  moreover have "st_txSliceIdxs (ScatterNHR_GetStepInfo (sample_bc\<lparr>nb_sliceMap := [0, 1, 2]\<rparr>) 0 2 1 3) = [0]"
    by (simp add: ScatterNHR_GetStepInfo_def scatter_senders_def step_ranks.simps sample_bc_def Let_def)
  moreover have "fst (snd (ScatterNHR_GetNslbAdjInfo 1 3 (replicate 3 (Some (sample_link False))))) = []"
    using ScatterNHR_reported[of 3 1 "replicate 3 (Some (sample_link False))"]
    by (simp add: n has_link_def sc_sends_def nb_count_def bwd_def)
  ultimately show ?thesis by blast
qed

end
