(* ===== verification/Sqe.thy ===== *)
theory Sqe
  imports Prelude
begin

unbundle bit_operations_syntax

text \<open>
  The submission queue entries (SQEs) the AICPU writes for the task scheduler, and the
  functions that fill them: the \<open>V2\<close> formats for the 310P devices, the \<open>V1\<close> formats for the
  others. A function gets
  a slot of the local buffer, which holds zeros, and sets the fields it names; an entry is the
  record of its fields, a bit field a word of which the function keeps the field's bits.
\<close>

section \<open>Entries\<close>

datatype SqeType =
    SQE_TYPE_DEFAULT | NOTIFY_SQE | WRITE_VALUE_SQE | EVENT_SQE | MEMCPY_ASYNC_SQE | CCORE_WAIT_START_SQE
  | CCORE_WRITE_VALUE_SQE | NOTIFY_SQE_V2 | WRITE_VALUE_SQE_V2 | EVENT_SQE_V2 | MEMCPY_ASYNC_SQE_V2
  | RDMA_DB_SEND_SQE | FLIP_PLACEHOLDER_SQE | MEMCPY_ASYNC_SQE_V3 | CACHE_MEMCPY_PLACEHOLDER_SQE
  | CACHE_NOTIFY_PLACEHOLDER_SQE | CACHE_WRITE_VALUE_PLACEHOLDER_SQE | CACHE_MEMCPY_RECORD_PLACEHOLDER_SQE
  | A5_CCORE_NOTIFY_WAIT_SQE | A5_CCORE_NOTIFY_RECORD_SQE

definition RT_STARS_SQE_TYPE_PLACE_HOLDER :: nat where "RT_STARS_SQE_TYPE_PLACE_HOLDER = 3"
definition RT_STARS_SQE_TYPE_EVENT_RECORD :: nat where "RT_STARS_SQE_TYPE_EVENT_RECORD = 4"
definition RT_STARS_SQE_TYPE_EVENT_WAIT :: nat where "RT_STARS_SQE_TYPE_EVENT_WAIT = 5"
definition RT_STARS_SQE_TYPE_NOTIFY_RECORD :: nat where "RT_STARS_SQE_TYPE_NOTIFY_RECORD = 6"
definition RT_STARS_SQE_TYPE_NOTIFY_WAIT :: nat where "RT_STARS_SQE_TYPE_NOTIFY_WAIT = 7"
definition RT_STARS_SQE_TYPE_WRITE_VALUE :: nat where "RT_STARS_SQE_TYPE_WRITE_VALUE = 8"
definition RT_STARS_SQE_TYPE_SDMA :: nat where "RT_STARS_SQE_TYPE_SDMA = 11"
definition RT_STARS_SQE_TYPE_INVALID :: nat where "RT_STARS_SQE_TYPE_INVALID = 63"

definition RT_STARS_WRITE_VALUE_SUB_TYPE_EVENT_RESET :: u32 where "RT_STARS_WRITE_VALUE_SUB_TYPE_EVENT_RESET = 1"
definition RT_STARS_WRITE_VALUE_SUB_TYPE_RDMA_DB_SEND :: u32 where "RT_STARS_WRITE_VALUE_SUB_TYPE_RDMA_DB_SEND = 2"
definition RT_STARS_WRITE_VALUE_SUB_TYPE_NOTIFY_RECORD_IPC_NO_PCIE :: u32 where
  "RT_STARS_WRITE_VALUE_SUB_TYPE_NOTIFY_RECORD_IPC_NO_PCIE = 3"

definition RT_STARS_WRITE_VALUE_SIZE_TYPE_32BIT :: u8 where "RT_STARS_WRITE_VALUE_SIZE_TYPE_32BIT = 2"
definition RT_STARS_WRITE_VALUE_SIZE_TYPE_64BIT :: u8 where "RT_STARS_WRITE_VALUE_SIZE_TYPE_64BIT = 3"

definition kCreditTimeInvalid :: u64 where "kCreditTimeInvalid = 255"
definition kCreditTimeDefault :: u8 where "kCreditTimeDefault = 240"
definition kTimeOutTimeInvalid :: u64 where "kTimeOutTimeInvalid = 0"
definition RT_STARS_NEVER_TIMEOUT_KERNEL_CREDIT :: u8 where "RT_STARS_NEVER_TIMEOUT_KERNEL_CREDIT = 255"
definition RT_STARS_DEFAULT_KERNEL_CREDIT :: u8 where "RT_STARS_DEFAULT_KERNEL_CREDIT = 254"
definition RT_TASK_TYPE_FLIP :: u16 where "RT_TASK_TYPE_FLIP = 98"
definition MASK_32_BIT :: u64 where "MASK_32_BIT = 0xFFFFFFFF"
definition MASK_17_BIT :: u64 where "MASK_17_BIT = 0x1FFFF"
definition SDMA_QOS_DEFAULT :: u32 where "SDMA_QOS_DEFAULT = 6"

text \<open>The fields of the header the functions set; the others stay zero.\<close>

record rtStarsSqeHeader =
  hd_type :: nat
  hd_preP :: bool
  hd_wrCqe :: bool
  hd_blockDim :: u16
  hd_rtStreamId :: u16
  hd_taskId :: u16

definition header :: "nat \<Rightarrow> u16 \<Rightarrow> u16 \<Rightarrow> rtStarsSqeHeader" where
  "header ty streamId taskId =
     \<lparr>hd_type = ty, hd_preP = False, hd_wrCqe = False, hd_blockDim = 0, hd_rtStreamId = streamId, hd_taskId = taskId\<rparr>"

record rtStarsNotifySqeV1 =
  nt_header :: rtStarsSqeHeader
  nt_notify_id :: u32
  nt_kernel_credit :: u8
  nt_timeout :: u32

record rtStarsWriteValueSqe =
  wv_header :: rtStarsSqeHeader
  wv_kernel_credit :: u8
  wv_write_addr_low :: u32
  wv_write_addr_high :: u32
  wv_awsize :: u8
  wv_res7 :: u32
  wv_sub_type :: u32
  wv_write_value_part0 :: u32
  wv_write_value_part1 :: u32
  wv_rdmaWrLenth :: u32
  wv_rdmaType :: u32

record rtStarsEventSqe =
  ev_header :: rtStarsSqeHeader
  ev_eventId :: u16
  ev_kernel_credit :: u8

record rtStarsMemcpyAsyncSqe =
  mc_header :: rtStarsSqeHeader
  mc_kernel_credit :: u8
  mc_opcode :: u8
  mc_attributes :: bool
  mc_qos :: u32
  mc_partid :: u8
  mc_length :: u32
  mc_src_addr_low :: u32
  mc_src_addr_high :: u32
  mc_dst_addr_low :: u32
  mc_dst_addr_high :: u32
  mc_linkType :: u8

record rtCacheMemcpyTaskTag =
  cm_src_addr_low :: u32
  cm_src_addr_high :: u32
  cm_dst_addr_low :: u32
  cm_dst_addr_high :: u32
  cm_kernel_credit :: u8
  cm_linkType :: u8
  cm_qos :: u32

record rtCacheNotifyTaskTag =
  cn_is_wait :: bool
  cn_kernel_credit :: u8
  cn_timeout :: u32
  cn_notify_id :: u32

record rtCacheMemcpyRecordTaskTag =
  cr_length :: u32
  cr_src_addr_low :: u32
  cr_src_addr_high :: u32
  cr_dst_addr_low :: u32
  cr_dst_addr_high :: u32
  cr_opcode :: u8
  cr_partid :: u8
  cr_kernel_credit :: u8
  cr_linkType :: u8
  cr_qos :: u32

datatype placeholder =
    FlipTask u16
  | CacheMemcpyTask rtCacheMemcpyTaskTag
  | CacheNotifyTask rtCacheNotifyTaskTag
  | CacheWriteValueTask u32 u32
  | CacheMemcpyRecordTask rtCacheMemcpyRecordTaskTag

record rtStarsPlaceHolderSqe =
  ph_header :: rtStarsSqeHeader
  ph_kernel_credit :: u8
  ph_u :: placeholder

text \<open>The formats of the 310P; the header fields that no function sets are left out.\<close>

record rtStarsNotifySqeV2 =
  n2_header :: rtStarsSqeHeader
  n2_notify_id :: u32
  n2_kernel_credit :: u8

record rtStarsWriteValueSqeV2 =
  w2_header :: rtStarsSqeHeader
  w2_reg_addr_low :: u32
  w2_reg_addr_high :: u16
  w2_awsize :: u8
  w2_awprot :: u8
  w2_write_val :: u32

record rtStarsEventSqeV2 =
  e2_header :: rtStarsSqeHeader
  e2_event_id :: u16
  e2_kernel_credit :: u8

record rtStarsMemcpyAsyncSqeV2 =
  m2_header :: rtStarsSqeHeader
  m2_kernel_credit :: u8
  m2_opcode :: u8
  m2_attributes :: bool
  m2_qos :: u32
  m2_streamid :: u16
  m2_substreamid :: u16
  m2_length :: u32
  m2_src_addr_low :: u32
  m2_src_addr_high :: u32
  m2_dst_addr_low :: u32
  m2_dst_addr_high :: u32
  m2_overflow_addr_low :: u32
  m2_overflow_addr_high :: u32

text \<open>
  A condition SQE is a program of the scheduler; it is kept as the call that wrote it: waiting
  until the counter at an address has reached the value at another, then clearing it in the
  last turn, and storing the value at an address to another.
\<close>

datatype sqe =
    ZeroSqe
  | NotifySqe rtStarsNotifySqeV1
  | WriteValueSqe rtStarsWriteValueSqe
  | EventSqe rtStarsEventSqe
  | MemcpySqe rtStarsMemcpyAsyncSqe
  | PlaceHolderSqe rtStarsPlaceHolderSqe
  | CcoreWaitStartSqe u16 u16 u64 u64 bool
  | CcoreWriteValueSqe u16 u16 u64 u64
  | NotifySqeV2 rtStarsNotifySqeV2
  | WriteValueSqeV2 rtStarsWriteValueSqeV2
  | EventSqeV2 rtStarsEventSqeV2
  | MemcpySqeV2 rtStarsMemcpyAsyncSqeV2

definition sqe_taskId :: "sqe \<Rightarrow> u16 option" where
  "sqe_taskId e = (case e of
       ZeroSqe \<Rightarrow> None
     | NotifySqe n \<Rightarrow> Some (hd_taskId (nt_header n))
     | WriteValueSqe w \<Rightarrow> Some (hd_taskId (wv_header w))
     | EventSqe v \<Rightarrow> Some (hd_taskId (ev_header v))
     | MemcpySqe m \<Rightarrow> Some (hd_taskId (mc_header m))
     | PlaceHolderSqe p \<Rightarrow> Some (hd_taskId (ph_header p))
     | CcoreWaitStartSqe _ t _ _ _ \<Rightarrow> Some t
     | CcoreWriteValueSqe _ t _ _ \<Rightarrow> Some t
     | NotifySqeV2 n \<Rightarrow> Some (hd_taskId (n2_header n))
     | WriteValueSqeV2 w \<Rightarrow> Some (hd_taskId (w2_header w))
     | EventSqeV2 v \<Rightarrow> Some (hd_taskId (e2_header v))
     | MemcpySqeV2 m \<Rightarrow> Some (hd_taskId (m2_header m)))"

section \<open>Filling an entry\<close>

definition low32 :: "u64 \<Rightarrow> u32" where "low32 a = ucast (a AND MASK_32_BIT)"
definition high32 :: "u64 \<Rightarrow> u32" where "high32 a = ucast (drop_bit 32 a)"
definition high17 :: "u64 \<Rightarrow> u32" where "high17 a = ucast (drop_bit 32 a AND MASK_17_BIT)"
definition notify_bits :: "u64 \<Rightarrow> u32" where "notify_bits n = ucast n AND 0x1FFF"

record DfxTimeOutConfig =
  to_sqeTimeOutTimeOut :: u64
  to_sqeCreditTimeOut :: u64
  to_useCredit :: bool
  to_sqeWaitTimeOut :: u64
  to_sqFullWaitTimeOut :: u64

definition GetTimeOutValue :: "DfxTimeOutConfig \<Rightarrow> u64 \<times> u64" where
  "GetTimeOutValue c =
     (if to_useCredit c then (to_sqeCreditTimeOut c, kTimeOutTimeInvalid)
      else (kCreditTimeInvalid, to_sqeTimeOutTimeOut c))"

definition AddOneNotifyWaitSqeV1 :: "u16 \<Rightarrow> u16 \<Rightarrow> u64 \<Rightarrow> DfxTimeOutConfig \<Rightarrow> SqeType \<times> sqe" where
  "AddOneNotifyWaitSqeV1 streamId taskId notifyId cfg =
     (let (credit, time_out) = GetTimeOutValue cfg in
      (NOTIFY_SQE, NotifySqe \<lparr>nt_header = header RT_STARS_SQE_TYPE_NOTIFY_WAIT streamId taskId,
         nt_notify_id = notify_bits notifyId, nt_kernel_credit = ucast credit, nt_timeout = ucast time_out\<rparr>))"

definition AddOneRecordSqeV1 :: "u16 \<Rightarrow> u16 \<Rightarrow> u64 \<Rightarrow> SqeType \<times> sqe" where
  "AddOneRecordSqeV1 streamId taskId notifyId =
     (NOTIFY_SQE, NotifySqe \<lparr>nt_header = header RT_STARS_SQE_TYPE_NOTIFY_RECORD streamId taskId,
        nt_notify_id = notify_bits notifyId, nt_kernel_credit = RT_STARS_DEFAULT_KERNEL_CREDIT, nt_timeout = 0\<rparr>)"

definition AddOneWriteValueRecordSqeV1 :: "u16 \<Rightarrow> u16 \<Rightarrow> u64 \<Rightarrow> SqeType \<times> sqe" where
  "AddOneWriteValueRecordSqeV1 streamId taskId notifyWRAddr =
     (WRITE_VALUE_SQE, WriteValueSqe \<lparr>wv_header = header RT_STARS_SQE_TYPE_WRITE_VALUE streamId taskId,
        wv_kernel_credit = RT_STARS_DEFAULT_KERNEL_CREDIT, wv_write_addr_low = low32 notifyWRAddr,
        wv_write_addr_high = high17 notifyWRAddr, wv_awsize = RT_STARS_WRITE_VALUE_SIZE_TYPE_32BIT, wv_res7 = 0,
        wv_sub_type = RT_STARS_WRITE_VALUE_SUB_TYPE_NOTIFY_RECORD_IPC_NO_PCIE, wv_write_value_part0 = 1,
        wv_write_value_part1 = 0, wv_rdmaWrLenth = 0, wv_rdmaType = 0\<rparr>)"

text \<open>The kinds of reduction and the element types of the runtime.\<close>

datatype aclrtReduceKind =
    ACL_RT_MEMCPY_SDMA_AUTOMATIC_SUM | ACL_RT_MEMCPY_SDMA_AUTOMATIC_MAX | ACL_RT_MEMCPY_SDMA_AUTOMATIC_MIN
  | ACL_RT_MEMCPY_SDMA_AUTOMATIC_EQUAL | ACL_RT_MEMCPY_INVALID

datatype aclDataType =
    ACL_INT8 | ACL_INT16 | ACL_INT32 | ACL_FLOAT16 | ACL_FLOAT | ACL_UINT8 | ACL_UINT16 | ACL_UINT32 | ACL_BF16
  | ACL_DT_UNDEFINED

definition RT_STARS_MEMCPY_ASYNC_OP_RESERVED :: u8 where "RT_STARS_MEMCPY_ASYNC_OP_RESERVED = 0xF0"

fun ReduceOpcodeHigh :: "aclDataType \<Rightarrow> u8" where
  "ReduceOpcodeHigh ACL_INT8 = 0x00"
| "ReduceOpcodeHigh ACL_INT16 = 0x10"
| "ReduceOpcodeHigh ACL_INT32 = 0x20"
| "ReduceOpcodeHigh ACL_FLOAT16 = 0x60"
| "ReduceOpcodeHigh ACL_FLOAT = 0x70"
| "ReduceOpcodeHigh ACL_BF16 = 0x80"
| "ReduceOpcodeHigh _ = RT_STARS_MEMCPY_ASYNC_OP_RESERVED"

fun ReduceOpcodeLow :: "aclrtReduceKind \<Rightarrow> u8" where
  "ReduceOpcodeLow ACL_RT_MEMCPY_SDMA_AUTOMATIC_SUM = 1"
| "ReduceOpcodeLow ACL_RT_MEMCPY_SDMA_AUTOMATIC_MAX = 2"
| "ReduceOpcodeLow ACL_RT_MEMCPY_SDMA_AUTOMATIC_MIN = 3"
| "ReduceOpcodeLow ACL_RT_MEMCPY_SDMA_AUTOMATIC_EQUAL = 4"
| "ReduceOpcodeLow ACL_RT_MEMCPY_INVALID = RT_STARS_MEMCPY_ASYNC_OP_RESERVED"

definition GetOpcodeForReduce :: "aclrtReduceKind \<Rightarrow> aclDataType \<Rightarrow> u8" where
  "GetOpcodeForReduce kind dt =
     (if ReduceOpcodeHigh dt = RT_STARS_MEMCPY_ASYNC_OP_RESERVED \<or> ReduceOpcodeLow kind = RT_STARS_MEMCPY_ASYNC_OP_RESERVED
      then RT_STARS_MEMCPY_ASYNC_OP_RESERVED else ReduceOpcodeHigh dt OR ReduceOpcodeLow kind)"

definition isReduce :: "aclrtReduceKind \<Rightarrow> bool" where
  "isReduce k \<longleftrightarrow> k = ACL_RT_MEMCPY_SDMA_AUTOMATIC_SUM \<or> k = ACL_RT_MEMCPY_SDMA_AUTOMATIC_MAX \<or>
     k = ACL_RT_MEMCPY_SDMA_AUTOMATIC_MIN \<or> k = ACL_RT_MEMCPY_SDMA_AUTOMATIC_EQUAL"

text \<open>The quality of service of a link; that of the on-chip links is fixed.\<close>

definition LINK_ONCHIP_code :: u8 where "LINK_ONCHIP_code = 0"
definition LINK_SIO_code :: u8 where "LINK_SIO_code = 4"

definition link_qos :: "u8 \<Rightarrow> u32 \<Rightarrow> u32" where
  "link_qos linkType qos = (if linkType = LINK_SIO_code \<or> linkType = LINK_ONCHIP_code then SDMA_QOS_DEFAULT else qos)"

text \<open>
  A copy or reduction; the length is a 32-bit parameter, so a longer one is cut to its low
  bits by the call. An entry with neither length nor addresses takes those of the slot.
\<close>

definition AddOneMemcpySqeV1 ::
  "u16 \<Rightarrow> u16 \<Rightarrow> u64 \<Rightarrow> u32 \<Rightarrow> aclDataType \<Rightarrow> aclrtReduceKind \<Rightarrow> u64 \<Rightarrow> u32 \<Rightarrow> u8 \<Rightarrow> u32 \<Rightarrow> sqe \<Rightarrow> SqeType \<times> sqe" where
  "AddOneMemcpySqeV1 streamId taskId src len dt kind dst partId linkType qos slot =
     (let given = len \<noteq> 0 \<or> src \<noteq> 0 \<or> dst \<noteq> 0;
          old = (case slot of MemcpySqe m \<Rightarrow> (mc_length m, mc_src_addr_low m, mc_src_addr_high m, mc_dst_addr_low m, mc_dst_addr_high m)
                 | _ \<Rightarrow> (0, 0, 0, 0, 0));
          (l, sl, sh, dl, dh) = (if given then (len, low32 src, high32 src, low32 dst, high32 dst) else old) in
      (MEMCPY_ASYNC_SQE, MemcpySqe \<lparr>mc_header = header RT_STARS_SQE_TYPE_SDMA streamId taskId,
         mc_kernel_credit = kCreditTimeDefault, mc_opcode = (if isReduce kind then GetOpcodeForReduce kind dt else 0),
         mc_attributes = True, mc_qos = link_qos linkType qos AND 0xF, mc_partid = ucast partId, mc_length = l,
         mc_src_addr_low = sl, mc_src_addr_high = sh, mc_dst_addr_low = dl, mc_dst_addr_high = dh,
         mc_linkType = linkType\<rparr>))"

text \<open>A doorbell; without an address the entry is marked invalid and the rest left out.\<close>

definition AddOneRdmaDbSendSqeV1 :: "u16 \<Rightarrow> u16 \<Rightarrow> u64 \<Rightarrow> u64 \<Rightarrow> u32 \<Rightarrow> u8 \<Rightarrow> SqeType \<times> sqe" where
  "AddOneRdmaDbSendSqeV1 streamId taskId dbInfo dbAddr len rdmaType =
     (RDMA_DB_SEND_SQE, WriteValueSqe
        (let w = \<lparr>wv_header = header RT_STARS_SQE_TYPE_WRITE_VALUE streamId taskId,
                  wv_kernel_credit = RT_STARS_DEFAULT_KERNEL_CREDIT, wv_write_addr_low = 0, wv_write_addr_high = 0,
                  wv_awsize = RT_STARS_WRITE_VALUE_SIZE_TYPE_64BIT, wv_res7 = 0,
                  wv_sub_type = RT_STARS_WRITE_VALUE_SUB_TYPE_RDMA_DB_SEND, wv_write_value_part0 = 0,
                  wv_write_value_part1 = 0, wv_rdmaWrLenth = 0, wv_rdmaType = 0\<rparr> in
         if dbAddr = 0 then w\<lparr>wv_header := header RT_STARS_SQE_TYPE_INVALID streamId taskId\<rparr>
         else w\<lparr>wv_write_value_part0 := low32 dbInfo, wv_write_value_part1 := high32 dbInfo,
                wv_write_addr_low := low32 dbAddr, wv_write_addr_high := high17 dbAddr,
                wv_rdmaWrLenth := len, wv_rdmaType := ucast rdmaType\<rparr>))"

definition event_address :: "u64 \<Rightarrow> u64 \<Rightarrow> u64 \<Rightarrow> u64" where
  "event_address eventId phyChipId phyDieId =
     (0x06a0000000 + 0x80000000000 * phyChipId + 0x10000000000 * phyDieId + 0x200000) +
       (eventId div 4096) * 0x10000 + (eventId AND 0xFFF) * 4"

definition AddOneEventResetSqeV1 :: "u16 \<Rightarrow> u32 \<Rightarrow> u16 \<Rightarrow> u64 \<Rightarrow> u64 \<Rightarrow> SqeType \<times> sqe" where
  "AddOneEventResetSqeV1 streamId eventId taskId phyChipId phyDieId =
     (WRITE_VALUE_SQE, WriteValueSqe \<lparr>wv_header = header RT_STARS_SQE_TYPE_WRITE_VALUE streamId taskId,
        wv_kernel_credit = RT_STARS_DEFAULT_KERNEL_CREDIT,
        wv_write_addr_low = low32 (event_address (scast eventId) phyChipId phyDieId),
        wv_write_addr_high = high17 (event_address (scast eventId) phyChipId phyDieId), wv_awsize = 0,
        wv_res7 = eventId, wv_sub_type = RT_STARS_WRITE_VALUE_SUB_TYPE_EVENT_RESET, wv_write_value_part0 = 0,
        wv_write_value_part1 = 0, wv_rdmaWrLenth = 0, wv_rdmaType = 0\<rparr>)"

definition AddOneEventRecordSqeV1 :: "u16 \<Rightarrow> u32 \<Rightarrow> u16 \<Rightarrow> SqeType \<times> sqe" where
  "AddOneEventRecordSqeV1 streamId eventId taskId =
     (EVENT_SQE, EventSqe \<lparr>ev_header = (header RT_STARS_SQE_TYPE_EVENT_RECORD streamId taskId)\<lparr>hd_wrCqe := True\<rparr>,
        ev_eventId = ucast eventId, ev_kernel_credit = RT_STARS_DEFAULT_KERNEL_CREDIT\<rparr>)"

definition AddOneEventWaitSqeV1 :: "u16 \<Rightarrow> u32 \<Rightarrow> u16 \<Rightarrow> SqeType \<times> sqe" where
  "AddOneEventWaitSqeV1 streamId eventId taskId =
     (EVENT_SQE, EventSqe \<lparr>ev_header = header RT_STARS_SQE_TYPE_EVENT_WAIT streamId taskId,
        ev_eventId = ucast eventId, ev_kernel_credit = RT_STARS_NEVER_TIMEOUT_KERNEL_CREDIT\<rparr>)"

section \<open>Placeholders\<close>

definition AddOneFlipPlaceHolderSqeV1 :: "u16 \<Rightarrow> u16 \<Rightarrow> u16 \<Rightarrow> SqeType \<times> sqe" where
  "AddOneFlipPlaceHolderSqeV1 streamId flipNum taskId =
     (FLIP_PLACEHOLDER_SQE, PlaceHolderSqe
        \<lparr>ph_header = (header RT_STARS_SQE_TYPE_PLACE_HOLDER streamId taskId)\<lparr>hd_preP := True, hd_blockDim := RT_TASK_TYPE_FLIP\<rparr>,
         ph_kernel_credit = RT_STARS_DEFAULT_KERNEL_CREDIT, ph_u = FlipTask flipNum\<rparr>)"

definition SetCachePlaceholderHeaderV1 :: "u16 \<Rightarrow> u16 \<Rightarrow> placeholder \<Rightarrow> sqe" where
  "SetCachePlaceholderHeaderV1 streamId taskId u =
     PlaceHolderSqe \<lparr>ph_header = (header RT_STARS_SQE_TYPE_PLACE_HOLDER streamId taskId)\<lparr>hd_blockDim := RT_TASK_TYPE_FLIP\<rparr>,
       ph_kernel_credit = RT_STARS_DEFAULT_KERNEL_CREDIT, ph_u = u\<rparr>"

definition AddOneCacheMemcpyPlaceHolderSqeV1 :: "u16 \<Rightarrow> u16 \<Rightarrow> u64 \<Rightarrow> u64 \<Rightarrow> u8 \<Rightarrow> u32 \<Rightarrow> SqeType \<times> sqe" where
  "AddOneCacheMemcpyPlaceHolderSqeV1 streamId taskId src dst linkType qos =
     (CACHE_MEMCPY_PLACEHOLDER_SQE, SetCachePlaceholderHeaderV1 streamId taskId (CacheMemcpyTask
        \<lparr>cm_src_addr_low = low32 src, cm_src_addr_high = high32 src, cm_dst_addr_low = low32 dst,
         cm_dst_addr_high = high32 dst, cm_kernel_credit = kCreditTimeDefault, cm_linkType = linkType,
         cm_qos = link_qos linkType qos\<rparr>))"

definition AddOneCacheNotifyWaitPlaceholderSqeV1 :: "u16 \<Rightarrow> u16 \<Rightarrow> u64 \<Rightarrow> DfxTimeOutConfig \<Rightarrow> SqeType \<times> sqe" where
  "AddOneCacheNotifyWaitPlaceholderSqeV1 streamId taskId notifyId cfg =
     (let (credit, time_out) = GetTimeOutValue cfg in
      (CACHE_NOTIFY_PLACEHOLDER_SQE, SetCachePlaceholderHeaderV1 streamId taskId (CacheNotifyTask
        \<lparr>cn_is_wait = True, cn_kernel_credit = ucast credit, cn_timeout = ucast time_out, cn_notify_id = ucast notifyId\<rparr>)))"

definition AddOneCacheNotifyRecordPlaceholderSqeV1 :: "u16 \<Rightarrow> u16 \<Rightarrow> u64 \<Rightarrow> SqeType \<times> sqe" where
  "AddOneCacheNotifyRecordPlaceholderSqeV1 streamId taskId notifyId =
     (CACHE_NOTIFY_PLACEHOLDER_SQE, SetCachePlaceholderHeaderV1 streamId taskId (CacheNotifyTask
        \<lparr>cn_is_wait = False, cn_kernel_credit = 0, cn_timeout = 0, cn_notify_id = ucast notifyId\<rparr>))"

definition AddOneCacheWriteValuePlaceholderSqeV1 :: "u16 \<Rightarrow> u16 \<Rightarrow> u64 \<Rightarrow> SqeType \<times> sqe" where
  "AddOneCacheWriteValuePlaceholderSqeV1 streamId taskId notifyWRAddr =
     (CACHE_WRITE_VALUE_PLACEHOLDER_SQE, SetCachePlaceholderHeaderV1 streamId taskId
        (CacheWriteValueTask (low32 notifyWRAddr) (high17 notifyWRAddr)))"

definition AddOneCacheMemcpyRecordPlaceholderSqeV1 ::
  "u16 \<Rightarrow> u16 \<Rightarrow> u64 \<Rightarrow> u32 \<Rightarrow> aclDataType \<Rightarrow> aclrtReduceKind \<Rightarrow> u64 \<Rightarrow> u32 \<Rightarrow> u8 \<Rightarrow> u32 \<Rightarrow> sqe \<Rightarrow> SqeType \<times> sqe" where
  "AddOneCacheMemcpyRecordPlaceholderSqeV1 streamId taskId src len dt kind dst partId linkType qos slot =
     (let given = len \<noteq> 0 \<or> src \<noteq> 0 \<or> dst \<noteq> 0;
          old = (case slot of PlaceHolderSqe p \<Rightarrow>
                    (case ph_u p of CacheMemcpyRecordTask c \<Rightarrow>
                        (cr_length c, cr_src_addr_low c, cr_src_addr_high c, cr_dst_addr_low c, cr_dst_addr_high c)
                      | _ \<Rightarrow> (0, 0, 0, 0, 0))
                  | _ \<Rightarrow> (0, 0, 0, 0, 0));
          (l, sl, sh, dl, dh) = (if given then (len, low32 src, high32 src, low32 dst, high32 dst) else old) in
      (CACHE_MEMCPY_RECORD_PLACEHOLDER_SQE, SetCachePlaceholderHeaderV1 streamId taskId (CacheMemcpyRecordTask
        \<lparr>cr_length = l, cr_src_addr_low = sl, cr_src_addr_high = sh, cr_dst_addr_low = dl, cr_dst_addr_high = dh,
         cr_opcode = (if isReduce kind then GetOpcodeForReduce kind dt else 0), cr_partid = ucast partId,
         cr_kernel_credit = kCreditTimeDefault, cr_linkType = linkType, cr_qos = link_qos linkType qos\<rparr>)))"

section \<open>The condition programs\<close>

text \<open>Appended to a stream directly, with the counter's value read from its address.\<close>

definition AddOneWaitStartSqe :: "u16 \<Rightarrow> u16 \<Rightarrow> u64 \<Rightarrow> u64 \<Rightarrow> bool \<Rightarrow> SqeType \<times> sqe" where
  "AddOneWaitStartSqe streamId taskId waitAddr curTurnCntAddr isLast =
     (CCORE_WAIT_START_SQE, CcoreWaitStartSqe streamId taskId waitAddr curTurnCntAddr isLast)"

definition AddOneWriteValueStartSqe :: "u16 \<Rightarrow> u16 \<Rightarrow> u64 \<Rightarrow> u64 \<Rightarrow> SqeType \<times> sqe" where
  "AddOneWriteValueStartSqe streamId taskId writeAddr valueAddr =
     (CCORE_WRITE_VALUE_SQE, CcoreWriteValueSqe streamId taskId writeAddr valueAddr)"

section \<open>The formats of the 310P\<close>

definition AddOneNotifyWaitSqeV2 :: "u16 \<Rightarrow> u16 \<Rightarrow> u64 \<Rightarrow> DfxTimeOutConfig \<Rightarrow> SqeType \<times> sqe" where
  "AddOneNotifyWaitSqeV2 streamId taskId notifyId cfg =
     (NOTIFY_SQE_V2, NotifySqeV2 \<lparr>n2_header = header RT_STARS_SQE_TYPE_NOTIFY_WAIT streamId taskId,
        n2_notify_id = ucast notifyId AND 0x3FF, n2_kernel_credit = RT_STARS_NEVER_TIMEOUT_KERNEL_CREDIT\<rparr>)"

definition AddOneRecordSqeV2 :: "u16 \<Rightarrow> u16 \<Rightarrow> u64 \<Rightarrow> SqeType \<times> sqe" where
  "AddOneRecordSqeV2 streamId taskId notifyId =
     (NOTIFY_SQE_V2, NotifySqeV2 \<lparr>n2_header = header RT_STARS_SQE_TYPE_NOTIFY_RECORD streamId taskId,
        n2_notify_id = ucast notifyId AND 0x3FF, n2_kernel_credit = RT_STARS_DEFAULT_KERNEL_CREDIT\<rparr>)"

definition AddOneWriteValueRecordSqeV2 :: "u16 \<Rightarrow> u16 \<Rightarrow> u64 \<Rightarrow> SqeType \<times> sqe" where
  "AddOneWriteValueRecordSqeV2 streamId taskId notifyWRAddr =
     (WRITE_VALUE_SQE_V2, WriteValueSqeV2 \<lparr>w2_header = header RT_STARS_SQE_TYPE_WRITE_VALUE streamId taskId,
        w2_reg_addr_low = low32 notifyWRAddr, w2_reg_addr_high = ucast (drop_bit 32 notifyWRAddr),
        w2_awsize = RT_STARS_WRITE_VALUE_SIZE_TYPE_64BIT, w2_awprot = 2, w2_write_val = 1\<rparr>)"

definition RT_HW_STARS_SQE_TYPE_SDMA :: nat where "RT_HW_STARS_SQE_TYPE_SDMA = 9"

fun ReduceOpcode :: "aclDataType \<Rightarrow> u8" where
  "ReduceOpcode ACL_INT16 = 1"
| "ReduceOpcode ACL_FLOAT16 = 3"
| "ReduceOpcode _ = 2"

definition AddOneMemcpySqeV2 ::
  "u16 \<Rightarrow> u16 \<Rightarrow> u64 \<Rightarrow> u32 \<Rightarrow> aclDataType \<Rightarrow> aclrtReduceKind \<Rightarrow> u64 \<Rightarrow> u32 \<Rightarrow> u32 \<Rightarrow> u64 \<Rightarrow> u8 \<Rightarrow> u32 \<Rightarrow> SqeType \<times> sqe" where
  "AddOneMemcpySqeV2 streamId taskId src len dt kind dst ssid devId overflowAddr linkType qos =
     (MEMCPY_ASYNC_SQE_V2, MemcpySqeV2 \<lparr>m2_header = header RT_HW_STARS_SQE_TYPE_SDMA streamId taskId,
        m2_kernel_credit = RT_STARS_NEVER_TIMEOUT_KERNEL_CREDIT,
        m2_opcode = (if kind = ACL_RT_MEMCPY_SDMA_AUTOMATIC_SUM then ReduceOpcode dt else 0),
        m2_attributes = True, m2_qos = link_qos linkType qos AND 0xF,
        m2_streamid = (if devId = 0 then 0x7F45 else 0xBF45), m2_substreamid = ucast ssid, m2_length = len,
        m2_src_addr_low = low32 src, m2_src_addr_high = high32 src, m2_dst_addr_low = low32 dst,
        m2_dst_addr_high = high32 dst, m2_overflow_addr_low = low32 overflowAddr,
        m2_overflow_addr_high = high32 overflowAddr\<rparr>)"

definition AddOneEventResetSqeV2 :: "u16 \<Rightarrow> u32 \<Rightarrow> u16 \<Rightarrow> u64 \<Rightarrow> SqeType \<times> sqe" where
  "AddOneEventResetSqeV2 streamId eventId taskId addr =
     (WRITE_VALUE_SQE_V2, WriteValueSqeV2 \<lparr>w2_header = header RT_STARS_SQE_TYPE_WRITE_VALUE streamId taskId,
        w2_reg_addr_low = low32 addr, w2_reg_addr_high = ucast (drop_bit 32 addr AND MASK_17_BIT),
        w2_awsize = RT_STARS_WRITE_VALUE_SIZE_TYPE_64BIT, w2_awprot = 2, w2_write_val = 0\<rparr>)"

definition AddOneEventRecordSqeV2 :: "u16 \<Rightarrow> u32 \<Rightarrow> u16 \<Rightarrow> SqeType \<times> sqe" where
  "AddOneEventRecordSqeV2 streamId eventId taskId =
     (EVENT_SQE_V2, EventSqeV2 \<lparr>e2_header = header RT_STARS_SQE_TYPE_EVENT_RECORD streamId taskId,
        e2_event_id = ucast eventId AND 0x3FF, e2_kernel_credit = RT_STARS_DEFAULT_KERNEL_CREDIT\<rparr>)"

definition AddOneEventWaitSqeV2 :: "u16 \<Rightarrow> u32 \<Rightarrow> u16 \<Rightarrow> SqeType \<times> sqe" where
  "AddOneEventWaitSqeV2 streamId eventId taskId =
     (EVENT_SQE_V2, EventSqeV2 \<lparr>e2_header = header RT_STARS_SQE_TYPE_EVENT_WAIT streamId taskId,
        e2_event_id = ucast eventId AND 0x3FF, e2_kernel_credit = RT_STARS_NEVER_TIMEOUT_KERNEL_CREDIT\<rparr>)"

end
