(* ===== verification/SqeRing.thy ===== *)
theory SqeRing
  imports Sqe
begin

text \<open>
  A stream's ring of submission queue entries: the AICPU collects entries in a local buffer
  and launches them in batches into the hardware's ring (the RTSQ), which the task scheduler
  empties at its own pace. The state keeps, by stream, the local buffers with their counters
  and the hardware ring with the entries already executed; the scheduler runs whenever the
  code asks the driver for the ring's head. The counters of 16 bits that stay below the size
  of the buffer are naturals; the task number and the number of its wrap-arounds are words.
\<close>

section \<open>State\<close>

definition HCCL_SQE_MAX_CNT :: nat where "HCCL_SQE_MAX_CNT = 2048"
definition HCCL_PER_LAUNCH_SQE_CNT :: nat where "HCCL_PER_LAUNCH_SQE_CNT = 128"
definition INVALID_VALUE_RANKID :: u32 where "INVALID_VALUE_RANKID = 0xFFFFFFFF"
definition NANOSECOND_TO_SECOND :: u64 where "NANOSECOND_TO_SECOND = 1000000000"
definition kSqFullWaitTimeOut :: u64 where "kSqFullWaitTimeOut = 60"

record AicpuDfxInfo =
  df_remoteRank :: u32
  df_opRingBufferIdx :: u32
  df_notifyId :: u32

record SqeRingBuffer =
  rb_localBuff :: "nat \<Rightarrow> sqe"
  rb_rtsMirrorBuffer :: "nat \<Rightarrow> sqe"
  rb_rtsqSqeType :: "nat \<Rightarrow> SqeType"
  rb_sqeType :: "nat \<Rightarrow> SqeType"
  rb_dfxInfo :: "nat \<Rightarrow> AicpuDfxInfo"
  rb_rtsDfxInfo :: "nat \<Rightarrow> AicpuDfxInfo"
  rb_addInfo :: "nat \<Rightarrow> u32"
  rb_tailSqeTaskId :: u16
  rb_tailSqeIdx :: nat
  rb_sqeCnt :: nat
  rb_sqHead :: nat
  rb_sqTail :: nat
  rb_filpNum :: u16

text \<open>The hardware ring, its registers, and the entries the scheduler has executed.\<close>

record rtsq =
  q_ring :: "nat \<Rightarrow> sqe"
  q_head :: nat
  q_tail :: nat
  q_done :: "sqe list"

type_synonym cached_sqe = "sqe \<times> SqeType \<times> AicpuDfxInfo"

record device =
  d_depth :: "nat \<Rightarrow> nat"
  d_ctx :: "nat \<Rightarrow> SqeRingBuffer option"
  d_hw :: "nat \<Rightarrow> rtsq"
  d_streamMap :: "nat list"
  d_needAddSqe :: bool
  d_cache :: "(nat \<times> cached_sqe list) list"
  d_now :: nat
  d_dfxTimeOut :: DfxTimeOutConfig

text \<open>
  The environment, by the number of driver calls so far: the results of reading the head,
  moving the tail and growing the cache, how many entries the scheduler has executed since the
  last call, the clock in nanoseconds, and the answer of the exception call-back.
\<close>

record launch_env =
  e_query :: "nat \<Rightarrow> HcclResult"
  e_config :: "nat \<Rightarrow> HcclResult"
  e_cache :: "nat \<Rightarrow> HcclResult"
  e_executed :: "nat \<Rightarrow> nat \<Rightarrow> nat"
  e_time :: "nat \<Rightarrow> u64"
  e_status :: "nat \<Rightarrow> HcclResult"

definition used :: "nat \<Rightarrow> nat \<Rightarrow> nat \<Rightarrow> nat" where
  "used depth head tail = (tail + depth - head) mod depth"

definition hw_step :: "nat \<Rightarrow> nat \<Rightarrow> rtsq \<Rightarrow> rtsq" where
  "hw_step depth k q =
     (let n = min k (used depth (q_head q) (q_tail q)) in
      q\<lparr>q_done := q_done q @ map (\<lambda>i. q_ring q ((q_head q + i) mod depth)) [0..<n],
        q_head := (q_head q + n) mod depth\<rparr>)"

definition environment_step :: "launch_env \<Rightarrow> device \<Rightarrow> device" where
  "environment_step E d =
     d\<lparr>d_hw := (\<lambda>s. hw_step (d_depth d s) (e_executed E (d_now d) s) (d_hw d s)), d_now := Suc (d_now d)\<rparr>"

definition QuerySqHead :: "launch_env \<Rightarrow> nat \<Rightarrow> device \<Rightarrow> HcclResult \<times> nat \<times> device" where
  "QuerySqHead E s d = (let d' = environment_step E d in (e_query E (d_now d), q_head (d_hw d' s), d'))"

definition set_ctx :: "nat \<Rightarrow> SqeRingBuffer \<Rightarrow> device \<Rightarrow> device" where
  "set_ctx s b d = d\<lparr>d_ctx := (d_ctx d)(s \<mapsto> b)\<rparr>"

definition set_hw :: "nat \<Rightarrow> rtsq \<Rightarrow> device \<Rightarrow> device" where
  "set_hw s q d = d\<lparr>d_hw := (d_hw d)(s := q)\<rparr>"

section \<open>Launching a batch\<close>

text \<open>Copying \<open>n\<close> elements, at once or in two parts at the end of a ring.\<close>

definition copy_into :: "nat \<Rightarrow> (nat \<Rightarrow> 'a) \<Rightarrow> nat \<Rightarrow> nat \<Rightarrow> (nat \<Rightarrow> 'a) \<Rightarrow> nat \<Rightarrow> 'a" where
  "copy_into off src from n dst = (\<lambda>i. if off \<le> i \<and> i < off + n then src (from + (i - off)) else dst i)"

definition ring_copy :: "nat \<Rightarrow> nat \<Rightarrow> nat \<Rightarrow> (nat \<Rightarrow> 'a) \<Rightarrow> nat \<Rightarrow> (nat \<Rightarrow> 'a) \<Rightarrow> nat \<Rightarrow> 'a" where
  "ring_copy depth tail cnt src from dst =
     (let left = depth - tail in
      if cnt \<le> left then copy_into tail src from cnt dst
      else copy_into 0 src (from + left) (cnt - left) (copy_into tail src from left dst))"

text \<open>The entries other than flip placeholders are copied to the cache in segments.\<close>

fun copy_segments :: "nat list \<Rightarrow> nat \<Rightarrow> nat \<Rightarrow> nat \<Rightarrow> (nat \<times> nat \<times> nat) list" where
  "copy_segments [] cacheStart bufStart cnt =
     (if bufStart < cnt then [(cacheStart, bufStart, cnt - bufStart)] else [])"
| "copy_segments (p # ps) cacheStart bufStart cnt =
     (if p \<le> bufStart then copy_segments ps cacheStart (p + 1) cnt
      else (cacheStart, bufStart, p - bufStart) # copy_segments ps (cacheStart + (p - bufStart)) (p + 1) cnt)"

definition cached_array :: "(nat \<Rightarrow> cached_sqe) \<Rightarrow> nat \<Rightarrow> cached_sqe list" where
  "cached_array src cnt =
     (let placeholders = filter (\<lambda>i. fst (snd (src i)) = FLIP_PLACEHOLDER_SQE) [0..<cnt];
          cacheable = cnt - length placeholders in
      map (fold (\<lambda>(c, b, n). copy_into c src b n) (copy_segments placeholders 0 0 cnt) (\<lambda>_. src 0)) [0..<cacheable])"

text \<open>The test for room, in \<open>u32\<close> arithmetic; an empty ring always has room.\<close>

definition rtsq_full :: "nat \<Rightarrow> SqeRingBuffer \<Rightarrow> nat \<Rightarrow> bool" where
  "rtsq_full depth b cnt \<longleftrightarrow>
     depth \<le> w32 (sub32 (w32 ((if rb_sqTail b < rb_sqHead b then depth else 0) + rb_sqTail b)) (rb_sqHead b) + cnt) \<and>
     rb_sqTail b \<noteq> rb_sqHead b"

definition AddToCache :: "launch_env \<Rightarrow> nat \<Rightarrow> SqeRingBuffer \<Rightarrow> device \<Rightarrow> HcclResult \<times> device" where
  "AddToCache E s b d =
     (if \<not> d_needAddSqe d then (HCCL_SUCCESS, d)
      else let from = rb_tailSqeIdx b - rb_sqeCnt b;
               r = e_cache E (d_now d);
               src = (\<lambda>i. (rb_localBuff b (from + i), rb_sqeType b (from + i), rb_dfxInfo b (from + i))) in
        if r \<noteq> HCCL_SUCCESS then (r, d)
        else (HCCL_SUCCESS, d\<lparr>d_cache := d_cache d @ [(s, cached_array src (rb_sqeCnt b))]\<rparr>))"

text \<open>Writing the entries into the ring and its mirror; the tail is not moved yet.\<close>

definition write_ring :: "nat \<Rightarrow> (nat \<Rightarrow> sqe) \<Rightarrow> (nat \<Rightarrow> SqeType) \<Rightarrow> (nat \<Rightarrow> AicpuDfxInfo) \<Rightarrow> nat \<Rightarrow> nat \<Rightarrow> SqeRingBuffer \<Rightarrow>
    device \<Rightarrow> SqeRingBuffer \<times> device" where
  "write_ring s sqes types dfxs from cnt b d =
     (let depth = d_depth d s; tail = rb_sqTail b; q = d_hw d s;
          b' = b\<lparr>rb_rtsMirrorBuffer := ring_copy depth tail cnt sqes from (rb_rtsMirrorBuffer b),
                 rb_rtsqSqeType := ring_copy depth tail cnt types from (rb_rtsqSqeType b),
                 rb_rtsDfxInfo := ring_copy depth tail cnt dfxs from (rb_rtsDfxInfo b)\<rparr> in
      (b', set_ctx s b' (set_hw s (q\<lparr>q_ring := ring_copy depth tail cnt sqes from (q_ring q)\<rparr>) d)))"

text \<open>Moving the tail, in the hardware and in the stream.\<close>

definition move_tail :: "launch_env \<Rightarrow> nat \<Rightarrow> nat \<Rightarrow> SqeRingBuffer \<Rightarrow> device \<Rightarrow> HcclResult \<times> device" where
  "move_tail E s cnt b d =
     (let newTail = w32 (rb_sqTail b + cnt) mod d_depth d s; r = e_config E (d_now d) in
      if r \<noteq> HCCL_SUCCESS then (r, d)
      else (HCCL_SUCCESS, set_ctx s (b\<lparr>rb_sqTail := newTail\<rparr>) (set_hw s ((d_hw d s)\<lparr>q_tail := newTail\<rparr>) d)))"

definition clear_count :: "nat \<Rightarrow> device \<Rightarrow> HcclResult \<times> device" where
  "clear_count s d =
     (case d_ctx d s of None \<Rightarrow> (HCCL_E_PTR, d) | Some b \<Rightarrow> (HCCL_SUCCESS, set_ctx s (b\<lparr>rb_sqeCnt := 0\<rparr>) d))"

definition launch_now :: "launch_env \<Rightarrow> nat \<Rightarrow> SqeRingBuffer \<Rightarrow> device \<Rightarrow> HcclResult \<times> device" where
  "launch_now E s b d =
     (let (b', d') = write_ring s (rb_localBuff b) (rb_sqeType b) (rb_dfxInfo b) (rb_tailSqeIdx b - rb_sqeCnt b)
                       (rb_sqeCnt b) b d in
      chk_ret (AddToCache E s b' d') (\<lambda>d. chk_ret (move_tail E s (rb_sqeCnt b) b' d) (clear_count s)))"

definition LaunchTask_nonblocking :: "launch_env \<Rightarrow> nat \<Rightarrow> device \<Rightarrow> HcclResult \<times> device" where
  "LaunchTask_nonblocking E s d =
     (case d_ctx d s of
        None \<Rightarrow> (HCCL_E_PTR, d)
      | Some b \<Rightarrow>
          if rb_sqeCnt b = 0 then (HCCL_SUCCESS, d)
          else if d_depth d s < rb_sqeCnt b then (HCCL_E_PTR, d)
          else if rtsq_full (d_depth d s) b (rb_sqeCnt b) then
            let (r, h, d') = QuerySqHead E s d in
            if r \<noteq> HCCL_SUCCESS then (r, d') else (HCCL_SUCCESS, set_ctx s (b\<lparr>rb_sqHead := h\<rparr>) d')
          else launch_now E s b d)"

fun launch_others :: "launch_env \<Rightarrow> nat \<Rightarrow> nat list \<Rightarrow> device \<Rightarrow> HcclResult \<times> device" where
  "launch_others E s [] d = (HCCL_SUCCESS, d)"
| "launch_others E s (t # ts) d =
     (if t = s then launch_others E s ts d else chk_ret (LaunchTask_nonblocking E t d) (launch_others E s ts))"

text \<open>
  Waiting for room for \<open>cnt\<close> entries: one turn of the loop for each unit of fuel; without
  fuel left the loop is still waiting. The other streams are launched meanwhile.
\<close>

fun wait_space :: "launch_env \<Rightarrow> nat \<Rightarrow> nat \<Rightarrow> u64 \<Rightarrow> nat \<Rightarrow> device \<Rightarrow> (HcclResult \<times> device) option" where
  "wait_space E fuel cnt startTime s d =
     (case d_ctx d s of
        None \<Rightarrow> Some (HCCL_E_PTR, d)
      | Some b \<Rightarrow>
          if \<not> rtsq_full (d_depth d s) b cnt then Some (HCCL_SUCCESS, d)
          else case fuel of
              0 \<Rightarrow> None
            | Suc n \<Rightarrow>
                let (r, h, d1) = QuerySqHead E s d in
                if r \<noteq> HCCL_SUCCESS then Some (r, d1)
                else let (r, d2) = launch_others E s (d_streamMap d1) (set_ctx s (b\<lparr>rb_sqHead := h\<rparr>) d1) in
                  if r \<noteq> HCCL_SUCCESS then Some (r, d2)
                  else if to_sqFullWaitTimeOut (d_dfxTimeOut d2) \<noteq> 0 \<and>
                      e_time E (d_now d2) - startTime > NANOSECOND_TO_SECOND * to_sqFullWaitTimeOut (d_dfxTimeOut d2)
                    then Some (HCCL_E_AGAIN, d2)
                  else if e_status E (d_now d2) \<noteq> HCCL_SUCCESS then Some (e_status E (d_now d2), d2)
                  else wait_space E n cnt startTime s d2)"

declare wait_space.simps [simp del]

definition launch_if_ready :: "launch_env \<Rightarrow> nat \<Rightarrow> device \<Rightarrow> HcclResult \<times> device" where
  "launch_if_ready E s d = (case d_ctx d s of None \<Rightarrow> (HCCL_E_PTR, d) | Some b \<Rightarrow> launch_now E s b d)"

definition chk_opt :: "(HcclResult \<times> 's) option \<Rightarrow> ('s \<Rightarrow> (HcclResult \<times> 's) option) \<Rightarrow> (HcclResult \<times> 's) option" where
  "chk_opt m k = (case m of None \<Rightarrow> None | Some (r, s) \<Rightarrow> if r = HCCL_SUCCESS then k s else Some (r, s))"

definition LaunchTask :: "launch_env \<Rightarrow> nat \<Rightarrow> nat \<Rightarrow> device \<Rightarrow> (HcclResult \<times> device) option" where
  "LaunchTask E fuel s d =
     (case d_ctx d s of
        None \<Rightarrow> Some (HCCL_E_PTR, d)
      | Some b \<Rightarrow>
          if rb_sqeCnt b = 0 then Some (HCCL_SUCCESS, d)
          else if d_depth d s < rb_sqeCnt b then Some (HCCL_E_PTR, d)
          else chk_opt (wait_space E fuel (rb_sqeCnt b) (e_time E (d_now d)) s d)
                 (\<lambda>d. Some (launch_if_ready E s d)))"

fun LaunchTasks :: "launch_env \<Rightarrow> nat \<Rightarrow> nat list \<Rightarrow> device \<Rightarrow> (HcclResult \<times> device) option" where
  "LaunchTasks E fuel [] d = Some (HCCL_SUCCESS, d)"
| "LaunchTasks E fuel (s # ss) d = chk_opt (LaunchTask E fuel s d) (LaunchTasks E fuel ss)"

definition LaunchTasksEx :: "launch_env \<Rightarrow> nat \<Rightarrow> nat \<Rightarrow> nat list \<Rightarrow> device \<Rightarrow> (HcclResult \<times> device) option" where
  "LaunchTasksEx E fuel s subStreams d = LaunchTasks E fuel (s # subStreams) d"

definition LaunchAllTasks :: "launch_env \<Rightarrow> nat \<Rightarrow> device \<Rightarrow> (HcclResult \<times> device) option" where
  "LaunchAllTasks E fuel d = LaunchTasks E fuel (d_streamMap d) d"

section \<open>Launching entries from elsewhere\<close>

definition WaitRtsq :: "launch_env \<Rightarrow> nat \<Rightarrow> nat \<Rightarrow> nat \<Rightarrow> device \<Rightarrow> (HcclResult \<times> device) option" where
  "WaitRtsq E fuel s sqeCount d =
     (if sqeCount = 0 then Some (HCCL_SUCCESS, d)
      else if d_depth d s < sqeCount then Some (HCCL_E_PTR, d)
      else wait_space E fuel sqeCount (e_time E (d_now d)) s d)"

definition MemcpyRtsq :: "launch_env \<Rightarrow> nat \<Rightarrow> cached_sqe list \<Rightarrow> device \<Rightarrow> HcclResult \<times> device" where
  "MemcpyRtsq E s sqes d =
     (if length sqes = 0 then (HCCL_SUCCESS, d)
      else if d_depth d s < length sqes then (HCCL_E_PTR, d)
      else case d_ctx d s of
          None \<Rightarrow> (HCCL_E_PTR, d)
        | Some b \<Rightarrow>
            let src = (\<lambda>i. sqes ! i);
                (b', d') = write_ring s (\<lambda>i. fst (src i)) (\<lambda>i. fst (snd (src i))) (\<lambda>i. snd (snd (src i))) 0
                             (length sqes) b d in
            move_tail E s (length sqes) b' d')"

section \<open>Taking an entry of the local buffer\<close>

text \<open>Clearing the first \<open>n\<close> bytes of an array of 32-bit words, low byte first.\<close>

definition clear_bytes :: "nat \<Rightarrow> (nat \<Rightarrow> u32) \<Rightarrow> nat \<Rightarrow> u32" where
  "clear_bytes n f = (\<lambda>i. if 4 * i + 4 \<le> n then 0
     else if 4 * i < n then push_bit (8 * (n - 4 * i)) (drop_bit (8 * (n - 4 * i)) (f i)) else f i)"

definition ClearLocalBuff :: "nat \<Rightarrow> device \<Rightarrow> HcclResult \<times> device" where
  "ClearLocalBuff s d =
     (case d_ctx d s of
        None \<Rightarrow> (HCCL_E_PTR, d)
      | Some b \<Rightarrow> (HCCL_SUCCESS, set_ctx s
          (b\<lparr>rb_localBuff := (\<lambda>i. if i < rb_tailSqeIdx b then ZeroSqe else rb_localBuff b i),
             rb_sqeType := (\<lambda>i. if i < rb_tailSqeIdx b then SQE_TYPE_DEFAULT else rb_sqeType b i),
             rb_addInfo := clear_bytes (rb_tailSqeIdx b) (rb_addInfo b),
             rb_sqeCnt := 0, rb_tailSqeIdx := 0\<rparr>) d))"

text \<open>The next entry: its index in the local buffer and its task number.\<close>

definition GetNextSqeBufferAddr :: "nat \<Rightarrow> device \<Rightarrow> (HcclResult \<times> device) \<times> nat \<times> u16" where
  "GetNextSqeBufferAddr s d =
     (case d_ctx d s of
        None \<Rightarrow> ((HCCL_E_INTERNAL, d), 0, 0)
      | Some b \<Rightarrow>
          if HCCL_SQE_MAX_CNT \<le> rb_tailSqeIdx b \<and> rb_sqeCnt b \<noteq> 0 then ((HCCL_E_INTERNAL, d), 0, 0)
          else let d1 = (if HCCL_SQE_MAX_CNT \<le> rb_tailSqeIdx b then snd (ClearLocalBuff s d) else d);
                   b1 = the (d_ctx d1 s) in
            ((HCCL_SUCCESS, set_ctx s (b1\<lparr>rb_filpNum := (if rb_tailSqeTaskId b1 = -1 then rb_filpNum b1 + 1 else rb_filpNum b1),
                rb_tailSqeTaskId := rb_tailSqeTaskId b1 + 1, rb_sqeCnt := Suc (rb_sqeCnt b1),
                rb_tailSqeIdx := Suc (rb_tailSqeIdx b1)\<rparr>) d1),
             rb_tailSqeIdx b1, rb_tailSqeTaskId b1))"

text \<open>
  Writing the entry just taken: the encoder of the entry's format gets the task number and the
  old content of the slot, and gives the type and the entry.
\<close>

type_synonym encoder = "u16 \<Rightarrow> sqe \<Rightarrow> SqeType \<times> sqe"

definition fill_sqe :: "nat \<Rightarrow> nat \<Rightarrow> u16 \<Rightarrow> AicpuDfxInfo \<Rightarrow> encoder \<Rightarrow> device \<Rightarrow> HcclResult \<times> device" where
  "fill_sqe s idx taskId dfx enc d =
     (case d_ctx d s of
        None \<Rightarrow> (HCCL_E_PTR, d)
      | Some b \<Rightarrow>
          let (ty, e) = enc taskId (rb_localBuff b idx) in
          (HCCL_SUCCESS, set_ctx s (b\<lparr>rb_localBuff := (rb_localBuff b)(idx := e), rb_sqeType := (rb_sqeType b)(idx := ty),
             rb_dfxInfo := (rb_dfxInfo b)(idx := dfx)\<rparr>) d))"

definition take_sqe :: "nat \<Rightarrow> AicpuDfxInfo \<Rightarrow> encoder \<Rightarrow> device \<Rightarrow> HcclResult \<times> device" where
  "take_sqe s dfx enc d =
     (let (m, idx, taskId) = GetNextSqeBufferAddr s d in chk_ret m (fill_sqe s idx taskId dfx enc))"

definition AddFlipTask :: "nat \<Rightarrow> u32 \<Rightarrow> device \<Rightarrow> HcclResult \<times> device" where
  "AddFlipTask s opRingBufferIdx d =
     (case d_ctx d s of
        None \<Rightarrow> (HCCL_E_PTR, d)
      | Some b \<Rightarrow> take_sqe s \<lparr>df_remoteRank = INVALID_VALUE_RANKID, df_opRingBufferIdx = opRingBufferIdx,
                     df_notifyId = INVALID_VALUE_RANKID\<rparr>
                   (\<lambda>taskId slot. AddOneFlipPlaceHolderSqeV1 (word_of_nat s) (rb_filpNum b) taskId) d)"

definition AddRetryPreamble :: "nat \<Rightarrow> u32 \<Rightarrow> device \<Rightarrow> HcclResult \<times> device" where
  "AddRetryPreamble = AddFlipTask"

definition SaveStreamInfo :: "nat \<Rightarrow> device \<Rightarrow> device" where
  "SaveStreamInfo s d = (if s \<in> set (d_streamMap d) then d else d\<lparr>d_streamMap := d_streamMap d @ [s]\<rparr>)"

text \<open>Making room before an entry is taken: launching at 128 entries, at the end of the buffer, and the flip.\<close>

definition launch_when :: "(SqeRingBuffer \<Rightarrow> bool) \<Rightarrow> launch_env \<Rightarrow> nat \<Rightarrow> nat \<Rightarrow> device \<Rightarrow> (HcclResult \<times> device) option" where
  "launch_when c E fuel s d =
     (case d_ctx d s of
        None \<Rightarrow> Some (HCCL_E_PTR, d)
      | Some b \<Rightarrow> if c b then LaunchTask E fuel s d else Some (HCCL_SUCCESS, d))"

definition flip_when :: "nat \<Rightarrow> u32 \<Rightarrow> device \<Rightarrow> HcclResult \<times> device" where
  "flip_when s opIdx d =
     (case d_ctx d s of
        None \<Rightarrow> (HCCL_E_PTR, d)
      | Some b \<Rightarrow> if rb_tailSqeTaskId b = 0 \<and> rb_filpNum b \<noteq> 0 then AddFlipTask s opIdx d else (HCCL_SUCCESS, d))"

definition GetStreamSqeBufferAddr :: "launch_env \<Rightarrow> nat \<Rightarrow> nat \<Rightarrow> u32 \<Rightarrow> device \<Rightarrow> (HcclResult \<times> device) option" where
  "GetStreamSqeBufferAddr E fuel s opIdx d =
     chk_opt (launch_when (\<lambda>b. HCCL_PER_LAUNCH_SQE_CNT \<le> rb_sqeCnt b) E fuel s (SaveStreamInfo s d))
       (\<lambda>d. chk_opt (launch_when (\<lambda>b. HCCL_SQE_MAX_CNT \<le> rb_tailSqeIdx b) E fuel s d)
         (\<lambda>d. chk_opt (Some (flip_when s opIdx d))
           (\<lambda>d. launch_when (\<lambda>b. HCCL_SQE_MAX_CNT \<le> rb_tailSqeIdx b) E fuel s d)))"

text \<open>An entry on a stream: make room, take the next slot, fill it.\<close>

definition emit_sqe :: "launch_env \<Rightarrow> nat \<Rightarrow> nat \<Rightarrow> u32 \<Rightarrow> AicpuDfxInfo \<Rightarrow> encoder \<Rightarrow> device \<Rightarrow> (HcclResult \<times> device) option" where
  "emit_sqe E fuel s opIdx dfx enc d =
     chk_opt (GetStreamSqeBufferAddr E fuel s opIdx d) (\<lambda>d. Some (take_sqe s dfx enc d))"

end
