(* ===== verification/SqeProof.thy ===== *)
theory SqeProof
  imports SqeRing
begin

text \<open>
  What the ring guarantees: the entries of a stream reach the scheduler in the order in which
  they were taken, each once, across the wrap-around of the ring and of the local buffer,
  whatever the scheduler's pace and whatever fails.
\<close>

section \<open>Rings\<close>

lemma used_less: "0 < D \<Longrightarrow> used D h t < D"
  by (simp add: used_def)

lemma used_self [simp]: "used D h h = 0"
  by (simp add: used_def)

lemma used_tail: "h < D \<Longrightarrow> t < D \<Longrightarrow> (h + used D h t) mod D = t"
proof -
  assume a: "h < D" "t < D"
  have "(h + used D h t) mod D = (h + (t + D - h)) mod D" by (simp add: used_def mod_add_right_eq)
  also have "h + (t + D - h) = t + D" using a by linarith
  finally show ?thesis using a by simp
qed

lemma used_unique: "h < D \<Longrightarrow> n < D \<Longrightarrow> used D h ((h + n) mod D) = n"
proof -
  assume a: "h < D" "n < D"
  then have "(h + n) mod D + D - h = (if h + n < D then n + D else n)"
    by (auto simp: mod_if)
  then show ?thesis using a by (simp add: used_def)
qed

lemma used_add: "h < D \<Longrightarrow> t < D \<Longrightarrow> used D h t + n < D \<Longrightarrow> used D h ((t + n) mod D) = used D h t + n"
proof -
  assume a: "h < D" "t < D" "used D h t + n < D"
  have "(t + n) mod D = (h + (used D h t + n)) mod D"
    using used_tail[OF a(1,2)] by (metis add.assoc mod_add_left_eq)
  then show ?thesis using used_unique[OF a(1,3)] by simp
qed

lemma used_drop: "h < D \<Longrightarrow> t < D \<Longrightarrow> n \<le> used D h t \<Longrightarrow> used D ((h + n) mod D) t = used D h t - n"
proof -
  assume a: "h < D" "t < D" "n \<le> used D h t"
  have D: "0 < D" using a by linarith
  have "((h + n) mod D + (used D h t - n)) mod D = (h + n + (used D h t - n)) mod D" by (rule mod_add_left_eq)
  also have "h + n + (used D h t - n) = h + used D h t" using a(3) by linarith
  finally have "t = ((h + n) mod D + (used D h t - n)) mod D" using used_tail[OF a(1,2)] by simp
  moreover have "used D h t - n < D" using used_less[OF D, of h t] by linarith
  ultimately show ?thesis using used_unique[of "(h + n) mod D" D "used D h t - n"] D by simp
qed

lemma used_empty: "0 < D \<Longrightarrow> h < D \<Longrightarrow> t < D \<Longrightarrow> used D h t = 0 \<longleftrightarrow> h = t"
  using used_tail[of h D t] by (auto simp: used_def)

lemma ring_copy_at:
  assumes "t < D" "n \<le> D" "i < D"
  shows "ring_copy D t n src from dst i =
    (if (i + D - t) mod D < n then src (from + (i + D - t) mod D) else dst i)"
proof (cases "t \<le> i")
  case True
  then have e: "(i + D - t) mod D = i - t" using assms by (simp add: mod_if)
  show ?thesis using True assms unfolding e
    by (auto simp: ring_copy_def copy_into_def Let_def)
next
  case False
  then have e: "(i + D - t) mod D = i + D - t" using assms by simp
  have "from + (D - t) + (i - 0) = from + (i + D - t)" using assms by linarith
  then show ?thesis using False assms unfolding e
    by (auto simp: ring_copy_def copy_into_def Let_def)
qed

lemma ring_index: "t < D \<Longrightarrow> j < D \<Longrightarrow> ((t + j) mod D + D - t) mod D = (j::nat)"
  by (auto simp: mod_if)

lemma sqe_ring_append:
  assumes h: "h < D" and t: "t < D" and room: "used D h t + n < D"
  shows "map (\<lambda>i. ring_copy D t n src from dst ((h + i) mod D)) [0..<used D h t] = map (\<lambda>i. dst ((h + i) mod D)) [0..<used D h t]"
    and "map (\<lambda>i. ring_copy D t n src from dst ((h + i) mod D)) [0..<used D h ((t + n) mod D)] =
      map (\<lambda>i. dst ((h + i) mod D)) [0..<used D h t] @ map src [from..<from + n]"
proof -
  have D: "0 < D" using h by linarith
  have at: "ring_copy D t n src from dst ((t + j) mod D) = (if j < n then src (from + j) else dst ((t + j) mod D))"
    if "j < D" for j
    using ring_copy_at[OF t _ mod_less_divisor[OF D], of n src "from" dst "t + j"] ring_index[OF t that] room by simp
  have old: "ring_copy D t n src from dst ((h + i) mod D) = dst ((h + i) mod D)" if i: "i < used D h t" for i
  proof -
    have "(h + i) mod D = (t + (D - used D h t + i)) mod D"
    proof -
      have "(t + (D - used D h t + i)) mod D = (h + used D h t + (D - used D h t + i)) mod D"
        using used_tail[OF h t] by (metis mod_add_left_eq)
      also have "h + used D h t + (D - used D h t + i) = h + i + D" using used_less[OF D, of h t] by linarith
      finally show ?thesis by simp
    qed
    moreover have "D - used D h t + i < D" "\<not> D - used D h t + i < n" using i room used_less[OF D, of h t] by linarith+
    ultimately show ?thesis using at[of "D - used D h t + i"] by simp
  qed
  then show "map (\<lambda>i. ring_copy D t n src from dst ((h + i) mod D)) [0..<used D h t] = map (\<lambda>i. dst ((h + i) mod D)) [0..<used D h t]"
    by simp
  have new: "ring_copy D t n src from dst ((h + (used D h t + j)) mod D) = src (from + j)" if "j < n" for j
  proof -
    have "(h + (used D h t + j)) mod D = (t + j) mod D"
      using used_tail[OF h t] by (metis add.assoc mod_add_left_eq)
    then show ?thesis using at[of j] that room by simp
  qed
  let ?F = "\<lambda>i. ring_copy D t n src from dst ((h + i) mod D)"
  have "[0..<used D h t + n] = [0..<used D h t] @ map ((+) (used D h t)) [0..<n]"
    by (rule nth_equalityI) (auto simp: nth_append)
  then have "map ?F [0..<used D h t + n] = map ?F [0..<used D h t] @ map (\<lambda>j. ?F (used D h t + j)) [0..<n]"
    by (simp only: map_append map_map comp_def)
  also have "map ?F [0..<used D h t] = map (\<lambda>i. dst ((h + i) mod D)) [0..<used D h t]"
    by (rule map_cong[OF refl]) (simp only: set_upt atLeastLessThan_iff old)
  also have "map (\<lambda>j. ?F (used D h t + j)) [0..<n] = map (\<lambda>j. src (from + j)) [0..<n]"
    by (rule map_cong[OF refl]) (simp only: set_upt atLeastLessThan_iff new)
  also have "map (\<lambda>j. src (from + j)) [0..<n] = map src [from..<from + n]"
    by (rule nth_equalityI) simp_all
  finally show "map ?F [0..<used D h ((t + n) mod D)] =
      map (\<lambda>i. dst ((h + i) mod D)) [0..<used D h t] @ map src [from..<from + n]"
    by (simp only: used_add[OF h t room])
qed

section \<open>The entries of a stream\<close>

definition pending :: "nat \<Rightarrow> rtsq \<Rightarrow> sqe list" where
  "pending D q = map (\<lambda>i. q_ring q ((q_head q + i) mod D)) [0..<used D (q_head q) (q_tail q)]"

definition waiting :: "SqeRingBuffer \<Rightarrow> sqe list" where
  "waiting b = map (rb_localBuff b) [rb_tailSqeIdx b - rb_sqeCnt b..<rb_tailSqeIdx b]"

text \<open>Executed, then in the ring, then in the local buffer.\<close>

definition issued :: "device \<Rightarrow> nat \<Rightarrow> sqe list" where
  "issued d s = q_done (d_hw d s) @ pending (d_depth d s) (d_hw d s) @
     (case d_ctx d s of None \<Rightarrow> [] | Some b \<Rightarrow> waiting b)"

definition ctx_ok :: "nat \<Rightarrow> rtsq \<Rightarrow> SqeRingBuffer \<Rightarrow> bool" where
  "ctx_ok D q b \<longleftrightarrow> rb_sqTail b = q_tail q \<and> rb_sqHead b < D \<and> rb_sqeCnt b \<le> rb_tailSqeIdx b \<and>
     rb_tailSqeIdx b \<le> HCCL_SQE_MAX_CNT \<and> rb_sqeCnt b < D \<and>
     used D (q_head q) (q_tail q) \<le> used D (rb_sqHead b) (q_tail q) \<and>
     (\<forall>i\<ge>rb_tailSqeIdx b. rb_localBuff b i = ZeroSqe)"

definition stream_ok :: "device \<Rightarrow> nat \<Rightarrow> bool" where
  "stream_ok d s \<longleftrightarrow> (let D = d_depth d s; q = d_hw d s in
     0 < D \<and> D \<le> HCCL_SQE_MAX_CNT \<and> q_head q < D \<and> q_tail q < D \<and>
     (case d_ctx d s of None \<Rightarrow> True | Some b \<Rightarrow> ctx_ok D q b))"

definition device_ok :: "device \<Rightarrow> bool" where
  "device_ok d \<longleftrightarrow> (\<forall>s. stream_ok d s)"

text \<open>The counters and entries of a local buffer that launching does not touch.\<close>

definition same_entries :: "SqeRingBuffer \<Rightarrow> SqeRingBuffer \<Rightarrow> bool" where
  "same_entries b b' \<longleftrightarrow> rb_localBuff b' = rb_localBuff b \<and> rb_sqeType b' = rb_sqeType b \<and>
     rb_dfxInfo b' = rb_dfxInfo b \<and> rb_tailSqeIdx b' = rb_tailSqeIdx b \<and>
     rb_tailSqeTaskId b' = rb_tailSqeTaskId b \<and> rb_filpNum b' = rb_filpNum b \<and>
     (rb_sqeCnt b' = rb_sqeCnt b \<or> rb_sqeCnt b' = 0)"

definition launches :: "device \<Rightarrow> device \<Rightarrow> bool" where
  "launches d d' \<longleftrightarrow> device_ok d' \<and> d_depth d' = d_depth d \<and> d_streamMap d' = d_streamMap d \<and>
     (\<forall>s. issued d' s = issued d s) \<and>
     (\<forall>s. rel_option same_entries (d_ctx d s) (d_ctx d' s))"

lemma same_entries_refl [simp]: "same_entries b b"
  by (simp add: same_entries_def)

lemma same_entries_trans: "same_entries a b \<Longrightarrow> same_entries b c \<Longrightarrow> same_entries a c"
  by (auto simp: same_entries_def)

lemma launches_refl: "device_ok d \<Longrightarrow> launches d d"
  by (simp add: launches_def option.rel_refl)

lemma launches_trans: "launches a b \<Longrightarrow> launches b c \<Longrightarrow> launches a c"
proof -
  assume ab: "launches a b" and bc: "launches b c"
  have "rel_option same_entries (d_ctx a s) (d_ctx c s)" for s
  proof -
    have "rel_option same_entries (d_ctx a s) (d_ctx b s)" "rel_option same_entries (d_ctx b s) (d_ctx c s)"
      using ab bc by (simp_all add: launches_def)
    then show ?thesis by (cases "d_ctx a s"; cases "d_ctx b s"; cases "d_ctx c s") (auto intro: same_entries_trans)
  qed
  then show ?thesis using ab bc by (simp add: launches_def)
qed

text \<open>The scheduler at work: entries move from the ring to those executed.\<close>

lemma hw_step_ok:
  assumes "q_head q < D" "q_tail q < D"
  shows "q_done (hw_step D k q) @ pending D (hw_step D k q) = q_done q @ pending D q"
    "q_head (hw_step D k q) < D" "q_tail (hw_step D k q) = q_tail q" "q_ring (hw_step D k q) = q_ring q"
    "used D (q_head (hw_step D k q)) (q_tail q) \<le> used D (q_head q) (q_tail q)"
proof -
  let ?u = "used D (q_head q) (q_tail q)" and ?n = "min k (used D (q_head q) (q_tail q))"
  note u = used_drop[OF assms min.cobounded2, of k]
  show "q_head (hw_step D k q) < D" "q_tail (hw_step D k q) = q_tail q" "q_ring (hw_step D k q) = q_ring q"
    using assms by (simp_all add: hw_step_def Let_def)
  show "used D (q_head (hw_step D k q)) (q_tail q) \<le> ?u" using u by (simp add: hw_step_def Let_def)
  have "map (\<lambda>i. q_ring q ((q_head q + i) mod D)) [0..<?u] =
      map (\<lambda>i. q_ring q ((q_head q + i) mod D)) [0..<?n] @ map (\<lambda>i. q_ring q ((q_head q + (?n + i)) mod D)) [0..<?u - ?n]"
    by (rule nth_equalityI) (auto simp: nth_append)
  moreover have "pending D (hw_step D k q) = map (\<lambda>i. q_ring q ((q_head q + (?n + i)) mod D)) [0..<?u - ?n]"
    using u by (simp add: pending_def hw_step_def Let_def mod_add_left_eq add.assoc)
  ultimately show "q_done (hw_step D k q) @ pending D (hw_step D k q) = q_done q @ pending D q"
    by (simp add: pending_def hw_step_def Let_def)
qed

lemma environment_launches: "device_ok d \<Longrightarrow> launches d (environment_step E d)"
proof -
  assume ok: "device_ok d"
  have s: "stream_ok (environment_step E d) s \<and> issued (environment_step E d) s = issued d s" for s
  proof -
    have st: "stream_ok d s" using ok by (simp add: device_ok_def)
    then have "q_head (d_hw d s) < d_depth d s" "q_tail (d_hw d s) < d_depth d s"
      by (simp_all add: stream_ok_def Let_def)
    note h = hw_step_ok[OF this, of "e_executed E (d_now d) s"]
    have "issued (environment_step E d) s = issued d s"
      using h(1) by (simp add: issued_def environment_step_def)
    then show ?thesis using st h(2,3,5)
      by (auto simp: stream_ok_def environment_step_def Let_def ctx_ok_def split: option.splits)
  qed
  then show ?thesis by (simp add: launches_def device_ok_def environment_step_def option.rel_refl)
qed

text \<open>Reading the head of a stream's ring: the stream learns a head that is not ahead.\<close>

definition at_stream :: "nat \<Rightarrow> SqeRingBuffer \<Rightarrow> rtsq \<Rightarrow> device \<Rightarrow> device" where
  "at_stream s b q d = set_ctx s b (set_hw s q d)"

lemma at_stream_simps [simp]:
  "d_ctx (at_stream s b q d) t = (if t = s then Some b else d_ctx d t)"
  "d_hw (at_stream s b q d) t = (if t = s then q else d_hw d t)"
  "d_depth (at_stream s b q d) = d_depth d" "d_streamMap (at_stream s b q d) = d_streamMap d"
  by (simp_all add: at_stream_def set_ctx_def set_hw_def)

lemma at_stream_launches:
  assumes ok: "device_ok d" and b: "d_ctx d s = Some b" and b': "same_entries b b'"
    and q: "ctx_ok (d_depth d s) q b'" "q_head q < d_depth d s" "q_tail q < d_depth d s"
    and same: "q_done q @ pending (d_depth d s) q @ waiting b' =
      q_done (d_hw d s) @ pending (d_depth d s) (d_hw d s) @ waiting b"
  shows "launches d (at_stream s b' q d)"
proof -
  have "stream_ok (at_stream s b' q d) t" for t
    using ok q unfolding device_ok_def by (auto simp: stream_ok_def Let_def)
  moreover have "issued (at_stream s b' q d) t = issued d t" for t
    using same b by (simp add: issued_def)
  moreover have "rel_option same_entries (d_ctx d t) (d_ctx (at_stream s b' q d) t)" for t
    using b b' by (simp add: option.rel_refl)
  ultimately show ?thesis by (simp add: launches_def device_ok_def)
qed

lemma set_ctx_at_stream: "set_ctx s b d = at_stream s b (d_hw d s) d"
  by (simp add: at_stream_def set_ctx_def set_hw_def)

lemma QuerySqHead_launches:
  assumes ok: "device_ok d" and b: "d_ctx d s = Some b" and q: "QuerySqHead E s d = (r, h, d')"
  shows "launches d d'" "launches d (set_ctx s (b\<lparr>rb_sqHead := h\<rparr>) d')"
proof -
  have d': "d' = environment_step E d" "h = q_head (d_hw d' s)" using q by (auto simp: QuerySqHead_def Let_def)
  show l: "launches d d'" unfolding d'(1) by (rule environment_launches[OF ok])
  have b': "d_ctx d' s = Some b" unfolding d'(1) using b by (simp add: environment_step_def)
  have ok': "device_ok d'" using l by (simp add: launches_def)
  then have "stream_ok d' s" by (simp add: device_ok_def)
  then have c: "ctx_ok (d_depth d' s) (d_hw d' s) b" "q_head (d_hw d' s) < d_depth d' s" "q_tail (d_hw d' s) < d_depth d' s"
    using b' by (simp_all add: stream_ok_def Let_def)
  have "launches d' (set_ctx s (b\<lparr>rb_sqHead := h\<rparr>) d')" unfolding set_ctx_at_stream
    by (rule at_stream_launches[OF ok' b']) (use c in \<open>simp_all add: same_entries_def ctx_ok_def d'(2) waiting_def\<close>)
  then show "launches d (set_ctx s (b\<lparr>rb_sqHead := h\<rparr>) d')" by (rule launches_trans[OF l])
qed

section \<open>Launching\<close>

lemma rtsq_full_room:
  assumes c: "ctx_ok D q b" and D: "0 < D" "D \<le> HCCL_SQE_MAX_CNT" and q: "q_head q < D" "q_tail q < D"
    and n: "n < D" "\<not> rtsq_full D b n"
  shows "used D (q_head q) (q_tail q) + n < D"
proof (cases "rb_sqTail b = rb_sqHead b")
  case True
  then have "used D (rb_sqHead b) (rb_sqTail b) = 0" using c by (simp add: used_def)
  then show ?thesis using c n by (simp add: ctx_ok_def)
next
  case False
  have t: "rb_sqTail b < D" "rb_sqHead b < D" using c q by (simp_all add: ctx_ok_def)
  have D2: "D \<le> 2048" using D by (simp add: HCCL_SQE_MAX_CNT_def)
  have u: "used D (rb_sqHead b) (rb_sqTail b) = (if rb_sqTail b < rb_sqHead b then D else 0) + rb_sqTail b - rb_sqHead b"
    using t by (auto simp: used_def mod_if)
  have s: "w32 ((if rb_sqTail b < rb_sqHead b then D else 0) + rb_sqTail b) = (if rb_sqTail b < rb_sqHead b then D else 0) + rb_sqTail b"
    by (rule w32_id) (use t D2 in auto)
  have sub: "sub32 ((if rb_sqTail b < rb_sqHead b then D else 0) + rb_sqTail b) (rb_sqHead b) = used D (rb_sqHead b) (rb_sqTail b)"
    unfolding u by (rule sub32_id) (use t D2 in auto)
  have "w32 (used D (rb_sqHead b) (rb_sqTail b) + n) = used D (rb_sqHead b) (rb_sqTail b) + n"
    by (rule w32_id) (use used_less[OF D(1), of "rb_sqHead b" "rb_sqTail b"] n D2 in simp)
  then have "used D (rb_sqHead b) (rb_sqTail b) + n < D"
    using n(2) False unfolding rtsq_full_def s sub by simp
  then show ?thesis using c by (simp add: ctx_ok_def)
qed

text \<open>Writing entries behind the tail changes nothing that is pending.\<close>

lemma write_ring_launches:
  assumes ok: "device_ok d" and b: "d_ctx d s = Some b" and room: "used (d_depth d s) (q_head (d_hw d s)) (q_tail (d_hw d s)) + n < d_depth d s"
    and w: "write_ring s sqes types dfxs from n b d = (b', d')"
  shows "launches d d'" "d_ctx d' s = Some b'" "rb_sqTail b' = rb_sqTail b" "rb_sqeCnt b' = rb_sqeCnt b" "rb_sqHead b' = rb_sqHead b"
    "d_hw d' s = (d_hw d s)\<lparr>q_ring := ring_copy (d_depth d s) (rb_sqTail b) n sqes from (q_ring (d_hw d s))\<rparr>"
    "d_depth d' = d_depth d" "same_entries b b'" "d_needAddSqe d' = d_needAddSqe d" "d_cache d' = d_cache d" "d_now d' = d_now d"
proof -
  let ?D = "d_depth d s" and ?q = "d_hw d s"
  let ?q' = "?q\<lparr>q_ring := ring_copy ?D (rb_sqTail b) n sqes from (q_ring ?q)\<rparr>"
  have st: "stream_ok d s" using ok by (simp add: device_ok_def)
  then have c: "ctx_ok ?D ?q b" "q_head ?q < ?D" "q_tail ?q < ?D" using b by (simp_all add: stream_ok_def Let_def)
  have d': "d' = at_stream s b' ?q' d" and se: "same_entries b b'" and b': "rb_sqTail b' = rb_sqTail b" "rb_sqeCnt b' = rb_sqeCnt b"
      "rb_sqHead b' = rb_sqHead b" "rb_tailSqeIdx b' = rb_tailSqeIdx b" "rb_localBuff b' = rb_localBuff b"
    using w by (auto simp: write_ring_def Let_def at_stream_def same_entries_def)
  show "rb_sqTail b' = rb_sqTail b" "rb_sqeCnt b' = rb_sqeCnt b" "rb_sqHead b' = rb_sqHead b" "same_entries b b'" by fact+
  show "d_ctx d' s = Some b'" "d_hw d' s = ?q'" "d_depth d' = d_depth d" by (simp_all add: d')
  show "d_needAddSqe d' = d_needAddSqe d" "d_cache d' = d_cache d" "d_now d' = d_now d"
    by (simp_all add: d' at_stream_def set_ctx_def set_hw_def)
  have t: "rb_sqTail b = q_tail ?q" using c by (simp add: ctx_ok_def)
  have "pending ?D ?q' = pending ?D ?q"
    using sqe_ring_append(1)[OF c(2,3) room, of sqes "from" "q_ring ?q"] by (simp add: pending_def t)
  then show "launches d d'" unfolding d'
    by (intro at_stream_launches[OF ok b se]) (use c b' in \<open>simp_all add: ctx_ok_def waiting_def\<close>)
qed

lemma AddToCache_launches:
  assumes "device_ok d"
  shows "launches d (snd (AddToCache E s b d))" "d_ctx (snd (AddToCache E s b d)) = d_ctx d"
    "d_hw (snd (AddToCache E s b d)) = d_hw d" "d_depth (snd (AddToCache E s b d)) = d_depth d"
proof -
  show "d_ctx (snd (AddToCache E s b d)) = d_ctx d" "d_hw (snd (AddToCache E s b d)) = d_hw d"
    "d_depth (snd (AddToCache E s b d)) = d_depth d" by (simp_all add: AddToCache_def Let_def)
  moreover have "d_streamMap (snd (AddToCache E s b d)) = d_streamMap d" by (simp add: AddToCache_def Let_def)
  ultimately show "launches d (snd (AddToCache E s b d))"
    using assms by (simp add: launches_def device_ok_def stream_ok_def issued_def option.rel_refl)
qed

text \<open>Once the tail has moved and the count is cleared, the batch is in the ring.\<close>

lemma launch_now_launches:
  assumes ok: "device_ok d" and b: "d_ctx d s = Some b" and room: "\<not> rtsq_full (d_depth d s) b (rb_sqeCnt b)"
    and l: "launch_now E s b d = (r, d')"
  shows "launches d d'" "r = HCCL_SUCCESS \<Longrightarrow> d_ctx d' s \<noteq> None \<and> rb_sqeCnt (the (d_ctx d' s)) = 0"
proof -
  let ?D = "d_depth d s" and ?q = "d_hw d s" and ?n = "rb_sqeCnt b" and ?from = "rb_tailSqeIdx b - rb_sqeCnt b"
  have "stream_ok d s" using ok by (simp add: device_ok_def)
  then have c: "ctx_ok ?D ?q b" "q_head ?q < ?D" "q_tail ?q < ?D" "0 < ?D" "?D \<le> HCCL_SQE_MAX_CNT" "?n < ?D"
    using b by (simp_all add: stream_ok_def Let_def ctx_ok_def)
  note free = rtsq_full_room[OF c(1,4,5,2,3,6) room]
  obtain b1 d1 where w: "write_ring s (rb_localBuff b) (rb_sqeType b) (rb_dfxInfo b) ?from ?n b d = (b1, d1)"
    by fastforce
  note W = write_ring_launches[OF ok b free w]
  have ok1: "device_ok d1" using W(1) by (simp add: launches_def)
  obtain r2 d2 where a: "AddToCache E s b1 d1 = (r2, d2)" by fastforce
  have A: "launches d1 d2" "d_ctx d2 = d_ctx d1" "d_hw d2 = d_hw d1" "d_depth d2 = d_depth d1"
    using AddToCache_launches[OF ok1, of E s b1] a by simp_all
  note to2 = launches_trans[OF W(1) A(1)]
  define t' where "t' = w32 (rb_sqTail b1 + ?n) mod ?D"
  have tail: "rb_sqTail b1 = q_tail ?q" using W(3) c(1) by (simp add: ctx_ok_def)
  have t': "t' = (q_tail ?q + ?n) mod ?D"
    unfolding t'_def tail by (subst w32_id) (use c in \<open>simp_all add: HCCL_SQE_MAX_CNT_def\<close>)
  have "launches d d' \<and> (r = HCCL_SUCCESS \<longrightarrow> d_ctx d' s \<noteq> None \<and> rb_sqeCnt (the (d_ctx d' s)) = 0)"
  proof (cases "r2 = HCCL_SUCCESS \<and> e_config E (d_now d2) = HCCL_SUCCESS")
    case False
    then have "(r, d') = (if r2 = HCCL_SUCCESS then e_config E (d_now d2) else r2, d2)"
      using l W(7) A(4) by (auto simp: launch_now_def w a move_tail_def Let_def)
    then show ?thesis using to2 False by auto
  next
    case True
    let ?bn = "b1\<lparr>rb_sqTail := t', rb_sqeCnt := 0\<rparr>" and ?qn = "(d_hw d1 s)\<lparr>q_tail := t'\<rparr>"
    have d': "(r, d') = (HCCL_SUCCESS, at_stream s ?bn ?qn d2)"
      using l True W(7) A(2-4)
      by (simp add: launch_now_def w a move_tail_def clear_count_def Let_def at_stream_def set_ctx_def set_hw_def t'_def)
    have q3: "q_head ?qn = q_head ?q" "q_tail ?qn = t'" "q_done ?qn = q_done ?q"
      "q_ring ?qn = ring_copy ?D (q_tail ?q) ?n (rb_localBuff b) ?from (q_ring ?q)"
      using W(6) c(1) by (simp_all add: ctx_ok_def)
    have u: "used ?D (q_head ?q) t' = used ?D (q_head ?q) (q_tail ?q) + ?n"
      unfolding t' by (rule used_add[OF c(2,3) free])
    have t'D: "t' < ?D" unfolding t' using c(4) by simp
    have head: "used ?D (q_head ?q) t' \<le> used ?D (rb_sqHead b) t'"
    proof (cases "rb_sqTail b = rb_sqHead b")
      case True
      then have "rb_sqHead b = q_tail ?q" using c(1) by (simp add: ctx_ok_def)
      then have "used ?D (q_head ?q) (q_tail ?q) = 0" using c(1) by (simp add: ctx_ok_def)
      then have "q_head ?q = q_tail ?q" using used_empty[OF c(4,2,3)] by simp
      then show ?thesis using True c(1) by (simp add: ctx_ok_def)
    next
      case False
      have h: "rb_sqHead b < ?D" "rb_sqTail b = q_tail ?q" using c(1) by (simp_all add: ctx_ok_def)
      let ?qh = "\<lparr>q_ring = q_ring ?q, q_head = rb_sqHead b, q_tail = q_tail ?q, q_done = []\<rparr>"
      have "ctx_ok ?D ?qh b" using c(1) by (simp add: ctx_ok_def)
      then have "used ?D (rb_sqHead b) (q_tail ?q) + ?n < ?D"
        using rtsq_full_room[of ?D ?qh b ?n] c(3-6) h room by simp
      then have "used ?D (rb_sqHead b) t' = used ?D (rb_sqHead b) (q_tail ?q) + ?n"
        unfolding t' by (rule used_add[OF h(1) c(3)])
      then show ?thesis using u c(1) by (simp add: ctx_ok_def)
    qed
    have wait: "waiting b = map (rb_localBuff b) [?from..<?from + ?n]"
      using c(1) by (simp add: waiting_def ctx_ok_def)
    have pend: "pending ?D ?qn = pending ?D ?q @ waiting b"
      unfolding wait pending_def q3 unfolding t' by (rule sqe_ring_append(2)[OF c(2,3) free])
    have "launches d2 (at_stream s ?bn ?qn d2)"
    proof (rule at_stream_launches)
      show "device_ok d2" using to2 by (simp add: launches_def)
      show "d_ctx d2 s = Some b1" using A W by simp
      show "same_entries b1 ?bn" by (simp add: same_entries_def)
      show "ctx_ok (d_depth d2 s) ?qn ?bn"
        using c(1) W(3-7) A(4) head t'D W(8) by (simp add: ctx_ok_def same_entries_def)
      show "q_head ?qn < d_depth d2 s" "q_tail ?qn < d_depth d2 s"
        using q3(1,2) c(2) t'D W(7) A(4) by simp_all
      have "pending ?D (d_hw d2 s) = pending ?D ?q"
        using sqe_ring_append(1)[OF c(2,3) free, of "rb_localBuff b" ?from "q_ring ?q"] W(6) A(3) c(1)
        by (simp add: pending_def ctx_ok_def)
      moreover have "waiting b1 = waiting b" using W(4,8) by (simp add: waiting_def same_entries_def)
      moreover have "q_done (d_hw d2 s) = q_done ?q" using A(3) W(6) by simp
      ultimately show "q_done ?qn @ pending (d_depth d2 s) ?qn @ waiting ?bn =
          q_done (d_hw d2 s) @ pending (d_depth d2 s) (d_hw d2 s) @ waiting b1"
        using pend q3(3) W(7) A(4) by (simp add: waiting_def)
    qed
    then show ?thesis using d' launches_trans[OF to2] by simp
  qed
  then show "launches d d'" "r = HCCL_SUCCESS \<Longrightarrow> d_ctx d' s \<noteq> None \<and> rb_sqeCnt (the (d_ctx d' s)) = 0" by simp_all
qed

lemma LaunchTask_nonblocking_launches:
  assumes ok: "device_ok d" and l: "LaunchTask_nonblocking E s d = (r, d')"
  shows "launches d d'"
proof (cases "d_ctx d s")
  case None
  then show ?thesis using l ok by (simp add: LaunchTask_nonblocking_def launches_refl)
next
  case (Some b)
  obtain r1 h d1 where q: "QuerySqHead E s d = (r1, h, d1)" by (cases "QuerySqHead E s d") auto
  note Q = QuerySqHead_launches[OF ok Some q]
  show ?thesis
    using l Q launches_refl[OF ok] launch_now_launches(1)[OF ok Some]
    by (auto simp: LaunchTask_nonblocking_def Some q split: if_splits)
qed

lemma launch_now_other: "launch_now E t b d = (r, d') \<Longrightarrow> s \<noteq> t \<Longrightarrow> d_ctx d' s = d_ctx d s"
  by (auto simp: launch_now_def write_ring_def AddToCache_def move_tail_def clear_count_def set_ctx_def set_hw_def Let_def
      split: if_splits option.splits)

lemma LaunchTask_nonblocking_other:
  "LaunchTask_nonblocking E t d = (r, d') \<Longrightarrow> t \<noteq> s \<Longrightarrow> d_ctx d' s = d_ctx d s"
  by (auto simp: LaunchTask_nonblocking_def QuerySqHead_def environment_step_def set_ctx_def Let_def
      split: if_splits option.splits dest: launch_now_other)

lemma launch_others_launches:
  "device_ok d \<Longrightarrow> launch_others E s ts d = (r, d') \<Longrightarrow> launches d d' \<and> d_ctx d' s = d_ctx d s"
proof (induction ts arbitrary: d)
  case Nil
  then show ?case by (simp add: launches_refl)
next
  case (Cons t ts)
  show ?case
  proof (cases "t = s")
    case False
    obtain r1 d1 where t: "LaunchTask_nonblocking E t d = (r1, d1)" by fastforce
    have l: "launches d d1" by (rule LaunchTask_nonblocking_launches[OF Cons.prems(1) t])
    then have ok: "device_ok d1" by (simp add: launches_def)
    have ctx: "d_ctx d1 s = d_ctx d s" using t False by (rule LaunchTask_nonblocking_other)
    show ?thesis
      using Cons.prems(2) False t l ctx Cons.IH[OF ok] by (auto split: if_splits intro: launches_trans)
  qed (use Cons in simp)
qed

lemma wait_space_launches:
  "device_ok d \<Longrightarrow> wait_space E fuel cnt t0 s d = Some (r, d') \<Longrightarrow> launches d d' \<and>
    (r = HCCL_SUCCESS \<longrightarrow> (\<exists>b. d_ctx d' s = Some b \<and> \<not> rtsq_full (d_depth d' s) b cnt \<and>
      rel_option (\<lambda>b b'. rb_sqeCnt b' = rb_sqeCnt b) (d_ctx d s) (Some b)))"
proof (induction fuel arbitrary: d)
  case 0
  then show ?case
    by (subst (asm) wait_space.simps) (auto split: option.splits if_splits intro: launches_refl)
next
  case (Suc n)
  show ?case
  proof (cases "\<exists>b. d_ctx d s = Some b \<and> rtsq_full (d_depth d s) b cnt")
    case False
    then show ?thesis using Suc.prems
      by (subst (asm) wait_space.simps) (auto split: option.splits if_splits intro: launches_refl)
  next
    case True
    then obtain b where b: "d_ctx d s = Some b" "rtsq_full (d_depth d s) b cnt" by blast
    obtain r1 h d1 where q: "QuerySqHead E s d = (r1, h, d1)" by (cases "QuerySqHead E s d") auto
    let ?d1 = "set_ctx s (b\<lparr>rb_sqHead := h\<rparr>) d1"
    note Q = QuerySqHead_launches[OF Suc.prems(1) b(1) q]
    obtain r2 d2 where o: "launch_others E s (d_streamMap d1) ?d1 = (r2, d2)" by fastforce
    have "device_ok ?d1" using Q(2) by (simp add: launches_def)
    note O = launch_others_launches[OF this o]
    have l2: "launches d d2" using Q(2) O launches_trans by blast
    then have ok2: "device_ok d2" by (simp add: launches_def)
    have ctx2: "d_ctx d2 s = Some (b\<lparr>rb_sqHead := h\<rparr>)" using O by (simp add: set_ctx_def)
    have "wait_space E (Suc n) cnt t0 s d = Some (r, d')" by (rule Suc.prems(2))
    then show ?thesis using Q(1) l2 Suc.IH[OF ok2] b ctx2
      by (subst (asm) wait_space.simps)
        (auto simp: q o Let_def split: if_splits intro: launches_trans)
  qed
qed

lemma launch_if_ready_launches:
  assumes "device_ok d" "d_ctx d s = Some b" "\<not> rtsq_full (d_depth d s) b (rb_sqeCnt b)" "launch_if_ready E s d = (r, d')"
  shows "launches d d'" "r = HCCL_SUCCESS \<Longrightarrow> d_ctx d' s \<noteq> None \<and> rb_sqeCnt (the (d_ctx d' s)) = 0"
  using launch_now_launches[OF assms(1-3)] assms(2,4) by (simp_all add: launch_if_ready_def)

lemma LaunchTask_launches:
  assumes ok: "device_ok d" and l: "LaunchTask E fuel s d = Some (r, d')"
  shows "launches d d' \<and> (r = HCCL_SUCCESS \<longrightarrow> (\<exists>b. d_ctx d' s = Some b \<and> rb_sqeCnt b = 0))"
proof (cases "d_ctx d s")
  case None
  then show ?thesis using l ok by (simp add: LaunchTask_def launches_refl)
next
  case (Some b)
  show ?thesis
  proof (cases "rb_sqeCnt b = 0 \<or> d_depth d s < rb_sqeCnt b")
    case True
    then show ?thesis using l ok Some by (auto simp: LaunchTask_def launches_refl split: if_splits)
  next
    case False
    then obtain r1 d1 where w: "wait_space E fuel (rb_sqeCnt b) (e_time E (d_now d)) s d = Some (r1, d1)"
      using l by (auto simp: LaunchTask_def Some chk_opt_def split: option.splits)
    note W = wait_space_launches[OF ok w]
    show ?thesis
    proof (cases "r1 = HCCL_SUCCESS")
      case False
      then show ?thesis using l w W \<open>\<not> (rb_sqeCnt b = 0 \<or> _)\<close> by (auto simp: LaunchTask_def Some chk_opt_def)
    next
      case True
      then obtain b1 where b1: "d_ctx d1 s = Some b1" "\<not> rtsq_full (d_depth d1 s) b1 (rb_sqeCnt b)" "rb_sqeCnt b1 = rb_sqeCnt b"
        using W Some by auto
      have ok1: "device_ok d1" using W by (simp add: launches_def)
      have r: "launch_if_ready E s d1 = (r, d')"
        using l True \<open>\<not> (rb_sqeCnt b = 0 \<or> _)\<close> by (simp add: LaunchTask_def Some w chk_opt_def)
      note L = launch_if_ready_launches[OF ok1 b1(1) _ r]
      show ?thesis using L b1 W launches_trans[of d d1 d'] by auto
    qed
  qed
qed

section \<open>Taking entries\<close>

text \<open>Task numbers and wrap-arounds together count the entries of a stream, modulo \<open>2 ^ 32\<close>.\<close>

definition sequence :: "SqeRingBuffer \<Rightarrow> nat" where
  "sequence b = unat (rb_filpNum b) * 2 ^ 16 + unat (rb_tailSqeTaskId b)"

lemma minus_one_u16: "(t :: u16) = -1 \<longleftrightarrow> unat t = 65535"
  by (simp add: word_unat_eq_iff unsigned_minus_1_eq_mask mask_eq_exp_minus_1)

lemma unat_Suc_u16: "unat (t + 1 :: u16) = (if t = -1 then 0 else unat t + 1)"
proof (cases "t = -1")
  case False
  then have "unat t + 1 < 65536" using unsigned_less[of t, where ?'a = nat] minus_one_u16[of t] by simp
  then show ?thesis using False by (simp add: unat_word_ariths)
qed simp

lemma sequence_next:
  "unat (if t = -1 then f + 1 else f) * 2 ^ 16 + unat (t + 1 :: u16) = (unat (f :: u16) * 2 ^ 16 + unat t + 1) mod 2 ^ 32"
proof -
  have "unat f < 65536" "unat t < 65536" using unsigned_less[of t, where ?'a = nat] unsigned_less[of f, where ?'a = nat] by simp_all
  then show ?thesis using minus_one_u16[of f] minus_one_u16[of t] by (auto simp: unat_Suc_u16)
qed

text \<open>One more entry on stream \<open>s\<close>; the other streams are as before.\<close>

definition appends :: "nat \<Rightarrow> sqe list \<Rightarrow> device \<Rightarrow> device \<Rightarrow> bool" where
  "appends s es d d' \<longleftrightarrow> device_ok d' \<and> d_depth d' = d_depth d \<and>
     (\<forall>t. issued d' t = issued d t @ (if t = s then es else [])) \<and>
     (\<forall>t. map_option sequence (d_ctx d' t) =
       map_option (\<lambda>b. (sequence b + (if t = s then length es else 0)) mod 2 ^ 32) (d_ctx d t))"

lemma sequence_less [simp]: "sequence b < 2 ^ 32"
  using unsigned_less[of "rb_filpNum b", where ?'a = nat] unsigned_less[of "rb_tailSqeTaskId b", where ?'a = nat]
  by (simp add: sequence_def)

lemma launches_appends: "launches d d' \<Longrightarrow> appends s [] d d'"
proof -
  assume l: "launches d d'"
  have "map_option sequence (d_ctx d' t) = map_option (\<lambda>b. sequence b mod 2 ^ 32) (d_ctx d t)" for t
  proof -
    have "rel_option same_entries (d_ctx d t) (d_ctx d' t)" using l by (simp add: launches_def)
    then show ?thesis
      using sequence_less by (cases "d_ctx d t"; cases "d_ctx d' t") (simp_all add: same_entries_def sequence_def)
  qed
  then show ?thesis using l by (simp add: appends_def launches_def)
qed

lemma appends_trans: "appends s es a b \<Longrightarrow> appends s fs b c \<Longrightarrow> appends s (es @ fs) a c"
proof -
  assume ab: "appends s es a b" and bc: "appends s fs b c"
  have "map_option sequence (d_ctx c t) =
      map_option (\<lambda>x. (sequence x + (if t = s then length (es @ fs) else 0)) mod 2 ^ 32) (d_ctx a t)" for t
  proof -
    have "map_option sequence (d_ctx b t) = map_option (\<lambda>x. (sequence x + (if t = s then length es else 0)) mod 2 ^ 32) (d_ctx a t)"
      "map_option sequence (d_ctx c t) = map_option (\<lambda>x. (sequence x + (if t = s then length fs else 0)) mod 2 ^ 32) (d_ctx b t)"
      using ab bc by (simp_all add: appends_def)
    then show ?thesis
      by (cases "d_ctx a t"; cases "d_ctx b t"; cases "d_ctx c t") (auto simp: mod_add_left_eq add.assoc)
  qed
  then show ?thesis using ab bc by (simp add: appends_def)
qed

text \<open>The local buffer before the next entry is written: cleared when it was full.\<close>

definition fresh_ctx :: "SqeRingBuffer \<Rightarrow> SqeRingBuffer" where
  "fresh_ctx b = (if HCCL_SQE_MAX_CNT \<le> rb_tailSqeIdx b then
     b\<lparr>rb_localBuff := (\<lambda>i. if i < rb_tailSqeIdx b then ZeroSqe else rb_localBuff b i),
       rb_sqeType := (\<lambda>i. if i < rb_tailSqeIdx b then SQE_TYPE_DEFAULT else rb_sqeType b i),
       rb_addInfo := clear_bytes (rb_tailSqeIdx b) (rb_addInfo b), rb_sqeCnt := 0, rb_tailSqeIdx := 0\<rparr> else b)"

lemma fresh_ctx_ok:
  assumes "ctx_ok D q b" "rb_tailSqeIdx b < HCCL_SQE_MAX_CNT \<or> rb_sqeCnt b = 0"
  shows "ctx_ok D q (fresh_ctx b)" "waiting (fresh_ctx b) = waiting b" "rb_sqeCnt (fresh_ctx b) = rb_sqeCnt b"
    "rb_tailSqeIdx (fresh_ctx b) < HCCL_SQE_MAX_CNT" "rb_tailSqeTaskId (fresh_ctx b) = rb_tailSqeTaskId b"
    "rb_filpNum (fresh_ctx b) = rb_filpNum b"
  using assms by (auto simp: fresh_ctx_def ctx_ok_def waiting_def HCCL_SQE_MAX_CNT_def not_less)

lemma take_sqe_code:
  assumes "d_ctx d s = Some b" "rb_tailSqeIdx b < HCCL_SQE_MAX_CNT \<or> rb_sqeCnt b = 0"
  shows "take_sqe s dfx enc d = (HCCL_SUCCESS,
    (let f = fresh_ctx b; i = rb_tailSqeIdx f; t = rb_tailSqeTaskId f; (ty, e) = enc t (rb_localBuff f i) in
     set_ctx s (f\<lparr>rb_localBuff := (rb_localBuff f)(i := e), rb_sqeType := (rb_sqeType f)(i := ty),
       rb_dfxInfo := (rb_dfxInfo f)(i := dfx), rb_tailSqeTaskId := t + 1, rb_tailSqeIdx := Suc i,
       rb_sqeCnt := Suc (rb_sqeCnt f), rb_filpNum := (if t = -1 then rb_filpNum f + 1 else rb_filpNum f)\<rparr>) d))"
  using assms
  by (cases b; cases "HCCL_SQE_MAX_CNT \<le> rb_tailSqeIdx b")
    (simp_all add: take_sqe_def GetNextSqeBufferAddr_def ClearLocalBuff_def fill_sqe_def fresh_ctx_def set_ctx_def Let_def
      case_prod_beta)

lemma take_sqe_appends:
  assumes ok: "device_ok d" and b: "d_ctx d s = Some b"
    and idx: "rb_tailSqeIdx b < HCCL_SQE_MAX_CNT \<or> rb_sqeCnt b = 0" and cnt: "Suc (rb_sqeCnt b) < d_depth d s"
    and t: "take_sqe s dfx enc d = (r, d')"
  shows "r = HCCL_SUCCESS" "appends s [snd (enc (rb_tailSqeTaskId b) ZeroSqe)] d d'"
    "\<exists>b'. d_ctx d' s = Some b' \<and> rb_sqeCnt b' = Suc (rb_sqeCnt b) \<and> sequence b' = (sequence b + 1) mod 2 ^ 32 \<and>
      rb_tailSqeTaskId b' = rb_tailSqeTaskId b + 1"
proof -
  let ?D = "d_depth d s" and ?q = "d_hw d s" and ?f = "fresh_ctx b"
  have "stream_ok d s" using ok by (simp add: device_ok_def)
  then have c: "ctx_ok ?D ?q b" using b by (simp add: stream_ok_def Let_def)
  note F = fresh_ctx_ok[OF c idx]
  have slot: "rb_localBuff ?f (rb_tailSqeIdx ?f) = ZeroSqe" using F(1) by (simp add: ctx_ok_def)
  obtain ty e where e: "enc (rb_tailSqeTaskId b) ZeroSqe = (ty, e)" by fastforce
  define b' where "b' = ?f\<lparr>rb_localBuff := (rb_localBuff ?f)(rb_tailSqeIdx ?f := e),
     rb_sqeType := (rb_sqeType ?f)(rb_tailSqeIdx ?f := ty), rb_dfxInfo := (rb_dfxInfo ?f)(rb_tailSqeIdx ?f := dfx),
     rb_tailSqeTaskId := rb_tailSqeTaskId ?f + 1, rb_tailSqeIdx := Suc (rb_tailSqeIdx ?f),
     rb_sqeCnt := Suc (rb_sqeCnt ?f),
     rb_filpNum := (if rb_tailSqeTaskId ?f = -1 then rb_filpNum ?f + 1 else rb_filpNum ?f)\<rparr>"
  have r: "r = HCCL_SUCCESS" and d': "d' = set_ctx s b' d"
    using t slot e F(5) unfolding take_sqe_code[OF b idx] by (simp_all add: Let_def b'_def)
  show "r = HCCL_SUCCESS" by (rule r)
  have cok: "ctx_ok ?D ?q b'" using F cnt by (simp add: ctx_ok_def b'_def)
  have "rb_sqeCnt ?f \<le> rb_tailSqeIdx ?f" using F(1) by (simp add: ctx_ok_def)
  then have wait: "waiting b' = waiting b @ [e]"
    unfolding F(2)[symmetric] by (simp add: waiting_def b'_def Suc_diff_le)
  have "stream_ok d' u" for u
    using ok cok unfolding d' device_ok_def by (cases "u = s") (auto simp: stream_ok_def set_ctx_def Let_def)
  moreover have "issued d' u = issued d u @ (if u = s then [e] else [])" for u
    using wait b unfolding d' by (simp add: issued_def set_ctx_def)
  moreover have seq: "sequence b' = (sequence b + 1) mod 2 ^ 32"
    using F(5,6) sequence_next[of "rb_tailSqeTaskId b" "rb_filpNum b"]
    by (simp add: sequence_def b'_def split del: if_split cong: if_cong)
  moreover have "map_option sequence (d_ctx d' t) =
      map_option (\<lambda>x. (sequence x + (if t = s then length [e] else 0)) mod 2 ^ 32) (d_ctx d t)" for t
  proof (cases "t = s")
    case False
    have "sequence x mod 2 ^ 32 = sequence x" for x using sequence_less by (rule mod_less)
    then show ?thesis using False unfolding d' by (simp add: set_ctx_def cong: map_option_cong)
  qed (use seq b d' in \<open>simp add: set_ctx_def\<close>)
  ultimately show "appends s [snd (enc (rb_tailSqeTaskId b) ZeroSqe)] d d'"
    using b e by (simp add: appends_def device_ok_def d' set_ctx_def)
  have "rb_sqeCnt b' = Suc (rb_sqeCnt b) \<and> rb_tailSqeTaskId b' = rb_tailSqeTaskId b + 1" using F by (simp add: b'_def)
  with seq show "\<exists>b'. d_ctx d' s = Some b' \<and> rb_sqeCnt b' = Suc (rb_sqeCnt b) \<and> sequence b' = (sequence b + 1) mod 2 ^ 32 \<and>
      rb_tailSqeTaskId b' = rb_tailSqeTaskId b + 1" unfolding d' by (simp add: set_ctx_def)
qed

section \<open>An entry with the room made for it\<close>

lemma SaveStreamInfo_launches: "device_ok d \<Longrightarrow> appends s [] d (SaveStreamInfo t d) \<and> d_ctx (SaveStreamInfo t d) = d_ctx d"
proof -
  assume ok: "device_ok d"
  have e: "d_ctx (SaveStreamInfo t d) = d_ctx d" "d_hw (SaveStreamInfo t d) = d_hw d" "d_depth (SaveStreamInfo t d) = d_depth d"
    by (simp_all add: SaveStreamInfo_def)
  have "sequence x mod 2 ^ 32 = sequence x" for x using sequence_less by (rule mod_less)
  then show ?thesis using ok by (simp add: appends_def device_ok_def stream_ok_def issued_def e cong: map_option_cong)
qed

lemma launch_when_launches:
  assumes ok: "device_ok d" and b: "d_ctx d s = Some b" and l: "launch_when c E fuel s d = Some (r, d')"
  shows "launches d d'" "r = HCCL_SUCCESS \<Longrightarrow> \<exists>b'. d_ctx d' s = Some b' \<and> same_entries b b' \<and> (c b \<longrightarrow> rb_sqeCnt b' = 0)"
proof -
  have "launches d d' \<and> (r = HCCL_SUCCESS \<longrightarrow> (\<exists>b'. d_ctx d' s = Some b' \<and> same_entries b b' \<and> (c b \<longrightarrow> rb_sqeCnt b' = 0)))"
  proof (cases "c b")
    case False
    then show ?thesis using l b ok by (simp add: launch_when_def launches_refl)
  next
    case True
    then have "LaunchTask E fuel s d = Some (r, d')" using l b by (simp add: launch_when_def)
    note L = LaunchTask_launches[OF ok this]
    have "rel_option same_entries (d_ctx d s) (d_ctx d' s)" using L by (simp add: launches_def)
    then show ?thesis using L b by (cases "d_ctx d' s") auto
  qed
  then show "launches d d'" "r = HCCL_SUCCESS \<Longrightarrow> \<exists>b'. d_ctx d' s = Some b' \<and> same_entries b b' \<and> (c b \<longrightarrow> rb_sqeCnt b' = 0)"
    by simp_all
qed

text \<open>The flip placeholder that precedes the first entry after a wrap-around of the task number.\<close>

definition flips :: "SqeRingBuffer \<Rightarrow> bool" where
  "flips b \<longleftrightarrow> rb_tailSqeTaskId b = 0 \<and> rb_filpNum b \<noteq> 0"

definition flip_entries :: "nat \<Rightarrow> SqeRingBuffer \<Rightarrow> sqe list" where
  "flip_entries s b = (if flips b then [snd (AddOneFlipPlaceHolderSqeV1 (word_of_nat s) (rb_filpNum b) 0)] else [])"

lemma same_entries_flips: "same_entries b b' \<Longrightarrow> flips b' = flips b \<and> flip_entries s b' = flip_entries s b \<and>
    sequence b' = sequence b"
  by (simp add: same_entries_def flips_def flip_entries_def sequence_def)

lemma flip_when_appends:
  assumes ok: "device_ok d" and b: "d_ctx d s = Some b"
    and idx: "rb_tailSqeIdx b < HCCL_SQE_MAX_CNT \<or> rb_sqeCnt b = 0" and cnt: "Suc (rb_sqeCnt b) < d_depth d s"
    and f: "flip_when s op d = (r, d')"
  shows "r = HCCL_SUCCESS" "appends s (flip_entries s b) d d'"
    "\<exists>b'. d_ctx d' s = Some b' \<and> rb_sqeCnt b' \<le> Suc (rb_sqeCnt b) \<and>
      sequence b' = (sequence b + length (flip_entries s b)) mod 2 ^ 32 \<and>
      rb_tailSqeTaskId b' = (if flips b then 1 else rb_tailSqeTaskId b)"
proof -
  have "sequence b < 2 ^ 32"
    using unsigned_less[of "rb_filpNum b", where ?'a = nat] unsigned_less[of "rb_tailSqeTaskId b", where ?'a = nat]
    by (simp add: sequence_def)
  then have "r = HCCL_SUCCESS \<and> appends s (flip_entries s b) d d' \<and>
    (\<exists>b'. d_ctx d' s = Some b' \<and> rb_sqeCnt b' \<le> Suc (rb_sqeCnt b) \<and>
      sequence b' = (sequence b + length (flip_entries s b)) mod 2 ^ 32 \<and>
      rb_tailSqeTaskId b' = (if flips b then 1 else rb_tailSqeTaskId b))"
  proof (cases "flips b")
    case False
    then show ?thesis using f b ok \<open>sequence b < 2 ^ 32\<close>
      by (auto simp: flip_when_def flips_def flip_entries_def launches_appends[OF launches_refl])
  next
    case True
    let ?enc = "\<lambda>taskId slot. AddOneFlipPlaceHolderSqeV1 (word_of_nat s) (rb_filpNum b) taskId"
    obtain dfx where t: "take_sqe s dfx ?enc d = (r, d')"
      using True f b by (auto simp: flip_when_def flips_def AddFlipTask_def)
    note T = take_sqe_appends[OF ok b idx cnt t]
    show ?thesis using T True by (auto simp: flips_def flip_entries_def)
  qed
  then show "r = HCCL_SUCCESS" "appends s (flip_entries s b) d d'"
    "\<exists>b'. d_ctx d' s = Some b' \<and> rb_sqeCnt b' \<le> Suc (rb_sqeCnt b) \<and>
      sequence b' = (sequence b + length (flip_entries s b)) mod 2 ^ 32 \<and>
      rb_tailSqeTaskId b' = (if flips b then 1 else rb_tailSqeTaskId b)" by simp_all
qed

text \<open>Room: before an entry is taken, and after.\<close>

lemma chk_opt_Some: "chk_opt m k = Some (r, d') \<Longrightarrow>
    \<exists>r1 d1. m = Some (r1, d1) \<and> (if r1 = HCCL_SUCCESS then k d1 = Some (r, d') else (r, d') = (r1, d1))"
  by (auto simp: chk_opt_def split: option.splits if_splits)

lemma GetStreamSqeBufferAddr_appends:
  assumes ok: "device_ok d" and b: "d_ctx d s = Some b" and D: "HCCL_PER_LAUNCH_SQE_CNT + 1 < d_depth d s"
    and g: "GetStreamSqeBufferAddr E fuel s op d = Some (r, d')"
  shows "appends s [] d d' \<or> appends s (flip_entries s b) d d'"
    "r = HCCL_SUCCESS \<Longrightarrow> appends s (flip_entries s b) d d' \<and> (\<exists>b'. d_ctx d' s = Some b' \<and>
      (rb_tailSqeIdx b' < HCCL_SQE_MAX_CNT \<or> rb_sqeCnt b' = 0) \<and> Suc (rb_sqeCnt b') < d_depth d' s \<and>
      sequence b' = (sequence b + length (flip_entries s b)) mod 2 ^ 32 \<and>
      rb_tailSqeTaskId b' = (if flips b then 1 else rb_tailSqeTaskId b))"
proof -
  let ?d0 = "SaveStreamInfo s d" and ?full = "\<lambda>b. HCCL_SQE_MAX_CNT \<le> rb_tailSqeIdx b"
  have S: "appends s [] d ?d0" "d_ctx ?d0 = d_ctx d" using SaveStreamInfo_launches[OF ok, of s] by simp_all
  then have ok0: "device_ok ?d0" and b0: "d_ctx ?d0 s = Some b" using b by (simp_all add: appends_def)
  obtain r1 d1 where l1: "launch_when (\<lambda>b. HCCL_PER_LAUNCH_SQE_CNT \<le> rb_sqeCnt b) E fuel s ?d0 = Some (r1, d1)"
    and k1: "if r1 = HCCL_SUCCESS then chk_opt (launch_when ?full E fuel s d1) (\<lambda>d. chk_opt (Some (flip_when s op d))
          (\<lambda>d. launch_when ?full E fuel s d)) = Some (r, d') else (r, d') = (r1, d1)"
    using chk_opt_Some[OF g[unfolded GetStreamSqeBufferAddr_def]] by blast
  note L1 = launch_when_launches[OF ok0 b0 l1]
  have a1: "appends s [] d d1" using appends_trans[OF S(1) launches_appends[OF L1(1)]] by simp
  have ok1: "device_ok d1" using a1 by (simp add: appends_def)
  let ?claim1 = "appends s [] d d' \<or> appends s (flip_entries s b) d d'"
  let ?claim2 = "appends s (flip_entries s b) d d' \<and> (\<exists>b'. d_ctx d' s = Some b' \<and>
      (rb_tailSqeIdx b' < HCCL_SQE_MAX_CNT \<or> rb_sqeCnt b' = 0) \<and> Suc (rb_sqeCnt b') < d_depth d' s \<and>
      sequence b' = (sequence b + length (flip_entries s b)) mod 2 ^ 32 \<and>
      rb_tailSqeTaskId b' = (if flips b then 1 else rb_tailSqeTaskId b))"
  have "?claim1 \<and> (r = HCCL_SUCCESS \<longrightarrow> ?claim2)"
  proof (cases "r1 = HCCL_SUCCESS")
    case False
    then show ?thesis using k1 a1 by simp
  next
    case True
    obtain b1 where b1: "d_ctx d1 s = Some b1" "same_entries b b1" "HCCL_PER_LAUNCH_SQE_CNT \<le> rb_sqeCnt b \<longrightarrow> rb_sqeCnt b1 = 0"
      using L1(2)[OF True] by blast
    have cnt1: "rb_sqeCnt b1 < HCCL_PER_LAUNCH_SQE_CNT"
      using b1 by (auto simp: same_entries_def HCCL_PER_LAUNCH_SQE_CNT_def not_le)
    have k1': "chk_opt (launch_when ?full E fuel s d1) (\<lambda>d. chk_opt (Some (flip_when s op d))
          (\<lambda>d. launch_when ?full E fuel s d)) = Some (r, d')" using k1 True by simp
    obtain r2 d2 where l2: "launch_when ?full E fuel s d1 = Some (r2, d2)"
      and k2: "if r2 = HCCL_SUCCESS then chk_opt (Some (flip_when s op d2)) (\<lambda>d. launch_when ?full E fuel s d) = Some (r, d')
        else (r, d') = (r2, d2)"
      using chk_opt_Some[OF k1'] by blast
    note L2 = launch_when_launches[OF ok1 b1(1) l2]
    have a2: "appends s [] d d2" using appends_trans[OF a1 launches_appends[OF L2(1)]] by simp
    show ?thesis
    proof (cases "r2 = HCCL_SUCCESS")
      case False
      then show ?thesis using k2 a2 by simp
    next
      case True
      obtain b2 where b2: "d_ctx d2 s = Some b2" "same_entries b1 b2" "?full b1 \<longrightarrow> rb_sqeCnt b2 = 0"
        using L2(2)[OF True] by blast
      have ok2: "device_ok d2" and D2: "d_depth d2 = d_depth d" using a2 by (simp_all add: appends_def)
      have idx2: "rb_tailSqeIdx b2 < HCCL_SQE_MAX_CNT \<or> rb_sqeCnt b2 = 0" using b2 by (auto simp: same_entries_def)
      have cnt2: "rb_sqeCnt b2 < HCCL_PER_LAUNCH_SQE_CNT" using b2(2) cnt1 by (auto simp: same_entries_def)
      obtain r3 d3 where f: "flip_when s op d2 = (r3, d3)" by fastforce
      have "Suc (rb_sqeCnt b2) < d_depth d2 s" using cnt2 D D2 by simp
      note F = flip_when_appends[OF ok2 b2(1) idx2 this f]
      have fl: "flip_entries s b2 = flip_entries s b" "flips b2 = flips b" "sequence b2 = sequence b"
          "rb_tailSqeTaskId b2 = rb_tailSqeTaskId b"
        using same_entries_flips[OF same_entries_trans[OF b1(2) b2(2)]] same_entries_trans[OF b1(2) b2(2)]
        by (simp_all add: same_entries_def)
      have a3: "appends s (flip_entries s b) d d3" using appends_trans[OF a2 F(2)] by (simp add: fl)
      obtain b3 where b3: "d_ctx d3 s = Some b3" "rb_sqeCnt b3 \<le> Suc (rb_sqeCnt b2)"
        "sequence b3 = (sequence b + length (flip_entries s b)) mod 2 ^ 32"
        "rb_tailSqeTaskId b3 = (if flips b then 1 else rb_tailSqeTaskId b)" using F(3) by (auto simp: fl)
      have ok3: "device_ok d3" and D3: "d_depth d3 = d_depth d" using a3 by (simp_all add: appends_def)
      have l3: "launch_when ?full E fuel s d3 = Some (r, d')" using k2 True F(1) by (simp add: f chk_opt_def)
      note L3 = launch_when_launches[OF ok3 b3(1) l3]
      have a4: "appends s (flip_entries s b) d d'" using appends_trans[OF a3 launches_appends[OF L3(1)]] by simp
      have "?claim2" if rs: "r = HCCL_SUCCESS"
      proof -
        obtain b4 where b4: "d_ctx d' s = Some b4" "same_entries b3 b4" "?full b3 \<longrightarrow> rb_sqeCnt b4 = 0"
          using L3(2)[OF rs] by blast
        have "rb_tailSqeIdx b4 < HCCL_SQE_MAX_CNT \<or> rb_sqeCnt b4 = 0" using b4 by (auto simp: same_entries_def)
        moreover have "Suc (rb_sqeCnt b4) < d_depth d' s"
          using b4(2) b3(2) cnt2 D a4 by (auto simp: same_entries_def appends_def)
        moreover have "sequence b4 = sequence b3" "rb_tailSqeTaskId b4 = rb_tailSqeTaskId b3"
          using b4(2) by (simp_all add: same_entries_def sequence_def)
        ultimately show ?thesis using a4 b4(1) b3(3,4) by auto
      qed
      then show ?thesis using a4 by blast
    qed
  qed
  then show ?claim1 "r = HCCL_SUCCESS \<Longrightarrow> ?claim2" by blast+
qed

lemma emit_sqe_appends:
  assumes ok: "device_ok d" and b: "d_ctx d s = Some b" and D: "HCCL_PER_LAUNCH_SQE_CNT + 1 < d_depth d s"
    and e: "emit_sqe E fuel s op dfx enc d = Some (r, d')"
  shows "appends s [] d d' \<or> appends s (flip_entries s b) d d' \<or> r = HCCL_SUCCESS"
    "r = HCCL_SUCCESS \<Longrightarrow>
      appends s (flip_entries s b @ [snd (enc (if flips b then 1 else rb_tailSqeTaskId b) ZeroSqe)]) d d' \<and>
      (\<exists>b'. d_ctx d' s = Some b' \<and> sequence b' = (sequence b + length (flip_entries s b) + 1) mod 2 ^ 32 \<and>
        rb_tailSqeTaskId b' = (if flips b then 2 else rb_tailSqeTaskId b + 1))"
proof -
  obtain r1 d1 where g: "GetStreamSqeBufferAddr E fuel s op d = Some (r1, d1)"
    and k: "if r1 = HCCL_SUCCESS then Some (take_sqe s dfx enc d1) = Some (r, d') else (r, d') = (r1, d1)"
    using chk_opt_Some[OF e[unfolded emit_sqe_def]] by blast
  note G = GetStreamSqeBufferAddr_appends[OF ok b D g]
  let ?e = "snd (enc (if flips b then 1 else rb_tailSqeTaskId b) ZeroSqe)"
  have "(appends s [] d d' \<or> appends s (flip_entries s b) d d' \<or> r = HCCL_SUCCESS) \<and>
    (r = HCCL_SUCCESS \<longrightarrow> appends s (flip_entries s b @ [?e]) d d' \<and>
      (\<exists>b'. d_ctx d' s = Some b' \<and> sequence b' = (sequence b + length (flip_entries s b) + 1) mod 2 ^ 32 \<and>
        rb_tailSqeTaskId b' = (if flips b then 2 else rb_tailSqeTaskId b + 1)))"
  proof (cases "r1 = HCCL_SUCCESS")
    case False
    then show ?thesis using k G(1) by auto
  next
    case True
    obtain b1 where b1: "d_ctx d1 s = Some b1" "rb_tailSqeIdx b1 < HCCL_SQE_MAX_CNT \<or> rb_sqeCnt b1 = 0"
      "Suc (rb_sqeCnt b1) < d_depth d1 s" "sequence b1 = (sequence b + length (flip_entries s b)) mod 2 ^ 32"
      "rb_tailSqeTaskId b1 = (if flips b then 1 else rb_tailSqeTaskId b)"
      and a1: "appends s (flip_entries s b) d d1" using G(2)[OF True] by blast
    have ok1: "device_ok d1" using a1 by (simp add: appends_def)
    have t: "take_sqe s dfx enc d1 = (r, d')" using k True by simp
    note T = take_sqe_appends[OF ok1 b1(1,2,3) t]
    have "(sequence b1 + 1) mod 2 ^ 32 = (sequence b + length (flip_entries s b) + 1) mod 2 ^ 32"
      unfolding b1(4) by (rule mod_add_left_eq)
    then show ?thesis using T(1,3) appends_trans[OF a1 T(2)] b1(5) by auto
  qed
  then show "appends s [] d d' \<or> appends s (flip_entries s b) d d' \<or> r = HCCL_SUCCESS"
    "r = HCCL_SUCCESS \<Longrightarrow> appends s (flip_entries s b @ [?e]) d d' \<and>
      (\<exists>b'. d_ctx d' s = Some b' \<and> sequence b' = (sequence b + length (flip_entries s b) + 1) mod 2 ^ 32 \<and>
        rb_tailSqeTaskId b' = (if flips b then 2 else rb_tailSqeTaskId b + 1))" by blast+
qed

end
