(* ===== verification/SqeSpec.thy ===== *)
theory SqeSpec
  imports SqeProof "HOL-Library.Sublist"
begin

text \<open>
  What a stream promises, as an abstract machine: a queue of entries for each stream and a
  counter of the entries taken, modulo \<open>2 ^ 32\<close>. The detailed ring refines it, and a launch
  that waits for room returns when its time-out is set and the clock moves on.
\<close>

section \<open>The abstract queues\<close>

type_synonym queues = "nat \<Rightarrow> sqe list \<times> nat option"

definition abs_queues :: "device \<Rightarrow> queues" where
  "abs_queues d s = (issued d s, map_option sequence (d_ctx d s))"

text \<open>
  The entries one call adds: the low half of the counter is the task number, and when it wraps
  to zero a placeholder with the number of wraps takes the zero.
\<close>

definition spec_entries :: "nat \<Rightarrow> encoder \<Rightarrow> nat \<Rightarrow> sqe list" where
  "spec_entries s enc n =
     (if n mod 2 ^ 16 = 0 \<and> n \<noteq> 0
      then [snd (AddOneFlipPlaceHolderSqeV1 (word_of_nat s) (word_of_nat (n div 2 ^ 16)) 0), snd (enc 1 ZeroSqe)]
      else [snd (enc (word_of_nat (n mod 2 ^ 16)) ZeroSqe)])"

definition spec_emit :: "nat \<Rightarrow> encoder \<Rightarrow> queues \<Rightarrow> queues" where
  "spec_emit s enc q =
     (case snd (q s) of
        None \<Rightarrow> q
      | Some n \<Rightarrow> let es = spec_entries s enc n in q(s := (fst (q s) @ es, Some ((n + length es) mod 2 ^ 32))))"

text \<open>The calls on the rings: taking an entry, and the three ways to launch, which add nothing.\<close>

datatype ring_op =
    Emit nat u32 AicpuDfxInfo encoder
  | Launch nat
  | LaunchEx nat "nat list"
  | LaunchAll

fun run_op :: "launch_env \<Rightarrow> nat \<Rightarrow> ring_op \<Rightarrow> device \<Rightarrow> (HcclResult \<times> device) option" where
  "run_op E fuel (Emit s op dfx enc) d = emit_sqe E fuel s op dfx enc d"
| "run_op E fuel (Launch s) d = LaunchTask E fuel s d"
| "run_op E fuel (LaunchEx s ss) d = LaunchTasksEx E fuel s ss d"
| "run_op E fuel LaunchAll d = LaunchAllTasks E fuel d"

fun run_ops :: "launch_env \<Rightarrow> nat \<Rightarrow> ring_op list \<Rightarrow> device \<Rightarrow> (HcclResult \<times> device) option" where
  "run_ops E fuel [] d = Some (HCCL_SUCCESS, d)"
| "run_ops E fuel (x # xs) d = chk_opt (run_op E fuel x d) (run_ops E fuel xs)"

fun spec_op :: "ring_op \<Rightarrow> queues \<Rightarrow> queues" where
  "spec_op (Emit s op dfx enc) q = spec_emit s enc q"
| "spec_op _ q = q"

section \<open>The ring refines the queues\<close>

lemma flips_sequence: "flips b \<longleftrightarrow> sequence b mod 2 ^ 16 = 0 \<and> sequence b \<noteq> 0"
  "unat (rb_tailSqeTaskId b) = sequence b mod 2 ^ 16" "unat (rb_filpNum b) = sequence b div 2 ^ 16"
proof -
  have "unat (rb_filpNum b) < 65536" "unat (rb_tailSqeTaskId b) < 65536"
    using unsigned_less[of "rb_tailSqeTaskId b", where ?'a = nat] unsigned_less[of "rb_filpNum b", where ?'a = nat] by simp_all
  then show m: "unat (rb_tailSqeTaskId b) = sequence b mod 2 ^ 16" and "unat (rb_filpNum b) = sequence b div 2 ^ 16"
    by (simp_all add: sequence_def)
  have "rb_tailSqeTaskId b = 0 \<longleftrightarrow> unat (rb_tailSqeTaskId b) = 0" "rb_filpNum b = 0 \<longleftrightarrow> unat (rb_filpNum b) = 0"
    by (simp_all add: word_unat_eq_iff)
  then show "flips b \<longleftrightarrow> sequence b mod 2 ^ 16 = 0 \<and> sequence b \<noteq> 0"
    unfolding flips_def m[symmetric] by (auto simp: sequence_def)
qed

lemma spec_entries_code:
  "spec_entries s enc (sequence b) = flip_entries s b @ [snd (enc (if flips b then 1 else rb_tailSqeTaskId b) ZeroSqe)]"
proof -
  have "(word_of_nat (sequence b mod 2 ^ 16) :: u16) = rb_tailSqeTaskId b" "(word_of_nat (sequence b div 2 ^ 16) :: u16) = rb_filpNum b"
    unfolding flips_sequence(2,3)[symmetric] by simp_all
  then show ?thesis by (simp add: spec_entries_def flip_entries_def flips_sequence(1))
qed

lemma appends_abs:
  "appends s es d d' \<Longrightarrow> abs_queues d' =
    (\<lambda>t. (fst (abs_queues d t) @ (if t = s then es else []),
       map_option (\<lambda>n. (n + (if t = s then length es else 0)) mod 2 ^ 32) (snd (abs_queues d t))))"
  by (rule ext) (simp add: appends_def abs_queues_def option.map_comp comp_def)

text \<open>One call: what it adds is a prefix of what it should, and all of it when it succeeds.\<close>

lemma emit_sqe_no_ctx:
  assumes "device_ok d" "d_ctx d s = None" "emit_sqe E fuel s op dfx enc d = Some (r, d')"
  shows "appends s [] d d' \<and> r \<noteq> HCCL_SUCCESS"
proof -
  note S = SaveStreamInfo_launches[OF assms(1), of s s]
  then have "launch_when c E fuel s (SaveStreamInfo s d) = Some (HCCL_E_PTR, SaveStreamInfo s d)" for c
    using assms(2) by (simp add: launch_when_def)
  then show ?thesis using assms(3) S by (simp add: emit_sqe_def GetStreamSqeBufferAddr_def chk_opt_def)
qed

definition roomy :: "device \<Rightarrow> bool" where
  "roomy d \<longleftrightarrow> device_ok d \<and> (\<forall>s. HCCL_PER_LAUNCH_SQE_CNT + 1 < d_depth d s)"

lemma appends_roomy: "roomy d \<Longrightarrow> appends s es d d' \<Longrightarrow> roomy d'"
  by (simp add: roomy_def appends_def)

lemma launches_abs: "launches d d' \<Longrightarrow> abs_queues d' = abs_queues d"
proof -
  assume l: "launches d d'"
  have "map_option sequence (d_ctx d' t) = map_option sequence (d_ctx d t)" for t
  proof -
    have "rel_option same_entries (d_ctx d t) (d_ctx d' t)" using l by (simp add: launches_def)
    then show ?thesis by (cases "d_ctx d t"; cases "d_ctx d' t") (simp_all add: same_entries_def sequence_def)
  qed
  then show ?thesis using l by (auto simp: abs_queues_def launches_def)
qed

lemma launches_roomy: "roomy d \<Longrightarrow> launches d d' \<Longrightarrow> roomy d'"
  by (simp add: roomy_def launches_def)

lemma LaunchTasks_launches: "device_ok d \<Longrightarrow> LaunchTasks E fuel ss d = Some (r, d') \<Longrightarrow> launches d d'"
proof (induction ss arbitrary: d)
  case Nil
  then show ?case by (simp add: launches_refl)
next
  case (Cons s ss)
  obtain r1 d1 where l: "LaunchTask E fuel s d = Some (r1, d1)"
    and k: "if r1 = HCCL_SUCCESS then LaunchTasks E fuel ss d1 = Some (r, d') else (r, d') = (r1, d1)"
    using chk_opt_Some[OF Cons.prems(2)[unfolded LaunchTasks.simps]] by blast
  have l1: "launches d d1" using LaunchTask_launches[OF Cons.prems(1) l] by simp
  then have "device_ok d1" by (simp add: launches_def)
  then show ?case using Cons.IH k l1 launches_trans[OF l1] by (auto split: if_splits)
qed

lemma emit_refines:
  assumes d: "roomy d" and e: "emit_sqe E fuel s op dfx enc d = Some (r, d')"
  shows "\<exists>es. appends s es d d' \<and> prefix (fst (abs_queues d s) @ es) (fst (spec_emit s enc (abs_queues d) s)) \<and>
    (r = HCCL_SUCCESS \<longrightarrow> abs_queues d' = spec_emit s enc (abs_queues d))"
proof (cases "d_ctx d s")
  case None
  have "device_ok d" using d by (simp add: roomy_def)
  from emit_sqe_no_ctx[OF this None e] show ?thesis
    by (intro exI[of _ "[]"]) (simp add: spec_emit_def abs_queues_def None)
next
  case (Some b)
  have ok: "device_ok d" and D: "HCCL_PER_LAUNCH_SQE_CNT + 1 < d_depth d s" using d by (simp_all add: roomy_def)
  note A = emit_sqe_appends[OF ok Some D e]
  let ?es = "spec_entries s enc (sequence b)"
  have q: "spec_emit s enc (abs_queues d) =
      (abs_queues d)(s := (issued d s @ ?es, Some ((sequence b + length ?es) mod 2 ^ 32)))"
    by (simp add: spec_emit_def abs_queues_def Some Let_def)
  show ?thesis
  proof (cases "r = HCCL_SUCCESS")
    case True
    then have a: "appends s ?es d d'" using A(2) by (simp add: spec_entries_code)
    have "map_option (\<lambda>n. n mod 2 ^ 32) (snd (abs_queues d t)) = snd (abs_queues d t)" for t
      using sequence_less by (simp add: abs_queues_def option.map_comp comp_def mod_less cong: map_option_cong)
    then have "abs_queues d' = spec_emit s enc (abs_queues d)"
      unfolding q appends_abs[OF a] by (auto simp: fun_eq_iff abs_queues_def Some)
    then show ?thesis using a unfolding q by (intro exI[of _ ?es]) (simp add: abs_queues_def)
  next
    case False
    then obtain es where "appends s es d d'" "es = [] \<or> es = flip_entries s b" using A(1) by blast
    then show ?thesis using False unfolding q
      by (intro exI[of _ es]) (auto simp: abs_queues_def spec_entries_code)
  qed
qed

lemma run_op_refines:
  assumes d: "roomy d" and x: "run_op E fuel x d = Some (r, d')"
  shows "roomy d'" "r = HCCL_SUCCESS \<Longrightarrow> abs_queues d' = spec_op x (abs_queues d)"
    "prefix (fst (abs_queues d s)) (fst (abs_queues d' s))"
    "prefix (fst (abs_queues d' s)) (fst (spec_op x (abs_queues d) s))"
proof -
  have ok: "device_ok d" using d by (simp add: roomy_def)
  have "roomy d' \<and> (r = HCCL_SUCCESS \<longrightarrow> abs_queues d' = spec_op x (abs_queues d)) \<and>
    prefix (fst (abs_queues d s)) (fst (abs_queues d' s)) \<and> prefix (fst (abs_queues d' s)) (fst (spec_op x (abs_queues d) s))"
  proof (cases "\<exists>t op dfx enc. x = Emit t op dfx enc")
    case True
    then obtain t op dfx enc where x': "x = Emit t op dfx enc" by blast
    obtain es where a: "appends t es d d'" "prefix (fst (abs_queues d t) @ es) (fst (spec_emit t enc (abs_queues d) t))"
      "r = HCCL_SUCCESS \<longrightarrow> abs_queues d' = spec_emit t enc (abs_queues d)"
      using emit_refines[OF d, of E fuel t op dfx enc r d'] x by (auto simp: x')
    have "fst (spec_emit t enc (abs_queues d) s) = fst (abs_queues d s)" if "s \<noteq> t"
      using that by (simp add: spec_emit_def Let_def split: option.split)
    then show ?thesis using a appends_roomy[OF d a(1)] by (cases "s = t") (simp_all add: x' appends_abs[OF a(1)])
  next
    case False
    then have "launches d d'" using x LaunchTask_launches[OF ok] LaunchTasks_launches[OF ok]
      by (cases x) (auto simp: LaunchTasksEx_def LaunchAllTasks_def simp del: LaunchTasks.simps)
    then show ?thesis using False launches_roomy[OF d] by (cases x) (simp_all add: launches_abs)
  qed
  then show "roomy d'" "r = HCCL_SUCCESS \<Longrightarrow> abs_queues d' = spec_op x (abs_queues d)"
    "prefix (fst (abs_queues d s)) (fst (abs_queues d' s))"
    "prefix (fst (abs_queues d' s)) (fst (spec_op x (abs_queues d) s))" by simp_all
qed

lemma spec_op_grows: "prefix (fst (q s)) (fst (spec_op x q s))"
  by (cases x) (auto simp: spec_emit_def Let_def split: option.split)

lemma spec_ops_grow: "prefix (fst (q s)) (fst (fold spec_op xs q s))"
proof (induction xs arbitrary: q)
  case (Cons x xs)
  show ?case using prefix_order.trans[OF spec_op_grows Cons.IH] by simp
qed simp

lemma run_ops_refines:
  "roomy d \<Longrightarrow> run_ops E fuel xs d = Some (r, d') \<Longrightarrow> roomy d' \<and>
    (r = HCCL_SUCCESS \<longrightarrow> abs_queues d' = fold spec_op xs (abs_queues d)) \<and>
    prefix (fst (abs_queues d s)) (fst (abs_queues d' s)) \<and>
    prefix (fst (abs_queues d' s)) (fst (fold spec_op xs (abs_queues d) s))"
proof (induction xs arbitrary: d)
  case (Cons x xs)
  obtain r1 d1 where x: "run_op E fuel x d = Some (r1, d1)"
    and k: "if r1 = HCCL_SUCCESS then run_ops E fuel xs d1 = Some (r, d') else (r, d') = (r1, d1)"
    using chk_opt_Some[OF Cons.prems(2)[unfolded run_ops.simps]] by blast
  note X = run_op_refines[OF Cons.prems(1) x]
  show ?case
  proof (cases "r1 = HCCL_SUCCESS")
    case True
    then have "run_ops E fuel xs d1 = Some (r, d')" using k by simp
    from Cons.IH[OF X(1) this] X(2)[OF True] X(3)[of s] show ?thesis
      by (auto intro: prefix_order.trans)
  next
    case False
    then have "r = r1" "d' = d1" using k by simp_all
    then show ?thesis using False X(1,3) prefix_order.trans[OF X(4) spec_ops_grow] by simp
  qed
qed simp

text \<open>
  C33: The rings refine the abstract queues: after any calls that take entries and launch them,
  at any pace of the scheduler and whatever fails, each stream has been given a prefix of the
  entries its queue should hold, all of them and with the right task numbers when the calls
  succeed, and what the scheduler has executed is a prefix of that, in the order of the calls.
\<close>

theorem ring_refines_queues:
  assumes "roomy d" "run_ops E fuel xs d = Some (r, d')"
  shows "roomy d' \<and>
    (r = HCCL_SUCCESS \<longrightarrow> abs_queues d' = fold spec_op xs (abs_queues d)) \<and>
    (\<forall>s. prefix (issued d s) (issued d' s) \<and> prefix (issued d' s) (fst (fold spec_op xs (abs_queues d) s)) \<and>
      prefix (q_done (d_hw d' s)) (issued d' s))"
proof -
  have q: "issued e s = fst (abs_queues e s)" for e s by (simp add: abs_queues_def)
  have "prefix (q_done (d_hw d' s)) (issued d' s)" for s by (simp add: issued_def)
  then show ?thesis using run_ops_refines[OF assms] unfolding q by blast
qed

text \<open>
  A stream of 256 slots whose task number has just wrapped for the first time: recording a
  notification takes the placeholder and the entry, and the launch puts both into the ring.
\<close>

definition wrapped_buffer :: SqeRingBuffer where
  "wrapped_buffer = \<lparr>rb_localBuff = \<lambda>_. ZeroSqe, rb_rtsMirrorBuffer = \<lambda>_. ZeroSqe, rb_rtsqSqeType = \<lambda>_. SQE_TYPE_DEFAULT,
     rb_sqeType = \<lambda>_. SQE_TYPE_DEFAULT, rb_dfxInfo = \<lambda>_. \<lparr>df_remoteRank = 0, df_opRingBufferIdx = 0, df_notifyId = 0\<rparr>,
     rb_rtsDfxInfo = \<lambda>_. \<lparr>df_remoteRank = 0, df_opRingBufferIdx = 0, df_notifyId = 0\<rparr>, rb_addInfo = \<lambda>_. 0,
     rb_tailSqeTaskId = 0, rb_tailSqeIdx = 0, rb_sqeCnt = 0, rb_sqHead = 255, rb_sqTail = 255, rb_filpNum = 1\<rparr>"

definition device1 :: device where
  "device1 = \<lparr>d_depth = \<lambda>_. 256, d_ctx = [0 \<mapsto> wrapped_buffer],
     d_hw = \<lambda>_. \<lparr>q_ring = \<lambda>_. ZeroSqe, q_head = 255, q_tail = 255, q_done = []\<rparr>, d_streamMap = [], d_needAddSqe = False,
     d_cache = [], d_now = 0,
     d_dfxTimeOut = \<lparr>to_sqeTimeOutTimeOut = 1, to_sqeCreditTimeOut = 255, to_useCredit = False, to_sqeWaitTimeOut = 960,
       to_sqFullWaitTimeOut = 60\<rparr>\<rparr>"

definition quiet_env :: launch_env where
  "quiet_env = \<lparr>e_query = \<lambda>_. HCCL_SUCCESS, e_config = \<lambda>_. HCCL_SUCCESS, e_cache = \<lambda>_. HCCL_SUCCESS, e_executed = \<lambda>_ _. 0,
     e_time = \<lambda>k. of_nat k * 10 ^ 12, e_status = \<lambda>_. HCCL_SUCCESS\<rparr>"

definition record7 :: ring_op where
  "record7 = Emit 0 0 \<lparr>df_remoteRank = 1, df_opRingBufferIdx = 0, df_notifyId = 7\<rparr> (\<lambda>t slot. AddOneRecordSqeV1 0 t 7)"

lemma device1_roomy: "roomy device1"
  by (simp add: roomy_def device_ok_def stream_ok_def device1_def wrapped_buffer_def ctx_ok_def HCCL_SQE_MAX_CNT_def
      HCCL_PER_LAUNCH_SQE_CNT_def Let_def)

lemma device1_queues: "abs_queues device1 0 = ([], Some 65536)"
  by (simp add: abs_queues_def issued_def pending_def waiting_def device1_def wrapped_buffer_def sequence_def)

lemma device1_run: "\<exists>d'. run_ops quiet_env 1 [record7, Launch 0] device1 = Some (HCCL_SUCCESS, d')"
  apply (simp add: record7_def emit_sqe_def GetStreamSqeBufferAddr_def SaveStreamInfo_def launch_when_def device1_def
      wrapped_buffer_def chk_opt_def flip_when_def AddFlipTask_def HCCL_PER_LAUNCH_SQE_CNT_def HCCL_SQE_MAX_CNT_def
      take_sqe_def GetNextSqeBufferAddr_def fill_sqe_def set_ctx_def Let_def AddOneFlipPlaceHolderSqeV1_def
      AddOneRecordSqeV1_def LaunchTask_def)
  apply (subst wait_space.simps)
  apply (simp add: rtsq_full_def launch_if_ready_def launch_now_def write_ring_def AddToCache_def move_tail_def quiet_env_def
      clear_count_def set_ctx_def set_hw_def Let_def)
  done

lemma ring_refines_queues_witness:
  "\<exists>d'. run_ops quiet_env 1 [record7, Launch 0] device1 = Some (HCCL_SUCCESS, d') \<and>
     issued d' 0 = [snd (AddOneFlipPlaceHolderSqeV1 0 1 0), snd (AddOneRecordSqeV1 0 1 7)]"
proof -
  obtain d' where d': "run_ops quiet_env 1 [record7, Launch 0] device1 = Some (HCCL_SUCCESS, d')" using device1_run by blast
  have "abs_queues d' 0 = fold spec_op [record7, Launch 0] (abs_queues device1) 0"
    using ring_refines_queues[OF device1_roomy d'] by simp
  then have "fst (abs_queues d' 0) = [snd (AddOneFlipPlaceHolderSqeV1 0 1 0), snd (AddOneRecordSqeV1 0 1 7)]"
    by (simp add: record7_def spec_emit_def spec_entries_def device1_queues Let_def)
  then show ?thesis using d' by (simp add: abs_queues_def)
qed

section \<open>Waiting ends\<close>

lemma launch_now_keeps: "launch_now E t b d = (r, d') \<Longrightarrow> d_now d' = d_now d \<and> d_dfxTimeOut d' = d_dfxTimeOut d"
  by (auto simp: launch_now_def write_ring_def AddToCache_def move_tail_def clear_count_def set_ctx_def set_hw_def Let_def
      split: if_splits option.splits)

lemma LaunchTask_nonblocking_keeps:
  "LaunchTask_nonblocking E t d = (r, d') \<Longrightarrow> d_now d \<le> d_now d' \<and> d_dfxTimeOut d' = d_dfxTimeOut d"
  by (auto simp: LaunchTask_nonblocking_def QuerySqHead_def environment_step_def set_ctx_def Let_def
      split: if_splits option.splits dest: launch_now_keeps)

lemma launch_others_keeps:
  "launch_others E s ts d = (r, d') \<Longrightarrow> d_now d \<le> d_now d' \<and> d_dfxTimeOut d' = d_dfxTimeOut d"
proof (induction ts arbitrary: d)
  case (Cons t ts)
  obtain r1 d1 where l: "LaunchTask_nonblocking E t d = (r1, d1)" by fastforce
  show ?case using Cons.IH[of d] Cons.IH[of d1] Cons.prems LaunchTask_nonblocking_keeps[OF l]
    by (fastforce simp: l split: if_splits)
qed simp

definition expired :: "launch_env \<Rightarrow> u64 \<Rightarrow> DfxTimeOutConfig \<Rightarrow> nat \<Rightarrow> bool" where
  "expired E startTime cfg K \<longleftrightarrow> to_sqFullWaitTimeOut cfg \<noteq> 0 \<and>
     (\<forall>k\<ge>K. NANOSECOND_TO_SECOND * to_sqFullWaitTimeOut cfg < e_time E k - startTime)"

lemma wait_space_returns:
  "expired E t0 (d_dfxTimeOut d) K \<Longrightarrow> K \<le> d_now d + fuel \<Longrightarrow> 0 < fuel \<Longrightarrow> \<exists>r d'. wait_space E fuel cnt t0 s d = Some (r, d')"
proof (induction fuel arbitrary: d)
  case (Suc n)
  obtain r1 h d1 where q: "QuerySqHead E s d = (r1, h, d1)" by (cases "QuerySqHead E s d") auto
  have d1: "d_now d1 = Suc (d_now d)" "d_dfxTimeOut d1 = d_dfxTimeOut d"
    using q by (auto simp: QuerySqHead_def environment_step_def Let_def)
  show ?case
  proof (cases "d_ctx d s")
    case (Some b)
    obtain r2 d2 where o: "launch_others E s (d_streamMap d1) (set_ctx s (b\<lparr>rb_sqHead := h\<rparr>) d1) = (r2, d2)" by fastforce
    have d2: "Suc (d_now d) \<le> d_now d2" "d_dfxTimeOut d2 = d_dfxTimeOut d"
      using launch_others_keeps[OF o] d1 by (simp_all add: set_ctx_def)
    have "\<exists>r d'. wait_space E n cnt t0 s d2 = Some (r, d')" if "d_now d2 < K"
      using Suc.IH[of d2] Suc.prems d2 that by simp
    moreover have "NANOSECOND_TO_SECOND * to_sqFullWaitTimeOut (d_dfxTimeOut d2) < e_time E (d_now d2) - t0 \<and>
        to_sqFullWaitTimeOut (d_dfxTimeOut d2) \<noteq> 0" if "K \<le> d_now d2"
      using Suc.prems(1) d2(2) that by (simp add: expired_def)
    ultimately show ?thesis
      by (cases "K \<le> d_now d2") (subst wait_space.simps, auto simp: Some q o Let_def)+
  qed (subst wait_space.simps, simp)
qed simp

text \<open>
  C34: A launch that waits for room returns: with a time-out configured and a clock that has
  passed it from the \<open>K\<close>-th driver call on, \<open>K\<close> turns of the waiting loop are enough, whatever
  the scheduler does and the other streams need.
\<close>

theorem LaunchTask_returns:
  assumes "expired E (e_time E (d_now d)) (d_dfxTimeOut d) K" "0 < fuel" "K \<le> d_now d + fuel"
  shows "\<exists>r d'. LaunchTask E fuel s d = Some (r, d')"
proof -
  have w: "wait_space E fuel cnt (e_time E (d_now d)) s d \<noteq> None" for cnt
    using wait_space_returns[OF assms(1,3,2), of cnt s] by auto
  have "LaunchTask E fuel s d \<noteq> None"
    using w by (simp add: LaunchTask_def chk_opt_def del: not_None_eq split: option.split)
  then show ?thesis by auto
qed

text \<open>The ring of \<open>full_device\<close> is full and the scheduler stands still.\<close>

definition full_device :: device where
  "full_device = device1\<lparr>d_ctx := [0 \<mapsto> wrapped_buffer\<lparr>rb_sqeCnt := 1, rb_tailSqeIdx := 1, rb_sqHead := 0\<rparr>],
     d_hw := \<lambda>_. \<lparr>q_ring = \<lambda>_. ZeroSqe, q_head = 0, q_tail = 255, q_done = []\<rparr>\<rparr>"

definition late_env :: launch_env where
  "late_env = quiet_env\<lparr>e_time := \<lambda>k. if k < 5 then 0 else 10 ^ 12\<rparr>"

lemma LaunchTask_returns_witness: "\<exists>r d'. LaunchTask late_env 5 0 full_device = Some (r, d')"
proof (rule LaunchTask_returns[where K = 5])
  show "expired late_env (e_time late_env (d_now full_device)) (d_dfxTimeOut full_device) 5"
    by (simp add: expired_def late_env_def quiet_env_def full_device_def device1_def NANOSECOND_TO_SECOND_def)
qed (simp_all add: full_device_def device1_def)

end
