(* ===== verification/UnfoldEntry.thy ===== *)
theory UnfoldEntry
  imports SqeSpec
begin

unbundle bit_operations_syntax

text \<open>
  An entry of the cache of unfolded operators: the SQEs of one operator as they were launched
  the first time, without the flip placeholders, and with each address a note of the memory of
  the user it points into. When the operator is called again the SQEs are refreshed in place,
  with new task numbers and with the addresses moved to the memory of the call, and for the
  operators of the AlltoAllV kind with the counts of the call.
\<close>

section \<open>Results\<close>

definition attempt :: "HcclResult + 'a \<Rightarrow> ('a \<Rightarrow> HcclResult + 'b) \<Rightarrow> HcclResult + 'b" where
  "attempt m k = (case m of Inl r \<Rightarrow> Inl r | Inr a \<Rightarrow> k a)"

definition require :: "bool \<Rightarrow> HcclResult + 'a \<Rightarrow> HcclResult + 'a" where
  "require c m = (if c then m else Inl HCCL_E_INTERNAL)"

lemma attempt_simps [simp]: "attempt (Inl r) k = Inl r" "attempt (Inr a) k = k a"
  by (simp_all add: attempt_def)

lemma attempt_Inr: "attempt m k = Inr b \<longleftrightarrow> (\<exists>a. m = Inr a \<and> k a = Inr b)"
  by (cases m) simp_all

lemma require_Inr [simp]: "require c m = Inr b \<longleftrightarrow> c \<and> m = Inr b"
  by (simp add: require_def)

section \<open>Ranges of memory\<close>

record OpUnfoldMemRange =
  mr_isValid :: bool
  mr_baseAddr :: u64
  mr_memSize :: u64

definition GetEndAddr :: "OpUnfoldMemRange \<Rightarrow> HcclResult + u64" where
  "GetEndAddr m = require (\<not> mr_baseAddr m + mr_memSize m < mr_baseAddr m) (Inr (mr_baseAddr m + mr_memSize m))"

definition InRange :: "OpUnfoldMemRange \<Rightarrow> u64 \<Rightarrow> HcclResult + bool" where
  "InRange m addr = attempt (GetEndAddr m) (\<lambda>endAddr. Inr (mr_isValid m \<and> mr_baseAddr m \<le> addr \<and> addr < endAddr))"

datatype MemType = INVALID_MEMTYPE | USER_INPUT_MEMTYPE | USER_OUTPUT_MEMTYPE | HCCL_INPUT_MEMTYPE

record RefreshAddrInfo =
  ri_rankId :: nat
  ri_memType :: MemType

definition new_RefreshAddrInfo :: RefreshAddrInfo where
  "new_RefreshAddrInfo = \<lparr>ri_rankId = unat INVALID_VALUE_RANKID, ri_memType = INVALID_MEMTYPE\<rparr>"

section \<open>What an AlltoAllV call brings along\<close>

text \<open>The sizes of the element types and the number that marks no type are the runtime's.\<close>

record unfold_types =
  ut_size :: "nat \<Rightarrow> u64"
  ut_reserved :: nat

record AlltoallvMetadata =
  am_sdmaDataBlockSize :: u64
  am_hcclInputMemRanges :: "OpUnfoldMemRange list"
  am_notifyIdRankRflagMap :: "(u32 \<times> nat \<times> bool) list"
  am_signalAddrRankRflagMap :: "(u64 \<times> nat \<times> bool) list"
  am_hcclOffsetDstRanksIdxMap :: "(u64 \<times> nat list \<times> nat) list"

record AlltoallvSendRecvInfo =
  as_sendType :: nat
  as_recvType :: nat
  as_sendCounts :: "u64 list"
  as_recvCounts :: "u64 list"
  as_sendOffsets :: "u64 list"
  as_recvOffsets :: "u64 list"

definition metadata_Clear :: AlltoallvMetadata where
  "metadata_Clear = \<lparr>am_sdmaDataBlockSize = 0, am_hcclInputMemRanges = [], am_notifyIdRankRflagMap = [],
     am_signalAddrRankRflagMap = [], am_hcclOffsetDstRanksIdxMap = []\<rparr>"

definition metadata_Check :: "AlltoallvMetadata \<Rightarrow> bool \<Rightarrow> HcclResult + unit" where
  "metadata_Check A afterFirstOrch =
     (let rankSize = length (am_hcclInputMemRanges A) in
      require (am_sdmaDataBlockSize A \<noteq> 0)
        (require (rankSize \<noteq> 0)
          (require (length (am_notifyIdRankRflagMap A) = 2 * (rankSize - 1))
            (require (length (am_signalAddrRankRflagMap A) = 2 * (rankSize - 1))
              (require (afterFirstOrch \<longrightarrow> \<not> (1 < rankSize \<and> am_hcclOffsetDstRanksIdxMap A = [])) (Inr ()))))))"

definition info_Check :: "unfold_types \<Rightarrow> AlltoallvSendRecvInfo \<Rightarrow> HcclResult + unit" where
  "info_Check T I =
     require (as_sendType I \<noteq> ut_reserved T)
       (require (as_recvType I \<noteq> ut_reserved T)
         (let rankSize = length (as_sendCounts I) in
          require (rankSize \<noteq> 0)
            (require (length (as_recvCounts I) = rankSize)
              (require (length (as_sendOffsets I) = rankSize)
                (require (length (as_recvOffsets I) = rankSize) (Inr ()))))))"

section \<open>The entry\<close>

text \<open>
  The parallel arrays of the code are lists of items here, one item for each SQE. The arrays a
  refused \<open>AllocSqeArray\<close> leaves in the first three tables, without a stream and without notes, are
  counted in \<open>en_unbound\<close>.
\<close>

record cached_item =
  ci_sqe :: sqe
  ci_type :: SqeType
  ci_dfx :: AicpuDfxInfo
  ci_src :: RefreshAddrInfo
  ci_dst :: RefreshAddrInfo

record sqe_array =
  sa_streamId :: int
  sa_items :: "cached_item list"

record OpUnfoldCacheEntry =
  en_arrays :: "sqe_array list"
  en_unbound :: nat
  en_streamSeqIdxes :: "nat list"
  en_userInputMemRanges :: "OpUnfoldMemRange list"
  en_userOutputMemRanges :: "OpUnfoldMemRange list"

definition new_OpUnfoldCacheEntry :: "OpUnfoldMemRange list \<Rightarrow> OpUnfoldMemRange list \<Rightarrow> OpUnfoldCacheEntry" where
  "new_OpUnfoldCacheEntry inputs outputs =
     \<lparr>en_arrays = [], en_unbound = 0, en_streamSeqIdxes = [], en_userInputMemRanges = inputs, en_userOutputMemRanges = outputs\<rparr>"

definition GetSqeArrayCount :: "OpUnfoldCacheEntry \<Rightarrow> HcclResult + nat" where
  "GetSqeArrayCount en =
     (let n = length (en_arrays en) + en_unbound en in require (n \<noteq> 0) (Inr n))"

text \<open>
  The fresh arrays are memory the code does not clear; they are not read before
  \<open>MemcpySqeArray\<close> has written them. The allocator succeeds. The stream is checked after the three
  tables have grown, and the index is that of the largest table: after a refused call it lies
  past the ends of the other tables.
\<close>

definition fresh_item :: cached_item where
  "fresh_item = \<lparr>ci_sqe = ZeroSqe, ci_type = SQE_TYPE_DEFAULT,
     ci_dfx = \<lparr>df_remoteRank = 0, df_opRingBufferIdx = 0, df_notifyId = 0\<rparr>,
     ci_src = new_RefreshAddrInfo, ci_dst = new_RefreshAddrInfo\<rparr>"

definition AllocSqeArray :: "nat \<Rightarrow> int \<Rightarrow> nat \<Rightarrow> OpUnfoldCacheEntry \<Rightarrow> HcclResult \<times> nat \<times> OpUnfoldCacheEntry" where
  "AllocSqeArray sqeCount streamId arrayIdx en =
     (if streamId < 0 then (HCCL_E_INTERNAL, arrayIdx, en\<lparr>en_unbound := en_unbound en + 1\<rparr>)
      else (HCCL_SUCCESS, length (en_arrays en) + en_unbound en,
            en\<lparr>en_arrays := en_arrays en @ [\<lparr>sa_streamId = streamId, sa_items = replicate sqeCount fresh_item\<rparr>]\<rparr>))"

section \<open>Addresses in an SQE\<close>

definition CombineUint32ToUint64 :: "u32 \<Rightarrow> u32 \<Rightarrow> u64" where
  "CombineUint32ToUint64 high low = push_bit 32 (ucast high) OR ucast low"

definition split_high :: "u64 \<Rightarrow> u32" where "split_high addr = ucast (drop_bit 32 addr)"
definition split_low :: "u64 \<Rightarrow> u32" where "split_low addr = ucast (addr AND 0xFFFFFFFF)"

definition memcpy_src :: "rtStarsMemcpyAsyncSqe \<Rightarrow> u64" where
  "memcpy_src p = CombineUint32ToUint64 (mc_src_addr_high p) (mc_src_addr_low p)"
definition memcpy_dst :: "rtStarsMemcpyAsyncSqe \<Rightarrow> u64" where
  "memcpy_dst p = CombineUint32ToUint64 (mc_dst_addr_high p) (mc_dst_addr_low p)"
definition write_addr :: "rtStarsWriteValueSqe \<Rightarrow> u64" where
  "write_addr w = CombineUint32ToUint64 (wv_write_addr_high w) (wv_write_addr_low w)"

definition set_memcpy_src :: "u64 \<Rightarrow> rtStarsMemcpyAsyncSqe \<Rightarrow> rtStarsMemcpyAsyncSqe" where
  "set_memcpy_src a p = p\<lparr>mc_src_addr_high := split_high a, mc_src_addr_low := split_low a\<rparr>"
definition set_memcpy_dst :: "u64 \<Rightarrow> rtStarsMemcpyAsyncSqe \<Rightarrow> rtStarsMemcpyAsyncSqe" where
  "set_memcpy_dst a p = p\<lparr>mc_dst_addr_high := split_high a, mc_dst_addr_low := split_low a\<rparr>"
definition set_write_addr :: "u64 \<Rightarrow> rtStarsWriteValueSqe \<Rightarrow> rtStarsWriteValueSqe" where
  "set_write_addr a w = w\<lparr>wv_write_addr_high := split_high a AND 0x1FFFF, wv_write_addr_low := split_low a\<rparr>"

text \<open>The range of the user's memory, or the rank's input buffer, an address lies in.\<close>

fun range_index :: "u64 \<Rightarrow> nat \<Rightarrow> OpUnfoldMemRange list \<Rightarrow> HcclResult + nat option" where
  "range_index addr i [] = Inr None"
| "range_index addr i (m # ms) =
     attempt (InRange m addr) (\<lambda>inside. if inside then Inr (Some i) else range_index addr (i + 1) ms)"

definition CheckAndPrepareRefreshAddrInfo ::
  "OpUnfoldCacheEntry \<Rightarrow> u64 \<Rightarrow> RefreshAddrInfo \<Rightarrow> bool \<Rightarrow> AlltoallvMetadata option \<Rightarrow> HcclResult + RefreshAddrInfo" where
  "CheckAndPrepareRefreshAddrInfo en addr info isAlltoallv A =
     attempt (range_index addr 0 (en_userInputMemRanges en)) (\<lambda>i. case i of
       Some rank \<Rightarrow> Inr \<lparr>ri_rankId = rank, ri_memType = USER_INPUT_MEMTYPE\<rparr>
     | None \<Rightarrow> attempt (range_index addr 0 (en_userOutputMemRanges en)) (\<lambda>i. case i of
         Some rank \<Rightarrow> Inr \<lparr>ri_rankId = rank, ri_memType = USER_OUTPUT_MEMTYPE\<rparr>
       | None \<Rightarrow>
           if \<not> isAlltoallv then Inr info
           else case A of None \<Rightarrow> Inl HCCL_E_PTR | Some A \<Rightarrow>
             attempt (metadata_Check A False) (\<lambda>_.
               attempt (range_index addr 0 (am_hcclInputMemRanges A)) (\<lambda>i. case i of
                 Some rank \<Rightarrow> Inr \<lparr>ri_rankId = rank, ri_memType = HCCL_INPUT_MEMTYPE\<rparr>
               | None \<Rightarrow> Inr info))))"

section \<open>Filling the entry\<close>

definition note_src :: "OpUnfoldCacheEntry \<Rightarrow> bool \<Rightarrow> AlltoallvMetadata option \<Rightarrow> u64 \<Rightarrow> cached_item \<Rightarrow> HcclResult \<times> cached_item" where
  "note_src en isAlltoallv A addr x =
     (case CheckAndPrepareRefreshAddrInfo en addr (ci_src x) isAlltoallv A of
        Inl r \<Rightarrow> (r, x) | Inr info \<Rightarrow> (HCCL_SUCCESS, x\<lparr>ci_src := info\<rparr>))"

definition note_dst :: "OpUnfoldCacheEntry \<Rightarrow> bool \<Rightarrow> AlltoallvMetadata option \<Rightarrow> u64 \<Rightarrow> cached_item \<Rightarrow> HcclResult \<times> cached_item" where
  "note_dst en isAlltoallv A addr x =
     (case CheckAndPrepareRefreshAddrInfo en addr (ci_dst x) isAlltoallv A of
        Inl r \<Rightarrow> (r, x) | Inr info \<Rightarrow> (HCCL_SUCCESS, x\<lparr>ci_dst := info\<rparr>))"

text \<open>The SQE is read by its type; an SQE of another format has no addresses here.\<close>

definition as_memcpy :: "sqe \<Rightarrow> rtStarsMemcpyAsyncSqe option" where
  "as_memcpy e = (case e of MemcpySqe p \<Rightarrow> Some p | _ \<Rightarrow> None)"
definition as_write :: "sqe \<Rightarrow> rtStarsWriteValueSqe option" where
  "as_write e = (case e of WriteValueSqe w \<Rightarrow> Some w | _ \<Rightarrow> None)"
definition as_notify :: "sqe \<Rightarrow> rtStarsNotifySqeV1 option" where
  "as_notify e = (case e of NotifySqe n \<Rightarrow> Some n | _ \<Rightarrow> None)"
definition as_placeholder :: "sqe \<Rightarrow> rtStarsPlaceHolderSqe option" where
  "as_placeholder e = (case e of PlaceHolderSqe p \<Rightarrow> Some p | _ \<Rightarrow> None)"
definition as_memcpy_tag :: "rtStarsPlaceHolderSqe \<Rightarrow> rtCacheMemcpyTaskTag option" where
  "as_memcpy_tag p = (case ph_u p of CacheMemcpyTask c \<Rightarrow> Some c | _ \<Rightarrow> None)"

definition note_item :: "OpUnfoldCacheEntry \<Rightarrow> bool \<Rightarrow> AlltoallvMetadata option \<Rightarrow> cached_item \<Rightarrow> HcclResult \<times> cached_item" where
  "note_item en isAlltoallv A x =
     (if ci_type x \<in> {NOTIFY_SQE, EVENT_SQE} then (HCCL_SUCCESS, x)
      else if ci_type x \<in> {WRITE_VALUE_SQE, RDMA_DB_SEND_SQE} then
        (case as_write (ci_sqe x) of None \<Rightarrow> (HCCL_E_INTERNAL, x) | Some w \<Rightarrow> note_dst en False None (write_addr w) x)
      else if ci_type x = MEMCPY_ASYNC_SQE then
        (case as_memcpy (ci_sqe x) of None \<Rightarrow> (HCCL_E_INTERNAL, x) | Some p \<Rightarrow>
           chk_ret (note_src en isAlltoallv A (memcpy_src p) x) (note_dst en isAlltoallv A (memcpy_dst p)))
      else if ci_type x = FLIP_PLACEHOLDER_SQE then (HCCL_E_INTERNAL, x)
      else if ci_type x = CACHE_MEMCPY_PLACEHOLDER_SQE then
        if \<not> isAlltoallv then (HCCL_E_INTERNAL, x)
        else (case Option.bind (as_placeholder (ci_sqe x)) as_memcpy_tag of None \<Rightarrow> (HCCL_E_INTERNAL, x) | Some c \<Rightarrow>
           chk_ret (note_src en isAlltoallv A (CombineUint32ToUint64 (cm_src_addr_high c) (cm_src_addr_low c)) x)
             (note_dst en isAlltoallv A (CombineUint32ToUint64 (cm_dst_addr_high c) (cm_dst_addr_low c))))
      else if ci_type x \<in> {CACHE_NOTIFY_PLACEHOLDER_SQE, CACHE_WRITE_VALUE_PLACEHOLDER_SQE, CACHE_MEMCPY_RECORD_PLACEHOLDER_SQE}
        then (HCCL_SUCCESS, x)
      else (HCCL_E_NOT_SUPPORT, x))"

text \<open>A loop over the items that stops at the first error.\<close>

fun each_item :: "('a \<Rightarrow> HcclResult \<times> 'a) \<Rightarrow> 'a list \<Rightarrow> HcclResult \<times> 'a list" where
  "each_item f [] = (HCCL_SUCCESS, [])"
| "each_item f (x # xs) =
     (let (r, x') = f x in
      if r \<noteq> HCCL_SUCCESS then (r, x' # xs) else let (r', xs') = each_item f xs in (r', x' # xs'))"

definition cached_of :: "cached_item \<Rightarrow> cached_sqe" where
  "cached_of x = (ci_sqe x, ci_type x, ci_dfx x)"

definition copy_item :: "cached_sqe \<Rightarrow> cached_item \<Rightarrow> cached_item" where
  "copy_item c x = x\<lparr>ci_sqe := fst c, ci_type := fst (snd c), ci_dfx := snd (snd c)\<rparr>"

text \<open>Past the arrays that have notes the code would read beyond the table of the notes; it is an error here.\<close>

definition MemcpySqeArray ::
  "nat \<Rightarrow> nat \<Rightarrow> cached_sqe list \<Rightarrow> bool \<Rightarrow> AlltoallvMetadata option \<Rightarrow> OpUnfoldCacheEntry \<Rightarrow> HcclResult \<times> OpUnfoldCacheEntry" where
  "MemcpySqeArray arrayIdx sqeStartIdx sqes isAlltoallv A en =
     (if length (en_arrays en) \<le> arrayIdx then (HCCL_E_INTERNAL, en)
      else let a = en_arrays en ! arrayIdx; items = sa_items a; n = length sqes in
        if sqeStartIdx + n = 0 \<or> length items \<le> sqeStartIdx + n - 1 then (HCCL_E_INTERNAL, en)
        else if isAlltoallv \<and> A = None then (HCCL_E_PTR, en)
        else case (if isAlltoallv then metadata_Check (the A) False else Inr ()) of
            Inl r \<Rightarrow> (r, en)
          | Inr _ \<Rightarrow>
              let copied = map2 copy_item sqes (take n (drop sqeStartIdx items));
                  (r, noted) = each_item (note_item en isAlltoallv A) copied in
              (r, en\<lparr>en_arrays := (en_arrays en)[arrayIdx :=
                 a\<lparr>sa_items := take sqeStartIdx items @ noted @ drop (sqeStartIdx + n) items\<rparr>]\<rparr>))"

text \<open>The streams by their place: zero for the main stream, then the others in order.\<close>

fun stream_place :: "int \<Rightarrow> nat \<Rightarrow> int list \<Rightarrow> nat option" where
  "stream_place s i [] = None"
| "stream_place s i (t # ts) = (if s = t then Some i else stream_place s (i + 1) ts)"

fun stream_places :: "int list \<Rightarrow> int list \<Rightarrow> HcclResult \<times> nat list" where
  "stream_places streams [] = (HCCL_SUCCESS, [])"
| "stream_places streams (s # ss) =
     (case stream_place s 0 streams of
        None \<Rightarrow> (HCCL_E_INTERNAL, [])
      | Some i \<Rightarrow> let (r, is) = stream_places streams ss in (r, i # is))"

definition CalcStreamSeqIdxes :: "int \<Rightarrow> int list \<Rightarrow> OpUnfoldCacheEntry \<Rightarrow> HcclResult \<times> OpUnfoldCacheEntry" where
  "CalcStreamSeqIdxes mainStream slaveStreams en =
     (let n = length (en_arrays en);
          resized = take n (en_streamSeqIdxes en @ replicate n 0);
          (r, is) = stream_places (mainStream # slaveStreams) (map sa_streamId (en_arrays en)) in
      (r, en\<lparr>en_streamSeqIdxes := is @ drop (length is) resized\<rparr>))"

definition SetInputOutputMemRanges ::
  "OpUnfoldMemRange list \<Rightarrow> OpUnfoldMemRange list \<Rightarrow> OpUnfoldCacheEntry \<Rightarrow> HcclResult \<times> OpUnfoldCacheEntry" where
  "SetInputOutputMemRanges inputs outputs en =
     (if length (en_userInputMemRanges en) \<noteq> length inputs then (HCCL_E_INTERNAL, en)
      else (HCCL_SUCCESS, en\<lparr>en_userInputMemRanges := inputs, en_userOutputMemRanges := outputs\<rparr>))"

end
