(* ===== verification/UnfoldRefresh.thy ===== *)
theory UnfoldRefresh
  imports UnfoldEntry
begin

unbundle bit_operations_syntax

text \<open>
  Refreshing the cached SQEs for a new call: the task numbers of the stream continue, addresses
  in the user's memory move with it, and for AlltoAllV each SQE takes the count of its peer,
  becoming a placeholder when there is nothing to send and an SQE again when there is.
\<close>

section \<open>Moving an address\<close>

text \<open>
  The rank is checked against the cached ranges only; the current ranges are then read at the
  same place unchecked. Only after the refresh does \<open>SetInputOutputMemRanges\<close> check that they are
  as many. Where they are fewer, the code reads past their end, and \<open>current ! rankId\<close> says
  nothing of what it finds there.
\<close>

definition RefreshSqeAddr ::
  "u64 \<Rightarrow> nat \<Rightarrow> OpUnfoldMemRange list \<Rightarrow> OpUnfoldMemRange list \<Rightarrow> bool \<Rightarrow> u64 \<Rightarrow> HcclResult + u64" where
  "RefreshSqeAddr addr rankId cached current isAlltoallv offset =
     require (rankId \<noteq> unat INVALID_VALUE_RANKID) (require (rankId < length cached)
       (let old = cached ! rankId; new = current ! rankId in
        attempt (InRange old addr) (\<lambda>inside. require inside
          (let curOffset = (if isAlltoallv then offset else addr - mr_baseAddr old);
               moved = mr_baseAddr new + curOffset in
           attempt (InRange new moved) (\<lambda>inside. require inside (Inr moved))))))"

text \<open>The base of a rank's current range, read unchecked as well.\<close>

definition base_of :: "OpUnfoldMemRange list \<Rightarrow> nat \<Rightarrow> u64" where
  "base_of ms rank = mr_baseAddr (ms ! rank)"

record current_call =
  cc_inputs :: "OpUnfoldMemRange list"
  cc_outputs :: "OpUnfoldMemRange list"
  cc_isAlltoallv :: bool
  cc_meta :: AlltoallvMetadata
  cc_info :: AlltoallvSendRecvInfo
  cc_types :: unfold_types

definition refresh_user_addr :: "OpUnfoldCacheEntry \<Rightarrow> current_call \<Rightarrow> RefreshAddrInfo \<Rightarrow> u64 \<Rightarrow> HcclResult + u64" where
  "refresh_user_addr en C info addr =
     (case ri_memType info of
        USER_OUTPUT_MEMTYPE \<Rightarrow> RefreshSqeAddr addr (ri_rankId info) (en_userOutputMemRanges en) (cc_outputs C) False 0
      | USER_INPUT_MEMTYPE \<Rightarrow> RefreshSqeAddr addr (ri_rankId info) (en_userInputMemRanges en) (cc_inputs C) False 0
      | _ \<Rightarrow> Inl HCCL_E_INTERNAL)"

definition with_value :: "HcclResult + 'a \<Rightarrow> 's \<Rightarrow> ('a \<Rightarrow> HcclResult \<times> 's) \<Rightarrow> HcclResult \<times> 's" where
  "with_value m x k = (case m of Inl r \<Rightarrow> (r, x) | Inr a \<Rightarrow> k a)"

lemma with_value_simps [simp]: "with_value (Inl r) x k = (r, x)" "with_value (Inr a) x k = k a"
  by (simp_all add: with_value_def)

section \<open>The task number\<close>

definition set_header_task :: "u16 \<Rightarrow> rtStarsSqeHeader \<Rightarrow> rtStarsSqeHeader" where
  "set_header_task t h = h\<lparr>hd_taskId := t\<rparr>"

definition set_taskId :: "u16 \<Rightarrow> sqe \<Rightarrow> sqe" where
  "set_taskId t e = (case e of
       NotifySqe n \<Rightarrow> NotifySqe (n\<lparr>nt_header := set_header_task t (nt_header n)\<rparr>)
     | WriteValueSqe w \<Rightarrow> WriteValueSqe (w\<lparr>wv_header := set_header_task t (wv_header w)\<rparr>)
     | EventSqe v \<Rightarrow> EventSqe (v\<lparr>ev_header := set_header_task t (ev_header v)\<rparr>)
     | MemcpySqe p \<Rightarrow> MemcpySqe (p\<lparr>mc_header := set_header_task t (mc_header p)\<rparr>)
     | PlaceHolderSqe p \<Rightarrow> PlaceHolderSqe (p\<lparr>ph_header := set_header_task t (ph_header p)\<rparr>)
     | e \<Rightarrow> e)"

definition renumber :: "u16 \<Rightarrow> cached_item \<Rightarrow> cached_item" where
  "renumber t x = x\<lparr>ci_sqe := set_taskId t (ci_sqe x)\<rparr>"

section \<open>AlltoAllV: copies\<close>

definition SetCachePlaceholderHeaderForAlltoallv :: "u16 \<Rightarrow> u16 \<Rightarrow> placeholder \<Rightarrow> sqe" where
  "SetCachePlaceholderHeaderForAlltoallv streamId taskId u =
     PlaceHolderSqe \<lparr>ph_header = (header RT_STARS_SQE_TYPE_PLACE_HOLDER streamId taskId)\<lparr>hd_blockDim := RT_TASK_TYPE_FLIP\<rparr>,
       ph_kernel_credit = RT_STARS_DEFAULT_KERNEL_CREDIT, ph_u = u\<rparr>"

text \<open>The count and size a copy moves, by the memories of its two ends.\<close>

definition transfer_count :: "OpUnfoldCacheEntry \<Rightarrow> current_call \<Rightarrow> RefreshAddrInfo \<Rightarrow> RefreshAddrInfo \<Rightarrow> HcclResult + u64 \<times> u64" where
  "transfer_count en C src dst =
     (let I = cc_info C; rankSize = length (as_sendOffsets I);
          counted = (\<lambda>counts ty rank. require (rank < rankSize)
            (let count = counts ! rank in Inr (count, count * ut_size (cc_types C) ty))) in
      attempt
        (case ri_memType src of
           USER_INPUT_MEMTYPE \<Rightarrow>
             require (ri_rankId src < rankSize)
               (case ri_memType dst of
                  USER_OUTPUT_MEMTYPE \<Rightarrow> require (ri_rankId dst = ri_rankId src) (counted (as_sendCounts I) (as_sendType I) (ri_rankId dst))
                | HCCL_INPUT_MEMTYPE \<Rightarrow> require (ri_rankId dst \<noteq> ri_rankId src) (counted (as_sendCounts I) (as_sendType I) (ri_rankId dst))
                | _ \<Rightarrow> Inl HCCL_E_INTERNAL)
         | _ \<Rightarrow>
             if ri_memType dst = USER_OUTPUT_MEMTYPE
             then require (ri_memType src = HCCL_INPUT_MEMTYPE) (counted (as_recvCounts I) (as_recvType I) (ri_rankId src))
             else Inl HCCL_E_INTERNAL)
        (\<lambda>(count, bytes). require (\<not> (am_sdmaDataBlockSize (cc_meta C) < bytes \<or> 0x100000000 < bytes)) (Inr (count, bytes))))"

definition copy_placeholder :: "rtStarsMemcpyAsyncSqe \<Rightarrow> RefreshAddrInfo \<Rightarrow> RefreshAddrInfo \<Rightarrow> rtCacheMemcpyTaskTag" where
  "copy_placeholder p src dst =
     (let saveDst = ri_memType src = USER_INPUT_MEMTYPE \<and> ri_memType dst = HCCL_INPUT_MEMTYPE;
          saveSrc = ri_memType src = HCCL_INPUT_MEMTYPE \<and> ri_memType dst = USER_OUTPUT_MEMTYPE in
      \<lparr>cm_src_addr_low = (if saveSrc then mc_src_addr_low p else 0), cm_src_addr_high = (if saveSrc then mc_src_addr_high p else 0),
       cm_dst_addr_low = (if saveDst then mc_dst_addr_low p else 0), cm_dst_addr_high = (if saveDst then mc_dst_addr_high p else 0),
       cm_kernel_credit = mc_kernel_credit p, cm_linkType = mc_linkType p, cm_qos = mc_qos p\<rparr>)"

definition UpdateMemcpySqeForAlltoallv ::
  "OpUnfoldCacheEntry \<Rightarrow> current_call \<Rightarrow> u16 \<Rightarrow> u64 \<Rightarrow> u64 \<Rightarrow> rtStarsMemcpyAsyncSqe \<Rightarrow> cached_item \<Rightarrow> HcclResult \<times> cached_item" where
  "UpdateMemcpySqeForAlltoallv en C taskId count bytes p x =
     (let I = cc_info C; rankSize = length (as_sendOffsets I); src = ci_src x; dst = ci_dst x;
          put = (\<lambda>p. x\<lparr>ci_sqe := MemcpySqe p\<rparr>) in
      if 0 < count then
        if bytes = 0 then (HCCL_E_INTERNAL, x)
        else
          let p1 = p\<lparr>mc_header := set_header_task taskId (mc_header p), mc_length := ucast bytes\<rparr> in
          if ri_memType src = USER_INPUT_MEMTYPE then
            if rankSize \<le> ri_rankId dst then (HCCL_E_INTERNAL, put p1)
            else with_value (RefreshSqeAddr (memcpy_src p1) (ri_rankId src) (en_userInputMemRanges en) (cc_inputs C) True
                               (as_sendOffsets I ! ri_rankId dst)) (put p1) (\<lambda>a.
              let p2 = set_memcpy_src a p1 in
              if ri_memType dst = USER_OUTPUT_MEMTYPE then
                with_value (RefreshSqeAddr (memcpy_dst p2) (ri_rankId dst) (en_userOutputMemRanges en) (cc_outputs C) True
                              (as_recvOffsets I ! ri_rankId dst)) (put p2) (\<lambda>a. (HCCL_SUCCESS, put (set_memcpy_dst a p2)))
              else (HCCL_SUCCESS, put p2))
          else if rankSize \<le> ri_rankId src then (HCCL_E_INTERNAL, put p1)
          else with_value (RefreshSqeAddr (memcpy_dst p1) (ri_rankId dst) (en_userOutputMemRanges en) (cc_outputs C) True
                             (as_recvOffsets I ! ri_rankId src)) (put p1) (\<lambda>a. (HCCL_SUCCESS, put (set_memcpy_dst a p1)))
      else if bytes \<noteq> 0 then (HCCL_E_INTERNAL, x)
      else (HCCL_SUCCESS, x\<lparr>ci_type := CACHE_MEMCPY_PLACEHOLDER_SQE,
              ci_sqe := SetCachePlaceholderHeaderForAlltoallv (hd_rtStreamId (mc_header p)) taskId
                          (CacheMemcpyTask (copy_placeholder p src dst))\<rparr>))"

definition placeholder_addrs ::
  "current_call \<Rightarrow> rtCacheMemcpyTaskTag \<Rightarrow> RefreshAddrInfo \<Rightarrow> RefreshAddrInfo \<Rightarrow> HcclResult + u64 \<times> u64" where
  "placeholder_addrs C c src dst =
     (let I = cc_info C; rankSize = length (as_sendOffsets I) in
      if ri_memType src = USER_INPUT_MEMTYPE then
        require (ri_rankId dst < rankSize) (require (ri_rankId src < rankSize)
          (let srcAddr = base_of (cc_inputs C) (ri_rankId src) + as_sendOffsets I ! ri_rankId dst in
            case ri_memType dst of
              USER_OUTPUT_MEMTYPE \<Rightarrow> Inr (srcAddr, base_of (cc_outputs C) (ri_rankId dst) + as_recvOffsets I ! ri_rankId dst)
            | HCCL_INPUT_MEMTYPE \<Rightarrow> Inr (srcAddr, CombineUint32ToUint64 (cm_dst_addr_high c) (cm_dst_addr_low c))
            | _ \<Rightarrow> Inl HCCL_E_INTERNAL))
      else require (ri_rankId src < rankSize) (require (ri_rankId dst < rankSize)
        (Inr (CombineUint32ToUint64 (cm_src_addr_high c) (cm_src_addr_low c),
              base_of (cc_outputs C) (ri_rankId dst) + as_recvOffsets I ! ri_rankId src))))"

definition UpdateMemcpyPlaceholderSqeForAlltoallv ::
  "current_call \<Rightarrow> u16 \<Rightarrow> u64 \<Rightarrow> u64 \<Rightarrow> rtStarsPlaceHolderSqe \<Rightarrow> rtCacheMemcpyTaskTag \<Rightarrow> cached_item \<Rightarrow> HcclResult \<times> cached_item" where
  "UpdateMemcpyPlaceholderSqeForAlltoallv C taskId count bytes p c x =
     (if count = 0 then if bytes \<noteq> 0 then (HCCL_E_INTERNAL, x) else (HCCL_SUCCESS, renumber taskId x)
      else if bytes = 0 then (HCCL_E_INTERNAL, x)
      else with_value (placeholder_addrs C c (ci_src x) (ci_dst x)) x (\<lambda>(s, t).
        (HCCL_SUCCESS, x\<lparr>ci_type := MEMCPY_ASYNC_SQE, ci_sqe := MemcpySqe
           \<lparr>mc_header = header RT_STARS_SQE_TYPE_SDMA (hd_rtStreamId (ph_header p)) taskId,
            mc_kernel_credit = cm_kernel_credit c, mc_opcode = 0, mc_attributes = True, mc_qos = cm_qos c AND 0xF,
            mc_partid = 0, mc_length = ucast bytes, mc_src_addr_low = split_low s, mc_src_addr_high = split_high s,
            mc_dst_addr_low = split_low t, mc_dst_addr_high = split_high t, mc_linkType = cm_linkType c\<rparr>\<rparr>)))"

definition rank_sizes_agree :: "current_call \<Rightarrow> HcclResult + unit" where
  "rank_sizes_agree C =
     attempt (metadata_Check (cc_meta C) True) (\<lambda>_. attempt (info_Check (cc_types C) (cc_info C)) (\<lambda>_.
       require (length (as_sendOffsets (cc_info C)) = length (am_hcclInputMemRanges (cc_meta C))) (Inr ())))"

definition UpdateTransferSqeForAlltoallv :: "OpUnfoldCacheEntry \<Rightarrow> current_call \<Rightarrow> u16 \<Rightarrow> cached_item \<Rightarrow> HcclResult \<times> cached_item" where
  "UpdateTransferSqeForAlltoallv en C taskId x =
     (if ri_memType (ci_src x) \<noteq> USER_INPUT_MEMTYPE \<and> ri_memType (ci_dst x) \<noteq> USER_OUTPUT_MEMTYPE then
        if ci_type x \<in> {MEMCPY_ASYNC_SQE, CACHE_MEMCPY_PLACEHOLDER_SQE} then (HCCL_SUCCESS, renumber taskId x)
        else (HCCL_E_INTERNAL, x)
      else with_value (rank_sizes_agree C) x (\<lambda>_.
        with_value (transfer_count en C (ci_src x) (ci_dst x)) x (\<lambda>(count, bytes).
          if ci_type x = MEMCPY_ASYNC_SQE then
            (case as_memcpy (ci_sqe x) of None \<Rightarrow> (HCCL_E_INTERNAL, x)
             | Some p \<Rightarrow> UpdateMemcpySqeForAlltoallv en C taskId count bytes p x)
          else if ci_type x = CACHE_MEMCPY_PLACEHOLDER_SQE then
            (case as_placeholder (ci_sqe x) of None \<Rightarrow> (HCCL_E_INTERNAL, x)
             | Some p \<Rightarrow> (case as_memcpy_tag p of None \<Rightarrow> (HCCL_E_INTERNAL, x)
                 | Some c \<Rightarrow> UpdateMemcpyPlaceholderSqeForAlltoallv C taskId count bytes p c x))
          else (HCCL_E_INTERNAL, x))))"

section \<open>AlltoAllV: notifications\<close>

text \<open>The tags of the other placeholders.\<close>

definition as_notify_tag :: "rtStarsPlaceHolderSqe \<Rightarrow> rtCacheNotifyTaskTag option" where
  "as_notify_tag p = (case ph_u p of CacheNotifyTask c \<Rightarrow> Some c | _ \<Rightarrow> None)"
definition as_write_tag :: "rtStarsPlaceHolderSqe \<Rightarrow> (u32 \<times> u32) option" where
  "as_write_tag p = (case ph_u p of CacheWriteValueTask low high \<Rightarrow> Some (low, high) | _ \<Rightarrow> None)"
definition as_record_tag :: "rtStarsPlaceHolderSqe \<Rightarrow> rtCacheMemcpyRecordTaskTag option" where
  "as_record_tag p = (case ph_u p of CacheMemcpyRecordTask c \<Rightarrow> Some c | _ \<Rightarrow> None)"

text \<open>What identifies the peer: the number of a notification, or the address a record writes.\<close>

datatype sync_key = NotifyKey u32 | AddrKey u64

definition need :: "'a option \<Rightarrow> HcclResult + 'a" where
  "need m = (case m of None \<Rightarrow> Inl HCCL_E_INTERNAL | Some a \<Rightarrow> Inr a)"

definition placeholder_key :: "SqeType \<Rightarrow> rtStarsPlaceHolderSqe \<Rightarrow> HcclResult + sync_key" where
  "placeholder_key ty p =
     (if ty = CACHE_NOTIFY_PLACEHOLDER_SQE then
        attempt (need (as_notify_tag p)) (\<lambda>c. require (cn_is_wait c) (Inr (NotifyKey (cn_notify_id c))))
      else if ty = CACHE_WRITE_VALUE_PLACEHOLDER_SQE then
        attempt (need (as_write_tag p)) (\<lambda>(low, high). Inr (AddrKey (CombineUint32ToUint64 high low)))
      else attempt (need (as_record_tag p)) (\<lambda>c. Inr (AddrKey (CombineUint32ToUint64 (cr_dst_addr_high c) (cr_dst_addr_low c)))))"

definition sync_key_of :: "cached_item \<Rightarrow> HcclResult + sync_key" where
  "sync_key_of x =
     (if ci_type x = NOTIFY_SQE then
        attempt (need (as_notify (ci_sqe x))) (\<lambda>n. require (hd_type (nt_header n) = RT_STARS_SQE_TYPE_NOTIFY_WAIT)
          (Inr (NotifyKey (nt_notify_id n))))
      else if ci_type x = WRITE_VALUE_SQE then attempt (need (as_write (ci_sqe x))) (\<lambda>w. Inr (AddrKey (write_addr w)))
      else if ci_type x = MEMCPY_ASYNC_SQE then attempt (need (as_memcpy (ci_sqe x))) (\<lambda>p. Inr (AddrKey (memcpy_dst p)))
      else if ci_type x \<in> {CACHE_NOTIFY_PLACEHOLDER_SQE, CACHE_WRITE_VALUE_PLACEHOLDER_SQE, CACHE_MEMCPY_RECORD_PLACEHOLDER_SQE}
        then attempt (need (as_placeholder (ci_sqe x))) (placeholder_key (ci_type x))
      else Inl HCCL_E_INTERNAL)"

definition peer_of :: "AlltoallvMetadata \<Rightarrow> sync_key \<Rightarrow> (nat \<times> bool) option" where
  "peer_of A k = (case k of NotifyKey n \<Rightarrow> map_of (am_notifyIdRankRflagMap A) n | AddrKey a \<Rightarrow> map_of (am_signalAddrRankRflagMap A) a)"

definition sync_count :: "current_call \<Rightarrow> cached_item \<Rightarrow> HcclResult + u64 \<times> u64" where
  "sync_count C x =
     attempt (sync_key_of x) (\<lambda>k. attempt (need (peer_of (cc_meta C) k)) (\<lambda>(remoteRank, recvFlag).
       let I = cc_info C in
       require (remoteRank < length (as_sendOffsets I))
         (let (count, ty) = (if recvFlag then (as_recvCounts I ! remoteRank, as_recvType I)
                             else (as_sendCounts I ! remoteRank, as_sendType I)) in
          Inr (count, count * ut_size (cc_types C) ty))))"

text \<open>Each kind of SQE and its placeholder turn into each other.\<close>

definition UpdateNotifyPlaceholderSqeForAlltoallv :: "u16 \<Rightarrow> u64 \<Rightarrow> rtStarsPlaceHolderSqe \<Rightarrow> rtCacheNotifyTaskTag \<Rightarrow> cached_item \<Rightarrow> cached_item" where
  "UpdateNotifyPlaceholderSqeForAlltoallv taskId count p c x =
     (if count = 0 then renumber taskId x
      else x\<lparr>ci_type := NOTIFY_SQE, ci_sqe := NotifySqe
        \<lparr>nt_header = header RT_STARS_SQE_TYPE_NOTIFY_WAIT (hd_rtStreamId (ph_header p)) taskId,
         nt_notify_id = cn_notify_id c AND 0x1FFF, nt_kernel_credit = cn_kernel_credit c, nt_timeout = cn_timeout c\<rparr>\<rparr>)"

definition UpdateWritePlaceholderSqeForAlltoallv :: "u16 \<Rightarrow> u64 \<Rightarrow> rtStarsPlaceHolderSqe \<Rightarrow> u32 \<times> u32 \<Rightarrow> cached_item \<Rightarrow> cached_item" where
  "UpdateWritePlaceholderSqeForAlltoallv taskId count p a x =
     (if count = 0 then renumber taskId x
      else x\<lparr>ci_type := WRITE_VALUE_SQE, ci_sqe := WriteValueSqe
        \<lparr>wv_header = header RT_STARS_SQE_TYPE_WRITE_VALUE (hd_rtStreamId (ph_header p)) taskId,
         wv_kernel_credit = RT_STARS_DEFAULT_KERNEL_CREDIT, wv_write_addr_low = fst a, wv_write_addr_high = snd a AND 0x1FFFF,
         wv_awsize = RT_STARS_WRITE_VALUE_SIZE_TYPE_32BIT, wv_res7 = 0,
         wv_sub_type = RT_STARS_WRITE_VALUE_SUB_TYPE_NOTIFY_RECORD_IPC_NO_PCIE, wv_write_value_part0 = 1,
         wv_write_value_part1 = 0, wv_rdmaWrLenth = 0, wv_rdmaType = 0\<rparr>\<rparr>)"

definition UpdateNotifySqeForAlltoallv :: "u16 \<Rightarrow> u64 \<Rightarrow> rtStarsNotifySqeV1 \<Rightarrow> cached_item \<Rightarrow> cached_item" where
  "UpdateNotifySqeForAlltoallv taskId count n x =
     (if 0 < count then renumber taskId x
      else x\<lparr>ci_type := CACHE_NOTIFY_PLACEHOLDER_SQE,
        ci_sqe := SetCachePlaceholderHeaderForAlltoallv (hd_rtStreamId (nt_header n)) taskId
          (CacheNotifyTask \<lparr>cn_is_wait = True, cn_kernel_credit = nt_kernel_credit n, cn_timeout = nt_timeout n,
             cn_notify_id = nt_notify_id n\<rparr>)\<rparr>)"

definition UpdateWriteValueSqeForAlltoallv :: "u16 \<Rightarrow> u64 \<Rightarrow> rtStarsWriteValueSqe \<Rightarrow> cached_item \<Rightarrow> cached_item" where
  "UpdateWriteValueSqeForAlltoallv taskId count w x =
     (if 0 < count then renumber taskId x
      else x\<lparr>ci_type := CACHE_WRITE_VALUE_PLACEHOLDER_SQE,
        ci_sqe := SetCachePlaceholderHeaderForAlltoallv (hd_rtStreamId (wv_header w)) taskId
          (CacheWriteValueTask (wv_write_addr_low w) (wv_write_addr_high w))\<rparr>)"

definition UpdateMemcpyRecordSqeForAlltoallv :: "u16 \<Rightarrow> u64 \<Rightarrow> rtStarsMemcpyAsyncSqe \<Rightarrow> cached_item \<Rightarrow> cached_item" where
  "UpdateMemcpyRecordSqeForAlltoallv taskId count p x =
     (if 0 < count then renumber taskId x
      else x\<lparr>ci_type := CACHE_MEMCPY_RECORD_PLACEHOLDER_SQE,
        ci_sqe := SetCachePlaceholderHeaderForAlltoallv (hd_rtStreamId (mc_header p)) taskId
          (CacheMemcpyRecordTask \<lparr>cr_length = mc_length p, cr_src_addr_low = mc_src_addr_low p,
             cr_src_addr_high = mc_src_addr_high p, cr_dst_addr_low = mc_dst_addr_low p, cr_dst_addr_high = mc_dst_addr_high p,
             cr_opcode = mc_opcode p, cr_partid = mc_partid p, cr_kernel_credit = mc_kernel_credit p,
             cr_linkType = mc_linkType p, cr_qos = mc_qos p\<rparr>)\<rparr>)"

definition UpdateMemcpyRecordPlaceholderSqeForAlltoallv ::
  "u16 \<Rightarrow> u64 \<Rightarrow> rtStarsPlaceHolderSqe \<Rightarrow> rtCacheMemcpyRecordTaskTag \<Rightarrow> cached_item \<Rightarrow> cached_item" where
  "UpdateMemcpyRecordPlaceholderSqeForAlltoallv taskId count p c x =
     (if count = 0 then renumber taskId x
      else x\<lparr>ci_type := MEMCPY_ASYNC_SQE, ci_sqe := MemcpySqe
        \<lparr>mc_header = header RT_STARS_SQE_TYPE_SDMA (hd_rtStreamId (ph_header p)) taskId,
         mc_kernel_credit = cr_kernel_credit c, mc_opcode = cr_opcode c, mc_attributes = True, mc_qos = cr_qos c AND 0xF,
         mc_partid = cr_partid c, mc_length = cr_length c, mc_src_addr_low = cr_src_addr_low c,
         mc_src_addr_high = cr_src_addr_high c, mc_dst_addr_low = cr_dst_addr_low c, mc_dst_addr_high = cr_dst_addr_high c,
         mc_linkType = cr_linkType c\<rparr>\<rparr>)"

definition update_sync :: "u16 \<Rightarrow> u64 \<Rightarrow> cached_item \<Rightarrow> HcclResult + cached_item" where
  "update_sync taskId count x =
     (if ci_type x = NOTIFY_SQE then
        attempt (need (as_notify (ci_sqe x))) (\<lambda>n. Inr (UpdateNotifySqeForAlltoallv taskId count n x))
      else if ci_type x = WRITE_VALUE_SQE then
        attempt (need (as_write (ci_sqe x))) (\<lambda>w. Inr (UpdateWriteValueSqeForAlltoallv taskId count w x))
      else if ci_type x = MEMCPY_ASYNC_SQE then
        attempt (need (as_memcpy (ci_sqe x))) (\<lambda>p. Inr (UpdateMemcpyRecordSqeForAlltoallv taskId count p x))
      else attempt (need (as_placeholder (ci_sqe x))) (\<lambda>p.
        if ci_type x = CACHE_NOTIFY_PLACEHOLDER_SQE then
          attempt (need (as_notify_tag p)) (\<lambda>c. Inr (UpdateNotifyPlaceholderSqeForAlltoallv taskId count p c x))
        else if ci_type x = CACHE_WRITE_VALUE_PLACEHOLDER_SQE then
          attempt (need (as_write_tag p)) (\<lambda>a. Inr (UpdateWritePlaceholderSqeForAlltoallv taskId count p a x))
        else if ci_type x = CACHE_MEMCPY_RECORD_PLACEHOLDER_SQE then
          attempt (need (as_record_tag p)) (\<lambda>c. Inr (UpdateMemcpyRecordPlaceholderSqeForAlltoallv taskId count p c x))
        else Inl HCCL_E_INTERNAL))"

text \<open>An SQE whose notification is not one between the ranks is only renumbered.\<close>

definition sync_unknown :: "current_call \<Rightarrow> cached_item \<Rightarrow> HcclResult + bool" where
  "sync_unknown C x =
     (if ci_type x = NOTIFY_SQE then
        attempt (need (as_notify (ci_sqe x))) (\<lambda>n. Inr (peer_of (cc_meta C) (NotifyKey (nt_notify_id n)) = None))
      else if ci_type x = WRITE_VALUE_SQE then
        attempt (need (as_write (ci_sqe x))) (\<lambda>w. Inr (peer_of (cc_meta C) (AddrKey (write_addr w)) = None))
      else if ci_type x = MEMCPY_ASYNC_SQE then
        require (ri_memType (ci_src x) = INVALID_MEMTYPE \<and> ri_memType (ci_dst x) = INVALID_MEMTYPE)
          (attempt (need (as_memcpy (ci_sqe x))) (\<lambda>p. Inr (peer_of (cc_meta C) (AddrKey (memcpy_dst p)) = None)))
      else Inr False)"

definition UpdateSyncSqeForAlltoallv :: "current_call \<Rightarrow> u16 \<Rightarrow> cached_item \<Rightarrow> HcclResult \<times> cached_item" where
  "UpdateSyncSqeForAlltoallv C taskId x =
     with_value (rank_sizes_agree C) x (\<lambda>_.
       with_value (sync_unknown C x) x (\<lambda>unknown.
         if unknown then (HCCL_SUCCESS, renumber taskId x)
         else with_value (sync_count C x) x (\<lambda>(count, bytes).
           with_value (update_sync taskId count x) x (\<lambda>x'. (HCCL_SUCCESS, x')))))"

section \<open>Refreshing an array\<close>

text \<open>The other operators: the task number, then the addresses in the user's memory.\<close>

definition refresh_write :: "OpUnfoldCacheEntry \<Rightarrow> current_call \<Rightarrow> u16 \<Rightarrow> cached_item \<Rightarrow> HcclResult \<times> cached_item" where
  "refresh_write en C taskId x =
     (let x1 = renumber taskId x in
      if ri_memType (ci_dst x) = INVALID_MEMTYPE then (HCCL_SUCCESS, x1)
      else with_value (need (as_write (ci_sqe x1))) x1 (\<lambda>w.
        with_value (refresh_user_addr en C (ci_dst x) (write_addr w)) x1 (\<lambda>a.
          (HCCL_SUCCESS, x1\<lparr>ci_sqe := WriteValueSqe (set_write_addr a w)\<rparr>))))"

definition refresh_end :: "(rtStarsMemcpyAsyncSqe \<Rightarrow> u64) \<Rightarrow> (u64 \<Rightarrow> rtStarsMemcpyAsyncSqe \<Rightarrow> rtStarsMemcpyAsyncSqe) \<Rightarrow>
    OpUnfoldCacheEntry \<Rightarrow> current_call \<Rightarrow> RefreshAddrInfo \<Rightarrow> cached_item \<Rightarrow> HcclResult \<times> cached_item" where
  "refresh_end get put en C info x =
     (if ri_memType info = INVALID_MEMTYPE then (HCCL_SUCCESS, x)
      else with_value (need (as_memcpy (ci_sqe x))) x (\<lambda>p.
        with_value (refresh_user_addr en C info (get p)) x (\<lambda>a. (HCCL_SUCCESS, x\<lparr>ci_sqe := MemcpySqe (put a p)\<rparr>))))"

definition refresh_memcpy :: "OpUnfoldCacheEntry \<Rightarrow> current_call \<Rightarrow> u16 \<Rightarrow> cached_item \<Rightarrow> HcclResult \<times> cached_item" where
  "refresh_memcpy en C taskId x =
     chk_ret (refresh_end memcpy_src set_memcpy_src en C (ci_src x) (renumber taskId x))
       (refresh_end memcpy_dst set_memcpy_dst en C (ci_dst x))"

definition refresh_item :: "OpUnfoldCacheEntry \<Rightarrow> current_call \<Rightarrow> u16 \<Rightarrow> cached_item \<Rightarrow> HcclResult \<times> cached_item" where
  "refresh_item en C taskId x =
     (let v = cc_isAlltoallv C in
      if ci_type x = NOTIFY_SQE then
        with_value (need (as_notify (ci_sqe x))) x (\<lambda>n.
          if v \<and> hd_type (nt_header n) = RT_STARS_SQE_TYPE_NOTIFY_WAIT then UpdateSyncSqeForAlltoallv C taskId x
          else (HCCL_SUCCESS, renumber taskId x))
      else if ci_type x \<in> {WRITE_VALUE_SQE, RDMA_DB_SEND_SQE} then
        if v then UpdateSyncSqeForAlltoallv C taskId x else refresh_write en C taskId x
      else if ci_type x = EVENT_SQE then (HCCL_SUCCESS, renumber taskId x)
      else if ci_type x = MEMCPY_ASYNC_SQE then
        if v then
          if ri_memType (ci_src x) = INVALID_MEMTYPE \<and> ri_memType (ci_dst x) = INVALID_MEMTYPE
          then UpdateSyncSqeForAlltoallv C taskId x else UpdateTransferSqeForAlltoallv en C taskId x
        else refresh_memcpy en C taskId x
      else if ci_type x = FLIP_PLACEHOLDER_SQE then (HCCL_E_INTERNAL, x)
      else if ci_type x = CACHE_MEMCPY_PLACEHOLDER_SQE then
        if \<not> v then (HCCL_E_INTERNAL, x) else UpdateTransferSqeForAlltoallv en C taskId x
      else if ci_type x \<in> {CACHE_NOTIFY_PLACEHOLDER_SQE, CACHE_WRITE_VALUE_PLACEHOLDER_SQE, CACHE_MEMCPY_RECORD_PLACEHOLDER_SQE} then
        if \<not> v then (HCCL_E_INTERNAL, x) else UpdateSyncSqeForAlltoallv C taskId x
      else (HCCL_E_NOT_SUPPORT, x))"

text \<open>
  The loop over the items: the counters are the stream's own, so they have moved on when it
  stops at an error. After the item with task number zero the place of a flip placeholder is noted.
\<close>

type_synonym FlipInfo = "nat \<times> u16"

definition next_numbers :: "nat \<Rightarrow> u16 \<times> u16 \<Rightarrow> (u16 \<times> u16) \<times> FlipInfo list" where
  "next_numbers sqeIdx tf =
     (let (taskId, flipNum) = tf in
      if taskId = -1 then ((0, flipNum + 1), [])
      else if taskId = 0 \<and> flipNum \<noteq> 0 then ((1, flipNum), [(sqeIdx, flipNum)])
      else ((taskId + 1, flipNum), []))"

fun refresh_items :: "(u16 \<Rightarrow> cached_item \<Rightarrow> HcclResult \<times> cached_item) \<Rightarrow> nat \<Rightarrow> u16 \<times> u16 \<Rightarrow> cached_item list \<Rightarrow>
    HcclResult \<times> cached_item list \<times> (u16 \<times> u16) \<times> FlipInfo list" where
  "refresh_items f i tf [] = (HCCL_SUCCESS, [], tf, [])"
| "refresh_items f i tf (x # xs) =
     (let (r, x') = f (fst tf) x in
      if r \<noteq> HCCL_SUCCESS then (r, x' # xs, tf, [])
      else let (tf', fl) = next_numbers i tf; (r', xs', tf'', fls) = refresh_items f (i + 1) tf' xs in
        (r', x' # xs', tf'', fl @ fls))"

definition set_op :: "u32 \<Rightarrow> cached_item \<Rightarrow> cached_item" where
  "set_op opIdx x = x\<lparr>ci_dfx := (ci_dfx x)\<lparr>df_opRingBufferIdx := opIdx\<rparr>\<rparr>"

text \<open>The streams of the call: the main stream at place zero, then the others.\<close>

definition UpdateAndGetSqeArray ::
  "nat \<Rightarrow> current_call \<Rightarrow> nat list \<Rightarrow> u32 \<Rightarrow> OpUnfoldCacheEntry \<Rightarrow> device \<Rightarrow>
    HcclResult \<times> (nat \<times> FlipInfo list) \<times> OpUnfoldCacheEntry \<times> device" where
  "UpdateAndGetSqeArray arrayIdx C streams opIdx en d =
     (if length (en_arrays en) \<le> arrayIdx \<or> length (en_streamSeqIdxes en) \<le> arrayIdx then (HCCL_E_INTERNAL, (0, []), en, d)
      else case (if cc_isAlltoallv C then attempt (metadata_Check (cc_meta C) True) (\<lambda>_. info_Check (cc_types C) (cc_info C)) else Inr ()) of
          Inl r \<Rightarrow> (r, (0, []), en, d)
        | Inr _ \<Rightarrow>
            let place = en_streamSeqIdxes en ! arrayIdx in
            if length streams \<le> place then (HCCL_E_MEMORY, (0, []), en, d)
            else let s = streams ! place in
              case d_ctx d s of
                None \<Rightarrow> (HCCL_E_PTR, (0, []), en, d)
              | Some b \<Rightarrow>
                  let a = en_arrays en ! arrayIdx;
                      (r, items, (t, f), flipInfos) = refresh_items (refresh_item en C) 0
                        (rb_tailSqeTaskId b, rb_filpNum b) (sa_items a);
                      items' = (if r = HCCL_SUCCESS then map (set_op opIdx) items else items) in
                  (r, (s, flipInfos), en\<lparr>en_arrays := (en_arrays en)[arrayIdx := a\<lparr>sa_items := items'\<rparr>]\<rparr>,
                   set_ctx s (b\<lparr>rb_tailSqeTaskId := t, rb_filpNum := f\<rparr>) d))"

end
