(* ===== verification/UnfoldCache.thy ===== *)
theory UnfoldCache
  imports UnfoldRefresh
begin

text \<open>
  The cache of unfolded operators: its keys and entries, and the step after the first call of
  an AlltoAllV operator that settles which memories its copies go between.
\<close>

section \<open>After the first AlltoAllV call\<close>

definition CheckMemTypeForAlltoallv :: "SqeType \<Rightarrow> MemType \<Rightarrow> MemType \<Rightarrow> HcclResult + unit" where
  "CheckMemTypeForAlltoallv ty src dst =
     require (ty = MEMCPY_ASYNC_SQE \<or> ty = CACHE_MEMCPY_PLACEHOLDER_SQE)
       (require (\<not> (src = INVALID_MEMTYPE \<or> dst = INVALID_MEMTYPE))
         (require (src \<noteq> USER_OUTPUT_MEMTYPE)
           (require (if src = USER_INPUT_MEMTYPE then dst = USER_OUTPUT_MEMTYPE \<or> dst = HCCL_INPUT_MEMTYPE
                     else src = HCCL_INPUT_MEMTYPE \<longrightarrow> dst = USER_OUTPUT_MEMTYPE)
             (require (dst \<noteq> USER_INPUT_MEMTYPE)
               (require (if dst = USER_OUTPUT_MEMTYPE then src = USER_INPUT_MEMTYPE \<or> src = HCCL_INPUT_MEMTYPE
                         else dst = HCCL_INPUT_MEMTYPE \<longrightarrow> src = USER_INPUT_MEMTYPE)
                 (Inr ()))))))"

definition end_of :: "OpUnfoldMemRange list \<Rightarrow> nat \<Rightarrow> HcclResult + u64" where
  "end_of ms rank = require (rank < length ms) (GetEndAddr (ms ! rank))"

text \<open>An empty copy at the end of the user's memory lies in no range; its place is settled here.\<close>

definition settle_src :: "OpUnfoldCacheEntry \<Rightarrow> nat \<Rightarrow> rtCacheMemcpyTaskTag \<Rightarrow> cached_item \<Rightarrow> HcclResult \<times> cached_item" where
  "settle_src en curRank c x =
     (if ri_memType (ci_src x) \<noteq> INVALID_MEMTYPE then (HCCL_SUCCESS, x)
      else with_value (end_of (en_userInputMemRanges en) curRank) x (\<lambda>e.
        if CombineUint32ToUint64 (cm_src_addr_high c) (cm_src_addr_low c) \<noteq> e then (HCCL_E_INTERNAL, x)
        else (HCCL_SUCCESS, x\<lparr>ci_src := \<lparr>ri_rankId = curRank, ri_memType = USER_INPUT_MEMTYPE\<rparr>\<rparr>)))"

definition settle_dst :: "OpUnfoldCacheEntry \<Rightarrow> nat \<Rightarrow> rtCacheMemcpyTaskTag \<Rightarrow> cached_item \<Rightarrow> HcclResult \<times> cached_item" where
  "settle_dst en curRank c x =
     (if ri_memType (ci_dst x) \<noteq> INVALID_MEMTYPE then (HCCL_SUCCESS, x)
      else with_value (end_of (en_userOutputMemRanges en) curRank) x (\<lambda>e.
        if CombineUint32ToUint64 (cm_dst_addr_high c) (cm_dst_addr_low c) \<noteq> e then (HCCL_E_INTERNAL, x)
        else (HCCL_SUCCESS, x\<lparr>ci_dst := \<lparr>ri_rankId = curRank, ri_memType = USER_OUTPUT_MEMTYPE\<rparr>\<rparr>)))"

definition settle_ends :: "OpUnfoldCacheEntry \<Rightarrow> nat \<Rightarrow> cached_item \<Rightarrow> HcclResult \<times> cached_item" where
  "settle_ends en curRank x =
     (if ci_type x \<noteq> CACHE_MEMCPY_PLACEHOLDER_SQE then (HCCL_SUCCESS, x)
      else let s = ri_memType (ci_src x); t = ri_memType (ci_dst x) in
        if s = INVALID_MEMTYPE \<and> t \<noteq> INVALID_MEMTYPE \<and> t \<noteq> USER_OUTPUT_MEMTYPE \<and> t \<noteq> HCCL_INPUT_MEMTYPE then (HCCL_E_INTERNAL, x)
        else if s \<noteq> INVALID_MEMTYPE \<and> t = INVALID_MEMTYPE \<and> s \<noteq> USER_INPUT_MEMTYPE \<and> s \<noteq> HCCL_INPUT_MEMTYPE then (HCCL_E_INTERNAL, x)
        else with_value (need (Option.bind (as_placeholder (ci_sqe x)) as_memcpy_tag)) x (\<lambda>c.
          chk_ret (settle_src en curRank c x) (settle_dst en curRank c)))"

definition item_dst_addr :: "cached_item \<Rightarrow> HcclResult + u64" where
  "item_dst_addr x =
     (if ci_type x = MEMCPY_ASYNC_SQE then attempt (need (as_memcpy (ci_sqe x))) (\<lambda>p. Inr (memcpy_dst p))
      else attempt (need (Option.bind (as_placeholder (ci_sqe x)) as_memcpy_tag)) (\<lambda>c.
        Inr (CombineUint32ToUint64 (cm_dst_addr_high c) (cm_dst_addr_low c))))"

text \<open>
  A copy into the own input buffer is for the rank whose turn it is at that offset; the turns
  of an offset go around, and the metadata keeps them. An offset with an empty list of ranks, for
  which the code would divide by zero, is an error here.
\<close>

definition dst_rank_turn :: "nat \<Rightarrow> AlltoallvMetadata \<Rightarrow> u64 \<Rightarrow> HcclResult + nat \<times> AlltoallvMetadata" where
  "dst_rank_turn curRank A addr =
     (let own = am_hcclInputMemRanges A ! curRank in
      attempt (InRange own addr) (\<lambda>inside. require inside
        (let offset = addr - mr_baseAddr own in
         attempt (need (map_of (am_hcclOffsetDstRanksIdxMap A) offset)) (\<lambda>(ranks, idx).
           require (ranks \<noteq> [])
             (let rank = ranks ! (idx mod length ranks) in
              require (rank \<noteq> curRank)
                (Inr (rank, A\<lparr>am_hcclOffsetDstRanksIdxMap :=
                   map (\<lambda>(o', rs, i). if o' = offset then (o', rs, (i + 1) mod length rs) else (o', rs, i))
                     (am_hcclOffsetDstRanksIdxMap A)\<rparr>)))))))"

definition settle_rank :: "nat \<Rightarrow> AlltoallvMetadata \<Rightarrow> cached_item \<Rightarrow> HcclResult \<times> cached_item \<times> AlltoallvMetadata" where
  "settle_rank curRank A x =
     (if \<not> (ri_memType (ci_src x) = USER_INPUT_MEMTYPE \<and> ri_memType (ci_dst x) = HCCL_INPUT_MEMTYPE) then (HCCL_SUCCESS, x, A)
      else if ri_rankId (ci_src x) \<noteq> curRank \<or> ri_rankId (ci_dst x) \<noteq> curRank then (HCCL_E_INTERNAL, x, A)
      else with_value (item_dst_addr x) (x, A) (\<lambda>addr.
        with_value (dst_rank_turn curRank A addr) (x, A) (\<lambda>(rank, A').
          (HCCL_SUCCESS, x\<lparr>ci_dst := (ci_dst x)\<lparr>ri_rankId := rank\<rparr>\<rparr>, A'))))"

definition settle_item :: "OpUnfoldCacheEntry \<Rightarrow> nat \<Rightarrow> AlltoallvMetadata \<Rightarrow> cached_item \<Rightarrow> HcclResult \<times> cached_item \<times> AlltoallvMetadata" where
  "settle_item en curRank A x =
     (if ci_type x \<noteq> MEMCPY_ASYNC_SQE \<and> ci_type x \<noteq> CACHE_MEMCPY_PLACEHOLDER_SQE then (HCCL_SUCCESS, x, A)
      else if ci_type x = MEMCPY_ASYNC_SQE \<and> ri_memType (ci_src x) = INVALID_MEMTYPE \<and> ri_memType (ci_dst x) = INVALID_MEMTYPE
        then (HCCL_SUCCESS, x, A)
      else let (r, x1) = settle_ends en curRank x in
        if r \<noteq> HCCL_SUCCESS then (r, x1, A)
        else let (r, x2, A') = settle_rank curRank A x1 in
          if r \<noteq> HCCL_SUCCESS then (r, x2, A')
          else case CheckMemTypeForAlltoallv (ci_type x2) (ri_memType (ci_src x2)) (ri_memType (ci_dst x2)) of
              Inl r \<Rightarrow> (r, x2, A') | Inr _ \<Rightarrow> (HCCL_SUCCESS, x2, A'))"

fun settle_items :: "OpUnfoldCacheEntry \<Rightarrow> nat \<Rightarrow> AlltoallvMetadata \<Rightarrow> cached_item list \<Rightarrow> HcclResult \<times> cached_item list \<times> AlltoallvMetadata" where
  "settle_items en k A [] = (HCCL_SUCCESS, [], A)"
| "settle_items en k A (x # xs) =
     (let (r, x', A') = settle_item en k A x in
      if r \<noteq> HCCL_SUCCESS then (r, x' # xs, A')
      else let (r', xs', A'') = settle_items en k A' xs in (r', x' # xs', A''))"

fun settle_arrays :: "OpUnfoldCacheEntry \<Rightarrow> nat \<Rightarrow> AlltoallvMetadata \<Rightarrow> sqe_array list \<Rightarrow> HcclResult \<times> sqe_array list \<times> AlltoallvMetadata" where
  "settle_arrays en k A [] = (HCCL_SUCCESS, [], A)"
| "settle_arrays en k A (a # as) =
     (let (r, items, A') = settle_items en k A (sa_items a); a' = a\<lparr>sa_items := items\<rparr> in
      if r \<noteq> HCCL_SUCCESS then (r, a' # as, A')
      else let (r', as', A'') = settle_arrays en k A' as in (r', a' # as', A''))"

definition UpdateRefreshAddrInfoForAlltoallv ::
  "nat \<Rightarrow> AlltoallvMetadata \<Rightarrow> OpUnfoldCacheEntry \<Rightarrow> HcclResult \<times> OpUnfoldCacheEntry \<times> AlltoallvMetadata" where
  "UpdateRefreshAddrInfoForAlltoallv curRank A en =
     (case metadata_Check A True of
        Inl r \<Rightarrow> (r, en, A)
      | Inr _ \<Rightarrow>
          if length (am_hcclInputMemRanges A) \<le> curRank then (HCCL_E_INTERNAL, en, A)
          else let (r, as, A') = settle_arrays en curRank A (en_arrays en) in (r, en\<lparr>en_arrays := as\<rparr>, A'))"

section \<open>Keys\<close>

text \<open>The codes of the operators, types and modes are the runtime's; the sentinels are parameters.\<close>

record OpUnfoldKey =
  ok_opType :: nat
  ok_dataType :: nat
  ok_reduceType :: nat
  ok_isZeroCopy :: bool
  ok_inputSize :: u64
  ok_isInplacePreSync :: bool
  ok_workflowMode :: nat
  ok_isCapture :: bool

record key_codes =
  kc_CMD_INVALID :: nat
  kc_CMD_ALLTOALLV :: nat
  kc_CMD_ALLTOALLVC :: nat
  kc_DATA_TYPE_RESERVED :: nat
  kc_REDUCE_RESERVED :: nat
  kc_WORKFLOW_RESERVED :: nat

definition new_OpUnfoldKey :: "key_codes \<Rightarrow> OpUnfoldKey" where
  "new_OpUnfoldKey K = \<lparr>ok_opType = kc_CMD_INVALID K, ok_dataType = kc_DATA_TYPE_RESERVED K, ok_reduceType = kc_REDUCE_RESERVED K,
     ok_isZeroCopy = False, ok_inputSize = 0, ok_isInplacePreSync = False, ok_workflowMode = kc_WORKFLOW_RESERVED K,
     ok_isCapture = False\<rparr>"

definition is_alltoallv :: "key_codes \<Rightarrow> nat \<Rightarrow> bool" where
  "is_alltoallv K opType \<longleftrightarrow> opType = kc_CMD_ALLTOALLV K \<or> opType = kc_CMD_ALLTOALLVC K"

text \<open>A key is set to the fields of the call when they name an operator, a type and a mode.\<close>

definition OpUnfoldKey_Init :: "key_codes \<Rightarrow> OpUnfoldKey \<Rightarrow> OpUnfoldKey \<Rightarrow> HcclResult \<times> OpUnfoldKey" where
  "OpUnfoldKey_Init K cur key =
     (if ok_opType cur = kc_CMD_INVALID K then (HCCL_E_INTERNAL, key)
      else if \<not> is_alltoallv K (ok_opType cur) \<and> ok_dataType cur = kc_DATA_TYPE_RESERVED K then (HCCL_E_INTERNAL, key)
      else if ok_workflowMode cur = kc_WORKFLOW_RESERVED K then (HCCL_E_INTERNAL, key)
      else (HCCL_SUCCESS, cur))"

section \<open>The cache\<close>

definition OP_UNFOLD_CACHE_CAPACITY :: nat where "OP_UNFOLD_CACHE_CAPACITY = 500"

type_synonym OpUnfoldCache = "(OpUnfoldKey \<times> OpUnfoldCacheEntry) list"

definition IsCacheFull :: "OpUnfoldCache \<Rightarrow> bool" where
  "IsCacheFull cache \<longleftrightarrow> OP_UNFOLD_CACHE_CAPACITY \<le> length cache"

definition FindEntry :: "OpUnfoldKey \<Rightarrow> OpUnfoldCache \<Rightarrow> OpUnfoldCacheEntry option" where
  "FindEntry key cache = map_of cache key"

definition AddEntry :: "OpUnfoldKey \<Rightarrow> OpUnfoldMemRange list \<Rightarrow> OpUnfoldMemRange list \<Rightarrow> OpUnfoldCache \<Rightarrow> HcclResult \<times> OpUnfoldCache" where
  "AddEntry key inputs outputs cache =
     (if map_of cache key \<noteq> None then (HCCL_E_INTERNAL, cache)
      else (HCCL_SUCCESS, cache @ [(key, new_OpUnfoldCacheEntry inputs outputs)]))"

definition ClearEntry :: "OpUnfoldKey \<Rightarrow> OpUnfoldCache \<Rightarrow> HcclResult \<times> OpUnfoldCache" where
  "ClearEntry key cache = (HCCL_SUCCESS, filter (\<lambda>(k, en). k \<noteq> key) cache)"

definition ClearEntryForAlltoallv :: "key_codes \<Rightarrow> OpUnfoldCache \<Rightarrow> HcclResult \<times> OpUnfoldCache" where
  "ClearEntryForAlltoallv K cache =
     (HCCL_SUCCESS, fold (\<lambda>(k, en) c. if is_alltoallv K (ok_opType k) then snd (ClearEntry k c) else c) cache cache)"

section \<open>What a launch adds\<close>

text \<open>
  A launch adds the entries of the local buffer, from \<open>src 0\<close> on, to the entry of its operator,
  which it creates the first time, in segments between the flip placeholders. The entry is changed
  in place, so it keeps what was done when a step fails. Theory \<open>SqeRing\<close> has the same step as
  seen by the ring, with the result left to the environment.
\<close>

definition placeholder_idxes :: "(nat \<Rightarrow> cached_sqe) \<Rightarrow> nat \<Rightarrow> nat list" where
  "placeholder_idxes src cnt = filter (\<lambda>i. fst (snd (src i)) = FLIP_PLACEHOLDER_SQE) [0..<cnt]"

fun memcpy_segments :: "nat \<Rightarrow> (nat \<Rightarrow> cached_sqe) \<Rightarrow> bool \<Rightarrow> AlltoallvMetadata option \<Rightarrow> (nat \<times> nat \<times> nat) list \<Rightarrow> OpUnfoldCacheEntry \<Rightarrow>
    HcclResult \<times> OpUnfoldCacheEntry" where
  "memcpy_segments arrayIdx src isAlltoallv A [] en = (HCCL_SUCCESS, en)"
| "memcpy_segments arrayIdx src isAlltoallv A ((c, b, n) # segs) en =
     chk_ret (MemcpySqeArray arrayIdx c (map src [b..<b + n]) isAlltoallv A en) (memcpy_segments arrayIdx src isAlltoallv A segs)"

definition AddSqesToEntry :: "int \<Rightarrow> (nat \<Rightarrow> cached_sqe) \<Rightarrow> nat \<Rightarrow> bool \<Rightarrow> AlltoallvMetadata option \<Rightarrow> OpUnfoldCacheEntry \<Rightarrow>
    HcclResult \<times> OpUnfoldCacheEntry" where
  "AddSqesToEntry streamId src cnt isAlltoallv A en =
     (let ps = placeholder_idxes src cnt in
      case AllocSqeArray (cnt - length ps) streamId 0 en of
        (r, arrayIdx, en') \<Rightarrow>
          if r \<noteq> HCCL_SUCCESS then (r, en')
          else memcpy_segments arrayIdx src isAlltoallv A (copy_segments ps 0 0 cnt) en')"

definition AddSqesToCache :: "OpUnfoldKey \<Rightarrow> OpUnfoldMemRange list \<Rightarrow> OpUnfoldMemRange list \<Rightarrow> int \<Rightarrow> (nat \<Rightarrow> cached_sqe) \<Rightarrow> nat \<Rightarrow> bool \<Rightarrow>
    AlltoallvMetadata option \<Rightarrow> OpUnfoldCache \<Rightarrow> HcclResult \<times> OpUnfoldCache" where
  "AddSqesToCache key inputs outputs streamId src cnt isAlltoallv A cache =
     chk_ret (if FindEntry key cache = None then AddEntry key inputs outputs cache else (HCCL_SUCCESS, cache)) (\<lambda>cache.
       case FindEntry key cache of
         None \<Rightarrow> (HCCL_E_PTR, cache)
       | Some en \<Rightarrow> let (r, en') = AddSqesToEntry streamId src cnt isAlltoallv A en in
           (r, map (\<lambda>(k, e). if k = key then (k, en') else (k, e)) cache))"

end
