(* ===== verification/AicpuDispatcher.thy ===== *)
theory AicpuDispatcher
  imports UnfoldCache
begin

unbundle bit_operations_syntax

text \<open>
  The dispatcher of the AICPU: the calls of the transports and templates turned into entries of
  the streams' rings (theory \<open>SqeRing\<close>), the launch of an operator from the cache of unfolded
  operators, and the dispatcher's settings. A stream is its number. Logging, profiling and the
  report call-backs are left out.
\<close>

section \<open>The dispatcher\<close>

text \<open>The kinds of device the code tells apart.\<close>

datatype DevType = DEV_TYPE_310P1 | DEV_TYPE_310P3 | DEV_TYPE_910B | DEV_TYPE_910_93 | DEV_TYPE_OTHER

definition is310P :: "DevType \<Rightarrow> bool" where
  "is310P ty \<longleftrightarrow> ty = DEV_TYPE_310P1 \<or> ty = DEV_TYPE_310P3"

record HcclAicpuDispatcherInfo =
  ai_devId :: u32
  ai_ssid :: u32
  ai_devType :: DevType
  ai_overflowAddr :: u64
  ai_chipId :: u64

record DispatcherAiCpu =
  dp_dev :: device
  dp_info :: HcclAicpuDispatcherInfo
  dp_opRingBufferIdx :: u32
  dp_notifyMaxWaitTime :: u32
  dp_notifySize :: u64
  dp_hcclQos :: u32
  dp_isPlaceholder :: bool
  dp_key :: OpUnfoldKey
  dp_cachePtr :: bool
  dp_userInputMemRanges :: "OpUnfoldMemRange list"
  dp_userOutputMemRanges :: "OpUnfoldMemRange list"
  dp_isAlltoallv :: bool
  dp_alltoallvMetadata :: "AlltoallvMetadata option"

text \<open>The entry formats of the device, as \<open>Init\<close> binds the function pointers.\<close>

definition sid :: "nat \<Rightarrow> u16" where "sid s = word_of_nat s"

definition addOneNotifyWaitSqe :: "HcclAicpuDispatcherInfo \<Rightarrow> nat \<Rightarrow> u16 \<Rightarrow> u32 \<Rightarrow> DfxTimeOutConfig \<Rightarrow> SqeType \<times> sqe" where
  "addOneNotifyWaitSqe d s t notifyId cfg =
     (if is310P (ai_devType d) then AddOneNotifyWaitSqeV2 (sid s) t (ucast notifyId) cfg
      else AddOneNotifyWaitSqeV1 (sid s) t (ucast notifyId) cfg)"

definition addOneRecordSqe :: "HcclAicpuDispatcherInfo \<Rightarrow> nat \<Rightarrow> u16 \<Rightarrow> u32 \<Rightarrow> SqeType \<times> sqe" where
  "addOneRecordSqe d s t notifyId =
     (if is310P (ai_devType d) then AddOneRecordSqeV2 (sid s) t (ucast notifyId) else AddOneRecordSqeV1 (sid s) t (ucast notifyId))"

definition addOneWriteValueRecordSqe :: "HcclAicpuDispatcherInfo \<Rightarrow> nat \<Rightarrow> u16 \<Rightarrow> u64 \<Rightarrow> SqeType \<times> sqe" where
  "addOneWriteValueRecordSqe d s t addr =
     (if is310P (ai_devType d) then AddOneWriteValueRecordSqeV2 (sid s) t addr else AddOneWriteValueRecordSqeV1 (sid s) t addr)"

definition addOneMemcpySqe ::
  "HcclAicpuDispatcherInfo \<Rightarrow> nat \<Rightarrow> u16 \<Rightarrow> u64 \<Rightarrow> u32 \<Rightarrow> aclDataType \<Rightarrow> aclrtReduceKind \<Rightarrow> u64 \<Rightarrow> u8 \<Rightarrow> u32 \<Rightarrow> sqe \<Rightarrow> SqeType \<times> sqe" where
  "addOneMemcpySqe d s t src len dt kind dst linkType qos slot =
     (if is310P (ai_devType d)
      then AddOneMemcpySqeV2 (sid s) t src len dt kind dst (ai_ssid d) (ai_devId d) (ai_overflowAddr d) linkType qos
      else AddOneMemcpySqeV1 (sid s) t src len dt kind dst 0 linkType qos slot)"

definition addOneEventWaitSqe :: "HcclAicpuDispatcherInfo \<Rightarrow> nat \<Rightarrow> u32 \<Rightarrow> u16 \<Rightarrow> SqeType \<times> sqe" where
  "addOneEventWaitSqe d s eventId t =
     (if is310P (ai_devType d) then AddOneEventWaitSqeV2 (sid s) eventId t else AddOneEventWaitSqeV1 (sid s) eventId t)"

definition addOneEventResetSqe :: "HcclAicpuDispatcherInfo \<Rightarrow> nat \<Rightarrow> u32 \<Rightarrow> u16 \<Rightarrow> SqeType \<times> sqe" where
  "addOneEventResetSqe d s eventId t =
     (if is310P (ai_devType d) then AddOneEventResetSqeV2 (sid s) eventId t 0
      else AddOneEventResetSqeV1 (sid s) eventId t (ucast (ai_devId d)) 0)"

section \<open>Settings\<close>

definition NOTIFY_MAX_WAIT_TIME :: u32 where "NOTIFY_MAX_WAIT_TIME = 255 * 68"
definition NOTIFY_MAX_WAIT_TIME_910_93 :: u32 where "NOTIFY_MAX_WAIT_TIME_910_93 = 2147483647"
definition kKfcTimeOut :: u64 where "kKfcTimeOut = 960"
definition AICPU_RTSQ_TIMEOUT_INC :: u64 where "AICPU_RTSQ_TIMEOUT_INC = 20"

definition set_dfx :: "DfxTimeOutConfig \<Rightarrow> DispatcherAiCpu \<Rightarrow> DispatcherAiCpu" where
  "set_dfx c P = P\<lparr>dp_dev := (dp_dev P)\<lparr>d_dfxTimeOut := c\<rparr>\<rparr>"

definition InitTimeOutConfig :: "DispatcherAiCpu \<Rightarrow> DispatcherAiCpu" where
  "InitTimeOutConfig P =
     set_dfx \<lparr>to_sqeTimeOutTimeOut = ucast (dp_notifyMaxWaitTime P),
       to_sqeCreditTimeOut = ucast RT_STARS_NEVER_TIMEOUT_KERNEL_CREDIT, to_useCredit = False,
       to_sqeWaitTimeOut = kKfcTimeOut, to_sqFullWaitTimeOut = kSqFullWaitTimeOut\<rparr> P"

definition GetNotifyMaxWaitTime :: "DevType \<Rightarrow> DispatcherAiCpu \<Rightarrow> DispatcherAiCpu" where
  "GetNotifyMaxWaitTime ty P =
     P\<lparr>dp_notifyMaxWaitTime := (if ty = DEV_TYPE_910_93 \<or> ty = DEV_TYPE_910B then NOTIFY_MAX_WAIT_TIME_910_93 else NOTIFY_MAX_WAIT_TIME)\<rparr>"

text \<open>The driver's library, the device's type and its chip are answers of the environment.\<close>

definition dispatcher_Init ::
  "HcclResult \<Rightarrow> HcclResult \<times> DevType \<Rightarrow> HcclResult \<times> u64 \<Rightarrow> HcclResult \<times> DevType \<Rightarrow> DispatcherAiCpu \<Rightarrow> HcclResult \<times> DispatcherAiCpu" where
  "dispatcher_Init lib devType chip hostType P =
     (if lib \<noteq> HCCL_SUCCESS then (lib, P)
      else if fst devType \<noteq> HCCL_SUCCESS then (fst devType, P)
      else let P1 = P\<lparr>dp_info := (dp_info P)\<lparr>ai_devType := snd devType\<rparr>\<rparr> in
        if fst chip \<noteq> HCCL_SUCCESS then (fst chip, P1)
        else let P2 = P1\<lparr>dp_info := (dp_info P1)\<lparr>ai_chipId := snd chip\<rparr>\<rparr> in
          if fst hostType \<noteq> HCCL_SUCCESS then (fst hostType, P2)
          else (HCCL_SUCCESS, InitTimeOutConfig ((GetNotifyMaxWaitTime (snd hostType) P2)
            \<lparr>dp_notifySize := (if snd devType = DEV_TYPE_910B \<or> snd devType = DEV_TYPE_910_93 then 4 else 8)\<rparr>)))"

definition SetOpRingBufferIdx :: "u32 \<Rightarrow> DispatcherAiCpu \<Rightarrow> DispatcherAiCpu" where
  "SetOpRingBufferIdx i P = P\<lparr>dp_opRingBufferIdx := i\<rparr>"

definition SetSqeTimeOut :: "u64 \<Rightarrow> DispatcherAiCpu \<Rightarrow> DispatcherAiCpu" where
  "SetSqeTimeOut timeOut P =
     set_dfx ((d_dfxTimeOut (dp_dev P))\<lparr>to_sqeTimeOutTimeOut :=
       (if ucast (dp_notifyMaxWaitTime P) < timeOut then ucast (dp_notifyMaxWaitTime P) else timeOut)\<rparr>) P"

definition GetSqeTimeOut :: "DispatcherAiCpu \<Rightarrow> u64" where
  "GetSqeTimeOut P = to_sqeWaitTimeOut (d_dfxTimeOut (dp_dev P))"

definition SetSqFullWaitTimeOut :: "u64 \<Rightarrow> DispatcherAiCpu \<Rightarrow> HcclResult \<times> DispatcherAiCpu" where
  "SetSqFullWaitTimeOut notifyWaitTime P =
     (HCCL_SUCCESS, set_dfx ((d_dfxTimeOut (dp_dev P))\<lparr>to_sqFullWaitTimeOut :=
       (if notifyWaitTime = 0 then notifyWaitTime else notifyWaitTime + AICPU_RTSQ_TIMEOUT_INC)\<rparr>) P)"

definition SetHcclQos :: "u32 \<Rightarrow> DispatcherAiCpu \<Rightarrow> DispatcherAiCpu" where
  "SetHcclQos qos P = P\<lparr>dp_hcclQos := (if qos \<le> 2 then 2 else if qos \<le> 4 then 4 else if qos \<le> 7 then 6 else SDMA_QOS_DEFAULT)\<rparr>"

definition ClearLaunchContext :: "key_codes \<Rightarrow> DispatcherAiCpu \<Rightarrow> HcclResult \<times> DispatcherAiCpu" where
  "ClearLaunchContext K P =
     (HCCL_SUCCESS, P\<lparr>dp_key := new_OpUnfoldKey K, dp_cachePtr := False, dp_userInputMemRanges := [],
        dp_userOutputMemRanges := [], dp_isAlltoallv := False, dp_alltoallvMetadata := None,
        dp_dev := (dp_dev P)\<lparr>d_needAddSqe := False\<rparr>\<rparr>)"

definition SetLaunchContext :: "OpUnfoldKey \<Rightarrow> bool \<Rightarrow> OpUnfoldMemRange list \<Rightarrow> OpUnfoldMemRange list \<Rightarrow> bool \<Rightarrow>
    AlltoallvMetadata option \<Rightarrow> DispatcherAiCpu \<Rightarrow> HcclResult \<times> DispatcherAiCpu" where
  "SetLaunchContext key cachePtr inputs outputs isAlltoallv A P =
     (if \<not> cachePtr then (HCCL_E_PTR, P)
      else if isAlltoallv \<and> A = None then (HCCL_E_PTR, P)
      else case (if isAlltoallv then metadata_Check (the A) False else Inr ()) of
          Inl r \<Rightarrow> (r, P)
        | Inr _ \<Rightarrow> (HCCL_SUCCESS, P\<lparr>dp_key := key, dp_cachePtr := cachePtr, dp_userInputMemRanges := inputs,
            dp_userOutputMemRanges := outputs, dp_isAlltoallv := isAlltoallv, dp_alltoallvMetadata := A,
            dp_dev := (dp_dev P)\<lparr>d_needAddSqe := True\<rparr>\<rparr>))"

section \<open>An entry of a call\<close>

text \<open>
  The slot is taken and its debug information set; then the call may change the dispatcher's
  settings, and either fails, leaving the slot as it was, or writes the entry.
\<close>

definition fill_slot :: "nat \<Rightarrow> nat \<Rightarrow> u16 \<Rightarrow> (AicpuDfxInfo \<Rightarrow> AicpuDfxInfo) \<Rightarrow> HcclResult + encoder \<Rightarrow> device \<Rightarrow> HcclResult \<times> device" where
  "fill_slot s idx taskId dfx e d =
     (case d_ctx d s of
        None \<Rightarrow> (HCCL_E_PTR, d)
      | Some b \<Rightarrow>
          case e of
            Inl r \<Rightarrow> (r, set_ctx s (b\<lparr>rb_dfxInfo := (rb_dfxInfo b)(idx := dfx (rb_dfxInfo b idx))\<rparr>) d)
          | Inr enc \<Rightarrow> fill_sqe s idx taskId (dfx (rb_dfxInfo b idx)) enc d)"

definition call_sqe :: "launch_env \<Rightarrow> nat \<Rightarrow> nat \<Rightarrow> (AicpuDfxInfo \<Rightarrow> AicpuDfxInfo) \<Rightarrow> (DfxTimeOutConfig \<Rightarrow> DfxTimeOutConfig) \<Rightarrow>
    (device \<Rightarrow> HcclResult + encoder) \<Rightarrow> DispatcherAiCpu \<Rightarrow> (HcclResult \<times> DispatcherAiCpu) option" where
  "call_sqe E fuel s dfx cfg e P =
     map_option (\<lambda>(r, d). (r, P\<lparr>dp_dev := d\<rparr>))
       (chk_opt (GetStreamSqeBufferAddr E fuel s (dp_opRingBufferIdx P) (dp_dev P)) (\<lambda>d.
          Some (let (m, idx, taskId) = GetNextSqeBufferAddr s d in
                chk_ret m (\<lambda>d. let d = d\<lparr>d_dfxTimeOut := cfg (d_dfxTimeOut d)\<rparr> in fill_slot s idx taskId dfx (e d) d))))"

definition dfx_info :: "DispatcherAiCpu \<Rightarrow> u32 \<Rightarrow> u32 \<Rightarrow> AicpuDfxInfo \<Rightarrow> AicpuDfxInfo" where
  "dfx_info P remoteRank notifyId old =
     \<lparr>df_remoteRank = remoteRank, df_opRingBufferIdx = dp_opRingBufferIdx P, df_notifyId = notifyId\<rparr>"

text \<open>Placeholders are only for AlltoAllV operators while their entries are being cached.\<close>

definition placeholder_allowed :: "DispatcherAiCpu \<Rightarrow> bool" where
  "placeholder_allowed P \<longleftrightarrow> d_needAddSqe (dp_dev P) \<and> dp_isAlltoallv P"

section \<open>Notifications\<close>

definition SignalRecord :: "launch_env \<Rightarrow> nat \<Rightarrow> nat \<Rightarrow> u32 \<Rightarrow> bool \<Rightarrow> u64 \<Rightarrow> u32 \<Rightarrow> DispatcherAiCpu \<Rightarrow> (HcclResult \<times> DispatcherAiCpu) option" where
  "SignalRecord E fuel s userRank inchip signalAddr notifyId P =
     call_sqe E fuel s (dfx_info P userRank notifyId) id (\<lambda>d.
       if dp_isPlaceholder P then
         if \<not> placeholder_allowed P \<or> inchip then Inl HCCL_E_INTERNAL
         else Inr (\<lambda>t slot. AddOneCacheWriteValuePlaceholderSqeV1 (sid s) t signalAddr)
       else if inchip then Inr (\<lambda>t slot. addOneRecordSqe (dp_info P) s t notifyId)
       else Inr (\<lambda>t slot. addOneWriteValueRecordSqe (dp_info P) s t signalAddr)) P"

record DeviceMem =
  dm_addr :: u64
  dm_len :: u64

definition SignalRecord_copy :: "launch_env \<Rightarrow> nat \<Rightarrow> DeviceMem \<Rightarrow> DeviceMem \<Rightarrow> nat \<Rightarrow> u32 \<Rightarrow> u8 \<Rightarrow> u32 \<Rightarrow> DispatcherAiCpu \<Rightarrow>
    (HcclResult \<times> DispatcherAiCpu) option" where
  "SignalRecord_copy E fuel dst src s remoteUserRank linkType notifyId P =
     (if dm_len src = 0 \<or> src = dst then Some (HCCL_SUCCESS, P)
      else if dm_len dst < dm_len src then Some (HCCL_E_PARA, P)
      else if dm_len src \<noteq> dp_notifySize P then Some (HCCL_E_PARA, P)
      else call_sqe E fuel s (dfx_info P remoteUserRank notifyId) id (\<lambda>d.
        if dp_isPlaceholder P then
          if \<not> placeholder_allowed P then Inl HCCL_E_INTERNAL
          else Inr (\<lambda>t slot. AddOneCacheMemcpyRecordPlaceholderSqeV1 (sid s) t (dm_addr src) (ucast (dm_len src)) ACL_FLOAT
                 ACL_RT_MEMCPY_INVALID (dm_addr dst) 0 linkType SDMA_QOS_DEFAULT slot)
        else Inr (\<lambda>t slot. addOneMemcpySqe (dp_info P) s t (dm_addr src) (ucast (dm_len src)) ACL_FLOAT ACL_RT_MEMCPY_INVALID
               (dm_addr dst) linkType SDMA_QOS_DEFAULT slot)) P)"

text \<open>A wait; on the 310P, between chips, an event and its reset.\<close>

definition wait_time_out :: "DispatcherAiCpu \<Rightarrow> u32 \<Rightarrow> DfxTimeOutConfig \<Rightarrow> DfxTimeOutConfig" where
  "wait_time_out P timeOut c =
     c\<lparr>to_sqeTimeOutTimeOut := (if timeOut < dp_notifyMaxWaitTime P then ucast timeOut else to_sqeTimeOutTimeOut c)\<rparr>"

definition SignalWait :: "launch_env \<Rightarrow> nat \<Rightarrow> nat \<Rightarrow> u32 \<Rightarrow> bool \<Rightarrow> u32 \<Rightarrow> u32 \<Rightarrow> DispatcherAiCpu \<Rightarrow> (HcclResult \<times> DispatcherAiCpu) option" where
  "SignalWait E fuel s remoteUserRank inchip notifyId timeOut P =
     (let dfx = dfx_info P remoteUserRank notifyId; cfg = wait_time_out P timeOut;
          plain = inchip \<or> \<not> is310P (ai_devType (dp_info P)); eventId = notifyId AND 0x3FF in
      if dp_isPlaceholder P then
        call_sqe E fuel s dfx cfg (\<lambda>d.
          if \<not> placeholder_allowed P \<or> \<not> plain then Inl HCCL_E_INTERNAL
          else Inr (\<lambda>t slot. AddOneCacheNotifyWaitPlaceholderSqeV1 (sid s) t (ucast notifyId) (d_dfxTimeOut d))) P
      else if plain then
        call_sqe E fuel s dfx cfg (\<lambda>d. Inr (\<lambda>t slot. addOneNotifyWaitSqe (dp_info P) s t notifyId (d_dfxTimeOut d))) P
      else if drop_bit 15 notifyId = 0 then call_sqe E fuel s dfx cfg (\<lambda>d. Inl HCCL_SUCCESS) P
      else chk_opt (call_sqe E fuel s dfx cfg (\<lambda>d. Inr (\<lambda>t slot. addOneEventWaitSqe (dp_info P) s eventId t)) P) (\<lambda>P.
        call_sqe E fuel s (\<lambda>old. old\<lparr>df_opRingBufferIdx := dp_opRingBufferIdx P, df_remoteRank := INVALID_VALUE_RANKID\<rparr>) id
          (\<lambda>d. Inr (\<lambda>t slot. addOneEventResetSqe (dp_info P) s eventId t)) P))"

definition TURN_LEFT_SHIFT_BIT :: nat where "TURN_LEFT_SHIFT_BIT = 16"

text \<open>The condition programs go to the local buffer without making room first; the turn number is kept aside.\<close>

definition direct_sqe :: "nat \<Rightarrow> encoder \<Rightarrow> u32 \<Rightarrow> DispatcherAiCpu \<Rightarrow> HcclResult \<times> DispatcherAiCpu" where
  "direct_sqe s enc info P =
     (let (m, idx, taskId) = GetNextSqeBufferAddr s (dp_dev P);
          (r, d) = chk_ret m (\<lambda>d. case d_ctx d s of
            None \<Rightarrow> (HCCL_E_INTERNAL, d)
          | Some b \<Rightarrow> chk_ret (fill_sqe s idx taskId (rb_dfxInfo b idx) enc d) (\<lambda>d.
              case d_ctx d s of
                None \<Rightarrow> (HCCL_E_INTERNAL, d)
              | Some b \<Rightarrow> (HCCL_SUCCESS, set_ctx s (b\<lparr>rb_addInfo := (rb_addInfo b)(unat taskId mod HCCL_SQE_MAX_CNT := info)\<rparr>) d))) in
      (r, P\<lparr>dp_dev := d\<rparr>))"

definition WaitValue :: "nat \<Rightarrow> u64 \<Rightarrow> u64 \<Rightarrow> u32 \<Rightarrow> bool \<Rightarrow> DispatcherAiCpu \<Rightarrow> HcclResult \<times> DispatcherAiCpu" where
  "WaitValue s waitAddr valueAddr turnNum reset P =
     direct_sqe s (\<lambda>t slot. AddOneWaitStartSqe (sid s) t waitAddr valueAddr reset)
       (push_bit TURN_LEFT_SHIFT_BIT turnNum + of_bool reset) P"

definition WriteValue :: "nat \<Rightarrow> u64 \<Rightarrow> u64 \<Rightarrow> u32 \<Rightarrow> DispatcherAiCpu \<Rightarrow> HcclResult \<times> DispatcherAiCpu" where
  "WriteValue s writeAddr valueAddr turnNum P =
     direct_sqe s (\<lambda>t slot. AddOneWriteValueStartSqe (sid s) t writeAddr valueAddr) turnNum P"

section \<open>Copies and reductions\<close>

definition HCCL_SDMA_MAX_COUNT_4GB :: u64 where "HCCL_SDMA_MAX_COUNT_4GB = 0x100000000"

text \<open>The parts of a copy: offsets and lengths.\<close>

definition spilt_loop :: "u64 \<Rightarrow> u64" where
  "spilt_loop n = (if HCCL_SDMA_MAX_COUNT_4GB < n
     then if n mod HCCL_SDMA_MAX_COUNT_4GB \<noteq> 0 then n div HCCL_SDMA_MAX_COUNT_4GB else n div HCCL_SDMA_MAX_COUNT_4GB - 1 else 0)"

definition sdma_parts :: "u64 \<Rightarrow> (u64 \<times> u64) list" where
  "sdma_parts n =
     map (\<lambda>i. (of_nat i * HCCL_SDMA_MAX_COUNT_4GB,
               if of_nat i = spilt_loop n then n - of_nat i * HCCL_SDMA_MAX_COUNT_4GB else HCCL_SDMA_MAX_COUNT_4GB))
       [0..<Suc (unat (spilt_loop n))]"

fun emit_parts :: "launch_env \<Rightarrow> nat \<Rightarrow> nat \<Rightarrow> u32 \<Rightarrow> aclDataType \<Rightarrow> aclrtReduceKind \<Rightarrow> u64 \<Rightarrow> u64 \<Rightarrow> u8 \<Rightarrow> (u64 \<times> u64) list \<Rightarrow>
    DispatcherAiCpu \<Rightarrow> (HcclResult \<times> DispatcherAiCpu) option" where
  "emit_parts E fuel s rank dt kind src dst linkType [] P = Some (HCCL_SUCCESS, P)"
| "emit_parts E fuel s rank dt kind src dst linkType (p # ps) P =
     chk_opt (call_sqe E fuel s (dfx_info P rank INVALID_VALUE_RANKID) id
       (\<lambda>d. Inr (\<lambda>t slot. addOneMemcpySqe (dp_info P) s t (src + fst p) (ucast (snd p)) dt kind (dst + fst p) linkType
                            (dp_hcclQos P) slot)) P)
       (emit_parts E fuel s rank dt kind src dst linkType ps)"

definition MemcpyAsync :: "launch_env \<Rightarrow> nat \<Rightarrow> DeviceMem \<Rightarrow> DeviceMem \<Rightarrow> nat \<Rightarrow> u32 \<Rightarrow> u8 \<Rightarrow> DispatcherAiCpu \<Rightarrow> (HcclResult \<times> DispatcherAiCpu) option" where
  "MemcpyAsync E fuel dst src s remoteUserRank linkType P =
     (if dp_isPlaceholder P then
        if dm_len src \<noteq> 0 \<or> \<not> placeholder_allowed P then Some (HCCL_E_INTERNAL, P)
        else call_sqe E fuel s (dfx_info P remoteUserRank INVALID_VALUE_RANKID) id
          (\<lambda>d. Inr (\<lambda>t slot. AddOneCacheMemcpyPlaceHolderSqeV1 (sid s) t (dm_addr src) (dm_addr dst) linkType (dp_hcclQos P))) P
      else if dm_len src = 0 \<or> src = dst then Some (HCCL_SUCCESS, P)
      else if dm_len dst < dm_len src then Some (HCCL_E_PTR, P)
      else emit_parts E fuel s remoteUserRank ACL_FLOAT ACL_RT_MEMCPY_INVALID (dm_addr src) (dm_addr dst) linkType
        (sdma_parts (dm_len src)) P)"

text \<open>The tables of the runtime's types and reductions; an entry the table leaves out is zero, a float.\<close>

definition DT_MAP_TABLE :: "nat \<Rightarrow> aclDataType" where
  "DT_MAP_TABLE i =
     (let t = [ACL_INT8, ACL_INT16, ACL_INT32, ACL_FLOAT16, ACL_FLOAT, ACL_DT_UNDEFINED, ACL_DT_UNDEFINED, ACL_UINT8, ACL_UINT16,
               ACL_UINT32, ACL_DT_UNDEFINED, ACL_BF16, ACL_DT_UNDEFINED] in
      if i < length t then t ! i else ACL_FLOAT)"

definition RK_MAP_TABLE :: "nat \<Rightarrow> aclrtReduceKind" where
  "RK_MAP_TABLE i =
     (if i = 0 then ACL_RT_MEMCPY_SDMA_AUTOMATIC_SUM
      else if i = 2 then ACL_RT_MEMCPY_SDMA_AUTOMATIC_MAX
      else if i = 3 then ACL_RT_MEMCPY_SDMA_AUTOMATIC_MIN else ACL_RT_MEMCPY_INVALID)"

definition InlineReduceAsync :: "launch_env \<Rightarrow> nat \<Rightarrow> (nat \<Rightarrow> u64) \<Rightarrow> bool \<Rightarrow> u64 \<Rightarrow> u64 \<Rightarrow> nat \<Rightarrow> nat \<Rightarrow> nat \<Rightarrow> u64 \<Rightarrow> u32 \<Rightarrow> u8 \<Rightarrow>
    DispatcherAiCpu \<Rightarrow> (HcclResult \<times> DispatcherAiCpu) option" where
  "InlineReduceAsync E fuel SIZE_TABLE streamPtr src dataCount datatype redOp s dst remoteUserRank linkType P =
     (if \<not> streamPtr then Some (HCCL_E_PTR, P)
      else if dataCount = 0 then Some (HCCL_SUCCESS, P)
      else emit_parts E fuel s remoteUserRank (DT_MAP_TABLE datatype) (RK_MAP_TABLE redOp) src dst linkType
        (sdma_parts (dataCount * SIZE_TABLE datatype)) P)"

definition TbeReduceAsync :: "DispatcherAiCpu \<Rightarrow> (HcclResult \<times> DispatcherAiCpu) option" where
  "TbeReduceAsync P = Some (HCCL_E_NOT_SUPPORT, P)"

definition ReduceAsync :: "launch_env \<Rightarrow> nat \<Rightarrow> (nat \<Rightarrow> u64) \<Rightarrow> bool \<Rightarrow> u64 \<Rightarrow> u64 \<Rightarrow> u64 \<Rightarrow> nat \<Rightarrow> nat \<Rightarrow> nat \<Rightarrow> bool \<Rightarrow>
    DispatcherAiCpu \<Rightarrow> (HcclResult \<times> DispatcherAiCpu) option" where
  "ReduceAsync E fuel SIZE_TABLE streamPtr src dst dataCount datatype redOp s inlineReduce P =
     (if inlineReduce then InlineReduceAsync E fuel SIZE_TABLE streamPtr src dataCount datatype redOp s dst INVALID_VALUE_RANKID 0 P
      else TbeReduceAsync P)"

section \<open>Sending over RDMA\<close>

text \<open>A work request: the length of its data and its notification.\<close>

record WrInformation =
  wr_len :: u32
  wr_notifyId :: u32

record RdmaTaskInfo =
  rt_remoteRank :: u32
  rt_rdmaType :: nat
  rt_wrInfos :: "WrInformation list"

text \<open>The length and the last valid notification of the requests.\<close>

definition wr_total :: "WrInformation list \<Rightarrow> u32 \<times> u32" where
  "wr_total wrs = fold (\<lambda>wr (len, notifyId). (len + wr_len wr, if wr_notifyId wr \<noteq> INVALID_VALUE_RANKID then wr_notifyId wr else notifyId))
     wrs (0, INVALID_VALUE_RANKID)"

definition CalcDbAddr :: "HcclAicpuDispatcherInfo \<Rightarrow> u32 \<Rightarrow> u64" where
  "CalcDbAddr d dbindex =
     (let die = ucast (drop_bit 16 (dbindex AND 0x00ff0000)) in
      if ai_devType d = DEV_TYPE_910_93 then 0x202000000000 + 0x230 + 0x20000000000 * ai_chipId d + 0x10000000000 * die
      else 0x2000000000 + 0x230 + 0x80000000000 * ai_chipId d + 0x10000000000 * die)"

text \<open>A device of the 310P has no format for the entry, and its pointer is not called there.\<close>

definition RdmaSend :: "launch_env \<Rightarrow> nat \<Rightarrow> u32 \<Rightarrow> u64 \<Rightarrow> nat \<Rightarrow> RdmaTaskInfo \<Rightarrow> DispatcherAiCpu \<Rightarrow> (HcclResult \<times> DispatcherAiCpu) option" where
  "RdmaSend E fuel dbindex dbinfo s info P =
     (let (len, notifyId) = wr_total (rt_wrInfos info) in
      call_sqe E fuel s (dfx_info P (rt_remoteRank info) notifyId) id
        (\<lambda>d. Inr (\<lambda>t slot. AddOneRdmaDbSendSqeV1 (sid s) t dbinfo (CalcDbAddr (dp_info P) dbindex) len (of_nat (rt_rdmaType info)))) P)"

definition RdmaRecord :: "DispatcherAiCpu \<Rightarrow> HcclResult \<times> DispatcherAiCpu" where
  "RdmaRecord P = (HCCL_SUCCESS, P)"

section \<open>Waiting for a stream\<close>

text \<open>Until the scheduler has reached the tail read at the start: one query for each unit of fuel.\<close>

fun sync_loop :: "launch_env \<Rightarrow> nat \<Rightarrow> nat \<Rightarrow> u64 \<Rightarrow> nat \<Rightarrow> device \<Rightarrow> (HcclResult \<times> device) option" where
  "sync_loop E 0 s startUsec tail d = None"
| "sync_loop E (Suc n) s startUsec tail d =
     (let (r, head, d1) = QuerySqHead E s d in
      if r \<noteq> HCCL_SUCCESS then Some (r, d1)
      else if NANOSECOND_TO_SECOND * to_sqeTimeOutTimeOut (d_dfxTimeOut d1) < e_time E (d_now d1) - startUsec
        then Some (HCCL_E_TIMEOUT, d1)
      else if head \<noteq> tail then sync_loop E n s startUsec tail d1 else Some (HCCL_SUCCESS, d1))"

definition StreamSync :: "launch_env \<Rightarrow> nat \<Rightarrow> nat \<Rightarrow> DispatcherAiCpu \<Rightarrow> (HcclResult \<times> DispatcherAiCpu) option" where
  "StreamSync E fuel s P =
     map_option (\<lambda>(r, d). (r, P\<lparr>dp_dev := d\<rparr>))
       (let d = dp_dev P; startUsec = e_time E (d_now d); (r, _, d1) = QuerySqHead E s d in
        if r \<noteq> HCCL_SUCCESS then Some (r, d1) else sync_loop E fuel s startUsec (q_tail (d_hw d1 s)) d1)"

section \<open>Launching an operator from the cache\<close>

definition flip_placeholder :: "nat \<Rightarrow> u16 \<Rightarrow> u32 \<Rightarrow> cached_sqe" where
  "flip_placeholder s flipNum opIdx =
     (let (ty, e) = AddOneFlipPlaceHolderSqeV1 (sid s) flipNum 0 in
      (e, ty, \<lparr>df_remoteRank = INVALID_VALUE_RANKID, df_opRingBufferIdx = opIdx, df_notifyId = INVALID_VALUE_RANKID\<rparr>))"

text \<open>An array goes out in segments, each but the last followed by a flip placeholder.\<close>

fun launch_segments :: "launch_env \<Rightarrow> nat \<Rightarrow> bool \<Rightarrow> nat \<Rightarrow> u32 \<Rightarrow> cached_sqe list \<Rightarrow> nat \<Rightarrow> FlipInfo list \<Rightarrow> device \<Rightarrow>
    (HcclResult \<times> device) option" where
  "launch_segments E fuel flipFormat s opIdx sqes start [] d =
     (if start < length sqes
      then chk_opt (WaitRtsq E fuel s (length sqes - start) d) (\<lambda>d. Some (MemcpyRtsq E s (drop start sqes) d))
      else Some (HCCL_SUCCESS, d))"
| "launch_segments E fuel flipFormat s opIdx sqes start ((idx, flipNum) # fs) d =
     (if idx < start then Some (HCCL_E_INTERNAL, d)
      else chk_opt (WaitRtsq E fuel s (idx - start + 1) d) (\<lambda>d.
        chk_opt (Some (if start < idx then MemcpyRtsq E s (take (idx - start) (drop start sqes)) d else (HCCL_SUCCESS, d))) (\<lambda>d.
          if flipNum = 0 then Some (HCCL_E_INTERNAL, d)
          else if \<not> flipFormat then Some (HCCL_E_PTR, d)
          else chk_opt (Some (MemcpyRtsq E s [flip_placeholder s flipNum opIdx] d))
            (launch_segments E fuel flipFormat s opIdx sqes idx fs))))"

definition launch_array :: "launch_env \<Rightarrow> nat \<Rightarrow> bool \<Rightarrow> u32 \<Rightarrow> current_call \<Rightarrow> nat list \<Rightarrow> nat \<Rightarrow> OpUnfoldCacheEntry \<times> device \<Rightarrow>
    (HcclResult \<times> OpUnfoldCacheEntry \<times> device) option" where
  "launch_array E fuel flipFormat opIdx C streams arrayIdx cur =
     (let (en, d) = cur; (r, (s, flipInfos), en', d') = UpdateAndGetSqeArray arrayIdx C streams opIdx en d in
      if r \<noteq> HCCL_SUCCESS then Some (r, en', d')
      else map_option (\<lambda>(r, d). (r, en', d))
        (launch_segments E fuel flipFormat s opIdx (map cached_of (sa_items (en_arrays en' ! arrayIdx))) 0 flipInfos d'))"

fun launch_arrays :: "launch_env \<Rightarrow> nat \<Rightarrow> bool \<Rightarrow> u32 \<Rightarrow> current_call \<Rightarrow> nat list \<Rightarrow> nat list \<Rightarrow> OpUnfoldCacheEntry \<times> device \<Rightarrow>
    (HcclResult \<times> OpUnfoldCacheEntry \<times> device) option" where
  "launch_arrays E fuel flipFormat opIdx C streams [] cur = Some (HCCL_SUCCESS, cur)"
| "launch_arrays E fuel flipFormat opIdx C streams (i # is) cur =
     chk_opt (launch_array E fuel flipFormat opIdx C streams i cur) (launch_arrays E fuel flipFormat opIdx C streams is)"

definition LaunchNewTask :: "launch_env \<Rightarrow> nat \<Rightarrow> current_call \<Rightarrow> nat \<Rightarrow> nat list \<Rightarrow> OpUnfoldCacheEntry option \<Rightarrow> DispatcherAiCpu \<Rightarrow>
    (HcclResult \<times> OpUnfoldCacheEntry option \<times> DispatcherAiCpu) option" where
  "LaunchNewTask E fuel C mainStream slaveStreams entryPtr P =
     (case entryPtr of
        None \<Rightarrow> Some (HCCL_E_PTR, None, P)
      | Some en \<Rightarrow>
          case (if cc_isAlltoallv C then attempt (metadata_Check (cc_meta C) True) (\<lambda>_. info_Check (cc_types C) (cc_info C)) else Inr ()) of
            Inl r \<Rightarrow> Some (r, entryPtr, P)
          | Inr _ \<Rightarrow>
              case GetSqeArrayCount en of
                Inl r \<Rightarrow> Some (r, entryPtr, P)
              | Inr n \<Rightarrow>
                  map_option (\<lambda>(r, en, d). (r, Some en, P\<lparr>dp_dev := d\<rparr>))
                    (chk_opt (launch_arrays E fuel (\<not> is310P (ai_devType (dp_info P))) (dp_opRingBufferIdx P) C
                       (mainStream # slaveStreams) [0..<n] (en, dp_dev P)) (\<lambda>(en, d).
                         Some (let (r, en) = SetInputOutputMemRanges (cc_inputs C) (cc_outputs C) en in (r, en, d)))))"

end
