(* ===== verification/ReplayProof.thy ===== *)
theory ReplayProof
  imports AicpuDispatcher
begin

text \<open>
  Launching an operator from the cache: what its streams receive. The refreshed entries take the
  task numbers of their stream in order, go to the ring in segments with a flip placeholder
  between them, and the whole call refines a step on the abstract queues of theory \<open>SqeSpec\<close>.
\<close>

section \<open>Entries given to a stream\<close>

definition gives :: "nat \<Rightarrow> sqe list \<Rightarrow> device \<Rightarrow> device \<Rightarrow> bool" where
  "gives s es d d' \<longleftrightarrow> device_ok d' \<and> d_depth d' = d_depth d \<and>
     (\<forall>t. issued d' t = issued d t @ (if t = s then es else [])) \<and>
     (\<forall>t. rel_option same_entries (d_ctx d t) (d_ctx d' t))"

lemma launches_gives: "launches d d' \<Longrightarrow> gives s [] d d'"
  by (simp add: launches_def gives_def)

lemma rel_same_entries_trans:
  "rel_option same_entries x y \<Longrightarrow> rel_option same_entries y z \<Longrightarrow> rel_option same_entries x z"
  by (cases x; cases y; cases z) (auto intro: same_entries_trans)

lemma gives_trans: "gives s es a b \<Longrightarrow> gives s fs b c \<Longrightarrow> gives s (es @ fs) a c"
  unfolding gives_def by (auto intro: rel_same_entries_trans)

lemma gives_ok: "gives s es d d' \<Longrightarrow> device_ok d'"
  by (simp add: gives_def)

text \<open>No stream has entries waiting in its local buffer.\<close>

definition idle :: "device \<Rightarrow> bool" where
  "idle d \<longleftrightarrow> (\<forall>s b. d_ctx d s = Some b \<longrightarrow> rb_sqeCnt b = 0)"

lemma gives_idle: "idle d \<Longrightarrow> gives s es d d' \<Longrightarrow> idle d'"
proof -
  assume i: "idle d" and g: "gives s es d d'"
  have "rb_sqeCnt b = 0" if b: "d_ctx d' t = Some b" for t b
  proof -
    have "rel_option same_entries (d_ctx d t) (d_ctx d' t)" using g by (simp add: gives_def)
    then obtain a where "d_ctx d t = Some a" "same_entries a b" using b by (cases "d_ctx d t") auto
    then show ?thesis using i by (auto simp: idle_def same_entries_def)
  qed
  then show ?thesis by (simp add: idle_def)
qed

section \<open>Room in a ring\<close>

definition room :: "device \<Rightarrow> nat \<Rightarrow> nat \<Rightarrow> bool" where
  "room d s n \<longleftrightarrow> (\<exists>b. d_ctx d s = Some b \<and>
     used (d_depth d s) (q_head (d_hw d s)) (q_tail (d_hw d s)) + n < d_depth d s \<and>
     used (d_depth d s) (rb_sqHead b) (q_tail (d_hw d s)) + n < d_depth d s)"

lemma room_not_full:
  assumes ok: "device_ok d" and b: "d_ctx d s = Some b" and n: "n < d_depth d s" "\<not> rtsq_full (d_depth d s) b n"
  shows "room d s n"
proof -
  let ?D = "d_depth d s" and ?q = "d_hw d s"
  have "stream_ok d s" using ok by (simp add: device_ok_def)
  then have c: "ctx_ok ?D ?q b" "q_head ?q < ?D" "q_tail ?q < ?D" "0 < ?D" "?D \<le> HCCL_SQE_MAX_CNT"
    using b by (simp_all add: stream_ok_def Let_def)
  let ?qh = "\<lparr>q_ring = q_ring ?q, q_head = rb_sqHead b, q_tail = q_tail ?q, q_done = []\<rparr>"
  have "ctx_ok ?D ?qh b" "q_head ?qh < ?D" using c(1) by (simp_all add: ctx_ok_def)
  then have "used ?D (rb_sqHead b) (q_tail ?q) + n < ?D" using rtsq_full_room[of ?D ?qh b n] c n by simp
  then show ?thesis using rtsq_full_room[OF c(1,4,5,2,3) n] b by (simp add: room_def)
qed

lemma WaitRtsq_room:
  assumes ok: "device_ok d" and n: "0 < n" "n < d_depth d s" and w: "WaitRtsq E fuel s n d = Some (r, d')"
  shows "launches d d'" "r = HCCL_SUCCESS \<Longrightarrow> room d' s n"
proof -
  have "wait_space E fuel n (e_time E (d_now d)) s d = Some (r, d')" using w n by (simp add: WaitRtsq_def split: if_splits)
  note W = wait_space_launches[OF ok this]
  then show l: "launches d d'" by simp
  assume "r = HCCL_SUCCESS"
  then obtain b where "d_ctx d' s = Some b" "\<not> rtsq_full (d_depth d' s) b n" using W by blast
  then show "room d' s n" using room_not_full[of d' s b n] l n by (simp add: launches_def)
qed

lemma MemcpyRtsq_gives:
  assumes ok: "device_ok d" and i: "idle d" and room: "room d s (length sqes + m)" and c: "MemcpyRtsq E s sqes d = (r, d')"
  shows "gives s (if r = HCCL_SUCCESS then map fst sqes else []) d d'" "r = HCCL_SUCCESS \<Longrightarrow> room d' s m"
proof -
  let ?D = "d_depth d s" and ?q = "d_hw d s" and ?n = "length sqes" and ?src = "\<lambda>i. fst (sqes ! i)"
  obtain b where b: "d_ctx d s = Some b" and u: "used ?D (q_head ?q) (q_tail ?q) + (?n + m) < ?D"
    "used ?D (rb_sqHead b) (q_tail ?q) + (?n + m) < ?D" using room by (auto simp: room_def)
  have "stream_ok d s" using ok by (simp add: device_ok_def)
  then have k: "ctx_ok ?D ?q b" "q_head ?q < ?D" "q_tail ?q < ?D" "0 < ?D" "?D \<le> HCCL_SQE_MAX_CNT"
    using b by (simp_all add: stream_ok_def Let_def)
  have free: "used ?D (q_head ?q) (q_tail ?q) + ?n < ?D" "used ?D (rb_sqHead b) (q_tail ?q) + ?n < ?D" using u by linarith+
  have "gives s (if r = HCCL_SUCCESS then map fst sqes else []) d d' \<and> (r = HCCL_SUCCESS \<longrightarrow> room d' s m)"
  proof (cases "?n = 0")
    case True
    then show ?thesis using c room launches_gives[OF launches_refl[OF ok]] by (auto simp: MemcpyRtsq_def)
  next
    case False
    obtain b1 d1 where w: "write_ring s ?src (\<lambda>i. fst (snd (sqes ! i))) (\<lambda>i. snd (snd (sqes ! i))) 0 ?n b d = (b1, d1)"
      by fastforce
    note W = write_ring_launches[OF ok b free(1) w]
    have mt: "(r, d') = move_tail E s ?n b1 d1" using c False b u(1) by (simp add: MemcpyRtsq_def w)
    define t' where "t' = w32 (rb_sqTail b1 + ?n) mod ?D"
    have tail: "rb_sqTail b1 = q_tail ?q" using W(3) k(1) by (simp add: ctx_ok_def)
    have t': "t' = (q_tail ?q + ?n) mod ?D"
      unfolding t'_def tail by (subst w32_id) (use k free in \<open>simp_all add: HCCL_SQE_MAX_CNT_def\<close>)
    show ?thesis
    proof (cases "e_config E (d_now d1) = HCCL_SUCCESS")
      case False
      then have "d' = d1" "r \<noteq> HCCL_SUCCESS" using mt by (simp_all add: move_tail_def)
      then show ?thesis using launches_gives[OF W(1)] by simp
    next
      case True
      let ?bn = "b1\<lparr>rb_sqTail := t'\<rparr>" and ?qn = "(d_hw d1 s)\<lparr>q_tail := t'\<rparr>"
      have d': "r = HCCL_SUCCESS" "d' = at_stream s ?bn ?qn d1"
        using mt True W(7) by (simp_all add: move_tail_def at_stream_def t'_def Let_def)
      have q3: "q_head ?qn = q_head ?q" "q_tail ?qn = t'" "q_done ?qn = q_done ?q"
        "q_ring ?qn = ring_copy ?D (q_tail ?q) ?n ?src 0 (q_ring ?q)" using W(6) k(1) by (simp_all add: ctx_ok_def)
      have used': "used ?D (q_head ?q) t' = used ?D (q_head ?q) (q_tail ?q) + ?n"
        "used ?D (rb_sqHead b) t' = used ?D (rb_sqHead b) (q_tail ?q) + ?n"
        unfolding t' by (rule used_add; use k free in \<open>simp add: ctx_ok_def\<close>)+
      have t'D: "t' < ?D" unfolding t' using k(4) by simp
      have "map ?src [0..<0 + ?n] = map fst sqes" by (rule nth_equalityI) simp_all
      then have pend: "pending ?D ?qn = pending ?D ?q @ map fst sqes"
        using sqe_ring_append(2)[OF k(2,3) free(1), of ?src 0 "q_ring ?q"] unfolding pending_def q3 unfolding t' by simp
      have empty: "rb_sqeCnt b = 0" using i b by (simp add: idle_def)
      have ok1: "device_ok d1" using W(1) by (simp add: launches_def)
      have "stream_ok d' t" for t
        using ok1 k(1,2) W(3-8) t'D used' by (auto simp: d' device_ok_def stream_ok_def Let_def ctx_ok_def same_entries_def)
      moreover have "issued d' t = issued d t @ (if t = s then map fst sqes else [])" for t
      proof (cases "t = s")
        case True
        have "waiting ?bn = waiting b" using W(4) empty by (simp add: waiting_def)
        then show ?thesis using pend q3(3) b empty True W(7) by (simp add: issued_def d' waiting_def)
      next
        case False
        have "issued d1 t = issued d t" using W(1) by (simp add: launches_def)
        then show ?thesis using False W(7) by (simp add: issued_def d')
      qed
      moreover have "rel_option same_entries (d_ctx d t) (d_ctx d' t)" for t
      proof -
        have "rel_option same_entries (d_ctx d t) (d_ctx d1 t)" using W(1) by (simp add: launches_def)
        then show ?thesis using b W(8) by (cases "t = s") (auto simp: d' same_entries_def)
      qed
      ultimately have "gives s (map fst sqes) d d'" using W(7) by (simp add: gives_def device_ok_def d')
      moreover have "room d' s m" using u used' W(5,7) q3 by (simp add: room_def d')
      ultimately show ?thesis using d'(1) by simp
    qed
  qed
  then show "gives s (if r = HCCL_SUCCESS then map fst sqes else []) d d'" "r = HCCL_SUCCESS \<Longrightarrow> room d' s m" by simp_all
qed


section \<open>The segments of an array\<close>

fun segment_sqes :: "nat \<Rightarrow> u32 \<Rightarrow> cached_sqe list \<Rightarrow> nat \<Rightarrow> FlipInfo list \<Rightarrow> sqe list" where
  "segment_sqes s op sqes start [] = map fst (drop start sqes)"
| "segment_sqes s op sqes start ((idx, f) # fs) =
     map fst (take (idx - start) (drop start sqes)) @ fst (flip_placeholder s f op) # segment_sqes s op sqes idx fs"

lemma launch_segments_gives:
  "device_ok d \<Longrightarrow> idle d \<Longrightarrow> length sqes < d_depth d s \<Longrightarrow> \<forall>f \<in> set fs. fst f < length sqes \<Longrightarrow>
   launch_segments E fuel fmt s op sqes start fs d = Some (HCCL_SUCCESS, d') \<Longrightarrow>
   gives s (segment_sqes s op sqes start fs) d d'"
proof (induction fs arbitrary: start d)
  case Nil
  show ?case
  proof (cases "start < length sqes")
    case False
    then show ?thesis using Nil launches_gives[OF launches_refl] by simp
  next
    case True
    let ?n = "length sqes - start"
    obtain r1 d1 where w: "WaitRtsq E fuel s ?n d = Some (r1, d1)" and
      k: "if r1 = HCCL_SUCCESS then Some (MemcpyRtsq E s (drop start sqes) d1) = Some (HCCL_SUCCESS, d') else (HCCL_SUCCESS, d') = (r1, d1)"
      using chk_opt_Some[OF Nil.prems(5)[unfolded launch_segments.simps if_P[OF True]]] by blast
    then have r1: "r1 = HCCL_SUCCESS" and m: "MemcpyRtsq E s (drop start sqes) d1 = (HCCL_SUCCESS, d')" by (auto split: if_splits)
    have n: "0 < ?n" "?n < d_depth d s" using True Nil.prems(3) by simp_all
    note W = WaitRtsq_room[OF Nil.prems(1) n w]
    note g = launches_gives[OF W(1), of s]
    have "room d1 s (length (drop start sqes) + 0)" using W(2)[OF r1] by simp
    from gives_trans[OF g MemcpyRtsq_gives(1)[OF gives_ok[OF g] gives_idle[OF Nil.prems(2) g] this m]] show ?thesis by simp
  qed
next
  case (Cons f fs)
  obtain idx num where f: "f = (idx, num)" by fastforce
  have idx: "idx < length sqes" using Cons.prems(4) by (simp add: f)
  have le: "\<not> idx < start" using Cons.prems(5) by (auto simp: f)
  let ?n = "idx - start" and ?part = "take (idx - start) (drop start sqes)"
  let ?copy = "\<lambda>d. Some (if start < idx then MemcpyRtsq E s ?part d else (HCCL_SUCCESS, d))"
  let ?rest = "\<lambda>d. if num = 0 then Some (HCCL_E_INTERNAL, d) else if \<not> fmt then Some (HCCL_E_PTR, d)
      else chk_opt (Some (MemcpyRtsq E s [flip_placeholder s num op] d)) (launch_segments E fuel fmt s op sqes idx fs)"
  have all: "chk_opt (WaitRtsq E fuel s (?n + 1) d) (\<lambda>d. chk_opt (?copy d) ?rest) = Some (HCCL_SUCCESS, d')"
    using Cons.prems(5) le by (simp add: f)
  obtain r1 d1 where w: "WaitRtsq E fuel s (?n + 1) d = Some (r1, d1)" and
    k1: "if r1 = HCCL_SUCCESS then chk_opt (?copy d1) ?rest = Some (HCCL_SUCCESS, d') else (HCCL_SUCCESS, d') = (r1, d1)"
    using chk_opt_Some[OF all] by blast
  have r1: "r1 = HCCL_SUCCESS" and c1: "chk_opt (?copy d1) ?rest = Some (HCCL_SUCCESS, d')" using k1 by (auto split: if_splits)
  have n: "0 < ?n + 1" "?n + 1 < d_depth d s" using idx Cons.prems(3) by simp_all
  note W = WaitRtsq_room[OF Cons.prems(1) n w]
  note g1 = launches_gives[OF W(1), of s]
  note i1 = gives_idle[OF Cons.prems(2) g1]
  have len: "length ?part = ?n" using idx by simp
  obtain r2 d2 where m: "(if start < idx then MemcpyRtsq E s ?part d1 else (HCCL_SUCCESS, d1)) = (r2, d2)" by fastforce
  have c2: "r2 = HCCL_SUCCESS" "?rest d2 = Some (HCCL_SUCCESS, d')" using c1 m by (auto simp: chk_opt_def split: if_splits)
  have r: "room d1 s (length ?part + 1)" unfolding len by (rule W(2)[OF r1])
  have part: "gives s (map fst ?part) d1 d2 \<and> room d2 s 1"
  proof (cases "start < idx")
    case True
    then have "MemcpyRtsq E s ?part d1 = (HCCL_SUCCESS, d2)" using m c2(1) by simp
    from MemcpyRtsq_gives[OF gives_ok[OF g1] i1 r this] show ?thesis by simp
  next
    case False
    then show ?thesis using m r launches_gives[OF launches_refl[OF gives_ok[OF g1]]] by simp
  qed
  note g2 = gives_trans[OF g1 conjunct1[OF part]]
  note i2 = gives_idle[OF Cons.prems(2) g2]
  obtain r3 d3 where p: "MemcpyRtsq E s [flip_placeholder s num op] d2 = (r3, d3)" by fastforce
  have c3: "r3 = HCCL_SUCCESS" "launch_segments E fuel fmt s op sqes idx fs d3 = Some (HCCL_SUCCESS, d')"
    using c2(2) p by (auto simp: chk_opt_def split: if_splits)
  have "room d2 s (length [flip_placeholder s num op] + 0)" using part by simp
  note P = MemcpyRtsq_gives(1)[OF gives_ok[OF g2] i2 this p]
  note g3 = gives_trans[OF g2 P]
  have d3: "length sqes < d_depth d3 s" using g3 Cons.prems(3) by (simp add: gives_def)
  have fs: "\<forall>f \<in> set fs. fst f < length sqes" using Cons.prems(4) by simp
  from gives_trans[OF g3 Cons.IH[OF gives_ok[OF g3] gives_idle[OF Cons.prems(2) g3] d3 fs c3(2)]]
  show ?case by (simp add: f c3(1))
qed

section \<open>Task numbers\<close>

text \<open>Where the flip placeholders go, and what the stream gets, by the counter of its entries.\<close>

definition flips_here :: "nat \<Rightarrow> bool" where
  "flips_here n \<longleftrightarrow> n mod 2 ^ 16 = 0 \<and> n \<noteq> 0"

fun flips_at :: "nat \<Rightarrow> nat \<Rightarrow> nat \<Rightarrow> FlipInfo list" where
  "flips_at i n 0 = []"
| "flips_at i n (Suc m) =
     (if flips_here n then [(i, word_of_nat (n div 2 ^ 16))] else []) @ flips_at (i + 1) ((n + 1) mod 2 ^ 32) m"

fun replay_entries :: "nat \<Rightarrow> (u16 \<Rightarrow> 'a \<Rightarrow> sqe) \<Rightarrow> nat \<Rightarrow> 'a list \<Rightarrow> sqe list" where
  "replay_entries s g n [] = []"
| "replay_entries s g n (x # xs) =
     (if flips_here n then [snd (AddOneFlipPlaceHolderSqeV1 (sid s) (word_of_nat (n div 2 ^ 16)) 0)] else []) @
     g (word_of_nat (n mod 2 ^ 16)) x # replay_entries s g ((n + 1) mod 2 ^ 32) xs"

definition number :: "u16 \<times> u16 \<Rightarrow> nat" where
  "number tf = unat (snd tf) * 2 ^ 16 + unat (fst tf)"

lemma number_parts:
  "unat (fst tf) = number tf mod 2 ^ 16" "unat (snd tf) = number tf div 2 ^ 16" "word_of_nat (number tf mod 2 ^ 16) = fst tf"
  "word_of_nat (number tf div 2 ^ 16) = snd tf" "fst tf = 0 \<and> snd tf \<noteq> 0 \<longleftrightarrow> flips_here (number tf)"
proof -
  have t: "unat (fst tf) < 65536" using unsigned_less[of "fst tf", where ?'a = nat] by simp
  show m: "unat (fst tf) = number tf mod 2 ^ 16" and d: "unat (snd tf) = number tf div 2 ^ 16"
    using t by (simp_all add: number_def)
  show "word_of_nat (number tf mod 2 ^ 16) = fst tf" "word_of_nat (number tf div 2 ^ 16) = snd tf"
    unfolding m[symmetric] d[symmetric] by simp_all
  have "fst tf = 0 \<longleftrightarrow> unat (fst tf) = 0" "snd tf = 0 \<longleftrightarrow> unat (snd tf) = 0" by (simp_all add: word_unat_eq_iff)
  then show "fst tf = 0 \<and> snd tf \<noteq> 0 \<longleftrightarrow> flips_here (number tf)"
    unfolding flips_here_def m[symmetric] by (auto simp: number_def)
qed

lemma next_numbers_number:
  "number (fst (next_numbers i tf)) = (number tf + 1) mod 2 ^ 32"
  "snd (next_numbers i tf) = (if flips_here (number tf) then [(i, word_of_nat (number tf div 2 ^ 16))] else [])"
proof -
  obtain t f where tf: "tf = (t, f)" by fastforce
  have "fst (next_numbers i tf) = (t + 1, if t = -1 then f + 1 else f)" by (auto simp: next_numbers_def tf)
  then show "number (fst (next_numbers i tf)) = (number tf + 1) mod 2 ^ 32"
    using sequence_next[of t f] by (simp add: number_def tf)
  show "snd (next_numbers i tf) = (if flips_here (number tf) then [(i, word_of_nat (number tf div 2 ^ 16))] else [])"
    unfolding number_parts(5)[of tf, symmetric] number_parts(4) by (auto simp: next_numbers_def tf)
qed

lemma refresh_items_numbers:
  "refresh_items f i tf xs = (HCCL_SUCCESS, ys, tf', fls) \<Longrightarrow>
   length ys = length xs \<and> number tf' = (number tf + length xs) mod 2 ^ 32 \<and> fls = flips_at i (number tf) (length xs) \<and>
   replay_entries s (\<lambda>_ e. e) (number tf) (map ci_sqe ys) = replay_entries s (\<lambda>t x. ci_sqe (snd (f t x))) (number tf) xs"
proof (induction xs arbitrary: i tf ys fls)
  case Nil
  have "number tf < 2 ^ 32"
    using unsigned_less[of "fst tf", where ?'a = nat] unsigned_less[of "snd tf", where ?'a = nat] by (simp add: number_def)
  then show ?case using Nil by simp
next
  case (Cons x xs)
  obtain r x' where f: "f (fst tf) x = (r, x')" by fastforce
  obtain tf1 fl where nn: "next_numbers i tf = (tf1, fl)" by fastforce
  obtain r' xs' tf2 fls' where rec: "refresh_items f (i + 1) tf1 xs = (r', xs', tf2, fls')" by (metis prod_cases4)
  have parts: "r = HCCL_SUCCESS" "r' = HCCL_SUCCESS" "ys = x' # xs'" "tf' = tf2" "fls = fl @ fls'"
    using Cons.prems by (auto simp: f nn rec[simplified] split: if_splits)
  have "refresh_items f (i + 1) tf1 xs = (HCCL_SUCCESS, xs', tf', fls')" using rec parts by simp
  note ih = Cons.IH[OF this]
  have w: "word_of_nat (number tf mod 65536) = fst tf" using number_parts(3)[of tf] by simp
  show ?case
    using ih next_numbers_number[of i tf] mod_add_left_eq[of "number tf + 1" "2 ^ 32" "length xs"] f
    by (simp add: nn w parts)
qed

lemma segments_of_flips:
  "start \<le> i \<Longrightarrow> i \<le> length sqes \<Longrightarrow> segment_sqes s op sqes start (flips_at i n (length sqes - i)) =
    map fst (take (i - start) (drop start sqes)) @ replay_entries s (\<lambda>_ e. e) n (map fst (drop i sqes))"
proof (induction "length sqes - i" arbitrary: start i n)
  case 0
  then show ?case by simp
next
  case (Suc m)
  have i: "i < length sqes" and m: "length sqes - i = Suc m" "m = length sqes - Suc i" using Suc.hyps(2) by linarith+
  have cons: "drop i sqes = sqes ! i # drop (Suc i) sqes" using i by (simp add: Cons_nth_drop_Suc)
  have upto: "take (Suc i - start) (drop start sqes) = take (i - start) (drop start sqes) @ [sqes ! i]" if "start \<le> i" for start
    using that i by (simp add: Suc_diff_le take_Suc_conv_app_nth)
  have ph: "fst (flip_placeholder s f op) = snd (AddOneFlipPlaceHolderSqeV1 (sid s) f 0)" for f
    by (simp add: flip_placeholder_def Let_def split: prod.split)
  show ?case
    using Suc.hyps(1)[OF m(2), of i "(n + 1) mod 2 ^ 32"] Suc.hyps(1)[OF m(2), of start "(n + 1) mod 2 ^ 32"] Suc.prems i
    by (simp add: m(1) m(2)[symmetric] cons upto ph)
qed


section \<open>The whole call\<close>

text \<open>The step on the abstract queues that replaying one array should be.\<close>

definition replay_array :: "OpUnfoldCacheEntry \<Rightarrow> current_call \<Rightarrow> nat list \<Rightarrow> nat \<Rightarrow> queues \<Rightarrow> queues" where
  "replay_array en C streams i q =
     (let s = streams ! (en_streamSeqIdxes en ! i); items = sa_items (en_arrays en ! i) in
      case snd (q s) of
        None \<Rightarrow> q
      | Some n \<Rightarrow> q(s := (fst (q s) @ replay_entries s (\<lambda>t x. ci_sqe (snd (refresh_item en C t x))) n items,
                          Some ((n + length items) mod 2 ^ 32))))"

lemma gives_abs: "gives s es d d' \<Longrightarrow> abs_queues d' = (abs_queues d)(s := (fst (abs_queues d s) @ es, snd (abs_queues d s)))"
proof (rule ext)
  fix t
  assume g: "gives s es d d'"
  have "map_option sequence (d_ctx d' t) = map_option sequence (d_ctx d t)"
  proof -
    have "rel_option same_entries (d_ctx d t) (d_ctx d' t)" using g by (simp add: gives_def)
    then show ?thesis by (cases "d_ctx d t"; cases "d_ctx d' t") (simp_all add: same_entries_def sequence_def)
  qed
  then show "abs_queues d' t = ((abs_queues d)(s := (fst (abs_queues d s) @ es, snd (abs_queues d s)))) t"
    using g by (simp add: abs_queues_def gives_def)
qed

lemma set_counters:
  assumes "device_ok d" "idle d" "d_ctx d s = Some b" and d1: "d1 = set_ctx s (b\<lparr>rb_tailSqeTaskId := t, rb_filpNum := f\<rparr>) d"
  shows "device_ok d1" "idle d1" "d_depth d1 = d_depth d"
    "abs_queues d1 = (abs_queues d)(s := (fst (abs_queues d s), Some (number (t, f))))"
proof -
  have "stream_ok d1 u" for u
  proof -
    have "stream_ok d u" using assms(1) by (simp add: device_ok_def)
    then show ?thesis using assms(3) by (cases "u = s") (auto simp: stream_ok_def set_ctx_def Let_def ctx_ok_def d1)
  qed
  then show "device_ok d1" by (simp add: device_ok_def)
  show "idle d1" using assms(2,3) by (auto simp: idle_def set_ctx_def d1)
  show "d_depth d1 = d_depth d" by (simp add: set_ctx_def d1)
  show "abs_queues d1 = (abs_queues d)(s := (fst (abs_queues d s), Some (number (t, f))))"
    using assms(3) by (auto simp: abs_queues_def issued_def set_ctx_def waiting_def sequence_def number_def d1)
qed

text \<open>Refreshing reads only the ranges of an entry.\<close>

lemma refresh_item_ranges:
  assumes "en_userInputMemRanges en' = en_userInputMemRanges en" "en_userOutputMemRanges en' = en_userOutputMemRanges en"
  shows "refresh_item en' C = refresh_item en C"
proof -
  have u: "refresh_user_addr en' C = refresh_user_addr en C" unfolding refresh_user_addr_def assms ..
  have e: "refresh_end get put en' C = refresh_end get put en C" for get put unfolding refresh_end_def u ..
  have m: "refresh_memcpy en' C = refresh_memcpy en C" unfolding refresh_memcpy_def e ..
  have w: "refresh_write en' C = refresh_write en C" unfolding refresh_write_def u ..
  have c: "UpdateMemcpySqeForAlltoallv en' C = UpdateMemcpySqeForAlltoallv en C" unfolding UpdateMemcpySqeForAlltoallv_def assms ..
  have n: "transfer_count en' C = transfer_count en C" unfolding transfer_count_def ..
  have t: "UpdateTransferSqeForAlltoallv en' C = UpdateTransferSqeForAlltoallv en C" unfolding UpdateTransferSqeForAlltoallv_def c n ..
  show ?thesis unfolding refresh_item_def m w t ..
qed

lemma flips_at_bound: "\<forall>f \<in> set (flips_at i n m). i \<le> fst f \<and> fst f < i + m"
  by (induction i n m rule: flips_at.induct) force+

definition call_checks :: "current_call \<Rightarrow> HcclResult + unit" where
  "call_checks C = (if cc_isAlltoallv C then attempt (metadata_Check (cc_meta C) True) (\<lambda>_. info_Check (cc_types C) (cc_info C)) else Inr ())"

lemma call_checks_error: "call_checks C = Inl r \<Longrightarrow> r = HCCL_E_INTERNAL"
  by (auto simp: call_checks_def metadata_Check_def info_Check_def require_def Let_def split: if_splits)

lemma UpdateAndGetSqeArray_success:
  assumes u: "UpdateAndGetSqeArray i C streams op en d = (HCCL_SUCCESS, (s, fls), en', d')"
  shows "i < length (en_arrays en) \<and> s = streams ! (en_streamSeqIdxes en ! i) \<and> (\<exists>b items t f. d_ctx d s = Some b \<and>
    refresh_items (refresh_item en C) 0 (rb_tailSqeTaskId b, rb_filpNum b) (sa_items (en_arrays en ! i)) = (HCCL_SUCCESS, items, (t, f), fls) \<and>
    en' = en\<lparr>en_arrays := (en_arrays en)[i := (en_arrays en ! i)\<lparr>sa_items := map (set_op op) items\<rparr>]\<rparr> \<and>
    d' = set_ctx s (b\<lparr>rb_tailSqeTaskId := t, rb_filpNum := f\<rparr>) d)"
proof -
  let ?s = "streams ! (en_streamSeqIdxes en ! i)"
  note U = u[unfolded UpdateAndGetSqeArray_def call_checks_def[symmetric] Let_def]
  have i: "\<not> (length (en_arrays en) \<le> i \<or> length (en_streamSeqIdxes en) \<le> i)" using U by (auto split: if_splits)
  obtain c where c: "call_checks C = Inr c"
    using U i call_checks_error by (cases "call_checks C") auto
  have p: "\<not> length streams \<le> en_streamSeqIdxes en ! i" using U i c by (auto split: if_splits)
  obtain b where b: "d_ctx d ?s = Some b" using U i c p by (cases "d_ctx d ?s") auto
  obtain r items tf fl where ri: "refresh_items (refresh_item en C) 0 (rb_tailSqeTaskId b, rb_filpNum b) (sa_items (en_arrays en ! i)) =
      (r, items, tf, fl)" by (metis prod_cases4)
  obtain t f where tf: "tf = (t, f)" by fastforce
  show ?thesis using U i c p b ri by (auto simp: tf)
qed

lemma launch_array_replays:
  assumes ok: "device_ok d" "idle d" and len: "\<forall>s. length (sa_items (en_arrays en ! i)) < d_depth d s"
    and l: "launch_array E fuel fmt op C streams i (en, d) = Some (HCCL_SUCCESS, en', d')"
  shows "device_ok d' \<and> idle d' \<and> d_depth d' = d_depth d \<and> abs_queues d' = replay_array en C streams i (abs_queues d) \<and>
    (\<exists>a. en' = en\<lparr>en_arrays := (en_arrays en)[i := a]\<rparr>)"
proof -
  obtain r s fls en1 d1 where u: "UpdateAndGetSqeArray i C streams op en d = (r, (s, fls), en1, d1)"
    by (metis prod_cases4 prod.collapse)
  let ?a = "en_arrays en ! i"
  have r: "r = HCCL_SUCCESS" and seg: "launch_segments E fuel fmt s op (map cached_of (sa_items (en_arrays en1 ! i))) 0 fls d1 = Some (HCCL_SUCCESS, d')"
    and en1: "en' = en1" using l by (auto simp: launch_array_def u split: if_splits)
  obtain b items t f where i: "i < length (en_arrays en)" and s: "s = streams ! (en_streamSeqIdxes en ! i)" and b: "d_ctx d s = Some b"
    and ri: "refresh_items (refresh_item en C) 0 (rb_tailSqeTaskId b, rb_filpNum b) (sa_items ?a) = (HCCL_SUCCESS, items, (t, f), fls)"
    and e1: "en1 = en\<lparr>en_arrays := (en_arrays en)[i := ?a\<lparr>sa_items := map (set_op op) items\<rparr>]\<rparr>"
    and d1: "d1 = set_ctx s (b\<lparr>rb_tailSqeTaskId := t, rb_filpNum := f\<rparr>) d"
    using UpdateAndGetSqeArray_success[OF u[unfolded r]] by blast
  let ?n = "number (rb_tailSqeTaskId b, rb_filpNum b)"
  have n: "?n = sequence b" by (simp add: number_def sequence_def)
  note R = refresh_items_numbers[OF ri, of s]
  let ?sqes = "map cached_of (map (set_op op) items)"
  have sqes: "map fst ?sqes = map ci_sqe items" "length ?sqes = length (sa_items ?a)"
    using R by (simp_all add: cached_of_def set_op_def)
  have seg': "launch_segments E fuel fmt s op ?sqes 0 fls d1 = Some (HCCL_SUCCESS, d')" using seg i by (simp add: e1)
  note S = set_counters[OF ok b d1]
  have bound: "\<forall>f \<in> set fls. fst f < length ?sqes" using R flips_at_bound[of 0 ?n "length (sa_items ?a)"] sqes(2) by auto
  have "length ?sqes < d_depth d1 s" using len S(3) sqes(2) by simp
  note G = launch_segments_gives[OF S(1,2) this bound seg']
  have fls: "fls = flips_at 0 ?n (length ?sqes - 0)" using R sqes(2) by simp
  have "segment_sqes s op ?sqes 0 fls = replay_entries s (\<lambda>_ e. e) ?n (map fst ?sqes)"
    using segments_of_flips[of 0 0 ?sqes s op ?n] unfolding fls by simp
  also have "\<dots> = replay_entries s (\<lambda>t x. ci_sqe (snd (refresh_item en C t x))) ?n (sa_items ?a)"
    unfolding sqes(1) using R by simp
  finally have es: "segment_sqes s op ?sqes 0 fls = \<dots>" .
  note G' = G[unfolded es]
  have "abs_queues d' = replay_array en C streams i (abs_queues d)"
    unfolding gives_abs[OF G'] S(4) replay_array_def s[symmetric] Let_def
    using R b n by (auto simp: abs_queues_def)
  then show ?thesis using G' gives_idle[OF S(2) G'] S(3) e1 en1 by (auto simp: gives_def)
qed


text \<open>Replaying an array reads the array and the ranges as they were when the call began.\<close>

lemma replay_array_cong:
  assumes "en_userInputMemRanges en' = en_userInputMemRanges en" "en_userOutputMemRanges en' = en_userOutputMemRanges en"
    "en_streamSeqIdxes en' = en_streamSeqIdxes en" "en_arrays en' ! i = en_arrays en ! i"
  shows "replay_array en' C streams i = replay_array en C streams i"
  unfolding replay_array_def assms(3,4) refresh_item_ranges[OF assms(1,2)] ..

lemma launch_arrays_replay:
  "device_ok d \<Longrightarrow> idle d \<Longrightarrow> distinct is \<Longrightarrow> \<forall>i \<in> set is. \<forall>s. length (sa_items (en_arrays en ! i)) < d_depth d s \<Longrightarrow>
   launch_arrays E fuel fmt op C streams is (en, d) = Some (HCCL_SUCCESS, en', d') \<Longrightarrow>
   device_ok d' \<and> idle d' \<and> abs_queues d' = fold (replay_array en C streams) is (abs_queues d) \<and>
   (\<exists>as. en' = en\<lparr>en_arrays := as\<rparr> \<and> length as = length (en_arrays en))"
proof (induction "is" arbitrary: en d)
  case Nil
  then show ?case by (auto intro!: exI[of _ "en_arrays en"])
next
  case (Cons i "is")
  obtain r1 c1 where l: "launch_array E fuel fmt op C streams i (en, d) = Some (r1, c1)" and
    k: "if r1 = HCCL_SUCCESS then launch_arrays E fuel fmt op C streams is c1 = Some (HCCL_SUCCESS, en', d')
        else (HCCL_SUCCESS, (en', d')) = (r1, c1)"
    using Cons.prems(5) by (auto simp: chk_opt_def split: option.splits if_splits)
  obtain en1 d1 where c1: "c1 = (en1, d1)" by fastforce
  have r1: "r1 = HCCL_SUCCESS" and rest: "launch_arrays E fuel fmt op C streams is (en1, d1) = Some (HCCL_SUCCESS, en', d')"
    using k by (auto simp: c1 split: if_splits)
  have "\<forall>s. length (sa_items (en_arrays en ! i)) < d_depth d s" using Cons.prems(4) by simp
  from launch_array_replays[OF Cons.prems(1,2) this l[unfolded r1 c1]]
  obtain a where A: "device_ok d1" "idle d1" "d_depth d1 = d_depth d" "abs_queues d1 = replay_array en C streams i (abs_queues d)"
    "en1 = en\<lparr>en_arrays := (en_arrays en)[i := a]\<rparr>" by blast
  have same: "en_arrays en1 ! j = en_arrays en ! j" if "j \<in> set is" for j
    using that Cons.prems(3) by (cases "i = j") (auto simp: A(5))
  have "\<forall>j \<in> set is. \<forall>s. length (sa_items (en_arrays en1 ! j)) < d_depth d1 s" using Cons.prems(4) same A(3) by simp
  from Cons.IH[OF A(1,2) _ this rest] Cons.prems(3)
  have I: "device_ok d' \<and> idle d' \<and> abs_queues d' = fold (replay_array en1 C streams) is (abs_queues d1) \<and>
    (\<exists>as. en' = en1\<lparr>en_arrays := as\<rparr> \<and> length as = length (en_arrays en1))" by simp
  have "replay_array en1 C streams j = replay_array en C streams j" if "j \<in> set is" for j
    by (rule replay_array_cong) (use same[OF that] in \<open>simp_all add: A(5)\<close>)
  then have "fold (replay_array en1 C streams) is q = fold (replay_array en C streams) is q" for q by (rule List.fold_cong[OF refl refl])
  then show ?case using I A(4,5) by auto
qed

text \<open>An array without a stream ends the launch.\<close>

lemma launch_arrays_bound:
  "launch_arrays E fuel fmt op C streams is (en, d) = Some (HCCL_SUCCESS, c) \<Longrightarrow> i \<in> set is \<Longrightarrow> i < length (en_arrays en)"
proof (induction "is" arbitrary: en d)
  case (Cons j "is")
  obtain r s fls en1 d1 where u: "UpdateAndGetSqeArray j C streams op en d = (r, (s, fls), en1, d1)"
    by (metis prod_cases4 prod.collapse)
  obtain en2 d2 where l: "launch_array E fuel fmt op C streams j (en, d) = Some (HCCL_SUCCESS, en2, d2)"
    and rest: "launch_arrays E fuel fmt op C streams is (en2, d2) = Some (HCCL_SUCCESS, c)"
    using Cons.prems(1) by (auto simp: chk_opt_def split: option.splits if_splits)
  have r: "r = HCCL_SUCCESS" and en2: "en2 = en1" using l by (auto simp: launch_array_def u split: if_splits)
  note U = UpdateAndGetSqeArray_success[OF u[unfolded r]]
  have "length (en_arrays en2) = length (en_arrays en)" using U en2 by auto
  then show ?case using U Cons.IH[OF rest] Cons.prems(2) by auto
qed simp

text \<open>
  C35: Launching a cached operator refines a step on the abstract queues: when it succeeds, each
  array has given its stream, in order, its entries refreshed for the call with the next task
  numbers of the stream, and before the entry that gets the number zero after a wrap-around a
  flip placeholder with the number of wraps; the entry then carries the memory of the call. The
  local buffers are empty when the operator starts, and an array fits into the rings.
\<close>

theorem LaunchNewTask_refines:
  assumes "device_ok (dp_dev P)" "idle (dp_dev P)"
    and "\<forall>a \<in> set (en_arrays en). \<forall>s. length (sa_items a) < d_depth (dp_dev P) s"
    and "LaunchNewTask E fuel C mainStream slaveStreams (Some en) P = Some (HCCL_SUCCESS, en', P')"
  shows "abs_queues (dp_dev P') =
      fold (replay_array en C (mainStream # slaveStreams)) [0..<length (en_arrays en)] (abs_queues (dp_dev P)) \<and>
    device_ok (dp_dev P') \<and> idle (dp_dev P') \<and>
    (\<exists>as. length as = length (en_arrays en) \<and>
      en' = Some (en\<lparr>en_arrays := as, en_userInputMemRanges := cc_inputs C, en_userOutputMemRanges := cc_outputs C\<rparr>))"
proof -
  let ?streams = "mainStream # slaveStreams" and ?n = "length (en_arrays en)"
  let ?m = "?n + en_unbound en"
  let ?run = "launch_arrays E fuel (\<not> is310P (ai_devType (dp_info P))) (dp_opRingBufferIdx P) C ?streams [0..<?m] (en, dp_dev P)"
  note L = assms(4)[unfolded LaunchNewTask_def call_checks_def[symmetric] option.case GetSqeArrayCount_def Let_def]
  obtain c where c: "call_checks C = Inr c" using L call_checks_error by (cases "call_checks C") auto
  have n: "?m \<noteq> 0" using L c by (auto simp: require_def split: if_splits)
  obtain r1 en1 d1 where run: "?run = Some (r1, en1, d1)" using L c n by (auto simp: require_def chk_opt_def split: option.splits)
  have r1: "r1 = HCCL_SUCCESS" and rest: "SetInputOutputMemRanges (cc_inputs C) (cc_outputs C) en1 = (HCCL_SUCCESS, the en')"
    and en': "en' \<noteq> None" and P': "dp_dev P' = d1"
    using L c n run by (auto simp: require_def chk_opt_def split: if_splits prod.splits)
  have "?m - 1 < ?n" by (rule launch_arrays_bound[OF run[unfolded r1]]) (use n in simp)
  then have m: "?m = ?n" using n by simp
  have "\<forall>i \<in> set [0..<?n]. \<forall>s. length (sa_items (en_arrays en ! i)) < d_depth (dp_dev P) s" using assms(3) by simp
  from launch_arrays_replay[OF assms(1,2) distinct_upt this run[unfolded r1 m]]
  show ?thesis using rest en' P' by (auto simp: SetInputOutputMemRanges_def split: if_splits)
qed


text \<open>
  Two records of notification 7 on the stream of \<open>device1\<close>, whose task number has just wrapped:
  the placeholder and the first record both carry the number zero.
\<close>

definition record_item :: cached_item where
  "record_item = \<lparr>ci_sqe = snd (AddOneRecordSqeV1 0 5 7), ci_type = NOTIFY_SQE,
     ci_dfx = \<lparr>df_remoteRank = 1, df_opRingBufferIdx = 0, df_notifyId = 7\<rparr>,
     ci_src = new_RefreshAddrInfo, ci_dst = new_RefreshAddrInfo\<rparr>"

definition entry1 :: OpUnfoldCacheEntry where
  "entry1 = \<lparr>en_arrays = [\<lparr>sa_streamId = 0, sa_items = [record_item, record_item]\<rparr>], en_unbound = 0, en_streamSeqIdxes = [0],
     en_userInputMemRanges = [], en_userOutputMemRanges = []\<rparr>"

definition call1 :: current_call where
  "call1 = \<lparr>cc_inputs = [], cc_outputs = [], cc_isAlltoallv = False, cc_meta = metadata_Clear,
     cc_info = \<lparr>as_sendType = 0, as_recvType = 0, as_sendCounts = [], as_recvCounts = [], as_sendOffsets = [], as_recvOffsets = []\<rparr>,
     cc_types = \<lparr>ut_size = \<lambda>_. 1, ut_reserved = 17\<rparr>\<rparr>"

definition dispatcher1 :: DispatcherAiCpu where
  "dispatcher1 = \<lparr>dp_dev = device1, dp_info = \<lparr>ai_devId = 0, ai_ssid = 0, ai_devType = DEV_TYPE_910_93, ai_overflowAddr = 0, ai_chipId = 0\<rparr>,
     dp_opRingBufferIdx = 3, dp_notifyMaxWaitTime = NOTIFY_MAX_WAIT_TIME_910_93, dp_notifySize = 4, dp_hcclQos = 6, dp_isPlaceholder = False,
     dp_key = \<lparr>ok_opType = 2, ok_dataType = 4, ok_reduceType = 0, ok_isZeroCopy = False, ok_inputSize = 0, ok_isInplacePreSync = False,
       ok_workflowMode = 1, ok_isCapture = False\<rparr>,
     dp_cachePtr = True, dp_userInputMemRanges = [], dp_userOutputMemRanges = [], dp_isAlltoallv = False, dp_alltoallvMetadata = None\<rparr>"

lemma wait_space_room: "d_ctx d s = Some b \<Longrightarrow> \<not> rtsq_full (d_depth d s) b cnt \<Longrightarrow> wait_space E fuel cnt t0 s d = Some (HCCL_SUCCESS, d)"
  by (subst wait_space.simps) simp

lemma dispatcher1_run: "\<exists>e P'. LaunchNewTask quiet_env 1 call1 0 [] (Some entry1) dispatcher1 = Some (HCCL_SUCCESS, e, P')"
  by (simp add: LaunchNewTask_def call1_def entry1_def GetSqeArrayCount_def require_def dispatcher1_def is310P_def launch_array_def
      UpdateAndGetSqeArray_def device1_def wrapped_buffer_def record_item_def refresh_item_def AddOneRecordSqeV1_def need_def as_notify_def
      Let_def renumber_def set_taskId_def next_numbers_def chk_opt_def WaitRtsq_def wait_space_room set_ctx_def rtsq_full_def
      flip_placeholder_def MemcpyRtsq_def write_ring_def move_tail_def set_hw_def quiet_env_def AddOneFlipPlaceHolderSqeV1_def
      SetInputOutputMemRanges_def)

lemma LaunchNewTask_refines_witness:
  "\<exists>e P'. LaunchNewTask quiet_env 1 call1 0 [] (Some entry1) dispatcher1 = Some (HCCL_SUCCESS, e, P') \<and>
     issued (dp_dev P') 0 = [snd (AddOneFlipPlaceHolderSqeV1 0 1 0), snd (AddOneRecordSqeV1 0 0 7), snd (AddOneRecordSqeV1 0 1 7)]"
proof -
  obtain e P' where run: "LaunchNewTask quiet_env 1 call1 0 [] (Some entry1) dispatcher1 = Some (HCCL_SUCCESS, e, P')"
    using dispatcher1_run by blast
  have d: "dp_dev dispatcher1 = device1" by (simp add: dispatcher1_def)
  have ok: "device_ok (dp_dev dispatcher1)" using device1_roomy by (simp add: d roomy_def)
  have i: "idle (dp_dev dispatcher1)" by (simp add: d idle_def device1_def wrapped_buffer_def)
  have "\<forall>a \<in> set (en_arrays entry1). \<forall>s. length (sa_items a) < d_depth (dp_dev dispatcher1) s"
    by (simp add: entry1_def d device1_def)
  from conjunct1[OF LaunchNewTask_refines[OF ok i this run]]
  have "abs_queues (dp_dev P') 0 = replay_array entry1 call1 [0] 0 (abs_queues device1) 0" by (simp add: d entry1_def)
  also have "\<dots> = ([snd (AddOneFlipPlaceHolderSqeV1 0 1 0), snd (AddOneRecordSqeV1 0 0 7), snd (AddOneRecordSqeV1 0 1 7)], Some 65538)"
    by (simp add: replay_array_def entry1_def device1_queues record_item_def flips_here_def refresh_item_def call1_def sid_def
        AddOneRecordSqeV1_def need_def as_notify_def renumber_def set_taskId_def set_header_task_def header_def Let_def)
  finally show ?thesis using run by (simp add: abs_queues_def)
qed

end
