(* ===== verification/UnfoldProof.thy ===== *)
theory UnfoldProof
  imports UnfoldCache
begin

text \<open>
  The cache of unfolded operators keeps what was launched: an entry holds exactly the entries of
  a launch without the flip placeholders, each with the note of the memories it points into, an
  address moves to the memory of the call with its offset, and the AlltoAllV forms of an entry
  turn into their placeholders and back.
\<close>

section \<open>Caching a launch\<close>

lemma filter_upt_split: "b \<le> p \<Longrightarrow> p \<le> cnt \<Longrightarrow> filter P [b..<cnt] = filter P [b..<p] @ filter P [p..<cnt]" for p :: nat
  by (metis filter_append le_iff_add upt_add_eq_append)

lemma copy_into_map: "map (copy_into c src b n f) [0..<c + n] = map f [0..<c] @ map src [b..<b + n]"
  by (rule nth_equalityI) (auto simp: copy_into_def nth_append)

text \<open>The places a list of placeholders leaves from \<open>b\<close> on, and a shape of such a list.\<close>

definition kept :: "nat list \<Rightarrow> nat \<Rightarrow> nat \<Rightarrow> nat list" where
  "kept ps b cnt = filter (\<lambda>j. j \<notin> set ps) [b..<cnt]"

definition places :: "nat list \<Rightarrow> nat \<Rightarrow> nat \<Rightarrow> bool" where
  "places ps b cnt \<longleftrightarrow> sorted_wrt (<) ps \<and> (\<forall>p \<in> set ps. b \<le> p \<and> p < cnt)"

lemma places_Cons: "places (p # ps) b cnt \<Longrightarrow> places ps (p + 1) cnt \<and> b \<le> p \<and> p < cnt \<and>
  kept (p # ps) b cnt = [b..<p] @ kept ps (p + 1) cnt"
proof -
  assume a: "places (p # ps) b cnt"
  have p: "b \<le> p" "p < cnt" "\<forall>q \<in> set ps. p < q" using a by (auto simp: places_def)
  have low: "filter (\<lambda>j. j \<notin> set (p # ps)) [b..<p] = [b..<p]" using p by (auto simp: filter_id_conv)
  have "filter (\<lambda>j. j \<notin> set (p # ps)) [p..<cnt] = filter (\<lambda>j. j \<notin> set (p # ps)) [p + 1..<cnt]"
    using p by (simp add: upt_conv_Cons)
  also have "\<dots> = filter (\<lambda>j. j \<notin> set ps) [p + 1..<cnt]" by (rule filter_cong) auto
  finally have "kept (p # ps) b cnt = [b..<p] @ kept ps (p + 1) cnt"
    using filter_upt_split[of b p cnt "\<lambda>j. j \<notin> set (p # ps)"] p low by (simp add: kept_def)
  then show ?thesis using a p by (auto simp: places_def)
qed

lemma kept_Nil [simp]: "kept [] b cnt = [b..<cnt]"
  by (simp add: kept_def)

text \<open>Copying the segments leaves the places without the placeholders, in order.\<close>

lemma segments_map:
  "places ps b cnt \<Longrightarrow> map (fold (\<lambda>(c, b, n). copy_into c src b n) (copy_segments ps c b cnt) f) [0..<c + length (kept ps b cnt)] =
    map f [0..<c] @ map src (kept ps b cnt)"
proof (induction ps arbitrary: c b f)
  case Nil
  show ?case using copy_into_map[of c src b "cnt - b" f] by (cases "b < cnt") simp_all
next
  case (Cons p ps)
  note P = places_Cons[OF Cons.prems]
  show ?case
  proof (cases "p \<le> b")
    case True
    then have "p = b" using P by simp
    then show ?thesis using Cons.IH[of "p + 1" c f] P by simp
  next
    case False
    then show ?thesis
      using Cons.IH[of "p + 1" "c + (p - b)" "copy_into c src b (p - b) f"] copy_into_map[of c src b "p - b" f] P
      by (simp add: add.assoc)
  qed
qed

lemma placeholder_places: "places (placeholder_idxes src cnt) 0 cnt"
proof -
  have "sorted_wrt (<) [0..<cnt]" by simp
  then have "sorted_wrt (<) (placeholder_idxes src cnt)" unfolding placeholder_idxes_def by (rule sorted_wrt_filter)
  then show ?thesis by (auto simp: places_def placeholder_idxes_def)
qed

lemma kept_placeholders:
  "map src (kept (placeholder_idxes src cnt) 0 cnt) = filter (\<lambda>x. fst (snd x) \<noteq> FLIP_PLACEHOLDER_SQE) (map src [0..<cnt])"
proof -
  have "kept (placeholder_idxes src cnt) 0 cnt = filter (\<lambda>j. fst (snd (src j)) \<noteq> FLIP_PLACEHOLDER_SQE) [0..<cnt]"
    unfolding kept_def by (rule filter_cong) (auto simp: placeholder_idxes_def)
  then show ?thesis by (simp add: filter_map comp_def)
qed

lemma kept_length: "length (kept (placeholder_idxes src cnt) 0 cnt) = cnt - length (placeholder_idxes src cnt)"
proof -
  let ?P = "\<lambda>j. fst (snd (src j)) = FLIP_PLACEHOLDER_SQE"
  have "length (filter ?P [0..<cnt]) + length (filter (\<lambda>j. \<not> ?P j) [0..<cnt]) = cnt"
    using sum_length_filter_compl[of ?P "[0..<cnt]"] by simp
  moreover have "kept (placeholder_idxes src cnt) 0 cnt = filter (\<lambda>j. \<not> ?P j) [0..<cnt]"
    unfolding kept_def by (rule filter_cong) (auto simp: placeholder_idxes_def)
  ultimately show ?thesis by (simp add: placeholder_idxes_def)
qed

lemma cached_array_filter: "cached_array src cnt = filter (\<lambda>x. fst (snd x) \<noteq> FLIP_PLACEHOLDER_SQE) (map src [0..<cnt])"
  using segments_map[OF placeholder_places[of src cnt], where c = 0 and f = "\<lambda>_. src 0" and src = src] kept_length[of src cnt]
  unfolding kept_placeholders[symmetric] by (simp add: cached_array_def placeholder_idxes_def Let_def)


text \<open>Noting the memories reads only the ranges of the entry and keeps the SQE.\<close>

lemma note_item_arrays [simp]: "note_item (en\<lparr>en_arrays := as\<rparr>) = note_item en"
proof -
  have c: "CheckAndPrepareRefreshAddrInfo (en\<lparr>en_arrays := as\<rparr>) = CheckAndPrepareRefreshAddrInfo en"
    unfolding CheckAndPrepareRefreshAddrInfo_def by simp
  show ?thesis unfolding note_item_def note_src_def note_dst_def c ..
qed

lemma note_item_keeps: "note_item en v A x = (r, x') \<Longrightarrow> cached_of x' = cached_of x"
  by (auto simp: note_item_def note_src_def note_dst_def cached_of_def split: if_splits sum.splits option.splits)

lemma each_item_all: "each_item f xs = (HCCL_SUCCESS, ys) \<Longrightarrow> list_all2 (\<lambda>x y. f x = (HCCL_SUCCESS, y)) xs ys"
proof (induction xs arbitrary: ys)
  case (Cons x xs)
  obtain r x' where f: "f x = (r, x')" by fastforce
  obtain r' xs' where e: "each_item f xs = (r', xs')" by fastforce
  show ?case using Cons.IH[of xs'] Cons.prems by (auto simp: f e split: if_splits)
qed simp

lemma MemcpySqeArray_success:
  assumes "MemcpySqeArray idx c sqes v A en = (HCCL_SUCCESS, en')"
  shows "\<exists>noted. idx < length (en_arrays en) \<and> c + length sqes \<le> length (sa_items (en_arrays en ! idx)) \<and>
    list_all2 (\<lambda>x y. note_item en v A x = (HCCL_SUCCESS, y))
      (map2 copy_item sqes (take (length sqes) (drop c (sa_items (en_arrays en ! idx))))) noted \<and>
    en' = en\<lparr>en_arrays := (en_arrays en)[idx := (en_arrays en ! idx)\<lparr>sa_items :=
      take c (sa_items (en_arrays en ! idx)) @ noted @ drop (c + length sqes) (sa_items (en_arrays en ! idx))\<rparr>]\<rparr>"
proof -
  let ?items = "sa_items (en_arrays en ! idx)"
  obtain r noted where e: "each_item (note_item en v A) (map2 copy_item sqes (take (length sqes) (drop c ?items))) = (r, noted)" by fastforce
  note M = assms[unfolded MemcpySqeArray_def Let_def e]
  have ok: "\<not> length (en_arrays en) \<le> idx" "\<not> (c + length sqes = 0 \<or> length ?items \<le> c + length sqes - 1)" "\<not> (v \<and> A = None)"
    using M by (auto split: if_splits)
  have "r = HCCL_SUCCESS \<and> en' = en\<lparr>en_arrays := (en_arrays en)[idx := (en_arrays en ! idx)\<lparr>sa_items :=
      take c ?items @ noted @ drop (c + length sqes) ?items\<rparr>]\<rparr>"
    using M ok by (auto simp: metadata_Check_def require_def Let_def split: if_splits sum.splits)
  then show ?thesis using each_item_all[of "note_item en v A" _ noted] e ok by auto
qed

definition noted_as :: "OpUnfoldCacheEntry \<Rightarrow> bool \<Rightarrow> AlltoallvMetadata option \<Rightarrow> cached_sqe \<Rightarrow> cached_item \<Rightarrow> bool" where
  "noted_as en v A sq x \<longleftrightarrow> note_item en v A (copy_item sq fresh_item) = (HCCL_SUCCESS, x)"

lemma noted_as_arrays [simp]: "noted_as (en\<lparr>en_arrays := as\<rparr>) = noted_as en"
  by (intro ext) (simp add: noted_as_def)

lemma noted_as_cached: "noted_as en v A sq x \<Longrightarrow> cached_of x = sq"
  unfolding noted_as_def by (drule note_item_keeps) (simp add: cached_of_def copy_item_def)

lemma map2_replicate: "length xs \<le> n \<Longrightarrow> map2 f xs (take (length xs) (replicate n a)) = map (\<lambda>x. f x a) xs"
  by (rule nth_equalityI) simp_all

lemma MemcpySqeArray_fresh:
  assumes idx: "idx < length (en_arrays en)" and a: "en_arrays en ! idx = \<lparr>sa_streamId = t, sa_items = done @ replicate (length sqes + k) fresh_item\<rparr>"
    and c: "length done = c" and m: "MemcpySqeArray idx c sqes v A en = (HCCL_SUCCESS, en')"
  shows "\<exists>noted. list_all2 (noted_as en v A) sqes noted \<and>
    en' = en\<lparr>en_arrays := (en_arrays en)[idx := \<lparr>sa_streamId = t, sa_items = (done @ noted) @ replicate k fresh_item\<rparr>]\<rparr>"
proof -
  have t: "take (length sqes) (drop c (sa_items (en_arrays en ! idx))) = take (length sqes) (replicate (length sqes + k) fresh_item)"
    "take c (sa_items (en_arrays en ! idx)) = done" "drop (c + length sqes) (sa_items (en_arrays en ! idx)) = replicate k fresh_item"
    using c by (simp_all add: a)
  obtain noted where "list_all2 (\<lambda>x y. note_item en v A x = (HCCL_SUCCESS, y)) (map (\<lambda>x. copy_item x fresh_item) sqes) noted"
    "en' = en\<lparr>en_arrays := (en_arrays en)[idx := (en_arrays en ! idx)\<lparr>sa_items := done @ noted @ replicate k fresh_item\<rparr>]\<rparr>"
    using MemcpySqeArray_success[OF m] unfolding t map2_replicate[OF le_add1] by blast
  then show ?thesis by (intro exI[of _ noted]) (simp add: list_all2_map1 noted_as_def[abs_def] a)
qed

text \<open>The segments fill a fresh array from the front.\<close>

lemma memcpy_segments_fill:
  "places ps b cnt \<Longrightarrow> memcpy_segments idx src v A (copy_segments ps c b cnt) en = (HCCL_SUCCESS, en') \<Longrightarrow>
   idx < length (en_arrays en) \<Longrightarrow> en_arrays en ! idx = \<lparr>sa_streamId = t, sa_items = done @ replicate (length (kept ps b cnt)) fresh_item\<rparr> \<Longrightarrow>
   length done = c \<Longrightarrow>
   \<exists>xs. list_all2 (noted_as en v A) (map src (kept ps b cnt)) xs \<and>
     en' = en\<lparr>en_arrays := (en_arrays en)[idx := \<lparr>sa_streamId = t, sa_items = done @ xs\<rparr>]\<rparr>"
proof (induction ps arbitrary: c b en "done")
  case Nil
  show ?case
  proof (cases "b < cnt")
    case False
    have "(en_arrays en)[idx := \<lparr>sa_streamId = t, sa_items = done\<rparr>] = en_arrays en"
      using list_update_id[of "en_arrays en" idx] Nil.prems(4) False by simp
    then show ?thesis using Nil.prems False by (intro exI[of _ "[]"]) simp
  next
    case True
    then have M: "MemcpySqeArray idx c (map src [b..<cnt]) v A en = (HCCL_SUCCESS, en')"
      using Nil.prems(2) by (cases "MemcpySqeArray idx c (map src [b..<cnt]) v A en") (auto split: if_splits)
    show ?thesis using MemcpySqeArray_fresh[OF Nil.prems(3) _ Nil.prems(5) M, of t 0] Nil.prems(4) by auto
  qed
next
  case (Cons p ps)
  note P = places_Cons[OF Cons.prems(1)]
  show ?case
  proof (cases "p \<le> b")
    case True
    then have "p = b" using P by simp
    then show ?thesis using Cons.IH[of "p + 1" c en "done"] Cons.prems P by simp
  next
    case False
    let ?k = "length (kept ps (p + 1) cnt)"
    obtain r1 en1 where M: "MemcpySqeArray idx c (map src [b..<p]) v A en = (r1, en1)" by fastforce
    have r1: "r1 = HCCL_SUCCESS" and rest: "memcpy_segments idx src v A (copy_segments ps (c + (p - b)) (p + 1) cnt) en1 = (HCCL_SUCCESS, en')"
      using Cons.prems(2) False M by (auto split: if_splits)
    have items: "en_arrays en ! idx = \<lparr>sa_streamId = t, sa_items = done @ replicate (length (map src [b..<p]) + ?k) fresh_item\<rparr>"
      using Cons.prems(4) P by simp
    obtain noted where N: "list_all2 (noted_as en v A) (map src [b..<p]) noted"
      and en1: "en1 = en\<lparr>en_arrays := (en_arrays en)[idx := \<lparr>sa_streamId = t, sa_items = (done @ noted) @ replicate ?k fresh_item\<rparr>]\<rparr>"
      using MemcpySqeArray_fresh[OF Cons.prems(3) items Cons.prems(5) M[unfolded r1]] by blast
    have len: "length (done @ noted) = c + (p - b)" using list_all2_lengthD[OF N] Cons.prems(5) by simp
    have at: "en_arrays en1 ! idx = \<lparr>sa_streamId = t, sa_items = (done @ noted) @ replicate ?k fresh_item\<rparr>" "idx < length (en_arrays en1)"
      using Cons.prems(3) by (simp_all add: en1)
    obtain xs where X: "list_all2 (noted_as en1 v A) (map src (kept ps (p + 1) cnt)) xs"
      "en' = en1\<lparr>en_arrays := (en_arrays en1)[idx := \<lparr>sa_streamId = t, sa_items = (done @ noted) @ xs\<rparr>]\<rparr>"
      using Cons.IH[OF _ rest at(2,1) len] P by blast
    have "noted_as en1 v A = noted_as en v A" by (simp add: en1)
    then have "list_all2 (noted_as en v A) (map src (kept (p # ps) b cnt)) (noted @ xs)"
      using N X(1) P by (simp add: list_all2_appendI)
    then show ?thesis using X(2) by (intro exI[of _ "noted @ xs"]) (simp add: en1)
  qed
qed

text \<open>Past the arrays nothing can be copied.\<close>

lemma memcpy_segments_past:
  "memcpy_segments idx src v A segs en = (HCCL_SUCCESS, en') \<Longrightarrow> length (en_arrays en) \<le> idx \<Longrightarrow> segs = [] \<and> en' = en"
  by (cases segs) (auto simp: MemcpySqeArray_def)

lemma copy_segments_none: "places ps b cnt \<Longrightarrow> copy_segments ps c b cnt = [] \<Longrightarrow> kept ps b cnt = []"
proof (induction ps arbitrary: c b)
  case (Cons p ps)
  then show ?case using places_Cons[OF Cons.prems(1)] by (auto split: if_splits)
qed (auto split: if_splits)

text \<open>
  C36: A launch is cached as it was issued: the array it adds to the entry of its operator holds
  its entries in order without the flip placeholders, each with the note of the memories its
  addresses lie in; this is the array the ring's model keeps, and nothing else changes.
\<close>

theorem launch_cached:
  assumes "AddSqesToEntry streamId src cnt isAlltoallv A en = (HCCL_SUCCESS, en')"
  shows "\<exists>items. en' = en\<lparr>en_arrays := en_arrays en @ [\<lparr>sa_streamId = streamId, sa_items = items\<rparr>]\<rparr> \<and>
    map cached_of items = filter (\<lambda>x. fst (snd x) \<noteq> FLIP_PLACEHOLDER_SQE) (map src [0..<cnt]) \<and>
    map cached_of items = cached_array src cnt \<and>
    list_all2 (\<lambda>sq x. note_item en isAlltoallv A (copy_item sq fresh_item) = (HCCL_SUCCESS, x)) (map cached_of items) items"
proof -
  let ?ps = "placeholder_idxes src cnt" and ?idx = "length (en_arrays en) + en_unbound en"
  let ?en = "en\<lparr>en_arrays := en_arrays en @ [\<lparr>sa_streamId = streamId, sa_items = replicate (cnt - length ?ps) fresh_item\<rparr>]\<rparr>"
  have run: "memcpy_segments ?idx src isAlltoallv A (copy_segments ?ps 0 0 cnt) ?en = (HCCL_SUCCESS, en')"
    using assms by (auto simp: AddSqesToEntry_def AllocSqeArray_def require_def Let_def split: if_splits)
  have "\<exists>xs. list_all2 (noted_as ?en isAlltoallv A) (map src (kept ?ps 0 cnt)) xs \<and>
      en' = ?en\<lparr>en_arrays := (en_arrays ?en)[length (en_arrays en) := \<lparr>sa_streamId = streamId, sa_items = [] @ xs\<rparr>]\<rparr>"
  proof (cases "en_unbound en = 0")
    case True
    then show ?thesis using memcpy_segments_fill[OF placeholder_places run, of streamId "[]"] by (simp add: kept_length)
  next
    case False
    then have "copy_segments ?ps 0 0 cnt = [] \<and> en' = ?en" by (intro memcpy_segments_past[OF run]) simp
    then have "kept ?ps 0 cnt = []" "en' = ?en" using copy_segments_none[OF placeholder_places] by blast+
    then show ?thesis using kept_length[of src cnt] by (intro exI[of _ "[]"]) simp
  qed
  then obtain xs where xs: "list_all2 (noted_as en isAlltoallv A) (map src (kept ?ps 0 cnt)) xs"
    "en' = en\<lparr>en_arrays := en_arrays en @ [\<lparr>sa_streamId = streamId, sa_items = xs\<rparr>]\<rparr>" by auto
  have "list_all2 (\<lambda>sq x. cached_of x = sq) (map src (kept ?ps 0 cnt)) xs" by (rule list_all2_mono[OF xs(1) noted_as_cached])
  then have m: "map cached_of xs = map src (kept ?ps 0 cnt)" by (auto simp: list_all2_conv_all_nth intro!: nth_equalityI)
  have "list_all2 (\<lambda>sq x. note_item en isAlltoallv A (copy_item sq fresh_item) = (HCCL_SUCCESS, x)) (map cached_of xs) xs"
    using xs(1) unfolding m noted_as_def .
  then show ?thesis using xs(2) m by (auto simp: kept_placeholders cached_array_filter)
qed


text \<open>A launch of three entries with a flip placeholder in the middle.\<close>

definition launch3 :: "nat \<Rightarrow> cached_sqe" where
  "launch3 i = (let dfx = \<lparr>df_remoteRank = 1, df_opRingBufferIdx = 0, df_notifyId = 7\<rparr> in
     if i = 1 then (snd (AddOneFlipPlaceHolderSqeV1 0 1 0), FLIP_PLACEHOLDER_SQE, dfx)
     else (snd (AddOneRecordSqeV1 0 (of_nat i) 7), NOTIFY_SQE, dfx))"

lemma launch_cached_witness:
  "\<exists>items. AddSqesToEntry 0 launch3 3 False None (new_OpUnfoldCacheEntry [] []) =
     (HCCL_SUCCESS, (new_OpUnfoldCacheEntry [] [])\<lparr>en_arrays := [\<lparr>sa_streamId = 0, sa_items = items\<rparr>]\<rparr>) \<and>
     map cached_of items = [launch3 0, launch3 2]"
proof -
  have "\<exists>en'. AddSqesToEntry 0 launch3 3 False None (new_OpUnfoldCacheEntry [] []) = (HCCL_SUCCESS, en')"
    by (simp add: AddSqesToEntry_def placeholder_idxes_def launch3_def AllocSqeArray_def require_def new_OpUnfoldCacheEntry_def
        MemcpySqeArray_def note_item_def copy_item_def Let_def upt_rec numeral_3_eq_3)
  then obtain en' where run: "AddSqesToEntry 0 launch3 3 False None (new_OpUnfoldCacheEntry [] []) = (HCCL_SUCCESS, en')" by blast
  have "filter (\<lambda>x. fst (snd x) \<noteq> FLIP_PLACEHOLDER_SQE) (map launch3 [0..<3]) = [launch3 0, launch3 2]"
    by (simp add: upt_rec launch3_def numeral_3_eq_3 Let_def)
  then show ?thesis using launch_cached[OF run] run by (auto simp: new_OpUnfoldCacheEntry_def)
qed

section \<open>Moving an address\<close>

lemma GetEndAddr_Inr: "GetEndAddr m = Inr e \<longleftrightarrow> unat (mr_baseAddr m) + unat (mr_memSize m) < 2 ^ 64 \<and> unat e = unat (mr_baseAddr m) + unat (mr_memSize m)"
proof -
  have nw: "\<not> mr_baseAddr m + mr_memSize m < mr_baseAddr m \<longleftrightarrow> unat (mr_baseAddr m) + unat (mr_memSize m) < 2 ^ 64"
    using no_olen_add_nat[of "mr_baseAddr m" "mr_memSize m"] by (simp add: not_less)
  have "unat (mr_baseAddr m + mr_memSize m) = unat (mr_baseAddr m) + unat (mr_memSize m)"
    if "unat (mr_baseAddr m) + unat (mr_memSize m) < 2 ^ 64" using that by (simp add: unat_word_ariths)
  then show ?thesis unfolding GetEndAddr_def require_Inr nw by (auto simp: word_unat_eq_iff)
qed

lemma InRange_True: "InRange m a = Inr True \<longleftrightarrow> mr_isValid m \<and> unat (mr_baseAddr m) + unat (mr_memSize m) < 2 ^ 64 \<and>
  unat (mr_baseAddr m) \<le> unat a \<and> unat a < unat (mr_baseAddr m) + unat (mr_memSize m)" (is "_ \<longleftrightarrow> ?R")
proof
  assume "InRange m a = Inr True"
  then show ?R unfolding InRange_def attempt_Inr GetEndAddr_Inr by (auto simp: word_le_nat_alt word_less_nat_alt)
next
  assume R: ?R
  then have e: "unat (mr_baseAddr m + mr_memSize m) = unat (mr_baseAddr m) + unat (mr_memSize m)" by (simp add: unat_word_ariths)
  then have "GetEndAddr m = Inr (mr_baseAddr m + mr_memSize m)" using R by (simp add: GetEndAddr_Inr)
  then show "InRange m a = Inr True" using R e by (simp add: InRange_def word_le_nat_alt word_less_nat_alt)
qed

lemma sub_unat: "unat a \<le> unat (x :: u64) \<Longrightarrow> unat (x - a) = unat x - unat a"
  by (simp add: unat_sub word_le_nat_alt)

lemma moved_in_range:
  "InRange m (mr_baseAddr m + k) = Inr True \<longleftrightarrow>
   mr_isValid m \<and> unat (mr_baseAddr m) + unat (mr_memSize m) < 2 ^ 64 \<and> unat k < unat (mr_memSize m)"
proof (cases "unat (mr_baseAddr m) + unat k < 2 ^ 64")
  case True
  then have "unat (mr_baseAddr m + k) = unat (mr_baseAddr m) + unat k" by (simp add: unat_word_ariths)
  then show ?thesis by (auto simp: InRange_True)
next
  case False
  have lt: "unat (mr_baseAddr m) < 2 ^ 64" "unat k < 2 ^ 64"
    using unsigned_less[of "mr_baseAddr m", where ?'a = nat] unsigned_less[of k, where ?'a = nat] by simp_all
  have "unat (mr_baseAddr m + k) = unat (mr_baseAddr m) + unat k - 2 ^ 64"
    using False lt by (simp add: unat_word_ariths mod_if)
  then have "unat (mr_baseAddr m + k) < unat (mr_baseAddr m)" using lt(2) False by linarith
  then show ?thesis using False by (auto simp: InRange_True)
qed

text \<open>
  C37: Moving an address to the memory of a later call, when that call has a memory range for each
  rank the entry was cached with, as it must (the code reads the range of the rank
  unchecked). The address is moved exactly when its rank is one of the cached ones, it lies in the
  rank's cached range, and its offset, its own or for AlltoAllV the one given, lies in the rank's
  range of the call, both ranges being valid and not wrapping around; it is then at that offset of
  the new range. In every other case the refresh ends with an internal error.
\<close>

theorem RefreshSqeAddr_moves:
  assumes "length cached \<le> length current"
  shows "RefreshSqeAddr addr rankId cached current isAlltoallv offset =
    (let old = cached ! rankId; new = current ! rankId;
         k = (if isAlltoallv then offset else addr - mr_baseAddr old) in
     if rankId \<noteq> unat INVALID_VALUE_RANKID \<and> rankId < length cached \<and> rankId < length current \<and>
        mr_isValid old \<and> unat (mr_baseAddr old) + unat (mr_memSize old) < 2 ^ 64 \<and>
        unat (mr_baseAddr old) \<le> unat addr \<and> unat addr < unat (mr_baseAddr old) + unat (mr_memSize old) \<and>
        mr_isValid new \<and> unat (mr_baseAddr new) + unat (mr_memSize new) < 2 ^ 64 \<and> unat k < unat (mr_memSize new)
     then Inr (mr_baseAddr new + k) else Inl HCCL_E_INTERNAL)"
proof -
  have fail: "attempt (InRange m a) (\<lambda>inside. require inside x) = (if InRange m a = Inr True then x else Inl HCCL_E_INTERNAL)"
    for m a and x :: "HcclResult + u64"
    by (auto simp: InRange_def GetEndAddr_def require_def)
  have rank: "rankId < length cached \<Longrightarrow> rankId < length current" using assms by simp
  show ?thesis
    unfolding RefreshSqeAddr_def Let_def fail moved_in_range unfolding InRange_True require_def using rank by auto
qed

text \<open>An address 8 bytes into the memory of the first of two ranks, moved; and one past it.\<close>

lemma RefreshSqeAddr_moves_witness:
  "let old = [\<lparr>mr_isValid = True, mr_baseAddr = 0x1000, mr_memSize = 64\<rparr>, \<lparr>mr_isValid = True, mr_baseAddr = 0x2000, mr_memSize = 64\<rparr>];
       new = [\<lparr>mr_isValid = True, mr_baseAddr = 0x5000, mr_memSize = 32\<rparr>, \<lparr>mr_isValid = True, mr_baseAddr = 0x6000, mr_memSize = 32\<rparr>] in
   RefreshSqeAddr 0x1008 0 old new False 0 = Inr 0x5008 \<and> RefreshSqeAddr 0x1020 0 old new False 0 = Inl HCCL_E_INTERNAL"
  unfolding Let_def by (subst (1 2) RefreshSqeAddr_moves) (simp_all add: INVALID_VALUE_RANKID_def Let_def)

section \<open>Notifications of AlltoAllV\<close>

text \<open>
  The three notifications a dispatcher issues between the ranks, and the entry each takes for a
  count: a placeholder when there is nothing to send.
\<close>

datatype sync_call =
    Wait u64 DfxTimeOutConfig
  | WriteRecord u64
  | CopyRecord u64 u32 u64 u8

fun issued_form :: "u64 \<Rightarrow> sync_call \<Rightarrow> u16 \<Rightarrow> u16 \<Rightarrow> SqeType \<times> sqe" where
  "issued_form count (Wait notifyId cfg) s t =
     (if count = 0 then AddOneCacheNotifyWaitPlaceholderSqeV1 s t notifyId cfg else AddOneNotifyWaitSqeV1 s t notifyId cfg)"
| "issued_form count (WriteRecord addr) s t =
     (if count = 0 then AddOneCacheWriteValuePlaceholderSqeV1 s t addr else AddOneWriteValueRecordSqeV1 s t addr)"
| "issued_form count (CopyRecord src len dst linkType) s t =
     (if count = 0
      then AddOneCacheMemcpyRecordPlaceholderSqeV1 s t src len ACL_FLOAT ACL_RT_MEMCPY_INVALID dst 0 linkType SDMA_QOS_DEFAULT ZeroSqe
      else AddOneMemcpySqeV1 s t src len ACL_FLOAT ACL_RT_MEMCPY_INVALID dst 0 linkType SDMA_QOS_DEFAULT ZeroSqe)"

fun valid_sync :: "sync_call \<Rightarrow> bool" where
  "valid_sync (Wait notifyId cfg) \<longleftrightarrow> notifyId < 2 ^ 13"
| "valid_sync (WriteRecord addr) \<longleftrightarrow> True"
| "valid_sync (CopyRecord src len dst linkType) \<longleftrightarrow> len \<noteq> 0"

definition with_form :: "SqeType \<times> sqe \<Rightarrow> cached_item \<Rightarrow> cached_item" where
  "with_form f x = x\<lparr>ci_type := fst f, ci_sqe := snd f\<rparr>"

lemma mask_idem: "(a AND m) AND m = (a AND m :: u32)"
  by (simp add: and.assoc)

lemma notify_bits_small: "n < 2 ^ 13 \<Longrightarrow> notify_bits n = ucast n"
proof -
  assume n: "n < (2 ^ 13 :: u64)"
  then have "(ucast n :: u32) < 2 ^ 13" by (simp add: word_less_nat_alt unsigned_ucast_eq take_bit_nat_eq_self)
  then have "take_bit 13 (ucast n :: u32) = ucast n" by (simp add: word_unat_eq_iff unsigned_take_bit_eq take_bit_nat_eq_self word_less_nat_alt)
  then show ?thesis by (simp add: notify_bits_def take_bit_eq_mask mask_eq_exp_minus_1)
qed

text \<open>
  C38: Refreshing a notification between ranks for a new count gives exactly the entry the
  dispatcher issues for that count, whatever count the cached entry was issued or refreshed for:
  entries and placeholders turn into each other without loss.
\<close>

theorem update_sync_as_issued:
  assumes "valid_sync k"
  shows "update_sync t' count' (with_form (issued_form count k s t) x) = Inr (with_form (issued_form count' k s t') x)"
proof (cases k)
  case (Wait n cfg)
  have nb: "notify_bits n = ucast n" "(ucast n :: u32) AND 0x1FFF = ucast n"
    using notify_bits_small[of n] assms by (simp_all add: Wait notify_bits_def)
  show ?thesis
    by (cases "count = 0"; cases "count' = 0") (simp_all add: Wait with_form_def update_sync_def need_def as_notify_def as_placeholder_def
      as_notify_tag_def UpdateNotifySqeForAlltoallv_def UpdateNotifyPlaceholderSqeForAlltoallv_def renumber_def set_taskId_def
      set_header_task_def AddOneNotifyWaitSqeV1_def AddOneCacheNotifyWaitPlaceholderSqeV1_def SetCachePlaceholderHeaderV1_def
      SetCachePlaceholderHeaderForAlltoallv_def header_def nb word_gt_0 split: prod.split)
next
  case (WriteRecord a)
  have "(0x1FFFF :: u64) = mask 17" "(0x1FFFF :: u32) = mask 17" by (simp_all add: mask_eq_exp_minus_1)
  then have hb: "high17 a AND 0x1FFFF = high17 a"
    by (simp add: high17_def MASK_17_BIT_def) (auto intro: bit_word_eqI simp: bit_simps)
  show ?thesis
    by (cases "count = 0"; cases "count' = 0") (simp_all add: WriteRecord with_form_def update_sync_def need_def as_write_def as_placeholder_def
      as_write_tag_def UpdateWriteValueSqeForAlltoallv_def UpdateWritePlaceholderSqeForAlltoallv_def renumber_def set_taskId_def
      set_header_task_def AddOneWriteValueRecordSqeV1_def AddOneCacheWriteValuePlaceholderSqeV1_def SetCachePlaceholderHeaderV1_def
      SetCachePlaceholderHeaderForAlltoallv_def header_def hb word_gt_0)
next
  case (CopyRecord src len dst linkType)
  have len: "len \<noteq> 0" using assms by (simp add: CopyRecord)
  have qos: "link_qos linkType SDMA_QOS_DEFAULT AND 0xF = link_qos linkType SDMA_QOS_DEFAULT"
    by (simp add: link_qos_def SDMA_QOS_DEFAULT_def)
  show ?thesis
    by (cases "count = 0"; cases "count' = 0") (simp_all add: CopyRecord with_form_def update_sync_def need_def as_memcpy_def as_placeholder_def
      as_record_tag_def UpdateMemcpyRecordSqeForAlltoallv_def UpdateMemcpyRecordPlaceholderSqeForAlltoallv_def renumber_def set_taskId_def
      set_header_task_def AddOneMemcpySqeV1_def AddOneCacheMemcpyRecordPlaceholderSqeV1_def SetCachePlaceholderHeaderV1_def
      SetCachePlaceholderHeaderForAlltoallv_def header_def isReduce_def len qos word_gt_0)
qed


text \<open>A record cached as a placeholder, when there is something to send again.\<close>

lemma update_sync_as_issued_witness:
  "update_sync 9 64 (with_form (issued_form 0 (WriteRecord 0x1000) 2 3) fresh_item) =
     Inr (with_form (AddOneWriteValueRecordSqeV1 2 9 0x1000) fresh_item)"
  using update_sync_as_issued[of "WriteRecord 0x1000" 9 64 0 2 3 fresh_item] by simp

end
