(* ===== verification/DispatchProof.thy ===== *)
theory DispatchProof
  imports AicpuDispatcher
begin

text \<open>
  The copies of the dispatcher: a copy is cut into parts of at most 4 GB, and the stream gets one
  entry for each part, in order. The length of an entry has 32 bits, so that an entry for
  a full part carries the length zero.
\<close>

section \<open>The parts of a copy\<close>

lemma spilt_loop_nat: "n \<noteq> 0 \<Longrightarrow> unat (spilt_loop n) = (unat n - 1) div 2 ^ 32"
proof -
  assume n: "n \<noteq> 0"
  have M: "unat HCCL_SDMA_MAX_COUNT_4GB = 2 ^ 32" by (simp add: HCCL_SDMA_MAX_COUNT_4GB_def)
  have div: "unat (n div HCCL_SDMA_MAX_COUNT_4GB) = unat n div 2 ^ 32" by (simp add: unat_div M)
  have mod: "n mod HCCL_SDMA_MAX_COUNT_4GB = 0 \<longleftrightarrow> unat n mod 2 ^ 32 = 0"
    unfolding word_unat_eq_iff by (simp add: unat_mod M)
  have less: "HCCL_SDMA_MAX_COUNT_4GB < n \<longleftrightarrow> 2 ^ 32 < unat n" by (simp add: word_less_nat_alt M)
  have pos: "0 < unat n" using n by (simp add: unat_gt_0)
  show ?thesis
  proof (cases "2 ^ 32 < unat n")
    case False
    then show ?thesis using pos by (simp add: spilt_loop_def less)
  next
    case True
    then have "1 \<le> unat n div 2 ^ 32" by (simp add: Suc_le_eq div_greater_zero_iff)
    then have one: "(1 :: u64) \<le> n div HCCL_SDMA_MAX_COUNT_4GB" by (simp add: word_le_nat_alt div)
    have "unat n div 2 ^ 32 - 1 = (unat n - 1) div 2 ^ 32" if "unat n mod 2 ^ 32 = 0"
      using that pos by (auto simp: mod_eq_0_iff_dvd elim!: dvdE)
    moreover have "unat n div 2 ^ 32 = (unat n - 1) div 2 ^ 32" if "unat n mod 2 ^ 32 \<noteq> 0"
      using that pos by (metis Suc_pred' div_Suc)
    ultimately show ?thesis using True one by (auto simp: spilt_loop_def less mod unat_sub div)
  qed
qed


definition part_count :: "nat \<Rightarrow> nat" where
  "part_count n = (n + 2 ^ 32 - 1) div 2 ^ 32"

lemma part_count_Suc: "0 < n \<Longrightarrow> part_count n = Suc ((n - 1) div 2 ^ 32)"
proof -
  assume "0 < n"
  then have "n + 2 ^ 32 - 1 = (n - 1) + 2 ^ 32" by linarith
  then show ?thesis unfolding part_count_def by (simp add: div_add_self2)
qed

lemma sdma_parts_closed:
  assumes n: "n \<noteq> 0"
  shows "map (\<lambda>p. (unat (fst p), unat (snd p))) (sdma_parts n) =
    map (\<lambda>i. (i * 2 ^ 32, min (2 ^ 32) (unat n - i * 2 ^ 32))) [0..<part_count (unat n)]"
proof -
  let ?L = "unat (spilt_loop n)"
  have M: "unat HCCL_SDMA_MAX_COUNT_4GB = 2 ^ 32" by (simp add: HCCL_SDMA_MAX_COUNT_4GB_def)
  have pos: "0 < unat n" using n by (simp add: unat_gt_0)
  have L: "?L = (unat n - 1) div 2 ^ 32" by (rule spilt_loop_nat[OF n])
  have n64: "unat n < 2 ^ 64" using unsigned_less[of n, where ?'a = nat] by simp
  have part: "(unat (of_nat i * HCCL_SDMA_MAX_COUNT_4GB), unat (if of_nat i = spilt_loop n then n - of_nat i * HCCL_SDMA_MAX_COUNT_4GB
      else HCCL_SDMA_MAX_COUNT_4GB)) = (i * 2 ^ 32, min (2 ^ 32) (unat n - i * 2 ^ 32))" if i: "i \<le> ?L" for i
  proof -
    have le: "i * 2 ^ 32 \<le> unat n - 1" using i unfolding L by (simp add: less_eq_div_iff_mult_less_eq)
    have "i \<le> i * 2 ^ 32" by simp
    then have small: "i < 2 ^ 64" using le n64 by linarith
    have off: "unat (of_nat i * HCCL_SDMA_MAX_COUNT_4GB) = i * 2 ^ 32"
      using le n64 small by (simp add: unat_word_ariths M unat_of_nat)
    have eq: "of_nat i = spilt_loop n \<longleftrightarrow> i = ?L"
      using small by (auto simp: word_unat_eq_iff unat_of_nat)
    have last: "unat (n - of_nat i * HCCL_SDMA_MAX_COUNT_4GB) = unat n - i * 2 ^ 32"
      using le pos by (subst unat_sub) (simp_all add: word_le_nat_alt off)
    show ?thesis
    proof (cases "i = ?L")
      case True
      have "unat n - 1 < Suc i * 2 ^ 32" unfolding True L
        using dividend_less_div_times[of "2 ^ 32" "unat n - 1"] by simp
      then show ?thesis using True eq off last pos by simp
    next
      case False
      then have "Suc i \<le> (unat n - 1) div 2 ^ 32" using i L by simp
      then have "Suc i * 2 ^ 32 \<le> unat n - 1" by (simp add: less_eq_div_iff_mult_less_eq)
      then show ?thesis using False eq off M by (simp add: min_def)
    qed
  qed
  have "part_count (unat n) = Suc ?L" using part_count_Suc[OF pos] L by simp
  then show ?thesis using part by (simp add: sdma_parts_def comp_def del: upt_Suc)
qed

lemma parts_sum: "(\<Sum>i\<leftarrow>[0..<k]. min M (n - i * M)) = min n (k * M)" for n :: nat
  by (induction k) auto

lemma sdma_parts_sum:
  assumes "n \<noteq> 0"
  shows "sum_list (map (\<lambda>p. unat (snd p)) (sdma_parts n)) = unat n"
proof -
  have pos: "0 < unat n" using assms by (simp add: unat_gt_0)
  have "map (\<lambda>p. unat (snd p)) (sdma_parts n) = map snd (map (\<lambda>p. (unat (fst p), unat (snd p))) (sdma_parts n))" by simp
  also have "\<dots> = map (\<lambda>i. min (2 ^ 32) (unat n - i * 2 ^ 32)) [0..<part_count (unat n)]"
    unfolding sdma_parts_closed[OF assms] by simp
  finally have "sum_list (map (\<lambda>p. unat (snd p)) (sdma_parts n)) = min (unat n) (part_count (unat n) * 2 ^ 32)"
    by (simp only: parts_sum)
  moreover have "unat n - 1 < Suc ((unat n - 1) div 2 ^ 32) * 2 ^ 32"
    using dividend_less_div_times[of "2 ^ 32" "unat n - 1"] by simp
  ultimately show ?thesis using part_count_Suc[OF pos] by simp
qed

section \<open>The entries of a copy\<close>

definition copy_part :: "DispatcherAiCpu \<Rightarrow> nat \<Rightarrow> aclDataType \<Rightarrow> aclrtReduceKind \<Rightarrow> u64 \<Rightarrow> u64 \<Rightarrow> u8 \<Rightarrow> u64 \<times> u64 \<Rightarrow> encoder" where
  "copy_part P s dt kind src dst linkType p =
     (\<lambda>t slot. addOneMemcpySqe (dp_info P) s t (src + fst p) (ucast (snd p)) dt kind (dst + fst p) linkType (dp_hcclQos P) slot)"

lemma GetNextSqeBufferAddr_config:
  "GetNextSqeBufferAddr s d = (m, idx, t) \<Longrightarrow> fst m = HCCL_SUCCESS \<Longrightarrow> d_ctx (snd m) s \<noteq> None"
  by (auto simp: GetNextSqeBufferAddr_def set_ctx_def Let_def split: option.splits if_splits)

text \<open>A call whose entry needs no setting and cannot fail takes a slot of its stream and fills it.\<close>

lemma call_sqe_emit:
  "call_sqe E fuel s (dfx_info P rank notifyId) id (\<lambda>d. Inr enc) P =
    map_option (\<lambda>(r, d). (r, P\<lparr>dp_dev := d\<rparr>))
      (emit_sqe E fuel s (dp_opRingBufferIdx P) (dfx_info P rank notifyId undefined) enc (dp_dev P))"
proof -
  let ?fill = "\<lambda>idx t d. let d = d\<lparr>d_dfxTimeOut := id (d_dfxTimeOut d)\<rparr> in fill_slot s idx t (dfx_info P rank notifyId) (Inr enc) d"
  let ?emit = "\<lambda>idx t. fill_sqe s idx t (dfx_info P rank notifyId undefined) enc"
  have step: "chk_ret m (?fill idx t) = chk_ret m (?emit idx t)" if "GetNextSqeBufferAddr s d = (m, idx, t)" for d m idx t
    using GetNextSqeBufferAddr_config[OF that]
    by (cases m) (auto simp: fill_slot_def dfx_info_def fill_sqe_def)
  have "(let (m, idx, t) = GetNextSqeBufferAddr s d in chk_ret m (?fill idx t)) =
      (let (m, idx, t) = GetNextSqeBufferAddr s d in chk_ret m (?emit idx t))" for d
  proof -
    obtain m idx t where g: "GetNextSqeBufferAddr s d = (m, idx, t)" by (metis prod_cases3)
    show ?thesis unfolding g using step[OF g] by simp
  qed
  then show ?thesis unfolding call_sqe_def emit_sqe_def take_sqe_def by (simp only:)
qed


lemma call_sqe_refines:
  assumes "roomy (dp_dev P)" "call_sqe E fuel s (dfx_info P rank notifyId) id (\<lambda>d. Inr enc) P = Some (HCCL_SUCCESS, P')"
  shows "roomy (dp_dev P')" "abs_queues (dp_dev P') = spec_emit s enc (abs_queues (dp_dev P))" "\<exists>d'. P' = P\<lparr>dp_dev := d'\<rparr>"
proof -
  obtain d' where e: "emit_sqe E fuel s (dp_opRingBufferIdx P) (dfx_info P rank notifyId undefined) enc (dp_dev P) = Some (HCCL_SUCCESS, d')"
    and P': "P' = P\<lparr>dp_dev := d'\<rparr>" using assms(2) unfolding call_sqe_emit by auto
  from emit_refines[OF assms(1) e] show "roomy (dp_dev P')" "abs_queues (dp_dev P') = spec_emit s enc (abs_queues (dp_dev P))"
    using appends_roomy[OF assms(1)] by (auto simp: P')
  show "\<exists>d'. P' = P\<lparr>dp_dev := d'\<rparr>" using P' by blast
qed

lemma emit_parts_refines:
  "roomy (dp_dev P) \<Longrightarrow> emit_parts E fuel s rank dt kind src dst linkType ps P = Some (HCCL_SUCCESS, P') \<Longrightarrow>
   abs_queues (dp_dev P') = fold (\<lambda>p. spec_emit s (copy_part P s dt kind src dst linkType p)) ps (abs_queues (dp_dev P)) \<and> roomy (dp_dev P')"
proof (induction ps arbitrary: P)
  case (Cons p ps)
  obtain r1 P1 where c: "call_sqe E fuel s (dfx_info P rank INVALID_VALUE_RANKID) id (\<lambda>d. Inr (copy_part P s dt kind src dst linkType p)) P = Some (r1, P1)"
    and k: "if r1 = HCCL_SUCCESS then emit_parts E fuel s rank dt kind src dst linkType ps P1 = Some (HCCL_SUCCESS, P') else (HCCL_SUCCESS, P') = (r1, P1)"
    using Cons.prems(2) by (auto simp: chk_opt_def copy_part_def split: option.splits if_splits)
  have r1: "r1 = HCCL_SUCCESS" and rest: "emit_parts E fuel s rank dt kind src dst linkType ps P1 = Some (HCCL_SUCCESS, P')"
    using k by (auto split: if_splits)
  note R = call_sqe_refines[OF Cons.prems(1) c[unfolded r1]]
  obtain d' where P1: "P1 = P\<lparr>dp_dev := d'\<rparr>" using R(3) by blast
  have "copy_part P1 s dt kind src dst linkType = copy_part P s dt kind src dst linkType" by (intro ext) (simp add: copy_part_def P1)
  then show ?case using Cons.IH[OF R(1) rest] R(2) by simp
qed simp

text \<open>
  What a copy entry carries, for either kind of chip: where it reads, where it writes, and its
  length, a field of 32 bits.
\<close>

definition carried :: "sqe \<Rightarrow> (u64 \<times> u64 \<times> u32) option" where
  "carried e = (case e of
       MemcpySqe m \<Rightarrow> Some (memcpy_src m, memcpy_dst m, mc_length m)
     | MemcpySqeV2 m \<Rightarrow> Some (CombineUint32ToUint64 (m2_src_addr_high m) (m2_src_addr_low m),
         CombineUint32ToUint64 (m2_dst_addr_high m) (m2_dst_addr_low m), m2_length m)
     | _ \<Rightarrow> None)"

definition carried_length :: "sqe \<Rightarrow> nat" where
  "carried_length e = (case carried e of None \<Rightarrow> 0 | Some (_, _, l) \<Rightarrow> unat l)"

lemma halves: "CombineUint32ToUint64 (high32 a) (low32 a) = a"
proof -
  have M: "MASK_32_BIT = (mask 32 :: u64)" by (simp add: MASK_32_BIT_def mask_eq_exp_minus_1)
  show ?thesis unfolding CombineUint32ToUint64_def high32_def low32_def M
    by (rule bit_word_eqI) (auto simp: bit_simps)
qed

lemma copy_part_carries:
  assumes "src \<noteq> dst"
  shows "carried (snd (copy_part P s dt kind src dst linkType p t slot)) =
    Some (src + fst p, dst + fst p, ucast (snd p))"
proof -
  have "src + fst p \<noteq> 0 \<or> dst + fst p \<noteq> 0" using assms by (metis add_right_cancel)
  then show ?thesis
    by (auto simp: copy_part_def addOneMemcpySqe_def AddOneMemcpySqeV1_def AddOneMemcpySqeV2_def carried_def memcpy_src_def
        memcpy_dst_def halves Let_def)
qed

lemma length_field:
  assumes "i < part_count n" "n < 2 ^ 64"
  shows "(ucast (word_of_nat (min (2 ^ 32) (n - i * 2 ^ 32)) :: u64) :: u32) =
    (if Suc i * 2 ^ 32 \<le> n then 0 else word_of_nat (n - i * 2 ^ 32))"
proof (cases "Suc i * 2 ^ 32 \<le> n")
  case True
  then have "min (2 ^ 32) (n - i * 2 ^ 32) = 2 ^ 32" by simp
  then show ?thesis using True
    by (subst word_unat_eq_iff) (simp add: unsigned_ucast_eq take_bit_eq_mod)
next
  case False
  then have "min (2 ^ 32) (n - i * 2 ^ 32) = n - i * 2 ^ 32" by simp
  then show ?thesis using False assms(2)
    by (subst word_unat_eq_iff) (simp add: unsigned_ucast_eq unat_of_nat take_bit_eq_mod)
qed

lemma parts_carry:
  assumes "n \<noteq> 0" "src \<noteq> dst"
  shows "map (\<lambda>p. carried (snd (copy_part P s dt kind src dst linkType p t slot))) (sdma_parts n) =
    map (\<lambda>i. Some (src + word_of_nat (i * 2 ^ 32), dst + word_of_nat (i * 2 ^ 32),
           if Suc i * 2 ^ 32 \<le> unat n then 0 else word_of_nat (unat n - i * 2 ^ 32)))
      [0..<part_count (unat n)]"
proof -
  let ?f = "\<lambda>x :: nat \<times> nat. Some (src + word_of_nat (fst x), dst + word_of_nat (fst x), (ucast (word_of_nat (snd x) :: u64) :: u32))"
  have "map (\<lambda>p. carried (snd (copy_part P s dt kind src dst linkType p t slot))) (sdma_parts n) =
      map ?f (map (\<lambda>p. (unat (fst p), unat (snd p))) (sdma_parts n))"
    by (simp add: copy_part_carries[OF assms(2)])
  also have "\<dots> = map (\<lambda>i. ?f (i * 2 ^ 32, min (2 ^ 32) (unat n - i * 2 ^ 32))) [0..<part_count (unat n)]"
    unfolding sdma_parts_closed[OF assms(1)] by simp
  also have "\<dots> = map (\<lambda>i. Some (src + word_of_nat (i * 2 ^ 32), dst + word_of_nat (i * 2 ^ 32),
           if Suc i * 2 ^ 32 \<le> unat n then 0 else word_of_nat (unat n - i * 2 ^ 32)))
      [0..<part_count (unat n)]"
    using length_field[of _ "unat n"] unsigned_less[of n, where ?'a = nat]
    by (intro map_cong refl) (auto simp del: of_nat_mult of_nat_power)
  finally show ?thesis .
qed

lemma parts_lengths:
  assumes "n \<noteq> 0" "src \<noteq> dst"
  shows "sum_list (map (\<lambda>p. carried_length (snd (copy_part P s dt kind src dst linkType p t slot))) (sdma_parts n)) =
    unat n mod 2 ^ 32"
proof -
  have len: "carried_length (snd (copy_part P s dt kind src dst linkType p t slot)) = unat (snd p) mod 2 ^ 32" for p
    by (simp add: carried_length_def copy_part_carries[OF assms(2)] unsigned_ucast_eq take_bit_eq_mod)
  have "map (\<lambda>p. unat (snd p) mod 2 ^ 32) (sdma_parts n) =
      map (\<lambda>p. snd p mod 2 ^ 32) (map (\<lambda>p. (unat (fst p), unat (snd p))) (sdma_parts n))" by simp
  also have "\<dots> = map (\<lambda>i. min (2 ^ 32) (unat n - i * 2 ^ 32) mod 2 ^ 32) [0..<part_count (unat n)]"
    unfolding sdma_parts_closed[OF assms(1)] by simp
  finally have parts: "map (\<lambda>p. unat (snd p) mod 2 ^ 32) (sdma_parts n) =
      map (\<lambda>i. min (2 ^ 32) (unat n - i * 2 ^ 32) mod 2 ^ 32) [0..<part_count (unat n)]" .
  have whole: "k * 4294967296 = m \<Longrightarrow> m mod 4294967296 = 0" for k m :: nat by auto
  have "(\<Sum>i\<leftarrow>[0..<k]. min (2 ^ 32) (unat n - i * 2 ^ 32) mod 2 ^ 32) =
      (if unat n < k * 2 ^ 32 then unat n mod 2 ^ 32 else 0)" for k
  proof (induction k)
    case (Suc k)
    have "min (2 ^ 32) (unat n - k * 2 ^ 32) mod 2 ^ 32 =
        (if k * 2 ^ 32 < unat n \<and> unat n < Suc k * 2 ^ 32 then unat n mod 2 ^ 32 else 0)"
    proof (cases "k * 2 ^ 32 \<le> unat n")
      case True
      then obtain r where r: "unat n = k * 2 ^ 32 + r" by (metis le_Suc_ex)
      then show ?thesis by (auto simp: min_def)
    qed simp
    then show ?case using Suc by (auto dest!: whole)
  qed simp
  moreover have "unat n \<le> part_count (unat n) * 2 ^ 32"
    unfolding part_count_def using dividend_less_div_times[of "2 ^ 32" "unat n + 2 ^ 32 - 1"] by simp
  ultimately show ?thesis unfolding len parts by (auto simp: le_less dest!: whole[OF sym])
qed

text \<open>
  C39: What a copy issues. When \<open>MemcpyAsync\<close> succeeds on a device with room, its stream has got, in
  order and with the task numbers due, one entry for each started 4 GB of the length, the one of
  the part \<open>i\<close> reading and writing \<open>i\<close> times 4 GB into the two memories. The last entry carries
  the length that is left when that is below 4 GB; an entry for a full part carries the length
  zero, its 32 bits being all the entry has. So the lengths carried add up to the
  length asked for when that is below 4 GB, and to its remainder modulo 4 GB otherwise.
\<close>

theorem MemcpyAsync_emits:
  assumes "roomy (dp_dev P)" "\<not> dp_isPlaceholder P" "dm_len src \<noteq> 0" "dm_addr src \<noteq> dm_addr dst" "dm_len src \<le> dm_len dst"
    and "MemcpyAsync E fuel dst src s remoteUserRank linkType P = Some (HCCL_SUCCESS, P')"
  defines "enc \<equiv> copy_part P s ACL_FLOAT ACL_RT_MEMCPY_INVALID (dm_addr src) (dm_addr dst) linkType"
    and "n \<equiv> unat (dm_len src)"
  shows "abs_queues (dp_dev P') = fold (\<lambda>p. spec_emit s (enc p)) (sdma_parts (dm_len src)) (abs_queues (dp_dev P)) \<and>
    map (\<lambda>p. carried (snd (enc p t slot))) (sdma_parts (dm_len src)) =
      map (\<lambda>i. Some (dm_addr src + word_of_nat (i * 2 ^ 32), dm_addr dst + word_of_nat (i * 2 ^ 32),
             if Suc i * 2 ^ 32 \<le> n then 0 else word_of_nat (n - i * 2 ^ 32)))
        [0..<part_count n] \<and>
    sum_list (map (\<lambda>p. carried_length (snd (enc p t slot))) (sdma_parts (dm_len src))) = n mod 2 ^ 32"
proof -
  have ne: "src \<noteq> dst" using assms(4) by auto
  have "emit_parts E fuel s remoteUserRank ACL_FLOAT ACL_RT_MEMCPY_INVALID (dm_addr src) (dm_addr dst) linkType (sdma_parts (dm_len src)) P =
      Some (HCCL_SUCCESS, P')"
    using assms(2,3,5,6) ne by (auto simp: MemcpyAsync_def dest: leD split: if_splits)
  from emit_parts_refines[OF assms(1) this] show ?thesis
    unfolding enc_def n_def using parts_carry[OF assms(3,4)] parts_lengths[OF assms(3,4)] by blast
qed

text \<open>A copy of 64 bytes on the stream of \<open>device1\<close>.\<close>

definition dispatcher2 :: DispatcherAiCpu where
  "dispatcher2 = \<lparr>dp_dev = device1, dp_info = \<lparr>ai_devId = 0, ai_ssid = 0, ai_devType = DEV_TYPE_910B, ai_overflowAddr = 0, ai_chipId = 0\<rparr>,
     dp_opRingBufferIdx = 3, dp_notifyMaxWaitTime = NOTIFY_MAX_WAIT_TIME_910_93, dp_notifySize = 4, dp_hcclQos = 6, dp_isPlaceholder = False,
     dp_key = \<lparr>ok_opType = 2, ok_dataType = 4, ok_reduceType = 0, ok_isZeroCopy = False, ok_inputSize = 0, ok_isInplacePreSync = False,
       ok_workflowMode = 1, ok_isCapture = False\<rparr>,
     dp_cachePtr = False, dp_userInputMemRanges = [], dp_userOutputMemRanges = [], dp_isAlltoallv = False, dp_alltoallvMetadata = None\<rparr>"

lemma parts64: "sdma_parts 64 = [(0, 64)]"
  by (simp add: sdma_parts_def spilt_loop_def HCCL_SDMA_MAX_COUNT_4GB_def)

lemma dispatcher2_run:
  "\<exists>P'. MemcpyAsync quiet_env 1 \<lparr>dm_addr = 0x2000, dm_len = 64\<rparr> \<lparr>dm_addr = 0x1000, dm_len = 64\<rparr> 0 1 3 dispatcher2 = Some (HCCL_SUCCESS, P')"
  by (simp add: MemcpyAsync_def dispatcher2_def parts64 call_sqe_def GetStreamSqeBufferAddr_def SaveStreamInfo_def launch_when_def
      device1_def wrapped_buffer_def chk_opt_def flip_when_def AddFlipTask_def HCCL_PER_LAUNCH_SQE_CNT_def HCCL_SQE_MAX_CNT_def
      take_sqe_def GetNextSqeBufferAddr_def fill_sqe_def fill_slot_def set_ctx_def Let_def AddOneFlipPlaceHolderSqeV1_def
      addOneMemcpySqe_def is310P_def AddOneMemcpySqeV1_def)

lemma MemcpyAsync_emits_witness:
  "\<exists>P'. MemcpyAsync quiet_env 1 \<lparr>dm_addr = 0x2000, dm_len = 64\<rparr> \<lparr>dm_addr = 0x1000, dm_len = 64\<rparr> 0 1 3 dispatcher2 = Some (HCCL_SUCCESS, P') \<and>
     issued (dp_dev P') 0 = [snd (AddOneFlipPlaceHolderSqeV1 0 1 0),
       snd (AddOneMemcpySqeV1 0 1 0x1000 64 ACL_FLOAT ACL_RT_MEMCPY_INVALID 0x2000 0 3 6 ZeroSqe)]"
proof -
  obtain P' where run: "MemcpyAsync quiet_env 1 \<lparr>dm_addr = 0x2000, dm_len = 64\<rparr> \<lparr>dm_addr = 0x1000, dm_len = 64\<rparr> 0 1 3 dispatcher2 =
      Some (HCCL_SUCCESS, P')" using dispatcher2_run by blast
  have d: "dp_dev dispatcher2 = device1" "\<not> dp_isPlaceholder dispatcher2" by (simp_all add: dispatcher2_def)
  have "abs_queues (dp_dev P') = spec_emit 0 (copy_part dispatcher2 0 ACL_FLOAT ACL_RT_MEMCPY_INVALID 0x1000 0x2000 3 (0, 64)) (abs_queues device1)"
    using conjunct1[OF MemcpyAsync_emits[OF _ d(2) _ _ _ run]] device1_roomy by (simp add: d parts64)
  then have "fst (abs_queues (dp_dev P') 0) = [snd (AddOneFlipPlaceHolderSqeV1 0 1 0),
       snd (AddOneMemcpySqeV1 0 1 0x1000 64 ACL_FLOAT ACL_RT_MEMCPY_INVALID 0x2000 0 3 6 ZeroSqe)]"
    by (simp add: spec_emit_def spec_entries_def device1_queues copy_part_def addOneMemcpySqe_def dispatcher2_def is310P_def sid_def Let_def)
  then show ?thesis using run by (simp add: abs_queues_def)
qed

end
