(* ===== verification/Spec2Isabelle.thy ===== *)
theory Spec2Isabelle
  imports Peterson RmaBuffer HeartbeatBuffers Mc2Msg Mc2Client Mc2Server Mc2Dispatch GatherNBProof AllReduceProof BroadcastProof ReplayProof UnfoldProof DispatchProof
begin

text \<open>
  A model of the collective communication library of the accelerator: how operators reach the
  AICPU, how the ranks exchange data, and how the AICPU turns that into entries of hardware
  queues. Paths are relative to src/aicore/mc2/src/aicpu_kfc unless they start with include/ or
  collective_comm/.

  \<^bold>\<open>The parts and how they meet.\<close> A kernel on the AI cores (client) writes a message for every
  collective it wants into a block of memory; a server on the AICPU polls the block, checks the
  message and launches the operator with one task per repetition between a wait and a record of
  turn counters. The operator is a collective algorithm: every rank runs a template, which calls
  its links and its stream. On the device the calls end in the dispatcher, which writes a
  submission queue entry (SQE) for each into a local buffer of the stream and launches the
  buffer into the ring of the task scheduler. An operator called again with the same parameters
  is not unfolded again: its entries are kept in a cache, refreshed and launched from there.

  \<^bold>\<open>Theories and sources.\<close>
  \<^item> \<open>Prelude\<close>: result codes and \<open>CHK_RET\<close> (log.h), machine integers, and the locales
    \<open>invariant_system\<close>, \<open>exclusion_system\<close>, \<open>refcount_store\<close> and \<open>segment_queue\<close>, interpreted
    below by the lock, the client and the dispatcher, the registration table and the reference
    map, and the byte ring.
  \<^item> \<open>Peterson\<close>: \<open>PetersonLock\<close> and its guard (platform/common/peterson_lock.cc); \<open>lock_step\<close> is
    \<open>Lock\<close> cut at each access of the shared words, a state is the memory with both sides' places.
  \<^item> \<open>RmaBuffer\<close>: \<open>RmaBufferMgr\<close> (platform/common/buffer_manager); a sorted list stands for the
    \<open>std::map\<close>.
  \<^item> \<open>HeartbeatBuffers\<close>: \<open>RingBuffer\<close> and \<open>ReferenceMap\<close> (framework/cluster_maintenance/health).
  \<^item> \<open>Mc2Msg\<close>: the messages (include/collective_comm/device/hccl_msg.h,
    collective_comm/device/common/hccl_aicpu_common.h) as 16 words, their stores one by one, and
    their checks on the server (framework/device/aicpu_kfc/common/aicpu_kfc_utils.cc).
  \<^item> \<open>Mc2Client\<close>: \<open>HcclImpl\<close> (collective_comm/device/common/hccl_aicpu_impl.h, platform V310).
  \<^item> \<open>Mc2Server\<close>, \<open>Mc2Dispatch\<close>: the server of one communication group and the polling of all
    (framework/device/aicpu_kfc/decoupler). A waiting loop takes one unit of fuel per turn; the
    properties say how many are enough, or hold for every number.
  \<^item> \<open>CollBase\<close>, \<open>NhrBase\<close>, \<open>AllGather\<close>: the template base, the calls of the links
    (platform/resource/transport) and the two AllGather templates between servers
    (algorithm/base/alg_template). A rank's program yields a result and the list of actions it
    has launched; a launch fails as the environment says.
  \<^item> \<open>Streams\<close>, \<open>Schedules\<close>, \<open>Gather\<close>, \<open>GatherProof\<close>, \<open>GatherNBProof\<close>: the ranks' streams side by
    side, the arithmetic of the rounds, and the gathering of data round by round. The locales
    \<open>gather_schedule\<close>, \<open>read_gather\<close>, \<open>write_gather\<close> and \<open>gather_streams\<close> state what a schedule has
    to satisfy; both templates interpret them with their own schedules.
  \<^item> \<open>ReduceScatter\<close>: the sender and the reducer of a link (component/sender.cc, reducer.cc), and
    the ReduceScatter and AllReduce templates over the hierarchical ring
    (temp_reduce_scatter/reduce_scatter_nhr.cc, temp_all_reduce/all_reduce_nhr.cc).
  \<^item> \<open>ScatterBroadcast\<close>: the Scatter and Broadcast templates over the hierarchical ring
    (temp_scatter/scatter_nhr.cc, temp_broadcast/broadcast_nhr.cc).
  \<^item> \<open>Rounds\<close>, \<open>WriteRounds\<close>: where data is overwritten the order of the steps matters. The
    locales \<open>read_rounds\<close> (the receiver copies) and \<open>write_rounds\<close> (the sender writes) state when
    every interleaving of streams ends as the execution round by round does, in which all ranks
    take a round at once; in a round a rank may send, receive, do both or neither. Programs in
    rounds can be put one after the other.
  \<^item> \<open>SliceRounds\<close>, \<open>ReduceSchedule\<close>, \<open>ReduceSlices\<close>, \<open>ReduceSteps\<close>, \<open>ReduceProof\<close>, \<open>GatherRounds\<close>, \<open>AllReduceProof\<close>:
    ReduceScatter and AllGather as rounds, and AllReduce as the one after the other.
  \<^item> \<open>ScatterSchedule\<close>, \<open>ScatterProof\<close>, \<open>BroadcastProof\<close>: the same for Scatter, whose rounds
    follow a tree from the root, and for Broadcast, which is Scatter followed by AllGather.
  \<^item> \<open>Sqe\<close>: the entries and their encoders (platform/task/rtsq_interact, pub_inc/aicpu).
  \<^item> \<open>SqeRing\<close>: \<open>SqeRingBuffer\<close> (pub_inc/stream_pub.h), the local buffer
    (platform/resource/stream/stream.cc) and the launches (platform/task/dispatcher_aicpu.cc). The
    record \<open>device\<close> holds the buffers, the hardware rings, the scheduler's progress and the clock;
    \<open>launch_env\<close> answers for the driver.
  \<^item> \<open>SqeProof\<close>, \<open>SqeSpec\<close>: the invariant of the rings, and their refinement of a machine of queues.
  \<^item> \<open>UnfoldEntry\<close>, \<open>UnfoldRefresh\<close>, \<open>UnfoldCache\<close>: the cache (platform/common/unfold_cache).
  \<^item> \<open>AicpuDispatcher\<close>: \<open>DispatcherAiCpu\<close> (platform/task/dispatcher_aicpu.cc), its settings, its
    tasks and the launch of a cached operator.
  \<^item> \<open>ReplayProof\<close>, \<open>UnfoldProof\<close>, \<open>DispatchProof\<close>: the properties of the last two.

  \<^bold>\<open>What is shown.\<close> The lock excludes, makes progress and can be left locked only by a failed copy.
  The containers keep what is put into them. A message is read back field by field, is never seen
  half written, and a damaged word is noticed; the client's counters never overtake each other by
  more than a step that does not divide the turns of its task; the server launches exactly the
  tasks of a message, nothing for a message it refuses, and returns only when all groups are
  finished. The AllGather templates never block and deliver every part at every rank, for every
  number of ranks below \<open>2 ^ 31\<close>, on reading and on writing links. ReduceScatter leaves at every
  rank the reduction of its part over all ranks, and AllReduce the reduction of all data in every
  output, for every associative operation, however the ranks' steps interleave, on reading and
  on writing links; the slices AllReduce makes divide the data. On both kinds of links Scatter
  leaves at every rank its part of the root's data, and Broadcast all of it. A stream's entries
  reach the scheduler once, in order and with the right task numbers at any pace of the scheduler
  and whatever fails, and a launch returns when its time-out has passed. A cached operator holds
  what was launched, its addresses move with the user's memory as long as they lie in it, its
  notifications are refreshed as they would be issued, and launching it is one step of the same
  abstract queues. A copy issues an entry for each 4 GB, whose length field holds less than that.

  \<^bold>\<open>Fuel and bounds.\<close> Loops that wait for the scheduler or for a message take fuel, one unit per
  turn, and yield \<open>None\<close> without any; \<open>LaunchTask_returns\<close> and \<open>Run_success\<close> say when they
  return. Counters of the code that wrap are words or naturals with the wrap-around written out
  (\<open>w32\<close>, \<open>sub32\<close>).

  \<^bold>\<open>Not modelled.\<close> The communicator framework, the resource managers and the set-up of transports
  are calls of the driver, runtime and sockets, whose code is not in the repository; their answers
  are arguments here. Logging, profiling and tracing are left out. Reductions over RDMA links are
  shown to be right for links that do not ask for acknowledgements of received data. The other
  templates and executors of algorithm/, the operators under collective_comm/cc, the clients of
  the other platforms, and the second implementation of the framework under legacy/ are not
  covered. The scheduler's own execution of an entry is not modelled beyond taking entries from
  the ring in order, so the theorems on templates speak of actions and those on rings of entries.
\<close>

end
